(* ===== verification/Go_Prelude.thy ===== *)
theory Go_Prelude
  imports Main "HOL-Library.List_Lexorder" "HOL-Library.Char_ord" "HOL-Library.AList"
begin

text \<open>
  The part of the Go language and of its standard library that the modelled packages share.

  \<^item> A Go \<open>string\<close> is a sequence of bytes, and so is \<^typ>\<open>string\<close> here; \<open><\<close> on it is Go's
    bytewise order (\<open>HOL-Library.List_Lexorder\<close> over \<open>HOL-Library.Char_ord\<close>).
    \<open>strings.ToLower\<close>, \<open>strings.TrimSpace\<close> and \<open>strings.EqualFold\<close> are modelled on their ASCII
    path; the Unicode tables they consult for bytes above 127 are not, such bytes pass unchanged.
  \<^item> A Go \<open>map[string]V\<close> is an association list, \<open>'v table\<close>, read by \<^const>\<open>map_of\<close>. Loops
    over \<open>slices.Sorted(maps.Keys(m))\<close> run over \<open>tkeys m\<close>. The contract of the container is the
    locale \<open>go_map\<close>, interpreted on the association lists: what a loop over the sorted keys sees
    depends on the content of the map only.
  \<^item> A function that returns \<open>error\<close> alone returns \<open>'e option\<close>, \<^const>\<open>None\<close> for \<open>nil\<close>; a
    chain of early returns is \<open>first_some\<close>, a loop that stops at the first error \<open>first_err\<close>.
  \<^item> A \<open>time.Duration\<close> and a \<open>time.Time\<close> are \<^typ>\<open>int\<close> nanoseconds.
\<close>

named_theorems err_simps \<open>when a chain of checks reports nothing\<close>
named_theorems tbl_simps \<open>lookups and key sets of tables after an update\<close>
named_theorems str_simps \<open>splitting, joining and normalising strings\<close>

section \<open>Checks that return an error\<close>

text \<open>\<open>if cond { return err }\<close>.\<close>

definition guard_err :: "bool \<Rightarrow> 'e \<Rightarrow> 'e option" where
  "guard_err c e = (if c then Some e else None)"

text \<open>\<open>if err := a; err != nil { return err }; if err := b; ...\<close>: the first error wins.\<close>

fun first_some :: "'e option list \<Rightarrow> 'e option" where
  "first_some [] = None"
| "first_some (x # xs) = (case x of Some e \<Rightarrow> Some e | None \<Rightarrow> first_some xs)"

text \<open>\<open>for _, x := range xs { if err := f(x); err != nil { return err } }\<close>.\<close>

fun first_err :: "('a \<Rightarrow> 'e option) \<Rightarrow> 'a list \<Rightarrow> 'e option" where
  "first_err f [] = None"
| "first_err f (x # xs) = (case f x of Some e \<Rightarrow> Some e | None \<Rightarrow> first_err f xs)"

text \<open>A loop that threads a state and stops at the first error.\<close>

fun fold_err :: "('a \<Rightarrow> 's \<Rightarrow> 'e + 's) \<Rightarrow> 'a list \<Rightarrow> 's \<Rightarrow> 'e + 's" where
  "fold_err f [] s = Inr s"
| "fold_err f (x # xs) s = (case f x s of Inl e \<Rightarrow> Inl e | Inr s' \<Rightarrow> fold_err f xs s')"

lemma guard_err_None [err_simps]: "guard_err c e = None \<longleftrightarrow> \<not> c"
  by (simp add: guard_err_def)

lemma guard_err_Some [err_simps]: "guard_err c e = Some e' \<longleftrightarrow> c \<and> e' = e"
  by (auto simp: guard_err_def)

lemma first_some_None: "first_some xs = None \<longleftrightarrow> (\<forall>x\<in>set xs. x = None)"
  by (induction xs) (auto split: option.splits)

lemma first_some_Cons_None [err_simps]:
  "first_some (x # xs) = None \<longleftrightarrow> x = None \<and> first_some xs = None"
  by (auto split: option.splits)

declare first_some.simps(2) [simp del]

lemma first_some_Some: "first_some xs = Some e \<Longrightarrow> Some e \<in> set xs"
  by (induction xs) (auto simp: first_some.simps split: option.splits)

lemma first_err_None [err_simps]: "first_err f xs = None \<longleftrightarrow> (\<forall>x\<in>set xs. f x = None)"
  by (induction xs) (auto split: option.splits)

lemma first_err_Some: "first_err f xs = Some e \<Longrightarrow> \<exists>x\<in>set xs. f x = Some e"
  by (induction xs) (auto split: option.splits)

lemma first_err_cong [fundef_cong]:
  "xs = ys \<Longrightarrow> (\<And>x. x \<in> set ys \<Longrightarrow> f x = g x) \<Longrightarrow> first_err f xs = first_err g ys"
proof (induction xs arbitrary: ys)
  case (Cons x xs)
  then show ?case by (cases ys) (auto split: option.splits)
qed simp

lemma fold_err_append:
  "fold_err f (xs @ ys) s = (case fold_err f xs s of Inl e \<Rightarrow> Inl e | Inr s' \<Rightarrow> fold_err f ys s')"
  by (induction xs arbitrary: s) (auto split: sum.splits)

text \<open>An invariant of the loop body is an invariant of the loop.\<close>

lemma fold_err_invariant:
  assumes "fold_err f xs s = Inr t" and "P s"
    and "\<And>x s s'. x \<in> set xs \<Longrightarrow> P s \<Longrightarrow> f x s = Inr s' \<Longrightarrow> P s'"
  shows "P t"
  using assms
proof (induction xs arbitrary: s)
  case (Cons x xs)
  then obtain s' where s': "f x s = Inr s'" and rest: "fold_err f xs s' = Inr t"
    by (auto split: sum.splits)
  have "P s'" using Cons.prems(2,3) s' by auto
  then show ?case using Cons.IH [OF rest] Cons.prems(3) by auto
qed simp

section \<open>Maps with string keys\<close>

type_synonym ('k, 'v) gomap = "('k \<times> 'v) list"
type_synonym 'v table = "(string, 'v) gomap"

definition tput :: "'k \<Rightarrow> 'v \<Rightarrow> ('k, 'v) gomap \<Rightarrow> ('k, 'v) gomap" where
  "tput k v m = AList.update k v m"

definition tdel :: "'k \<Rightarrow> ('k, 'v) gomap \<Rightarrow> ('k, 'v) gomap" where
  "tdel k m = AList.delete k m"

text \<open>\<open>slices.Sorted(maps.Keys(m))\<close>.\<close>

definition tkeys :: "('k :: linorder, 'v) gomap \<Rightarrow> 'k list" where
  "tkeys m = sort (remdups (map fst m))"

text \<open>\<open>m[k]\<close> of a map whose value type has a zero value.\<close>

definition tget :: "'v \<Rightarrow> ('k, 'v) gomap \<Rightarrow> 'k \<Rightarrow> 'v" where
  "tget zero m k = (case map_of m k of None \<Rightarrow> zero | Some v \<Rightarrow> v)"

definition has_key :: "('k, 'v) gomap \<Rightarrow> 'k \<Rightarrow> bool" where
  "has_key m k = (map_of m k \<noteq> None)"

lemma map_of_tput [simp, tbl_simps]: "map_of (tput k v m) = (map_of m)(k \<mapsto> v)"
  by (simp add: tput_def update_conv')

lemma map_of_tdel [simp, tbl_simps]: "map_of (tdel k m) = (map_of m)(k := None)"
  by (simp add: tdel_def delete_conv')

lemma set_tkeys [simp, tbl_simps]: "set (tkeys m) = dom (map_of m)"
  by (simp add: tkeys_def dom_map_of_conv_image_fst)

lemma sorted_tkeys [simp]: "sorted (tkeys m)"
  by (simp add: tkeys_def)

lemma distinct_tkeys [simp]: "distinct (tkeys m)"
  by (simp add: tkeys_def)

lemma has_key_iff [simp]: "has_key m k \<longleftrightarrow> k \<in> dom (map_of m)"
  by (auto simp: has_key_def)

lemma tkeys_Nil [simp]: "tkeys [] = []"
  by (simp add: tkeys_def)

text \<open>
  What a client of a map may rely on. The loops of the modelled packages run over the sorted keys,
  and every one of their claims of determinism rests on \<open>keys_ext\<close>.
\<close>

locale go_map =
  fixes get :: "'m \<Rightarrow> 'k :: linorder \<Rightarrow> 'v option"
    and put :: "'k \<Rightarrow> 'v \<Rightarrow> 'm \<Rightarrow> 'm"
    and del :: "'k \<Rightarrow> 'm \<Rightarrow> 'm"
    and keys :: "'m \<Rightarrow> 'k list"
  assumes get_put: "get (put k v m) = (get m)(k \<mapsto> v)"
    and get_del: "get (del k m) = (get m)(k := None)"
    and set_keys: "set (keys m) = dom (get m)"
    and keys_sorted: "sorted (keys m)"
    and keys_distinct: "distinct (keys m)"
begin

lemma keys_ext: "get m = get m' \<Longrightarrow> keys m = keys m'"
  using sorted_distinct_set_unique [of "keys m" "keys m'"]
  by (simp add: set_keys keys_sorted keys_distinct)

lemma keys_put: "set (keys (put k v m)) = insert k (set (keys m))"
  by (simp add: set_keys get_put)

lemma keys_del: "set (keys (del k m)) = set (keys m) - {k}"
  by (auto simp: set_keys get_del)

lemma get_put_commute: "j \<noteq> k \<Longrightarrow> get (put j a (put k b m)) = get (put k b (put j a m))"
  by (auto simp: get_put)

end

interpretation tbl: go_map map_of tput tdel tkeys
  by unfold_locales simp_all

section \<open>Strings\<close>

definition lower_char :: "char \<Rightarrow> char" where
  "lower_char c = (let n = of_char c :: nat in if 65 \<le> n \<and> n \<le> 90 then char_of (n + 32) else c)"

text \<open>\<open>strings.ToLower\<close>.\<close>

definition to_lower :: "string \<Rightarrow> string" where
  "to_lower s = map lower_char s"

text \<open>\<open>strings.EqualFold\<close>.\<close>

definition equal_fold :: "string \<Rightarrow> string \<Rightarrow> bool" where
  "equal_fold a b = (to_lower a = to_lower b)"

definition is_space :: "char \<Rightarrow> bool" where
  "is_space c = (c \<in> {CHR '' '', CHR 0x09, CHR 0x0A, CHR 0x0B, CHR 0x0C, CHR 0x0D})"

text \<open>\<open>strings.TrimSpace\<close>.\<close>

definition trim_space :: "string \<Rightarrow> string" where
  "trim_space s = rev (dropWhile is_space (rev (dropWhile is_space s)))"

text \<open>\<open>strings.Split(s, sep)\<close> for a separator of one byte: never an empty list.\<close>

fun split_on :: "char \<Rightarrow> string \<Rightarrow> string list" where
  "split_on c [] = [[]]"
| "split_on c (x # xs) =
     (if x = c then [] # split_on c xs
      else (case split_on c xs of [] \<Rightarrow> [[x]] | y # ys \<Rightarrow> (x # y) # ys))"

text \<open>\<open>strings.Join(xs, sep)\<close>.\<close>

fun join :: "string \<Rightarrow> string list \<Rightarrow> string" where
  "join sep [] = []"
| "join sep [x] = x"
| "join sep (x # y # ys) = x @ sep @ join sep (y # ys)"

text \<open>\<open>strings.Cut(s, sep)\<close> for a separator of one byte: around its first occurrence.\<close>

fun cut :: "char \<Rightarrow> string \<Rightarrow> (string \<times> string) option" where
  "cut c [] = None"
| "cut c (x # xs) =
     (if x = c then Some ([], xs) else map_option (\<lambda>(a, b). (x # a, b)) (cut c xs))"

text \<open>\<open>strings.CutPrefix(s, p)\<close>.\<close>

fun cut_prefix :: "string \<Rightarrow> string \<Rightarrow> string option" where
  "cut_prefix s [] = Some s"
| "cut_prefix [] (p # ps) = None"
| "cut_prefix (x # xs) (p # ps) = (if x = p then cut_prefix xs ps else None)"

definition has_prefix :: "string \<Rightarrow> string \<Rightarrow> bool" where
  "has_prefix s p = (cut_prefix s p \<noteq> None)"

text \<open>\<open>strings.Contains\<close> and \<open>strings.ContainsAny\<close>.\<close>

fun contains_str :: "string \<Rightarrow> string \<Rightarrow> bool" where
  "contains_str [] sub = (sub = [])"
| "contains_str (x # xs) sub = (has_prefix (x # xs) sub \<or> contains_str xs sub)"

definition contains_any :: "string \<Rightarrow> string \<Rightarrow> bool" where
  "contains_any s chars = list_ex (\<lambda>c. c \<in> set chars) s"

text \<open>\<open>strings.ReplaceAll(s, sep, with)\<close> for a separator of one byte.\<close>

definition replace_all :: "char \<Rightarrow> string \<Rightarrow> string \<Rightarrow> string" where
  "replace_all c d s = concat (map (\<lambda>x. if x = c then d else [x]) s)"

text \<open>\<open>slices.Sort\<close> followed by \<open>slices.Compact\<close>.\<close>

definition sort_compact :: "'a :: linorder list \<Rightarrow> 'a list" where
  "sort_compact xs = remdups_adj (sort xs)"

subsection \<open>Lemmas on strings\<close>

lemma lower_char_idem [simp]: "lower_char (lower_char c) = lower_char c"
  by (simp add: lower_char_def Let_def)

lemma to_lower_idem [simp, str_simps]: "to_lower (to_lower s) = to_lower s"
  by (simp add: to_lower_def)

lemma length_to_lower [simp]: "length (to_lower s) = length s"
  by (simp add: to_lower_def)

lemma to_lower_Nil_iff [simp]: "to_lower s = [] \<longleftrightarrow> s = []"
  by (simp add: to_lower_def)

lemma trim_space_Nil [simp]: "trim_space [] = []"
  by (simp add: trim_space_def)

lemma split_on_not_Nil [simp]: "split_on c s \<noteq> []"
  by (induction s) (auto split: list.splits)

lemma split_on_no_sep: "c \<notin> set s \<Longrightarrow> split_on c s = [s]"
  by (induction s) auto

lemma split_on_parts: "p \<in> set (split_on c s) \<Longrightarrow> c \<notin> set p"
  by (induction s arbitrary: p) (auto split: list.splits if_splits)

lemma join_Cons_head: "ys \<noteq> [] \<Longrightarrow> join sep (x # ys) = x @ sep @ join sep ys"
  by (cases ys) auto

lemma join_head_Cons: "join sep ((x # y) # ys) = x # join sep (y # ys)"
  by (cases ys) auto

lemma join_split_on [str_simps]: "join [c] (split_on c s) = s"
proof (induction s)
  case (Cons x xs)
  then show ?case
    by (cases "split_on c xs") (auto simp: join_head_Cons)
qed simp

lemma split_on_append_sep:
  "c \<notin> set p \<Longrightarrow> split_on c (p @ c # s) = p # split_on c s"
  by (induction p) auto

lemma split_on_join [str_simps]:
  "ps \<noteq> [] \<Longrightarrow> \<forall>p\<in>set ps. c \<notin> set p \<Longrightarrow> split_on c (join [c] ps) = ps"
  by (induction "[c]" ps rule: join.induct) (auto simp: split_on_no_sep split_on_append_sep)

lemma cut_Some: "cut c s = Some (a, b) \<longleftrightarrow> s = a @ c # b \<and> c \<notin> set a"
  by (induction s arbitrary: a b) (auto simp: Cons_eq_append_conv split: if_splits)

lemma cut_None: "cut c s = None \<longleftrightarrow> c \<notin> set s"
  by (induction s) auto

lemma cut_prefix_Some: "cut_prefix s p = Some r \<longleftrightarrow> s = p @ r"
  by (induction s p rule: cut_prefix.induct) auto

lemma cut_prefix_append [simp]: "cut_prefix (p @ r) p = Some r"
  by (simp add: cut_prefix_Some)

lemma cut_prefix_self [simp]: "cut_prefix s s = Some []"
  by (simp add: cut_prefix_Some)

lemma cut_prefix_None: "cut_prefix s p = None \<longleftrightarrow> (\<forall>r. s \<noteq> p @ r)"
  using cut_prefix_Some [of s p] by (cases "cut_prefix s p") auto

lemma has_prefix_iff: "has_prefix s p \<longleftrightarrow> (\<exists>r. s = p @ r)"
  by (auto simp: has_prefix_def cut_prefix_Some)

lemma sorted_remdups_adj_distinct: "sorted xs \<Longrightarrow> distinct (remdups_adj (xs :: 'a :: linorder list))"
proof (induction xs rule: remdups_adj.induct)
  case (3 x y xs)
  then show ?case by (auto simp: antisym)
qed simp_all

lemma sorted_remdups_adj_sorted: "sorted xs \<Longrightarrow> sorted (remdups_adj (xs :: 'a :: linorder list))"
  by (induction xs rule: remdups_adj.induct) auto

lemma set_sort_compact [simp]: "set (sort_compact xs) = set xs"
  by (simp add: sort_compact_def)

lemma sorted_sort_compact [simp]: "sorted (sort_compact xs)"
  by (simp add: sort_compact_def sorted_remdups_adj_sorted)

lemma distinct_sort_compact [simp]: "distinct (sort_compact xs)"
  by (simp add: sort_compact_def sorted_remdups_adj_distinct)

lemma sort_compact_cong: "set xs = set ys \<Longrightarrow> sort_compact xs = sort_compact ys"
  by (intro sorted_distinct_set_unique) simp_all

end
