(* ===== verification/Glob.thy ===== *)
theory Glob
  imports Go_Prelude
begin

text \<open>
  The glob patterns of the policy's matchers: the standard library's \<open>path.Match\<close> (chunk by chunk,
  with \<open>*\<close> and \<open>?\<close> that do not cross a slash, character classes and escapes, and the refusal of a
  malformed pattern), and \<open>globs\<close> of \<open>src/policy/policy.go\<close> over it. A rune is a byte here:
  patterns and the values they are compared with are ASCII.
\<close>

section \<open>path.Match of the standard library\<close>

abbreviation "slash \<equiv> CHR 0x2F"
abbreviation "backslash \<equiv> CHR 0x5C"
abbreviation "asterisk \<equiv> CHR 0x2A"
abbreviation "question \<equiv> CHR 0x3F"
abbreviation "lbracket \<equiv> CHR 0x5B"
abbreviation "rbracket \<equiv> CHR 0x5D"
abbreviation "caret \<equiv> CHR 0x5E"
abbreviation "hyphen \<equiv> CHR 0x2D"

datatype chunk_res = BadPattern | NoMatch | Rest string

fun scan_body :: "bool \<Rightarrow> string \<Rightarrow> string \<times> string" where
  "scan_body inrange [] = ([], [])"
| "scan_body inrange (c # cs) =
     (if c = backslash then
        (case cs of [] \<Rightarrow> ([c], [])
         | d # ds \<Rightarrow> (let (a, b) = scan_body inrange ds in (c # d # a, b)))
      else if c = asterisk \<and> \<not> inrange then ([], c # cs)
      else (let (a, b) = scan_body (c = lbracket \<or> (c \<noteq> rbracket \<and> inrange)) cs in (c # a, b)))"

definition scan_chunk :: "string \<Rightarrow> bool \<times> string \<times> string" where
  "scan_chunk p =
     (let q = dropWhile (\<lambda>c. c = asterisk) p in (q \<noteq> p, scan_body False q))"

text \<open>\<open>getEsc\<close>: one possibly escaped character of a class, which must be followed by something.\<close>

fun get_esc :: "string \<Rightarrow> (char \<times> string) option" where
  "get_esc [] = None"
| "get_esc (c # cs) =
     (if c = hyphen \<or> c = rbracket then None
      else if c = backslash then
        (case cs of d # e # ds \<Rightarrow> Some (d, e # ds) | _ \<Rightarrow> None)
      else (case cs of [] \<Rightarrow> None | e # ds \<Rightarrow> Some (c, e # ds)))"

lemma get_esc_length: "get_esc s = Some (c, t) \<Longrightarrow> length t < length s \<and> t \<noteq> []"
  by (cases s) (auto split: if_splits list.splits)

text \<open>The ranges of a class, up to its closing bracket; \<open>n\<close> is whether one was read already.\<close>

function class_ranges :: "char option \<Rightarrow> bool \<Rightarrow> bool \<Rightarrow> string \<Rightarrow> (bool \<times> string) option" where
  "class_ranges r matched n s =
     (if n \<and> s \<noteq> [] \<and> hd s = rbracket then Some (matched, tl s)
      else (case get_esc s of None \<Rightarrow> None
        | Some (lo, t) \<Rightarrow>
            (case (if hd t = hyphen then get_esc (tl t) else Some (lo, t)) of None \<Rightarrow> None
             | Some (hi, u) \<Rightarrow>
                 class_ranges r (matched \<or> (case r of None \<Rightarrow> False | Some c \<Rightarrow> lo \<le> c \<and> c \<le> hi)) True u)))"
  by pat_completeness auto
termination
  by (relation "measure (\<lambda>(r, m, n, s). length s)")
    (auto dest!: get_esc_length split: if_splits)

declare class_ranges.simps [simp del]

lemma class_ranges_length: "class_ranges r m n s = Some (b, t) \<Longrightarrow> length t < length s"
proof (induction r m n s rule: class_ranges.induct)
  case (1 r m n s)
  show ?case
  proof (cases "n \<and> s \<noteq> [] \<and> hd s = rbracket")
    case True
    with "1.prems" show ?thesis by (subst (asm) class_ranges.simps) auto
  next
    case False
    with "1.prems" obtain lo u hi w where g: "get_esc s = Some (lo, u)"
      and h: "(if hd u = hyphen then get_esc (tl u) else Some (lo, u)) = Some (hi, w)"
      and rec: "class_ranges r (m \<or> (case r of None \<Rightarrow> False | Some c \<Rightarrow> lo \<le> c \<and> c \<le> hi)) True w
        = Some (b, t)"
      by (auto simp: class_ranges.simps [of r m n s] split: option.splits if_splits)
    from False g have "length t < length w"
      using "1.IH" [OF False g refl h [symmetric, THEN sym] refl rec] by simp
    moreover from g h have "length w < length s"
      by (auto dest!: get_esc_length split: if_splits)
    ultimately show ?thesis by simp
  qed
qed

text \<open>
  \<open>matchChunk\<close>: \<open>failed\<close> goes on reading the chunk for its well-formedness and no longer reads the
  text.
\<close>

function match_chunk :: "bool \<Rightarrow> string \<Rightarrow> string \<Rightarrow> chunk_res" where
  "match_chunk failed [] s = (if failed then NoMatch else Rest s)"
| "match_chunk failed (c # cs) s =
     (let failed = (failed \<or> s = []) in
      if c = lbracket then
        (let neg = (cs \<noteq> [] \<and> hd cs = caret);
             body = (if neg then tl cs else cs)
         in case class_ranges (if failed then None else Some (hd s)) False False body of
              None \<Rightarrow> BadPattern
            | Some (m, rest) \<Rightarrow>
                match_chunk (failed \<or> m = neg) rest (if failed then s else tl s))
      else if c = question then
        match_chunk (failed \<or> hd s = slash) cs (if failed then s else tl s)
      else if c = backslash then
        (case cs of [] \<Rightarrow> BadPattern
         | d # ds \<Rightarrow> match_chunk (failed \<or> d \<noteq> hd s) ds (if failed then s else tl s))
      else match_chunk (failed \<or> c \<noteq> hd s) cs (if failed then s else tl s))"
  by pat_completeness auto
termination
  by (relation "measure (\<lambda>(f, c, s). length c)")
    (auto dest!: class_ranges_length split: if_splits)

text \<open>\<open>for i := 0; i < len(name) && name[i] != '/'; i++\<close> of a star.\<close>

fun star_skip :: "string \<Rightarrow> bool \<Rightarrow> string \<Rightarrow> chunk_res" where
  "star_skip chunk last_chunk [] = NoMatch"
| "star_skip chunk last_chunk (c # cs) =
     (if c = slash then NoMatch
      else (case match_chunk False chunk cs of
              BadPattern \<Rightarrow> BadPattern
            | NoMatch \<Rightarrow> star_skip chunk last_chunk cs
            | Rest t \<Rightarrow> (if last_chunk \<and> t \<noteq> [] then star_skip chunk last_chunk cs else Rest t)))"

lemma scan_body_append: "scan_body r s = (a, b) \<Longrightarrow> s = a @ b"
proof (induction r s arbitrary: a b rule: scan_body.induct)
  case (2 r c cs)
  then show ?case by (auto split: if_splits list.splits prod.splits)
qed simp

lemma scan_chunk_shorter:
  assumes "scan_chunk p = (star, chunk, rest)" and "p \<noteq> []" and "\<not> (star \<and> chunk = [])"
  shows "length rest < length p"
proof -
  let ?q = "dropWhile (\<lambda>c. c = asterisk) p"
  have sb: "scan_body False ?q = (chunk, rest)" and star: "star \<longleftrightarrow> ?q \<noteq> p"
    using assms(1) by (auto simp: scan_chunk_def Let_def)
  have q: "?q = chunk @ rest" using sb by (rule scan_body_append)
  have len: "length ?q \<le> length p" by (rule length_dropWhile_le)
  show ?thesis
  proof (cases "chunk = []")
    case False
    then show ?thesis using q len by (cases chunk) auto
  next
    case True
    then have same: "?q = p" using assms(3) star by simp
    then have "hd p \<noteq> asterisk"
      using assms(2) hd_dropWhile [of "\<lambda>c. c = asterisk" p] by simp
    then obtain c cs where p: "p = c # cs" "c \<noteq> asterisk"
      using assms(2) by (cases p) auto
    then show ?thesis using sb same True by (auto split: if_splits list.splits prod.splits)
  qed
qed

text \<open>The rest of a pattern that already failed is still read, for its well-formedness.\<close>

function pattern_ok :: "string \<Rightarrow> bool" where
  "pattern_ok p =
     (if p = [] then True
      else (let (star, chunk, rest) = scan_chunk p in
        if star \<and> chunk = [] then True
        else match_chunk False chunk [] \<noteq> BadPattern \<and> pattern_ok rest))"
  by pat_completeness auto
termination
  by (relation "measure length") (auto dest: scan_chunk_shorter [OF sym] split: if_splits chunk_res.splits)

text \<open>\<open>path.Match(pattern, name)\<close>, \<^const>\<open>None\<close> for \<open>ErrBadPattern\<close>.\<close>

function path_match :: "string \<Rightarrow> string \<Rightarrow> bool option" where
  "path_match p name =
     (if p = [] then Some (name = [])
      else (let (star, chunk, rest) = scan_chunk p in
        if star \<and> chunk = [] then Some (slash \<notin> set name)
        else (let here = match_chunk False chunk name in
          case here of
            BadPattern \<Rightarrow> None
          | _ \<Rightarrow>
             (let found =
                (case here of Rest t \<Rightarrow> (if t = [] \<or> rest \<noteq> [] then here
                                        else if star then star_skip chunk (rest = []) name else NoMatch)
                 | _ \<Rightarrow> (if star then star_skip chunk (rest = []) name else NoMatch))
              in case found of
                   BadPattern \<Rightarrow> None
                 | Rest t \<Rightarrow> path_match rest t
                 | NoMatch \<Rightarrow> (if pattern_ok rest then Some False else None)))))"
  by pat_completeness auto
termination
  by (relation "measure (\<lambda>(p, n). length p)") (auto dest: scan_chunk_shorter [OF sym] split: if_splits chunk_res.splits)

declare pattern_ok.simps [simp del] path_match.simps [simp del]

section \<open>globs\<close>

text \<open>\<open>globs\<close>: an empty pattern is any value; a malformed one matches only itself.\<close>

definition globs :: "string \<Rightarrow> string \<Rightarrow> bool" where
  "globs pattern value =
     (if pattern = [] then True
      else if pattern = value then True
      else (case path_match pattern value of None \<Rightarrow> False | Some ok \<Rightarrow> ok))"


section \<open>What a pattern admits\<close>

definition glob_meta :: "char \<Rightarrow> bool" where
  "glob_meta c = (c \<in> {asterisk, question, lbracket, backslash})"

definition glob_literal :: "string \<Rightarrow> bool" where
  "glob_literal p = (\<forall>c\<in>set p. \<not> glob_meta c)"

lemma glob_literal_Nil [simp]: "glob_literal []"
  by (simp add: glob_literal_def)

lemma glob_literal_Cons [simp]: "glob_literal (c # cs) \<longleftrightarrow> \<not> glob_meta c \<and> glob_literal cs"
  by (auto simp: glob_literal_def)

lemma scan_body_literal:
  "glob_literal a \<Longrightarrow> scan_body False (a @ asterisk # b) = (a, asterisk # b)"
  "glob_literal a \<Longrightarrow> scan_body False a = (a, [])"
  by (induction a) (auto simp: glob_meta_def)

lemma match_chunk_literal_failed: "glob_literal a \<Longrightarrow> match_chunk True a s = NoMatch"
  by (induction a arbitrary: s) (auto simp: glob_meta_def)

lemma match_chunk_literal:
  "glob_literal a \<Longrightarrow>
     match_chunk False a s = (case cut_prefix s a of None \<Rightarrow> NoMatch | Some r \<Rightarrow> Rest r)"
proof (induction a arbitrary: s)
  case (Cons c cs)
  then show ?case
    by (cases s) (auto simp: glob_meta_def match_chunk_literal_failed)
qed simp

lemma dropWhile_literal:
  "glob_literal a \<Longrightarrow> a \<noteq> [] \<Longrightarrow> dropWhile (\<lambda>c. c = asterisk) (a @ b) = a @ b"
  by (cases a) (auto simp: glob_meta_def)

lemma pattern_ok_Nil [simp]: "pattern_ok []"
  by (simp add: pattern_ok.simps)

lemma path_match_Nil [simp]: "path_match [] name = Some (name = [])"
  by (simp add: path_match.simps)

lemma path_match_literal:
  assumes "glob_literal p"
  shows "path_match p v = Some (p = v)"
proof (cases "p = []")
  case False
  then have "scan_chunk p = (False, p, [])"
    using assms dropWhile_literal [of p "[]"] by (simp add: scan_chunk_def Let_def scan_body_literal)
  then show ?thesis
    using assms False
    by (subst path_match.simps)
      (auto simp: Let_def match_chunk_literal cut_prefix_Some split: option.splits)
qed auto

text \<open>A star that ends the pattern skips up to the last place its literal tail fits.\<close>

lemma star_skip_last_literal:
  assumes "glob_literal q"
  shows "star_skip q True name =
     (if \<exists>m. m \<noteq> [] \<and> slash \<notin> set m \<and> name = m @ q then Rest [] else NoMatch)"
proof (induction name)
  case (Cons c cs)
  have ex: "(\<exists>m. m \<noteq> [] \<and> slash \<notin> set m \<and> c # cs = m @ q) \<longleftrightarrow>
      c \<noteq> slash \<and> (cs = q \<or> (\<exists>m. m \<noteq> [] \<and> slash \<notin> set m \<and> cs = m @ q))"
    by (auto simp: Cons_eq_append_conv)
  have here: "cs = q \<longleftrightarrow> cut_prefix cs q = Some []"
    by (auto simp: cut_prefix_Some)
  show ?case
    unfolding ex using Cons.IH assms here
    by (auto simp: match_chunk_literal cut_prefix_Some split: option.splits)
qed simp

lemma path_match_star_literal:
  assumes "glob_literal q"
  shows "path_match (asterisk # q) v = Some (\<exists>m. slash \<notin> set m \<and> v = m @ q)"
proof (cases "q = []")
  case True
  then show ?thesis
    by (subst path_match.simps) (auto simp: scan_chunk_def)
next
  case False
  have "scan_chunk (asterisk # q) = (True, q, [])"
    using assms False dropWhile_literal [of q "[]"]
    by (auto simp: scan_chunk_def Let_def scan_body_literal)
  moreover have "(\<exists>m. slash \<notin> set m \<and> v = m @ q) \<longleftrightarrow>
      v = q \<or> (\<exists>m. m \<noteq> [] \<and> slash \<notin> set m \<and> v = m @ q)"
    by (metis append_Nil emptyE list.set(1))
  ultimately show ?thesis
    using assms False
    by (subst path_match.simps)
      (auto simp: Let_def match_chunk_literal star_skip_last_literal cut_prefix_Some
        split: option.splits)
qed

lemma pattern_ok_star_literal:
  assumes "glob_literal q" shows "pattern_ok (asterisk # q)"
proof -
  have "scan_chunk (asterisk # q) = (True, q, [])"
    using assms dropWhile_literal [of q "[]"]
    by (cases "q = []") (auto simp: scan_chunk_def Let_def scan_body_literal)
  then show ?thesis
    using assms
    by (subst pattern_ok.simps) (auto simp: match_chunk_literal split: option.splits)
qed

text \<open>
  The patterns a policy is written in: literal text with one star. Such a pattern admits exactly
  the values that put one slash-free piece in the place of the star.
\<close>

lemma path_match_one_star:
  assumes "glob_literal p" and "glob_literal q"
  shows "path_match (p @ asterisk # q) v = Some (\<exists>m. slash \<notin> set m \<and> v = p @ m @ q)"
proof (cases "p = []")
  case True
  then show ?thesis using path_match_star_literal [OF assms(2)] by simp
next
  case False
  have scan: "scan_chunk (p @ asterisk # q) = (False, p, asterisk # q)"
    using False dropWhile_literal [OF assms(1) False]
    by (simp add: scan_chunk_def Let_def scan_body_literal [OF assms(1)])
  show ?thesis
    using False assms(1)
    by (subst path_match.simps)
      (auto simp: scan Let_def match_chunk_literal cut_prefix_Some path_match_star_literal [OF assms(2)]
        pattern_ok_star_literal [OF assms(2)] split: option.splits)
qed

lemma globs_literal: "glob_literal p \<Longrightarrow> p \<noteq> [] \<Longrightarrow> globs p v \<longleftrightarrow> p = v"
  by (simp add: globs_def path_match_literal)

lemma globs_one_star:
  assumes "glob_literal p" and "glob_literal q"
  shows "globs (p @ asterisk # q) v \<longleftrightarrow> (\<exists>m. slash \<notin> set m \<and> v = p @ m @ q)"
proof -
  have "\<exists>m. slash \<notin> set m \<and> p @ asterisk # q = p @ m @ q"
    by (rule exI [of _ "[asterisk]"]) simp
  then show ?thesis
    by (auto simp: globs_def path_match_one_star [OF assms])
qed

end
