(* ===== verification/Names.thy ===== *)
theory Names
  imports Go_Prelude
begin

text \<open>
  The names of the estate, from \<open>src/policy/policy.go\<close>, \<open>src/policy/evaluate.go\<close>,
  \<open>src/policy/scope.go\<close> and \<open>src/internal/emailaddr/emailaddr.go\<close>: grants
  \<open><scope>:<thing>:<role>\<close> and how they are taken apart, the two families that are not grants, the
  hub's own roles over one workspace, the subjects of workloads, and the domain of an address. The
  lemmas are round trips: a name that is read back is the name that was written, and no two
  identities are written alike.
\<close>

abbreviation "colon \<equiv> CHR 0x3A"
abbreviation "at_sign \<equiv> CHR 0x40"

section \<open>Constants\<close>

definition ThingSelf :: string where "ThingSelf = ''access-roster''"
definition ScopeAll :: string where "ScopeAll = ''all''"
definition RoleOperator :: string where "RoleOperator = ''operator''"
definition RoleViewer :: string where "RoleViewer = ''viewer''"
definition FamilyRung :: string where "FamilyRung = ''rung''"
definition FamilyEmp :: string where "FamilyEmp = ''emp''"

lemmas name_consts = ThingSelf_def ScopeAll_def RoleOperator_def RoleViewer_def
  FamilyRung_def FamilyEmp_def

section \<open>Grants\<close>

text \<open>\<open>scope + Separator + thing + Separator + role\<close>.\<close>

definition grant_name :: "string \<Rightarrow> string \<Rightarrow> string \<Rightarrow> string" where
  "grant_name scope thing role = scope @ [colon] @ thing @ [colon] @ role"

definition ScopedGroup :: "string \<Rightarrow> string \<Rightarrow> string" where
  "ScopedGroup workspace role = grant_name workspace ThingSelf role"

definition GroupOperators :: string where "GroupOperators = ScopedGroup ScopeAll RoleOperator"
definition GroupViewers :: string where "GroupViewers = ScopedGroup ScopeAll RoleViewer"

definition ValidWorkspaceID :: "string \<Rightarrow> bool" where
  "ValidWorkspaceID s =
     (s \<noteq> [] \<and> s \<noteq> ScopeAll
      \<and> \<not> contains_any s [colon, CHR '' '', CHR 0x09, CHR 0x0D, CHR 0x0A] \<and> s = trim_space s)"

definition SplitGroup :: "string \<Rightarrow> (string \<times> string \<times> string) option" where
  "SplitGroup name =
     (case split_on colon name of
        [scope, thing, role] \<Rightarrow>
          (if scope = [] \<or> thing = [] \<or> role = [] then None else Some (scope, thing, role))
      | _ \<Rightarrow> None)"

text \<open>The workspace is empty for a role over the whole installation.\<close>

definition SplitScopedGroup :: "string \<Rightarrow> (string \<times> string) option" where
  "SplitScopedGroup name =
     (case SplitGroup name of
        None \<Rightarrow> None
      | Some (scope, thing, role) \<Rightarrow>
          (if thing \<noteq> ThingSelf then None
           else if role \<noteq> RoleOperator \<and> role \<noteq> RoleViewer then None
           else if scope = ScopeAll then Some ([], role)
           else Some (scope, role)))"

definition splitFamily :: "string \<Rightarrow> string option" where
  "splitFamily name =
     (case cut colon name of
        None \<Rightarrow> None
      | Some (before, after) \<Rightarrow>
          (if before = [] \<or> after = [] \<or> colon \<in> set after then None else Some before))"

definition in_family :: "string \<Rightarrow> bool" where
  "in_family name = (has_prefix name ''rung:'' \<or> has_prefix name ''emp:'')"

definition conventional :: "string \<Rightarrow> bool" where
  "conventional name =
     (if in_family name then
        (case cut colon name of None \<Rightarrow> False | Some (_, rest) \<Rightarrow> rest \<noteq> [] \<and> colon \<notin> set rest)
      else (let parts = split_on colon name in length parts = 3 \<and> [] \<notin> set parts))"

section \<open>Subjects of workloads\<close>

record ServiceAccountRef =
  sa_Cluster :: string
  sa_Namespace :: string
  sa_Name :: string

definition ServiceAccountRef_Subject :: "ServiceAccountRef \<Rightarrow> string" where
  "ServiceAccountRef_Subject r =
     (if sa_Cluster r = [] then ''k8s:'' @ sa_Namespace r @ [colon] @ sa_Name r
      else sa_Cluster r @ '':k8s:'' @ sa_Namespace r @ [colon] @ sa_Name r)"

definition ParseServiceAccountSubject :: "string \<Rightarrow> ServiceAccountRef option" where
  "ParseServiceAccountSubject subject =
     (case cut_prefix subject ''system:serviceaccount:'' of
        Some rest \<Rightarrow>
          (case cut colon rest of
             None \<Rightarrow> None
           | Some (namespace, name) \<Rightarrow>
               (if namespace = [] \<or> name = [] then None
                else Some \<lparr>sa_Cluster = [], sa_Namespace = namespace, sa_Name = name\<rparr>))
      | None \<Rightarrow>
          (case split_on colon subject of
             [p0, p1, p2] \<Rightarrow>
               (if p0 = ''k8s'' \<and> p1 \<noteq> [] \<and> p2 \<noteq> []
                then Some \<lparr>sa_Cluster = [], sa_Namespace = p1, sa_Name = p2\<rparr> else None)
           | [p0, p1, p2, p3] \<Rightarrow>
               (if p1 = ''k8s'' \<and> p0 \<noteq> [] \<and> p2 \<noteq> [] \<and> p3 \<noteq> []
                then Some \<lparr>sa_Cluster = p0, sa_Namespace = p2, sa_Name = p3\<rparr> else None)
           | _ \<Rightarrow> None))"

record AWSRole =
  aws_Account :: string
  aws_Name :: string
  aws_Path :: string
  aws_OrgID :: string
  aws_Function :: string

definition AWSRole_Subject :: "AWSRole \<Rightarrow> string" where
  "AWSRole_Subject r =
     ''aws:'' @ aws_Account r @ '':role'' @ (if aws_Path r = [] then ''/'' else aws_Path r) @ aws_Name r"

section \<open>Addresses\<close>

text \<open>Around the last occurrence of a byte (\<open>strings.LastIndexByte\<close>).\<close>

definition cut_last :: "char \<Rightarrow> string \<Rightarrow> (string \<times> string) option" where
  "cut_last c s = map_option (\<lambda>(b, a). (rev a, rev b)) (cut c (rev s))"

definition Domain :: "string \<Rightarrow> string option" where
  "Domain address =
     (case cut_last at_sign (trim_space address) of
        None \<Rightarrow> None
      | Some (before, after) \<Rightarrow>
          (if before = [] \<or> after = [] then None else Some (to_lower after)))"

section \<open>Round trips\<close>

lemma split_grant_name:
  assumes "colon \<notin> set s" "colon \<notin> set t" "colon \<notin> set r"
  shows "split_on colon (grant_name s t r) = [s, t, r]"
  using assms by (simp add: grant_name_def split_on_append_sep split_on_no_sep)

lemma split_on_three:
  assumes "split_on colon n = [s, t, r]"
  shows "n = grant_name s t r \<and> colon \<notin> set s \<and> colon \<notin> set t \<and> colon \<notin> set r"
proof -
  have "n = join [colon] [s, t, r]"
    using join_split_on [of colon n] assms by simp
  then show ?thesis
    using split_on_parts [of _ colon n] assms by (auto simp: grant_name_def)
qed

lemma split_on_nested_length:
  "length (split_on c (a @ c # b)) = length (split_on c a) + length (split_on c b)"
proof (induction a)
  case (Cons x a)
  then show ?case by (cases "split_on c (a @ c # b)"; cases "split_on c a") auto
qed simp

text \<open>Text put together with two separators that reads back as three parts reads back as its parts.\<close>

lemma split_three_parts:
  assumes "split_on c (s @ c # (t @ c # r)) = [s', t', r']"
  shows "s' = s \<and> t' = t \<and> r' = r"
proof -
  have pos: "0 < length (split_on c x)" for x by simp
  have "length (split_on c s) + (length (split_on c t) + length (split_on c r)) = 3"
    using assms by (metis split_on_nested_length length_Cons list.size(3) numeral_3_eq_3)
  then have one: "length (split_on c s) = 1" "length (split_on c t) = 1" "length (split_on c r) = 1"
    using pos [of s] pos [of t] pos [of r] by linarith+
  have "c \<notin> set x" if "length (split_on c x) = 1" for x
    using that split_on_parts [of _ c x] join_split_on [of c x]
    by (cases "split_on c x") auto
  then have "c \<notin> set s" "c \<notin> set t" "c \<notin> set r" using one by blast+
  then show ?thesis using assms by (simp add: split_on_append_sep split_on_no_sep)
qed

lemma SplitGroup_grant_name:
  "SplitGroup (grant_name s t r) = Some (s', t', r') \<Longrightarrow> s' = s \<and> t' = t \<and> r' = r"
  using split_three_parts [of colon s t r s' t' r']
  by (auto simp: SplitGroup_def grant_name_def split: list.splits if_splits)

lemma SplitGroup_Some_iff:
  "SplitGroup n = Some (s, t, r) \<longleftrightarrow>
     n = grant_name s t r \<and> s \<noteq> [] \<and> t \<noteq> [] \<and> r \<noteq> []
       \<and> colon \<notin> set s \<and> colon \<notin> set t \<and> colon \<notin> set r"
  (is "?L \<longleftrightarrow> ?R")
proof
  show "?L \<Longrightarrow> ?R"
    by (auto simp: SplitGroup_def dest: split_on_three split: list.splits if_splits)
  show "?R \<Longrightarrow> ?L"
    using split_grant_name [of s t r] by (simp add: SplitGroup_def)
qed

lemma grant_name_inj:
  assumes "colon \<notin> set s" "colon \<notin> set t" "colon \<notin> set r"
    and "colon \<notin> set s'" "colon \<notin> set t'" "colon \<notin> set r'"
  shows "grant_name s t r = grant_name s' t' r' \<longleftrightarrow> s = s' \<and> t = t' \<and> r = r'"
  by (metis split_grant_name [OF assms(1-3)] split_grant_name [OF assms(4-6)] list.inject)

text \<open>A grant reached one rung down keeps its scope and its thing.\<close>

lemma SplitGroup_same_thing:
  assumes "SplitGroup g = Some (s, t, r)" and "r' \<noteq> []" and "colon \<notin> set r'"
  shows "SplitGroup (grant_name s t r') = Some (s, t, r')"
  using assms by (auto simp: SplitGroup_Some_iff)

lemma ThingSelf_no_colon [simp]: "colon \<notin> set ThingSelf" "ThingSelf \<noteq> []"
  by (simp_all add: ThingSelf_def)

lemma hub_roles_no_colon [simp]:
  "colon \<notin> set RoleOperator" "RoleOperator \<noteq> []" "colon \<notin> set RoleViewer" "RoleViewer \<noteq> []"
  by (simp_all add: name_consts)

lemma ValidWorkspaceID_D:
  "ValidWorkspaceID w \<Longrightarrow> w \<noteq> [] \<and> w \<noteq> ScopeAll \<and> colon \<notin> set w"
  by (auto simp: ValidWorkspaceID_def contains_any_def list_ex_iff)

lemma SplitScopedGroup_ScopedGroup:
  assumes "ValidWorkspaceID w" and "role = RoleOperator \<or> role = RoleViewer"
  shows "SplitScopedGroup (ScopedGroup w role) = Some (w, role)"
proof -
  have "SplitGroup (ScopedGroup w role) = Some (w, ThingSelf, role)"
    using assms ValidWorkspaceID_D [OF assms(1)]
    by (auto simp: SplitGroup_Some_iff ScopedGroup_def)
  then show ?thesis
    using assms(2) ValidWorkspaceID_D [OF assms(1)] by (auto simp: SplitScopedGroup_def)
qed

lemma SplitScopedGroup_Some:
  "SplitScopedGroup n = Some (w, role) \<Longrightarrow>
     (role = RoleOperator \<or> role = RoleViewer)
       \<and> n = ScopedGroup (if w = [] then ScopeAll else w) role \<and> w \<noteq> ScopeAll"
  by (auto simp: SplitScopedGroup_def ScopedGroup_def SplitGroup_Some_iff ScopeAll_def
      split: option.splits if_splits)

text \<open>What a reference must look like for its subject to be read back: the parts Kubernetes allows.\<close>

definition sa_wf :: "ServiceAccountRef \<Rightarrow> bool" where
  "sa_wf r = (colon \<notin> set (sa_Cluster r) \<and> colon \<notin> set (sa_Namespace r) \<and> colon \<notin> set (sa_Name r)
     \<and> sa_Namespace r \<noteq> [] \<and> sa_Name r \<noteq> [])"

lemma split_on_sa_subject:
  assumes "sa_wf r"
  shows "split_on colon (ServiceAccountRef_Subject r) =
    (if sa_Cluster r = [] then [''k8s'', sa_Namespace r, sa_Name r]
     else [sa_Cluster r, ''k8s'', sa_Namespace r, sa_Name r])"
  using assms split_on_append_sep [of colon "''k8s''"]
  by (auto simp: ServiceAccountRef_Subject_def sa_wf_def split_on_append_sep split_on_no_sep)

lemma system_prefix_split:
  assumes "cut_prefix n ''system:serviceaccount:'' = Some rest"
  shows "split_on colon n = ''system'' # ''serviceaccount'' # split_on colon rest"
proof -
  have "n = ''system'' @ colon # (''serviceaccount'' @ colon # rest)"
    using assms by (simp add: cut_prefix_Some)
  then show ?thesis by (simp only: split_on_append_sep) (simp add: split_on_append_sep)
qed

lemma ParseServiceAccountSubject_Subject:
  assumes "sa_wf r"
  shows "ParseServiceAccountSubject (ServiceAccountRef_Subject r) = Some r"
proof -
  let ?n = "ServiceAccountRef_Subject r"
  have "cut_prefix ?n ''system:serviceaccount:'' = None"
  proof (rule ccontr)
    assume "cut_prefix ?n ''system:serviceaccount:'' \<noteq> None"
    then obtain rest where "cut_prefix ?n ''system:serviceaccount:'' = Some rest" by blast
    from system_prefix_split [OF this] show False
      using split_on_sa_subject [OF assms] by (auto split: if_splits)
  qed
  then show ?thesis
    using assms by (cases r) (auto simp: ParseServiceAccountSubject_def split_on_sa_subject sa_wf_def)
qed

lemma cut_last_Some: "cut_last c s = Some (a, b) \<longleftrightarrow> s = a @ c # b \<and> c \<notin> set b"
proof -
  have "cut_last c s = Some (a, b) \<longleftrightarrow> cut c (rev s) = Some (rev b, rev a)"
    by (auto simp: cut_last_def)
  also have "\<dots> \<longleftrightarrow> rev s = rev b @ c # rev a \<and> c \<notin> set b"
    by (simp add: cut_Some)
  also have "rev s = rev b @ c # rev a \<longleftrightarrow> s = a @ c # b"
    using rev_swap [of s "rev b @ c # rev a"] by simp
  finally show ?thesis .
qed

lemma Domain_lower: "Domain a = Some d \<Longrightarrow> to_lower d = d \<and> d \<noteq> []"
  by (auto simp: Domain_def split: option.splits if_splits)

end
