(* ===== verification/Ladders.thy ===== *)
theory Ladders
  imports Names
begin

text \<open>
  The role ladders of \<open>src/policy/vocabulary.go\<close>: the data of a vocabulary, and the depth-first
  search for a cycle in a thing's \<open>implies\<close> graph. The search is correct in both directions for
  roles that are not named by the empty string: it reports a role exactly when the graph has a cycle.
\<close>

section \<open>Data\<close>

record ScopeSpec =
  Sensitive :: bool

text \<open>\<open>Scopes\<close> is \<^const>\<open>None\<close> for a nil slice: a declared but empty list is refused.\<close>

record RoleSpec =
  Implies :: "string list"
  role_Scopes :: "string list option"

record ThingSpec =
  thing_Scopes :: "string list"
  Roles :: "RoleSpec table"

record Vocab =
  Scopes :: "ScopeSpec table"
  Things :: "ThingSpec table"

definition scope_list :: "RoleSpec \<Rightarrow> string list" where
  "scope_list r = (case role_Scopes r of None \<Rightarrow> [] | Some xs \<Rightarrow> xs)"

definition allowsScope :: "RoleSpec \<Rightarrow> string \<Rightarrow> bool" where
  "allowsScope r scope = (scope_list r = [] \<or> scope \<in> set (scope_list r))"

definition effectiveScopes :: "RoleSpec \<Rightarrow> ThingSpec \<Rightarrow> string list" where
  "effectiveScopes r thing = (if scope_list r \<noteq> [] then scope_list r else thing_Scopes thing)"

text \<open>\<open>v.Scopes[s].Sensitive\<close>: an undeclared scope reads as not sensitive.\<close>

definition scope_sensitive :: "Vocab \<Rightarrow> string \<Rightarrow> bool" where
  "scope_sensitive v s = (case map_of (Scopes v) s of None \<Rightarrow> False | Some spec \<Rightarrow> Sensitive spec)"

section \<open>Cycles in a role ladder\<close>

datatype color = White | Gray | Black

definition role_implies :: "RoleSpec table \<Rightarrow> string \<Rightarrow> string list" where
  "role_implies roles role = (case map_of roles role of None \<Rightarrow> [] | Some spec \<Rightarrow> Implies spec)"

text \<open>
  \<open>visit\<close> with the loop over a role's implied roles. The fuel bounds the depth of the recursion;
  \<open>visit_enough\<close> below shows that the depth \<open>cycleInRoles\<close> gives it is never reached. The result is
  the role found on a cycle, if any, and the colours.
\<close>

fun visit :: "nat \<Rightarrow> RoleSpec table \<Rightarrow> string \<Rightarrow> (string \<Rightarrow> color) \<Rightarrow> (string option \<times> (string \<Rightarrow> color)) option"
  and visit_each :: "nat \<Rightarrow> RoleSpec table \<Rightarrow> string \<Rightarrow> string list \<Rightarrow> (string \<Rightarrow> color) \<Rightarrow>
     (string option \<times> (string \<Rightarrow> color)) option" where
  "visit 0 roles role color = None"
| "visit (Suc n) roles role color =
     visit_each n roles role (role_implies roles role) (color(role := Gray))"
| "visit_each n roles role [] color = Some (None, color(role := Black))"
| "visit_each n roles role (next # rest) color =
     (case color next of
        Gray \<Rightarrow> Some (Some next, color)
      | White \<Rightarrow>
          (case visit n roles next color of
             None \<Rightarrow> None
           | Some (Some found, color') \<Rightarrow> Some (Some found, color')
           | Some (None, color') \<Rightarrow> visit_each n roles role rest color')
      | Black \<Rightarrow> visit_each n roles role rest color)"

fun visit_roots :: "nat \<Rightarrow> RoleSpec table \<Rightarrow> string list \<Rightarrow> (string \<Rightarrow> color) \<Rightarrow> string option option" where
  "visit_roots n roles [] color = Some None"
| "visit_roots n roles (role # rest) color =
     (if color role = White then
        (case visit n roles role color of
           None \<Rightarrow> None
         | Some (Some found, color') \<Rightarrow> Some (Some found)
         | Some (None, color') \<Rightarrow> visit_roots n roles rest color')
      else visit_roots n roles rest color)"

text \<open>\<open>""\<close> when the search finds nothing.\<close>

definition cycleInRoles :: "RoleSpec table \<Rightarrow> string" where
  "cycleInRoles roles =
     (case visit_roots (Suc (length (tkeys roles))) roles (tkeys roles) (\<lambda>_. White) of
        Some (Some found) \<Rightarrow> found
      | _ \<Rightarrow> [])"

section \<open>Correctness of the search\<close>

definition implies_rel :: "RoleSpec table \<Rightarrow> (string \<times> string) set" where
  "implies_rel roles = {(r, i). i \<in> set (role_implies roles r)}"

definition with_color :: "color \<Rightarrow> (string \<Rightarrow> color) \<Rightarrow> string set" where
  "with_color k color = {r. color r = k}"

text \<open>
  What is black is finished: nothing leads from it back to work in progress, and it holds no cycle.
\<close>

definition black_ok :: "RoleSpec table \<Rightarrow> (string \<Rightarrow> color) \<Rightarrow> bool" where
  "black_ok roles color =
     ((\<forall>r i. color r = Black \<longrightarrow> (r, i) \<in> implies_rel roles \<longrightarrow> color i = Black)
      \<and> acyclic (implies_rel roles \<inter> with_color Black color \<times> UNIV))"

text \<open>What a call that found nothing leaves behind.\<close>

definition visited_from :: "(string \<Rightarrow> color) \<Rightarrow> (string \<Rightarrow> color) \<Rightarrow> bool" where
  "visited_from color color' =
     (\<forall>r. (color r = Gray \<longleftrightarrow> color' r = Gray) \<and> (color r = Black \<longrightarrow> color' r = Black))"

lemma visited_from_refl [simp]: "visited_from c c"
  by (simp add: visited_from_def)

lemma visited_from_trans: "visited_from a b \<Longrightarrow> visited_from b c \<Longrightarrow> visited_from a c"
  by (auto simp: visited_from_def)

lemma acyclic_insert_source:
  assumes "acyclic A" and B: "B \<subseteq> {r} \<times> K" and K: "r \<notin> K" and closed: "A \<subseteq> K \<times> K"
  shows "acyclic (A \<union> B)"
proof -
  have reach: "(a, b) \<in> A\<^sup>+ \<or> a = r \<and> b \<in> K" if "(a, b) \<in> (A \<union> B)\<^sup>+" for a b
    using that
  proof (induction rule: trancl.induct)
    case (r_into_trancl a b)
    then show ?case using B by auto
  next
    case (trancl_into_trancl a b c)
    then show ?case
      using B K closed trancl_subset_Sigma [OF closed] by (auto intro: trancl.trancl_into_trancl)
  qed
  then show ?thesis
    using assms(1) K by (auto simp: acyclic_def)
qed

lemma black_ok_start [simp]: "black_ok roles (\<lambda>_. White)"
  by (simp add: black_ok_def with_color_def acyclic_def)

lemma black_ok_gray [simp]: "color r \<noteq> Black \<Longrightarrow> black_ok roles (color(r := Gray)) = black_ok roles color"
proof -
  assume "color r \<noteq> Black"
  then have "with_color Black (color(r := Gray)) = with_color Black color"
    by (auto simp: with_color_def)
  moreover have "(color(r := Gray)) x = Black \<longleftrightarrow> color x = Black" for x
    using \<open>color r \<noteq> Black\<close> by auto
  ultimately show ?thesis by (simp add: black_ok_def)
qed

lemma black_ok_finish:
  assumes ok: "black_ok roles color" and "color r \<noteq> Black"
    and done_all: "\<forall>i\<in>set (role_implies roles r). color i = Black"
  shows "black_ok roles (color(r := Black))"
proof -
  let ?E = "implies_rel roles" and ?K = "with_color Black color"
  have "with_color Black (color(r := Black)) = insert r ?K"
    by (auto simp: with_color_def)
  then have eq: "?E \<inter> with_color Black (color(r := Black)) \<times> UNIV =
      (?E \<inter> ?K \<times> UNIV) \<union> (?E \<inter> {r} \<times> UNIV)"
    by auto
  have "acyclic ((?E \<inter> ?K \<times> UNIV) \<union> (?E \<inter> {r} \<times> UNIV))"
  proof (rule acyclic_insert_source [where r = r and K = ?K])
    show "acyclic (?E \<inter> ?K \<times> UNIV)" using ok by (simp add: black_ok_def)
    show "?E \<inter> {r} \<times> UNIV \<subseteq> {r} \<times> ?K"
      using done_all by (auto simp: implies_rel_def with_color_def)
    show "r \<notin> ?K" using assms(2) by (simp add: with_color_def)
    show "?E \<inter> ?K \<times> UNIV \<subseteq> ?K \<times> ?K" using ok by (auto simp: black_ok_def with_color_def)
  qed
  then show ?thesis
    using ok done_all eq by (auto simp: black_ok_def implies_rel_def)
qed

text \<open>A call that finds nothing colours its role black and restores the work in progress.\<close>

lemma visit_frame:
  "visit n roles role color = Some (None, color') \<Longrightarrow> color role = White \<Longrightarrow>
     visited_from color color' \<and> color' role = Black"
  "visit_each n roles role xs color = Some (None, color') \<Longrightarrow> color role = Gray \<Longrightarrow>
     visited_from (color(role := White)) color' \<and> color' role = Black"
proof (induction n roles role color and n roles role xs color
    arbitrary: color' and color' rule: visit_visit_each.induct)
  case (2 n roles role color)
  have restore: "(color(role := Gray))(role := White) = color"
    using "2.prems"(2) by auto
  have "visited_from ((color(role := Gray))(role := White)) color' \<and> color' role = Black"
    using "2.IH" [of color'] "2.prems"(1) by (simp add: fun_upd_def)
  then show ?case unfolding restore .
next
  case (3 n roles role color)
  then show ?case by (auto simp: visited_from_def)
next
  case (4 n roles role nxt rest color)
  show ?case
  proof (cases "color nxt")
    case White
    with "4.prems"(1) obtain mid where mid: "visit n roles nxt color = Some (None, mid)"
      and rest: "visit_each n roles role rest mid = Some (None, color')"
      by (auto split: option.splits prod.splits)
    have f1: "visited_from color mid \<and> mid nxt = Black"
      using "4.IH"(1) White mid by simp
    then have "mid role = Gray" using "4.prems"(2) by (auto simp: visited_from_def)
    then have "visited_from (mid(role := White)) color' \<and> color' role = Black"
      using "4.IH"(2) White mid rest by (simp add: fun_upd_def)
    then show ?thesis using f1 by (auto simp: visited_from_def split: if_splits)
  next
    case Gray
    with "4.prems"(1) show ?thesis by simp
  next
    case Black
    with "4.prems" "4.IH"(3) show ?thesis by simp
  qed
qed simp

lemma visit_black_ok:
  "visit n roles role color = Some (None, color') \<Longrightarrow> color role = White \<Longrightarrow>
     black_ok roles color \<Longrightarrow> black_ok roles color'"
  "visit_each n roles role xs color = Some (None, color') \<Longrightarrow> color role = Gray \<Longrightarrow>
     black_ok roles color \<Longrightarrow>
     \<forall>i\<in>set (role_implies roles role). i \<in> set xs \<or> color i = Black \<Longrightarrow> black_ok roles color'"
proof (induction n roles role color and n roles role xs color
    arbitrary: color' and color' rule: visit_visit_each.induct)
  case (2 n roles role color)
  then show ?case
    using "2.IH" [of color'] black_ok_gray [of color role roles] by (simp add: fun_upd_def)
next
  case (3 n roles role color)
  then show ?case using black_ok_finish [of roles color role] by auto
next
  case (4 n roles role nxt rest color)
  show ?case
  proof (cases "color nxt")
    case White
    with "4.prems"(1) obtain mid where mid: "visit n roles nxt color = Some (None, mid)"
      and rest: "visit_each n roles role rest mid = Some (None, color')"
      by (auto split: option.splits prod.splits)
    have ok: "black_ok roles mid" using "4.IH"(1) White mid "4.prems"(3) by simp
    have f: "visited_from color mid \<and> mid nxt = Black"
      using visit_frame(1) [OF mid White] .
    then have "mid role = Gray" and "\<forall>i\<in>set (role_implies roles role). i \<in> set rest \<or> mid i = Black"
      using "4.prems"(2,4) by (auto simp: visited_from_def)
    then show ?thesis using "4.IH"(2) White mid rest ok by simp
  next
    case Gray
    with "4.prems"(1) show ?thesis by simp
  next
    case Black
    then have "\<forall>i\<in>set (role_implies roles role). i \<in> set rest \<or> color i = Black"
      using "4.prems"(4) by auto
    then show ?thesis using "4.prems"(1-3) "4.IH"(3) Black by simp
  qed
qed simp

text \<open>A role that is reported lies on a cycle: the work in progress leads to the current role.\<close>

lemma visit_sound:
  "visit n roles role color = Some (Some f, color') \<Longrightarrow> color role = White \<Longrightarrow>
     \<forall>g. color g = Gray \<longrightarrow> (g, role) \<in> (implies_rel roles)\<^sup>* \<Longrightarrow> (f, f) \<in> (implies_rel roles)\<^sup>+"
  "visit_each n roles role xs color = Some (Some f, color') \<Longrightarrow> color role = Gray \<Longrightarrow>
     \<forall>g. color g = Gray \<longrightarrow> (g, role) \<in> (implies_rel roles)\<^sup>* \<Longrightarrow>
     set xs \<subseteq> set (role_implies roles role) \<Longrightarrow> (f, f) \<in> (implies_rel roles)\<^sup>+"
proof (induction n roles role color and n roles role xs color
    arbitrary: color' and color' rule: visit_visit_each.induct)
  case (2 n roles role color)
  then show ?case
    using "2.IH" [of color'] by (auto simp: fun_upd_def)
next
  case (4 n roles role nxt rest color)
  have edge: "(role, nxt) \<in> implies_rel roles"
    using "4.prems"(4) by (simp add: implies_rel_def)
  show ?case
  proof (cases "color nxt")
    case White
    have into: "\<forall>g. color g = Gray \<longrightarrow> (g, nxt) \<in> (implies_rel roles)\<^sup>*"
      using "4.prems"(3) edge by (meson rtrancl.rtrancl_into_rtrancl)
    show ?thesis
    proof (cases "\<exists>mid. visit n roles nxt color = Some (None, mid)")
      case True
      then obtain mid where mid: "visit n roles nxt color = Some (None, mid)" ..
      then have rest: "visit_each n roles role rest mid = Some (Some f, color')"
        using "4.prems"(1) White by simp
      have "visited_from color mid" using visit_frame(1) [OF mid White] by simp
      then have "mid role = Gray" and "\<forall>g. mid g = Gray \<longrightarrow> (g, role) \<in> (implies_rel roles)\<^sup>*"
        using "4.prems"(2,3) by (auto simp: visited_from_def)
      then show ?thesis using "4.IH"(2) White mid rest "4.prems"(4) by simp
    next
      case False
      then have "visit n roles nxt color = Some (Some f, color')"
        using "4.prems"(1) White by (auto split: option.splits prod.splits)
      then show ?thesis using "4.IH"(1) White into by simp
    qed
  next
    case Gray
    then have "f = nxt" and "(nxt, role) \<in> (implies_rel roles)\<^sup>*"
      using "4.prems"(1,3) by auto
    then show ?thesis using edge by (metis rtrancl_into_trancl1)
  next
    case Black
    with "4.prems" "4.IH"(3) show ?thesis by auto
  qed
qed simp_all

text \<open>The depth of the recursion is bounded by the roles not yet coloured.\<close>

definition white_roles :: "RoleSpec table \<Rightarrow> (string \<Rightarrow> color) \<Rightarrow> string set" where
  "white_roles roles color = {r \<in> dom (map_of roles). color r = White}"

lemma finite_white_roles [simp]: "finite (white_roles roles color)"
  by (simp add: white_roles_def finite_dom_map_of)

lemma white_roles_mono: "visited_from color color' \<Longrightarrow> white_roles roles color' \<subseteq> white_roles roles color"
  by (auto simp: white_roles_def visited_from_def) (metis color.exhaust color.distinct(1,3))

lemma visit_enough:
  "color role = White \<Longrightarrow> card (white_roles roles color) < n \<Longrightarrow> visit n roles role color \<noteq> None"
  "color role = Gray \<Longrightarrow> xs = [] \<or> card (white_roles roles color) < n \<Longrightarrow>
     visit_each n roles role xs color \<noteq> None"
proof (induction n roles role color and n roles role xs color rule: visit_visit_each.induct)
  case (2 n roles role color)
  show ?case
  proof (cases "role \<in> dom (map_of roles)")
    case True
    then have "white_roles roles (color(role := Gray)) = white_roles roles color - {role}"
      and "role \<in> white_roles roles color"
      using "2.prems"(1) by (auto simp: white_roles_def)
    then have "card (white_roles roles (color(role := Gray))) < n"
      using "2.prems"(2) card_Diff1_less [OF finite_white_roles, of role roles color] by simp
    then show ?thesis using "2.IH" by (simp add: fun_upd_def)
  next
    case False
    then have "role_implies roles role = []" by (simp add: role_implies_def domIff)
    then show ?thesis by simp
  qed
next
  case (4 n roles role nxt rest color)
  show ?case
  proof (cases "color nxt")
    case White
    obtain res mid where v: "visit n roles nxt color = Some (res, mid)"
      using "4.IH"(1) White "4.prems"(2) by fastforce
    show ?thesis
    proof (cases res)
      case None
      with v have f: "visited_from color mid" using visit_frame(1) White by blast
      have "card (white_roles roles mid) < n"
        using card_mono [OF finite_white_roles white_roles_mono [OF f]] "4.prems"(2)
        by (metis le_less_trans list.distinct(1))
      moreover have "mid role = Gray" using f "4.prems"(1) by (simp add: visited_from_def)
      ultimately show ?thesis using "4.IH"(2) White v None by auto
    qed (use White v in auto)
  next
    case Black
    with "4.prems" "4.IH"(3) show ?thesis by auto
  qed simp
qed simp_all

definition roots_result :: "RoleSpec table \<Rightarrow> (string \<Rightarrow> color) \<Rightarrow> string list \<Rightarrow> string option \<Rightarrow> bool" where
  "roots_result roles color xs res =
     (case res of
        Some f \<Rightarrow> (f, f) \<in> (implies_rel roles)\<^sup>+
      | None \<Rightarrow> \<exists>color'. black_ok roles color' \<and> visited_from color color' \<and> (\<forall>x\<in>set xs. color' x = Black))"

lemma roots_result_Cons:
  assumes "roots_result roles mid xs res" and f: "visited_from color mid" and "mid x = Black"
  shows "roots_result roles color (x # xs) res"
proof (cases res)
  case None
  then obtain color' where c: "black_ok roles color'" "visited_from mid color'" "\<forall>x\<in>set xs. color' x = Black"
    using assms(1) by (auto simp: roots_result_def)
  moreover have "color' x = Black" using c(2) assms(3) by (simp add: visited_from_def)
  ultimately show ?thesis
    using None visited_from_trans [OF f] by (auto simp: roots_result_def)
qed (use assms in \<open>auto simp: roots_result_def\<close>)

lemma visit_roots_result:
  assumes "card (white_roles roles color) < n" and "black_ok roles color" and "\<forall>r. color r \<noteq> Gray"
  shows "\<exists>res. visit_roots n roles xs color = Some res \<and> roots_result roles color xs res"
  using assms
proof (induction xs arbitrary: color)
  case Nil
  then show ?case by (auto simp: roots_result_def)
next
  case (Cons x xs)
  show ?case
  proof (cases "color x = White")
    case False
    then have "color x = Black" using Cons.prems(3) by (metis color.exhaust)
    then show ?thesis
      using Cons.IH [OF Cons.prems] roots_result_Cons [of roles color xs _ color x] by auto
  next
    case White: True
    obtain res mid where v: "visit n roles x color = Some (res, mid)"
      using visit_enough(1) [OF White Cons.prems(1)] by fastforce
    show ?thesis
    proof (cases res)
      case (Some f)
      then show ?thesis
        using visit_sound(1) [of n roles x color f mid] v White Cons.prems(3)
        by (simp add: roots_result_def)
    next
      case None
      have f: "visited_from color mid" "mid x = Black" using visit_frame(1) White v None by auto
      have "card (white_roles roles mid) < n"
        using card_mono [OF finite_white_roles white_roles_mono [OF f(1)]] Cons.prems(1)
        by (meson le_less_trans)
      moreover have "black_ok roles mid" using visit_black_ok(1) White v None Cons.prems(2) by blast
      moreover have "\<forall>r. mid r \<noteq> Gray" using f Cons.prems(3) by (auto simp: visited_from_def)
      ultimately obtain res' where "visit_roots n roles xs mid = Some res'" "roots_result roles mid xs res'"
        using Cons.IH by blast
      then show ?thesis using White v None roots_result_Cons [OF _ f] by auto
    qed
  qed
qed

text \<open>The search always ends, and it ends empty-handed exactly on an acyclic graph.\<close>

lemma cycleInRoles_correct:
  assumes "[] \<notin> snd ` implies_rel roles"
  shows "cycleInRoles roles = [] \<longleftrightarrow> acyclic (implies_rel roles)"
proof -
  let ?E = "implies_rel roles"
  have "card (white_roles roles (\<lambda>_. White)) \<le> length (tkeys roles)"
    using card_length [of "tkeys roles"] by (simp add: white_roles_def)
  then obtain res where res: "visit_roots (Suc (length (tkeys roles))) roles (tkeys roles) (\<lambda>_. White) = Some res"
    and c: "roots_result roles (\<lambda>_. White) (tkeys roles) res"
    using visit_roots_result [of roles "\<lambda>_. White" "Suc (length (tkeys roles))" "tkeys roles"] by auto
  show ?thesis
  proof (cases res)
    case (Some f)
    then have cyc: "(f, f) \<in> ?E\<^sup>+" using c by (simp add: roots_result_def)
    then obtain e where "(e, f) \<in> ?E" by (meson tranclE)
    then have "f \<in> snd ` ?E" by force
    then have "f \<noteq> []" using assms by blast
    moreover have "cycleInRoles roles = f" using res Some by (simp add: cycleInRoles_def)
    ultimately show ?thesis using cyc by (auto simp: acyclic_def)
  next
    case None
    then obtain color' where ok: "black_ok roles color'" and all: "\<forall>x\<in>set (tkeys roles). color' x = Black"
      using c by (auto simp: roots_result_def)
    have "?E \<subseteq> ?E \<inter> with_color Black color' \<times> UNIV"
    proof
      fix p assume "p \<in> ?E"
      then obtain r i where p: "p = (r, i)" "i \<in> set (role_implies roles r)"
        by (auto simp: implies_rel_def)
      then have "r \<in> set (tkeys roles)"
        by (cases "map_of roles r") (auto simp: role_implies_def)
      then show "p \<in> ?E \<inter> with_color Black color' \<times> UNIV"
        using all p \<open>p \<in> ?E\<close> by (simp add: with_color_def)
    qed
    moreover have "acyclic (?E \<inter> with_color Black color' \<times> UNIV)" using ok by (simp add: black_ok_def)
    ultimately have "acyclic ?E" by (rule acyclic_subset [rotated])
    then show ?thesis using res None by (simp add: cycleInRoles_def)
  qed
qed

end
