(* ===== verification/Vocabulary.thy ===== *)
theory Vocabulary
  imports Ladders
begin

text \<open>
  \<open>src/policy/vocabulary.go\<close>: the declared scopes, things and role ladders, their validation (the search
  for a cycle in the \<open>implies\<close> graph is in \<open>Ladders\<close>), which concrete grants fit, and the
  expansion of a mapping wildcard. The lemmas characterise the expansion, show that it never reaches
  a sensitive scope and stays inside the vocabulary, and that inheritance stays inside a validated vocabulary.
\<close>

section \<open>Validation\<close>

datatype vocab_err =
    ThingNoScopes string
  | ThingScopeUndeclared string string
  | ThingNoRoles string
  | RoleEmptyScopes string string
  | RoleScopeUndeclared string string string
  | RoleScopeForeign string string string
  | ImpliesUndeclared string string string
  | ImpliesNarrower string string string string
  | ImpliesCycle string string

definition validate_implied :: "string \<Rightarrow> ThingSpec \<Rightarrow> string \<Rightarrow> RoleSpec \<Rightarrow> string \<Rightarrow> vocab_err option" where
  "validate_implied name spec role rspec implied =
     (case map_of (Roles spec) implied of
        None \<Rightarrow> Some (ImpliesUndeclared name role implied)
      | Some impliedSpec \<Rightarrow>
          first_err (\<lambda>scope. guard_err (\<not> allowsScope impliedSpec scope)
                        (ImpliesNarrower name role implied scope))
            (effectiveScopes rspec spec))"

definition validate_role :: "Vocab \<Rightarrow> string \<Rightarrow> ThingSpec \<Rightarrow> string \<Rightarrow> vocab_err option" where
  "validate_role v name spec role =
     (case map_of (Roles spec) role of None \<Rightarrow> None
      | Some rspec \<Rightarrow> first_some
         [guard_err (role_Scopes rspec = Some []) (RoleEmptyScopes name role),
          first_err (\<lambda>scope. first_some
              [guard_err (\<not> has_key (Scopes v) scope) (RoleScopeUndeclared name role scope),
               guard_err (scope \<notin> set (thing_Scopes spec)) (RoleScopeForeign name role scope)])
            (scope_list rspec),
          first_err (validate_implied name spec role rspec) (Implies rspec)])"

definition validate_thing :: "Vocab \<Rightarrow> string \<Rightarrow> ThingSpec \<Rightarrow> vocab_err option" where
  "validate_thing v name spec = first_some
     [guard_err (thing_Scopes spec = []) (ThingNoScopes name),
      first_err (\<lambda>scope. guard_err (\<not> has_key (Scopes v) scope) (ThingScopeUndeclared name scope))
        (thing_Scopes spec),
      guard_err (Roles spec = []) (ThingNoRoles name),
      first_err (validate_role v name spec) (tkeys (Roles spec)),
      (let cycle = cycleInRoles (Roles spec) in guard_err (cycle \<noteq> []) (ImpliesCycle name cycle))]"

definition Vocabulary_validate :: "Vocab option \<Rightarrow> vocab_err option" where
  "Vocabulary_validate vo =
     (case vo of None \<Rightarrow> None
      | Some v \<Rightarrow> first_err (\<lambda>name. case map_of (Things v) name of None \<Rightarrow> None
                              | Some spec \<Rightarrow> validate_thing v name spec) (tkeys (Things v)))"

section \<open>Which grants fit\<close>

datatype fit_err =
    ScopeUndeclared string
  | ThingUndeclared string
  | ThingLacksScope string string
  | RoleUndeclared string string
  | RoleLacksScope string string

definition fits :: "Vocab \<Rightarrow> string \<Rightarrow> string \<Rightarrow> string \<Rightarrow> fit_err option" where
  "fits v scope thing role =
     (if \<not> has_key (Scopes v) scope then Some (ScopeUndeclared scope)
      else (case map_of (Things v) thing of
        None \<Rightarrow> Some (ThingUndeclared thing)
      | Some spec \<Rightarrow>
          (if scope \<notin> set (thing_Scopes spec) then Some (ThingLacksScope thing scope)
           else (case map_of (Roles spec) role of
             None \<Rightarrow> Some (RoleUndeclared role thing)
           | Some rspec \<Rightarrow> guard_err (\<not> allowsScope rspec scope) (RoleLacksScope role thing)))))"

abbreviation star :: string where "star \<equiv> ''*''"

definition checkWildcard :: "Vocab \<Rightarrow> string \<Rightarrow> string \<Rightarrow> string \<Rightarrow> fit_err option" where
  "checkWildcard v scope thing role = first_some
     [guard_err (scope \<noteq> star \<and> \<not> has_key (Scopes v) scope) (ScopeUndeclared scope),
      (if thing = star then None
       else (case map_of (Things v) thing of
          None \<Rightarrow> Some (ThingUndeclared thing)
        | Some spec \<Rightarrow> first_some
            [guard_err (scope \<noteq> star \<and> scope \<notin> set (thing_Scopes spec)) (ThingLacksScope thing scope),
             guard_err (\<not> has_key (Roles spec) role) (RoleUndeclared role thing)]))]"

text \<open>The things a wildcard sweeps, and for one of them the scopes it would reach.\<close>

definition swept_things :: "Vocab \<Rightarrow> string \<Rightarrow> string list" where
  "swept_things v thing = (if thing = star then tkeys (Things v) else [thing])"

definition swept_scopes :: "string \<Rightarrow> ThingSpec \<Rightarrow> string list" where
  "swept_scopes scope spec =
     (if scope = star then thing_Scopes spec
      else if scope \<in> set (thing_Scopes spec) then [scope] else [])"

definition swept_role :: "Vocab \<Rightarrow> string \<Rightarrow> string \<Rightarrow> (ThingSpec \<times> RoleSpec) option" where
  "swept_role v t role =
     (case map_of (Things v) t of None \<Rightarrow> None
      | Some spec \<Rightarrow> map_option (\<lambda>rspec. (spec, rspec)) (map_of (Roles spec) role))"

definition expand :: "Vocab \<Rightarrow> string \<Rightarrow> string \<Rightarrow> string \<Rightarrow> string list" where
  "expand v scope thing role = sort_compact (concat (map
     (\<lambda>t. case swept_role v t role of None \<Rightarrow> []
        | Some (spec, rspec) \<Rightarrow>
            map (\<lambda>s. grant_name s t role)
              (filter (\<lambda>s. \<not> scope_sensitive v s \<and> allowsScope rspec s) (swept_scopes scope spec)))
     (swept_things v thing)))"

definition expandIgnoringSensitivity :: "Vocab \<Rightarrow> string \<Rightarrow> string \<Rightarrow> string \<Rightarrow> string list" where
  "expandIgnoringSensitivity v scope thing role = sort_compact (concat (map
     (\<lambda>t. case swept_role v t role of None \<Rightarrow> []
        | Some (spec, rspec) \<Rightarrow>
            map (\<lambda>s. grant_name s t role) (filter (allowsScope rspec) (swept_scopes scope spec)))
     (swept_things v thing)))"

datatype empty_why =
    NoThingHasRole string
  | NoThingDeclaresScope string string
  | RoleNotOnScope string string
  | EverySensitive "string list"

definition emptyWhy :: "Vocab \<Rightarrow> string \<Rightarrow> string \<Rightarrow> string \<Rightarrow> empty_why" where
  "emptyWhy v scope thing role =
     (let hits = List.map_filter (\<lambda>t. swept_role v t role) (swept_things v thing);
          candidates = concat (map (\<lambda>(spec, rspec). map (\<lambda>s. (s, rspec)) (swept_scopes scope spec)) hits);
          allowed = filter (\<lambda>(s, rspec). allowsScope rspec s) candidates
      in if hits = [] then NoThingHasRole role
         else if candidates = [] then NoThingDeclaresScope role scope
         else if allowed = [] then RoleNotOnScope role scope
         else EverySensitive (sort_compact (filter (scope_sensitive v) (map fst allowed))))"

section \<open>Names used as grants and as keys of the groups table\<close>

datatype grant_err = WildcardNotAKey | GrantUnfit fit_err

text \<open>\<open>Policy.checkGrantName\<close>; the caller adds where the name stands.\<close>

definition checkGrantName :: "Vocab option \<Rightarrow> string \<Rightarrow> grant_err option" where
  "checkGrantName vo name =
     (case SplitGroup name of None \<Rightarrow> None
      | Some (scope, thing, role) \<Rightarrow>
          (if scope = star \<or> thing = star \<or> role = star then Some WildcardNotAKey
           else (case vo of None \<Rightarrow> None
             | Some v \<Rightarrow> map_option GrantUnfit (fits v scope thing role))))"

datatype key_err =
    RoleWildcard
  | KeyUnfit fit_err
  | WildcardNeedsVocabulary
  | SensitiveScope string string
  | ExpandsToNothing empty_why

definition checkGroupKey :: "Vocab option \<Rightarrow> string \<Rightarrow> key_err + string list" where
  "checkGroupKey vo name =
     (case SplitGroup name of None \<Rightarrow> Inr [name]
      | Some (scope, thing, role) \<Rightarrow>
          (if role = star then Inl RoleWildcard
           else if \<not> (scope = star \<or> thing = star) then
             (case vo of None \<Rightarrow> Inr [name]
              | Some v \<Rightarrow> (case fits v scope thing role of Some e \<Rightarrow> Inl (KeyUnfit e) | None \<Rightarrow> Inr [name]))
           else (case vo of None \<Rightarrow> Inl WildcardNeedsVocabulary
             | Some v \<Rightarrow>
                 (case checkWildcard v scope thing role of Some e \<Rightarrow> Inl (KeyUnfit e)
                  | None \<Rightarrow>
                      (case expand v scope thing role of
                         t # ts \<Rightarrow> Inr (t # ts)
                       | [] \<Rightarrow>
                           (case (if scope \<noteq> star \<and> scope_sensitive v scope
                                  then expandIgnoringSensitivity v scope thing role else []) of
                              example # _ \<Rightarrow> Inl (SensitiveScope scope example)
                            | [] \<Rightarrow> Inl (ExpandsToNothing (emptyWhy v scope thing role))))))))"

definition groupKeyTargets :: "Vocab option \<Rightarrow> string \<Rightarrow> string list" where
  "groupKeyTargets vo name = (case checkGroupKey vo name of Inl _ \<Rightarrow> [] | Inr targets \<Rightarrow> targets)"

section \<open>What an expansion reaches\<close>

lemma swept_role_Some:
  "swept_role v t role = Some (spec, rspec) \<longleftrightarrow>
     map_of (Things v) t = Some spec \<and> map_of (Roles spec) role = Some rspec"
  by (auto simp: swept_role_def split: option.splits)

text \<open>
  A concrete grant is in the expansion exactly when the wildcard covers its segments, the vocabulary
  declares it, its role allows the scope, and the scope is not sensitive.
\<close>

lemma expand_iff:
  "g \<in> set (expand v scope thing role) \<longleftrightarrow>
     (\<exists>s t spec rspec. g = grant_name s t role
        \<and> (scope = star \<or> s = scope) \<and> (thing = star \<or> t = thing)
        \<and> map_of (Things v) t = Some spec \<and> map_of (Roles spec) role = Some rspec
        \<and> s \<in> set (thing_Scopes spec) \<and> allowsScope rspec s \<and> \<not> scope_sensitive v s)"
  (is "?L = ?R")
proof
  assume ?L
  then obtain t spec rspec s where "t \<in> set (swept_things v thing)"
      "swept_role v t role = Some (spec, rspec)" "s \<in> set (swept_scopes scope spec)"
      "\<not> scope_sensitive v s" "allowsScope rspec s" "g = grant_name s t role"
    by (auto simp: expand_def split: option.splits dest: sym)
  then show ?R
    by (auto simp: swept_role_Some swept_scopes_def swept_things_def split: if_splits)
next
  assume ?R
  then obtain s t spec rspec where "g = grant_name s t role"
      "scope = star \<or> s = scope" "thing = star \<or> t = thing"
      "map_of (Things v) t = Some spec" "map_of (Roles spec) role = Some rspec"
      "s \<in> set (thing_Scopes spec)" "allowsScope rspec s" "\<not> scope_sensitive v s"
    by blast
  then have "t \<in> set (swept_things v thing)" "swept_role v t role = Some (spec, rspec)"
      "s \<in> set (swept_scopes scope spec)" "g = grant_name s t role"
      "allowsScope rspec s" "\<not> scope_sensitive v s"
    by (auto simp: swept_role_Some swept_scopes_def swept_things_def)
  then show ?L by (force simp: expand_def)
qed

lemma checkGroupKey_wildcard:
  assumes "checkGroupKey vo name = Inr targets" and "SplitGroup name = Some (scope, thing, role)"
    and "scope = star \<or> thing = star"
  obtains v where "vo = Some v" "targets = expand v scope thing role" "targets \<noteq> []" "role \<noteq> star"
  using assms by (auto simp: checkGroupKey_def split: if_splits option.splits list.splits)

lemma checkGroupKey_concrete:
  assumes "checkGroupKey vo name = Inr targets"
    and "\<And>scope thing role. SplitGroup name = Some (scope, thing, role) \<Longrightarrow> scope \<noteq> star \<and> thing \<noteq> star"
  shows "targets = [name]"
  using assms by (cases "SplitGroup name")
    (auto simp: checkGroupKey_def split: if_splits option.splits list.splits)

lemma checkGroupKey_not_Nil: "checkGroupKey vo name = Inr targets \<Longrightarrow> targets \<noteq> []"
  by (auto simp: checkGroupKey_def split: if_splits option.splits list.splits prod.splits)

text \<open>The keys that stand for more than themselves.\<close>

definition wildcard_key :: "string \<Rightarrow> bool" where
  "wildcard_key name =
     (case SplitGroup name of None \<Rightarrow> False | Some (s, t, r) \<Rightarrow> s = star \<or> t = star)"

lemma groupKeyTargets_wildcard:
  assumes "g \<in> set (groupKeyTargets vo name)" and "wildcard_key name"
  obtains v scope thing role where "vo = Some v" "SplitGroup name = Some (scope, thing, role)"
    "g \<in> set (expand v scope thing role)"
proof -
  from assms(2) obtain scope thing role where sp: "SplitGroup name = Some (scope, thing, role)"
    and w: "scope = star \<or> thing = star"
    by (auto simp: wildcard_key_def split: option.splits)
  from assms(1) obtain targets where k: "checkGroupKey vo name = Inr targets" "g \<in> set targets"
    by (cases "checkGroupKey vo name") (auto simp: groupKeyTargets_def)
  show ?thesis
    using checkGroupKey_wildcard [OF k(1) sp w] k(2) sp that by metis
qed

lemma groupKeyTargets_concrete:
  assumes "\<not> wildcard_key name"
  shows "set (groupKeyTargets vo name) \<subseteq> {name}"
proof (cases "checkGroupKey vo name")
  case (Inr targets)
  then have "targets = [name]"
    using assms by (intro checkGroupKey_concrete) (auto simp: wildcard_key_def)
  then show ?thesis using Inr by (simp add: groupKeyTargets_def)
qed (simp add: groupKeyTargets_def)

text \<open>No wildcard key, whatever the vocabulary, stands for a grant in a sensitive scope.\<close>

lemma wildcard_never_sensitive:
  assumes "g \<in> set (groupKeyTargets (Some v) name)" and "wildcard_key name"
    and "SplitGroup g = Some (s, t, r)"
  shows "\<not> scope_sensitive v s"
proof -
  obtain scope thing role where "g \<in> set (expand v scope thing role)"
    using groupKeyTargets_wildcard [OF assms(1,2)] by blast
  then obtain s' t' where g: "g = grant_name s' t' role" and ok: "\<not> scope_sensitive v s'"
    by (auto simp: expand_iff)
  then have "s = s'" using assms(3) SplitGroup_grant_name by blast
  then show ?thesis using ok by simp
qed

section \<open>A validated vocabulary\<close>

lemma validated_thing:
  assumes "Vocabulary_validate (Some v) = None" and "map_of (Things v) t = Some spec"
  shows "validate_thing v t spec = None"
proof -
  have "t \<in> set (tkeys (Things v))" using assms(2) by auto
  then show ?thesis
    using assms by (auto simp: Vocabulary_validate_def first_err_None split: option.splits)
qed

lemma validated_scopes:
  assumes "Vocabulary_validate (Some v) = None" and "map_of (Things v) t = Some spec"
    and "s \<in> set (thing_Scopes spec)"
  shows "has_key (Scopes v) s"
  using validated_thing [OF assms(1,2)] assms(3)
  by (auto simp: validate_thing_def err_simps simp del: has_key_iff)

lemma validated_role:
  assumes "Vocabulary_validate (Some v) = None" and "map_of (Things v) t = Some spec"
    and "map_of (Roles spec) r = Some rspec"
  shows "validate_role v t spec r = None"
proof -
  have "r \<in> set (tkeys (Roles spec))" using assms(3) by auto
  then show ?thesis
    using validated_thing [OF assms(1,2)] by (auto simp: validate_thing_def err_simps)
qed

lemma validated_implied:
  assumes "Vocabulary_validate (Some v) = None" and "map_of (Things v) t = Some spec"
    and "map_of (Roles spec) r = Some rspec" and "i \<in> set (Implies rspec)"
  obtains ispec where "map_of (Roles spec) i = Some ispec"
    "\<forall>s\<in>set (effectiveScopes rspec spec). allowsScope ispec s"
proof -
  have "validate_implied t spec r rspec i = None"
    using validated_role [OF assms(1-3)] assms(3,4) by (auto simp: validate_role_def err_simps)
  then show ?thesis
    using that by (auto simp: validate_implied_def err_simps split: option.splits)
qed

lemma validated_acyclic:
  assumes "Vocabulary_validate (Some v) = None" and "map_of (Things v) t = Some spec"
  shows "cycleInRoles (Roles spec) = []"
  using validated_thing [OF assms] by (auto simp: validate_thing_def err_simps Let_def)

lemma fits_None:
  "fits v scope thing role = None \<longleftrightarrow>
     has_key (Scopes v) scope \<and> (\<exists>spec rspec. map_of (Things v) thing = Some spec
       \<and> scope \<in> set (thing_Scopes spec) \<and> map_of (Roles spec) role = Some rspec
       \<and> allowsScope rspec scope)"
  by (auto simp: fits_def err_simps split: option.splits)

text \<open>Inheritance stays inside a validated vocabulary: an implied role fits where its source fits.\<close>

lemma fits_implied:
  assumes "Vocabulary_validate (Some v) = None" and "fits v s t r = None"
    and "map_of (Things v) t = Some spec" and "map_of (Roles spec) r = Some rspec"
    and "i \<in> set (Implies rspec)"
  shows "fits v s t i = None"
proof -
  have s: "has_key (Scopes v) s" "s \<in> set (thing_Scopes spec)" "allowsScope rspec s"
    using assms(2-4) by (auto simp: fits_None)
  then have "s \<in> set (effectiveScopes rspec spec)"
    by (auto simp: effectiveScopes_def allowsScope_def)
  moreover obtain ispec where "map_of (Roles spec) i = Some ispec"
    "\<forall>s\<in>set (effectiveScopes rspec spec). allowsScope ispec s"
    using validated_implied [OF assms(1,3-5)] .
  ultimately show ?thesis
    using s assms(3) by (simp add: fits_None)
qed

text \<open>Every target of a key of the groups table is declared, whatever wildcards the key uses.\<close>

lemma expand_fits:
  assumes "Vocabulary_validate (Some v) = None" and "g \<in> set (expand v scope thing role)"
  obtains s t where "g = grant_name s t role" "fits v s t role = None"
  using assms validated_scopes [OF assms(1)] by (auto simp: expand_iff fits_None)

end
