(* ===== verification/Fragments.thy ===== *)
theory Fragments
  imports Go_Prelude
begin

text \<open>
  \<open>src/policy/merge.go\<close> and \<open>Policy.checkFragments\<close> of \<open>src/policy/policy.go\<close>: the claim fragments
  groups add to a token, how they merge, and the load-time refusal of two groups that set one scalar
  differently. A \<open>Fragment\<close> is decoded YAML, so a claim is a \<open>claim\<close> value below; a float is carried
  as the text \<open>fmt.Sprint\<close> gives it. The lemmas describe the union of lists, what the load-time check
  guarantees of two fragments, and what a merge keeps.
\<close>

section \<open>Values\<close>

datatype claim =
    VNull
  | VBool bool
  | VInt int
  | VFloat string
  | VStr string
  | VList "claim list"
  | VMap "(string \<times> claim) list"

type_synonym fragment = "claim table"

fun digits :: "nat \<Rightarrow> string" where
  "digits n = (if n < 10 then [char_of (48 + n)] else digits (n div 10) @ [char_of (48 + n mod 10)])"

declare digits.simps [simp del]

definition sprint_int :: "int \<Rightarrow> string" where
  "sprint_int i = (if i < 0 then CHR ''-'' # digits (nat (- i)) else digits (nat i))"

text \<open>\<open>fmt.Sprint\<close> of one decoded value; a map prints its keys sorted.\<close>

primrec sprint :: "claim \<Rightarrow> string" where
  "sprint VNull = ''<nil>''"
| "sprint (VBool b) = (if b then ''true'' else ''false'')"
| "sprint (VInt i) = sprint_int i"
| "sprint (VFloat s) = s"
| "sprint (VStr s) = s"
| "sprint (VList vs) = ''['' @ join '' '' (map sprint vs) @ '']''"
| "sprint (VMap kvs) =
     (let m = map (map_prod id sprint) kvs
      in ''map['' @ join '' '' (map (\<lambda>k. k @ '':'' @ tget [] m k) (tkeys m)) @ '']'')"

definition is_map :: "claim \<Rightarrow> bool" where
  "is_map v = (case v of VMap _ \<Rightarrow> True | _ \<Rightarrow> False)"

section \<open>Merging\<close>

definition seen_by_text :: "claim list \<Rightarrow> claim table" where
  "seen_by_text vs = fold (\<lambda>v seen. tput (sprint v) v seen) vs []"

definition union :: "claim list \<Rightarrow> claim list \<Rightarrow> claim list" where
  "union left right =
     (let seen = seen_by_text (left @ right) in map (\<lambda>key. tget VNull seen key) (tkeys seen))"

datatype merge_err = MapAgainst string | ListAgainst string | SetTwice string

definition dotted :: "string \<Rightarrow> string \<Rightarrow> string" where
  "dotted at key = (if at = [] then key else at @ ''.'' @ key)"

text \<open>The entries of a map in the order of its sorted keys.\<close>

definition sorted_entries :: "('k :: linorder, 'v) gomap \<Rightarrow> ('k \<times> 'v) list" where
  "sorted_entries m = map (\<lambda>k. (k, the (map_of m k))) (tkeys m)"

primrec vdepth :: "claim \<Rightarrow> nat" where
  "vdepth VNull = 0"
| "vdepth (VBool b) = 0"
| "vdepth (VInt i) = 0"
| "vdepth (VFloat s) = 0"
| "vdepth (VStr s) = 0"
| "vdepth (VList vs) = Suc (fold max (map vdepth vs) 0)"
| "vdepth (VMap kvs) = Suc (fold max (map snd (map (map_prod id vdepth) kvs)) 0)"

definition entries_depth :: "(string \<times> claim) list \<Rightarrow> nat" where
  "entries_depth es = Max (insert 0 (vdepth ` snd ` set es))"

lemma fold_max_ge: "n \<in> set ns \<or> n \<le> m \<Longrightarrow> n \<le> fold max ns (m :: nat)"
proof (induction ns arbitrary: m)
  case (Cons a ns)
  then show ?case by (cases "n = a") (auto intro!: Cons.IH)
qed simp

lemma entries_depth_Cons_le: "entries_depth es \<le> entries_depth (e # es)"
  by (auto simp: entries_depth_def intro!: Max_mono)

lemma entries_depth_ge: "(k, v) \<in> set es \<Longrightarrow> vdepth v \<le> entries_depth es"
  by (force simp: entries_depth_def intro!: Max_ge)

lemma sorted_entries_subset: "set (sorted_entries m) \<subseteq> set m"
  by (auto simp: sorted_entries_def map_of_SomeD)

lemma entries_depth_map: "entries_depth (sorted_entries kvs) < vdepth (VMap kvs)"
proof -
  have "n \<le> fold max (map snd (map (map_prod id vdepth) kvs)) 0"
    if "n \<in> vdepth ` snd ` set (sorted_entries kvs)" for n
    using that sorted_entries_subset [of kvs] by (intro fold_max_ge) force
  then show ?thesis
    by (auto simp: entries_depth_def less_Suc_eq_le simp del: map_map)
qed

text \<open>
  \<open>mergeFragment\<close> writes into \<open>dst\<close> as it goes, so what it leaves there when it stops at an error is
  part of its result.
\<close>

function (sequential) merge_entries :: "fragment \<Rightarrow> (string \<times> claim) list \<Rightarrow> string \<Rightarrow> merge_err option \<times> fragment"
  and mergeValue :: "claim \<Rightarrow> claim \<Rightarrow> string \<Rightarrow> merge_err + claim" where
  "merge_entries dst [] at = (None, dst)"
| "merge_entries dst ((key, incoming) # rest) at =
     (case map_of dst key of
        None \<Rightarrow> merge_entries (tput key incoming dst) rest at
      | Some existing \<Rightarrow>
          (case mergeValue existing incoming (dotted at key) of
             Inl err \<Rightarrow> (Some err, dst)
           | Inr merged \<Rightarrow> merge_entries (tput key merged dst) rest at))"
| "mergeValue (VMap left) (VMap right) at =
     (case merge_entries left (sorted_entries right) at of
        (Some err, _) \<Rightarrow> Inl err
      | (None, out) \<Rightarrow> Inr (VMap out))"
| "mergeValue (VMap left) incoming at = Inl (MapAgainst at)"
| "mergeValue (VList left) (VList right) at = Inr (VList (union left right))"
| "mergeValue (VList left) incoming at = Inl (ListAgainst at)"
| "mergeValue existing incoming at =
     (if sprint existing \<noteq> sprint incoming then Inl (SetTwice at) else Inr existing)"
  by pat_completeness auto
termination
proof (relation "measures [\<lambda>x. case x of Inl (_, es, _) \<Rightarrow> 2 * entries_depth es + 1 | Inr (_, v, _) \<Rightarrow> 2 * vdepth v,
    \<lambda>x. case x of Inl (_, es, _) \<Rightarrow> length es | Inr _ \<Rightarrow> 0]", goal_cases)
  case (2 dst key incoming rest at)
  then show ?case using entries_depth_Cons_le [of rest "(key, incoming)"] by (auto simp: le_less)
next
  case (3 dst key incoming rest at x)
  then show ?case using entries_depth_ge [of key incoming "(key, incoming) # rest"] by auto
next
  case (4 dst key incoming rest at x y)
  then show ?case using entries_depth_Cons_le [of rest "(key, incoming)"] by (auto simp: le_less)
next
  case (5 left right at)
  then show ?case using entries_depth_map [of right] by auto
qed simp

definition mergeFragment :: "fragment \<Rightarrow> fragment \<Rightarrow> string \<Rightarrow> merge_err option \<times> fragment" where
  "mergeFragment dst src at = merge_entries dst (sorted_entries src) at"

section \<open>The check at load\<close>

text \<open>The scalar leaves of a value with their dotted paths, in the order \<open>walkScalars\<close> visits them.\<close>

primrec walkScalars :: "claim \<Rightarrow> string \<Rightarrow> (string \<times> claim) list" where
  "walkScalars VNull = (\<lambda>at. [(at, VNull)])"
| "walkScalars (VBool b) = (\<lambda>at. [(at, VBool b)])"
| "walkScalars (VInt i) = (\<lambda>at. [(at, VInt i)])"
| "walkScalars (VFloat s) = (\<lambda>at. [(at, VFloat s)])"
| "walkScalars (VStr s) = (\<lambda>at. [(at, VStr s)])"
| "walkScalars (VList vs) = (\<lambda>at. [])"
| "walkScalars (VMap kvs) =
     (\<lambda>at. let m = map (map_prod id walkScalars) kvs
           in concat (map (\<lambda>key. tget (\<lambda>_. []) m key (dotted at key)) (tkeys m)))"

text \<open>The two maps of \<open>checkFragments\<close>, kept together: a path, who set it first, and to what.\<close>

type_synonym scalar_owners = "(string \<times> claim) table"

datatype fragment_err = BothSet string string string

definition visit_scalar :: "string \<Rightarrow> string \<times> claim \<Rightarrow> scalar_owners \<Rightarrow> fragment_err + scalar_owners" where
  "visit_scalar name leaf seen =
     (case map_of seen (fst leaf) of
        None \<Rightarrow> Inr (tput (fst leaf) (name, snd leaf) seen)
      | Some (owner, previous) \<Rightarrow>
          (if sprint previous \<noteq> sprint (snd leaf) then Inl (BothSet owner name (fst leaf)) else Inr seen))"

definition fragment_leaves :: "fragment table \<Rightarrow> (string \<times> string \<times> claim) list" where
  "fragment_leaves claims =
     concat (map (\<lambda>(name, frag). map (Pair name) (walkScalars (VMap frag) [])) (sorted_entries claims))"

definition checkFragments :: "fragment table \<Rightarrow> fragment_err option" where
  "checkFragments claims =
     (case fold_err (\<lambda>(name, leaf). visit_scalar name leaf) (fragment_leaves claims) [] of
        Inl e \<Rightarrow> Some e | Inr _ \<Rightarrow> None)"

section \<open>Unions\<close>

lemma seen_fold_dom:
  "dom (map_of (fold (\<lambda>v seen. tput (sprint v) v seen) vs m)) = dom (map_of m) \<union> sprint ` set vs"
  by (induction vs arbitrary: m) auto

lemma seen_fold_Some:
  "map_of (fold (\<lambda>v seen. tput (sprint v) v seen) vs m) k = Some v \<Longrightarrow>
     (v \<in> set vs \<and> sprint v = k) \<or> (map_of m k = Some v \<and> k \<notin> sprint ` set vs)"
proof (induction vs arbitrary: m)
  case (Cons a vs)
  then have "map_of (fold (\<lambda>v seen. tput (sprint v) v seen) vs (tput (sprint a) a m)) k = Some v"
    by simp
  from Cons.IH [OF this] show ?case by (cases "k = sprint a") auto
qed simp

lemma seen_by_text_dom: "dom (map_of (seen_by_text vs)) = sprint ` set vs"
  by (simp add: seen_by_text_def seen_fold_dom)

lemma seen_by_text_Some: "map_of (seen_by_text vs) k = Some v \<Longrightarrow> v \<in> set vs \<and> sprint v = k"
  unfolding seen_by_text_def by (drule seen_fold_Some) simp

lemma seen_by_text_last:
  assumes "map_of (seen_by_text (l @ r)) k = Some v" and "k \<in> sprint ` set r"
  shows "v \<in> set r"
proof -
  have "seen_by_text (l @ r) = fold (\<lambda>v seen. tput (sprint v) v seen) r (seen_by_text l)"
    by (simp add: seen_by_text_def)
  then show ?thesis using assms seen_fold_Some [of r "seen_by_text l" k v] by auto
qed

lemma union_lookup:
  assumes "v \<in> set (union l r)"
  shows "map_of (seen_by_text (l @ r)) (sprint v) = Some v"
proof -
  let ?m = "seen_by_text (l @ r)"
  obtain k where k: "k \<in> dom (map_of ?m)" "v = tget VNull ?m k"
    using assms unfolding union_def Let_def set_map set_tkeys by blast
  then have "map_of ?m k = Some v" by (auto simp: tget_def)
  then show ?thesis using seen_by_text_Some by metis
qed

lemma union_subset: "set (union l r) \<subseteq> set l \<union> set r"
  using union_lookup seen_by_text_Some by fastforce

text \<open>The union is sorted by text, without repeats, and has exactly the texts of both sides.\<close>

lemma map_sprint_union: "map sprint (union l r) = sort_compact (map sprint (l @ r))"
proof (rule sorted_distinct_set_unique)
  let ?m = "seen_by_text (l @ r)"
  have key: "sprint (tget VNull ?m k) = k" if "k \<in> dom (map_of ?m)" for k
    using that seen_by_text_Some [of "l @ r" k] by (auto simp: tget_def)
  have eq: "map sprint (union l r) = tkeys ?m"
    using key by (auto simp: union_def Let_def intro!: map_idI)
  show "sorted (map sprint (union l r))" "distinct (map sprint (union l r))"
    unfolding eq by simp_all
  show "set (map sprint (union l r)) = set (sort_compact (map sprint (l @ r)))"
    unfolding eq by (simp add: seen_by_text_dom image_Un)
qed simp_all

lemma union_strings: "union (map VStr a) (map VStr b) = map VStr (sort_compact (a @ b))"
proof -
  have str: "v = VStr (sprint v)" if "v \<in> set (union (map VStr a) (map VStr b))" for v
    using that union_subset [of "map VStr a" "map VStr b"] by auto
  have "union (map VStr a) (map VStr b) = map VStr (map sprint (union (map VStr a) (map VStr b)))"
    using str by (simp add: map_idI)
  also have "\<dots> = map VStr (sort_compact (a @ b))"
    by (simp add: map_sprint_union comp_def)
  finally show ?thesis .
qed

text \<open>A name of the right-hand list survives, whatever the left-hand list held under its text.\<close>

lemma union_right_string: "g \<in> set names \<Longrightarrow> VStr g \<in> set (union l (map VStr names))"
proof -
  assume g: "g \<in> set names"
  then have "g \<in> set (map sprint (union l (map VStr names)))"
    by (auto simp: map_sprint_union image_iff intro!: bexI [of _ g])
  then obtain v where v: "v \<in> set (union l (map VStr names))" "sprint v = g" by auto
  from union_lookup [OF v(1)] have "v \<in> set (map VStr names)"
    using seen_by_text_last g v(2) by (metis image_eqI imageI list.set_map sprint.simps(5))
  then show ?thesis using v by auto
qed

section \<open>What the load-time check guarantees\<close>

lemma visit_scalars_ok:
  assumes "fold_err (\<lambda>(name, leaf). visit_scalar name leaf) ls seen = Inr seen'"
  shows "(\<forall>(n, w, v)\<in>set ls. \<exists>o' v'. map_of seen' w = Some (o', v') \<and> sprint v' = sprint v)
     \<and> (\<forall>w x. map_of seen w = Some x \<longrightarrow> map_of seen' w = Some x)"
  using assms
proof (induction ls arbitrary: seen)
  case (Cons l ls)
  obtain n w v where l: "l = (n, w, v)" by (cases l)
  obtain mid where mid: "visit_scalar n (w, v) seen = Inr mid"
    and rest: "fold_err (\<lambda>(name, leaf). visit_scalar name leaf) ls mid = Inr seen'"
    using Cons.prems l by (auto split: sum.splits)
  have keep: "\<forall>w x. map_of seen w = Some x \<longrightarrow> map_of mid w = Some x"
    and here: "\<exists>o' v'. map_of mid w = Some (o', v') \<and> sprint v' = sprint v"
    using mid by (auto simp: visit_scalar_def split: option.splits if_splits)
  show ?case using Cons.IH [OF rest] keep here l by fastforce
qed simp

lemma visit_scalars_err:
  assumes "fold_err (\<lambda>(name, leaf). visit_scalar name leaf) ls seen = Inl (BothSet a b w)"
  shows "\<exists>u v. (b, w, v) \<in> set ls \<and> sprint u \<noteq> sprint v
     \<and> ((a, w, u) \<in> set ls \<or> map_of seen w = Some (a, u))"
  using assms
proof (induction ls arbitrary: seen)
  case (Cons l ls)
  obtain n x v where l: "l = (n, x, v)" by (cases l)
  show ?case
  proof (cases "visit_scalar n (x, v) seen")
    case (Inl e)
    then obtain u where "map_of seen w = Some (a, u)" "sprint u \<noteq> sprint v" "n = b" "x = w"
      using Cons.prems l by (auto simp: visit_scalar_def split: option.splits if_splits)
    then show ?thesis using l by auto
  next
    case (Inr mid)
    have from_mid: "map_of seen w = Some (a, u) \<or> (a, w, u) = l" if "map_of mid w = Some (a, u)" for u
      using that Inr l by (auto simp: visit_scalar_def split: option.splits if_splits)
    have "fold_err (\<lambda>(name, leaf). visit_scalar name leaf) ls mid = Inl (BothSet a b w)"
      using Cons.prems l Inr by simp
    from Cons.IH [OF this] show ?thesis using from_mid by (metis list.set_intros)
  qed
qed simp

text \<open>
  The check is exact for scalars: it passes exactly when every two groups that set one path set it
  to the same text.
\<close>

lemma checkFragments_None_iff:
  "checkFragments claims = None \<longleftrightarrow>
     (\<forall>n w v n' v'. (n, w, v) \<in> set (fragment_leaves claims) \<longrightarrow>
        (n', w, v') \<in> set (fragment_leaves claims) \<longrightarrow> sprint v = sprint v')"
  (is "?L \<longleftrightarrow> ?R")
proof (cases "fold_err (\<lambda>(name, leaf). visit_scalar name leaf) (fragment_leaves claims) []")
  case (Inr seen)
  have found: "\<exists>o' u. map_of seen w = Some (o', u) \<and> sprint u = sprint v"
    if "(n, w, v) \<in> set (fragment_leaves claims)" for n w v
    using bspec [OF conjunct1 [OF visit_scalars_ok [OF Inr]] that] by simp
  have ?R
  proof (intro allI impI)
    fix n w v n' v'
    assume "(n, w, v) \<in> set (fragment_leaves claims)" "(n', w, v') \<in> set (fragment_leaves claims)"
    from this [THEN found] show "sprint v = sprint v'" by auto
  qed
  moreover have ?L using Inr by (simp add: checkFragments_def)
  ultimately show ?thesis by blast
next
  case (Inl e)
  obtain a b w where e: "e = BothSet a b w" by (cases e)
  obtain u v where "(b, w, v) \<in> set (fragment_leaves claims)" "(a, w, u) \<in> set (fragment_leaves claims)"
    "sprint u \<noteq> sprint v"
    using visit_scalars_err [OF Inl [unfolded e]] by auto
  then have "\<not> ?R" by blast
  moreover have "\<not> ?L" using Inl by (simp add: checkFragments_def)
  ultimately show ?thesis by blast
qed

section \<open>What a merge keeps\<close>

lemma merge_entries_dom:
  "merge_entries dst es at = (err, out) \<Longrightarrow>
     dom (map_of dst) \<subseteq> dom (map_of out) \<and> dom (map_of out) \<subseteq> dom (map_of dst) \<union> fst ` set es
       \<and> (err = None \<longrightarrow> fst ` set es \<subseteq> dom (map_of out))"
proof (induction es arbitrary: dst)
  case (Cons e es)
  obtain key incoming where e: "e = (key, incoming)" by (cases e)
  show ?case
  proof (cases "map_of dst key")
    case None
    then have "merge_entries (tput key incoming dst) es at = (err, out)"
      using Cons.prems e by simp
    from Cons.IH [OF this] show ?thesis using e by (auto simp del: fun_upd_apply)
  next
    case (Some existing)
    show ?thesis
    proof (cases "mergeValue existing incoming (dotted at key)")
      case (Inl er)
      then show ?thesis using Cons.prems e Some by auto
    next
      case (Inr merged)
      then have "merge_entries (tput key merged dst) es at = (err, out)"
        using Cons.prems e Some by simp
      from Cons.IH [OF this] show ?thesis using e Some by (auto simp del: fun_upd_apply)
    qed
  qed
qed auto

lemma mergeFragment_dom:
  assumes "mergeFragment dst src at = (err, out)"
  shows "dom (map_of dst) \<subseteq> dom (map_of out)" "dom (map_of out) \<subseteq> dom (map_of dst) \<union> dom (map_of src)"
    "err = None \<Longrightarrow> dom (map_of out) = dom (map_of dst) \<union> dom (map_of src)"
proof -
  have "fst ` set (sorted_entries src) = dom (map_of src)"
    by (force simp: sorted_entries_def)
  then show "dom (map_of dst) \<subseteq> dom (map_of out)" "dom (map_of out) \<subseteq> dom (map_of dst) \<union> dom (map_of src)"
    "err = None \<Longrightarrow> dom (map_of out) = dom (map_of dst) \<union> dom (map_of src)"
    using merge_entries_dom [of dst "sorted_entries src" at err out] assms
    by (auto simp: mergeFragment_def)
qed

end
