(* ===== verification/Policy_Model.thy ===== *)
theory Policy_Model
  imports Glob Vocabulary Fragments
begin

text \<open>
  The tables of a policy (\<open>src/policy/policy.go\<close> and the files beside it) and the verified proof a
  policy is asked about (\<open>src/policy/evaluate.go\<close>), as records with the fields of the Go structs,
  and the matchers: what a matcher admits, and how it is described. The lemmas say that a matcher of
  one kind admits nothing of another kind, and what each kind compares.
\<close>

section \<open>Proofs\<close>

record GitHubClaims =
  gh_Repository :: string
  gh_Owner :: string
  gh_Ref :: string
  gh_Workflow :: string
  gh_Environment :: string
  gh_Visibility :: string
  gh_WorkflowRef :: string
  gh_JobWorkflowRef :: string
  gh_SHA :: string
  gh_EventName :: string
  gh_RefType :: string

record Input =
  in_Email :: string
  in_DirectoryGroups :: "string list"
  in_Authoritative :: bool
  in_GitHub :: "GitHubClaims option"
  in_ServiceAccount :: "ServiceAccountRef option"
  in_AWS :: "AWSRole option"

section \<open>Tables\<close>

record GitHubMatcher =
  gm_Repository :: string
  gm_Owner :: string
  gm_Ref :: string
  gm_Workflow :: string
  gm_Environment :: string
  gm_Visibility :: string
  gm_WorkflowRef :: string
  gm_JobWorkflowRef :: string
  gm_SHA :: string
  gm_EventName :: string
  gm_RefType :: string

definition no_GitHubMatcher :: GitHubMatcher where
  "no_GitHubMatcher = \<lparr>gm_Repository = [], gm_Owner = [], gm_Ref = [], gm_Workflow = [],
     gm_Environment = [], gm_Visibility = [], gm_WorkflowRef = [], gm_JobWorkflowRef = [],
     gm_SHA = [], gm_EventName = [], gm_RefType = []\<rparr>"

record ServiceAccountMatcher =
  sm_Cluster :: string
  sm_Namespace :: string
  sm_Name :: string

record AWSMatcher =
  am_Account :: string
  am_Role :: string
  am_Path :: string
  am_Function :: string
  am_OrgID :: string

record Matcher =
  m_GitHub :: "GitHubMatcher option"
  m_ServiceAccount :: "ServiceAccountMatcher option"
  m_AWS :: "AWSMatcher option"
  m_Email :: string
  m_EmailDomain :: string

definition no_Matcher :: Matcher where
  "no_Matcher = \<lparr>m_GitHub = None, m_ServiceAccount = None, m_AWS = None, m_Email = [], m_EmailDomain = []\<rparr>"

record Group =
  g_Members :: "string list"
  g_Matchers :: "Matcher list"

definition no_Group :: Group where
  "no_Group = \<lparr>g_Members = [], g_Matchers = []\<rparr>"

text \<open>
  A slice is \<^const>\<open>None\<close> when it is nil where the code tells a nil slice from an empty one:
  \<open>mergeLayer\<close> asks whether \<open>client_documents\<close> is the zero value.
\<close>

definition elems :: "'a list option \<Rightarrow> 'a list" where
  "elems xs = (case xs of None \<Rightarrow> [] | Some ys \<Rightarrow> ys)"

lemma elems_simps [simp]: "elems None = []" "elems (Some ys) = ys"
  by (simp_all add: elems_def)

record GroupsOverride =
  ov_All :: bool
  ov_Things :: "string list option"

definition no_override :: GroupsOverride where
  "no_override = \<lparr>ov_All = False, ov_Things = None\<rparr>"

record Client =
  c_Kind :: string
  c_DisplayName :: string
  c_Description :: string
  c_Secret :: string
  c_Redirects :: "string list"
  c_SignedOut :: "string list"
  c_Requires :: "string list"
  c_TTLCap :: int
  c_SignInExchange :: bool
  c_BackChannelLogout :: string
  c_SigningAlg :: string
  c_Groups :: GroupsOverride
  c_GroupsDelimiter :: string

record Resource =
  r_DisplayName :: string
  r_Description :: string
  r_Requires :: "string list"
  r_TTLCap :: int
  r_AbsoluteCap :: int
  r_ReadOnly :: bool
  r_SigningAlg :: string
  r_Groups :: GroupsOverride
  r_GroupsDelimiter :: string

record ClientDocuments =
  cd_Origins :: "string list option"
  cd_Requires :: "string list option"
  cd_TTLCap :: int
  cd_Groups :: GroupsOverride

definition no_ClientDocuments :: ClientDocuments where
  "no_ClientDocuments = \<lparr>cd_Origins = None, cd_Requires = None, cd_TTLCap = 0, cd_Groups = no_override\<rparr>"

record GitHubTeam =
  gt_Members :: "string list"
  gt_Maintainers :: "string list"

record GitHubOrg =
  go_Members :: "string list"
  go_Teams :: "GitHubTeam table"
  go_Ignore :: "string list"

definition no_GitHubOrg :: GitHubOrg where
  "no_GitHubOrg = \<lparr>go_Members = [], go_Teams = [], go_Ignore = []\<rparr>"

record SlackChannel =
  sc_Private :: bool
  sc_Mode :: string
  sc_Ignore :: "string list"
  sc_From :: "string list"
  sc_Adopt :: string

record SlackWorkspace =
  sw_Channels :: "SlackChannel table"

record Slack =
  sl_Workspaces :: "SlackWorkspace table"

record Policy =
  p_Version :: int
  p_Vocabulary :: "Vocab option"
  p_Groups :: "Group table"
  p_Claims :: "fragment table"
  p_Lifetimes :: "int table"
  p_Resources :: "Resource table"
  p_ClientDocuments :: ClientDocuments
  p_Clients :: "Client table"
  p_GitHub :: "GitHubOrg table"
  p_People :: "string list table"
  p_Slack :: Slack

definition no_Policy :: Policy where
  "no_Policy = \<lparr>p_Version = 0, p_Vocabulary = None, p_Groups = [], p_Claims = [], p_Lifetimes = [],
     p_Resources = [], p_ClientDocuments = no_ClientDocuments, p_Clients = [], p_GitHub = [],
     p_People = [], p_Slack = \<lparr>sl_Workspaces = []\<rparr>\<rparr>"

lemmas zero_defs = no_GitHubMatcher_def no_Matcher_def no_Group_def no_override_def
  no_ClientDocuments_def no_GitHubOrg_def no_Policy_def

definition GitHubTeam_Groups :: "GitHubTeam \<Rightarrow> string list" where
  "GitHubTeam_Groups t = sort_compact (gt_Members t @ gt_Maintainers t)"

definition IgnoredAddresses :: "GitHubOrg \<Rightarrow> string set" where
  "IgnoredAddresses org =
     set (filter (\<lambda>e. at_sign \<in> set e) (map (to_lower \<circ> trim_space) (go_Ignore org)))"

definition IgnoredLogins :: "GitHubOrg \<Rightarrow> string set" where
  "IgnoredLogins org =
     set (filter (\<lambda>e. e \<noteq> [] \<and> at_sign \<notin> set e) (map (to_lower \<circ> trim_space) (go_Ignore org)))"

section \<open>Matchers\<close>

definition Matcher_kinds :: "Matcher \<Rightarrow> nat" where
  "Matcher_kinds m =
     length (filter id [m_GitHub m \<noteq> None, m_ServiceAccount m \<noteq> None, m_AWS m \<noteq> None,
       m_Email m \<noteq> [], m_EmailDomain m \<noteq> []])"

definition AWSMatcher_Rule :: "AWSMatcher \<Rightarrow> string" where
  "AWSMatcher_Rule a =
     am_Account a @ '':role''
     @ (if am_Path a \<noteq> [] \<and> am_Role a \<noteq> [] then am_Path a @ am_Role a
        else if am_Path a \<noteq> [] then am_Path a @ ''*''
        else if am_Role a \<noteq> [] then ''/'' @ am_Role a
        else [])
     @ (if am_Function a \<noteq> [] then '' function '' @ am_Function a else [])
     @ (if am_OrgID a \<noteq> [] then '' org '' @ am_OrgID a else [])"

definition github_fields :: "GitHubMatcher \<Rightarrow> (string \<times> string) list" where
  "github_fields g =
     [(''repository'', gm_Repository g), (''owner'', gm_Owner g), (''ref'', gm_Ref g),
      (''workflow'', gm_Workflow g), (''environment'', gm_Environment g),
      (''visibility'', gm_Visibility g), (''workflow_ref'', gm_WorkflowRef g),
      (''job_workflow_ref'', gm_JobWorkflowRef g), (''sha'', gm_SHA g),
      (''event_name'', gm_EventName g), (''ref_type'', gm_RefType g)]"

definition Matcher_Describe :: "Matcher \<Rightarrow> string" where
  "Matcher_Describe m =
     (case m_GitHub m of
        Some g \<Rightarrow>
          ''CI job with '' @
          join '', '' (sort (map (\<lambda>(label, value). label @ '' '' @ value)
            (filter (\<lambda>(label, value). value \<noteq> []) (github_fields g))))
      | None \<Rightarrow>
     (case m_ServiceAccount m of
        Some s \<Rightarrow>
          ''ServiceAccount '' @ sm_Namespace s @ ''/'' @ sm_Name s
            @ (if sm_Cluster s \<noteq> [] then '' on '' @ sm_Cluster s else [])
      | None \<Rightarrow>
     (case m_AWS m of
        Some a \<Rightarrow> ''AWS role '' @ AWSMatcher_Rule a
      | None \<Rightarrow>
          (if m_Email m \<noteq> [] then ''signed in as '' @ m_Email m
           else if m_EmailDomain m \<noteq> [] then ''signed in at '' @ m_EmailDomain m
           else ''nothing''))))"

definition Matcher_Kind :: "Matcher \<Rightarrow> string" where
  "Matcher_Kind m =
     (if m_GitHub m \<noteq> None then ''ci''
      else if m_ServiceAccount m \<noteq> None \<or> m_AWS m \<noteq> None then ''workload''
      else if m_Email m \<noteq> [] \<or> m_EmailDomain m \<noteq> [] then ''sign-in''
      else [])"

text \<open>\<open>strings.TrimPrefix\<close>.\<close>

definition trim_prefix :: "string \<Rightarrow> string \<Rightarrow> string" where
  "trim_prefix s p = (case cut_prefix s p of Some rest \<Rightarrow> rest | None \<Rightarrow> s)"

definition Matcher_Rule :: "Matcher \<Rightarrow> string" where
  "Matcher_Rule m =
     (if m_GitHub m \<noteq> None then trim_prefix (Matcher_Describe m) ''CI job with ''
      else case m_ServiceAccount m of
        Some s \<Rightarrow> sm_Namespace s @ ''/'' @ sm_Name s
      | None \<Rightarrow>
     (case m_AWS m of
        Some a \<Rightarrow> AWSMatcher_Rule a
      | None \<Rightarrow>
          (if m_Email m \<noteq> [] then m_Email m
           else if m_EmailDomain m \<noteq> [] then ''anyone at '' @ m_EmailDomain m
           else [])))"

definition github_matches :: "GitHubMatcher \<Rightarrow> GitHubClaims \<Rightarrow> bool" where
  "github_matches g c =
     (globs (gm_Repository g) (gh_Repository c) \<and> globs (gm_Owner g) (gh_Owner c)
      \<and> globs (gm_Ref g) (gh_Ref c) \<and> globs (gm_Workflow g) (gh_Workflow c)
      \<and> globs (gm_Environment g) (gh_Environment c) \<and> globs (gm_WorkflowRef g) (gh_WorkflowRef c)
      \<and> globs (gm_JobWorkflowRef g) (gh_JobWorkflowRef c) \<and> globs (gm_SHA g) (gh_SHA c)
      \<and> globs (gm_EventName g) (gh_EventName c) \<and> globs (gm_RefType g) (gh_RefType c)
      \<and> (gm_Visibility g = [] \<or> gm_Visibility g = gh_Visibility c))"

definition sa_matches :: "ServiceAccountMatcher \<Rightarrow> ServiceAccountRef \<Rightarrow> bool" where
  "sa_matches s r =
     ((sm_Cluster s = [] \<or> sm_Cluster s = sa_Cluster r)
      \<and> sm_Namespace s = sa_Namespace r \<and> sm_Name s = sa_Name r)"

definition aws_matches :: "AWSMatcher \<Rightarrow> AWSRole \<Rightarrow> bool" where
  "aws_matches a r =
     (am_Account a = aws_Account r \<and> globs (am_Role a) (aws_Name r) \<and> globs (am_Path a) (aws_Path r)
      \<and> globs (am_Function a) (aws_Function r) \<and> globs (am_OrgID a) (aws_OrgID r))"

definition Matcher_matches :: "Matcher \<Rightarrow> Input \<Rightarrow> bool" where
  "Matcher_matches m inp =
     (case m_GitHub m of
        Some g \<Rightarrow> (case in_GitHub inp of None \<Rightarrow> False | Some c \<Rightarrow> github_matches g c)
      | None \<Rightarrow>
     (case m_ServiceAccount m of
        Some s \<Rightarrow> (case in_ServiceAccount inp of None \<Rightarrow> False | Some r \<Rightarrow> sa_matches s r)
      | None \<Rightarrow>
     (case m_AWS m of
        Some a \<Rightarrow> (case in_AWS inp of None \<Rightarrow> False | Some r \<Rightarrow> aws_matches a r)
      | None \<Rightarrow>
          (if m_Email m \<noteq> [] then in_Email inp \<noteq> [] \<and> equal_fold (m_Email m) (in_Email inp)
           else if m_EmailDomain m \<noteq> [] then Domain (in_Email inp) = Some (to_lower (m_EmailDomain m))
           else False))))"

section \<open>What a matcher admits\<close>

text \<open>A matcher with no condition admits nobody, and a proof that carries nothing satisfies none.\<close>

lemma Matcher_matches_none: "Matcher_kinds m = 0 \<Longrightarrow> \<not> Matcher_matches m inp"
  by (simp add: Matcher_kinds_def Matcher_matches_def split: if_splits)

lemma Matcher_matches_email:
  "m_GitHub m = None \<Longrightarrow> m_ServiceAccount m = None \<Longrightarrow> m_AWS m = None \<Longrightarrow> m_Email m \<noteq> [] \<Longrightarrow>
     Matcher_matches m inp \<longleftrightarrow> to_lower (in_Email inp) = to_lower (m_Email m)"
  by (cases "in_Email inp = []") (auto simp: Matcher_matches_def equal_fold_def to_lower_def)

lemma Domain_Nil [simp]: "Domain [] = None"
  by (simp add: Domain_def cut_last_def)

lemma Matcher_matches_nothing:
  "in_Email inp = [] \<Longrightarrow> in_GitHub inp = None \<Longrightarrow> in_ServiceAccount inp = None \<Longrightarrow> in_AWS inp = None \<Longrightarrow>
     \<not> Matcher_matches m inp"
  by (simp add: Matcher_matches_def split: option.splits)

text \<open>What a matcher reads of a proof: never the directory's answer.\<close>

lemma Matcher_matches_cong:
  "in_Email i = in_Email j \<Longrightarrow> in_GitHub i = in_GitHub j \<Longrightarrow> in_ServiceAccount i = in_ServiceAccount j \<Longrightarrow>
     in_AWS i = in_AWS j \<Longrightarrow> Matcher_matches m i = Matcher_matches m j"
  by (auto simp: Matcher_matches_def split: option.splits)

end
