(* ===== verification/Evaluate.thy ===== *)
theory Evaluate
  imports Policy_Model
begin

text \<open>
  \<open>src/policy/evaluate.go\<close>: what a policy grants a verified proof. The groups table gives the grants
  held directly, the breadth-first walk over the \<open>implies\<close> graph those held by inheritance, and the
  held groups give the claims and the lifetime. The lemmas characterise the groups exactly, as the
  closure of the direct grants under the one-step relation \<open>implied_rel\<close>, and give every held group
  a reason, every claim its source and the lifetime its bound.
\<close>

section \<open>Results\<close>

record Held =
  h_Group :: string
  h_Via :: "string list"
  h_Key :: string
  h_Implies :: string

record Result =
  res_Groups :: "string list"
  res_Held :: "Held list"
  res_Claims :: fragment
  res_Lifetime :: int

definition Result_Has :: "Result \<Rightarrow> string \<Rightarrow> bool" where
  "Result_Has r name = (name \<in> set (res_Groups r))"

definition LifetimeDefault :: string where "LifetimeDefault = ''default''"

section \<open>Direct grants\<close>

definition Policy_group :: "Policy \<Rightarrow> string \<Rightarrow> Group" where
  "Policy_group p name = tget no_Group (p_Groups p) name"

definition effectiveMembers :: "Policy \<Rightarrow> string \<Rightarrow> string list" where
  "effectiveMembers p name = g_Members (Policy_group p name)"

text \<open>What puts a proof in the group of one key: the directory groups, then the matchers.\<close>

definition via_of :: "Policy \<Rightarrow> Input \<Rightarrow> string \<Rightarrow> string list" where
  "via_of p inp name =
     (let confirmed = map to_lower (in_DirectoryGroups inp)
      in (if in_Authoritative inp
          then filter (\<lambda>address. to_lower address \<in> set confirmed) (effectiveMembers p name) else [])
         @ map Matcher_Describe (filter (\<lambda>m. Matcher_matches m inp) (g_Matchers (Policy_group p name))))"

type_synonym held_table = "Held list table"

definition add_held :: "Held \<Rightarrow> held_table \<Rightarrow> held_table" where
  "add_held h held = tput (h_Group h) (tget [] held (h_Group h) @ [h]) held"

definition seed_target :: "string \<Rightarrow> string list \<Rightarrow> string \<Rightarrow> held_table \<times> string list \<Rightarrow> held_table \<times> string list" where
  "seed_target name via concrete st =
     (case st of (held, frontier) \<Rightarrow>
        (add_held \<lparr>h_Group = concrete, h_Via = via, h_Key = name, h_Implies = []\<rparr> held,
         if has_key held concrete then frontier else frontier @ [concrete]))"

definition seed_key :: "Policy \<Rightarrow> Input \<Rightarrow> string \<Rightarrow> held_table \<times> string list \<Rightarrow> held_table \<times> string list" where
  "seed_key p inp name st =
     (let via = via_of p inp name
      in if via = [] then st
         else fold (seed_target name via) (groupKeyTargets (p_Vocabulary p) name) st)"

definition seed :: "Policy \<Rightarrow> Input \<Rightarrow> held_table \<times> string list" where
  "seed p inp = fold (seed_key p inp) (tkeys (p_Groups p)) ([], [])"

section \<open>Inheritance\<close>

text \<open>The grants one hop below a grant: every role its role implies, on the same scope and thing.\<close>

definition implied_of :: "Vocab \<Rightarrow> string \<Rightarrow> string list" where
  "implied_of v g =
     (case SplitGroup g of
        None \<Rightarrow> []
      | Some (scope, thing, role) \<Rightarrow>
          (case map_of (Things v) thing of
             None \<Rightarrow> []
           | Some spec \<Rightarrow> map (grant_name scope thing) (role_implies (Roles spec) role)))"

type_synonym walk = "string list \<times> string list \<times> held_table"

text \<open>One implied grant: its reason is recorded, and it is queued unless it was reached before.\<close>

definition imply :: "string \<Rightarrow> string \<Rightarrow> walk \<Rightarrow> walk" where
  "imply g implied w =
     (case w of (queue, reached, held) \<Rightarrow>
        let held' = add_held \<lparr>h_Group = implied, h_Via = [], h_Key = [], h_Implies = g\<rparr> held
        in if implied \<in> set reached then (queue, reached, held')
           else (queue @ [implied], implied # reached, held'))"

text \<open>The grants that can ever be queued from the grants of a queue.\<close>

definition below :: "Vocab \<Rightarrow> string set \<Rightarrow> string set" where
  "below v gs =
     (\<Union>g\<in>gs. case SplitGroup g of None \<Rightarrow> {}
        | Some (scope, thing, role) \<Rightarrow>
            (case map_of (Things v) thing of None \<Rightarrow> {}
             | Some spec \<Rightarrow>
                 grant_name scope thing ` (\<Union>rs\<in>snd ` set (Roles spec). set (Implies rs))))"

lemma finite_below: "finite gs \<Longrightarrow> finite (below v gs)"
  by (auto simp: below_def split: option.splits)

lemma implied_of_iff:
  "h \<in> set (implied_of v g) \<longleftrightarrow>
     (\<exists>scope thing role spec rs i. SplitGroup g = Some (scope, thing, role)
        \<and> map_of (Things v) thing = Some spec \<and> map_of (Roles spec) role = Some rs
        \<and> i \<in> set (Implies rs) \<and> h = grant_name scope thing i)"
  by (auto simp: implied_of_def role_implies_def image_iff split: option.splits) metis

lemma implied_of_below: "set (implied_of v g) \<subseteq> below v {g}"
proof
  fix h assume "h \<in> set (implied_of v g)"
  then obtain scope thing role spec rs i where "SplitGroup g = Some (scope, thing, role)"
    "map_of (Things v) thing = Some spec" "map_of (Roles spec) role = Some rs"
    "i \<in> set (Implies rs)" "h = grant_name scope thing i"
    unfolding implied_of_iff by blast
  then show "h \<in> below v {g}" by (force simp: below_def dest: map_of_SomeD)
qed

lemma below_Un: "below v (a \<union> b) = below v a \<union> below v b"
  by (auto simp: below_def)

lemma below_mono: "a \<subseteq> b \<Longrightarrow> below v a \<subseteq> below v b"
  by (auto simp: below_def)

text \<open>An implied grant has the scope and the thing of its source, so it opens nothing new below.\<close>

lemma below_implied: "h \<in> set (implied_of v g) \<Longrightarrow> below v {h} \<subseteq> below v {g}"
proof -
  assume "h \<in> set (implied_of v g)"
  then obtain scope thing role spec i where g: "SplitGroup g = Some (scope, thing, role)"
    and spec: "map_of (Things v) thing = Some spec" and h: "h = grant_name scope thing i"
    unfolding implied_of_iff by blast
  show ?thesis
  proof (cases "SplitGroup h")
    case (Some str)
    then obtain s t r where "SplitGroup h = Some (s, t, r)" by (metis prod_cases3)
    then have "s = scope" "t = thing" using h g SplitGroup_grant_name by (metis SplitGroup_Some_iff)+
    then show ?thesis using \<open>SplitGroup h = Some (s, t, r)\<close> g spec by (simp add: below_def)
  qed (simp add: below_def)
qed

definition unreached :: "Vocab \<Rightarrow> walk \<Rightarrow> string set" where
  "unreached v w = (case w of (queue, reached, held) \<Rightarrow> below v (set queue) - set reached)"

lemma imply_fold:
  assumes "fold (imply g) hs (queue, reached, held) = (queue', reached', held')"
  shows "set reached' = set reached \<union> set hs \<and> set queue' = set queue \<union> (set hs - set reached)
    \<and> (queue' = queue \<or> (\<exists>h\<in>set hs. h \<notin> set reached))
    \<and> dom (map_of held') = dom (map_of held) \<union> set hs"
  using assms
proof (induction hs arbitrary: queue reached held)
  case (Cons h hs)
  define held1 where "held1 = add_held \<lparr>h_Group = h, h_Via = [], h_Key = [], h_Implies = g\<rparr> held"
  have dom: "dom (map_of held1) = insert h (dom (map_of held))"
    by (simp add: held1_def add_held_def)
  show ?case
  proof (cases "h \<in> set reached")
    case True
    then have "fold (imply g) hs (queue, reached, held1) = (queue', reached', held')"
      using Cons.prems by (simp add: imply_def [of g h] held1_def)
    from Cons.IH [OF this] show ?thesis using True dom by auto
  next
    case False
    then have "fold (imply g) hs (queue @ [h], h # reached, held1) = (queue', reached', held')"
      using Cons.prems by (simp add: imply_def [of g h] held1_def)
    from Cons.IH [OF this] show ?thesis using False dom by auto
  qed
qed simp

lemma unreached_decreases:
  assumes "fold (imply g) (implied_of v g) (queue, reached, held) = (queue', reached', held')"
  shows "unreached v (queue', reached', held') \<subset> unreached v (g # queue, reached, held)
    \<or> (queue' = queue \<and> unreached v (queue', reached', held') \<subseteq> unreached v (g # queue, reached, held))"
proof -
  note f = imply_fold [OF assms]
  have "below v (set (implied_of v g)) \<subseteq> below v {g}"
    using below_implied [of _ v g] by (auto simp: below_def)
  then have "below v (set queue') \<subseteq> below v (set queue) \<union> below v {g}"
    using f below_mono [of "set (implied_of v g) - set reached" "set (implied_of v g)" v]
    by (auto simp: below_Un)
  then have sub: "unreached v (queue', reached', held') \<subseteq> unreached v (g # queue, reached, held)"
    using f below_Un [of v "{g}" "set queue"] by (auto simp: unreached_def)
  show ?thesis
  proof (cases "queue' = queue")
    case False
    then obtain h where h: "h \<in> set (implied_of v g)" "h \<notin> set reached" using f by blast
    then have "h \<in> unreached v (g # queue, reached, held)"
      using implied_of_below [of v g] below_mono [of "{g}" "set (g # queue)" v] by (auto simp: unreached_def)
    moreover have "h \<notin> unreached v (queue', reached', held')" using f h by (simp add: unreached_def)
    ultimately show ?thesis using sub by blast
  qed (use sub in simp)
qed

text \<open>
  The walk. It ends because a grant is queued at most once and what can be queued is finite: the
  grants below the queue that were not reached yet become fewer, or the queue becomes shorter.
\<close>

function inherit :: "Vocab \<Rightarrow> walk \<Rightarrow> held_table" where
  "inherit v ([], reached, held) = held"
| "inherit v (g # queue, reached, held) =
     inherit v (fold (imply g) (implied_of v g) (queue, reached, held))"
  by pat_completeness auto
termination
proof (relation "measures [\<lambda>(v, w). card (unreached v w), \<lambda>(v, w). length (fst w)]", goal_cases)
  case (2 v g queue reached held)
  obtain queue' reached' held' where
    w: "fold (imply g) (implied_of v g) (queue, reached, held) = (queue', reached', held')"
    by (metis prod_cases3)
  have fin: "finite (unreached v (g # queue, reached, held))"
    by (auto simp: unreached_def intro!: finite_below)
  from unreached_decreases [OF w] show ?case
  proof
    assume "unreached v (queue', reached', held') \<subset> unreached v (g # queue, reached, held)"
    from psubset_card_mono [OF fin this] show ?thesis by (simp add: w)
  next
    assume q: "queue' = queue \<and> unreached v (queue', reached', held') \<subseteq> unreached v (g # queue, reached, held)"
    from card_mono [OF fin conjunct2 [OF q]] show ?thesis using q by (auto simp: w le_less)
  qed
qed simp

section \<open>Evaluation\<close>

definition held_by :: "Policy \<Rightarrow> Input \<Rightarrow> held_table" where
  "held_by p inp =
     (case seed p inp of (held, frontier) \<Rightarrow>
        (case p_Vocabulary p of None \<Rightarrow> held | Some v \<Rightarrow> inherit v (frontier, frontier, held)))"

text \<open>A fragment that does not merge leaves what it had merged before it stopped.\<close>

definition merge_named :: "Policy \<Rightarrow> string \<Rightarrow> fragment \<Rightarrow> fragment" where
  "merge_named p name claims =
     (case map_of (p_Claims p) name of None \<Rightarrow> claims | Some frag \<Rightarrow> snd (mergeFragment claims frag []))"

definition merged_claims :: "Policy \<Rightarrow> string list \<Rightarrow> fragment" where
  "merged_claims p names = fold (merge_named p) names []"

definition add_groups :: "string list \<Rightarrow> fragment \<Rightarrow> fragment" where
  "add_groups names claims =
     (if names = [] then claims
      else tput ''groups''
        (case map_of claims ''groups'' of
           Some (VList existing) \<Rightarrow> VList (union existing (map VStr names))
         | _ \<Rightarrow> VList (map VStr names)) claims)"

definition shorter :: "int table \<Rightarrow> string \<Rightarrow> int \<Rightarrow> int" where
  "shorter lifetimes name shortest =
     (case map_of lifetimes name of None \<Rightarrow> shortest
      | Some d \<Rightarrow> (if shortest = 0 \<or> d < shortest then d else shortest))"

definition lifetimeOf :: "Policy \<Rightarrow> string list \<Rightarrow> int" where
  "lifetimeOf p names =
     (let shortest = fold (shorter (p_Lifetimes p)) names 0
      in if shortest = 0 then tget 0 (p_Lifetimes p) LifetimeDefault else shortest)"

definition Evaluate :: "Policy \<Rightarrow> Input \<Rightarrow> Result" where
  "Evaluate p inp =
     (let held = held_by p inp; names = tkeys held
      in \<lparr>res_Groups = names,
          res_Held = concat (map (tget [] held) names),
          res_Claims = add_groups names (merged_claims p names),
          res_Lifetime = lifetimeOf p names\<rparr>)"

section \<open>Clients\<close>

definition Client_Title :: "Client \<Rightarrow> string \<Rightarrow> string" where
  "Client_Title c ident =
     (let name = trim_space (c_DisplayName c)
      in if name \<noteq> [] then name
         else case cut_prefix ident ''k8s:'' of
           Some (x # cluster) \<Rightarrow> ''Kubernetes '' @ [CHR 0xE2, CHR 0x80, CHR 0x94] @ '' '' @ x # cluster
         | _ \<Rightarrow> ident)"

definition Client_Cap :: "Client \<Rightarrow> int \<Rightarrow> int" where
  "Client_Cap c lifetime =
     (if c_TTLCap c > 0 \<and> (lifetime = 0 \<or> c_TTLCap c < lifetime) then c_TTLCap c else lifetime)"

definition Client_Admits :: "Client \<Rightarrow> Result \<Rightarrow> bool" where
  "Client_Admits c r = list_ex (Result_Has r) (c_Requires c)"

section \<open>Which groups are held\<close>

text \<open>The keys of the groups table a proof is in, and the grants they stand for.\<close>

definition matched_keys :: "Policy \<Rightarrow> Input \<Rightarrow> string set" where
  "matched_keys p inp = {name. has_key (p_Groups p) name \<and> via_of p inp name \<noteq> []}"

definition direct_grants :: "Policy \<Rightarrow> Input \<Rightarrow> string set" where
  "direct_grants p inp = (\<Union>name\<in>matched_keys p inp. set (groupKeyTargets (p_Vocabulary p) name))"

definition implied_rel :: "Vocab \<Rightarrow> (string \<times> string) set" where
  "implied_rel v = {(g, h). h \<in> set (implied_of v g)}"

definition inherited_rel :: "Policy \<Rightarrow> (string \<times> string) set" where
  "inherited_rel p = (case p_Vocabulary p of None \<Rightarrow> {} | Some v \<Rightarrow> implied_rel v)"

definition seeded :: "held_table \<times> string list \<Rightarrow> bool" where
  "seeded st = (case st of (held, frontier) \<Rightarrow> set frontier = dom (map_of held))"

lemma dom_add_held [simp]: "dom (map_of (add_held h held)) = insert (h_Group h) (dom (map_of held))"
  by (simp add: add_held_def)

lemma seed_targets:
  assumes "fold (seed_target name via) cs (held, frontier) = (held', frontier')"
    and "set frontier = dom (map_of held)"
  shows "set frontier' = dom (map_of held') \<and> dom (map_of held') = dom (map_of held) \<union> set cs"
  using assms
proof (induction cs arbitrary: held frontier)
  case (Cons c cs)
  obtain h f where hf: "seed_target name via c (held, frontier) = (h, f)" by fastforce
  then have hh: "h = add_held \<lparr>h_Group = c, h_Via = via, h_Key = name, h_Implies = []\<rparr> held"
    and ff: "f = (if c \<in> dom (map_of held) then frontier else frontier @ [c])"
    by (simp_all add: seed_target_def del: domIff)
  then have "set f = dom (map_of h)" "dom (map_of h) = insert c (dom (map_of held))"
    using Cons.prems(2) by (simp_all add: insert_absorb del: domIff)
  then show ?case using Cons.IH [of h f] Cons.prems(1) hf by simp
qed simp

lemma seed_keys:
  assumes "fold (seed_key p inp) names (held, frontier) = (held', frontier')"
    and "set frontier = dom (map_of held)"
  shows "set frontier' = dom (map_of held') \<and> dom (map_of held') = dom (map_of held)
     \<union> (\<Union>n\<in>{n \<in> set names. via_of p inp n \<noteq> []}. set (groupKeyTargets (p_Vocabulary p) n))"
  using assms
proof (induction names arbitrary: held frontier)
  case (Cons n names)
  obtain h f where hf: "seed_key p inp n (held, frontier) = (h, f)" by fastforce
  then have "set f = dom (map_of h) \<and> dom (map_of h) = dom (map_of held)
     \<union> (if via_of p inp n = [] then {} else set (groupKeyTargets (p_Vocabulary p) n))"
    using Cons.prems(2) seed_targets [of n "via_of p inp n" _ held frontier h f]
    by (simp add: seed_key_def Let_def split: if_splits)
  then show ?case using Cons.IH [of h f] Cons.prems(1) hf by (auto simp del: domIff)
qed simp

lemma seed_dom:
  assumes "seed p inp = (held, frontier)"
  shows "set frontier = direct_grants p inp" "dom (map_of held) = direct_grants p inp"
  using seed_keys [of p inp "tkeys (p_Groups p)" "[]" "[]" held frontier] assms
  by (auto simp: seed_def direct_grants_def matched_keys_def)

lemma inherit_dom:
  "\<lbrakk>set (fst w) \<subseteq> set (fst (snd w)); dom (map_of (snd (snd w))) = set (fst (snd w));
    \<forall>g\<in>set (fst (snd w)) - set (fst w). set (implied_of v g) \<subseteq> set (fst (snd w))\<rbrakk> \<Longrightarrow>
     dom (map_of (inherit v w)) = (implied_rel v)\<^sup>* `` set (fst (snd w))"
proof (induction v w rule: inherit.induct)
  case (1 v reached held)
  then have "(implied_rel v)\<^sup>* `` set reached = set reached"
    by (intro Image_closed_trancl) (auto simp: implied_rel_def)
  then show ?case using 1 by simp
next
  case (2 v g queue reached held)
  obtain queue' reached' held' where
    w: "fold (imply g) (implied_of v g) (queue, reached, held) = (queue', reached', held')"
    by (metis prod_cases3)
  note f = imply_fold [OF w]
  have "(implied_rel v)\<^sup>* `` set reached' = (implied_rel v)\<^sup>* `` set reached"
    using f 2(2) by (auto simp: implied_rel_def intro: converse_rtrancl_into_rtrancl)
  moreover have "dom (map_of (inherit v (queue', reached', held'))) = (implied_rel v)\<^sup>* `` set reached'"
  proof (rule 2(1) [unfolded w fst_conv snd_conv])
    show "set queue' \<subseteq> set reached'" "dom (map_of held') = set reached'"
      using f 2(2,3) by auto
    show "\<forall>h\<in>set reached' - set queue'. set (implied_of v h) \<subseteq> set reached'"
      using f 2(4) by auto
  qed
  ultimately show ?case using w by simp
qed

text \<open>
  The groups a proof holds are exactly the direct grants and what they imply, however long the
  ladder.
\<close>

lemma held_by_dom: "dom (map_of (held_by p inp)) = (inherited_rel p)\<^sup>* `` direct_grants p inp"
proof -
  obtain held frontier where s: "seed p inp = (held, frontier)" by fastforce
  show ?thesis
  proof (cases "p_Vocabulary p")
    case None
    then show ?thesis using seed_dom [OF s] s by (simp add: held_by_def inherited_rel_def)
  next
    case (Some v)
    have "dom (map_of (inherit v (frontier, frontier, held))) = (implied_rel v)\<^sup>* `` set frontier"
      using inherit_dom [of "(frontier, frontier, held)" v] seed_dom [OF s] by simp
    then show ?thesis using Some s seed_dom [OF s] by (simp add: held_by_def inherited_rel_def)
  qed
qed

lemma Evaluate_Groups: "set (res_Groups (Evaluate p inp)) = (inherited_rel p)\<^sup>* `` direct_grants p inp"
  by (simp add: Evaluate_def Let_def held_by_dom)

lemma Evaluate_Groups_sorted: "sorted (res_Groups (Evaluate p inp))" "distinct (res_Groups (Evaluate p inp))"
  by (simp_all add: Evaluate_def Let_def)

lemma direct_subset_held: "direct_grants p inp \<subseteq> set (res_Groups (Evaluate p inp))"
  unfolding Evaluate_Groups by auto

lemma held_closed:
  assumes "g \<in> set (res_Groups (Evaluate p inp))" and "p_Vocabulary p = Some v" and "h \<in> set (implied_of v g)"
  shows "h \<in> set (res_Groups (Evaluate p inp))"
proof -
  have "(g, h) \<in> inherited_rel p" using assms(2,3) by (simp add: inherited_rel_def implied_rel_def)
  then show ?thesis using assms(1) unfolding Evaluate_Groups by (auto intro: rtrancl_into_rtrancl)
qed

text \<open>An implied grant keeps the scope and the thing of its source, along any number of hops.\<close>

lemma implied_of_same_thing:
  assumes "h \<in> set (implied_of v g)" and "SplitGroup h = Some (s, t, r)"
  shows "\<exists>r'. SplitGroup g = Some (s, t, r')"
proof -
  obtain scope thing role i where "SplitGroup g = Some (scope, thing, role)" "h = grant_name scope thing i"
    using assms(1) unfolding implied_of_iff by blast
  then show ?thesis using assms(2) SplitGroup_grant_name by blast
qed

lemma inherited_same_thing:
  assumes "(g, h) \<in> (inherited_rel p)\<^sup>*" and "SplitGroup h = Some (s, t, r)"
  shows "\<exists>r'. SplitGroup g = Some (s, t, r')"
  using assms
proof (induction arbitrary: r rule: rtrancl_induct)
  case (step y z)
  then obtain v where "z \<in> set (implied_of v y)"
    by (auto simp: inherited_rel_def implied_rel_def split: option.splits)
  then show ?case using implied_of_same_thing step.IH step.prems by blast
qed blast

lemma held_grant_source:
  assumes "g \<in> set (res_Groups (Evaluate p inp))" and "SplitGroup g = Some (s, t, r)"
  obtains d r' where "d \<in> direct_grants p inp" "SplitGroup d = Some (s, t, r')"
  using assms inherited_same_thing unfolding Evaluate_Groups by blast

text \<open>A grant in a sensitive scope comes from a key that names it: no wildcard reaches it.\<close>

lemma sensitive_needs_concrete_key:
  assumes "g \<in> set (res_Groups (Evaluate p inp))" and "SplitGroup g = Some (s, t, r)"
    and "p_Vocabulary p = Some v" and "scope_sensitive v s"
  obtains key r' where "key \<in> matched_keys p inp" "SplitGroup key = Some (s, t, r')" "\<not> wildcard_key key"
proof -
  obtain d r' where d: "d \<in> direct_grants p inp" "SplitGroup d = Some (s, t, r')"
    using held_grant_source assms(1,2) by blast
  then obtain key where key: "key \<in> matched_keys p inp" "d \<in> set (groupKeyTargets (Some v) key)"
    using assms(3) by (auto simp: direct_grants_def)
  have "\<not> wildcard_key key"
    using wildcard_never_sensitive [OF key(2) _ d(2)] assms(4) by blast
  moreover have "d = key" using groupKeyTargets_concrete [OF \<open>\<not> wildcard_key key\<close>] key(2) by blast
  ultimately show ?thesis using that key(1) d(2) by blast
qed

section \<open>What the directory's answer is worth\<close>

lemma via_of_unvouched:
  "\<not> in_Authoritative inp \<Longrightarrow>
     via_of p inp name = map Matcher_Describe (filter (\<lambda>m. Matcher_matches m inp) (g_Matchers (Policy_group p name)))"
  by (simp add: via_of_def)

definition same_proof :: "Input \<Rightarrow> Input \<Rightarrow> bool" where
  "same_proof i j =
     (in_Email i = in_Email j \<and> in_GitHub i = in_GitHub j \<and> in_ServiceAccount i = in_ServiceAccount j
      \<and> in_AWS i = in_AWS j)"

lemma same_proof_matches: "same_proof i j \<Longrightarrow> Matcher_matches m i = Matcher_matches m j"
  unfolding same_proof_def by (intro Matcher_matches_cong) simp_all

text \<open>The result depends on a proof only through what puts it in each key's group.\<close>

lemma seed_cong: "via_of p i = via_of p j \<Longrightarrow> seed p i = seed p j"
  unfolding seed_def seed_key_def [abs_def] by simp

lemma Evaluate_cong: "via_of p i = via_of p j \<Longrightarrow> Evaluate p i = Evaluate p j"
  unfolding Evaluate_def held_by_def by (drule seed_cong) simp

lemma Evaluate_unvouched:
  assumes "same_proof i j" and "\<not> in_Authoritative i" and "\<not> in_Authoritative j"
  shows "Evaluate p i = Evaluate p j"
  using assms by (intro Evaluate_cong ext) (simp add: via_of_unvouched same_proof_matches)

lemma matched_keys_mono:
  assumes "same_proof i j" and "in_Authoritative i \<longrightarrow> in_Authoritative j"
    and "set (in_DirectoryGroups i) \<subseteq> set (in_DirectoryGroups j)"
  shows "matched_keys p i \<subseteq> matched_keys p j"
  using assms by (auto simp: matched_keys_def via_of_def Let_def filter_empty_conv same_proof_matches)

lemma Evaluate_mono:
  assumes "matched_keys p i \<subseteq> matched_keys p j"
  shows "set (res_Groups (Evaluate p i)) \<subseteq> set (res_Groups (Evaluate p j))"
  using assms unfolding Evaluate_Groups direct_grants_def by blast

section \<open>Every reason is recorded\<close>

definition entries :: "held_table \<Rightarrow> Held set" where
  "entries held = (\<Union>g. set (tget [] held g))"

definition direct_reasons :: "Policy \<Rightarrow> Input \<Rightarrow> string \<Rightarrow> Held set" where
  "direct_reasons p inp name =
     (\<lambda>g. \<lparr>h_Group = g, h_Via = via_of p inp name, h_Key = name, h_Implies = []\<rparr>)
       ` set (groupKeyTargets (p_Vocabulary p) name)"

definition implied_reasons :: "Vocab \<Rightarrow> string \<Rightarrow> Held set" where
  "implied_reasons v g =
     (\<lambda>h. \<lparr>h_Group = h, h_Via = [], h_Key = [], h_Implies = g\<rparr>) ` set (implied_of v g)"

lemma entries_Nil [simp]: "entries [] = {}"
  by (simp add: entries_def tget_def)

lemma tget_add_held:
  "tget [] (add_held h held) g = tget [] held g @ (if g = h_Group h then [h] else [])"
  by (simp add: add_held_def tget_def)

lemma entries_add_held [simp]: "entries (add_held h held) = insert h (entries held)"
  by (auto simp: entries_def tget_add_held)

lemma entries_seed_targets:
  "entries (fst (fold (seed_target name via) cs st)) =
     entries (fst st) \<union> (\<lambda>g. \<lparr>h_Group = g, h_Via = via, h_Key = name, h_Implies = []\<rparr>) ` set cs"
  by (induction cs arbitrary: st) (auto simp: seed_target_def split: prod.splits)

lemma entries_seed_keys:
  "entries (fst (fold (seed_key p inp) names st)) =
     entries (fst st) \<union> (\<Union>n\<in>{n \<in> set names. via_of p inp n \<noteq> []}. direct_reasons p inp n)"
  by (induction names arbitrary: st)
     (auto simp: seed_key_def Let_def entries_seed_targets direct_reasons_def)

lemma entries_seed: "entries (fst (seed p inp)) = (\<Union>n\<in>matched_keys p inp. direct_reasons p inp n)"
  by (auto simp: seed_def entries_seed_keys matched_keys_def)

lemma entries_imply:
  "entries (snd (snd (fold (imply g) hs w))) = entries (snd (snd w))
     \<union> (\<lambda>h. \<lparr>h_Group = h, h_Via = [], h_Key = [], h_Implies = g\<rparr>) ` set hs"
  by (induction hs arbitrary: w) (auto simp: imply_def Let_def split: prod.splits)

lemma entries_inherit:
  "\<lbrakk>set (fst w) \<subseteq> set (fst (snd w)); dom (map_of (snd (snd w))) = set (fst (snd w));
    D \<subseteq> entries (snd (snd w)); entries (snd (snd w)) \<subseteq> D \<union> (\<Union>g\<in>set (fst (snd w)). implied_reasons v g);
    \<forall>g\<in>set (fst (snd w)) - set (fst w). implied_reasons v g \<subseteq> entries (snd (snd w))\<rbrakk> \<Longrightarrow>
     entries (inherit v w) = D \<union> (\<Union>g\<in>dom (map_of (inherit v w)). implied_reasons v g)"
proof (induction v w rule: inherit.induct)
  case (1 v reached held)
  then show ?case by auto
next
  case (2 v g queue reached held)
  obtain queue' reached' held' where
    w: "fold (imply g) (implied_of v g) (queue, reached, held) = (queue', reached', held')"
    by (metis prod_cases3)
  note f = imply_fold [OF w]
  have e: "entries held' = entries held \<union> implied_reasons v g"
    using entries_imply [of g "implied_of v g" "(queue, reached, held)"] by (simp add: w implied_reasons_def)
  have "entries (inherit v (queue', reached', held'))
      = D \<union> (\<Union>g\<in>dom (map_of (inherit v (queue', reached', held'))). implied_reasons v g)"
  proof (rule 2(1) [unfolded w fst_conv snd_conv])
    show "set queue' \<subseteq> set reached'" "dom (map_of held') = set reached'" "D \<subseteq> entries held'"
      using f 2(2,3,4) e by auto
    show "entries held' \<subseteq> D \<union> (\<Union>g\<in>set reached'. implied_reasons v g)"
      using f 2(2,5) e by auto
    show "\<forall>h\<in>set reached' - set queue'. implied_reasons v h \<subseteq> entries held'"
      using f 2(6) e by auto
  qed
  then show ?case using w by simp
qed

definition all_reasons :: "Policy \<Rightarrow> Input \<Rightarrow> Held set" where
  "all_reasons p inp =
     (\<Union>n\<in>matched_keys p inp. direct_reasons p inp n)
     \<union> (case p_Vocabulary p of None \<Rightarrow> {}
        | Some v \<Rightarrow> (\<Union>g\<in>set (res_Groups (Evaluate p inp)). implied_reasons v g))"

lemma entries_held_by: "entries (held_by p inp) = all_reasons p inp"
proof -
  obtain held frontier where s: "seed p inp = (held, frontier)" by fastforce
  note d = seed_dom [OF s] entries_seed [of p inp, unfolded s, simplified]
  show ?thesis
  proof (cases "p_Vocabulary p")
    case None
    then show ?thesis using d s by (simp add: held_by_def all_reasons_def)
  next
    case (Some v)
    have "entries (inherit v (frontier, frontier, held)) = (\<Union>n\<in>matched_keys p inp. direct_reasons p inp n)
        \<union> (\<Union>g\<in>dom (map_of (inherit v (frontier, frontier, held))). implied_reasons v g)"
      using d by (intro entries_inherit) auto
    then show ?thesis
      using Some s by (simp add: held_by_def all_reasons_def Evaluate_def Let_def)
  qed
qed

lemma set_res_Held: "set (res_Held (Evaluate p inp)) = all_reasons p inp"
proof -
  have "set (tget [] held g) \<subseteq> (\<Union>g\<in>dom (map_of held). set (tget [] held g))" for held :: held_table and g
    by (cases "g \<in> dom (map_of held)") (auto simp: tget_def)
  then have "entries held = (\<Union>g\<in>dom (map_of held). set (tget [] held g))" for held
    unfolding entries_def by blast
  then show ?thesis
    unfolding entries_held_by [symmetric] by (simp add: Evaluate_def Let_def)
qed

section \<open>Claims\<close>

definition fragment_keys :: "Policy \<Rightarrow> string set \<Rightarrow> string set" where
  "fragment_keys p names = {k. \<exists>n\<in>names. \<exists>frag. map_of (p_Claims p) n = Some frag \<and> has_key frag k}"

lemma merge_named_dom: "dom (map_of (merge_named p n c)) \<subseteq> dom (map_of c) \<union> fragment_keys p {n}"
proof (cases "map_of (p_Claims p) n")
  case (Some frag)
  obtain err out where m: "mergeFragment c frag [] = (err, out)" by fastforce
  have "dom (map_of frag) \<subseteq> fragment_keys p {n}" using Some by (auto simp: fragment_keys_def)
  then have "dom (map_of out) \<subseteq> dom (map_of c) \<union> fragment_keys p {n}"
    using mergeFragment_dom(2) [OF m] by blast
  then show ?thesis using Some m by (simp add: merge_named_def)
qed (simp add: merge_named_def)

lemma merged_claims_dom:
  "dom (map_of (fold (merge_named p) names c)) \<subseteq> dom (map_of c) \<union> fragment_keys p (set names)"
proof (induction names arbitrary: c)
  case (Cons n names)
  have "fragment_keys p (set (n # names)) = fragment_keys p {n} \<union> fragment_keys p (set names)"
    by (auto simp: fragment_keys_def)
  moreover have "dom (map_of (fold (merge_named p) (n # names) c))
      \<subseteq> dom (map_of (merge_named p n c)) \<union> fragment_keys p (set names)"
    using Cons.IH [of "merge_named p n c"] by simp
  ultimately show ?case using merge_named_dom [of p n c] by blast
qed simp

lemma add_groups_lookup:
  "k \<noteq> ''groups'' \<Longrightarrow> map_of (add_groups names claims) k = map_of claims k"
  by (simp add: add_groups_def)

lemma add_groups_all:
  assumes "names \<noteq> []"
  obtains vs where "map_of (add_groups names claims) ''groups'' = Some (VList vs)"
    "VStr ` set names \<subseteq> set vs"
proof (cases "\<exists>existing. map_of claims ''groups'' = Some (VList existing)")
  case True
  then obtain existing where e: "map_of claims ''groups'' = Some (VList existing)" by blast
  have "VStr ` set names \<subseteq> set (union existing (map VStr names))"
    using union_right_string [of _ names existing] by blast
  then show ?thesis using that e assms by (simp add: add_groups_def)
next
  case False
  then show ?thesis
    using that [of "map VStr names"] assms by (auto simp: add_groups_def split: option.splits claim.splits)
qed

section \<open>Lifetimes\<close>

text \<open>The declared lifetimes of some groups.\<close>

definition declared_lifetimes :: "Policy \<Rightarrow> string set \<Rightarrow> int set" where
  "declared_lifetimes p names = {d. \<exists>n\<in>names. map_of (p_Lifetimes p) n = Some d}"

lemma finite_declared_lifetimes: "finite ns \<Longrightarrow> finite (declared_lifetimes p ns)"
  by (rule finite_subset [of _ "the ` map_of (p_Lifetimes p) ` ns"]) (force simp: declared_lifetimes_def)+

lemma shorter_fold:
  assumes "\<forall>n d. map_of ls n = Some d \<longrightarrow> 0 < d" and "0 \<le> s"
  shows "fold (shorter ls) names s =
     (let ds = {d. \<exists>n\<in>set names. map_of ls n = Some d} \<union> (if s = 0 then {} else {s})
      in if ds = {} then 0 else Min ds)"
  using assms(2)
proof (induction names arbitrary: s)
  case (Cons n names)
  define D where "D = {d. \<exists>n\<in>set names. map_of ls n = Some d}"
  have fin: "finite D"
    by (rule finite_subset [of _ "the ` map_of ls ` set names"]) (force simp: D_def)+
  have step: "fold (shorter ls) (n # names) s = fold (shorter ls) names (shorter ls n s)" by simp
  show ?case
  proof (cases "map_of ls n")
    case None
    then show ?thesis using Cons by (simp add: shorter_def)
  next
    case (Some d)
    have d: "0 < d" using assms(1) Some by blast
    have ds: "{e. \<exists>m\<in>set (n # names). map_of ls m = Some e} = insert d D"
      using Some by (auto simp: D_def)
    have "shorter ls n s = (if s = 0 then d else min d s)" "0 \<le> shorter ls n s" "shorter ls n s \<noteq> 0"
      using Some d Cons.prems by (auto simp: shorter_def)
    then have "fold (shorter ls) (n # names) s = Min (insert (if s = 0 then d else min d s) D)"
      unfolding step using Cons.IH [of "shorter ls n s"] by (simp add: D_def [symmetric] Let_def)
    also have "\<dots> = Min (insert d D \<union> (if s = 0 then {} else {s}))"
      using fin by (cases "D = {}") (auto simp: Min_insert min.assoc min.left_commute insert_commute min.commute)
    finally show ?thesis by (simp only: ds Let_def) auto
  qed
qed simp

lemma lifetimeOf_min:
  assumes "\<forall>n d. map_of (p_Lifetimes p) n = Some d \<longrightarrow> 0 < d"
  shows "lifetimeOf p names =
     (let ds = declared_lifetimes p (set names)
      in if ds = {} then tget 0 (p_Lifetimes p) LifetimeDefault else Min ds)"
proof -
  let ?D = "declared_lifetimes p (set names)"
  have fin: "finite ?D" by (simp add: finite_declared_lifetimes)
  have f: "fold (shorter (p_Lifetimes p)) names 0 = (if ?D = {} then 0 else Min ?D)"
    using shorter_fold [OF assms, of 0 names] by (simp add: declared_lifetimes_def Let_def)
  have "Min ?D \<noteq> 0" if "?D \<noteq> {}"
    using Min_in [OF fin that] assms unfolding declared_lifetimes_def by force
  then show ?thesis by (auto simp: lifetimeOf_def f Let_def)
qed

lemma Client_Cap_le: "0 < c_TTLCap c \<Longrightarrow> Client_Cap c d \<le> c_TTLCap c"
  by (simp add: Client_Cap_def)

lemma Client_Cap_shortens: "0 < d \<Longrightarrow> Client_Cap c d \<le> d"
  by (simp add: Client_Cap_def)

end
