(* ===== verification/Utf8.thy ===== *)
theory Utf8
  imports Go_Prelude
begin

text \<open>
  The reading of a Go string as text: the runes \<open>range s\<close> yields, as \<open>unicode/utf8\<close> decodes them,
  and the classes of \<open>unicode\<close> the policy package asks about. A byte that starts no valid encoding is
  the rune U+FFFD of width one, marked invalid.
\<close>

definition byte_in :: "int \<Rightarrow> int \<Rightarrow> int \<Rightarrow> bool" where
  "byte_in lo hi b = (lo \<le> b \<and> b \<le> hi)"

text \<open>The bytes a second byte may take after a first byte of a sequence of two, three or four.\<close>

definition second_ok :: "int \<Rightarrow> int \<Rightarrow> bool" where
  "second_ok b0 b1 =
     (if b0 = 0xE0 then byte_in 0xA0 0xBF b1
      else if b0 = 0xED then byte_in 0x80 0x9F b1
      else if b0 = 0xF0 then byte_in 0x90 0xBF b1
      else if b0 = 0xF4 then byte_in 0x80 0x8F b1
      else byte_in 0x80 0xBF b1)"

definition width :: "int \<Rightarrow> nat" where
  "width b0 =
     (if b0 < 0x80 then 1 else if byte_in 0xC2 0xDF b0 then 2 else if byte_in 0xE0 0xEF b0 then 3
      else if byte_in 0xF0 0xF4 b0 then 4 else 0)"

text \<open>One rune at the front of the bytes: whether it is valid, its code point, and its width.\<close>

definition decode_rune :: "int list \<Rightarrow> bool \<times> int \<times> nat" where
  "decode_rune bs =
     (case bs of
        [] \<Rightarrow> (False, 0xFFFD, 0)
      | b0 # r0 \<Rightarrow>
          (if width b0 = 1 then (True, b0, 1)
           else if width b0 = 2 then
             (case r0 of b1 # _ \<Rightarrow>
                (if second_ok b0 b1 then (True, (b0 - 0xC0) * 64 + (b1 - 0x80), 2) else (False, 0xFFFD, 1))
              | _ \<Rightarrow> (False, 0xFFFD, 1))
           else if width b0 = 3 then
             (case r0 of b1 # b2 # _ \<Rightarrow>
                (if second_ok b0 b1 \<and> byte_in 0x80 0xBF b2
                 then (True, (b0 - 0xE0) * 4096 + (b1 - 0x80) * 64 + (b2 - 0x80), 3)
                 else (False, 0xFFFD, 1))
              | _ \<Rightarrow> (False, 0xFFFD, 1))
           else if width b0 = 4 then
             (case r0 of b1 # b2 # b3 # _ \<Rightarrow>
                (if second_ok b0 b1 \<and> byte_in 0x80 0xBF b2 \<and> byte_in 0x80 0xBF b3
                 then (True, (b0 - 0xF0) * 262144 + (b1 - 0x80) * 4096 + (b2 - 0x80) * 64 + (b3 - 0x80), 4)
                 else (False, 0xFFFD, 1))
              | _ \<Rightarrow> (False, 0xFFFD, 1))
           else (False, 0xFFFD, 1)))"

text \<open>Decoding makes progress on every non-empty input, so the fuel of the length is enough.\<close>

fun runes_of :: "nat \<Rightarrow> int list \<Rightarrow> (bool \<times> int) list" where
  "runes_of 0 bs = []"
| "runes_of (Suc n) bs =
     (if bs = [] then []
      else (case decode_rune bs of (ok, r, w) \<Rightarrow> (ok, r) # runes_of n (drop w bs)))"

definition runes :: "string \<Rightarrow> (bool \<times> int) list" where
  "runes s = runes_of (length s) (map of_char s)"

definition valid_utf8 :: "string \<Rightarrow> bool" where
  "valid_utf8 s = list_all fst (runes s)"

definition in_ranges :: "(int \<times> int) list \<Rightarrow> int \<Rightarrow> bool" where
  "in_ranges rs r = list_ex (\<lambda>(lo, hi). byte_in lo hi r) rs"

text \<open>\<open>unicode.IsSpace\<close>, and the categories Cc, Cf, Zl and Zp.\<close>

definition rune_space :: "int \<Rightarrow> bool" where
  "rune_space r =
     in_ranges [(0x09, 0x0D), (0x20, 0x20), (0x85, 0x85), (0xA0, 0xA0), (0x1680, 0x1680), (0x2000, 0x200A),
       (0x2028, 0x2029), (0x202F, 0x202F), (0x205F, 0x205F), (0x3000, 0x3000)] r"

definition rune_control :: "int \<Rightarrow> bool" where
  "rune_control r =
     in_ranges [(0x00, 0x1F), (0x7F, 0x9F), (0xAD, 0xAD), (0x600, 0x605), (0x61C, 0x61C), (0x6DD, 0x6DD),
       (0x70F, 0x70F), (0x890, 0x891), (0x8E2, 0x8E2), (0x180E, 0x180E), (0x200B, 0x200F), (0x2028, 0x202E),
       (0x2060, 0x2064), (0x2066, 0x206F), (0xFEFF, 0xFEFF), (0xFFF9, 0xFFFB), (0x110BD, 0x110BD),
       (0x110CD, 0x110CD), (0x13430, 0x1343F), (0x1BCA0, 0x1BCA3), (0x1D173, 0x1D17A), (0xE0001, 0xE0001),
       (0xE0020, 0xE007F)] r"

definition rune_ascii_alnum :: "int \<Rightarrow> bool" where
  "rune_ascii_alnum r = in_ranges [(0x30, 0x39), (0x41, 0x5A), (0x61, 0x7A)] r"

lemma decode_rune_progress: "bs \<noteq> [] \<Longrightarrow> 0 < snd (snd (decode_rune bs))"
  by (auto simp: decode_rune_def split: list.splits)

lemma runes_of_Nil [simp]: "runes_of n [] = []"
  by (cases n) simp_all

lemma runes_of_enough: "length bs \<le> n \<Longrightarrow> length bs \<le> m \<Longrightarrow> runes_of n bs = runes_of m bs"
proof (induction n bs arbitrary: m rule: runes_of.induct)
  case (2 n bs)
  obtain ok r w where d: "decode_rune bs = (ok, r, w)" by (metis prod_cases3)
  show ?case
  proof (cases "bs = []")
    case True
    then show ?thesis by (cases m) auto
  next
    case False
    then have w: "0 < w" using decode_rune_progress [OF False] d by simp
    obtain m' where m: "m = Suc m'" using "2.prems" False by (cases m) auto
    have "runes_of n (drop w bs) = runes_of m' (drop w bs)"
      using 2 False d w m by (intro "2.IH") (auto simp: le_diff_conv)
    then show ?thesis using False d m by simp
  qed
qed simp

text \<open>An ASCII string is its own runes.\<close>

lemma runes_ascii:
  assumes "\<forall>c\<in>set s. (of_char c :: int) < 128"
  shows "runes s = map (\<lambda>c. (True, of_char c)) s"
proof -
  have "runes_of (length s) (map of_char s) = map (\<lambda>c. (True, of_char c)) s"
    using assms by (induction s) (auto simp: decode_rune_def width_def)
  then show ?thesis by (simp add: runes_def)
qed

end
