(* ===== verification/Scope.thy ===== *)
theory Scope
  imports Evaluate Utf8 "HOL-Library.Multiset"
begin

text \<open>
  Which of a caller's groups a token for one audience carries, and how long a session may live:
  \<open>src/policy/scope.go\<close>, \<open>src/policy/groups_delimiter.go\<close>, \<open>src/policy/resource.go\<close> and
  \<open>src/policy/clientdoc.go\<close>. \<open>net/url\<close> is not part of the repository: \<open>url.Parse\<close> is the argument
  \<open>parse\<close> of the definitions that call it, \<^const>\<open>None\<close> for an error.
\<close>

section \<open>URLs\<close>

record url =
  u_Scheme :: string
  u_Host :: string
  u_HasUser :: bool
  u_Fragment :: string

type_synonym url_parser = "string \<Rightarrow> url option"

section \<open>The groups override\<close>

definition GroupsOverride_empty :: "GroupsOverride \<Rightarrow> bool" where
  "GroupsOverride_empty g = (\<not> ov_All g \<and> elems (ov_Things g) = [])"

datatype override_err = BlankThing | ThingTwice string | UndeclaredThing string

definition check_override_entry :: "Policy \<Rightarrow> string \<Rightarrow> string set \<Rightarrow> override_err + string set" where
  "check_override_entry p entry seen =
     (if trim_space entry = [] then Inl BlankThing
      else if entry \<in> seen then Inl (ThingTwice entry)
      else if colon \<in> set entry then Inr (insert entry seen)
      else case p_Vocabulary p of
        None \<Rightarrow> Inr (insert entry seen)
      | Some v \<Rightarrow>
          (if entry = FamilyRung \<or> entry = FamilyEmp then Inr (insert entry seen)
           else if \<not> has_key (Things v) entry then Inl (UndeclaredThing entry)
           else Inr (insert entry seen)))"

definition checkGroupsOverride :: "Policy \<Rightarrow> GroupsOverride \<Rightarrow> override_err option" where
  "checkGroupsOverride p g =
     (if ov_All g then None
      else case fold_err (check_override_entry p) (elems (ov_Things g)) {} of
        Inl e \<Rightarrow> Some e | Inr _ \<Rightarrow> None)"

section \<open>Client documents\<close>

definition ClientDocuments_Enabled :: "ClientDocuments \<Rightarrow> bool" where
  "ClientDocuments_Enabled d = (elems (cd_Origins d) \<noteq> [])"

definition ClientDocuments_Permits :: "ClientDocuments \<Rightarrow> url \<Rightarrow> bool" where
  "ClientDocuments_Permits d u =
     list_ex (\<lambda>allowed. to_lower allowed = to_lower (u_Host u)) (elems (cd_Origins d))"

section \<open>Scoping the groups of a token\<close>

definition requiresPairs :: "string list \<Rightarrow> (string \<times> string) list" where
  "requiresPairs requires =
     map (\<lambda>(scope, thing, role). (scope, thing)) (List.map_filter SplitGroup requires)"

definition asDocumentAudience :: "url_parser \<Rightarrow> string \<Rightarrow> url option" where
  "asDocumentAudience parse audience =
     (if \<not> has_prefix audience ''https://'' then None
      else case parse audience of
        None \<Rightarrow> None
      | Some u \<Rightarrow> (if u_Host u = [] \<or> u_HasUser u \<or> u_Fragment u \<noteq> [] then None else Some u))"

definition audienceScope :: "url_parser \<Rightarrow> Policy \<Rightarrow> string \<Rightarrow> (string \<times> string) list \<times> GroupsOverride" where
  "audienceScope parse p audience =
     (case map_of (p_Clients p) audience of
        Some c \<Rightarrow> (requiresPairs (c_Requires c), c_Groups c)
      | None \<Rightarrow>
     (case map_of (p_Resources p) audience of
        Some r \<Rightarrow> (requiresPairs (r_Requires r), r_Groups r)
      | None \<Rightarrow>
          (let docs = p_ClientDocuments p
           in if ClientDocuments_Enabled docs then
                (case asDocumentAudience parse audience of
                   Some u \<Rightarrow>
                     (if ClientDocuments_Permits docs u
                      then (requiresPairs (elems (cd_Requires docs)), cd_Groups docs)
                      else ([], no_override))
                 | None \<Rightarrow> ([], no_override))
              else ([], no_override))))"

definition groupsOverrideKeeps :: "string \<Rightarrow> (string \<times> string) list \<Rightarrow> GroupsOverride \<Rightarrow> bool" where
  "groupsOverrideKeeps name pairs override =
     (if ov_All override then True
      else case SplitGroup name of
        None \<Rightarrow>
          (case splitFamily name of
             Some family \<Rightarrow> family \<in> set (elems (ov_Things override)) \<or> name \<in> set (elems (ov_Things override))
           | None \<Rightarrow> name \<in> set (elems (ov_Things override)))
      | Some (scope, thing, role) \<Rightarrow>
          (scope, thing) \<in> set pairs \<or> thing \<in> set (elems (ov_Things override)))"

definition ScopeGroups :: "url_parser \<Rightarrow> Policy \<Rightarrow> string \<Rightarrow> string list \<Rightarrow> string list \<times> string list" where
  "ScopeGroups parse p audience held =
     (case audienceScope parse p audience of (pairs, override) \<Rightarrow>
        (sort (filter (\<lambda>name. groupsOverrideKeeps name pairs override) held),
         sort (filter (\<lambda>name. \<not> groupsOverrideKeeps name pairs override) held)))"

section \<open>The groups delimiter\<close>

datatype delim_err =
    DelimEmpty | DelimSeparator | DelimQuoteComma | DelimSpace | DelimControl | DelimNonASCII | DelimName
  | DelimCollision string string string

definition delim_rune :: "int \<Rightarrow> delim_err option" where
  "delim_rune r =
     (if rune_space r then Some DelimSpace
      else if r < 0x20 \<or> r = 0x7F then Some DelimControl
      else if r > 127 then Some DelimNonASCII
      else if rune_ascii_alnum r \<or> r = 0x2D then Some DelimName
      else None)"

definition validGroupsDelimiter :: "string \<Rightarrow> delim_err option" where
  "validGroupsDelimiter delimiter = first_some
     [guard_err (delimiter = []) DelimEmpty,
      guard_err (colon \<in> set delimiter) DelimSeparator,
      guard_err (contains_any delimiter [CHR 0x22, CHR 0x2C]) DelimQuoteComma,
      first_err (delim_rune \<circ> snd) (runes delimiter)]"

definition RewriteGroupsDelimiter :: "string \<Rightarrow> string \<Rightarrow> string" where
  "RewriteGroupsDelimiter name delimiter =
     (if delimiter = [] then name else replace_all colon delimiter name)"

definition rewrite_step :: "string \<Rightarrow> string \<Rightarrow> string table \<Rightarrow> delim_err + string table" where
  "rewrite_step delimiter concrete rewritten =
     (let after = replace_all colon delimiter concrete
      in case map_of rewritten after of
           None \<Rightarrow> Inr (tput after concrete rewritten)
         | Some other \<Rightarrow>
             (if other \<noteq> concrete then Inl (DelimCollision other concrete after)
              else Inr (tput after concrete rewritten)))"

text \<open>The grants the keys of the groups table stand for, in the order of the keys.\<close>

definition table_targets :: "Policy \<Rightarrow> string list" where
  "table_targets p = concat (map (groupKeyTargets (p_Vocabulary p)) (tkeys (p_Groups p)))"

definition checkGroupsDelimiterCollision :: "Policy \<Rightarrow> string \<Rightarrow> delim_err option" where
  "checkGroupsDelimiterCollision p delimiter =
     (case fold_err (rewrite_step delimiter) (table_targets p) [] of Inl e \<Rightarrow> Some e | Inr _ \<Rightarrow> None)"

section \<open>Absolute lifetimes of resources\<close>

definition MaxAbsoluteCap :: int where
  "MaxAbsoluteCap = 7 * 24 * 3600 * 1000000000"

definition CheckAbsoluteCap :: "Resource \<Rightarrow> int \<Rightarrow> bool" where
  "CheckAbsoluteCap r global = (\<not> (r_AbsoluteCap r > global \<and> global > 0 \<and> \<not> r_ReadOnly r))"

definition AbsoluteFor :: "Resource \<Rightarrow> int \<Rightarrow> int" where
  "AbsoluteFor r global =
     (if r_AbsoluteCap r \<le> 0 \<or> global \<le> 0 then global
      else if r_AbsoluteCap r \<le> global then r_AbsoluteCap r
      else if \<not> r_ReadOnly r then global
      else max global (min (r_AbsoluteCap r) MaxAbsoluteCap))"

definition touched_limit :: "int \<Rightarrow> (string \<Rightarrow> Resource option) option \<Rightarrow> string \<Rightarrow> int" where
  "touched_limit global lookup ident =
     (if ident = [] then global
      else case lookup of
        None \<Rightarrow> global
      | Some get \<Rightarrow> (case get ident of None \<Rightarrow> global | Some r \<Rightarrow> AbsoluteFor r global))"

definition EffectiveAbsolute :: "int \<Rightarrow> string list \<Rightarrow> (string \<Rightarrow> Resource option) option \<Rightarrow> int" where
  "EffectiveAbsolute global touched lookup =
     (if global \<le> 0 \<or> touched = [] then global
      else fold (\<lambda>ident out. let limit = touched_limit global lookup ident
                            in if out = 0 \<or> limit < out then limit else out) touched 0)"

definition Resource_Admits :: "Resource \<Rightarrow> Result \<Rightarrow> bool" where
  "Resource_Admits r result = list_ex (Result_Has result) (r_Requires r)"

definition Resource_Title :: "Resource \<Rightarrow> string \<Rightarrow> string" where
  "Resource_Title r ident = (let name = trim_space (r_DisplayName r) in if name \<noteq> [] then name else ident)"

section \<open>Scoping partitions what is held\<close>

lemma ScopeGroups_partition:
  assumes "ScopeGroups parse p audience held = (kept, dropped)"
  shows "mset kept + mset dropped = mset held" "sorted kept" "sorted dropped" "set kept \<inter> set dropped = {}"
  using assms by (auto simp: ScopeGroups_def split: prod.splits)

lemma requiresPairs_iff:
  "(s, t) \<in> set (requiresPairs requires) \<longleftrightarrow> (\<exists>name\<in>set requires. \<exists>r. SplitGroup name = Some (s, t, r))"
  by (force simp: requiresPairs_def map_filter_def)

lemma kept_iff:
  assumes "ScopeGroups parse p audience held = (kept, dropped)"
    and "audienceScope parse p audience = (pairs, override)"
  shows "name \<in> set kept \<longleftrightarrow> name \<in> set held \<and> groupsOverrideKeeps name pairs override"
  using assms by (auto simp: ScopeGroups_def)

lemma keeps_grant:
  "SplitGroup name = Some (s, t, r) \<Longrightarrow> \<not> ov_All override \<Longrightarrow>
     groupsOverrideKeeps name pairs override \<longleftrightarrow> (s, t) \<in> set pairs \<or> t \<in> set (elems (ov_Things override))"
  by (simp add: groupsOverrideKeeps_def)

lemma keeps_none: "\<not> groupsOverrideKeeps name [] no_override"
  by (simp add: groupsOverrideKeeps_def no_override_def split: option.splits)

text \<open>A client keeps every group it requires, so scoping never takes away what admitted the caller.\<close>

lemma required_grant_kept:
  assumes "map_of (p_Clients p) audience = Some c" and "name \<in> set (c_Requires c)"
    and "SplitGroup name = Some (s, t, r)" and "name \<in> set held"
  shows "name \<in> set (fst (ScopeGroups parse p audience held))"
proof -
  have "(s, t) \<in> set (requiresPairs (c_Requires c))"
    using assms(2,3) by (auto simp: requiresPairs_iff)
  then show ?thesis
    using assms by (simp add: ScopeGroups_def audienceScope_def groupsOverrideKeeps_def)
qed

section \<open>Rewriting the delimiter\<close>

lemma replace_all_Nil [simp]: "replace_all c d [] = []"
  by (simp add: replace_all_def)

lemma replace_all_Cons [simp]:
  "replace_all c d (x # xs) = (if x = c then d @ replace_all c d xs else x # replace_all c d xs)"
  by (simp add: replace_all_def)

text \<open>A delimiter that shares no character with two names keeps them apart.\<close>

lemma replace_all_inj:
  assumes "d \<noteq> []" and "set d \<inter> set s = {}" and "set d \<inter> set t = {}"
    and "replace_all c d s = replace_all c d t"
  shows "s = t"
  using assms(2-)
proof (induction s arbitrary: t)
  case Nil
  then show ?case using assms(1) by (cases t) (auto split: if_splits)
next
  case (Cons x s)
  obtain y ys where d: "d = y # ys" using assms(1) by (cases d) auto
  show ?case
  proof (cases t)
    case Nil
    then show ?thesis using Cons.prems assms(1) by (auto split: if_splits)
  next
    case (Cons x' t')
    have "x = x'" using Cons.prems Cons d by (auto split: if_splits)
    moreover have "replace_all c d s = replace_all c d t'"
      using Cons.prems Cons \<open>x = x'\<close> by (auto split: if_splits)
    ultimately show ?thesis using Cons.IH [of t'] Cons.prems Cons by auto
  qed
qed

lemma rewrite_steps:
  assumes "\<forall>k n. map_of m k = Some n \<longrightarrow> replace_all colon d n = k"
  shows "(\<exists>m'. fold_err (rewrite_step d) names m = Inr m') \<longleftrightarrow>
     inj_on (replace_all colon d) (set names \<union> ran (map_of m))"
  using assms
proof (induction names arbitrary: m)
  case Nil
  have "inj_on (replace_all colon d) (ran (map_of m))"
  proof (rule inj_onI)
    fix x y assume "x \<in> ran (map_of m)" "y \<in> ran (map_of m)"
      and eq: "replace_all colon d x = replace_all colon d y"
    then obtain a b where "map_of m a = Some x" "map_of m b = Some y" unfolding ran_def by blast
    moreover from this have "a = b" using Nil [rule_format] eq by metis
    ultimately show "x = y" by simp
  qed
  then show ?case by simp
next
  case (Cons n names)
  let ?f = "replace_all colon d"
  show ?case
  proof (cases "\<exists>other. map_of m (?f n) = Some other \<and> other \<noteq> n")
    case True
    then obtain other where o: "map_of m (?f n) = Some other" "other \<noteq> n" by blast
    have "?f other = ?f n" using Cons.prems o(1) by blast
    moreover have "other \<in> set (n # names) \<union> ran (map_of m)" "n \<in> set (n # names) \<union> ran (map_of m)"
      using o(1) by (simp_all add: ranI)
    ultimately have "\<not> inj_on ?f (set (n # names) \<union> ran (map_of m))"
      using o(2) unfolding inj_on_def by blast
    moreover have "rewrite_step d n m = Inl (DelimCollision other n (?f n))"
      using o by (simp add: rewrite_step_def Let_def)
    ultimately show ?thesis by simp
  next
    case False
    then have step: "rewrite_step d n m = Inr (tput (?f n) n m)"
      by (auto simp: rewrite_step_def Let_def split: option.splits)
    have ran: "ran (map_of (tput (?f n) n m)) = insert n (ran (map_of m))"
    proof (cases "map_of m (?f n)")
      case (Some other)
      then have "map_of m (?f n) = Some n" using False by simp
      then show ?thesis by (simp add: map_upd_triv insert_absorb ranI)
    qed simp
    have "\<forall>k n'. map_of (tput (?f n) n m) k = Some n' \<longrightarrow> ?f n' = k"
      using Cons.prems by (simp only: map_of_tput map_upd_Some_unfold) blast
    from Cons.IH [OF this] show ?thesis
      by (simp only: ran fold_err.simps step sum.case set_simps Un_insert_left Un_insert_right)
  qed
qed

text \<open>
  The collision check is exact for the grants of the groups table: it passes exactly when the
  delimiter keeps them apart.
\<close>

lemma collision_iff:
  "checkGroupsDelimiterCollision p d = None \<longleftrightarrow> inj_on (replace_all colon d) (set (table_targets p))"
  using rewrite_steps [of "[]" d "table_targets p"]
  by (auto simp: checkGroupsDelimiterCollision_def split: sum.splits)

text \<open>What a valid delimiter is made of.\<close>

lemma validGroupsDelimiter_nonempty: "validGroupsDelimiter d = None \<Longrightarrow> d \<noteq> [] \<and> colon \<notin> set d"
  by (auto simp: validGroupsDelimiter_def err_simps)

section \<open>Bounds on the absolute lifetime\<close>

lemma AbsoluteFor_pos: "0 < global \<Longrightarrow> 0 < AbsoluteFor r global"
  by (auto simp: AbsoluteFor_def)

lemma AbsoluteFor_le: "0 < global \<Longrightarrow> AbsoluteFor r global \<le> max global MaxAbsoluteCap"
  by (auto simp: AbsoluteFor_def)

lemma AbsoluteFor_not_read_only: "\<not> r_ReadOnly r \<Longrightarrow> AbsoluteFor r global \<le> global"
  by (auto simp: AbsoluteFor_def)

lemma touched_limit_pos: "0 < global \<Longrightarrow> 0 < touched_limit global lookup ident"
  by (auto simp: touched_limit_def AbsoluteFor_pos split: option.splits)

lemma fold_shortest:
  assumes "\<forall>x\<in>set xs. 0 < f x" and "0 < out"
  shows "fold (\<lambda>x out. let limit = f x in if out = 0 \<or> limit < out then limit else out) xs (out :: int)
     = Min (insert out (f ` set xs))"
  using assms
proof (induction xs arbitrary: out)
  case (Cons x xs)
  let ?o = "if f x < out then f x else out"
  have "fold (\<lambda>x out. let limit = f x in if out = 0 \<or> limit < out then limit else out) (x # xs) out
      = Min (insert ?o (f ` set xs))"
    using Cons.IH [of ?o] Cons.prems by auto
  also have "?o = min out (f x)" by auto
  also have "Min (insert (min out (f x)) (f ` set xs)) = Min (insert out (f ` set (x # xs)))"
    by (cases "xs = []") (auto simp: min.assoc)
  finally show ?case .
qed simp

lemma EffectiveAbsolute_Min:
  assumes "0 < global" and "touched \<noteq> []"
  shows "EffectiveAbsolute global touched lookup = Min (touched_limit global lookup ` set touched)"
proof -
  obtain x xs where t: "touched = x # xs" using assms(2) by (cases touched) auto
  have pos: "\<forall>y\<in>set xs. 0 < touched_limit global lookup y" "0 < touched_limit global lookup x"
    using touched_limit_pos assms(1) by auto
  show ?thesis using assms t fold_shortest [OF pos] by (simp add: EffectiveAbsolute_def)
qed

end
