(* ===== verification/Validate.thy ===== *)
theory Validate
  imports Scope
begin

text \<open>
  The load-time checks of a policy: \<open>Policy.Validate\<close> and what it calls in \<open>src/policy/policy.go\<close>,
  \<open>src/policy/slack.go\<close>, \<open>src/policy/resource.go\<close> and \<open>src/policy/clientdoc.go\<close>. An error is the
  reason the code reports, with the names that identify the row. The lemmas say what a policy that
  passed may be relied on for: every group a client, a resource, an organisation, a channel or the
  client documents name is declared, every key of the groups table stands for at least one grant, no
  role ladder is cyclic, and no two groups set one scalar differently.
\<close>

section \<open>Patterns of names\<close>

text \<open>The regular expressions of the package, as predicates on the bytes.\<close>

definition is_digit :: "char \<Rightarrow> bool" where
  "is_digit c = (let n = of_char c :: int in 48 \<le> n \<and> n \<le> 57)"

definition is_upper :: "char \<Rightarrow> bool" where
  "is_upper c = (let n = of_char c :: int in 65 \<le> n \<and> n \<le> 90)"

definition is_lower :: "char \<Rightarrow> bool" where
  "is_lower c = (let n = of_char c :: int in 97 \<le> n \<and> n \<le> 122)"

definition is_alnum :: "char \<Rightarrow> bool" where
  "is_alnum c = (is_digit c \<or> is_upper c \<or> is_lower c)"

text \<open>\<open>^[A-Za-z0-9](?:[A-Za-z0-9]|-[A-Za-z0-9]){0,38}$\<close>: the repetitions after the first byte.\<close>

fun login_units :: "string \<Rightarrow> nat option" where
  "login_units [] = Some 0"
| "login_units [c] = (if is_alnum c then Some 1 else None)"
| "login_units (c # d # cs) =
     (if is_alnum c then map_option Suc (login_units (d # cs))
      else if c = CHR ''-'' \<and> is_alnum d then map_option Suc (login_units cs)
      else None)"

definition ignoredLogin :: "string \<Rightarrow> bool" where
  "ignoredLogin s =
     (case s of [] \<Rightarrow> False
      | c # cs \<Rightarrow> is_alnum c \<and> (case login_units cs of None \<Rightarrow> False | Some n \<Rightarrow> n \<le> 38))"

text \<open>\<open>^[UW][A-Z0-9]{6,}$\<close> and \<open>^[CG][A-Z0-9]{8,}$\<close>.\<close>

definition slackUserID :: "string \<Rightarrow> bool" where
  "slackUserID s =
     (case s of [] \<Rightarrow> False
      | c # cs \<Rightarrow> (c = CHR ''U'' \<or> c = CHR ''W'') \<and> list_all (\<lambda>x. is_upper x \<or> is_digit x) cs \<and> 6 \<le> length cs)"

definition ValidSlackChannelID :: "string \<Rightarrow> bool" where
  "ValidSlackChannelID s =
     (case s of [] \<Rightarrow> False
      | c # cs \<Rightarrow> (c = CHR ''C'' \<or> c = CHR ''G'') \<and> list_all (\<lambda>x. is_upper x \<or> is_digit x) cs \<and> 8 \<le> length cs)"

text \<open>\<open>^[a-z0-9](?:[a-z0-9-]{0,38}[a-z0-9])?$\<close>.\<close>

definition slackSlug :: "string \<Rightarrow> bool" where
  "slackSlug s =
     (s \<noteq> [] \<and> length s \<le> 40 \<and> (is_lower (hd s) \<or> is_digit (hd s)) \<and> (is_lower (last s) \<or> is_digit (last s))
      \<and> list_all (\<lambda>x. is_lower x \<or> is_digit x \<or> x = CHR ''-'') s)"

text \<open>\<open>^[a-z0-9][a-z0-9._-]{0,62}$\<close> and \<open>^[a-z0-9_-]{1,80}$\<close>.\<close>

definition personSlug :: "string \<Rightarrow> bool" where
  "personSlug s =
     (case s of [] \<Rightarrow> False
      | c # cs \<Rightarrow> (is_lower c \<or> is_digit c) \<and> length cs \<le> 62
          \<and> list_all (\<lambda>x. is_lower x \<or> is_digit x \<or> x \<in> {CHR ''.'', CHR ''_'', CHR ''-''}) cs)"

definition slackChannelName :: "string \<Rightarrow> bool" where
  "slackChannelName s =
     (1 \<le> length s \<and> length s \<le> 80
      \<and> list_all (\<lambda>x. is_lower x \<or> is_digit x \<or> x \<in> {CHR ''_'', CHR ''-''}) s)"

definition ValidAWSAccount :: "string \<Rightarrow> bool" where
  "ValidAWSAccount s = (length s = 12 \<and> list_all is_digit s)"

definition validSigningAlg :: "string \<Rightarrow> bool" where
  "validSigningAlg alg = (alg \<in> {''RS256'', ''ES256'', ''ES384''})"

section \<open>Errors\<close>

datatype text_err = TextNotUTF8 | TextBlank | TextTooLong nat nat | TextControl int

datatype requires_err = NotDeclared string | BadGrant string grant_err

datatype group_err =
    MemberNoDomain string string
  | MatcherEmpty string nat
  | MatcherMany string nat nat
  | MatcherEveryJob string nat
  | MatcherVisibility string nat string
  | MatcherServiceAccount string nat
  | MatcherAWSAccount string nat string
  | MatcherAWSPattern string nat
  | BadGroupKey string key_err

datatype github_err =
    OrgNoName
  | OrgEmpty string
  | OrgMembers string requires_err
  | OrgIgnoreAddress string string
  | OrgIgnoreLogin string string
  | TeamNoName string
  | TeamEmpty string string
  | TeamGroups string string requires_err

datatype people_err =
    PersonName string
  | PersonNoAddress string
  | PersonAddress string string
  | PersonTwice string string
  | PersonBoth string string string

datatype slack_err =
    WorkspaceKey string
  | ChannelName string string
  | ChannelEmpty string string
  | ChannelFrom string string requires_err
  | ChannelIgnoreExtend string string
  | ChannelStrictPublic string string
  | ChannelMode string string string
  | ChannelIgnore string string string
  | ChannelIgnoreTwice string string string
  | ChannelAdopt string string string
  | ChannelAdoptTwice string string string string

datatype client_err =
    ClientDisplayName text_err
  | ClientDescription text_err
  | ClientNoKind
  | ClientKind string
  | ClientNoSecret
  | ClientExchangeRedirects
  | ClientExchangeSignedOut
  | ClientSignInExchange
  | ClientBothLists string
  | ClientNoRequires
  | ClientRequires requires_err
  | ClientSigningAlg string
  | ClientDelimiter delim_err
  | ClientOverride override_err

datatype resource_err =
    ResourceNoID
  | ResourceNotURI
  | ResourceNotAbsolute
  | ResourceFragment
  | ResourceNoRequires
  | ResourceRequires requires_err
  | ResourceCapNegative
  | ResourceCapTooLong
  | ResourceSigningAlg string
  | ResourceDelimiter delim_err
  | ResourceOverride override_err

datatype documents_err =
    OriginNoHost
  | OriginScheme string
  | OriginPath string
  | OriginWildcard string
  | OriginNotHost string
  | DocumentsIdle
  | DocumentsNoRequires
  | DocumentsRequires requires_err
  | DocumentsOverride override_err

datatype policy_err =
    BadVersion int
  | BadVocabulary vocab_err
  | BadGroup group_err
  | BadClaims requires_err
  | BadLifetimes requires_err
  | BadGitHub github_err
  | BadPeople people_err
  | BadSlack slack_err
  | BadClient string client_err
  | BadResource string resource_err
  | BadDocuments documents_err
  | BadFragments fragment_err

section \<open>Groups and their matchers\<close>

definition AWSMatcher_validate :: "string \<Rightarrow> nat \<Rightarrow> AWSMatcher option \<Rightarrow> group_err option" where
  "AWSMatcher_validate name i mo =
     (case mo of None \<Rightarrow> None
      | Some a \<Rightarrow> first_some
          [guard_err (\<not> ValidAWSAccount (am_Account a)) (MatcherAWSAccount name i (am_Account a)),
           guard_err (\<not> list_all (\<lambda>pat. path_match pat [] \<noteq> None) [am_Role a, am_Path a, am_Function a, am_OrgID a])
             (MatcherAWSPattern name i)])"

definition validate_matcher :: "string \<Rightarrow> nat \<times> Matcher \<Rightarrow> group_err option" where
  "validate_matcher name im =
     (case im of (i, m) \<Rightarrow> first_some
        [guard_err (Matcher_kinds m = 0) (MatcherEmpty name i),
         guard_err (Matcher_kinds m > 1) (MatcherMany name i (Matcher_kinds m)),
         guard_err (m_GitHub m = Some no_GitHubMatcher) (MatcherEveryJob name i),
         (case m_GitHub m of None \<Rightarrow> None
          | Some g \<Rightarrow> guard_err (gm_Visibility g \<noteq> [] \<and> gm_Visibility g \<notin> {''public'', ''private'', ''internal''})
              (MatcherVisibility name i (gm_Visibility g))),
         (case m_ServiceAccount m of None \<Rightarrow> None
          | Some s \<Rightarrow> guard_err (sm_Namespace s = [] \<or> sm_Name s = []) (MatcherServiceAccount name i)),
         AWSMatcher_validate name i (m_AWS m)])"

definition Group_validate :: "Group \<Rightarrow> string \<Rightarrow> group_err option" where
  "Group_validate g name = first_some
     [first_err (\<lambda>address. guard_err (Domain address = None) (MemberNoDomain name address)) (g_Members g),
      first_err (validate_matcher name) (List.enumerate 0 (g_Matchers g))]"

section \<open>Names a table refers to\<close>

text \<open>The two checks every reference to a group passes: it is declared, and it is a usable grant.\<close>

definition check_bound :: "Policy \<Rightarrow> string \<Rightarrow> requires_err option" where
  "check_bound p name =
     (if \<not> has_key (p_Groups p) name then Some (NotDeclared name)
      else map_option (BadGrant name) (checkGrantName (p_Vocabulary p) name))"

definition checkBoundGroups :: "Policy \<Rightarrow> string list \<Rightarrow> requires_err option" where
  "checkBoundGroups p names = first_err (check_bound p) names"

section \<open>GitHub, people and Slack\<close>

definition validate_ignored :: "string \<Rightarrow> string \<Rightarrow> github_err option" where
  "validate_ignored org entry =
     (let e = trim_space entry
      in if at_sign \<in> set e then guard_err (Domain e = None) (OrgIgnoreAddress org e)
         else guard_err (\<not> ignoredLogin e) (OrgIgnoreLogin org e))"

definition validate_team :: "Policy \<Rightarrow> string \<Rightarrow> string \<times> GitHubTeam \<Rightarrow> github_err option" where
  "validate_team p org nt =
     (case nt of (team, bound) \<Rightarrow> first_some
        [guard_err (trim_space team = []) (TeamNoName org),
         guard_err (gt_Members bound = [] \<and> gt_Maintainers bound = []) (TeamEmpty org team),
         map_option (TeamGroups org team) (checkBoundGroups p (GitHubTeam_Groups bound))])"

definition validateGitHubOrg :: "Policy \<Rightarrow> string \<times> GitHubOrg \<Rightarrow> github_err option" where
  "validateGitHubOrg p ob =
     (case ob of (org, binding) \<Rightarrow> first_some
        [guard_err (trim_space org = []) OrgNoName,
         guard_err (go_Members binding = [] \<and> go_Teams binding = []) (OrgEmpty org),
         map_option (OrgMembers org) (checkBoundGroups p (go_Members binding)),
         first_err (validate_ignored org) (go_Ignore binding),
         first_err (validate_team p org) (sorted_entries (go_Teams binding))])"

definition normaliseAddress :: "string \<Rightarrow> string option" where
  "normaliseAddress address =
     (let a = to_lower (trim_space address)
      in if Domain a = None \<or> contains_any a [CHR '' '', CHR 0x09, CHR 0x0D, CHR 0x0A] then None else Some a)"

definition PeopleByAddress :: "Policy \<Rightarrow> string table" where
  "PeopleByAddress p =
     fold (\<lambda>(person, addresses) out. fold (\<lambda>address out. case normaliseAddress address of
         None \<Rightarrow> out | Some norm \<Rightarrow> tput norm person out) addresses out) (sorted_entries (p_People p)) []"

definition validate_address :: "string \<Rightarrow> string \<Rightarrow> string table \<Rightarrow> people_err + string table" where
  "validate_address person address owner =
     (case normaliseAddress address of
        None \<Rightarrow> Inl (PersonAddress person address)
      | Some norm \<Rightarrow>
          (case map_of owner norm of
             Some prev \<Rightarrow> Inl (if prev = person then PersonTwice person norm else PersonBoth norm prev person)
           | None \<Rightarrow> Inr (tput norm person owner)))"

definition validate_person :: "string \<times> string list \<Rightarrow> string table \<Rightarrow> people_err + string table" where
  "validate_person pa owner =
     (case pa of (person, addresses) \<Rightarrow>
        if \<not> personSlug person then Inl (PersonName person)
        else if addresses = [] then Inl (PersonNoAddress person)
        else fold_err (validate_address person) addresses owner)"

definition err_of :: "'e + 's \<Rightarrow> 'e option" where
  "err_of r = (case r of Inl e \<Rightarrow> Some e | Inr _ \<Rightarrow> None)"

definition validatePeople :: "Policy \<Rightarrow> people_err option" where
  "validatePeople p = err_of (fold_err validate_person (sorted_entries (p_People p)) [])"

definition SlackModeExtend :: string where "SlackModeExtend = ''extend''"
definition SlackModeStrict :: string where "SlackModeStrict = ''strict''"

definition SlackChannel_Strict :: "SlackChannel \<Rightarrow> bool" where
  "SlackChannel_Strict c = (sc_Mode c = SlackModeStrict)"

definition validate_channel_ignored ::
  "string \<Rightarrow> string \<Rightarrow> string \<Rightarrow> string set \<Rightarrow> slack_err + string set" where
  "validate_channel_ignored ws name entry seen =
     (let key = trim_space entry
      in case (case normaliseAddress key of Some address \<Rightarrow> Some address
               | None \<Rightarrow> (if slackUserID key then Some key else None)) of
           None \<Rightarrow> Inl (ChannelIgnore ws name entry)
         | Some k \<Rightarrow> (if k \<in> seen then Inl (ChannelIgnoreTwice ws name k) else Inr (insert k seen)))"

definition validateSlackMode :: "string \<Rightarrow> string \<Rightarrow> SlackChannel \<Rightarrow> slack_err option" where
  "validateSlackMode ws name channel = first_some
     [(if sc_Mode channel = [] \<or> sc_Mode channel = SlackModeExtend
       then guard_err (sc_Ignore channel \<noteq> []) (ChannelIgnoreExtend ws name)
       else if sc_Mode channel = SlackModeStrict
       then guard_err (\<not> sc_Private channel) (ChannelStrictPublic ws name)
       else Some (ChannelMode ws name (sc_Mode channel))),
      err_of (fold_err (validate_channel_ignored ws name) (sc_Ignore channel) {})]"

definition validate_channel ::
  "Policy \<Rightarrow> string \<Rightarrow> string \<times> SlackChannel \<Rightarrow> string table \<Rightarrow> slack_err + string table" where
  "validate_channel p ws nc adopted =
     (case nc of (name, channel) \<Rightarrow>
        (case first_some
           [guard_err (\<not> slackChannelName name) (ChannelName ws name),
            guard_err (sc_From channel = []) (ChannelEmpty ws name),
            map_option (ChannelFrom ws name) (checkBoundGroups p (sc_From channel)),
            validateSlackMode ws name channel] of
           Some e \<Rightarrow> Inl e
         | None \<Rightarrow>
             (if sc_Adopt channel = [] then Inr adopted
              else if \<not> ValidSlackChannelID (sc_Adopt channel) then Inl (ChannelAdopt ws name (sc_Adopt channel))
              else case map_of adopted (sc_Adopt channel) of
                Some prev \<Rightarrow> Inl (ChannelAdoptTwice ws (sc_Adopt channel) prev name)
              | None \<Rightarrow> Inr (tput (sc_Adopt channel) name adopted))))"

definition validateSlackWorkspace :: "Policy \<Rightarrow> string \<times> SlackWorkspace \<Rightarrow> slack_err option" where
  "validateSlackWorkspace p kw =
     (case kw of (key, ws) \<Rightarrow>
        if \<not> slackSlug key then Some (WorkspaceKey key)
        else err_of (fold_err (validate_channel p key) (sorted_entries (sw_Channels ws)) []))"

definition validateSlack :: "Policy \<Rightarrow> slack_err option" where
  "validateSlack p = first_err (validateSlackWorkspace p) (sorted_entries (sl_Workspaces (p_Slack p)))"

section \<open>Clients\<close>

definition KindPublic :: string where "KindPublic = ''public''"
definition KindConfidential :: string where "KindConfidential = ''confidential''"
definition KindExchange :: string where "KindExchange = ''exchange''"

definition displayText :: "string \<Rightarrow> nat \<Rightarrow> text_err option" where
  "displayText value limit =
     (if value = [] then None
      else first_some
        [guard_err (\<not> valid_utf8 value) TextNotUTF8,
         guard_err (list_all (rune_space \<circ> snd) (runes value)) TextBlank,
         guard_err (length (runes value) > limit) (TextTooLong (length (runes value)) limit),
         first_err (\<lambda>r. guard_err (rune_control r) (TextControl r)) (map snd (runes value))])"

definition check_delimiter :: "Policy \<Rightarrow> string \<Rightarrow> delim_err option" where
  "check_delimiter p d =
     (if d = [] then None else first_some [validGroupsDelimiter d, checkGroupsDelimiterCollision p d])"

definition Client_validate :: "Policy \<Rightarrow> Client \<Rightarrow> client_err option" where
  "Client_validate p c = first_some
     [map_option ClientDisplayName (displayText (c_DisplayName c) 80),
      map_option ClientDescription (displayText (c_Description c) 200),
      (if c_Kind c \<in> {KindPublic, KindConfidential, KindExchange} then None
       else if c_Kind c = [] then Some ClientNoKind else Some (ClientKind (c_Kind c))),
      guard_err (c_Kind c = KindConfidential \<and> c_Secret c = []) ClientNoSecret,
      guard_err (c_Kind c = KindExchange \<and> c_Redirects c \<noteq> []) ClientExchangeRedirects,
      guard_err (c_Kind c = KindExchange \<and> c_SignedOut c \<noteq> []) ClientExchangeSignedOut,
      guard_err (c_SignInExchange c \<and> c_Kind c \<noteq> KindPublic) ClientSignInExchange,
      first_err (\<lambda>out. guard_err (out \<in> set (c_Redirects c)) (ClientBothLists out)) (c_SignedOut c),
      guard_err (c_Requires c = []) ClientNoRequires,
      map_option ClientRequires (checkBoundGroups p (c_Requires c)),
      guard_err (c_SigningAlg c \<noteq> [] \<and> \<not> validSigningAlg (c_SigningAlg c)) (ClientSigningAlg (c_SigningAlg c)),
      map_option ClientDelimiter (check_delimiter p (c_GroupsDelimiter c)),
      map_option ClientOverride (checkGroupsOverride p (c_Groups c))]"

section \<open>Resources and client documents\<close>

definition validateResourceID :: "url_parser \<Rightarrow> string \<Rightarrow> resource_err option" where
  "validateResourceID parse ident =
     (if trim_space ident = [] then Some ResourceNoID
      else case parse ident of
        None \<Rightarrow> Some ResourceNotURI
      | Some u \<Rightarrow> first_some
          [guard_err (u_Scheme u = []) ResourceNotAbsolute,
           guard_err (u_Fragment u \<noteq> [] \<or> CHR ''#'' \<in> set ident) ResourceFragment])"

definition Resource_validate :: "url_parser \<Rightarrow> Policy \<Rightarrow> string \<times> Resource \<Rightarrow> resource_err option" where
  "Resource_validate parse p ir =
     (case ir of (ident, r) \<Rightarrow> first_some
        [validateResourceID parse ident,
         guard_err (r_Requires r = []) ResourceNoRequires,
         map_option ResourceRequires (checkBoundGroups p (r_Requires r)),
         guard_err (r_AbsoluteCap r < 0) ResourceCapNegative,
         guard_err (r_AbsoluteCap r > MaxAbsoluteCap) ResourceCapTooLong,
         guard_err (r_SigningAlg r \<noteq> [] \<and> \<not> validSigningAlg (r_SigningAlg r)) (ResourceSigningAlg (r_SigningAlg r)),
         map_option ResourceDelimiter (check_delimiter p (r_GroupsDelimiter r)),
         map_option ResourceOverride (checkGroupsOverride p (r_Groups r))])"

definition validateOrigin :: "url_parser \<Rightarrow> string \<Rightarrow> documents_err option" where
  "validateOrigin parse origin = first_some
     [guard_err (trim_space origin = []) OriginNoHost,
      guard_err (contains_str origin ''://'') (OriginScheme origin),
      guard_err (contains_any origin ''/?#'') (OriginPath origin),
      guard_err (contains_str origin ''*'') (OriginWildcard origin),
      guard_err (parse (''https://'' @ origin) = None) (OriginNotHost origin)]"

definition ClientDocuments_validate :: "url_parser \<Rightarrow> Policy \<Rightarrow> documents_err option" where
  "ClientDocuments_validate parse p =
     (let d = p_ClientDocuments p
      in first_some
        [first_err (validateOrigin parse) (elems (cd_Origins d)),
         (if \<not> ClientDocuments_Enabled d
          then guard_err (elems (cd_Requires d) \<noteq> [] \<or> cd_TTLCap d \<noteq> 0 \<or> \<not> GroupsOverride_empty (cd_Groups d))
                 DocumentsIdle
          else first_some
            [guard_err (elems (cd_Requires d) = []) DocumentsNoRequires,
             map_option DocumentsRequires (checkBoundGroups p (elems (cd_Requires d))),
             map_option DocumentsOverride (checkGroupsOverride p (cd_Groups d))])])"

section \<open>The whole policy\<close>

definition validate_group_key :: "Policy \<Rightarrow> string \<times> Group \<Rightarrow> group_err option" where
  "validate_group_key p ng =
     (case ng of (name, g) \<Rightarrow> first_some
        [Group_validate g name,
         (case checkGroupKey (p_Vocabulary p) name of Inl e \<Rightarrow> Some (BadGroupKey name e) | Inr _ \<Rightarrow> None)])"

definition Policy_Validate :: "url_parser \<Rightarrow> Policy \<Rightarrow> policy_err option" where
  "Policy_Validate parse p = first_some
     [guard_err (p_Version p \<noteq> 1) (BadVersion (p_Version p)),
      map_option BadVocabulary (Vocabulary_validate (p_Vocabulary p)),
      map_option BadGroup (first_err (validate_group_key p) (sorted_entries (p_Groups p))),
      map_option BadClaims (checkBoundGroups p (tkeys (p_Claims p))),
      map_option BadLifetimes (checkBoundGroups p (filter (\<lambda>n. n \<noteq> LifetimeDefault) (tkeys (p_Lifetimes p)))),
      map_option BadGitHub (first_err (validateGitHubOrg p) (sorted_entries (p_GitHub p))),
      map_option BadPeople (validatePeople p),
      map_option BadSlack (validateSlack p),
      first_err (\<lambda>(ident, c). map_option (BadClient ident) (Client_validate p c)) (sorted_entries (p_Clients p)),
      first_err (\<lambda>(ident, r). map_option (BadResource ident) (Resource_validate parse p (ident, r)))
        (sorted_entries (p_Resources p)),
      map_option BadDocuments (ClientDocuments_validate parse p),
      map_option BadFragments (checkFragments (p_Claims p))]"

section \<open>What a validated policy may be relied on for\<close>

lemma map_option_None_iff [err_simps]: "map_option f x = None \<longleftrightarrow> x = None"
  by (cases x) simp_all

lemma first_some_Nil_None [err_simps]: "first_some [] = None"
  by simp

lemma err_of_None [err_simps]: "err_of r = None \<longleftrightarrow> (\<exists>s. r = Inr s)"
  by (cases r) (simp_all add: err_of_def)

lemma map_of_sorted_entries: "map_of m k = Some v \<Longrightarrow> (k, v) \<in> set (sorted_entries m)"
  by (auto simp: sorted_entries_def image_iff)

lemma sorted_entries_map_of: "(k, v) \<in> set (sorted_entries m) \<Longrightarrow> map_of m k = Some v"
  by (auto simp: sorted_entries_def)

lemma checkBoundGroups_None:
  "checkBoundGroups p names = None \<longleftrightarrow>
     (\<forall>n\<in>set names. has_key (p_Groups p) n \<and> checkGrantName (p_Vocabulary p) n = None)"
  by (simp add: checkBoundGroups_def check_bound_def err_simps split: if_splits del: has_key_iff) blast

lemma checkGrantName_not_wildcard: "checkGrantName vo n = None \<Longrightarrow> \<not> wildcard_key n"
  by (auto simp: checkGrantName_def wildcard_key_def split: option.splits)

lemma bound_ok:
  "checkBoundGroups p names = None \<Longrightarrow> \<forall>n\<in>set names. has_key (p_Groups p) n \<and> \<not> wildcard_key n"
  unfolding checkBoundGroups_None using checkGrantName_not_wildcard by blast

lemma Validate_parts:
  assumes "Policy_Validate parse p = None"
  shows "p_Version p = 1" "Vocabulary_validate (p_Vocabulary p) = None"
    "map_of (p_Groups p) name = Some g \<Longrightarrow> validate_group_key p (name, g) = None"
    "checkBoundGroups p (tkeys (p_Claims p)) = None"
    "map_of (p_GitHub p) org = Some o' \<Longrightarrow> validateGitHubOrg p (org, o') = None"
    "validatePeople p = None" "validateSlack p = None"
    "map_of (p_Clients p) cid = Some c \<Longrightarrow> Client_validate p c = None"
    "map_of (p_Resources p) rid = Some r \<Longrightarrow> Resource_validate parse p (rid, r) = None"
    "ClientDocuments_validate parse p = None" "checkFragments (p_Claims p) = None"
  using assms by (auto simp: Policy_Validate_def err_simps dest: map_of_sorted_entries)

lemma validated_client:
  assumes "Policy_Validate parse p = None" and "map_of (p_Clients p) ident = Some c"
  shows "c_Requires c \<noteq> []" "\<forall>n\<in>set (c_Requires c). has_key (p_Groups p) n \<and> \<not> wildcard_key n"
    "set (c_SignedOut c) \<inter> set (c_Redirects c) = {}" "c_SignInExchange c \<Longrightarrow> c_Kind c = KindPublic"
    "c_Kind c = KindConfidential \<Longrightarrow> c_Secret c \<noteq> []"
    "c_Kind c = KindExchange \<Longrightarrow> c_Redirects c = [] \<and> c_SignedOut c = []"
    "c_Kind c \<in> {KindPublic, KindConfidential, KindExchange}"
proof -
  note v = Validate_parts(8) [OF assms(1) assms(2), unfolded Client_validate_def err_simps]
  show "c_Requires c \<noteq> []" "set (c_SignedOut c) \<inter> set (c_Redirects c) = {}"
    "c_SignInExchange c \<Longrightarrow> c_Kind c = KindPublic" "c_Kind c = KindConfidential \<Longrightarrow> c_Secret c \<noteq> []"
    "c_Kind c = KindExchange \<Longrightarrow> c_Redirects c = [] \<and> c_SignedOut c = []"
    using v by auto
  show "\<forall>n\<in>set (c_Requires c). has_key (p_Groups p) n \<and> \<not> wildcard_key n"
    using v by (intro bound_ok) simp
  show "c_Kind c \<in> {KindPublic, KindConfidential, KindExchange}"
    using v by (simp split: if_splits)
qed

lemma validated_resource:
  assumes "Policy_Validate parse p = None" and "map_of (p_Resources p) ident = Some r"
  shows "r_Requires r \<noteq> []" "\<forall>n\<in>set (r_Requires r). has_key (p_Groups p) n \<and> \<not> wildcard_key n"
    "0 \<le> r_AbsoluteCap r \<and> r_AbsoluteCap r \<le> MaxAbsoluteCap" "CHR ''#'' \<notin> set ident"
proof -
  note v = Validate_parts(9) [OF assms(1) assms(2), unfolded Resource_validate_def prod.case err_simps]
  show "r_Requires r \<noteq> []" "0 \<le> r_AbsoluteCap r \<and> r_AbsoluteCap r \<le> MaxAbsoluteCap"
    using v by auto
  show "\<forall>n\<in>set (r_Requires r). has_key (p_Groups p) n \<and> \<not> wildcard_key n"
    using v by (intro bound_ok) simp
  have "validateResourceID parse ident = None" using v by simp
  then show "CHR ''#'' \<notin> set ident"
    by (simp add: validateResourceID_def err_simps split: if_splits option.splits)
qed

lemma validated_key:
  assumes "Policy_Validate parse p = None" and "has_key (p_Groups p) name"
  obtains targets where "checkGroupKey (p_Vocabulary p) name = Inr targets" "targets \<noteq> []"
proof -
  obtain g where "map_of (p_Groups p) name = Some g" using assms(2) by auto
  then have "validate_group_key p (name, g) = None" using Validate_parts(3) [OF assms(1)] by blast
  then obtain targets where "checkGroupKey (p_Vocabulary p) name = Inr targets"
    by (auto simp: validate_group_key_def err_simps split: sum.splits)
  then show ?thesis using that checkGroupKey_not_Nil by blast
qed

text \<open>In a validated policy a proof that is in a key's group is granted something.\<close>

lemma validated_key_grants:
  assumes "Policy_Validate parse p = None" and "key \<in> matched_keys p inp"
  shows "res_Groups (Evaluate p inp) \<noteq> []"
proof -
  have "has_key (p_Groups p) key" using assms(2) by (simp add: matched_keys_def)
  then obtain targets where "checkGroupKey (p_Vocabulary p) key = Inr targets" "targets \<noteq> []"
    using validated_key assms(1) by blast
  then obtain g where "g \<in> set (groupKeyTargets (p_Vocabulary p) key)"
    by (cases targets) (auto simp: groupKeyTargets_def)
  then have "g \<in> direct_grants p inp" using assms(2) by (auto simp: direct_grants_def)
  then show ?thesis using direct_subset_held [of p inp] by auto
qed

text \<open>Every grant a validated policy gives fits its vocabulary, inherited ones included.\<close>

lemma direct_fits:
  assumes "Policy_Validate parse p = None" and "p_Vocabulary p = Some v"
    and "g \<in> direct_grants p inp" and "SplitGroup g = Some (s, t, r)"
  shows "fits v s t r = None"
proof -
  obtain key where key: "has_key (p_Groups p) key" "g \<in> set (groupKeyTargets (Some v) key)"
    using assms(2,3) by (auto simp: direct_grants_def matched_keys_def)
  show ?thesis
  proof (cases "wildcard_key key")
    case True
    obtain scope thing role where "g \<in> set (expand v scope thing role)"
      using groupKeyTargets_wildcard [OF key(2) True] by blast
    then obtain s' t' where "g = grant_name s' t' role" "fits v s' t' role = None"
      using expand_fits [of v g scope thing role] Validate_parts(2) [OF assms(1)] assms(2) by metis
    then show ?thesis using assms(4) SplitGroup_grant_name by metis
  next
    case False
    then have "g = key" using groupKeyTargets_concrete key(2) by blast
    moreover obtain targets where "checkGroupKey (Some v) key = Inr targets"
      using validated_key [OF assms(1) key(1)] assms(2) by metis
    ultimately show ?thesis
      using assms(4) False by (auto simp: checkGroupKey_def wildcard_key_def split: if_splits option.splits)
  qed
qed

lemma inherited_fits:
  assumes "Vocabulary_validate (Some v) = None" and "p_Vocabulary p = Some v"
    and "(d, g) \<in> (inherited_rel p)\<^sup>*"
    and "\<And>s t r. SplitGroup d = Some (s, t, r) \<Longrightarrow> fits v s t r = None"
    and "SplitGroup g = Some (s, t, r)"
  shows "fits v s t r = None"
  using assms(3,5)
proof (induction arbitrary: s t r rule: rtrancl_induct)
  case base
  then show ?case using assms(4) by blast
next
  case (step y z)
  then have "z \<in> set (implied_of v y)" using assms(2) by (simp add: inherited_rel_def implied_rel_def)
  then obtain scope thing role spec rs i where y: "SplitGroup y = Some (scope, thing, role)"
    "map_of (Things v) thing = Some spec" "map_of (Roles spec) role = Some rs" "i \<in> set (Implies rs)"
    "z = grant_name scope thing i"
    unfolding implied_of_iff by blast
  then have "s = scope" "t = thing" "r = i" using step.prems SplitGroup_grant_name by blast+
  then show ?case using fits_implied [OF assms(1) step.IH [OF y(1)] y(2,3,4)] by simp
qed

lemma held_fits:
  assumes "Policy_Validate parse p = None" and "p_Vocabulary p = Some v"
    and "g \<in> set (res_Groups (Evaluate p inp))" and "SplitGroup g = Some (s, t, r)"
  shows "fits v s t r = None"
proof -
  obtain d where d: "d \<in> direct_grants p inp" "(d, g) \<in> (inherited_rel p)\<^sup>*"
    using assms(3) unfolding Evaluate_Groups by blast
  have voc: "Vocabulary_validate (Some v) = None" using Validate_parts(2) [OF assms(1)] assms(2) by simp
  show ?thesis
    using inherited_fits [OF voc assms(2) d(2) _ assms(4)] direct_fits [OF assms(1,2) d(1)] by blast
qed

section \<open>People\<close>

text \<open>
  The owners a run of the check has recorded: who every address belongs to, and that an address
  already owned is not met again.
\<close>

definition owned :: "string table \<Rightarrow> string \<Rightarrow> string \<Rightarrow> bool" where
  "owned owner person address =
     (case normaliseAddress address of None \<Rightarrow> False | Some n \<Rightarrow> map_of owner n = Some person)"

lemma validate_address_ok:
  "validate_address person a owner = Inr owner' \<longleftrightarrow>
     (\<exists>n. normaliseAddress a = Some n \<and> map_of owner n = None \<and> owner' = tput n person owner)"
  by (auto simp: validate_address_def split: option.splits)

lemma validate_addresses_keep:
  assumes "fold_err (validate_address person) addresses owner = Inr owner'"
  shows "map_of owner \<subseteq>\<^sub>m map_of owner'"
proof (rule fold_err_invariant [OF assms])
  fix a s s' assume "map_of owner \<subseteq>\<^sub>m map_of s" and "validate_address person a s = Inr s'"
  then obtain n where "map_of s n = None" "s' = tput n person s" by (auto simp: validate_address_ok)
  then have "map_of s \<subseteq>\<^sub>m map_of s'" by (auto simp: map_le_def)
  then show "map_of owner \<subseteq>\<^sub>m map_of s'" using \<open>map_of owner \<subseteq>\<^sub>m map_of s\<close> map_le_trans by blast
qed simp

lemma validate_addresses_owned:
  assumes "fold_err (validate_address person) addresses owner = Inr owner'" and "a \<in> set addresses"
  shows "owned owner' person a"
  using assms
proof (induction addresses arbitrary: owner)
  case (Cons b addresses)
  obtain n where n: "normaliseAddress b = Some n" "map_of owner n = None"
    and rest: "fold_err (validate_address person) addresses (tput n person owner) = Inr owner'"
    using Cons.prems(1) by (auto split: sum.splits simp: validate_address_ok)
  have "map_of (tput n person owner) n = Some person" by simp
  then have "map_of owner' n = Some person"
    using validate_addresses_keep [OF rest] by (metis domI map_le_def)
  then show ?case using Cons.IH [OF rest] Cons.prems(2) n(1) by (auto simp: owned_def)
qed simp

lemma validate_people_owned:
  assumes "fold_err validate_person people owner = Inr owner'"
  shows "map_of owner \<subseteq>\<^sub>m map_of owner' \<and> (\<forall>(q, as)\<in>set people. \<forall>a\<in>set as. owned owner' q a)"
  using assms
proof (induction people arbitrary: owner)
  case (Cons pa people)
  obtain q as where pa: "pa = (q, as)" by (cases pa)
  obtain mid where mid: "fold_err (validate_address q) as owner = Inr mid"
    and rest: "fold_err validate_person people mid = Inr owner'"
    using Cons.prems pa by (auto simp: validate_person_def [of "(q, as)"] split: sum.splits if_splits)
  note IH = Cons.IH [OF rest]
  have "owned owner' q a" if "a \<in> set as" for a
    using validate_addresses_owned [OF mid that] IH
    by (auto simp: owned_def map_le_def split: option.splits) (metis domI)
  moreover have "map_of owner \<subseteq>\<^sub>m map_of owner'"
    using validate_addresses_keep [OF mid] IH map_le_trans by blast
  ultimately show ?case using IH pa by auto
qed simp

text \<open>In a validated policy no address belongs to two people.\<close>

lemma validated_people:
  assumes "Policy_Validate parse p = None"
    and "map_of (p_People p) q = Some as" "a \<in> set as" and "map_of (p_People p) q' = Some bs" "b \<in> set bs"
    and "normaliseAddress a = normaliseAddress b"
  shows "q = q'" "normaliseAddress a \<noteq> None"
proof -
  obtain owner where "fold_err validate_person (sorted_entries (p_People p)) [] = Inr owner"
    using Validate_parts(6) [OF assms(1)] by (auto simp: validatePeople_def err_simps)
  from validate_people_owned [OF this] have "owned owner q a" "owned owner q' b"
    using map_of_sorted_entries assms(2-5) by fastforce+
  then show "q = q'" "normaliseAddress a \<noteq> None"
    using assms(6) by (auto simp: owned_def split: option.splits)
qed

end
