(* ===== verification/Load.thy ===== *)
theory Load
  imports Validate
begin

text \<open>
  How a policy is put together: the merge of the files of a policy directory (\<open>mergeLayer\<close>,
  \<open>mergeTable\<close> in \<open>src/policy/set.go\<close> and \<open>mergeSlack\<close> in \<open>src/policy/slack.go\<close>), and the reading
  of an access document into the same tables (\<open>src/policy/access.go\<close>). Reading files and decoding
  YAML are left out: a layer arrives as a decoded \<open>Policy\<close> or \<open>AccessDocument\<close>. The lemmas say that a
  merge that succeeds is the disjoint union of the tables and that one declared twice is refused.
\<close>

section \<open>Merging the layers of a directory\<close>

definition merge_entry :: "(string \<Rightarrow> 'e) \<Rightarrow> string \<times> 'v \<Rightarrow> 'v table \<Rightarrow> 'e + 'v table" where
  "merge_entry clash kv into =
     (case kv of (key, v) \<Rightarrow> if has_key into key then Inl (clash key) else Inr (tput key v into))"

definition mergeTable :: "'v table \<Rightarrow> 'v table \<Rightarrow> (string \<Rightarrow> 'e) \<Rightarrow> 'e + 'v table" where
  "mergeTable into from clash = fold_err (merge_entry clash) (sorted_entries from) into"

datatype merge_layer_err =
    LayerVersion int
  | VocabularyTwice
  | DocumentsTwice
  | GroupTwice string
  | ClaimsTwice string
  | LifetimeTwice string
  | ResourceTwice string
  | ClientTwice string
  | OrgMembersTwice string
  | TeamTwice string string
  | PersonDeclaredTwice string
  | ChannelTwice string string

abbreviation bind_err :: "'e + 'a \<Rightarrow> ('a \<Rightarrow> 'e + 'b) \<Rightarrow> 'e + 'b" where
  "bind_err r f \<equiv> (case r of Inl e \<Rightarrow> Inl e | Inr x \<Rightarrow> f x)"

definition add_ignored :: "string list \<Rightarrow> string list \<Rightarrow> string list" where
  "add_ignored incoming into = fold (\<lambda>entry out. if entry \<in> set out then out else out @ [entry]) incoming into"

definition merge_org :: "string \<times> GitHubOrg \<Rightarrow> GitHubOrg table \<Rightarrow> merge_layer_err + GitHubOrg table" where
  "merge_org oi orgs =
     (case oi of (org, incoming) \<Rightarrow>
        let into = tget no_GitHubOrg orgs org
        in if go_Members incoming \<noteq> [] \<and> go_Members into \<noteq> [] then Inl (OrgMembersTwice org)
           else bind_err (mergeTable (go_Teams into) (go_Teams incoming) (TeamTwice org))
             (\<lambda>teams. Inr (tput org
                \<lparr>go_Members = (if go_Members incoming \<noteq> [] then go_Members incoming else go_Members into),
                 go_Teams = teams, go_Ignore = add_ignored (go_Ignore incoming) (go_Ignore into)\<rparr> orgs)))"

definition merge_workspace ::
  "string \<times> SlackWorkspace \<Rightarrow> SlackWorkspace table \<Rightarrow> merge_layer_err + SlackWorkspace table" where
  "merge_workspace kw wss =
     (case kw of (key, incoming) \<Rightarrow>
        bind_err (mergeTable (sw_Channels (tget \<lparr>sw_Channels = []\<rparr> wss key)) (sw_Channels incoming) (ChannelTwice key))
          (\<lambda>channels. Inr (tput key \<lparr>sw_Channels = channels\<rparr> wss)))"

definition mergeSlack :: "Slack \<Rightarrow> Slack \<Rightarrow> merge_layer_err + Slack" where
  "mergeSlack into other =
     bind_err (fold_err merge_workspace (sorted_entries (sl_Workspaces other)) (sl_Workspaces into))
       (\<lambda>wss. Inr \<lparr>sl_Workspaces = wss\<rparr>)"

definition mergeLayer :: "Policy \<Rightarrow> Policy \<Rightarrow> merge_layer_err + Policy" where
  "mergeLayer p other =
     (if p_Version other \<noteq> 1 then Inl (LayerVersion (p_Version other))
      else if p_Vocabulary other \<noteq> None \<and> p_Vocabulary p \<noteq> None then Inl VocabularyTwice
      else if p_ClientDocuments other \<noteq> no_ClientDocuments \<and> p_ClientDocuments p \<noteq> no_ClientDocuments
           then Inl DocumentsTwice
      else bind_err (mergeTable (p_Groups p) (p_Groups other) GroupTwice) (\<lambda>gs.
           bind_err (mergeTable (p_Claims p) (p_Claims other) ClaimsTwice) (\<lambda>cs.
           bind_err (mergeTable (p_Lifetimes p) (p_Lifetimes other) LifetimeTwice) (\<lambda>ls.
           bind_err (mergeTable (p_Resources p) (p_Resources other) ResourceTwice) (\<lambda>rs.
           bind_err (mergeTable (p_Clients p) (p_Clients other) ClientTwice) (\<lambda>cls.
           bind_err (fold_err merge_org (sorted_entries (p_GitHub other)) (p_GitHub p)) (\<lambda>orgs.
           bind_err (mergeTable (p_People p) (p_People other) PersonDeclaredTwice) (\<lambda>ps.
           bind_err (mergeSlack (p_Slack p) (p_Slack other)) (\<lambda>sl.
             Inr \<lparr>p_Version = p_Version p,
                  p_Vocabulary = (if p_Vocabulary other \<noteq> None then p_Vocabulary other else p_Vocabulary p),
                  p_Groups = gs, p_Claims = cs, p_Lifetimes = ls, p_Resources = rs,
                  p_ClientDocuments = (if p_ClientDocuments other \<noteq> no_ClientDocuments
                    then p_ClientDocuments other else p_ClientDocuments p),
                  p_Clients = cls, p_GitHub = orgs, p_People = ps, p_Slack = sl\<rparr>)))))))))"

text \<open>The layers of a directory in the order the directory lists them; at least one is needed.\<close>

datatype load_err = NoYAML string | BadLayer merge_layer_err

definition LoadLayers :: "string \<Rightarrow> Policy list \<Rightarrow> load_err + Policy" where
  "LoadLayers path layers =
     (if layers = [] then Inl (NoYAML path)
      else case fold_err (\<lambda>layer out. mergeLayer out layer) layers (no_Policy\<lparr>p_Version := 1\<rparr>) of
        Inl e \<Rightarrow> Inl (BadLayer e) | Inr p \<Rightarrow> Inr p)"

section \<open>Access documents\<close>

text \<open>
  The fields of \<open>AccessClient\<close> only the deployment reads (\<open>secretKey\<close>, \<open>hostname\<close>, \<open>prefix\<close>, \<open>mount\<close>,
  \<open>cluster\<close>, \<open>proxy\<close>, \<open>deliver\<close>) reach no table and are left out.
\<close>

record AccessGitHubJob =
  aj_Repository :: string
  aj_Owner :: string
  aj_Visibility :: string
  aj_Ref :: string
  aj_RefType :: string
  aj_EventName :: string
  aj_WorkflowRef :: string
  aj_JobWorkflowRef :: string

record AccessAWSRole =
  aa_Account :: string
  aa_Role :: string
  aa_Path :: string

record AccessGroup =
  ag_Name :: string
  ag_Members :: "string list"
  ag_Emails :: "string list"
  ag_GitHub :: "AccessGitHubJob list"
  ag_ServiceAccounts :: "ServiceAccountMatcher list"
  ag_AWS :: "AccessAWSRole list"

record AccessPerson =
  ap_Name :: string
  ap_Addresses :: "string list"

record AccessSlackChannel =
  ac_Name :: string
  ac_Private :: bool
  ac_Mode :: string
  ac_Adopt :: string
  ac_Ignore :: "string list"
  ac_From :: "string list"

record AccessWorkspace =
  aw_Workspace :: string
  aw_Channels :: "AccessSlackChannel list"

record AccessGitHubTeam =
  at_Slug :: string
  at_Members :: "string list"
  at_Maintainers :: "string list"

record AccessOrg =
  ao_Org :: string
  ao_Members :: "string list"
  ao_Teams :: "AccessGitHubTeam list"
  ao_Ignore :: "string list"

record AccessRole =
  ar_Name :: string
  ar_Scopes :: "string list option"
  ar_Implies :: "string list"

record AccessThing =
  ath_Name :: string
  ath_Scopes :: "string list"
  ath_Roles :: "AccessRole list"

record AccessScope =
  as_Name :: string
  as_Sensitive :: bool

record AccessVocabulary =
  av_Scopes :: "AccessScope list"
  av_Things :: "AccessThing list"

record AccessClient =
  acl_Name :: string
  acl_Kind :: string
  acl_DisplayName :: string
  acl_Description :: string
  acl_Secret :: string
  acl_Redirects :: "string list"
  acl_SignedOut :: "string list"
  acl_BackchannelLogout :: string
  acl_TTLCap :: int
  acl_SigningAlg :: string
  acl_GroupsDelimiter :: string
  acl_SignInExchange :: bool
  acl_Requires :: "string list"
  acl_Groups :: GroupsOverride

record AccessClientDocuments =
  acd_Origins :: "string list option"
  acd_Requires :: "string list option"
  acd_TTLCap :: int
  acd_Groups :: GroupsOverride

record AccessResource =
  are_ID :: string
  are_DisplayName :: string
  are_Description :: string
  are_Requires :: "string list"
  are_TTLCap :: int
  are_AbsoluteCap :: int
  are_ReadOnly :: bool
  are_SigningAlg :: string
  are_GroupsDelimiter :: string
  are_Groups :: GroupsOverride

record Access =
  acc_Lifetimes :: "int table"
  acc_Groups :: "AccessGroup list"
  acc_People :: "AccessPerson list"
  acc_Slack :: "AccessWorkspace list"
  acc_GitHub :: "AccessOrg list"
  acc_Vocabulary :: "AccessVocabulary option"
  acc_Clients :: "AccessClient list"
  acc_ClientDocuments :: "AccessClientDocuments option"
  acc_Resources :: "AccessResource list"

record AccessDocument =
  doc_Version :: int
  doc_Access :: Access
  doc_OverlayGroups :: "Matcher list table"
  doc_OverlayClients :: "Client table"

datatype access_err =
    AccGroupTwice string
  | AccPersonTwice string
  | AccWorkspaceTwice string
  | AccChannelTwice string string
  | AccOrgTwice string
  | AccTeamTwice string string
  | AccScopeTwice string
  | AccThingTwice string
  | AccRoleTwice string string
  | AccClientNoName
  | AccClientTwice string
  | AccResourceTwice string
  | OverlayClientTwice string

text \<open>
  The loop every list of the document goes through: an entry under a name seen before is an error,
  any other is converted and stored under its name.
\<close>

definition add_named :: "('a \<Rightarrow> string) \<Rightarrow> ('a \<Rightarrow> 'e + 'v) \<Rightarrow> (string \<Rightarrow> 'e) \<Rightarrow> 'a \<Rightarrow> 'v table \<Rightarrow> 'e + 'v table" where
  "add_named name conv twice x out =
     (if has_key out (name x) then Inl (twice (name x))
      else bind_err (conv x) (\<lambda>v. Inr (tput (name x) v out)))"

definition collect :: "('a \<Rightarrow> string) \<Rightarrow> ('a \<Rightarrow> 'e + 'v) \<Rightarrow> (string \<Rightarrow> 'e) \<Rightarrow> 'a list \<Rightarrow> 'e + 'v table" where
  "collect name conv twice xs = fold_err (add_named name conv twice) xs []"

definition access_matchers :: "AccessGroup \<Rightarrow> Matcher list" where
  "access_matchers g =
     map (\<lambda>email. no_Matcher\<lparr>m_Email := email\<rparr>) (ag_Emails g)
     @ map (\<lambda>j. no_Matcher\<lparr>m_GitHub := Some (no_GitHubMatcher\<lparr>gm_Repository := aj_Repository j,
          gm_Owner := aj_Owner j, gm_Visibility := aj_Visibility j, gm_Ref := aj_Ref j,
          gm_RefType := aj_RefType j, gm_EventName := aj_EventName j, gm_WorkflowRef := aj_WorkflowRef j,
          gm_JobWorkflowRef := aj_JobWorkflowRef j\<rparr>)\<rparr>) (ag_GitHub g)
     @ map (\<lambda>s. no_Matcher\<lparr>m_ServiceAccount := Some s\<rparr>) (ag_ServiceAccounts g)
     @ map (\<lambda>r. no_Matcher\<lparr>m_AWS := Some \<lparr>am_Account = aa_Account r, am_Role = aa_Role r,
          am_Path = aa_Path r, am_Function = [], am_OrgID = []\<rparr>\<rparr>) (ag_AWS g)"

definition Access_groups :: "Access \<Rightarrow> access_err + Group table" where
  "Access_groups a =
     collect ag_Name (\<lambda>g. Inr \<lparr>g_Members = ag_Members g, g_Matchers = access_matchers g\<rparr>) AccGroupTwice (acc_Groups a)"

definition channel_of :: "AccessSlackChannel \<Rightarrow> SlackChannel" where
  "channel_of c = \<lparr>sc_Private = ac_Private c, sc_Mode = ac_Mode c, sc_Ignore = ac_Ignore c,
     sc_From = ac_From c, sc_Adopt = ac_Adopt c\<rparr>"

definition Access_slack :: "Access \<Rightarrow> access_err + Slack" where
  "Access_slack a =
     bind_err (collect aw_Workspace
        (\<lambda>w. bind_err (collect ac_Name (Inr \<circ> channel_of) (AccChannelTwice (aw_Workspace w)) (aw_Channels w))
          (\<lambda>cs. Inr \<lparr>sw_Channels = cs\<rparr>))
        AccWorkspaceTwice (acc_Slack a))
       (\<lambda>wss. Inr \<lparr>sl_Workspaces = wss\<rparr>)"

definition Access_github :: "Access \<Rightarrow> access_err + GitHubOrg table" where
  "Access_github a =
     collect ao_Org
       (\<lambda>o'. bind_err (collect at_Slug (\<lambda>t. Inr \<lparr>gt_Members = at_Members t, gt_Maintainers = at_Maintainers t\<rparr>) (AccTeamTwice (ao_Org o')) (ao_Teams o'))
         (\<lambda>ts. Inr \<lparr>go_Members = ao_Members o', go_Teams = ts, go_Ignore = ao_Ignore o'\<rparr>))
       AccOrgTwice (acc_GitHub a)"

definition AccessVocabulary_vocabulary :: "AccessVocabulary option \<Rightarrow> access_err + Vocab option" where
  "AccessVocabulary_vocabulary vo =
     (case vo of None \<Rightarrow> Inr None
      | Some v \<Rightarrow>
          bind_err (collect as_Name (\<lambda>s. Inr \<lparr>Sensitive = as_Sensitive s\<rparr>) AccScopeTwice (av_Scopes v)) (\<lambda>scopes.
          bind_err (collect ath_Name
             (\<lambda>t. bind_err (collect ar_Name (\<lambda>r. Inr \<lparr>Implies = ar_Implies r, role_Scopes = ar_Scopes r\<rparr>) (AccRoleTwice (ath_Name t)) (ath_Roles t))
               (\<lambda>roles. Inr \<lparr>thing_Scopes = ath_Scopes t, Roles = roles\<rparr>))
             AccThingTwice (av_Things v)) (\<lambda>things.
          Inr (Some \<lparr>Scopes = scopes, Things = things\<rparr>))))"

definition client_of :: "AccessClient \<Rightarrow> Client" where
  "client_of c =
     \<lparr>c_Kind = acl_Kind c, c_DisplayName = acl_DisplayName c, c_Description = acl_Description c,
      c_Secret = acl_Secret c, c_Redirects = acl_Redirects c, c_SignedOut = acl_SignedOut c,
      c_Requires = acl_Requires c, c_TTLCap = acl_TTLCap c, c_SignInExchange = acl_SignInExchange c,
      c_BackChannelLogout = acl_BackchannelLogout c, c_SigningAlg = acl_SigningAlg c,
      c_Groups = acl_Groups c, c_GroupsDelimiter = acl_GroupsDelimiter c\<rparr>"

text \<open>A client without a name is refused before its name is looked up.\<close>

definition add_client :: "AccessClient \<Rightarrow> Client table \<Rightarrow> access_err + Client table" where
  "add_client c out =
     (if acl_Name c = [] then Inl AccClientNoName
      else add_named acl_Name (Inr \<circ> client_of) AccClientTwice c out)"

definition Access_clients :: "Access \<Rightarrow> access_err + Client table" where
  "Access_clients a = fold_err add_client (acc_Clients a) []"

definition resource_of :: "AccessResource \<Rightarrow> Resource" where
  "resource_of r =
     \<lparr>r_DisplayName = are_DisplayName r, r_Description = are_Description r, r_Requires = are_Requires r,
      r_TTLCap = are_TTLCap r, r_AbsoluteCap = are_AbsoluteCap r, r_ReadOnly = are_ReadOnly r,
      r_SigningAlg = are_SigningAlg r, r_Groups = are_Groups r, r_GroupsDelimiter = are_GroupsDelimiter r\<rparr>"

definition documents_of :: "AccessClientDocuments \<Rightarrow> ClientDocuments" where
  "documents_of d =
     \<lparr>cd_Origins = acd_Origins d, cd_Requires = acd_Requires d, cd_TTLCap = acd_TTLCap d, cd_Groups = acd_Groups d\<rparr>"

definition Access_policy :: "Access \<Rightarrow> access_err + Policy" where
  "Access_policy a =
     bind_err (Access_groups a) (\<lambda>gs.
     bind_err (collect ap_Name (\<lambda>q. Inr (ap_Addresses q)) AccPersonTwice (acc_People a)) (\<lambda>ps.
     bind_err (Access_slack a) (\<lambda>sl.
     bind_err (Access_github a) (\<lambda>orgs.
     bind_err (AccessVocabulary_vocabulary (acc_Vocabulary a)) (\<lambda>voc.
     bind_err (Access_clients a) (\<lambda>cls.
     bind_err (collect are_ID (Inr \<circ> resource_of) AccResourceTwice (acc_Resources a)) (\<lambda>rs.
       Inr (no_Policy\<lparr>p_Lifetimes := acc_Lifetimes a, p_Groups := gs, p_People := ps, p_Slack := sl,
         p_GitHub := orgs, p_Vocabulary := voc, p_Clients := cls,
         p_ClientDocuments := (case acc_ClientDocuments a of None \<Rightarrow> no_ClientDocuments | Some cd \<Rightarrow> documents_of cd),
         p_Resources := rs\<rparr>))))))))"

definition overlay_group :: "string \<times> Matcher list \<Rightarrow> Group table \<Rightarrow> Group table" where
  "overlay_group nm groups =
     (case nm of (name, ms) \<Rightarrow>
        let g = tget no_Group groups name
        in tput name (g\<lparr>g_Matchers := g_Matchers g @ ms\<rparr>) groups)"

definition AccessDocument_Policy :: "AccessDocument \<Rightarrow> access_err + Policy" where
  "AccessDocument_Policy d =
     bind_err (Access_policy (doc_Access d)) (\<lambda>out.
     bind_err (mergeTable (p_Clients out) (doc_OverlayClients d) OverlayClientTwice) (\<lambda>cls.
       Inr (out\<lparr>p_Version := doc_Version d,
         p_Groups := fold overlay_group (sorted_entries (doc_OverlayGroups d)) (p_Groups out),
         p_Clients := cls\<rparr>)))"

text \<open>A document that states no version is of version one.\<close>

definition ParseAccess_document :: "AccessDocument \<Rightarrow> access_err + Policy" where
  "ParseAccess_document d =
     AccessDocument_Policy (if doc_Version d = 0 then d\<lparr>doc_Version := 1\<rparr> else d)"

section \<open>What a merge does\<close>

lemma merge_entry_simps [simp]:
  "k \<in> dom (map_of into) \<Longrightarrow> merge_entry clash (k, v) into = Inl (clash k)"
  "k \<notin> dom (map_of into) \<Longrightarrow> merge_entry clash (k, v) into = Inr (tput k v into)"
  by (simp_all add: merge_entry_def del: domIff)

lemma merge_entries_ok:
  assumes "fold_err (merge_entry clash) es into = Inr out" and "distinct (map fst es)"
  shows "map_of out = map_of into ++ map_of es \<and> dom (map_of into) \<inter> fst ` set es = {}"
  using assms
proof (induction es arbitrary: into)
  case (Cons e es)
  obtain k v where e: "e = (k, v)" by (cases e)
  have fresh: "k \<notin> dom (map_of into)" and rest: "fold_err (merge_entry clash) es (tput k v into) = Inr out"
    using Cons.prems(1) e by (cases "k \<in> dom (map_of into)"; simp del: domIff)+
  have k: "k \<notin> fst ` set es" using Cons.prems(2) e by auto
  then have "map_of es k = None" by (simp add: map_of_eq_None_iff)
  then have eq: "map_of (tput k v into) ++ map_of es = map_of into ++ map_of (e # es)"
    using e by (auto simp: map_add_def split: option.splits)
  have "distinct (map fst es)" using Cons.prems(2) by simp
  note IH = Cons.IH [OF rest this]
  have "dom (map_of (tput k v into)) = insert k (dom (map_of into))" by simp
  then have "dom (map_of into) \<inter> fst ` set (e # es) = {}"
    using conjunct2 [OF IH] fresh e by (simp only: list.set image_insert fst_conv) blast
  then show ?case using conjunct1 [OF IH] eq by (simp only:)
qed simp

lemma sorted_entries_fst: "map fst (sorted_entries m) = tkeys m"
  by (simp add: sorted_entries_def comp_def)

lemma map_of_sorted_entries_eq: "map_of (sorted_entries m) = map_of m"
proof
  fix k
  show "map_of (sorted_entries m) k = map_of m k"
  proof (cases "k \<in> dom (map_of m)")
    case True
    then have "(k, the (map_of m k)) \<in> set (sorted_entries m)" by (auto simp: sorted_entries_def)
    moreover have "distinct (map fst (sorted_entries m))" by (simp add: sorted_entries_fst)
    ultimately show ?thesis using True by (auto simp: map_of_eq_Some_iff)
  next
    case False
    then have "k \<notin> fst ` set (sorted_entries m)"
      using sorted_entries_fst [of m] by (metis set_map set_tkeys)
    then show ?thesis using False by (metis domIff map_of_eq_None_iff)
  qed
qed

lemma mergeTable_ok:
  assumes "mergeTable into from clash = Inr out"
  shows "map_of out = map_of into ++ map_of from" "dom (map_of into) \<inter> dom (map_of from) = {}"
proof -
  have d: "distinct (map fst (sorted_entries from))" by (simp add: sorted_entries_fst)
  have keys: "fst ` set (sorted_entries from) = dom (map_of from)"
    using sorted_entries_fst [of "from"] by (metis set_map set_tkeys)
  show "map_of out = map_of into ++ map_of from" "dom (map_of into) \<inter> dom (map_of from) = {}"
    using merge_entries_ok [OF assms [unfolded mergeTable_def] d] keys
    by (simp_all add: map_of_sorted_entries_eq)
qed

lemma merge_entries_err:
  assumes "fold_err (merge_entry clash) es into = Inl e" and "distinct (map fst es)"
  shows "\<exists>k \<in> dom (map_of into) \<inter> fst ` set es. e = clash k"
  using assms
proof (induction es arbitrary: into)
  case (Cons x es)
  obtain k v where x: "x = (k, v)" by (cases x)
  show ?case
  proof (cases "k \<in> dom (map_of into)")
    case True
    then show ?thesis using Cons.prems(1) x by auto
  next
    case False
    then have "fold_err (merge_entry clash) es (tput k v into) = Inl e"
      using Cons.prems(1) x by simp
    from Cons.IH [OF this] Cons.prems(2) x show ?thesis by force
  qed
qed simp

lemma mergeTable_err:
  assumes "mergeTable into from clash = Inl e"
  shows "\<exists>k \<in> dom (map_of into) \<inter> dom (map_of from). e = clash k"
proof -
  have d: "distinct (map fst (sorted_entries from))" by (simp add: sorted_entries_fst)
  have keys: "fst ` set (sorted_entries from) = dom (map_of from)"
    using sorted_entries_fst [of "from"] by (metis set_map set_tkeys)
  show ?thesis using merge_entries_err [OF assms [unfolded mergeTable_def] d] keys by simp
qed

text \<open>A merge succeeds exactly when no name is declared on both sides.\<close>

lemma mergeTable_iff:
  "(\<exists>out. mergeTable into from clash = Inr out) \<longleftrightarrow> dom (map_of into) \<inter> dom (map_of from) = {}"
  using mergeTable_ok(2) mergeTable_err [of into "from" clash]
  by (cases "mergeTable into from clash") fastforce+

lemma mergeLayer_tables:
  assumes "mergeLayer p other = Inr out"
  shows "map_of (p_Groups out) = map_of (p_Groups p) ++ map_of (p_Groups other)"
    "map_of (p_Claims out) = map_of (p_Claims p) ++ map_of (p_Claims other)"
    "map_of (p_Lifetimes out) = map_of (p_Lifetimes p) ++ map_of (p_Lifetimes other)"
    "map_of (p_Resources out) = map_of (p_Resources p) ++ map_of (p_Resources other)"
    "map_of (p_Clients out) = map_of (p_Clients p) ++ map_of (p_Clients other)"
    "map_of (p_People out) = map_of (p_People p) ++ map_of (p_People other)"
    "p_Version out = p_Version p"
  using assms by (auto simp: mergeLayer_def mergeTable_ok(1) split: if_splits sum.splits)

lemma mergeLayer_disjoint:
  assumes "mergeLayer p other = Inr out"
  shows "dom (map_of (p_Groups p)) \<inter> dom (map_of (p_Groups other)) = {}"
    "dom (map_of (p_Clients p)) \<inter> dom (map_of (p_Clients other)) = {}"
  using assms by (auto simp: mergeLayer_def split: if_splits sum.splits dest!: mergeTable_ok(2))

end
