(* ===== verification/Lint.thy ===== *)
theory Lint
  imports Validate
begin

text \<open>
  The warnings \<open>src/policy/policy.go\<close> gives about a policy that loads: \<open>UnconventionalGroups\<close> and
  \<open>Unconsumed\<close>, and the read-only views of a loaded set in \<open>src/policy/set.go\<close> and
  \<open>src/policy/slack_team.go\<close>. The lemma on \<open>Unconsumed\<close> gives its set exactly: a reported key is one
  none of whose grants any consumer names.
\<close>

section \<open>Warnings\<close>

definition UnconventionalGroups :: "Policy \<Rightarrow> string list" where
  "UnconventionalGroups p = filter (\<lambda>name. \<not> conventional name) (tkeys (p_Groups p))"

text \<open>The names consumers state outright, in the order of the code's loops.\<close>

definition named_by_clients :: "Policy \<Rightarrow> string list" where
  "named_by_clients p =
     concat (map (c_Requires \<circ> snd) (sorted_entries (p_Clients p)))
     @ concat (map (r_Requires \<circ> snd) (sorted_entries (p_Resources p)))
     @ elems (cd_Requires (p_ClientDocuments p))"

definition named_by_github :: "Policy \<Rightarrow> string list" where
  "named_by_github p =
     concat (map (\<lambda>(org, b). go_Members b
       @ concat (map (\<lambda>(team, t). gt_Members t @ gt_Maintainers t) (sorted_entries (go_Teams b))))
       (sorted_entries (p_GitHub p)))"

definition named_by_slack :: "Policy \<Rightarrow> string list" where
  "named_by_slack p =
     concat (map (\<lambda>(key, ws). concat (map (sc_From \<circ> snd) (sorted_entries (sw_Channels ws))))
       (sorted_entries (sl_Workspaces (p_Slack p))))"

definition kept_by_override :: "Policy \<Rightarrow> string \<Rightarrow> bool" where
  "kept_by_override p target =
     (groupsOverrideKeeps target [] (cd_Groups (p_ClientDocuments p))
      \<or> list_ex (\<lambda>(ident, c). groupsOverrideKeeps target [] (c_Groups c)) (sorted_entries (p_Clients p))
      \<or> list_ex (\<lambda>(ident, r). groupsOverrideKeeps target [] (r_Groups r)) (sorted_entries (p_Resources p)))"

definition hub_role :: "string \<Rightarrow> bool" where
  "hub_role target =
     (case SplitGroup target of None \<Rightarrow> False
      | Some (scope, thing, role) \<Rightarrow> thing = ThingSelf \<and> role \<in> {RoleOperator, RoleViewer})"

definition consumed :: "Policy \<Rightarrow> string list \<Rightarrow> string list" where
  "consumed p catalogueGroups =
     named_by_clients p
     @ filter (kept_by_override p) (table_targets p)
     @ named_by_github p @ named_by_slack p
     @ filter hub_role (table_targets p)
     @ catalogueGroups"

definition Unconsumed :: "Policy \<Rightarrow> string list \<Rightarrow> string list" where
  "Unconsumed p catalogueGroups =
     (let used = consumed p catalogueGroups
      in filter (\<lambda>name. \<not> in_family name
             \<and> \<not> list_ex (\<lambda>target. target \<in> set used) (groupKeyTargets (p_Vocabulary p) name))
           (tkeys (p_Groups p)))"

section \<open>Views of a loaded set\<close>

text \<open>\<open>NewSet\<close>: only a policy that validates becomes a set.\<close>

definition NewSet :: "url_parser \<Rightarrow> Policy \<Rightarrow> policy_err + Policy" where
  "NewSet parse declared = (case Policy_Validate parse declared of Some e \<Rightarrow> Inl e | None \<Rightarrow> Inr declared)"

record GroupView =
  gv_Name :: string
  gv_Members :: "string list"
  gv_Matchers :: "string list"
  gv_Rules :: "(string \<times> string) list"
  gv_Claims :: fragment
  gv_Lifetime :: int

definition Set_Groups :: "Policy \<Rightarrow> GroupView list" where
  "Set_Groups p =
     map (\<lambda>(name, g). \<lparr>gv_Name = name, gv_Members = g_Members g,
          gv_Matchers = map Matcher_Describe (g_Matchers g),
          gv_Rules = map (\<lambda>m. (Matcher_Kind m, Matcher_Rule m)) (g_Matchers g),
          gv_Claims = tget [] (p_Claims p) name, gv_Lifetime = lifetimeOf p [name]\<rparr>)
       (sorted_entries (p_Groups p))"

record TeamView =
  tv_Org :: string
  tv_Team :: string
  tv_Members :: "string list"
  tv_Maintainers :: "string list"

definition Set_GitHubTeams :: "Policy \<Rightarrow> TeamView list" where
  "Set_GitHubTeams p =
     concat (map (\<lambda>(org, b). map (\<lambda>(team, t). \<lparr>tv_Org = org, tv_Team = team, tv_Members = gt_Members t,
         tv_Maintainers = gt_Maintainers t\<rparr>) (sorted_entries (go_Teams b))) (sorted_entries (p_GitHub p)))"

record OrgView =
  ov_Org :: string
  ov_Members :: "string list"
  ov_Ignore :: "string list"

definition Set_GitHubOrgs :: "Policy \<Rightarrow> OrgView list" where
  "Set_GitHubOrgs p =
     map (\<lambda>(org, b). \<lparr>ov_Org = org, ov_Members = go_Members b, ov_Ignore = go_Ignore b\<rparr>)
       (filter (\<lambda>(org, b). \<not> (go_Members b = [] \<and> go_Ignore b = [])) (sorted_entries (p_GitHub p)))"

definition Set_HasGroup :: "Policy \<Rightarrow> string \<Rightarrow> bool" where
  "Set_HasGroup p name = has_key (p_Groups p) name"

definition Set_EffectiveAbsolute :: "Policy \<Rightarrow> int \<Rightarrow> string list \<Rightarrow> int" where
  "Set_EffectiveAbsolute p global touched = EffectiveAbsolute global touched (Some (map_of (p_Resources p)))"

definition SlackWorkspaceDeclared :: "Policy \<Rightarrow> string \<Rightarrow> bool" where
  "SlackWorkspaceDeclared p key = has_key (sl_Workspaces (p_Slack p)) key"

definition SlackWorkspaceKeys :: "Policy \<Rightarrow> string list" where
  "SlackWorkspaceKeys p = tkeys (sl_Workspaces (p_Slack p))"

section \<open>What the warning reports\<close>

text \<open>A consumer of a name, stated over the tables themselves.\<close>

definition consumes :: "Policy \<Rightarrow> string \<Rightarrow> bool" where
  "consumes p g \<longleftrightarrow>
     (\<exists>ident c. map_of (p_Clients p) ident = Some c \<and> (g \<in> set (c_Requires c) \<or> groupsOverrideKeeps g [] (c_Groups c)))
     \<or> (\<exists>ident r. map_of (p_Resources p) ident = Some r \<and> (g \<in> set (r_Requires r) \<or> groupsOverrideKeeps g [] (r_Groups r)))
     \<or> g \<in> set (elems (cd_Requires (p_ClientDocuments p)))
     \<or> groupsOverrideKeeps g [] (cd_Groups (p_ClientDocuments p))
     \<or> (\<exists>org b. map_of (p_GitHub p) org = Some b \<and> (g \<in> set (go_Members b)
          \<or> (\<exists>team t. map_of (go_Teams b) team = Some t \<and> g \<in> set (gt_Members t) \<union> set (gt_Maintainers t))))
     \<or> (\<exists>key ws. map_of (sl_Workspaces (p_Slack p)) key = Some ws
          \<and> (\<exists>name c. map_of (sw_Channels ws) name = Some c \<and> g \<in> set (sc_From c)))
     \<or> hub_role g"

lemma sorted_entries_iff: "(k, v) \<in> set (sorted_entries m) \<longleftrightarrow> map_of m k = Some v"
  using map_of_sorted_entries sorted_entries_map_of by metis

lemma set_table_targets:
  "set (table_targets p) = (\<Union>name\<in>dom (map_of (p_Groups p)). set (groupKeyTargets (p_Vocabulary p) name))"
  by (simp add: table_targets_def)

lemma named_by_clients_iff:
  "g \<in> set (named_by_clients p) \<longleftrightarrow>
     (\<exists>ident c. map_of (p_Clients p) ident = Some c \<and> g \<in> set (c_Requires c))
     \<or> (\<exists>ident r. map_of (p_Resources p) ident = Some r \<and> g \<in> set (r_Requires r))
     \<or> g \<in> set (elems (cd_Requires (p_ClientDocuments p)))"
  by (auto simp: named_by_clients_def Bex_def sorted_entries_iff)

lemma named_by_github_iff:
  "g \<in> set (named_by_github p) \<longleftrightarrow>
     (\<exists>org b. map_of (p_GitHub p) org = Some b \<and> (g \<in> set (go_Members b)
          \<or> (\<exists>team t. map_of (go_Teams b) team = Some t \<and> g \<in> set (gt_Members t) \<union> set (gt_Maintainers t))))"
  by (auto simp: named_by_github_def Bex_def sorted_entries_iff)

lemma named_by_slack_iff:
  "g \<in> set (named_by_slack p) \<longleftrightarrow>
     (\<exists>key ws. map_of (sl_Workspaces (p_Slack p)) key = Some ws
          \<and> (\<exists>name c. map_of (sw_Channels ws) name = Some c \<and> g \<in> set (sc_From c)))"
  by (auto simp: named_by_slack_def Bex_def sorted_entries_iff)

lemma kept_by_override_iff:
  "kept_by_override p g \<longleftrightarrow>
     groupsOverrideKeeps g [] (cd_Groups (p_ClientDocuments p))
     \<or> (\<exists>ident c. map_of (p_Clients p) ident = Some c \<and> groupsOverrideKeeps g [] (c_Groups c))
     \<or> (\<exists>ident r. map_of (p_Resources p) ident = Some r \<and> groupsOverrideKeeps g [] (r_Groups r))"
  by (auto simp: kept_by_override_def list_ex_iff Bex_def sorted_entries_iff)

lemma consumed_iff:
  assumes "g \<in> set (table_targets p)"
  shows "g \<in> set (consumed p extra) \<longleftrightarrow> consumes p g \<or> g \<in> set extra"
  using assms
  by (auto simp: consumed_def consumes_def named_by_clients_iff named_by_github_iff named_by_slack_iff
        kept_by_override_iff)

lemma Unconsumed_iff:
  "name \<in> set (Unconsumed p extra) \<longleftrightarrow>
     has_key (p_Groups p) name \<and> \<not> in_family name
     \<and> (\<forall>g\<in>set (groupKeyTargets (p_Vocabulary p) name). \<not> consumes p g \<and> g \<notin> set extra)"
proof (cases "has_key (p_Groups p) name")
  case True
  then have "set (groupKeyTargets (p_Vocabulary p) name) \<subseteq> set (table_targets p)"
    by (auto simp: set_table_targets)
  then have "(\<exists>g\<in>set (groupKeyTargets (p_Vocabulary p) name). g \<in> set (consumed p extra))
      \<longleftrightarrow> (\<exists>g\<in>set (groupKeyTargets (p_Vocabulary p) name). consumes p g \<or> g \<in> set extra)"
    using consumed_iff by blast
  then show ?thesis using True by (auto simp: Unconsumed_def Let_def list_ex_iff)
qed (auto simp: Unconsumed_def)

end
