(* ===== verification/Policy_Properties.thy ===== *)
theory Policy_Properties
  imports Load Lint
begin

text \<open>
  The properties of the policy package, each stated over the model of the component it is about, and
  the concrete policy their witnesses evaluate: three environments of which one is sensitive, a
  ladder of three roles on the clusters, a wildcard key, a concrete key in the sensitive scope, a
  person, and a continuous-integration job that operates the hub.
\<close>

section \<open>A concrete policy\<close>

definition ladder :: "RoleSpec table" where
  "ladder =
     [(''admin'', \<lparr>Implies = [''operator''], role_Scopes = None\<rparr>),
      (''operator'', \<lparr>Implies = [''viewer''], role_Scopes = None\<rparr>),
      (''viewer'', \<lparr>Implies = [], role_Scopes = None\<rparr>)]"

definition sample_vocab :: Vocab where
  "sample_vocab =
     \<lparr>Scopes = [(''devel'', \<lparr>Sensitive = False\<rparr>), (''prod'', \<lparr>Sensitive = True\<rparr>), (''all'', \<lparr>Sensitive = False\<rparr>)],
      Things = [(''k8s'', \<lparr>thing_Scopes = [''devel'', ''prod''], Roles = ladder\<rparr>),
                (''access-roster'', \<lparr>thing_Scopes = [''all''], Roles = ladder\<rparr>)]\<rparr>"

definition sample_policy :: Policy where
  "sample_policy = no_Policy\<lparr>p_Version := 1, p_Vocabulary := Some sample_vocab,
     p_Groups :=
       [(''*:k8s:operator'', \<lparr>g_Members = [''eng@x.io''], g_Matchers = []\<rparr>),
        (''prod:k8s:admin'', \<lparr>g_Members = [''sre@x.io''], g_Matchers = []\<rparr>),
        (''emp:ann'', \<lparr>g_Members = [], g_Matchers = [no_Matcher\<lparr>m_Email := ''ann@x.io''\<rparr>]\<rparr>),
        (''all:access-roster:operator'', \<lparr>g_Members = [], g_Matchers =
           [no_Matcher\<lparr>m_GitHub := Some (no_GitHubMatcher\<lparr>gm_Repository := ''x/infra''\<rparr>)\<rparr>]\<rparr>)],
     p_Claims := [(''prod:k8s:admin'', [(''role'', VStr ''root'')])],
     p_Lifetimes := [(''default'', 3600), (''prod:k8s:admin'', 600)],
     p_Clients := [(''console'', \<lparr>c_Kind = ''public'', c_DisplayName = [], c_Description = [], c_Secret = [],
        c_Redirects = [''https://c/cb''], c_SignedOut = [''https://c/''], c_Requires = [''prod:k8s:admin''],
        c_TTLCap = 0, c_SignInExchange = True, c_BackChannelLogout = [], c_SigningAlg = ''RS256'',
        c_Groups = no_override, c_GroupsDelimiter = ''.''\<rparr>)],
     p_People := [(''ann'', [''ann@x.io'', ''Ann@y.io''])]\<rparr>"

text \<open>A person in both directory groups, vouched for.\<close>

definition ann :: Input where
  "ann = \<lparr>in_Email = ''ann@x.io'', in_DirectoryGroups = [''ENG@x.io'', ''sre@x.io''], in_Authoritative = True,
     in_GitHub = None, in_ServiceAccount = None, in_AWS = None\<rparr>"

definition no_urls :: url_parser where "no_urls s = None"

lemma sample_valid: "Policy_Validate no_urls sample_policy = None"
  by code_simp

lemma sample_groups:
  "res_Groups (Evaluate sample_policy ann) =
     [''devel:k8s:operator'', ''devel:k8s:viewer'', ''emp:ann'', ''prod:k8s:admin'', ''prod:k8s:operator'',
      ''prod:k8s:viewer'']"
  by code_simp

lemma colon_free_code: "(colon \<notin> set s) = list_all (\<lambda>c. c \<noteq> colon) s"
  by (auto simp: list_all_iff)

section \<open>Who holds what\<close>

text \<open>
  C1. The groups \<open>Evaluate\<close> grants are exactly the grants of the keys a proof is in, together with
  every role those imply along the vocabulary's ladders, over any number of hops; they come sorted
  and without repeats.
\<close>
theorem evaluate_groups_closure:
  "set (res_Groups (Evaluate p inp)) = (inherited_rel p)\<^sup>* `` direct_grants p inp
     \<and> sorted (res_Groups (Evaluate p inp)) \<and> distinct (res_Groups (Evaluate p inp))"
  using Evaluate_Groups Evaluate_Groups_sorted by blast

text \<open>
  \<open>Evaluate\<close> records every reason and no other: one entry for each key that matched and each grant
  it stands for, and one for each hop of inheritance from a held grant to one it implies.
\<close>
theorem evaluate_reasons_exact: "set (res_Held (Evaluate p inp)) = all_reasons p inp"
  by (rule set_res_Held)

text \<open>
  C2. Membership the directory does not vouch for grants nothing: with an answer that is not
  authoritative the result is the one for an empty answer, and it grants no group the vouched answer
  would not.
\<close>
theorem unvouched_membership_grants_nothing:
  "Evaluate p (inp\<lparr>in_Authoritative := False, in_DirectoryGroups := ds\<rparr>)
       = Evaluate p (inp\<lparr>in_Authoritative := False, in_DirectoryGroups := []\<rparr>)
     \<and> set (res_Groups (Evaluate p (inp\<lparr>in_Authoritative := False\<rparr>))) \<subseteq> set (res_Groups (Evaluate p inp))"
proof
  show "Evaluate p (inp\<lparr>in_Authoritative := False, in_DirectoryGroups := ds\<rparr>)
      = Evaluate p (inp\<lparr>in_Authoritative := False, in_DirectoryGroups := []\<rparr>)"
    by (rule Evaluate_unvouched) (simp_all add: same_proof_def)
  show "set (res_Groups (Evaluate p (inp\<lparr>in_Authoritative := False\<rparr>))) \<subseteq> set (res_Groups (Evaluate p inp))"
    by (intro Evaluate_mono matched_keys_mono) (simp_all add: same_proof_def)
qed

text \<open>
  C6. A grant in a scope the vocabulary marks sensitive is held only through a key of the groups table
  that names that scope and that thing outright: no mapping wildcard reaches it, directly or through
  inheritance.
\<close>
theorem sensitive_scope_needs_a_concrete_key:
  assumes "p_Vocabulary p = Some v" and "scope_sensitive v s"
    and "Result_Has (Evaluate p inp) g" and "SplitGroup g = Some (s, t, r)"
  shows "\<exists>key r'. key \<in> matched_keys p inp \<and> SplitGroup key = Some (s, t, r') \<and> \<not> wildcard_key key"
  using sensitive_needs_concrete_key [of g p inp s t r v] assms unfolding Result_Has_def by metis

theorem sensitive_scope_witness:
  "\<exists>key r'. key \<in> matched_keys sample_policy ann \<and> SplitGroup key = Some (''prod'', ''k8s'', r')
     \<and> \<not> wildcard_key key"
  by (rule sensitive_scope_needs_a_concrete_key [of sample_policy sample_vocab "''prod''" ann "''prod:k8s:viewer''" _ "''viewer''"])
    code_simp+

text \<open>
  C18. In a policy that passed \<open>Validate\<close>, every grant a caller holds fits the declared vocabulary: its
  scope, thing and role are declared and the role exists in that scope, for inherited grants too.
\<close>
theorem held_grants_fit_the_vocabulary:
  assumes "Policy_Validate parse p = None" and "p_Vocabulary p = Some v"
    and "Result_Has (Evaluate p inp) g" and "SplitGroup g = Some (s, t, r)"
  shows "fits v s t r = None"
  using held_fits assms unfolding Result_Has_def by blast

theorem held_grants_fit_witness: "fits sample_vocab ''devel'' ''k8s'' ''viewer'' = None"
  by (rule held_grants_fit_the_vocabulary [OF sample_valid, of sample_vocab ann "''devel:k8s:viewer''"]) code_simp+

text \<open>
  A role over one scope and thing never turns into a role over another: whatever is held over
  \<open>S:T\<close> comes from a key that grants some role over the same \<open>S:T\<close>.
\<close>
theorem inheritance_stays_on_its_thing:
  assumes "Result_Has (Evaluate p inp) g" and "SplitGroup g = Some (s, t, r)"
  shows "\<exists>d r'. d \<in> direct_grants p inp \<and> SplitGroup d = Some (s, t, r')"
  using held_grant_source [of g p inp s t r] assms unfolding Result_Has_def by metis

theorem inheritance_stays_witness:
  "\<exists>d r'. d \<in> direct_grants sample_policy ann \<and> SplitGroup d = Some (''devel'', ''k8s'', r')"
  by (rule inheritance_stays_on_its_thing [of _ _ "''devel:k8s:viewer''" _ _ "''viewer''"]) code_simp+

section \<open>What a token carries\<close>

text \<open>
  Under \<open>groups\<close> the claims carry every held group whatever the groups' fragments put there, and
  every other claim comes from the fragment of a group that is held.
\<close>
theorem token_claims_sources:
  "(\<forall>g. Result_Has (Evaluate p inp) g \<longrightarrow>
      (\<exists>vs. map_of (res_Claims (Evaluate p inp)) ''groups'' = Some (VList vs) \<and> VStr g \<in> set vs))
   \<and> dom (map_of (res_Claims (Evaluate p inp)))
       \<subseteq> insert ''groups'' (fragment_keys p (set (res_Groups (Evaluate p inp))))"
proof
  let ?names = "res_Groups (Evaluate p inp)" and ?c = "merged_claims p (res_Groups (Evaluate p inp))"
  have claims: "res_Claims (Evaluate p inp) = add_groups ?names ?c" by (simp add: Evaluate_def Let_def)
  show "\<forall>g. Result_Has (Evaluate p inp) g \<longrightarrow>
      (\<exists>vs. map_of (res_Claims (Evaluate p inp)) ''groups'' = Some (VList vs) \<and> VStr g \<in> set vs)"
  proof (intro allI impI)
    fix g assume g: "Result_Has (Evaluate p inp) g"
    then have "?names \<noteq> []" by (auto simp: Result_Has_def)
    from add_groups_all [OF this, of ?c] show
      "\<exists>vs. map_of (res_Claims (Evaluate p inp)) ''groups'' = Some (VList vs) \<and> VStr g \<in> set vs"
      using g unfolding claims Result_Has_def by blast
  qed
  have "dom (map_of (add_groups ?names ?c)) \<subseteq> insert ''groups'' (dom (map_of ?c))"
    by (auto simp: add_groups_def)
  then show "dom (map_of (res_Claims (Evaluate p inp))) \<subseteq> insert ''groups'' (fragment_keys p (set ?names))"
    using merged_claims_dom [of p ?names "[]"] unfolding claims merged_claims_def by auto
qed

theorem token_claims_witness:
  "map_of (res_Claims (Evaluate sample_policy ann)) ''role'' = Some (VStr ''root'')
   \<and> (\<exists>vs. map_of (res_Claims (Evaluate sample_policy ann)) ''groups'' = Some (VList vs)
        \<and> VStr ''emp:ann'' \<in> set vs)"
proof
  show "map_of (res_Claims (Evaluate sample_policy ann)) ''role'' = Some (VStr ''root'')" by code_simp
  have "Result_Has (Evaluate sample_policy ann) ''emp:ann''" by code_simp
  then show "\<exists>vs. map_of (res_Claims (Evaluate sample_policy ann)) ''groups'' = Some (VList vs)
        \<and> VStr ''emp:ann'' \<in> set vs"
    using conjunct1 [OF token_claims_sources [of sample_policy ann]] by blast
qed

text \<open>
  A token's lifetime is the shortest declared among the held groups, and the default when none
  declares one; a client's \<open>ttl_cap\<close> only ever shortens it. Privilege never lengthens a session.
\<close>
theorem lifetime_is_the_shortest:
  assumes "\<forall>n d. map_of (p_Lifetimes p) n = Some d \<longrightarrow> 0 < d"
  shows "(let ds = declared_lifetimes p (set (res_Groups (Evaluate p inp)))
          in res_Lifetime (Evaluate p inp) = (if ds = {} then tget 0 (p_Lifetimes p) LifetimeDefault else Min ds)
             \<and> (\<forall>d\<in>ds. Client_Cap c (res_Lifetime (Evaluate p inp)) \<le> d))"
proof -
  let ?ds = "declared_lifetimes p (set (res_Groups (Evaluate p inp)))"
  have eq: "res_Lifetime (Evaluate p inp) = (if ?ds = {} then tget 0 (p_Lifetimes p) LifetimeDefault else Min ?ds)"
    using lifetimeOf_min [OF assms] by (simp add: Evaluate_def Let_def)
  have "Client_Cap c (Min ?ds) \<le> d" if "d \<in> ?ds" for d
  proof -
    have fin: "finite ?ds" by (simp add: finite_declared_lifetimes)
    then have "Min ?ds \<in> ?ds" using that by (intro Min_in) auto
    then have "0 < Min ?ds" using assms by (auto simp: declared_lifetimes_def simp del: Min_in)
    then show ?thesis using Min_le [OF fin that] Client_Cap_shortens [of "Min ?ds" c] by simp
  qed
  then show ?thesis using eq by (auto simp: Let_def)
qed

lemma sample_lifetimes: "\<forall>n d. map_of (p_Lifetimes sample_policy) n = Some d \<longrightarrow> 0 < d"
  by (auto simp: sample_policy_def no_Policy_def split: if_splits)

theorem lifetime_witness:
  "Client_Cap (the (map_of (p_Clients sample_policy) ''console'')) (res_Lifetime (Evaluate sample_policy ann)) \<le> 600"
proof -
  have "600 \<in> declared_lifetimes sample_policy (set (res_Groups (Evaluate sample_policy ann)))"
    unfolding sample_groups by (simp add: declared_lifetimes_def sample_policy_def no_Policy_def)
  with conjunct2 [OF lifetime_is_the_shortest [OF sample_lifetimes, unfolded Let_def]]
  show ?thesis by (rule bspec)
qed

text \<open>
  Scoping the groups of a token loses and invents nothing: what is kept and what is dropped are
  together exactly what is held. A grant is kept when the audience requires some role over the same
  scope and thing, or its override names the thing, or asks for all; for an audience the policy does
  not know everything is dropped.
\<close>
theorem scope_groups_partition:
  assumes "ScopeGroups parse p audience held = (kept, dropped)"
    and "audienceScope parse p audience = (pairs, override)"
  shows "mset kept + mset dropped = mset held \<and> set kept \<inter> set dropped = {}
    \<and> (\<forall>g s t r. g \<in> set held \<longrightarrow> SplitGroup g = Some (s, t, r) \<longrightarrow>
         (g \<in> set kept \<longleftrightarrow> ov_All override \<or> (s, t) \<in> set pairs \<or> t \<in> set (elems (ov_Things override))))
    \<and> (pairs = [] \<and> override = no_override \<longrightarrow> kept = [])"
proof (intro conjI allI impI)
  show "mset kept + mset dropped = mset held" "set kept \<inter> set dropped = {}"
    using ScopeGroups_partition [OF assms(1)] by simp_all
  show "g \<in> set kept \<longleftrightarrow> ov_All override \<or> (s, t) \<in> set pairs \<or> t \<in> set (elems (ov_Things override))"
    if "g \<in> set held" "SplitGroup g = Some (s, t, r)" for g s t r
    using kept_iff [OF assms, of g] that by (simp add: groupsOverrideKeeps_def)
  show "kept = []" if "pairs = [] \<and> override = no_override"
    using kept_iff [OF assms] that keeps_none by (metis list.set_intros(1) neq_Nil_conv)
qed

theorem scope_groups_witness:
  "''prod:k8s:viewer'' \<in> set (fst (ScopeGroups no_urls sample_policy ''console'' (res_Groups (Evaluate sample_policy ann))))
   \<and> ScopeGroups no_urls sample_policy ''other'' [''emp:ann''] = ([], [''emp:ann''])"
proof
  let ?s = "ScopeGroups no_urls sample_policy ''console'' (res_Groups (Evaluate sample_policy ann))"
  have a: "audienceScope no_urls sample_policy ''console'' = ([(''prod'', ''k8s'')], no_override)" by code_simp
  have g: "''prod:k8s:viewer'' \<in> set (res_Groups (Evaluate sample_policy ann))"
    "SplitGroup ''prod:k8s:viewer'' = Some (''prod'', ''k8s'', ''viewer'')" by code_simp+
  show "''prod:k8s:viewer'' \<in> set (fst ?s)"
    using scope_groups_partition [OF prod.collapse [symmetric, of ?s] a] g by simp
  show "ScopeGroups no_urls sample_policy ''other'' [''emp:ann''] = ([], [''emp:ann''])" by code_simp
qed

text \<open>
  What admitted a caller to a client survives the scoping of the groups claim: a grant the client
  requires and the caller holds is in the groups kept for that client.
\<close>
theorem required_group_survives_scoping:
  assumes "map_of (p_Clients p) audience = Some c" and "Client_Admits c (Evaluate p inp)"
    and "\<forall>n\<in>set (c_Requires c). SplitGroup n \<noteq> None"
  shows "\<exists>n\<in>set (c_Requires c). n \<in> set (fst (ScopeGroups parse p audience (res_Groups (Evaluate p inp))))"
proof -
  obtain n where n: "n \<in> set (c_Requires c)" "n \<in> set (res_Groups (Evaluate p inp))"
    using assms(2) by (auto simp: Client_Admits_def Result_Has_def list_ex_iff)
  moreover obtain s t r where "SplitGroup n = Some (s, t, r)" using assms(3) n(1) by fastforce
  ultimately show ?thesis using required_grant_kept [OF assms(1)] by blast
qed

theorem required_group_witness:
  "\<exists>n\<in>set (c_Requires (the (map_of (p_Clients sample_policy) ''console''))).
     n \<in> set (fst (ScopeGroups no_urls sample_policy ''console'' (res_Groups (Evaluate sample_policy ann))))"
  by (rule required_group_survives_scoping) code_simp+

text \<open>
  \<open>checkGroupsDelimiterCollision\<close> passes exactly when rewriting the separator keeps every two
  grants of the groups table apart.
\<close>
theorem delimiter_collision_exact:
  "checkGroupsDelimiterCollision p d = None \<longleftrightarrow> inj_on (replace_all colon d) (set (table_targets p))"
  by (rule collision_iff)

text \<open>
  The absolute lifetime of a session over several resources is the smallest of their limits: it
  never exceeds the installation's own limit or seven days, whichever is longer, and not the
  installation's own limit once anything without a longer read-only cap was touched.
\<close>
theorem effective_absolute_bounds:
  assumes "0 < global" and "touched \<noteq> []"
  shows "0 < EffectiveAbsolute global touched lookup
    \<and> EffectiveAbsolute global touched lookup \<le> max global MaxAbsoluteCap
    \<and> (\<forall>ident\<in>set touched. EffectiveAbsolute global touched lookup \<le> touched_limit global lookup ident)
    \<and> ((\<exists>ident\<in>set touched. \<forall>get r. lookup = Some get \<longrightarrow> get ident = Some r \<longrightarrow> \<not> r_ReadOnly r) \<longrightarrow>
         EffectiveAbsolute global touched lookup \<le> global)"
proof -
  let ?L = "touched_limit global lookup" and ?E = "EffectiveAbsolute global touched lookup"
  have E: "?E = Min (?L ` set touched)" by (rule EffectiveAbsolute_Min [OF assms])
  have fin: "finite (?L ` set touched)" "?L ` set touched \<noteq> {}" using assms(2) by auto
  have le: "?E \<le> ?L i" if "i \<in> set touched" for i unfolding E using fin that by (intro Min_le) auto
  obtain j where j: "j \<in> set touched" using assms(2) by (cases touched) auto
  have top: "?L i \<le> max global MaxAbsoluteCap" for i
    using assms(1) AbsoluteFor_le [OF assms(1)] by (auto simp: touched_limit_def split: option.splits)
  have plain: "?L i \<le> global" if "\<forall>get r. lookup = Some get \<longrightarrow> get i = Some r \<longrightarrow> \<not> r_ReadOnly r" for i
    using that by (auto simp: touched_limit_def AbsoluteFor_not_read_only split: option.splits)
  have "0 < ?E" unfolding E using touched_limit_pos [OF assms(1)] Min_in [OF fin] by auto
  moreover have "?E \<le> max global MaxAbsoluteCap" using le [OF j] top [of j] by linarith
  moreover have "?E \<le> global" if "i \<in> set touched"
    "\<forall>get r. lookup = Some get \<longrightarrow> get i = Some r \<longrightarrow> \<not> r_ReadOnly r" for i
    using le [OF that(1)] plain [OF that(2)] by linarith
  ultimately show ?thesis using le by blast
qed

theorem effective_absolute_witness:
  "EffectiveAbsolute 100 [''x'', ''y''] (Some (\<lambda>i. None)) \<le> 100"
  using effective_absolute_bounds [of 100 "[''x'', ''y'']" "Some (\<lambda>i. None)"] by auto

section \<open>What loading refuses\<close>

text \<open>
  A client of a policy that passed \<open>Validate\<close> has a known kind and requires at least one group;
  every group it requires is declared and is no wildcard; no page a person lands on after signing out
  is a redirect URI; only a public client may trade its sign-in, a confidential one names its secret,
  and an exchange target has no redirects.
\<close>
theorem validated_clients:
  assumes "Policy_Validate parse p = None" and "map_of (p_Clients p) ident = Some c"
  shows "c_Kind c \<in> {KindPublic, KindConfidential, KindExchange} \<and> c_Requires c \<noteq> []
    \<and> (\<forall>n\<in>set (c_Requires c). has_key (p_Groups p) n \<and> \<not> wildcard_key n)
    \<and> set (c_SignedOut c) \<inter> set (c_Redirects c) = {}
    \<and> (c_SignInExchange c \<longrightarrow> c_Kind c = KindPublic)
    \<and> (c_Kind c = KindConfidential \<longrightarrow> c_Secret c \<noteq> [])
    \<and> (c_Kind c = KindExchange \<longrightarrow> c_Redirects c = [] \<and> c_SignedOut c = [])"
  using validated_client [OF assms] by blast

theorem validated_clients_witness:
  "c_Kind (the (map_of (p_Clients sample_policy) ''console'')) = KindPublic"
proof -
  have "map_of (p_Clients sample_policy) ''console'' = Some (the (map_of (p_Clients sample_policy) ''console''))"
    "c_SignInExchange (the (map_of (p_Clients sample_policy) ''console''))"
    by (simp_all add: sample_policy_def no_Policy_def)
  then show ?thesis using validated_clients [OF sample_valid] by metis
qed

text \<open>
  In a policy that passed \<open>Validate\<close> every address of every person is usable, and no two people
  share one, however it is spelled.
\<close>
theorem people_have_distinct_addresses:
  assumes "Policy_Validate parse p = None"
    and "map_of (p_People p) q = Some as" and "a \<in> set as"
    and "map_of (p_People p) q' = Some bs" and "b \<in> set bs"
    and "normaliseAddress a = normaliseAddress b"
  shows "q = q' \<and> normaliseAddress a \<noteq> None"
  using validated_people [OF assms] by blast

theorem people_witness: "''ann'' = ''ann'' \<and> normaliseAddress ''Ann@y.io'' \<noteq> None"
  by (rule people_have_distinct_addresses [OF sample_valid, of _ "[''ann@x.io'', ''Ann@y.io'']" _ _
        "[''ann@x.io'', ''Ann@y.io'']" "''Ann@y.io''"]) (simp_all add: sample_policy_def no_Policy_def)

text \<open>
  \<open>checkFragments\<close> is exact for scalars: it passes exactly when every two groups that set the scalar
  at one path set it to the same text.
\<close>
theorem fragments_check_exact:
  "checkFragments claims = None \<longleftrightarrow>
     (\<forall>n w v n' v'. (n, w, v) \<in> set (fragment_leaves claims) \<longrightarrow>
        (n', w, v') \<in> set (fragment_leaves claims) \<longrightarrow> sprint v = sprint v')"
  by (rule checkFragments_None_iff)

theorem fragments_check_witness:
  "\<exists>n w v n' v'. (n, w, v) \<in> set (fragment_leaves [(''a'', [(''k'', VInt 1)]), (''b'', [(''k'', VInt 2)])])
     \<and> (n', w, v') \<in> set (fragment_leaves [(''a'', [(''k'', VInt 1)]), (''b'', [(''k'', VInt 2)])])
     \<and> sprint v \<noteq> sprint v'"
proof -
  have "checkFragments [(''a'', [(''k'', VInt 1)]), (''b'', [(''k'', VInt 2)])] \<noteq> None" by code_simp
  then show ?thesis unfolding fragments_check_exact by blast
qed



text \<open>
  A mapping wildcard stands for exactly the grants its concrete segments allow: every declared
  thing that has the role, in every scope of that thing the role allows, except the sensitive ones.
\<close>
theorem wildcard_expansion_exact:
  "g \<in> set (expand v scope thing role) \<longleftrightarrow>
     (\<exists>s t spec rspec. g = grant_name s t role
        \<and> (scope = star \<or> s = scope) \<and> (thing = star \<or> t = thing)
        \<and> map_of (Things v) t = Some spec \<and> map_of (Roles spec) role = Some rspec
        \<and> s \<in> set (thing_Scopes spec) \<and> allowsScope rspec s \<and> \<not> scope_sensitive v s)"
  by (rule expand_iff)

text \<open>
  Merging a file into a policy succeeds for a table exactly when the two declare no name in
  common, and the result is then their disjoint union; a failure names one of the common keys.
\<close>
theorem merge_table_exact:
  "(case mergeTable into from clash of
      Inr out \<Rightarrow> map_of out = map_of into ++ map_of from \<and> dom (map_of into) \<inter> dom (map_of from) = {}
    | Inl e \<Rightarrow> \<exists>k \<in> dom (map_of into) \<inter> dom (map_of from). e = clash k)"
proof (cases "mergeTable into from clash")
  case (Inl e)
  then show ?thesis using mergeTable_err [OF Inl] by simp
next
  case (Inr out)
  then show ?thesis using mergeTable_ok [OF Inr] by (simp only: sum.case)
qed

text \<open>
  A layer that merges adds its groups and clients beside what was there: no group, claim, lifetime,
  resource, client or person declared before changes.
\<close>
theorem merged_layer_extends:
  assumes "mergeLayer p other = Inr out"
  shows "map_of (p_Groups p) \<subseteq>\<^sub>m map_of (p_Groups out) \<and> map_of (p_Groups other) \<subseteq>\<^sub>m map_of (p_Groups out)
    \<and> map_of (p_Clients p) \<subseteq>\<^sub>m map_of (p_Clients out) \<and> map_of (p_Clients other) \<subseteq>\<^sub>m map_of (p_Clients out)"
proof -
  note t = mergeLayer_tables [OF assms] mergeLayer_disjoint [OF assms]
  have "map_of (p_Groups p) \<subseteq>\<^sub>m map_of (p_Groups p) ++ map_of (p_Groups other)"
    "map_of (p_Clients p) \<subseteq>\<^sub>m map_of (p_Clients p) ++ map_of (p_Clients other)"
    using t(8,9) by (metis map_add_comm map_le_map_add)+
  then show ?thesis using t by simp
qed

theorem merged_layer_witness:
  "map_of (p_Groups sample_policy) \<subseteq>\<^sub>m
     map_of (p_Groups (projr (mergeLayer sample_policy (no_Policy\<lparr>p_Version := 1, p_Groups := [(''emp:bob'', no_Group)]\<rparr>))))"
proof -
  let ?o = "no_Policy\<lparr>p_Version := 1, p_Groups := [(''emp:bob'', no_Group)]\<rparr>"
  have "isl (mergeLayer sample_policy ?o) = False" by code_simp
  then have "mergeLayer sample_policy ?o = Inr (projr (mergeLayer sample_policy ?o))"
    by (cases "mergeLayer sample_policy ?o") simp_all
  from merged_layer_extends [OF this] show ?thesis by blast
qed

text \<open>
  The unconsumed-group warning is exact: it names a declared key when the key is in neither of the
  two families that are no grants and nothing in the policy, nor the catalogue, consumes any grant the
  key stands for.
\<close>
theorem unconsumed_exact:
  "name \<in> set (Unconsumed p catalogue) \<longleftrightarrow>
     has_key (p_Groups p) name \<and> \<not> in_family name
     \<and> (\<forall>g\<in>set (groupKeyTargets (p_Vocabulary p) name). \<not> consumes p g \<and> g \<notin> set catalogue)"
  by (rule Unconsumed_iff)

theorem unconsumed_witness: "\<not> consumes sample_policy ''devel:k8s:operator''"
proof -
  have "''*:k8s:operator'' \<in> set (Unconsumed sample_policy [])"
    "''devel:k8s:operator'' \<in> set (groupKeyTargets (p_Vocabulary sample_policy) ''*:k8s:operator'')" by code_simp+
  then show ?thesis using unconsumed_exact [of "''*:k8s:operator''" sample_policy "[]"] by blast
qed

section \<open>Names\<close>

text \<open>
  A grant reads back as what was written: \<open>SplitGroup\<close> returns three segments exactly for the name
  built from three non-empty segments without a separator.
\<close>
theorem grant_names_round_trip:
  "SplitGroup n = Some (s, t, r) \<longleftrightarrow>
     n = grant_name s t r \<and> s \<noteq> [] \<and> t \<noteq> [] \<and> r \<noteq> [] \<and> colon \<notin> set s \<and> colon \<notin> set t \<and> colon \<notin> set r"
  by (rule SplitGroup_Some_iff)

text \<open>
  The subject minted for a ServiceAccount is read back as that account, with and without a cluster,
  so no two accounts share a subject.
\<close>
theorem service_account_subject_round_trip:
  assumes "sa_wf r"
  shows "ParseServiceAccountSubject (ServiceAccountRef_Subject r) = Some r"
  using assms by (rule ParseServiceAccountSubject_Subject)

theorem service_account_subject_witness:
  "ParseServiceAccountSubject ''eu:k8s:ci:runner''
     = Some \<lparr>sa_Cluster = ''eu'', sa_Namespace = ''ci'', sa_Name = ''runner''\<rparr>"
proof -
  let ?r = "\<lparr>sa_Cluster = ''eu'', sa_Namespace = ''ci'', sa_Name = ''runner''\<rparr>"
  have "sa_wf ?r" by code_simp
  from service_account_subject_round_trip [OF this] show ?thesis
    by (simp add: ServiceAccountRef_Subject_def)
qed

text \<open>
  A matcher's pattern with one star admits exactly the values that put a part without a slash in
  the star's place: a star never crosses a path separator.
\<close>
theorem one_star_never_crosses_a_slash:
  assumes "glob_literal p" and "glob_literal q"
  shows "globs (p @ asterisk # q) v \<longleftrightarrow> (\<exists>m. slash \<notin> set m \<and> v = p @ m @ q)"
  using assms by (rule globs_one_star)

theorem one_star_witness: "\<not> globs ''org/*'' ''org/repo/sub''"
proof -
  have "glob_literal ''org/''" "glob_literal []" by code_simp+
  from one_star_never_crosses_a_slash [OF this, of "''org/repo/sub''"] show ?thesis by auto
qed

section \<open>What the checks leave open\<close>

text \<open>
  A policy whose client pins a delimiter. Its two keys stay apart when rewritten, so it passes every
  check; the roles they imply do not.
\<close>

definition colliding_policy :: Policy where
  "colliding_policy = no_Policy\<lparr>p_Version := 1,
     p_Vocabulary := Some
       \<lparr>Scopes = [(''x'', \<lparr>Sensitive = False\<rparr>), (''x.y'', \<lparr>Sensitive = False\<rparr>)],
        Things =
          [(''y.z'', \<lparr>thing_Scopes = [''x''], Roles = [(''admin'', \<lparr>Implies = [''r''], role_Scopes = None\<rparr>),
              (''r'', \<lparr>Implies = [], role_Scopes = None\<rparr>)]\<rparr>),
           (''z'', \<lparr>thing_Scopes = [''x.y''], Roles = [(''boss'', \<lparr>Implies = [''r''], role_Scopes = None\<rparr>),
              (''r'', \<lparr>Implies = [], role_Scopes = None\<rparr>)]\<rparr>)]\<rparr>,
     p_Groups :=
       [(''x:y.z:admin'', \<lparr>g_Members = [''a@x.io''], g_Matchers = []\<rparr>),
        (''x.y:z:boss'', \<lparr>g_Members = [''a@x.io''], g_Matchers = []\<rparr>)],
     p_Clients := [(''ssh'', \<lparr>c_Kind = ''public'', c_DisplayName = [], c_Description = [], c_Secret = [],
        c_Redirects = [], c_SignedOut = [], c_Requires = [''x:y.z:admin''], c_TTLCap = 0, c_SignInExchange = False,
        c_BackChannelLogout = [], c_SigningAlg = [], c_Groups = \<lparr>ov_All = True, ov_Things = None\<rparr>,
        c_GroupsDelimiter = ''.''\<rparr>)]\<rparr>"

text \<open>
  The collision check at load does not cover inherited grants: a policy that passes \<open>Validate\<close> can
  grant one caller two different groups that the client's delimiter rewrites to one name.
\<close>
theorem delimiter_check_misses_inherited_grants:
  "Policy_Validate no_urls colliding_policy = None
   \<and> (let r = Evaluate colliding_policy (ann\<lparr>in_DirectoryGroups := [''a@x.io'']\<rparr>)
      in Result_Has r ''x:y.z:r'' \<and> Result_Has r ''x.y:z:r''
         \<and> RewriteGroupsDelimiter ''x:y.z:r'' ''.'' = RewriteGroupsDelimiter ''x.y:z:r'' ''.'')"
proof
  show "Policy_Validate no_urls colliding_policy = None" by code_simp
  show "let r = Evaluate colliding_policy (ann\<lparr>in_DirectoryGroups := [''a@x.io'']\<rparr>)
      in Result_Has r ''x:y.z:r'' \<and> Result_Has r ''x.y:z:r''
         \<and> RewriteGroupsDelimiter ''x:y.z:r'' ''.'' = RewriteGroupsDelimiter ''x.y:z:r'' ''.''"
    by code_simp
qed

text \<open>
  A scalar in one group's fragment and a map at the same path in another's pass the load-time check;
  when they are merged the second fragment is applied in part, up to the conflicting key.
\<close>
theorem fragment_kind_conflict_passes_the_check:
  "(let f1 = [(''aws'', VStr ''x'')];
        f2 = [(''aaa'', VBool True), (''aws'', VMap [(''role'', VStr ''r'')]), (''zzz'', VBool True)]
    in checkFragments [(''g1'', f1), (''g2'', f2)] = None
       \<and> (case mergeFragment f1 f2 [] of (err, out) \<Rightarrow>
            err = Some (SetTwice ''aws'') \<and> has_key out ''aaa'' \<and> \<not> has_key out ''zzz''))"
  by code_simp

end
