(* ===== verification/Port_State.thy ===== *)
theory Port_State
  imports Go_Prelude
begin

text \<open>
  The storage port (\<open>src/internal/port/port.go\<close>, \<open>src/internal/port/layout.go\<close>): the operations of
  \<open>port.State\<close> as a record of functions, the way a component receives the Go interface, the checks
  every adapter shares, and the contract the interface states as the locale \<open>state_port\<close>. A revision
  is opaque; here it is the number an adapter draws it from. The lemmas of the locale are what a
  client may conclude from the contract alone: a write under a stale revision fails, and a revision
  once gone never comes back.
\<close>

section \<open>Errors and limits\<close>

datatype port_err =
    ErrNotFound
  | ErrExists
  | ErrConflict
  | ErrBadPage
  | ErrTooLarge
  | ErrUnavailable
  | ErrUnwrap
  | ErrNoLifetime
  | ErrUnsupported

type_synonym revision = nat

definition MaxValue :: int where
  "MaxValue = 256 * 1024"

definition permanent :: "string list" where
  "permanent = [''ws.'', ''gh.org.'', ''gh.link.'', ''app.'', ''rec.'']"

definition Permanent :: "string \<Rightarrow> bool" where
  "Permanent key = list_ex (has_prefix key) permanent"

definition CheckWrite :: "string \<Rightarrow> string \<Rightarrow> int \<Rightarrow> port_err option" where
  "CheckWrite key value ttl = first_some
     [guard_err (int (length value) > MaxValue) ErrTooLarge,
      guard_err (ttl < 0 \<or> (ttl = 0 \<and> \<not> Permanent key)) ErrNoLifetime]"

section \<open>The interface\<close>

record 's StatePort =
  sp_Get :: "string \<Rightarrow> 's \<Rightarrow> port_err + string \<times> revision"
  sp_Put :: "string \<Rightarrow> string \<Rightarrow> int \<Rightarrow> 's \<Rightarrow> 's \<times> (port_err + revision)"
  sp_Create :: "string \<Rightarrow> string \<Rightarrow> int \<Rightarrow> 's \<Rightarrow> 's \<times> (port_err + revision)"
  sp_Update :: "string \<Rightarrow> string \<Rightarrow> int \<Rightarrow> revision \<Rightarrow> 's \<Rightarrow> 's \<times> (port_err + revision)"
  sp_Delete :: "string \<Rightarrow> 's \<Rightarrow> 's \<times> port_err option"
  sp_DeleteIfRevision :: "string \<Rightarrow> revision \<Rightarrow> 's \<Rightarrow> 's \<times> port_err option"

text \<open>
  The contract: \<open>lookup\<close> is the live content, \<open>issued\<close> the revisions handed out so far, \<open>elapse\<close> the
  passing of time, and \<open>ok\<close> the adapter's own invariant.
\<close>

locale state_port =
  fixes P :: "'s StatePort"
    and lookup :: "'s \<Rightarrow> string \<Rightarrow> (string \<times> revision) option"
    and issued :: "'s \<Rightarrow> revision set"
    and ok :: "'s \<Rightarrow> bool"
    and elapse :: "'s \<Rightarrow> 's \<Rightarrow> bool"
  assumes get_law: "sp_Get P k s = (case lookup s k of None \<Rightarrow> Inl ErrNotFound | Some x \<Rightarrow> Inr x)"
    and lookup_issued: "ok s \<Longrightarrow> lookup s k = Some (v, r) \<Longrightarrow> r \<in> issued s"
    and create_ok: "ok s \<Longrightarrow> sp_Create P k v ttl s = (s', Inr r) \<Longrightarrow>
       ok s' \<and> lookup s k = None \<and> r \<notin> issued s \<and> issued s' = insert r (issued s)
         \<and> lookup s' = (lookup s)(k \<mapsto> (v, r))"
    and create_err: "ok s \<Longrightarrow> sp_Create P k v ttl s = (s', Inl e) \<Longrightarrow>
       s' = s \<and> (e = ErrExists \<longrightarrow> lookup s k \<noteq> None)"
    and create_succeeds: "ok s \<Longrightarrow> CheckWrite k v ttl = None \<Longrightarrow> lookup s k = None \<Longrightarrow>
       \<exists>s' r. sp_Create P k v ttl s = (s', Inr r)"
    and create_exists: "ok s \<Longrightarrow> CheckWrite k v ttl = None \<Longrightarrow> lookup s k \<noteq> None \<Longrightarrow>
       sp_Create P k v ttl s = (s, Inl ErrExists)"
    and update_ok: "ok s \<Longrightarrow> sp_Update P k v ttl rv s = (s', Inr r) \<Longrightarrow>
       ok s' \<and> (\<exists>v0. lookup s k = Some (v0, rv)) \<and> r \<notin> issued s \<and> issued s' = insert r (issued s)
         \<and> lookup s' = (lookup s)(k \<mapsto> (v, r))"
    and update_err: "ok s \<Longrightarrow> sp_Update P k v ttl rv s = (s', Inl e) \<Longrightarrow>
       s' = s \<and> (e = ErrConflict \<or> e = ErrNotFound \<longrightarrow> (\<forall>v0. lookup s k \<noteq> Some (v0, rv)))"
    and update_succeeds: "ok s \<Longrightarrow> CheckWrite k v ttl = None \<Longrightarrow> lookup s k = Some (v0, rv) \<Longrightarrow>
       \<exists>s' r. sp_Update P k v ttl rv s = (s', Inr r)"
    and update_fails: "ok s \<Longrightarrow> CheckWrite k v ttl = None \<Longrightarrow> \<forall>v0. lookup s k \<noteq> Some (v0, rv) \<Longrightarrow>
       \<exists>e. sp_Update P k v ttl rv s = (s, Inl e) \<and> (e = ErrConflict \<or> e = ErrNotFound)"
    and put_ok: "ok s \<Longrightarrow> sp_Put P k v ttl s = (s', Inr r) \<Longrightarrow>
       ok s' \<and> r \<notin> issued s \<and> issued s' = insert r (issued s) \<and> lookup s' = (lookup s)(k \<mapsto> (v, r))"
    and put_err: "ok s \<Longrightarrow> sp_Put P k v ttl s = (s', Inl e) \<Longrightarrow> s' = s"
    and delete_law: "ok s \<Longrightarrow> sp_Delete P k s = (s', del_err) \<Longrightarrow>
       del_err = None \<and> ok s' \<and> issued s' = issued s \<and> lookup s' = (lookup s)(k := None)"
    and delete_if_ok: "ok s \<Longrightarrow> sp_DeleteIfRevision P k rv s = (s', None) \<Longrightarrow>
       ok s' \<and> (\<exists>v0. lookup s k = Some (v0, rv)) \<and> issued s' = issued s \<and> lookup s' = (lookup s)(k := None)"
    and delete_if_err: "ok s \<Longrightarrow> sp_DeleteIfRevision P k rv s = (s', Some e) \<Longrightarrow>
       s' = s \<and> (e = ErrConflict \<or> e = ErrNotFound \<longrightarrow> (\<forall>v0. lookup s k \<noteq> Some (v0, rv)))
         \<and> (e = ErrNotFound \<longrightarrow> lookup s k = None)"
    and delete_if_succeeds: "ok s \<Longrightarrow> lookup s k = Some (v0, rv) \<Longrightarrow> \<exists>s'. sp_DeleteIfRevision P k rv s = (s', None)"
    and elapse_law: "ok s \<Longrightarrow> elapse s s' \<Longrightarrow> ok s' \<and> issued s' = issued s \<and> lookup s' \<subseteq>\<^sub>m lookup s"
begin

text \<open>A revision is spent under a key when it was handed out and no longer stands there.\<close>

definition spent :: "'s \<Rightarrow> string \<Rightarrow> revision \<Rightarrow> bool" where
  "spent s k r \<longleftrightarrow> r \<in> issued s \<and> (\<forall>v. lookup s k \<noteq> Some (v, r))"

lemma spent_create:
  "ok s \<Longrightarrow> sp_Create P k' v ttl s = (s', res) \<Longrightarrow> spent s k r \<Longrightarrow> spent s' k r"
  by (cases res) (use create_ok [of s k' v ttl s'] create_err [of s k' v ttl s'] in \<open>auto simp: spent_def\<close>)

lemma spent_update:
  "ok s \<Longrightarrow> sp_Update P k' v ttl rv s = (s', res) \<Longrightarrow> spent s k r \<Longrightarrow> spent s' k r"
  by (cases res) (use update_ok [of s k' v ttl rv s'] update_err [of s k' v ttl rv s'] in \<open>auto simp: spent_def\<close>)

lemma spent_delete_if:
  "ok s \<Longrightarrow> sp_DeleteIfRevision P k' rv s = (s', res) \<Longrightarrow> spent s k r \<Longrightarrow> spent s' k r"
  by (cases res)
    (use delete_if_ok [of s k' rv s'] delete_if_err [of s k' rv s'] in \<open>auto simp: spent_def\<close>)

lemma spent_elapse: "ok s \<Longrightarrow> elapse s s' \<Longrightarrow> spent s k r \<Longrightarrow> spent s' k r"
  using elapse_law [of s s'] by (auto simp: spent_def map_le_def dom_def)

text \<open>A write under a spent revision fails, and leaves everything as it is.\<close>

lemma spent_update_fails:
  assumes "ok s" and "spent s k r" and "sp_Update P k v ttl r s = (s', res)"
  shows "s' = s \<and> (\<exists>e. res = Inl e)"
  using assms update_ok [of s k v ttl r s'] update_err [of s k v ttl r s']
  by (cases res) (auto simp: spent_def)

end

end
