(* ===== verification/Memory_Store.thy ===== *)
theory Memory_Store
  imports Port_State
begin

text \<open>
  The in-memory adapter, \<open>src/internal/port/memory/memory.go\<close>: records with a lifetime and a revision,
  sets with their own expiry, whole-object blobs, and one counter for every revision and version. The
  clock is part of the state (\<open>now\<close> and \<open>offset\<close> together); the events announced to watchers are
  kept as a log, their delivery over channels is not modelled. The adapter satisfies the contract of
  the port: the theory ends with the interpretation of \<open>state_port\<close> on it.
\<close>

section \<open>State\<close>

record entry =
  e_value :: string
  e_rev :: revision
  e_expires :: "int option"

record mset_entry =
  s_members :: "string list"
  s_expires :: "int option"

record blob =
  b_body :: string
  b_version :: revision

record Event =
  ev_Key :: string
  ev_Revision :: revision
  ev_Deleted :: bool

record Store =
  st_now :: int
  st_rev :: nat
  st_records :: "entry table"
  st_sets :: "mset_entry table"
  st_blobs :: "blob table"
  st_events :: "Event list"

definition Store_New :: "int \<Rightarrow> Store" where
  "Store_New now = \<lparr>st_now = now, st_rev = 0, st_records = [], st_sets = [], st_blobs = [], st_events = []\<rparr>"

section \<open>Helpers\<close>

definition unexpired :: "int \<Rightarrow> int option \<Rightarrow> bool" where
  "unexpired now expires = (case expires of None \<Rightarrow> True | Some t \<Rightarrow> now < t)"

definition Store_live :: "Store \<Rightarrow> entry \<Rightarrow> bool" where
  "Store_live s e = unexpired (st_now s) (e_expires e)"

definition Store_expiry :: "Store \<Rightarrow> int \<Rightarrow> int option" where
  "Store_expiry s ttl = (if ttl \<le> 0 then None else Some (st_now s + ttl))"

definition emitLocked :: "Event \<Rightarrow> Store \<Rightarrow> Store" where
  "emitLocked ev s = s\<lparr>st_events := st_events s @ [ev]\<rparr>"

definition liveEntry :: "Store \<Rightarrow> string \<Rightarrow> entry option" where
  "liveEntry s key =
     (case map_of (st_records s) key of
        None \<Rightarrow> None | Some e \<Rightarrow> (if Store_live s e then Some e else None))"

definition Store_write :: "string \<Rightarrow> string \<Rightarrow> int \<Rightarrow> Store \<Rightarrow> Store \<times> revision" where
  "Store_write key value ttl s =
     (let rv = Suc (st_rev s);
          s1 = s\<lparr>st_rev := rv,
                 st_records := tput key \<lparr>e_value = value, e_rev = rv, e_expires = Store_expiry s ttl\<rparr> (st_records s)\<rparr>
      in (emitLocked \<lparr>ev_Key = key, ev_Revision = rv, ev_Deleted = False\<rparr> s1, rv))"

definition deleteLocked :: "string \<Rightarrow> Store \<Rightarrow> Store" where
  "deleteLocked key s =
     (case map_of (st_records s) key of
        None \<Rightarrow> s
      | Some e \<Rightarrow>
          emitLocked \<lparr>ev_Key = key, ev_Revision = e_rev e, ev_Deleted = True\<rparr>
            (s\<lparr>st_records := tdel key (st_records s)\<rparr>))"

definition sweep_key :: "string \<Rightarrow> Store \<Rightarrow> Store" where
  "sweep_key key s =
     (case map_of (st_records s) key of
        None \<Rightarrow> s | Some e \<Rightarrow> (if Store_live s e then s else deleteLocked key s))"

definition sweepLocked :: "Store \<Rightarrow> Store" where
  "sweepLocked s =
     (let s1 = fold sweep_key (tkeys (st_records s)) s
      in s1\<lparr>st_sets := filter (\<lambda>(k, m). unexpired (st_now s1) (s_expires m)) (st_sets s1)\<rparr>)"

definition Store_Advance :: "int \<Rightarrow> Store \<Rightarrow> Store" where
  "Store_Advance d s = sweepLocked (s\<lparr>st_now := st_now s + d\<rparr>)"

section \<open>State\<close>

definition Store_Get :: "string \<Rightarrow> Store \<Rightarrow> port_err + string \<times> revision" where
  "Store_Get key s =
     (case liveEntry s key of None \<Rightarrow> Inl ErrNotFound | Some e \<Rightarrow> Inr (e_value e, e_rev e))"

definition Store_Put :: "string \<Rightarrow> string \<Rightarrow> int \<Rightarrow> Store \<Rightarrow> Store \<times> (port_err + revision)" where
  "Store_Put key value ttl s =
     (case CheckWrite key value ttl of
        Some e \<Rightarrow> (s, Inl e)
      | None \<Rightarrow> (case Store_write key value ttl s of (s', rv) \<Rightarrow> (s', Inr rv)))"

definition Store_Create :: "string \<Rightarrow> string \<Rightarrow> int \<Rightarrow> Store \<Rightarrow> Store \<times> (port_err + revision)" where
  "Store_Create key value ttl s =
     (case CheckWrite key value ttl of
        Some e \<Rightarrow> (s, Inl e)
      | None \<Rightarrow>
          (case liveEntry s key of
             Some _ \<Rightarrow> (s, Inl ErrExists)
           | None \<Rightarrow> (case Store_write key value ttl s of (s', rv) \<Rightarrow> (s', Inr rv))))"

definition Store_Update ::
  "string \<Rightarrow> string \<Rightarrow> int \<Rightarrow> revision \<Rightarrow> Store \<Rightarrow> Store \<times> (port_err + revision)" where
  "Store_Update key value ttl rv s =
     (case CheckWrite key value ttl of
        Some e \<Rightarrow> (s, Inl e)
      | None \<Rightarrow>
          (case liveEntry s key of
             None \<Rightarrow> (s, Inl ErrNotFound)
           | Some e \<Rightarrow>
               (if e_rev e \<noteq> rv then (s, Inl ErrConflict)
                else case Store_write key value ttl s of (s', r) \<Rightarrow> (s', Inr r))))"

definition Store_Delete :: "string \<Rightarrow> Store \<Rightarrow> Store \<times> port_err option" where
  "Store_Delete key s = (deleteLocked key s, None)"

definition Store_DeleteIfRevision :: "string \<Rightarrow> revision \<Rightarrow> Store \<Rightarrow> Store \<times> port_err option" where
  "Store_DeleteIfRevision key rv s =
     (case liveEntry s key of
        None \<Rightarrow> (s, Some ErrNotFound)
      | Some e \<Rightarrow> (if e_rev e \<noteq> rv then (s, Some ErrConflict) else (deleteLocked key s, None)))"

definition memory_port :: "Store StatePort" where
  "memory_port = \<lparr>sp_Get = Store_Get, sp_Put = Store_Put, sp_Create = Store_Create, sp_Update = Store_Update,
     sp_Delete = Store_Delete, sp_DeleteIfRevision = Store_DeleteIfRevision\<rparr>"

section \<open>Index\<close>

definition live_set :: "Store \<Rightarrow> string \<Rightarrow> mset_entry option" where
  "live_set s key =
     (case map_of (st_sets s) key of
        None \<Rightarrow> None | Some m \<Rightarrow> (if unexpired (st_now s) (s_expires m) then Some m else None))"

definition Index_Add :: "string \<Rightarrow> string \<Rightarrow> int \<Rightarrow> Store \<Rightarrow> Store" where
  "Index_Add key member ttl s =
     (let m = (case live_set s key of None \<Rightarrow> \<lparr>s_members = [], s_expires = None\<rparr> | Some m \<Rightarrow> m);
          m1 = m\<lparr>s_members := List.insert member (s_members m)\<rparr>;
          m2 = (if ttl > 0 then m1\<lparr>s_expires := Store_expiry s ttl\<rparr> else m1)
      in s\<lparr>st_sets := tput key m2 (st_sets s)\<rparr>)"

definition Index_Remove :: "string \<Rightarrow> string \<Rightarrow> Store \<Rightarrow> Store" where
  "Index_Remove key member s =
     (case map_of (st_sets s) key of
        None \<Rightarrow> s
      | Some m \<Rightarrow> s\<lparr>st_sets := tput key (m\<lparr>s_members := removeAll member (s_members m)\<rparr>) (st_sets s)\<rparr>)"

definition Index_Members :: "string \<Rightarrow> Store \<Rightarrow> string list" where
  "Index_Members key s = (case live_set s key of None \<Rightarrow> [] | Some m \<Rightarrow> sort (s_members m))"

section \<open>Blobs\<close>

definition Blobs_Read :: "string \<Rightarrow> Store \<Rightarrow> port_err + string \<times> revision" where
  "Blobs_Read name s =
     (case map_of (st_blobs s) name of None \<Rightarrow> Inl ErrNotFound | Some b \<Rightarrow> Inr (b_body b, b_version b))"

definition putBlob :: "string \<Rightarrow> string \<Rightarrow> Store \<Rightarrow> Store \<times> revision" where
  "putBlob name body s =
     (let version = Suc (st_rev s)
      in (s\<lparr>st_rev := version, st_blobs := tput name \<lparr>b_body = body, b_version = version\<rparr> (st_blobs s)\<rparr>, version))"

definition Blobs_Write :: "string \<Rightarrow> string \<Rightarrow> Store \<Rightarrow> Store \<times> revision" where
  "Blobs_Write name body s = putBlob name body s"

definition Blobs_WriteIfVersion ::
  "string \<Rightarrow> string \<Rightarrow> revision \<Rightarrow> Store \<Rightarrow> Store \<times> (port_err + revision)" where
  "Blobs_WriteIfVersion name body version s =
     (case map_of (st_blobs s) name of
        None \<Rightarrow> (s, Inl ErrNotFound)
      | Some b \<Rightarrow>
          (if b_version b \<noteq> version then (s, Inl ErrConflict)
           else case putBlob name body s of (s', v) \<Rightarrow> (s', Inr v)))"

definition Blobs_Delete :: "string \<Rightarrow> Store \<Rightarrow> Store" where
  "Blobs_Delete name s = s\<lparr>st_blobs := tdel name (st_blobs s)\<rparr>"

definition Blobs_List :: "string \<Rightarrow> Store \<Rightarrow> string list" where
  "Blobs_List prefix s = filter (\<lambda>name. has_prefix name prefix) (tkeys (st_blobs s))"

text \<open>The objects are given under their names relative to the prefix.\<close>

definition Blobs_Replace :: "string \<Rightarrow> string table \<Rightarrow> Store \<Rightarrow> Store" where
  "Blobs_Replace prefix objects s =
     (let kept = filter (\<lambda>(name, b). case cut_prefix name prefix of
                   None \<Rightarrow> True | Some rest \<Rightarrow> has_key objects rest) (st_blobs s)
      in fold (\<lambda>name s. fst (putBlob (prefix @ name) (tget [] objects name) s)) (tkeys objects)
           (s\<lparr>st_blobs := kept\<rparr>))"

definition Blobs_ReadAll :: "string \<Rightarrow> Store \<Rightarrow> string table" where
  "Blobs_ReadAll prefix s =
     List.map_filter (\<lambda>name. case cut_prefix name prefix of
         None \<Rightarrow> None | Some rest \<Rightarrow> map_option (\<lambda>b. (rest, b_body b)) (map_of (st_blobs s) name))
       (tkeys (st_blobs s))"

section \<open>The adapter keeps the contract of the port\<close>

definition live_lookup :: "Store \<Rightarrow> string \<Rightarrow> (string \<times> revision) option" where
  "live_lookup s key = map_option (\<lambda>e. (e_value e, e_rev e)) (liveEntry s key)"

definition revisions :: "Store \<Rightarrow> revision set" where
  "revisions s = {r. 0 < r \<and> r \<le> st_rev s}"

definition store_ok :: "Store \<Rightarrow> bool" where
  "store_ok s = (\<forall>k e. map_of (st_records s) k = Some e \<longrightarrow> e_rev e \<in> revisions s)"

definition store_elapse :: "Store \<Rightarrow> Store \<Rightarrow> bool" where
  "store_elapse s s' = (\<exists>d\<ge>0. s' = Store_Advance d s)"

lemma CheckWrite_live: "CheckWrite k v ttl = None \<Longrightarrow> unexpired now (if ttl \<le> 0 then None else Some (now + ttl))"
  by (auto simp: CheckWrite_def err_simps unexpired_def)

lemma Store_write_laws:
  assumes "CheckWrite k v ttl = None" and "store_ok s" and "Store_write k v ttl s = (s', r)"
  shows "store_ok s' \<and> r \<notin> revisions s \<and> revisions s' = insert r (revisions s)
    \<and> live_lookup s' = (live_lookup s)(k \<mapsto> (v, r))"
proof -
  let ?e = "\<lparr>e_value = v, e_rev = r, e_expires = Store_expiry s ttl\<rparr>"
  have s': "st_records s' = tput k ?e (st_records s)" "st_now s' = st_now s" "st_rev s' = r" "r = Suc (st_rev s)"
    using assms(3) by (auto simp: Store_write_def Let_def emitLocked_def)
  have live: "Store_live s' ?e"
    using CheckWrite_live [OF assms(1)] s'(2) by (simp add: Store_live_def Store_expiry_def)
  have "live_lookup s' x = ((live_lookup s)(k \<mapsto> (v, r))) x" for x
    using live s' by (simp add: live_lookup_def liveEntry_def Store_live_def split: option.splits)
  moreover have "store_ok s'"
    using assms(2) s' by (auto simp: store_ok_def revisions_def) (metis le_SucI)
  ultimately show ?thesis using s' by (auto simp: revisions_def)
qed

lemma deleteLocked_laws:
  assumes "store_ok s"
  shows "store_ok (deleteLocked k s)" "revisions (deleteLocked k s) = revisions s"
    "live_lookup (deleteLocked k s) = (live_lookup s)(k := None)"
proof -
  show "revisions (deleteLocked k s) = revisions s"
    by (simp add: deleteLocked_def emitLocked_def revisions_def split: option.splits)
  show "store_ok (deleteLocked k s)"
    using assms by (auto simp: deleteLocked_def emitLocked_def store_ok_def revisions_def split: option.splits)
  show "live_lookup (deleteLocked k s) = (live_lookup s)(k := None)"
    by (rule ext) (auto simp: deleteLocked_def emitLocked_def live_lookup_def liveEntry_def Store_live_def
        split: option.splits)
qed

text \<open>Sweeping removes nothing that is live.\<close>

lemma sweep_key_laws:
  assumes "store_ok s"
  shows "store_ok (sweep_key k s)" "revisions (sweep_key k s) = revisions s" "st_now (sweep_key k s) = st_now s"
    "live_lookup (sweep_key k s) = live_lookup s"
proof -
  have dead: "live_lookup s k = None" if "map_of (st_records s) k = Some e" "\<not> Store_live s e" for e
    using that by (simp add: live_lookup_def liveEntry_def)
  show "store_ok (sweep_key k s)" "revisions (sweep_key k s) = revisions s"
    using assms deleteLocked_laws [OF assms, of k] by (auto simp: sweep_key_def split: option.splits)
  show "st_now (sweep_key k s) = st_now s"
    by (auto simp: sweep_key_def deleteLocked_def emitLocked_def split: option.splits)
  show "live_lookup (sweep_key k s) = live_lookup s"
    using deleteLocked_laws(3) [OF assms, of k] dead by (auto simp: sweep_key_def split: option.splits)
qed

lemma sweep_keys_laws:
  assumes "store_ok s"
  shows "store_ok (fold sweep_key ks s)" "revisions (fold sweep_key ks s) = revisions s"
    "live_lookup (fold sweep_key ks s) = live_lookup s"
  using assms by (induction ks arbitrary: s) (simp_all add: sweep_key_laws)

lemma sets_irrelevant [simp]:
  "store_ok (s\<lparr>st_sets := x\<rparr>) = store_ok s" "revisions (s\<lparr>st_sets := x\<rparr>) = revisions s"
  "live_lookup (s\<lparr>st_sets := x\<rparr>) = live_lookup s"
proof -
  show "live_lookup (s\<lparr>st_sets := x\<rparr>) = live_lookup s"
    by (rule ext) (simp add: live_lookup_def liveEntry_def Store_live_def split: option.splits)
qed (simp_all add: store_ok_def revisions_def)

lemma Store_Advance_laws:
  assumes "store_ok s" and "0 \<le> d"
  shows "store_ok (Store_Advance d s)" "revisions (Store_Advance d s) = revisions s"
    "live_lookup (Store_Advance d s) \<subseteq>\<^sub>m live_lookup s"
proof -
  let ?t = "s\<lparr>st_now := st_now s + d\<rparr>"
  have ok: "store_ok ?t" using assms(1) by (simp add: store_ok_def revisions_def)
  have sweep: "store_ok (sweepLocked ?t)" "revisions (sweepLocked ?t) = revisions ?t"
    "live_lookup (sweepLocked ?t) = live_lookup ?t"
    using sweep_keys_laws [OF ok, of "tkeys (st_records s)"]
    by (simp_all add: sweepLocked_def Let_def)
  have "live_lookup ?t \<subseteq>\<^sub>m live_lookup s"
    using assms(2)
    by (auto simp: map_le_def live_lookup_def liveEntry_def Store_live_def unexpired_def split: option.splits if_splits)
  then show "store_ok (Store_Advance d s)" "revisions (Store_Advance d s) = revisions s"
    "live_lookup (Store_Advance d s) \<subseteq>\<^sub>m live_lookup s"
    using sweep by (simp_all add: Store_Advance_def revisions_def)
qed

lemma live_lookup_Some: "live_lookup s k = Some (v, r) \<longleftrightarrow> (\<exists>e. liveEntry s k = Some e \<and> e_value e = v \<and> e_rev e = r)"
  by (auto simp: live_lookup_def)

lemma live_lookup_None: "live_lookup s k = None \<longleftrightarrow> liveEntry s k = None"
  by (simp add: live_lookup_def)

lemmas store_defs = memory_port_def Store_Get_def Store_Put_def Store_Create_def Store_Update_def
  Store_Delete_def Store_DeleteIfRevision_def

interpretation mem: state_port memory_port live_lookup revisions store_ok store_elapse
proof (unfold_locales, goal_cases)
  case (1 k s)
  then show ?case by (simp add: store_defs live_lookup_def split: option.splits)
next
  case (2 s k v r)
  then show ?case
    by (auto simp: live_lookup_def liveEntry_def store_ok_def split: option.splits if_splits)
next
  case (3 s k v ttl s' r)
  then show ?case using Store_write_laws [of k v ttl s s' r]
    by (auto simp: store_defs live_lookup_None split: option.splits prod.splits)
next
  case (4 s k v ttl s' e)
  then show ?case
    by (auto simp: store_defs live_lookup_None CheckWrite_def guard_err_def first_some.simps split: option.splits prod.splits if_splits)
next
  case (5 s k v ttl)
  then show ?case by (auto simp: store_defs live_lookup_None split: option.splits prod.splits)
next
  case (6 s k v ttl)
  then show ?case by (auto simp: store_defs live_lookup_None split: option.splits prod.splits)
next
  case (7 s k v ttl rv s' r)
  then show ?case using Store_write_laws [of k v ttl s s' r]
    by (auto simp: store_defs live_lookup_Some split: option.splits prod.splits if_splits)
next
  case (8 s k v ttl rv s' e)
  then show ?case
    by (auto simp: store_defs live_lookup_Some CheckWrite_def guard_err_def first_some.simps split: option.splits prod.splits if_splits)
next
  case (9 s k v ttl v0 rv)
  then show ?case by (auto simp: store_defs live_lookup_Some split: option.splits prod.splits)
next
  case (10 s k v ttl rv)
  then show ?case by (auto simp: store_defs live_lookup_Some split: option.splits prod.splits)
next
  case (11 s k v ttl s' r)
  then show ?case using Store_write_laws [of k v ttl s s' r]
    by (auto simp: store_defs split: option.splits prod.splits)
next
  case (12 s k v ttl s' e)
  then show ?case by (auto simp: store_defs split: option.splits prod.splits)
next
  case (13 s k s' e)
  then show ?case using deleteLocked_laws [of s k] by (auto simp: store_defs)
next
  case (14 s k rv s')
  then show ?case using deleteLocked_laws [of s k]
    by (auto simp: store_defs live_lookup_Some split: option.splits if_splits)
next
  case (15 s k rv s' e)
  then show ?case by (auto simp: store_defs live_lookup_Some live_lookup_None split: option.splits if_splits)
next
  case (16 s k v0 rv)
  then show ?case by (auto simp: store_defs live_lookup_Some split: option.splits)
next
  case (17 s s')
  then show ?case using Store_Advance_laws by (auto simp: store_elapse_def)
qed

section \<open>Lifetimes\<close>

lemma store_ok_New: "store_ok (Store_New t)"
  by (simp add: Store_New_def store_ok_def)

lemma live_lookup_Advance:
  assumes "store_ok s"
  shows "live_lookup (Store_Advance d s) = live_lookup (s\<lparr>st_now := st_now s + d\<rparr>)"
proof -
  have "store_ok (s\<lparr>st_now := st_now s + d\<rparr>)" using assms by (simp add: store_ok_def revisions_def)
  then show ?thesis by (simp add: Store_Advance_def sweepLocked_def Let_def sweep_keys_laws)
qed

lemma Store_Get_lookup: "Store_Get k s = (case live_lookup s k of None \<Rightarrow> Inl ErrNotFound | Some x \<Rightarrow> Inr x)"
  using mem.get_law [of k s] by (simp add: memory_port_def)

text \<open>
  A record written with a lifetime is readable, with the revision the write returned, for exactly
  that lifetime; writing it changes no other key.
\<close>
theorem record_lives_exactly_its_lifetime:
  assumes "store_ok s" and "Store_Put k v ttl s = (s', Inr r)" and "0 < ttl" and "0 \<le> d"
  shows "Store_Get k (Store_Advance d s') = (if d < ttl then Inr (v, r) else Inl ErrNotFound)
    \<and> (\<forall>k'. k' \<noteq> k \<longrightarrow> Store_Get k' s' = Store_Get k' s)"
proof
  have chk: "CheckWrite k v ttl = None" and w: "Store_write k v ttl s = (s', r)"
    using assms(2) by (auto simp: Store_Put_def split: option.splits prod.splits)
  note laws = Store_write_laws [OF chk assms(1) w]
  have rec: "map_of (st_records s') k = Some \<lparr>e_value = v, e_rev = r, e_expires = Some (st_now s + ttl)\<rparr>"
    "st_now s' = st_now s"
    using w assms(3) by (auto simp: Store_write_def Let_def emitLocked_def Store_expiry_def)
  then have "live_lookup (s'\<lparr>st_now := st_now s' + d\<rparr>) k = (if d < ttl then Some (v, r) else None)"
    by (simp add: live_lookup_def liveEntry_def Store_live_def unexpired_def)
  then show "Store_Get k (Store_Advance d s') = (if d < ttl then Inr (v, r) else Inl ErrNotFound)"
    using laws by (simp add: Store_Get_lookup live_lookup_Advance)
  show "\<forall>k'. k' \<noteq> k \<longrightarrow> Store_Get k' s' = Store_Get k' s"
    using laws by (simp add: Store_Get_lookup)
qed

theorem record_lives_witness:
  "Store_Get ''ses.a'' (Store_Advance 60 (fst (Store_Put ''ses.a'' ''v'' 60 (Store_New 0)))) = Inl ErrNotFound"
proof -
  have "Store_Put ''ses.a'' ''v'' 60 (Store_New 0) = (fst (Store_Put ''ses.a'' ''v'' 60 (Store_New 0)), Inr 1)"
    by code_simp
  from record_lives_exactly_its_lifetime [OF store_ok_New this, of 60] show ?thesis by simp
qed

text \<open>
  The in-memory adapter is a linearisable compare-and-swap register per key: an update takes effect
  exactly when the record is live under the caller's revision, and then installs a revision never
  handed out before.
\<close>
theorem update_is_compare_and_swap:
  assumes "store_ok s" and "CheckWrite k v ttl = None"
  shows "(case Store_Update k v ttl rv s of
      (s', Inr r) \<Rightarrow> (\<exists>v0. Store_Get k s = Inr (v0, rv)) \<and> Store_Get k s' = Inr (v, r) \<and> r \<notin> revisions s
    | (s', Inl e) \<Rightarrow> s' = s \<and> (\<forall>v0. Store_Get k s \<noteq> Inr (v0, rv)))"
proof (cases "\<exists>v0. live_lookup s k = Some (v0, rv)")
  case True
  then obtain v0 s' r where u: "live_lookup s k = Some (v0, rv)" "Store_Update k v ttl rv s = (s', Inr r)"
    using mem.update_succeeds [OF assms] by (auto simp: memory_port_def)
  show ?thesis using mem.update_ok [OF assms(1), of k v ttl rv s' r] u by (simp add: memory_port_def Store_Get_lookup)
next
  case False
  then obtain e where "Store_Update k v ttl rv s = (s, Inl e)"
    using mem.update_fails [OF assms] by (auto simp: memory_port_def)
  then show ?thesis using False by (auto simp: Store_Get_lookup split: option.splits)
qed

theorem update_is_compare_and_swap_witness:
  "Store_Get ''lease.a'' (fst (Store_Update ''lease.a'' ''w'' 60 1 (fst (Store_Create ''lease.a'' ''v'' 60 (Store_New 0)))))
     = Inr (''w'', 2)"
proof -
  let ?s = "fst (Store_Create ''lease.a'' ''v'' 60 (Store_New 0))"
  have "Store_Create ''lease.a'' ''v'' 60 (Store_New 0) = (?s, Inr 1)" by code_simp
  then have "store_ok ?s"
    using mem.create_ok [OF store_ok_New, of "''lease.a''" "''v''" 60 0 ?s 1] by (simp add: memory_port_def)
  have "CheckWrite ''lease.a'' ''w'' 60 = None" by code_simp
  have "snd (Store_Update ''lease.a'' ''w'' 60 1 ?s) = Inr 2" by code_simp
  then obtain t where t: "Store_Update ''lease.a'' ''w'' 60 1 ?s = (t, Inr 2)"
    by (cases "Store_Update ''lease.a'' ''w'' 60 1 ?s") simp
  show ?thesis
    using update_is_compare_and_swap [OF \<open>store_ok ?s\<close> \<open>CheckWrite ''lease.a'' ''w'' 60 = None\<close>, of 1, unfolded t] t
    by simp
qed

end
