(* ===== verification/Lease.thy ===== *)
theory Lease
  imports Memory_Store
begin

text \<open>
  The leases a reconciler runs under, \<open>src/internal/rails/lease.go\<close>: a lease is a record created with
  a lifetime, renewed by a compare-and-swap on the revision its holder was given, and released only
  while it is still the holder's. The operations are written over any storage port, as the code is;
  their correctness is proved once over the contract \<open>state_port\<close>, and reaches the in-memory adapter
  through its interpretation. Runners that share a store are the step relation \<open>lease_step\<close>: whatever
  they do and however time passes, at most one of them can act under a target's lease, and a lease
  once lost never comes back to life.
\<close>

section \<open>Operations\<close>

record Leases =
  l_Holder :: string
  l_TTL :: int

definition DefaultLeaseTTL :: int where
  "DefaultLeaseTTL = 2 * 60 * 1000000000"

definition Leases_ttl :: "Leases \<Rightarrow> int" where
  "Leases_ttl l = (if l_TTL l > 0 then l_TTL l else DefaultLeaseTTL)"

definition lease_key :: "string \<Rightarrow> string \<Rightarrow> string" where
  "lease_key kind target = ''lease.'' @ kind @ '':'' @ target"

record Lease =
  x_owner :: Leases
  x_key :: string
  x_rev :: revision

datatype lease_err = ErrHeld | ErrLost | LeaseStore port_err

definition Acquire :: "'s StatePort \<Rightarrow> Leases \<Rightarrow> string \<Rightarrow> string \<Rightarrow> 's \<Rightarrow> 's \<times> (lease_err + Lease)" where
  "Acquire P l kind target s =
     (let key = lease_key kind target
      in case sp_Create P key (l_Holder l) (Leases_ttl l) s of
           (s', Inl ErrExists) \<Rightarrow> (s', Inl ErrHeld)
         | (s', Inl e) \<Rightarrow> (s', Inl (LeaseStore e))
         | (s', Inr r) \<Rightarrow> (s', Inr \<lparr>x_owner = l, x_key = key, x_rev = r\<rparr>))"

text \<open>The lease itself carries the revision a later renewal must match.\<close>

definition Renew :: "'s StatePort \<Rightarrow> Lease \<Rightarrow> 's \<Rightarrow> 's \<times> Lease \<times> lease_err option" where
  "Renew P x s =
     (case sp_Update P (x_key x) (l_Holder (x_owner x)) (Leases_ttl (x_owner x)) (x_rev x) s of
        (s', Inr r) \<Rightarrow> (s', x\<lparr>x_rev := r\<rparr>, None)
      | (s', Inl e) \<Rightarrow>
          (s', x, Some (if e = ErrConflict \<or> e = ErrNotFound then ErrLost else LeaseStore e)))"

definition Release :: "'s StatePort \<Rightarrow> Lease \<Rightarrow> 's \<Rightarrow> 's \<times> port_err option" where
  "Release P x s =
     (case sp_DeleteIfRevision P (x_key x) (x_rev x) s of
        (s', None) \<Rightarrow> (s', None)
      | (s', Some e) \<Rightarrow> (s', if e = ErrConflict \<or> e = ErrNotFound then None else Some e))"

text \<open>
  What the keeper of a lease does after one attempt to renew it: it cancels the tick when the lease is
  lost or could not be renewed for its whole lifetime, ends with the tick's own context, and tries
  again otherwise. The result carries the time of the last renewal that worked.
\<close>

datatype keep_next = KeepGood int | KeepCancel | KeepEnd | KeepRetry int

definition keep_step :: "Leases \<Rightarrow> lease_err option \<Rightarrow> bool \<Rightarrow> int \<Rightarrow> int \<Rightarrow> keep_next" where
  "keep_step l err over now lastGood =
     (case err of
        None \<Rightarrow> KeepGood now
      | Some ErrLost \<Rightarrow> KeepCancel
      | Some _ \<Rightarrow> (if over then KeepEnd
                  else if now - lastGood \<ge> Leases_ttl l then KeepCancel else KeepRetry lastGood))"

section \<open>Runners that share a store\<close>

text \<open>The store, and the lease each runner believes it holds on each key.\<close>

record 's fleet =
  f_store :: 's
  f_held :: "string \<times> string \<Rightarrow> Lease option"

inductive lease_step :: "'s StatePort \<Rightarrow> ('s \<Rightarrow> 's \<Rightarrow> bool) \<Rightarrow> 's fleet \<Rightarrow> 's fleet \<Rightarrow> bool"
  for P elapse where
  acquired: "Acquire P l kind target (f_store f) = (s', Inr x) \<Longrightarrow>
     lease_step P elapse f \<lparr>f_store = s', f_held = (f_held f)((l_Holder l, x_key x) \<mapsto> x)\<rparr>"
| refused: "Acquire P l kind target (f_store f) = (s', Inl e) \<Longrightarrow> lease_step P elapse f (f\<lparr>f_store := s'\<rparr>)"
| renewed: "f_held f (h, k) = Some x \<Longrightarrow> Renew P x (f_store f) = (s', x', err) \<Longrightarrow>
     lease_step P elapse f
       \<lparr>f_store = s', f_held = (f_held f)((h, k) := (if err = Some ErrLost then None else Some x'))\<rparr>"
| released: "f_held f (h, k) = Some x \<Longrightarrow> Release P x (f_store f) = (s', err) \<Longrightarrow>
     lease_step P elapse f \<lparr>f_store = s', f_held = (f_held f)((h, k) := None)\<rparr>"
| waited: "elapse (f_store f) s' \<Longrightarrow> lease_step P elapse f (f\<lparr>f_store := s'\<rparr>)"

inductive fleet_reach :: "'s StatePort \<Rightarrow> ('s \<Rightarrow> 's \<Rightarrow> bool) \<Rightarrow> 's fleet \<Rightarrow> 's fleet \<Rightarrow> bool"
  for P elapse f where
  reach_start: "fleet_reach P elapse f f"
| reach_step: "fleet_reach P elapse f g \<Longrightarrow> lease_step P elapse g g' \<Longrightarrow> fleet_reach P elapse f g'"

definition no_leases :: "'s \<Rightarrow> 's fleet" where
  "no_leases s = \<lparr>f_store = s, f_held = (\<lambda>_. None)\<rparr>"

section \<open>Correctness over the contract of the port\<close>

context state_port
begin

text \<open>A lease is in force when the store still holds it under its revision.\<close>

definition in_force :: "'s \<Rightarrow> Lease \<Rightarrow> bool" where
  "in_force s x \<longleftrightarrow> (\<exists>v. lookup s (x_key x) = Some (v, x_rev x))"

lemma Acquire_ok:
  assumes "ok s" and "Acquire P l kind target s = (s', Inr x)"
  shows "ok s' \<and> lookup s (x_key x) = None \<and> x_rev x \<notin> issued s \<and> issued s' = insert (x_rev x) (issued s)
    \<and> lookup s' = (lookup s)(x_key x \<mapsto> (l_Holder l, x_rev x)) \<and> x_owner x = l \<and> x_key x = lease_key kind target"
proof -
  obtain r where "sp_Create P (lease_key kind target) (l_Holder l) (Leases_ttl l) s = (s', Inr r)"
    "x = \<lparr>x_owner = l, x_key = lease_key kind target, x_rev = r\<rparr>"
    using assms(2) by (auto simp: Acquire_def Let_def split: prod.splits sum.splits port_err.splits)
  then show ?thesis using create_ok [OF assms(1)] by simp
qed

lemma Acquire_err:
  assumes "ok s" and "Acquire P l kind target s = (s', Inl e)"
  shows "s' = s"
  using assms create_err [OF assms(1)]
  by (auto simp: Acquire_def Let_def split: prod.splits sum.splits port_err.splits)

lemma Acquire_held:
  assumes "ok s" and "CheckWrite (lease_key kind target) (l_Holder l) (Leases_ttl l) = None"
  shows "Acquire P l kind target s = (s, Inl ErrHeld) \<longleftrightarrow> lookup s (lease_key kind target) \<noteq> None"
proof (cases "lookup s (lease_key kind target) = None")
  case True
  then obtain s' r where "sp_Create P (lease_key kind target) (l_Holder l) (Leases_ttl l) s = (s', Inr r)"
    using create_succeeds [OF assms] by blast
  then show ?thesis using True by (simp add: Acquire_def)
next
  case False
  then show ?thesis using create_exists [OF assms] by (simp add: Acquire_def)
qed

lemma Renew_ok:
  assumes "ok s" and "Renew P x s = (s', x', None)"
  shows "ok s' \<and> in_force s x \<and> x_rev x' \<notin> issued s \<and> issued s' = insert (x_rev x') (issued s)
    \<and> lookup s' = (lookup s)(x_key x \<mapsto> (l_Holder (x_owner x), x_rev x'))
    \<and> x_key x' = x_key x \<and> x_owner x' = x_owner x"
proof -
  obtain r where "sp_Update P (x_key x) (l_Holder (x_owner x)) (Leases_ttl (x_owner x)) (x_rev x) s = (s', Inr r)"
    "x' = x\<lparr>x_rev := r\<rparr>"
    using assms(2) by (auto simp: Renew_def split: prod.splits sum.splits)
  then show ?thesis using update_ok [OF assms(1)] by (simp add: in_force_def)
qed

lemma Renew_err:
  assumes "ok s" and "Renew P x s = (s', x', Some e)"
  shows "s' = s \<and> x' = x \<and> (e = ErrLost \<longrightarrow> \<not> in_force s x)"
proof -
  obtain e' where u: "sp_Update P (x_key x) (l_Holder (x_owner x)) (Leases_ttl (x_owner x)) (x_rev x) s = (s', Inl e')"
    and e: "x' = x" "e = (if e' = ErrConflict \<or> e' = ErrNotFound then ErrLost else LeaseStore e')"
    using assms(2) by (auto simp: Renew_def split: prod.splits sum.splits)
  show ?thesis using update_err [OF assms(1) u] e by (auto simp: in_force_def split: if_splits)
qed

lemma Release_laws:
  assumes "ok s" and "Release P x s = (s', e)"
  shows "ok s' \<and> issued s' = issued s \<and> lookup s' \<subseteq>\<^sub>m lookup s \<and> (e = None \<longrightarrow> \<not> in_force s' x)"
proof (cases "sp_DeleteIfRevision P (x_key x) (x_rev x) s")
  case (Pair t res)
  then show ?thesis
    using assms delete_if_ok [OF assms(1), of "x_key x" "x_rev x" t] delete_if_err [OF assms(1), of "x_key x" "x_rev x" t]
    by (cases res) (auto simp: Release_def in_force_def map_le_def split: if_splits)
qed

text \<open>What holds of a fleet: every lease is filed under its holder and key, and the store names its holder.\<close>

definition filed :: "'s \<Rightarrow> string \<Rightarrow> string \<Rightarrow> Lease \<Rightarrow> bool" where
  "filed s h k x \<longleftrightarrow> x_key x = k \<and> l_Holder (x_owner x) = h \<and> x_rev x \<in> issued s
     \<and> (\<forall>v. lookup s k = Some (v, x_rev x) \<longrightarrow> v = h)"

definition fleet_inv :: "'s fleet \<Rightarrow> bool" where
  "fleet_inv f \<longleftrightarrow> ok (f_store f) \<and> (\<forall>h k x. f_held f (h, k) = Some x \<longrightarrow> filed (f_store f) h k x)"

lemma fleet_inv_ok: "fleet_inv f \<Longrightarrow> ok (f_store f)"
  by (simp add: fleet_inv_def)

lemma fleet_inv_filed: "fleet_inv f \<Longrightarrow> f_held f (h, k) = Some x \<Longrightarrow> filed (f_store f) h k x"
  by (simp add: fleet_inv_def)

lemma fleet_inv_start: "ok s \<Longrightarrow> fleet_inv (no_leases s)"
  by (simp add: fleet_inv_def no_leases_def)

lemma filed_shrink:
  "filed s h k x \<Longrightarrow> issued s' = issued s \<Longrightarrow> lookup s' \<subseteq>\<^sub>m lookup s \<Longrightarrow> filed s' h k x"
  unfolding filed_def map_le_def by (metis domI)

lemma fleet_inv_shrink:
  assumes "fleet_inv f" and "ok s'" and "issued s' = issued (f_store f)" and "lookup s' \<subseteq>\<^sub>m lookup (f_store f)"
    and "held \<subseteq>\<^sub>m f_held f"
  shows "fleet_inv \<lparr>f_store = s', f_held = held\<rparr>"
proof -
  have "filed s' h k x" if "held (h, k) = Some x" for h k x
  proof -
    have "f_held f (h, k) = Some x" using assms(5) that by (metis domI map_le_def)
    from filed_shrink [OF fleet_inv_filed [OF assms(1) this] assms(3,4)] show ?thesis .
  qed
  then show ?thesis using assms(2) by (simp add: fleet_inv_def)
qed

lemma fleet_inv_write:
  assumes "fleet_inv f" and "ok s'" and "r \<notin> issued (f_store f)" and "issued s' = insert r (issued (f_store f))"
    and "lookup s' = (lookup (f_store f))(k \<mapsto> (h, r))"
    and "x_key x = k" "l_Holder (x_owner x) = h" "x_rev x = r"
  shows "fleet_inv \<lparr>f_store = s', f_held = (f_held f)((h, k) \<mapsto> x)\<rparr>"
proof -
  have "filed s' h' k' y" if "((f_held f)((h, k) \<mapsto> x)) (h', k') = Some y" for h' k' y
  proof (cases "(h', k') = (h, k)")
    case True
    then show ?thesis using that assms(4-8) by (auto simp: filed_def)
  next
    case False
    then have "filed (f_store f) h' k' y" using that fleet_inv_filed [OF assms(1)] by (simp split: if_splits)
    then show ?thesis using assms(3-5) by (auto simp: filed_def split: if_splits)
  qed
  then show ?thesis using assms(2) by (simp add: fleet_inv_def)
qed

lemma fleet_inv_step:
  assumes "fleet_inv f" and "lease_step P elapse f f'"
  shows "fleet_inv f'"
proof -
  note o = fleet_inv_ok [OF assms(1)]
  show ?thesis using assms(2)
  proof cases
    case (acquired l kind target s' x)
    then show ?thesis
      using Acquire_ok [OF o acquired(2)] fleet_inv_write [OF assms(1), of s' "x_rev x" "x_key x" "l_Holder l" x] by simp
  next
    case (refused l kind target s' e)
    then show ?thesis using Acquire_err [OF o refused(2)] assms(1) by simp
  next
    case (renewed h k x s' x' err)
    have x: "x_key x = k" "l_Holder (x_owner x) = h"
      using fleet_inv_filed [OF assms(1) renewed(2)] by (simp_all add: filed_def)
    show ?thesis
    proof (cases err)
      case None
      note n = Renew_ok [OF o renewed(3) [unfolded None]]
      show ?thesis unfolding renewed(1)
        using None n x fleet_inv_write [OF assms(1), of s' "x_rev x'" k h x'] by simp
    next
      case (Some e)
      note n = Renew_err [OF o renewed(3) [unfolded Some]]
      have sub: "(f_held f)((h, k) := (if err = Some ErrLost then None else Some x')) \<subseteq>\<^sub>m f_held f"
        using n renewed(2) by (auto simp: map_le_def)
      show ?thesis unfolding renewed(1) using n o by (intro fleet_inv_shrink [OF assms(1) _ _ _ sub]) auto
    qed
  next
    case (released h k x s' err)
    have sub: "(f_held f)((h, k) := None) \<subseteq>\<^sub>m f_held f" by (auto simp: map_le_def)
    show ?thesis unfolding released(1)
      using Release_laws [OF o released(3)] by (intro fleet_inv_shrink [OF assms(1) _ _ _ sub]) auto
  next
    case (waited s')
    have "fleet_inv \<lparr>f_store = s', f_held = f_held f\<rparr>"
      using elapse_law [OF o waited(2)] by (intro fleet_inv_shrink [OF assms(1)]) auto
    then show ?thesis using waited(1) by (cases f) simp
  qed
qed

lemma fleet_inv_reach:
  assumes "ok s" and "fleet_reach P elapse (no_leases s) f"
  shows "fleet_inv f"
  using assms(2)
proof (induction rule: fleet_reach.induct)
  case reach_start
  then show ?case using fleet_inv_start assms(1) by blast
next
  case (reach_step g g')
  then show ?case using fleet_inv_step by blast
qed

text \<open>At most one runner's lease on a key is in force.\<close>

lemma one_lease_in_force:
  assumes "fleet_inv f" and "f_held f (h, k) = Some x" "in_force (f_store f) x"
    and "f_held f (h', k) = Some x'" "in_force (f_store f) x'"
  shows "h = h' \<and> x_rev x = x_rev x'"
proof -
  note y = fleet_inv_filed [OF assms(1,2)] fleet_inv_filed [OF assms(1,4)]
  obtain v v' where "lookup (f_store f) k = Some (v, x_rev x)" "lookup (f_store f) k = Some (v', x_rev x')"
    using assms(3,5) y by (auto simp: in_force_def filed_def)
  moreover from this have "v = h" "v' = h'" using y by (auto simp: filed_def)
  ultimately show ?thesis by simp
qed

lemma renewal_needs_force:
  assumes "ok s" and "Renew P x s = (s', x', None)"
  shows "in_force s x"
  using Renew_ok [OF assms] by blast

text \<open>A lease that is no longer in force never is again, so a runner that lost one cannot renew it later.\<close>

lemma spent_step:
  assumes "fleet_inv f" and "lease_step P elapse f f'" and "spent (f_store f) k r"
  shows "spent (f_store f') k r"
proof -
  note o = fleet_inv_ok [OF assms(1)]
  show ?thesis using assms(2)
  proof cases
    case (acquired l kind target s' x)
    then show ?thesis using Acquire_ok [OF o acquired(2)] assms(3) by (auto simp: spent_def)
  next
    case (refused l kind target s' e)
    then show ?thesis using Acquire_err [OF o refused(2)] assms(3) by simp
  next
    case (renewed h k' x s' x' err)
    show ?thesis
    proof (cases err)
      case None
      then show ?thesis using Renew_ok [OF o renewed(3) [unfolded None]] assms(3) renewed(1) by (auto simp: spent_def)
    next
      case (Some e)
      then show ?thesis using Renew_err [OF o renewed(3) [unfolded Some]] assms(3) renewed(1) by simp
    qed
  next
    case (released h k' x s' err)
    then show ?thesis using Release_laws [OF o released(3)] assms(3)
      by (auto simp: spent_def map_le_def dom_def)
  next
    case (waited s')
    then show ?thesis using spent_elapse [OF o waited(2) assms(3)] by simp
  qed
qed

lemma lost_stays_lost:
  assumes "fleet_reach P elapse f g" and "fleet_inv f" and "spent (f_store f) k r"
  shows "fleet_inv g \<and> spent (f_store g) k r"
  using assms
proof (induction rule: fleet_reach.induct)
  case (reach_step g g')
  then show ?case using fleet_inv_step spent_step by blast
qed simp

end

section \<open>Leases on the in-memory store\<close>

abbreviation mem_reach :: "Store fleet \<Rightarrow> Store fleet \<Rightarrow> bool" where
  "mem_reach \<equiv> fleet_reach memory_port store_elapse"

text \<open>A target leased by one runner whose lease runs out, and then by another.\<close>

definition runner :: "string \<Rightarrow> Leases" where
  "runner name = \<lparr>l_Holder = name, l_TTL = 60\<rparr>"

definition k1 :: string where "k1 = lease_key ''github'' ''acme''"

definition after_a :: Store where
  "after_a = fst (Acquire memory_port (runner ''a'') ''github'' ''acme'' (Store_New 0))"

definition lease_a :: Lease where "lease_a = \<lparr>x_owner = runner ''a'', x_key = k1, x_rev = 1\<rparr>"

definition after_b :: Store where
  "after_b = fst (Acquire memory_port (runner ''b'') ''github'' ''acme'' (Store_Advance 100 after_a))"

definition lease_b :: Lease where "lease_b = \<lparr>x_owner = runner ''b'', x_key = k1, x_rev = 2\<rparr>"

definition fleet_ab :: "Store fleet" where
  "fleet_ab = \<lparr>f_store = after_b, f_held = [(''a'', k1) \<mapsto> lease_a, (''b'', k1) \<mapsto> lease_b]\<rparr>"

lemma fleet_ab_reach: "mem_reach (no_leases (Store_New 0)) fleet_ab"
proof -
  let ?f0 = "no_leases (Store_New 0)"
  let ?f1 = "\<lparr>f_store = after_a, f_held = [(''a'', k1) \<mapsto> lease_a]\<rparr>"
  let ?f2 = "\<lparr>f_store = Store_Advance 100 after_a, f_held = [(''a'', k1) \<mapsto> lease_a]\<rparr>"
  have "Acquire memory_port (runner ''a'') ''github'' ''acme'' (Store_New 0) = (after_a, Inr lease_a)" by code_simp
  then have s1: "lease_step memory_port store_elapse ?f0 ?f1"
    using acquired [of memory_port "runner ''a''" "''github''" "''acme''" ?f0 after_a lease_a store_elapse]
    by (simp add: no_leases_def lease_a_def runner_def)
  have "store_elapse after_a (Store_Advance 100 after_a)" by (auto simp: store_elapse_def intro!: exI [of _ 100])
  then have s2: "lease_step memory_port store_elapse ?f1 ?f2"
    using waited [of store_elapse ?f1 "Store_Advance 100 after_a" memory_port] by simp
  have "Acquire memory_port (runner ''b'') ''github'' ''acme'' (Store_Advance 100 after_a) = (after_b, Inr lease_b)"
    by code_simp
  then have s3: "lease_step memory_port store_elapse ?f2 fleet_ab"
    using acquired [of memory_port "runner ''b''" "''github''" "''acme''" ?f2 after_b lease_b store_elapse]
    by (simp add: fleet_ab_def lease_b_def runner_def)
  show ?thesis by (rule reach_step [OF reach_step [OF reach_step [OF reach_start s1] s2] s3])
qed



text \<open>
  A lease that was lost stays lost: once a runner's renewal is refused because the record moved or
  went, every later attempt under that lease fails too and changes nothing, whatever happens between.
\<close>
theorem lost_lease_never_revives:
  assumes "mem_reach (no_leases (Store_New t)) f" and "f_held f (h, k) = Some x"
    and "Renew memory_port x (f_store f) = (s, y, Some ErrLost)" and "mem_reach f g"
  shows "\<exists>e. Renew memory_port x (f_store g) = (f_store g, x, Some e)"
proof -
  have inv: "mem.fleet_inv f" using mem.fleet_inv_reach [OF store_ok_New assms(1)] .
  note ok = mem.fleet_inv_ok [OF inv] and filed = mem.fleet_inv_filed [OF inv assms(2)]
  have "\<not> mem.in_force (f_store f) x" using mem.Renew_err [OF ok assms(3)] by blast
  then have "mem.spent (f_store f) k (x_rev x)"
    using filed by (simp add: mem.spent_def mem.in_force_def mem.filed_def)
  from mem.lost_stays_lost [OF assms(4) inv this] have g: "mem.fleet_inv g" "mem.spent (f_store g) k (x_rev x)"
    by blast+
  have key: "x_key x = k" using filed by (simp add: mem.filed_def)
  obtain s' y' e where r: "Renew memory_port x (f_store g) = (s', y', e)" by (metis prod_cases3)
  show ?thesis
  proof (cases e)
    case None
    have "mem.in_force (f_store g) x"
      using mem.renewal_needs_force [OF mem.fleet_inv_ok [OF g(1)] r [unfolded None]] .
    then show ?thesis using g(2) key by (simp add: mem.in_force_def mem.spent_def)
  next
    case (Some er)
    then show ?thesis using mem.Renew_err [OF mem.fleet_inv_ok [OF g(1)] r [unfolded Some]] r by blast
  qed
qed

theorem lost_lease_witness: "\<exists>e. Renew memory_port lease_a after_b = (after_b, lease_a, Some e)"
proof -
  have "Renew memory_port lease_a (f_store fleet_ab) = (after_b, lease_a, Some ErrLost)" by code_simp
  moreover have "f_held fleet_ab (''a'', k1) = Some lease_a" by (simp add: fleet_ab_def)
  ultimately show ?thesis
    using lost_lease_never_revives [OF fleet_ab_reach _ _ reach_start] by (simp add: fleet_ab_def)
qed

text \<open>
  A free target can be leased and a leased one is refused: for a runner whose record the port
  accepts, \<open>Acquire\<close> reports the target held exactly when a live lease stands on it.
\<close>
theorem acquire_refuses_exactly_held:
  assumes "store_ok s" and "CheckWrite (lease_key kind target) (l_Holder l) (Leases_ttl l) = None"
  shows "Acquire memory_port l kind target s = (s, Inl ErrHeld) \<longleftrightarrow> live_lookup s (lease_key kind target) \<noteq> None"
  using mem.Acquire_held [OF assms] .

theorem acquire_refuses_witness:
  "live_lookup after_b (lease_key ''github'' ''acme'') \<noteq> None"
proof -
  have "store_ok after_b"
    using mem.fleet_inv_ok [OF mem.fleet_inv_reach [OF store_ok_New fleet_ab_reach]] by (simp add: fleet_ab_def)
  moreover have "CheckWrite (lease_key ''github'' ''acme'') (l_Holder (runner ''a'')) (Leases_ttl (runner ''a'')) = None"
    by code_simp
  moreover have "Acquire memory_port (runner ''a'') ''github'' ''acme'' after_b = (after_b, Inl ErrHeld)" by code_simp
  ultimately show ?thesis using acquire_refuses_exactly_held by blast
qed

end
