(* ===== verification/Rails.thy ===== *)
theory Rails
  imports Go_Prelude "HOL-Library.Multiset"
begin

text \<open>
  What every reconciler shares, \<open>src/internal/rails\<close>: the directory's vouches and the guard that ties
  them to one policy, the confirmation of removals, the mass-removal breaker, the ledger of what was
  reported, the outcome of a tick, the gap between recorded passes and the pacing of the loop. The
  calls to the console are functions passed in, as the code passes them. SHA-256 is the argument \<open>sha\<close>
  of \<open>Fingerprint\<close>.
\<close>

section \<open>The directory's answers\<close>

record Holder =
  ho_Email :: string
  ho_Live :: bool

type_synonym Holders = "Holder list table"

record Vouch =
  v_Authoritative :: bool
  v_Found :: bool
  v_Suspended :: bool
  v_Groups :: "string list"
  v_DirectoryGroups :: "string list"

definition Vouch_Gone :: "Vouch \<Rightarrow> bool" where
  "Vouch_Gone v = (v_Authoritative v \<and> (\<not> v_Found v \<or> v_Suspended v))"

text \<open>\<open>PolicyGuard.Check\<close>: nothing is accepted under another policy, nor without one.\<close>

datatype rails_err = ErrPolicyDiffers string string | AskErr string

definition PolicyGuard_Check :: "string \<Rightarrow> string \<Rightarrow> rails_err option" where
  "PolicyGuard_Check own digest =
     guard_err (own = [] \<or> digest \<noteq> own) (ErrPolicyDiffers digest own)"

text \<open>\<open>ListHolders\<close> answers the holders, the digest it answered under, and whether the list was cut.\<close>

type_synonym list_holders = "string \<Rightarrow> rails_err + Holder list \<times> string \<times> bool"

definition add_holders :: "string \<Rightarrow> list_holders \<Rightarrow> string \<Rightarrow> Holders \<Rightarrow> rails_err + Holders" where
  "add_holders own list name out =
     (case list name of
        Inl e \<Rightarrow> Inl e
      | Inr (hs, digest, truncated) \<Rightarrow>
          (case PolicyGuard_Check own digest of
             Some e \<Rightarrow> Inl e
           | None \<Rightarrow> Inr (if hs = [] then out else tput name (tget [] out name @ hs) out)))"

definition Directory_Holders :: "string \<Rightarrow> list_holders \<Rightarrow> string list \<Rightarrow> rails_err + Holders" where
  "Directory_Holders own list names = fold_err (add_holders own list) (sort_compact names) []"

section \<open>Confirming removals\<close>

definition is_policy_differs :: "rails_err \<Rightarrow> bool" where
  "is_policy_differs e = (case e of ErrPolicyDiffers _ _ \<Rightarrow> True | AskErr _ \<Rightarrow> False)"

definition confirm_one ::
  "string \<Rightarrow> (string \<Rightarrow> rails_err + 'v \<times> string) \<Rightarrow> string \<Rightarrow> 'v table \<times> bool \<Rightarrow> 'v table \<times> bool" where
  "confirm_one own ask candidate st =
     (case st of (out, otherPolicy) \<Rightarrow>
        (case ask candidate of
           Inl _ \<Rightarrow> (out, otherPolicy)
         | Inr (value, digest) \<Rightarrow>
             (case PolicyGuard_Check own digest of
                Some e \<Rightarrow> (out, otherPolicy \<or> is_policy_differs e)
              | None \<Rightarrow> (tput candidate value out, otherPolicy))))"

definition Confirm :: "string list \<Rightarrow> string \<Rightarrow> (string \<Rightarrow> rails_err + 'v \<times> string) \<Rightarrow> 'v table \<times> bool" where
  "Confirm candidates own ask = fold (confirm_one own ask) candidates ([], False)"

definition holdsAny :: "string list \<Rightarrow> string list \<Rightarrow> bool" where
  "holdsAny held wanted = list_ex (\<lambda>g. g \<in> set held) wanted"

text \<open>Why a removal is not made: nothing to say when the person still holds a wanted group.\<close>

datatype keep_reason = NotAsked string | CannotVouch string | StillHolds

fun Removal :: "string list \<Rightarrow> Vouch table \<Rightarrow> string list \<Rightarrow> keep_reason option" where
  "Removal [] vouches wanted = None"
| "Removal (email # emails) vouches wanted =
     (case map_of vouches email of
        None \<Rightarrow> Some (NotAsked email)
      | Some v \<Rightarrow>
          (if \<not> v_Authoritative v then Some (CannotVouch email)
           else if v_Found v \<and> \<not> v_Suspended v
                   \<and> (holdsAny (v_Groups v) wanted \<or> holdsAny (v_DirectoryGroups v) wanted)
           then Some StillHolds
           else Removal emails vouches wanted))"

section \<open>The mass-removal breaker\<close>

definition hex_digit :: "nat \<Rightarrow> char" where
  "hex_digit n = (if n < 10 then char_of (48 + n) else char_of (87 + n))"

definition hex_of :: "string \<Rightarrow> string" where
  "hex_of s = concat (map (\<lambda>c. let n = of_char c in [hex_digit (n div 16), hex_digit (n mod 16)]) s)"

definition Fingerprint :: "(string \<Rightarrow> string) \<Rightarrow> string list \<Rightarrow> string" where
  "Fingerprint sha ls = hex_of (take 8 (sha (join [CHR 0x0A] (sort ls))))"

record Breaker =
  br_Affected :: int
  br_Total :: int
  br_Fingerprint :: string
  br_Confirmed :: bool

definition CheckBreaker :: "(string \<Rightarrow> string) \<Rightarrow> int \<Rightarrow> string list \<Rightarrow> int \<Rightarrow> string \<Rightarrow> Breaker option" where
  "CheckBreaker sha affected ls members confirmed =
     (if members = 0 \<or> affected * 2 \<le> members then None
      else Some \<lparr>br_Affected = affected, br_Total = members, br_Fingerprint = Fingerprint sha ls,
                 br_Confirmed = (confirmed \<noteq> [] \<and> confirmed = Fingerprint sha ls)\<rparr>)"

section \<open>The ledger\<close>

type_synonym Ledger = "string list table"

text \<open>Which of the keys reported now were not in the report before, which \<open>seed\<close> stands in for at first.\<close>

definition Ledger_Fresh :: "Ledger \<Rightarrow> string \<Rightarrow> string list \<Rightarrow> string list \<Rightarrow> Ledger \<times> bool list" where
  "Ledger_Fresh l target now seed =
     (let last = (case map_of l target of Some ks \<Rightarrow> ks | None \<Rightarrow> seed)
      in (tput target now l, map (\<lambda>key. key \<notin> set last) now))"

section \<open>Ticks, passes and pacing\<close>

record Tick =
  t_Changes :: int
  t_Held :: int
  t_Retrying :: int
  t_Waiting :: int

datatype Outcome = OutcomeDryRun | OutcomeApplied | OutcomeHeld | OutcomeRetrying | OutcomeWaiting | OutcomeInSync

definition Switch_Decide :: "bool \<Rightarrow> Tick \<Rightarrow> Outcome" where
  "Switch_Decide on t =
     (if \<not> on \<and> (t_Changes t > 0 \<or> t_Held t > 0 \<or> t_Retrying t > 0) then OutcomeDryRun
      else if t_Changes t > 0 then OutcomeApplied
      else if t_Held t > 0 then OutcomeHeld
      else if t_Retrying t > 0 then OutcomeRetrying
      else if t_Waiting t > 0 then OutcomeWaiting
      else OutcomeInSync)"

definition PassGap :: int where "PassGap = 60 * 1000000000"

text \<open>A pass is recorded unless the record under its key is younger than the gap; a record that does
  not decode is replaced.\<close>

definition Gate :: "string table \<Rightarrow> string \<Rightarrow> string \<Rightarrow> int \<Rightarrow> (string \<Rightarrow> int option) \<Rightarrow> string table \<times> bool \<times> int option" where
  "Gate records key raw at decode =
     (case (case map_of records key of None \<Rightarrow> None | Some old \<Rightarrow> decode old) of
        Some prev \<Rightarrow>
          (if at - prev < PassGap then (records, False, Some prev) else (tput key raw records, True, Some prev))
      | None \<Rightarrow> (tput key raw records, True, None))"

definition DefaultPolicyRetry :: int where "DefaultPolicyRetry = 5 * 1000000000"
definition PolicyRetryCap :: int where "PolicyRetryCap = 60 * 1000000000"
definition PolicyRetries :: nat where "PolicyRetries = 6"

text \<open>How long the loop waits after a pass that took \<open>elapsed\<close>, and the count of early retries.\<close>

definition next_wait :: "int \<Rightarrow> int \<Rightarrow> bool \<Rightarrow> nat \<Rightarrow> int \<Rightarrow> int \<times> nat" where
  "next_wait interval policyRetry otherPolicy retries elapsed =
     (let retry = (if policyRetry \<le> 0 then DefaultPolicyRetry else policyRetry)
      in if otherPolicy \<and> retries < PolicyRetries
         then (max (min (retry * 2 ^ retries) (min PolicyRetryCap interval)) 0, retries + 1)
         else (max (interval - elapsed) 0, 0))"

section \<open>What a removal rests on\<close>

lemma PolicyGuard_None: "PolicyGuard_Check own digest = None \<longleftrightarrow> own \<noteq> [] \<and> digest = own"
  by (auto simp: PolicyGuard_Check_def guard_err_def)

lemma confirm_fold:
  assumes "map_of (fst (fold (confirm_one own ask) cs (out, b))) e = Some v"
  shows "map_of out e = Some v \<or> (e \<in> set cs \<and> ask e = Inr (v, own) \<and> own \<noteq> [])"
  using assms
proof (induction cs arbitrary: out b)
  case (Cons c cs)
  obtain out' b' where st: "confirm_one own ask c (out, b) = (out', b')" by fastforce
  have step: "map_of out' e = map_of out e \<or> (e = c \<and> (\<exists>w. map_of out' e = Some w \<and> ask c = Inr (w, own) \<and> own \<noteq> []))"
    using st
    by (cases "e = c") (auto simp: confirm_one_def PolicyGuard_None split: sum.splits option.splits prod.splits)
  have "map_of out' e = Some v \<or> (e \<in> set cs \<and> ask e = Inr (v, own) \<and> own \<noteq> [])"
    using Cons.IH [of out' b'] Cons.prems st by simp
  then show ?case using step by auto
qed simp

lemma Confirm_answers:
  "map_of (fst (Confirm cs own ask)) e = Some v \<Longrightarrow> e \<in> set cs \<and> ask e = Inr (v, own) \<and> own \<noteq> []"
  using confirm_fold [of own ask cs "[]" False e v] by (simp add: Confirm_def)

lemma Removal_cong:
  "(\<And>e. e \<in> set emails \<Longrightarrow> map_of c e = map_of c' e) \<Longrightarrow> Removal emails c wanted = Removal emails c' wanted"
  by (induction emails) (auto split: option.splits)

lemma Removal_None_iff:
  "Removal emails vouches wanted = None \<longleftrightarrow>
     (\<forall>e\<in>set emails. \<exists>v. map_of vouches e = Some v \<and> v_Authoritative v
        \<and> \<not> (v_Found v \<and> \<not> v_Suspended v \<and> (holdsAny (v_Groups v) wanted \<or> holdsAny (v_DirectoryGroups v) wanted)))"
  by (induction emails) (auto split: option.splits)

text \<open>
  Somebody is removed only on answers the directory vouches for, given under this controller's own
  policy: every address was asked about, authoritatively, and is gone, suspended or in none of the
  wanted groups.
\<close>
theorem removal_rests_on_vouched_answers:
  assumes "Removal emails (fst (Confirm candidates own ask)) wanted = None" and "e \<in> set emails"
  shows "\<exists>v. ask e = Inr (v, own) \<and> own \<noteq> [] \<and> e \<in> set candidates \<and> v_Authoritative v
    \<and> (v_Found v \<and> \<not> v_Suspended v \<longrightarrow> set wanted \<inter> (set (v_Groups v) \<union> set (v_DirectoryGroups v)) = {})"
proof -
  obtain v where v: "map_of (fst (Confirm candidates own ask)) e = Some v" "v_Authoritative v"
    "\<not> (v_Found v \<and> \<not> v_Suspended v \<and> (holdsAny (v_Groups v) wanted \<or> holdsAny (v_DirectoryGroups v) wanted))"
    using assms unfolding Removal_None_iff by blast
  then show ?thesis using Confirm_answers [OF v(1)] by (auto simp: holdsAny_def list_ex_iff)
qed

definition gone_vouch :: Vouch where
  "gone_vouch = \<lparr>v_Authoritative = True, v_Found = False, v_Suspended = False, v_Groups = [], v_DirectoryGroups = []\<rparr>"

theorem removal_witness:
  "\<exists>v. (Inr (gone_vouch, ''d1'') :: rails_err + Vouch \<times> string) = Inr (v, ''d1'') \<and> v_Authoritative v"
proof -
  have "Removal [''a@x.io''] (fst (Confirm [''a@x.io''] ''d1'' (\<lambda>e. Inr (gone_vouch, ''d1'')))) [''g''] = None"
    by code_simp
  from removal_rests_on_vouched_answers [OF this, of "''a@x.io''"] show ?thesis by auto
qed

text \<open>
  The breaker trips exactly when more than half of a non-empty membership would go at once, and it
  lets the removals through only when an operator confirmed this very set, whatever order it is in.
\<close>
theorem breaker_trips_over_half:
  "(CheckBreaker sha affected ls members confirmed = None \<longleftrightarrow> members = 0 \<or> affected * 2 \<le> members)
   \<and> (CheckBreaker sha affected ls members confirmed = Some b \<longrightarrow>
        (br_Confirmed b \<longleftrightarrow> confirmed \<noteq> [] \<and> confirmed = Fingerprint sha ls))
   \<and> (mset ls = mset ls' \<longrightarrow> CheckBreaker sha affected ls members confirmed = CheckBreaker sha affected ls' members confirmed)"
proof -
  have "sort ls = sort ls'" if "mset ls = mset ls'" using that by (metis properties_for_sort sorted_sort mset_sort)
  then show ?thesis by (auto simp: CheckBreaker_def Fingerprint_def)
qed

theorem breaker_witness:
  "CheckBreaker id 2 [''a'', ''b''] 3 [] = CheckBreaker id 2 [''b'', ''a''] 3 []
   \<and> CheckBreaker id 1 [''a''] 2 [] = None"
proof
  have "mset [''a'', ''b''] = mset [''b'', ''a'']" by simp
  then show "CheckBreaker id 2 [''a'', ''b''] 3 [] = CheckBreaker id 2 [''b'', ''a''] 3 []"
    using breaker_trips_over_half [of id 2 "[''a'', ''b'']" 3 "[]" undefined "[''b'', ''a'']"] by blast
  have "(1 :: int) * 2 \<le> 2" by simp
  then show "CheckBreaker id 1 [''a''] 2 [] = None"
    using breaker_trips_over_half [of id 1 "[''a'']" 2 "[]" undefined "[]"] by blast
qed

lemma Fresh_flags:
  "snd (Ledger_Fresh l target now seed) ! i \<longleftrightarrow>
     now ! i \<notin> set (case map_of l target of Some ks \<Rightarrow> ks | None \<Rightarrow> seed)" if "i < length now"
  using that by (simp add: Ledger_Fresh_def Let_def)

text \<open>
  The ledger reports a key as new exactly once for as long as it keeps being reported: what was in
  the previous report of the target is not fresh, everything else is, and the other targets' reports
  are untouched.
\<close>
theorem ledger_reports_new_keys_once:
  "snd (Ledger_Fresh (fst (Ledger_Fresh l target now seed)) target later seed')
     = map (\<lambda>key. key \<notin> set now) later
   \<and> (\<forall>other. other \<noteq> target \<longrightarrow> map_of (fst (Ledger_Fresh l target now seed)) other = map_of l other)"
  by (simp add: Ledger_Fresh_def Let_def)

theorem ledger_witness:
  "map_of (fst (Ledger_Fresh [(''o'', [''k''])] ''t'' [''x''] [])) ''o'' = map_of [(''o'', [''k''])] ''o''"
  using ledger_reports_new_keys_once [of "[(''o'', [''k''])]" "''t''" "[''x'']" "[]"] by simp

text \<open>
  The loop never waits longer than its interval, comes back at least once a minute while the
  console answers under another policy, and does so at most six times in a row.
\<close>
theorem pacing_bounds:
  assumes "0 < interval" and "0 \<le> elapsed" and "next_wait interval policyRetry otherPolicy retries elapsed = (wait, n)"
  shows "0 \<le> wait \<and> wait \<le> interval \<and> (n \<noteq> 0 \<longrightarrow> wait \<le> PolicyRetryCap) \<and> (retries \<le> PolicyRetries \<longrightarrow> n \<le> PolicyRetries)
    \<and> (n = 0 \<or> n = retries + 1)"
  using assms by (auto simp: next_wait_def Let_def PolicyRetryCap_def split: if_splits)

theorem pacing_witness: "fst (next_wait 100 1 True 3 0) \<le> 100"
  using pacing_bounds [of 100 0 1 True 3 "fst (next_wait 100 1 True 3 0)" "snd (next_wait 100 1 True 3 0)"] by simp

end
