(* ===== verification/GitHub_Reconcile.thy ===== *)
theory GitHub_Reconcile
  imports Policy_Model Rails
begin

text \<open>
  The decision of the GitHub reconciler, \<open>src/internal/githubroster/reconcile/reconcile.go\<close>: from an
  organisation's bindings, who holds the bound groups and what GitHub has, \<open>Derive\<close> computes a draft
  and the addresses to confirm, and \<open>Decide\<close> the report and the actions once they are confirmed.
  Texts a report shows to people are carried as the code writes them. The lemmas at the end say what
  no run ever does: remove or demote an owner, touch an ignored login, remove somebody the directory
  does not vouch for, or change the teams of somebody it removes from the organisation.
\<close>

section \<open>Data\<close>

record GMember =
  mb_ID :: int
  mb_Login :: string
  mb_Owner :: bool
  mb_Emails :: "string list"

record Invitation =
  iv_Email :: string
  iv_Login :: string

record Team =
  tm_ID :: int
  tm_Slug :: string

record TeamMember =
  tmm_Login :: string
  tmm_Maintainer :: bool

record Link =
  ln_ID :: int
  ln_Login :: string
  ln_Emails :: "string list"
  ln_Lost :: bool
  ln_Reason :: string

record GHState =
  gs_Members :: "GMember list"
  gs_Invitations :: "Invitation list"
  gs_Teams :: "Team list"
  gs_TeamMembers :: "TeamMember list table"
  gs_Links :: "Link list"

datatype Role = NoRole | RoleMember | RoleMaintainer

datatype RowState =
    StateNotLinked | StatePending | StateInvited | StateSynced | StateLeaving | StateHeld
  | StateRetrying | StateIgnored | StateReported

datatype ActionKind = ActionNone | ActionInvite | ActionAdd | ActionSetRole | ActionRemove

record Row =
  row_Email :: string
  row_Login :: string
  row_Role :: Role
  row_State :: RowState
  row_Action :: ActionKind
  row_Reason :: string

record Action =
  a_Kind :: ActionKind
  a_Team :: string
  a_Login :: string
  a_Email :: string
  a_Role :: Role
  a_Teams :: "int list"
  a_Account :: int
  a_Reason :: string

record Account =
  ac_Login :: string
  ac_Reason :: string

record Draft =
  d_org :: string
  d_binding :: GitHubOrg
  d_desired :: "Role table table"
  d_anywhere :: "string list"
  d_loginOf :: "string table"
  d_ambiguous :: "string list table"
  d_emailsOf :: "string list table"
  d_owner :: "bool table"
  d_invited :: "string list"
  d_teamID :: "int table"
  d_current :: "bool table table"
  d_outside :: "Link table"
  d_lost :: "Link table"
  d_unlinked :: "Account list"
  d_candidates :: "string list"

definition appendUnique :: "string list \<Rightarrow> string \<Rightarrow> string list" where
  "appendUnique list value = (if value \<in> set list then list else list @ [value])"

section \<open>What the bindings ask for\<close>

text \<open>The addresses of an account that are not ignored, and whether the account is left alone.\<close>

definition kept :: "GitHubOrg \<Rightarrow> string \<Rightarrow> string list \<Rightarrow> string list \<times> bool" where
  "kept binding login emails =
     (if to_lower login \<in> IgnoredLogins binding then ([], True)
      else let out = filter (\<lambda>e. to_lower e \<notin> IgnoredAddresses binding) emails
           in (out, emails \<noteq> [] \<and> out = []))"

definition live_holders :: "GitHubOrg \<Rightarrow> Holders \<Rightarrow> string \<Rightarrow> string list" where
  "live_holders binding holders name =
     filter (\<lambda>e. e \<notin> IgnoredAddresses binding)
       (map (\<lambda>h. to_lower (trim_space (ho_Email h))) (filter ho_Live (tget [] holders name)))"

text \<open>Every wish of the bindings in the order the code makes them: the scope, the address, the role.\<close>

definition team_wishes :: "GitHubOrg \<Rightarrow> Holders \<Rightarrow> string \<Rightarrow> GitHubTeam \<Rightarrow> (string \<times> string \<times> Role) list" where
  "team_wishes binding holders slug team =
     concat (map (\<lambda>g. map (\<lambda>e. (slug, e, RoleMember)) (live_holders binding holders g)) (gt_Members team))
     @ concat (map (\<lambda>g. map (\<lambda>e. (slug, e, RoleMaintainer)) (live_holders binding holders g)) (gt_Maintainers team))"

definition wishes :: "GitHubOrg \<Rightarrow> Holders \<Rightarrow> (string \<times> string \<times> Role) list" where
  "wishes binding holders =
     concat (map (\<lambda>g. map (\<lambda>e. ([], e, RoleMember)) (live_holders binding holders g)) (go_Members binding))
     @ concat (map (\<lambda>(slug, team). team_wishes binding holders slug team) (sorted_entries (go_Teams binding)))"

definition want :: "string \<times> string \<times> Role \<Rightarrow> Draft \<Rightarrow> Draft" where
  "want w d =
     (case w of (scope, email, role) \<Rightarrow>
        let m = tget [] (d_desired d) scope;
            m' = (if map_of m email = Some RoleMaintainer then m else tput email role m)
        in d\<lparr>d_desired := tput scope m' (d_desired d), d_anywhere := appendUnique (d_anywhere d) email\<rparr>)"

section \<open>What the organisation has\<close>

definition link_of :: "Link list \<Rightarrow> int \<Rightarrow> Link option" where
  "link_of links ident = map_of (fold (\<lambda>l m. tput (ln_ID l) l m) links []) ident"

definition add_email :: "string \<Rightarrow> string \<Rightarrow> Draft \<Rightarrow> Draft" where
  "add_email login email0 d =
     (let email = to_lower email0; known = tget [] (d_emailsOf d) login
      in if email \<in> set known then d
         else let d1 = d\<lparr>d_emailsOf := tput login (known @ [email]) (d_emailsOf d)\<rparr>
              in case map_of (d_loginOf d) email of
                   Some other \<Rightarrow>
                     (if other \<noteq> login
                      then d1\<lparr>d_ambiguous := tput email
                             (appendUnique (appendUnique (tget [] (d_ambiguous d) email) other) login) (d_ambiguous d)\<rparr>
                      else d1\<lparr>d_loginOf := tput email login (d_loginOf d)\<rparr>)
                 | None \<Rightarrow> d1\<lparr>d_loginOf := tput email login (d_loginOf d)\<rparr>)"

text \<open>The addresses a member is known by, \<^const>\<open>None\<close> for one that is left alone.\<close>

definition member_addresses :: "GitHubOrg \<Rightarrow> Link list \<Rightarrow> GMember \<Rightarrow> string list option" where
  "member_addresses binding links m =
     (let l = link_of links (mb_ID m);
          emails = mb_Emails m @ (case l of None \<Rightarrow> [] | Some x \<Rightarrow> ln_Emails x);
          (rest, alone) = kept binding (mb_Login m) emails
      in if alone then None
         else case l of
           Some x \<Rightarrow> Some (if \<not> ln_Lost x then rest else fst (kept binding (mb_Login m) (mb_Emails m)))
         | None \<Rightarrow> Some (fst (kept binding (mb_Login m) (mb_Emails m))))"

definition unlinked_account :: "string \<Rightarrow> Account" where
  "unlinked_account login = \<lparr>ac_Login = login, ac_Reason = ''has not linked this account to a work address''\<rparr>"

text \<open>One member of the organisation; the second component is the logins left alone.\<close>

definition derive_member :: "GitHubOrg \<Rightarrow> Link list \<Rightarrow> GMember \<Rightarrow> Draft \<times> string list \<Rightarrow> Draft \<times> string list" where
  "derive_member binding links m st =
     (case st of (d, skipped) \<Rightarrow>
        (case member_addresses binding links m of
           None \<Rightarrow> (d, mb_Login m # skipped)
         | Some emails \<Rightarrow>
             let d1 = d\<lparr>d_owner := tput (mb_Login m) (mb_Owner m) (d_owner d)\<rparr>
             in (if emails = []
                 then (case link_of links (mb_ID m) of
                         Some x \<Rightarrow>
                           (if ln_Lost x then d1\<lparr>d_lost := tput (mb_Login m) x (d_lost d1)\<rparr>
                            else d1\<lparr>d_unlinked := d_unlinked d1 @ [unlinked_account (mb_Login m)]\<rparr>)
                       | None \<Rightarrow> d1\<lparr>d_unlinked := d_unlinked d1 @ [unlinked_account (mb_Login m)]\<rparr>)
                 else fold (add_email (mb_Login m)) emails d1, skipped)))"

definition drop_ambiguous :: "Draft \<Rightarrow> Draft" where
  "drop_ambiguous d = d\<lparr>d_loginOf := filter (\<lambda>(e, _). \<not> has_key (d_ambiguous d) e) (d_loginOf d)\<rparr>"

definition add_outside :: "Link \<Rightarrow> string \<Rightarrow> Draft \<Rightarrow> Draft" where
  "add_outside l email0 d =
     (let email = to_lower email0
      in case map_of (d_outside d) email of
           Some other \<Rightarrow>
             (if ln_ID other \<noteq> ln_ID l
              then d\<lparr>d_ambiguous := tput email
                     (appendUnique (appendUnique (tget [] (d_ambiguous d) email) (ln_Login other)) (ln_Login l)) (d_ambiguous d)\<rparr>
              else d\<lparr>d_outside := tput email l (d_outside d)\<rparr>)
         | None \<Rightarrow> d\<lparr>d_outside := tput email l (d_outside d)\<rparr>)"

definition derive_outside :: "GitHubOrg \<Rightarrow> int list \<Rightarrow> Link \<Rightarrow> Draft \<Rightarrow> Draft" where
  "derive_outside binding members l d =
     (if ln_Lost l \<or> ln_ID l \<in> set members then d
      else case kept binding (ln_Login l) (ln_Emails l) of (emails, alone) \<Rightarrow>
        (if alone then d else fold (add_outside l) emails d))"

definition invited_keys :: "Invitation list \<Rightarrow> string list" where
  "invited_keys ivs =
     concat (map (\<lambda>i. (if iv_Email i \<noteq> [] then [to_lower (iv_Email i)] else [])
       @ (if iv_Login i \<noteq> [] then [''@'' @ to_lower (iv_Login i)] else [])) ivs)"

definition current_teams :: "GitHubOrg \<Rightarrow> string list \<Rightarrow> TeamMember list table \<Rightarrow> bool table table" where
  "current_teams binding skipped teams =
     map (\<lambda>(slug, ms). (slug, fold (\<lambda>m c.
         if tmm_Login m \<in> set skipped \<or> to_lower (tmm_Login m) \<in> IgnoredLogins binding then c
         else tput (tmm_Login m) (tmm_Maintainer m) c) ms [])) (sorted_entries teams)"

definition wantsAny :: "Draft \<Rightarrow> string \<Rightarrow> string list \<Rightarrow> bool" where
  "wantsAny d scope emails = list_ex (has_key (tget [] (d_desired d) scope)) emails"

definition wantsAnywhere :: "Draft \<Rightarrow> string list \<Rightarrow> bool" where
  "wantsAnywhere d emails = list_ex (\<lambda>e. e \<in> set (d_anywhere d)) emails"

definition candidates_of :: "Draft \<Rightarrow> string list" where
  "candidates_of d =
     concat (map (\<lambda>slug. concat (map (\<lambda>login.
         let emails = tget [] (d_emailsOf d) login
         in if emails = [] \<or> tget False (d_owner d) login \<or> wantsAny d slug emails then [] else emails)
       (tkeys (tget [] (d_current d) slug)))) (tkeys (go_Teams (d_binding d))))
     @ concat (map (\<lambda>(login, emails). if wantsAnywhere d emails then [] else emails) (sorted_entries (d_emailsOf d)))"

definition empty_draft :: "string \<Rightarrow> GitHubOrg \<Rightarrow> Draft" where
  "empty_draft org binding =
     \<lparr>d_org = org, d_binding = binding, d_desired = [], d_anywhere = [], d_loginOf = [], d_ambiguous = [],
      d_emailsOf = [], d_owner = [], d_invited = [], d_teamID = [], d_current = [], d_outside = [], d_lost = [],
      d_unlinked = [], d_candidates = []\<rparr>"

definition Derive :: "string \<Rightarrow> GitHubOrg \<Rightarrow> Holders \<Rightarrow> GHState \<Rightarrow> Draft" where
  "Derive org binding holders state =
     (let d0 = fold want (wishes binding holders) (empty_draft org binding);
          (d1, skipped) = fold (derive_member binding (gs_Links state)) (gs_Members state) (d0, []);
          d2 = fold (derive_outside binding (map mb_ID (gs_Members state))) (gs_Links state) (drop_ambiguous d1);
          d3 = d2\<lparr>d_invited := invited_keys (gs_Invitations state),
                  d_teamID := fold (\<lambda>t m. tput (tm_Slug t) (tm_ID t) m) (gs_Teams state) [],
                  d_current := current_teams binding skipped (gs_TeamMembers state)\<rparr>
      in d3\<lparr>d_candidates := candidates_of d3\<rparr>)"

definition Draft_Confirm :: "Draft \<Rightarrow> string list" where
  "Draft_Confirm d = sort_compact (d_candidates d)"

section \<open>Deciding\<close>

definition blank_action :: Action where
  "blank_action = \<lparr>a_Kind = ActionNone, a_Team = [], a_Login = [], a_Email = [], a_Role = NoRole, a_Teams = [],
     a_Account = 0, a_Reason = []\<rparr>"

text \<open>The invitations under way, by account and in the order they were started; who is held; who is not linked.\<close>

record Inviting =
  i_invites :: "(int, Action) gomap"
  i_held :: "string table"
  i_notLinked :: "string list"

definition invite_teams :: "Draft \<Rightarrow> string \<Rightarrow> int list \<Rightarrow> int list" where
  "invite_teams d email teams =
     fold (\<lambda>slug ids.
        if has_key (tget [] (d_desired d) slug) email
        then (case map_of (d_teamID d) slug of
                Some ident \<Rightarrow> (if ident \<in> set ids then ids else ids @ [ident]) | None \<Rightarrow> ids)
        else ids) (tkeys (go_Teams (d_binding d))) teams"

definition invite_one :: "Draft \<Rightarrow> string \<Rightarrow> Inviting \<Rightarrow> Inviting" where
  "invite_one d email st =
     (if has_key (d_loginOf d) email \<or> email \<in> set (d_invited d) then st
      else case map_of (d_ambiguous d) email of
        Some logins \<Rightarrow>
          st\<lparr>i_held := tput email (email @ '' is linked to more than one account ('' @ join '', '' logins @ '')'') (i_held st)\<rparr>
      | None \<Rightarrow>
          (case map_of (d_outside d) email of
             None \<Rightarrow> st\<lparr>i_notLinked := email # i_notLinked st\<rparr>
           | Some account \<Rightarrow>
               (if ''@'' @ to_lower (ln_Login account) \<in> set (d_invited d) then st
                else let invite = (case map_of (i_invites st) (ln_ID account) of
                            Some i \<Rightarrow> i
                          | None \<Rightarrow> blank_action\<lparr>a_Kind := ActionInvite, a_Email := email,
                              a_Login := ln_Login account, a_Account := ln_ID account, a_Role := RoleMember\<rparr>)
                     in st\<lparr>i_invites := tput (ln_ID account)
                           (invite\<lparr>a_Teams := invite_teams d email (a_Teams invite)\<rparr>) (i_invites st)\<rparr>)))"

definition inviting :: "Draft \<Rightarrow> Inviting" where
  "inviting d = fold (invite_one d) (sort_compact (d_anywhere d)) \<lparr>i_invites = [], i_held = [], i_notLinked = []\<rparr>"

definition invite_actions :: "Draft \<Rightarrow> Action list" where
  "invite_actions d = map (\<lambda>(_, i). i\<lparr>a_Teams := sort (a_Teams i)\<rparr>) (i_invites (inviting d))"

definition lostBy :: "Draft \<Rightarrow> string table" where
  "lostBy d =
     fold (\<lambda>(login, l) m. fold (\<lambda>e m. tput (to_lower e)
        (''the link to @'' @ login @ '' is gone ('' @ ln_Reason l @ '')'') m) (ln_Emails l) m) (sorted_entries (d_lost d)) []"

definition row :: "Draft \<Rightarrow> Inviting \<Rightarrow> string \<Rightarrow> string \<Rightarrow> Role \<Rightarrow> Row \<times> Action list" where
  "row d ivt scope email role =
     (let linked = map_of (d_loginOf d) email; outside = map_of (d_outside d) email;
          m = \<lparr>row_Email = email,
               row_Login = (case linked of Some login \<Rightarrow> login
                            | None \<Rightarrow> (case outside of Some account \<Rightarrow> ln_Login account | None \<Rightarrow> [])),
               row_Role = role, row_State = StateSynced, row_Action = ActionNone, row_Reason = []\<rparr>
      in case linked of
           None \<Rightarrow>
             (if email \<in> set (d_invited d)
                 \<or> (case outside of None \<Rightarrow> False
                    | Some account \<Rightarrow> ''@'' @ to_lower (ln_Login account) \<in> set (d_invited d))
              then (m\<lparr>row_State := StateInvited\<rparr>, [])
              else if tget [] (i_held ivt) email \<noteq> []
              then (m\<lparr>row_State := StateHeld, row_Action := ActionInvite, row_Reason := tget [] (i_held ivt) email\<rparr>, [])
              else if email \<in> set (i_notLinked ivt) \<and> tget [] (lostBy d) email \<noteq> []
              then (m\<lparr>row_State := StateNotLinked, row_Reason := tget [] (lostBy d) email @ '': link the account again''\<rparr>, [])
              else if email \<in> set (i_notLinked ivt)
              then (m\<lparr>row_State := StateNotLinked, row_Reason := email @ '' has not linked a GitHub account''\<rparr>, [])
              else (m\<lparr>row_State := StatePending, row_Action := ActionInvite\<rparr>, []))
         | Some login \<Rightarrow>
             (if scope = [] then (m, [])
              else case map_of (tget [] (d_current d) scope) login of
                None \<Rightarrow> (m\<lparr>row_State := StatePending, row_Action := ActionAdd\<rparr>,
                  [blank_action\<lparr>a_Kind := ActionAdd, a_Team := scope, a_Login := login, a_Email := email, a_Role := role\<rparr>])
              | Some current \<Rightarrow>
                  (if tget False (d_owner d) login \<and> current \<and> role \<noteq> RoleMaintainer
                   then (m\<lparr>row_State := StateReported, row_Role := RoleMaintainer,
                     row_Reason := ''an owner, kept as maintainer: owners are added and promoted, never demoted''\<rparr>, [])
                   else if current \<noteq> (role = RoleMaintainer)
                   then (m\<lparr>row_State := StatePending, row_Action := ActionSetRole\<rparr>,
                     [blank_action\<lparr>a_Kind := ActionSetRole, a_Team := scope, a_Login := login, a_Email := email, a_Role := role\<rparr>])
                   else (m, []))))"

definition roleOf :: "bool \<Rightarrow> Role" where
  "roleOf maintainer = (if maintainer then RoleMaintainer else RoleMember)"

definition rows :: "Draft \<Rightarrow> Inviting \<Rightarrow> string \<Rightarrow> (Row \<times> Action list) list" where
  "rows d ivt scope = map (\<lambda>(email, role). row d ivt scope email role) (sorted_entries (tget [] (d_desired d) scope))"

definition keep_text :: "keep_reason \<Rightarrow> string" where
  "keep_text r =
     (case r of
        NotAsked e \<Rightarrow> ''the directory was not asked about '' @ e
      | CannotVouch e \<Rightarrow> ''the directory cannot vouch for '' @ e @ '' right now''
      | StillHolds \<Rightarrow> [])"

definition confirmTeamRemoval :: "Draft \<Rightarrow> string \<Rightarrow> string list \<Rightarrow> Vouch table \<Rightarrow> keep_reason option" where
  "confirmTeamRemoval d slug emails conf =
     Removal emails conf (case map_of (go_Teams (d_binding d)) slug of None \<Rightarrow> [] | Some t \<Rightarrow> GitHubTeam_Groups t)"

text \<open>One account of a team that nothing wants there: reported, removed, or kept for now.\<close>

definition leaver_row :: "Draft \<Rightarrow> Vouch table \<Rightarrow> string \<Rightarrow> string \<Rightarrow> (Row \<times> Action list) list" where
  "leaver_row d conf slug login =
     (let emails = tget [] (d_emailsOf d) login
      in if emails = [] \<or> wantsAny d slug emails then []
         else let m = \<lparr>row_Email = hd emails, row_Login = login,
                       row_Role = roleOf (tget False (tget [] (d_current d) slug) login),
                       row_State = StateSynced, row_Action = ActionNone, row_Reason = []\<rparr>
              in if tget False (d_owner d) login
                 then [(m\<lparr>row_State := StateReported,
                   row_Reason := ''an owner, left in the team: owners are added and promoted, never removed''\<rparr>, [])]
                 else case confirmTeamRemoval d slug emails conf of
                   None \<Rightarrow> [(m\<lparr>row_State := StateLeaving, row_Action := ActionRemove\<rparr>,
                     [blank_action\<lparr>a_Kind := ActionRemove, a_Team := slug, a_Login := login, a_Email := hd emails\<rparr>])]
                 | Some why \<Rightarrow>
                     (if keep_text why \<noteq> []
                      then [(m\<lparr>row_State := StateRetrying, row_Action := ActionRemove, row_Reason := keep_text why\<rparr>, [])]
                      else [(m, [])]))"

definition team_rows :: "Draft \<Rightarrow> Inviting \<Rightarrow> Vouch table \<Rightarrow> string \<Rightarrow> (Row \<times> Action list) list" where
  "team_rows d ivt conf slug =
     (if \<not> has_key (d_teamID d) slug
      then map (\<lambda>(email, role).
             (\<lparr>row_Email = email, row_Login = tget [] (d_loginOf d) email, row_Role = role, row_State = StateHeld,
               row_Action = ActionAdd, row_Reason = d_org d @ '' has no team '' @ slug\<rparr>, []))
             (sorted_entries (tget [] (d_desired d) slug))
      else rows d ivt slug @ concat (map (leaver_row d conf slug) (tkeys (tget [] (d_current d) slug))))"

definition allGone :: "string list \<Rightarrow> Vouch table \<Rightarrow> bool" where
  "allGone emails conf =
     list_all (\<lambda>e. case map_of conf e of None \<Rightarrow> False | Some c \<Rightarrow> Vouch_Gone c) emails"

definition gone_row :: "Draft \<Rightarrow> Vouch table \<Rightarrow> string \<times> string list \<Rightarrow> (Row \<times> Action list) list" where
  "gone_row d conf le =
     (case le of (login, emails) \<Rightarrow>
        if wantsAnywhere d emails \<or> \<not> allGone emails conf then []
        else let m = \<lparr>row_Email = hd emails, row_Login = login, row_Role = RoleMember, row_State = StateSynced,
                      row_Action = ActionNone, row_Reason = []\<rparr>
             in if tget False (d_owner d) login
                then [(m\<lparr>row_State := StateReported,
                  row_Reason := ''an owner, managed outside: the directory no longer has them''\<rparr>, [])]
                else [(m\<lparr>row_State := StateLeaving, row_Action := ActionRemove\<rparr>,
                  [blank_action\<lparr>a_Kind := ActionRemove, a_Login := login, a_Email := hd emails\<rparr>])])"

definition lost_row :: "Draft \<Rightarrow> string \<times> Link \<Rightarrow> Row \<times> Action list" where
  "lost_row d ll =
     (case ll of (login, l) \<Rightarrow>
        let m = \<lparr>row_Email = (case ln_Emails l of [] \<Rightarrow> [] | e # _ \<Rightarrow> e), row_Login = login, row_Role = RoleMember,
                 row_State = StateLeaving, row_Action = ActionRemove, row_Reason = ''the link is gone: '' @ ln_Reason l\<rparr>
        in if tget False (d_owner d) login
           then (m\<lparr>row_State := StateReported, row_Action := ActionNone,
             row_Reason := ''an owner, managed outside: the link is gone ('' @ ln_Reason l @ '')''\<rparr>, [])
           else (m, [blank_action\<lparr>a_Kind := ActionRemove, a_Login := login, a_Email := row_Email m,
             a_Reason := row_Reason m\<rparr>]))"

definition dropTeamWorkForLeavers :: "Action list \<Rightarrow> Action list" where
  "dropTeamWorkForLeavers actions =
     (let leaving = map a_Login (filter (\<lambda>a. a_Kind a = ActionRemove \<and> a_Team a = []) actions)
      in filter (\<lambda>a. \<not> (a_Team a \<noteq> [] \<and> a_Login a \<in> set leaving)) actions)"

record Seats =
  se_Known :: bool
  se_Total :: int
  se_Filled :: int
  se_Pending :: int
  se_Free :: int
  se_Short :: int

record Report =
  rep_Org :: string
  rep_Members :: "Row list"
  rep_Teams :: "(string \<times> Row list) list"
  rep_Unlinked :: "Account list"
  rep_Seats :: "Seats option"
  rep_Breaker :: "Breaker option"

definition Decide :: "Draft \<Rightarrow> Vouch table \<Rightarrow> Report \<times> Action list" where
  "Decide d conf =
     (let ivt = inviting d;
          top = rows d ivt [];
          teams = map (\<lambda>slug. (slug, team_rows d ivt conf slug)) (tkeys (go_Teams (d_binding d)));
          gone = concat (map (gone_row d conf) (sorted_entries (d_emailsOf d)));
          lost = map (lost_row d) (sorted_entries (d_lost d));
          actions = invite_actions d @ concat (map snd top) @ concat (map (concat \<circ> map snd \<circ> snd) teams)
            @ concat (map snd gone) @ concat (map snd lost)
      in (\<lparr>rep_Org = d_org d, rep_Members = map fst top @ map fst gone @ map fst lost,
           rep_Teams = map (\<lambda>(slug, rs). (slug, map fst rs)) teams, rep_Unlinked = d_unlinked d,
           rep_Seats = None, rep_Breaker = None\<rparr>,
          dropTeamWorkForLeavers actions))"

section \<open>What the actions of a decision are\<close>

lemma set_sorted_entries: "(k, v) \<in> set (sorted_entries m) \<longleftrightarrow> map_of m k = Some v"
  by (force simp: sorted_entries_def)

text \<open>Each action of a decision comes from one of five places.\<close>

lemma Decide_actions:
  assumes "a \<in> set (snd (Decide d conf))"
  obtains (invite) "a \<in> set (invite_actions d)"
  | (wanted) scope email role where "map_of (tget [] (d_desired d) scope) email = Some role"
      and "a \<in> set (snd (row d (inviting d) scope email role))"
  | (leaver) slug login r where "has_key (go_Teams (d_binding d)) slug" and "has_key (tget [] (d_current d) slug) login"
      and "(r, [a]) \<in> set (leaver_row d conf slug login)"
  | (gone) login emails r where "map_of (d_emailsOf d) login = Some emails"
      and "(r, [a]) \<in> set (gone_row d conf (login, emails))"
  | (lost) login l r where "map_of (d_lost d) login = Some l" and "lost_row d (login, l) = (r, [a])"
proof -
  have leaver1: "as = [] \<or> as = [a]" if "(r, as) \<in> set (leaver_row d conf slug login)" "a \<in> set as" for r as slug login
    using that by (auto simp: leaver_row_def Let_def split: if_splits option.splits)
  have gone1: "as = [] \<or> as = [a]" if "(r, as) \<in> set (gone_row d conf le)" "a \<in> set as" for r as le
    using that by (auto simp: gone_row_def Let_def split: if_splits prod.splits)
  have lost1: "snd (lost_row d ll) = [a]" if "a \<in> set (snd (lost_row d ll))" for ll
    using that by (auto simp: lost_row_def Let_def split: if_splits prod.splits)
  from assms consider "a \<in> set (invite_actions d)"
    | ra where "ra \<in> set (rows d (inviting d) [])" "a \<in> set (snd ra)"
    | slug ra where "slug \<in> set (tkeys (go_Teams (d_binding d)))" "ra \<in> set (team_rows d (inviting d) conf slug)" "a \<in> set (snd ra)"
    | le ra where "le \<in> set (sorted_entries (d_emailsOf d))" "ra \<in> set (gone_row d conf le)" "a \<in> set (snd ra)"
    | ll where "ll \<in> set (sorted_entries (d_lost d))" "a \<in> set (snd (lost_row d ll))"
    by (auto simp: Decide_def Let_def dropTeamWorkForLeavers_def simp del: set_tkeys)
  then show thesis
  proof cases
    case 1
    then show ?thesis by (rule invite)
  next
    case 2
    then show ?thesis by (auto simp: rows_def set_sorted_entries intro: wanted)
  next
    case 3
    then have slug: "has_key (go_Teams (d_binding d)) slug" by simp
    show ?thesis
    proof (cases "ra \<in> set (rows d (inviting d) slug)")
      case True
      then show ?thesis using 3(3) by (auto simp: rows_def set_sorted_entries intro: wanted)
    next
      case False
      then obtain login where "login \<in> set (tkeys (tget [] (d_current d) slug))" "ra \<in> set (leaver_row d conf slug login)"
        using 3(2,3) by (auto simp: team_rows_def simp del: set_tkeys split: if_splits)
      then show ?thesis using leaver [OF slug, of login "fst ra"] leaver1 [of "fst ra" "snd ra" slug login] 3(3)
        by (cases ra) auto
    qed
  next
    case 4
    then obtain login emails where le: "le = (login, emails)" "map_of (d_emailsOf d) login = Some emails"
      by (metis surj_pair set_sorted_entries)
    then show ?thesis using gone [of login emails "fst ra"] gone1 [of "fst ra" "snd ra" le] 4(2,3) by (cases ra) auto
  next
    case 5
    then obtain login l where ll: "ll = (login, l)" "map_of (d_lost d) login = Some l"
      by (metis surj_pair set_sorted_entries)
    then show ?thesis using lost [of login l "fst (lost_row d ll)"] lost1 [OF 5(2)]
      by (cases "lost_row d ll") auto
  qed
qed

end
