(* ===== verification/GitHub_Safety.thy ===== *)
theory GitHub_Safety
  imports GitHub_Reconcile
begin

text \<open>
  What the decision of \<open>GitHub_Reconcile\<close> guarantees. The first part relates the tables \<open>Derive\<close>
  builds to the members, the links and the bindings it read them from: an address is linked exactly
  when one account claims it, a wanted role is the widest the bindings give. The second part follows
  these facts through \<open>Decide\<close>: whom it removes and on what evidence, whom it never touches, to whom
  an invitation goes, and that the addresses \<open>Confirm\<close> names are all it needs to know about.
\<close>

named_theorems frame_simps \<open>fields of a draft that a step leaves as they were\<close>

section \<open>Steps of the derivation\<close>

lemma add_email_frame [frame_simps]:
  "d_owner (add_email login e d) = d_owner d" "d_lost (add_email login e d) = d_lost d"
  "d_desired (add_email login e d) = d_desired d" "d_anywhere (add_email login e d) = d_anywhere d"
  "d_binding (add_email login e d) = d_binding d" "d_outside (add_email login e d) = d_outside d"
  "d_org (add_email login e d) = d_org d"
  by (simp_all add: add_email_def Let_def split: option.splits)

lemma add_emails_frame [frame_simps]:
  "d_owner (fold (add_email login) es d) = d_owner d" "d_lost (fold (add_email login) es d) = d_lost d"
  "d_desired (fold (add_email login) es d) = d_desired d" "d_anywhere (fold (add_email login) es d) = d_anywhere d"
  "d_binding (fold (add_email login) es d) = d_binding d" "d_outside (fold (add_email login) es d) = d_outside d"
  "d_org (fold (add_email login) es d) = d_org d"
  by (induction es arbitrary: d) (simp_all add: add_email_frame)

text \<open>
  The claims a draft has recorded: a relation between addresses and logins. An address is linked to a
  login that claims it, and ambiguous once two do.
\<close>

definition claims_ok :: "(string \<times> string) set \<Rightarrow> Draft \<Rightarrow> bool" where
  "claims_ok R d \<longleftrightarrow>
     (\<forall>e. map_of (d_loginOf d) e = None \<longleftrightarrow> R `` {e} = {})
   \<and> (\<forall>e k. map_of (d_loginOf d) e = Some k \<longrightarrow> (e, k) \<in> R)
   \<and> (\<forall>e. e \<in> dom (map_of (d_ambiguous d)) \<longleftrightarrow> (\<exists>k k'. (e, k) \<in> R \<and> (e, k') \<in> R \<and> k \<noteq> k'))
   \<and> (\<forall>e k. e \<in> set (tget [] (d_emailsOf d) k) \<longleftrightarrow> (e, k) \<in> R)
   \<and> (\<forall>k. map_of (d_emailsOf d) k \<noteq> Some [])"

lemma claims_okD:
  assumes "claims_ok R d"
  shows "map_of (d_loginOf d) e = None \<longleftrightarrow> R `` {e} = {}"
    and "map_of (d_loginOf d) e = Some k \<Longrightarrow> (e, k) \<in> R"
    and "e \<in> dom (map_of (d_ambiguous d)) \<longleftrightarrow> (\<exists>k k'. (e, k) \<in> R \<and> (e, k') \<in> R \<and> k \<noteq> k')"
    and "e \<in> set (tget [] (d_emailsOf d) k) \<longleftrightarrow> (e, k) \<in> R"
    and "map_of (d_emailsOf d) k \<noteq> Some []"
  using assms unfolding claims_ok_def by blast+

lemma tget_tput: "tget z (tput k v m) j = (if j = k then v else tget z m j)"
  by (simp add: tget_def)

lemma claims_ok_add_email:
  assumes ok: "claims_ok R d"
  shows "claims_ok (insert (to_lower e, login) R) (add_email login e d)"
proof (cases "(to_lower e, login) \<in> R")
  case True
  then have "to_lower e \<in> set (tget [] (d_emailsOf d) login)" using claims_okD(4) [OF ok] by blast
  then show ?thesis using ok True by (simp add: add_email_def insert_absorb)
next
  case False
  let ?e = "to_lower e" and ?d = "add_email login e d" and ?R = "insert (to_lower e, login) R"
  have fresh: "?e \<notin> set (tget [] (d_emailsOf d) login)" using claims_okD(4) [OF ok] False by blast
  have emails: "d_emailsOf ?d = tput login (tget [] (d_emailsOf d) login @ [?e]) (d_emailsOf d)"
    using fresh by (simp add: add_email_def Let_def split: option.splits)
  have E: "e' \<in> set (tget [] (d_emailsOf ?d) k) \<longleftrightarrow> (e', k) \<in> ?R" "map_of (d_emailsOf ?d) k \<noteq> Some []" for e' k
    unfolding emails using claims_okD(4,5) [OF ok] by (auto simp: tget_tput)
  show ?thesis
  proof (cases "map_of (d_loginOf d) ?e")
    case None
    then have upd: "d_loginOf ?d = tput ?e login (d_loginOf d)" "d_ambiguous ?d = d_ambiguous d"
      using fresh by (simp_all add: add_email_def Let_def)
    have none: "(?e, k) \<notin> R" for k using claims_okD(1) [OF ok, of ?e] None by blast
    show ?thesis unfolding claims_ok_def upd
      using E none claims_okD(1,2,3) [OF ok] by (simp del: domIff) blast
  next
    case (Some other)
    then have "(?e, other) \<in> R" using claims_okD(2) [OF ok] by blast
    then have o: "(?e, other) \<in> R" "other \<noteq> login" using False by blast+
    have upd: "d_loginOf ?d = d_loginOf d"
      "dom (map_of (d_ambiguous ?d)) = insert ?e (dom (map_of (d_ambiguous d)))"
      using fresh Some o(2) by (simp_all add: add_email_def Let_def del: domIff)
    show ?thesis unfolding claims_ok_def upd
      using E o claims_okD(1,2,3) [OF ok] by (simp del: domIff) blast
  qed
qed

lemma claims_ok_add_emails:
  "claims_ok R d \<Longrightarrow> claims_ok (R \<union> (\<lambda>e. (to_lower e, login)) ` set es) (fold (add_email login) es d)"
proof (induction es arbitrary: R d)
  case (Cons e es)
  from Cons.IH [OF claims_ok_add_email [OF Cons.prems]] show ?case by simp
qed simp

text \<open>The addresses a member claims.\<close>

definition claimed :: "GitHubOrg \<Rightarrow> Link list \<Rightarrow> GMember \<Rightarrow> string list" where
  "claimed binding links m =
     (case member_addresses binding links m of None \<Rightarrow> [] | Some es \<Rightarrow> map to_lower es)"

definition member_claims :: "GitHubOrg \<Rightarrow> Link list \<Rightarrow> GMember list \<Rightarrow> (string \<times> string) set" where
  "member_claims binding links ms = {(e, mb_Login m) | e m. m \<in> set ms \<and> e \<in> set (claimed binding links m)}"

lemma claims_ok_cong:
  "d_loginOf d' = d_loginOf d \<Longrightarrow> d_ambiguous d' = d_ambiguous d \<Longrightarrow> d_emailsOf d' = d_emailsOf d
   \<Longrightarrow> claims_ok R d' \<longleftrightarrow> claims_ok R d"
  by (simp add: claims_ok_def)

lemma claims_ok_derive_member:
  assumes "claims_ok R d"
  shows "claims_ok (R \<union> {(e, mb_Login m) | e. e \<in> set (claimed binding links m)})
    (fst (derive_member binding links m (d, skipped)))"
proof (cases "member_addresses binding links m")
  case None
  then show ?thesis using assms by (simp add: derive_member_def claimed_def)
next
  case (Some es)
  let ?d = "d\<lparr>d_owner := tput (mb_Login m) (mb_Owner m) (d_owner d)\<rparr>"
  have "R \<union> {(e, mb_Login m) | e. e \<in> set (claimed binding links m)}
      = R \<union> (\<lambda>e. (to_lower e, mb_Login m)) ` set es"
    using Some by (auto simp: claimed_def)
  moreover have "claims_ok R ?d" using assms by (simp add: claims_ok_cong [of ?d d])
  ultimately show ?thesis
  proof (cases "es = []")
    case True
    then have "claims_ok R (fst (derive_member binding links m (d, skipped))) \<longleftrightarrow> claims_ok R d"
      using Some by (intro claims_ok_cong) (auto simp: derive_member_def Let_def split: option.splits)
    then have "claims_ok R (fst (derive_member binding links m (d, skipped)))" using assms by blast
    then show ?thesis using True Some by (simp add: claimed_def)
  next
    case False
    then have "fst (derive_member binding links m (d, skipped)) = fold (add_email (mb_Login m)) es ?d"
      using Some by (simp add: derive_member_def Let_def)
    then show ?thesis
      using claims_ok_add_emails [OF \<open>claims_ok R ?d\<close>, of "mb_Login m" es] Some
      by (simp add: claimed_def image_image Setcompr_eq_image)
  qed
qed

lemma claims_ok_members:
  "claims_ok R d \<Longrightarrow>
   claims_ok (R \<union> member_claims binding links ms) (fst (fold (derive_member binding links) ms (d, skipped)))"
proof (induction ms arbitrary: R d skipped)
  case Nil
  then show ?case by (simp add: member_claims_def)
next
  case (Cons m ms)
  obtain d' s' where st: "derive_member binding links m (d, skipped) = (d', s')" by fastforce
  have "claims_ok (R \<union> {(e, mb_Login m) | e. e \<in> set (claimed binding links m)}) d'"
    using claims_ok_derive_member [OF Cons.prems, where skipped = skipped and binding = binding and links = links and m = m] st by simp
  from Cons.IH [OF this, of s'] show ?case
    by (simp add: st) (rule back_subst [where P = "\<lambda>R. claims_ok R _"], assumption, auto simp: member_claims_def)
qed

text \<open>
  Every login a draft may act on is one of a member the derivation looked at, with that member's
  ownership recorded, and not an ignored one.
\<close>

definition logins_ok :: "GitHubOrg \<Rightarrow> Link list \<Rightarrow> GMember list \<Rightarrow> Draft \<Rightarrow> bool" where
  "logins_ok binding links ms d \<longleftrightarrow>
     (\<forall>k. has_key (d_emailsOf d) k \<or> has_key (d_lost d) k \<longrightarrow>
        (\<exists>m\<in>set ms. mb_Login m = k \<and> map_of (d_owner d) k = Some (mb_Owner m) \<and> to_lower k \<notin> IgnoredLogins binding))
   \<and> (\<forall>k l. map_of (d_lost d) k = Some l \<longrightarrow>
        (\<exists>m\<in>set ms. mb_Login m = k \<and> link_of links (mb_ID m) = Some l \<and> ln_Lost l))"

lemma emailsOf_keys:
  "has_key (d_emailsOf (fold (add_email login) es d)) k \<Longrightarrow> k = login \<or> has_key (d_emailsOf d) k"
proof (induction es arbitrary: d)
  case (Cons e es)
  have "has_key (d_emailsOf (add_email login e d)) k \<Longrightarrow> k = login \<or> has_key (d_emailsOf d) k"
    by (auto simp: add_email_def Let_def split: option.splits if_splits)
  then show ?case using Cons by auto
qed simp

lemma member_addresses_not_ignored:
  "member_addresses binding links m = Some es \<Longrightarrow> to_lower (mb_Login m) \<notin> IgnoredLogins binding"
  by (auto simp: member_addresses_def kept_def Let_def split: if_splits)

lemma derive_member_cases:
  assumes "derive_member binding links m (d, skipped) = (d', skipped')"
  obtains (alone) "member_addresses binding links m = None" "d' = d" "skipped' = mb_Login m # skipped"
  | (unlinked) "to_lower (mb_Login m) \<notin> IgnoredLogins binding" "skipped' = skipped"
      "d' = d\<lparr>d_owner := tput (mb_Login m) (mb_Owner m) (d_owner d), d_unlinked := d_unlinked d @ [unlinked_account (mb_Login m)]\<rparr>"
  | (lost) l where "to_lower (mb_Login m) \<notin> IgnoredLogins binding" "skipped' = skipped"
      "link_of links (mb_ID m) = Some l" "ln_Lost l"
      "d' = d\<lparr>d_owner := tput (mb_Login m) (mb_Owner m) (d_owner d), d_lost := tput (mb_Login m) l (d_lost d)\<rparr>"
  | (linked) es where "to_lower (mb_Login m) \<notin> IgnoredLogins binding" "skipped' = skipped" "es \<noteq> []"
      "d' = fold (add_email (mb_Login m)) es (d\<lparr>d_owner := tput (mb_Login m) (mb_Owner m) (d_owner d)\<rparr>)"
proof (cases "member_addresses binding links m")
  case None
  then show ?thesis using assms by (intro alone) (simp_all add: derive_member_def)
next
  case (Some es)
  note ign = member_addresses_not_ignored [OF Some]
  show ?thesis
  proof (cases "es = []")
    case False
    then show ?thesis using assms Some by (intro linked [OF ign _ False]) (simp_all add: derive_member_def Let_def)
  next
    case True
    show ?thesis
    proof (cases "\<exists>l. link_of links (mb_ID m) = Some l \<and> ln_Lost l")
      case l: True
      then show ?thesis using assms Some True by (elim exE conjE) (intro lost [OF ign], auto simp: derive_member_def Let_def)
    next
      case l: False
      then show ?thesis using assms Some True
        by (intro unlinked [OF ign]) (auto simp: derive_member_def Let_def split: option.splits)
    qed
  qed
qed

lemma logins_ok_derive_member:
  assumes ok: "logins_ok binding links ms d" and st: "derive_member binding links m (d, skipped) = (d', skipped')"
  shows "logins_ok binding links (ms @ [m]) d'"
  using st
proof (cases rule: derive_member_cases)
  case (linked es)
  have keys: "has_key (d_emailsOf d') k \<Longrightarrow> k = mb_Login m \<or> has_key (d_emailsOf d) k" for k
    unfolding linked(4) by (drule emailsOf_keys) simp
  have same: "d_owner d' = tput (mb_Login m) (mb_Owner m) (d_owner d)" "d_lost d' = d_lost d"
    unfolding linked(4) by (simp_all add: frame_simps)
  show ?thesis unfolding logins_ok_def same
  proof (intro conjI allI impI)
    fix k assume k: "has_key (d_emailsOf d') k \<or> has_key (d_lost d) k"
    show "\<exists>m'\<in>set (ms @ [m]). mb_Login m' = k \<and> map_of (tput (mb_Login m) (mb_Owner m) (d_owner d)) k = Some (mb_Owner m')
        \<and> to_lower k \<notin> IgnoredLogins binding"
    proof (cases "k = mb_Login m")
      case False
      then have "has_key (d_emailsOf d) k \<or> has_key (d_lost d) k" using k keys by blast
      then obtain m' where "m' \<in> set ms" "mb_Login m' = k" "map_of (d_owner d) k = Some (mb_Owner m')"
        "to_lower k \<notin> IgnoredLogins binding" using ok unfolding logins_ok_def by blast
      then show ?thesis using False by auto
    qed (use linked(1) in auto)
  qed (use ok in \<open>fastforce simp: logins_ok_def\<close>)
qed (use ok in \<open>fastforce simp: logins_ok_def\<close>)+

lemma logins_ok_members:
  assumes "logins_ok binding links ms d"
  shows "logins_ok binding links (ms @ ms') (fst (fold (derive_member binding links) ms' (d, skipped)))"
  using assms
proof (induction ms' arbitrary: ms d skipped)
  case (Cons m ms')
  obtain d' s' where st: "derive_member binding links m (d, skipped) = (d', s')" by fastforce
  from Cons.IH [OF logins_ok_derive_member [OF Cons.prems st], of s'] show ?case by (simp add: st)
qed simp

section \<open>Linked accounts outside the organisation\<close>

definition outside_links :: "GitHubOrg \<Rightarrow> int list \<Rightarrow> Link list \<Rightarrow> (string \<times> Link) set" where
  "outside_links binding members links =
     {(to_lower e, l) | e l. l \<in> set links \<and> \<not> ln_Lost l \<and> ln_ID l \<notin> set members
        \<and> to_lower (ln_Login l) \<notin> IgnoredLogins binding \<and> e \<in> set (ln_Emails l)
        \<and> to_lower e \<notin> IgnoredAddresses binding}"

definition outside_ok :: "(string \<times> Link) set \<Rightarrow> Draft \<Rightarrow> bool" where
  "outside_ok R d \<longleftrightarrow>
     (\<forall>e. map_of (d_outside d) e = None \<longleftrightarrow> R `` {e} = {})
   \<and> (\<forall>e l. map_of (d_outside d) e = Some l \<longrightarrow> (e, l) \<in> R)
   \<and> (\<forall>e l l'. (e, l) \<in> R \<and> (e, l') \<in> R \<and> ln_ID l \<noteq> ln_ID l' \<longrightarrow> e \<in> dom (map_of (d_ambiguous d)))"

lemma outside_okD:
  assumes "outside_ok R d"
  shows "map_of (d_outside d) e = None \<longleftrightarrow> R `` {e} = {}"
    and "map_of (d_outside d) e = Some l \<Longrightarrow> (e, l) \<in> R"
    and "(e, l) \<in> R \<Longrightarrow> (e, l') \<in> R \<Longrightarrow> ln_ID l \<noteq> ln_ID l' \<Longrightarrow> e \<in> dom (map_of (d_ambiguous d))"
  using assms unfolding outside_ok_def by blast+

lemma add_outside_frame [frame_simps]:
  "d_owner (add_outside l e d) = d_owner d" "d_lost (add_outside l e d) = d_lost d"
  "d_desired (add_outside l e d) = d_desired d" "d_anywhere (add_outside l e d) = d_anywhere d"
  "d_binding (add_outside l e d) = d_binding d" "d_loginOf (add_outside l e d) = d_loginOf d"
  "d_emailsOf (add_outside l e d) = d_emailsOf d" "d_org (add_outside l e d) = d_org d"
  by (simp_all add: add_outside_def Let_def split: option.splits)

lemma add_outside_ambiguous: "dom (map_of (d_ambiguous d)) \<subseteq> dom (map_of (d_ambiguous (add_outside l e d)))"
  by (auto simp: add_outside_def Let_def split: option.splits)

lemma outside_ok_add:
  assumes ok: "outside_ok R d"
  shows "outside_ok (insert (to_lower e, l) R) (add_outside l e d)"
proof (cases "\<exists>other. map_of (d_outside d) (to_lower e) = Some other \<and> ln_ID other \<noteq> ln_ID l")
  case True
  then obtain other where o: "map_of (d_outside d) (to_lower e) = Some other" "ln_ID other \<noteq> ln_ID l" by blast
  then have r: "(to_lower e, other) \<in> R" using outside_okD(2) [OF ok] by blast
  have upd: "d_outside (add_outside l e d) = d_outside d"
    "dom (map_of (d_ambiguous (add_outside l e d))) = insert (to_lower e) (dom (map_of (d_ambiguous d)))"
    using o by (simp_all add: add_outside_def Let_def del: domIff)
  show ?thesis unfolding outside_ok_def upd using r outside_okD [OF ok] by (simp del: domIff) blast
next
  case False
  then have upd: "d_outside (add_outside l e d) = tput (to_lower e) l (d_outside d)"
    "d_ambiguous (add_outside l e d) = d_ambiguous d"
    by (cases "map_of (d_outside d) (to_lower e)"; simp add: add_outside_def Let_def)+
  have amb: "x \<in> dom (map_of (d_ambiguous d))"
    if h: "(x, l1) \<in> insert (to_lower e, l) R" "(x, l2) \<in> insert (to_lower e, l) R" "ln_ID l1 \<noteq> ln_ID l2" for x l1 l2
  proof (cases "(x, l1) \<in> R \<and> (x, l2) \<in> R")
    case both: True
    then show ?thesis using outside_okD(3) [OF ok, of x l1 l2] that(3) by blast
  next
    case one: False
    then obtain l3 where l3: "(to_lower e, l3) \<in> R" "ln_ID l3 \<noteq> ln_ID l" "x = to_lower e" using h by auto
    then obtain l4 where l4: "map_of (d_outside d) (to_lower e) = Some l4"
      using outside_okD(1) [OF ok, of "to_lower e"] by fastforce
    then have "ln_ID l4 = ln_ID l" "(to_lower e, l4) \<in> R" using False outside_okD(2) [OF ok l4] by blast+
    then show ?thesis using outside_okD(3) [OF ok l3(1), of l4] l3 by simp
  qed
  show ?thesis unfolding outside_ok_def upd
    using outside_okD(1,2) [OF ok] amb by (simp del: domIff) blast
qed

lemma outside_ok_adds:
  "outside_ok R d \<Longrightarrow> outside_ok (R \<union> (\<lambda>e. (to_lower e, l)) ` set es) (fold (add_outside l) es d)"
proof (induction es arbitrary: R d)
  case (Cons e es)
  from Cons.IH [OF outside_ok_add [OF Cons.prems]] show ?case by simp
qed simp

lemma adds_outside_frame [frame_simps]:
  "d_owner (fold (add_outside l) es d) = d_owner d" "d_lost (fold (add_outside l) es d) = d_lost d"
  "d_desired (fold (add_outside l) es d) = d_desired d" "d_anywhere (fold (add_outside l) es d) = d_anywhere d"
  "d_binding (fold (add_outside l) es d) = d_binding d" "d_loginOf (fold (add_outside l) es d) = d_loginOf d"
  "d_emailsOf (fold (add_outside l) es d) = d_emailsOf d" "d_org (fold (add_outside l) es d) = d_org d"
  by (induction es arbitrary: d) (simp_all add: add_outside_frame)

lemma adds_outside_ambiguous: "dom (map_of (d_ambiguous d)) \<subseteq> dom (map_of (d_ambiguous (fold (add_outside l) es d)))"
proof (induction es arbitrary: d)
  case (Cons e es)
  then show ?case using add_outside_ambiguous [of d l e] by (simp del: domIff) blast
qed simp

text \<open>One link: the accounts it adds, the fields it keeps.\<close>

lemma derive_outside_links:
  "outside_ok R d \<Longrightarrow> outside_ok (R \<union> outside_links binding members [l]) (derive_outside binding members l d)"
proof -
  assume ok: "outside_ok R d"
  show ?thesis
  proof (cases "ln_Lost l \<or> ln_ID l \<in> set members \<or> to_lower (ln_Login l) \<in> IgnoredLogins binding")
    case True
    then have "outside_links binding members [l] = {}" "derive_outside binding members l d = d"
      by (auto simp: outside_links_def derive_outside_def kept_def)
    then show ?thesis using ok by simp
  next
    case False
    let ?es = "filter (\<lambda>e. to_lower e \<notin> IgnoredAddresses binding) (ln_Emails l)"
    have "outside_links binding members [l] = (\<lambda>e. (to_lower e, l)) ` set ?es"
      using False by (auto simp: outside_links_def)
    moreover have "derive_outside binding members l d = fold (add_outside l) ?es d"
      using False by (auto simp: derive_outside_def kept_def Let_def)
    ultimately show ?thesis using outside_ok_adds [OF ok, of l ?es] by simp
  qed
qed

lemma derive_outside_frame [frame_simps]:
  "d_owner (derive_outside b ms l d) = d_owner d" "d_lost (derive_outside b ms l d) = d_lost d"
  "d_desired (derive_outside b ms l d) = d_desired d" "d_anywhere (derive_outside b ms l d) = d_anywhere d"
  "d_binding (derive_outside b ms l d) = d_binding d" "d_loginOf (derive_outside b ms l d) = d_loginOf d"
  "d_emailsOf (derive_outside b ms l d) = d_emailsOf d" "d_org (derive_outside b ms l d) = d_org d"
  by (simp_all add: derive_outside_def frame_simps split: prod.splits)

lemma derive_outsides_frame [frame_simps]:
  "d_owner (fold (derive_outside b ms) ls d) = d_owner d" "d_lost (fold (derive_outside b ms) ls d) = d_lost d"
  "d_desired (fold (derive_outside b ms) ls d) = d_desired d" "d_anywhere (fold (derive_outside b ms) ls d) = d_anywhere d"
  "d_binding (fold (derive_outside b ms) ls d) = d_binding d" "d_loginOf (fold (derive_outside b ms) ls d) = d_loginOf d"
  "d_emailsOf (fold (derive_outside b ms) ls d) = d_emailsOf d" "d_org (fold (derive_outside b ms) ls d) = d_org d"
  by (induction ls arbitrary: d) (simp_all add: derive_outside_frame)

lemma derive_outsides_links:
  assumes "outside_ok R d"
  shows "outside_ok (R \<union> outside_links b ms ls) (fold (derive_outside b ms) ls d)
    \<and> dom (map_of (d_ambiguous d)) \<subseteq> dom (map_of (d_ambiguous (fold (derive_outside b ms) ls d)))"
  using assms
proof (induction ls arbitrary: R d)
  case Nil
  then show ?case by (simp add: outside_links_def)
next
  case (Cons l ls)
  have "dom (map_of (d_ambiguous d)) \<subseteq> dom (map_of (d_ambiguous (derive_outside b ms l d)))"
    using adds_outside_ambiguous by (simp add: derive_outside_def split: prod.splits del: domIff)
  moreover have "R \<union> outside_links b ms [l] \<union> outside_links b ms ls = R \<union> outside_links b ms (l # ls)"
    by (auto simp: outside_links_def)
  ultimately show ?case
    using Cons.IH [OF derive_outside_links [OF Cons.prems, where binding = b and members = ms and l = l]] by simp blast
qed

section \<open>The wishes of the bindings\<close>

text \<open>The role the wishes up to some point ask for: the widest one.\<close>

definition widest :: "(string \<times> string \<times> Role) set \<Rightarrow> string \<Rightarrow> string \<Rightarrow> Role option" where
  "widest W scope email =
     (if (scope, email, RoleMaintainer) \<in> W then Some RoleMaintainer
      else if (scope, email, RoleMember) \<in> W then Some RoleMember else None)"

lemma wants_frame [frame_simps]:
  "d_owner (fold want ws d) = d_owner d" "d_lost (fold want ws d) = d_lost d"
  "d_binding (fold want ws d) = d_binding d" "d_loginOf (fold want ws d) = d_loginOf d"
  "d_emailsOf (fold want ws d) = d_emailsOf d" "d_ambiguous (fold want ws d) = d_ambiguous d"
  "d_outside (fold want ws d) = d_outside d" "d_org (fold want ws d) = d_org d"
  by (induction ws arbitrary: d) (simp_all add: want_def Let_def split: prod.splits)

lemma want_desired:
  assumes "\<forall>w\<in>W. snd (snd w) \<noteq> NoRole" and "role \<noteq> NoRole"
    and "\<And>scope email. map_of (tget [] (d_desired d) scope) email = widest W scope email"
  shows "map_of (tget [] (d_desired (want (s, e, role) d)) scope) email = widest (insert (s, e, role) W) scope email"
  using assms(2) assms(3) [of s e] assms(3) [of scope email]
  by (cases role) (auto simp: want_def Let_def tget_tput widest_def split: if_splits)

lemma wants_desired:
  assumes "\<forall>w\<in>W \<union> set ws. snd (snd w) \<noteq> NoRole"
    and "\<And>scope email. map_of (tget [] (d_desired d) scope) email = widest W scope email"
  shows "map_of (tget [] (d_desired (fold want ws d)) scope) email = widest (W \<union> set ws) scope email"
  using assms
proof (induction ws arbitrary: W d)
  case (Cons w ws)
  obtain s e r where w: "w = (s, e, r)" by (metis surj_pair)
  have "map_of (tget [] (d_desired (want w d)) sc) em = widest (insert w W) sc em" for sc em
    unfolding w using Cons.prems by (intro want_desired) (auto simp: w)
  then show ?case using Cons.IH [of "insert w W" "want w d"] Cons.prems(1) by simp
qed simp

lemma set_appendUnique [simp]: "set (appendUnique xs x) = insert x (set xs)"
  by (auto simp: appendUnique_def)

lemma wants_anywhere: "set (d_anywhere (fold want ws d)) = set (d_anywhere d) \<union> (fst \<circ> snd) ` set ws"
  by (induction ws arbitrary: d) (auto simp: want_def Let_def)

lemma set_team_wishes:
  "(s, email, r) \<in> set (team_wishes binding holders slug t) \<longleftrightarrow> s = slug \<and>
     (r = RoleMember \<and> (\<exists>g\<in>set (gt_Members t). email \<in> set (live_holders binding holders g))
      \<or> r = RoleMaintainer \<and> (\<exists>g\<in>set (gt_Maintainers t). email \<in> set (live_holders binding holders g)))"
  by (auto simp: team_wishes_def)

lemma wishes_of_team:
  assumes "slug \<noteq> []"
  shows "(slug, email, r) \<in> set (wishes binding holders) \<longleftrightarrow>
    (\<exists>t. map_of (go_Teams binding) slug = Some t \<and> (slug, email, r) \<in> set (team_wishes binding holders slug t))"
proof
  assume "(slug, email, r) \<in> set (wishes binding holders)"
  then obtain s t where st: "(s, t) \<in> set (sorted_entries (go_Teams binding))"
    "(slug, email, r) \<in> set (team_wishes binding holders s t)"
    using assms by (auto simp: wishes_def)
  then have "s = slug" by (simp add: set_team_wishes)
  then show "\<exists>t. map_of (go_Teams binding) slug = Some t \<and> (slug, email, r) \<in> set (team_wishes binding holders slug t)"
    using st by (auto simp: set_sorted_entries)
next
  assume "\<exists>t. map_of (go_Teams binding) slug = Some t \<and> (slug, email, r) \<in> set (team_wishes binding holders slug t)"
  then obtain t where "(slug, t) \<in> set (sorted_entries (go_Teams binding))"
    "(slug, email, r) \<in> set (team_wishes binding holders slug t)" by (auto simp: set_sorted_entries)
  then show "(slug, email, r) \<in> set (wishes binding holders)"
    unfolding wishes_def set_append set_concat set_map by force
qed

lemma wishes_roles: "w \<in> set (wishes binding holders) \<Longrightarrow> snd (snd w) \<noteq> NoRole"
  by (auto simp: wishes_def team_wishes_def)

section \<open>What Derive yields\<close>

lemma derive_members_frame [frame_simps]:
  "d_desired (fst (fold (derive_member b ls) ms st)) = d_desired (fst st)
   \<and> d_anywhere (fst (fold (derive_member b ls) ms st)) = d_anywhere (fst st)
   \<and> d_binding (fst (fold (derive_member b ls) ms st)) = d_binding (fst st)
   \<and> d_outside (fst (fold (derive_member b ls) ms st)) = d_outside (fst st)
   \<and> d_org (fst (fold (derive_member b ls) ms st)) = d_org (fst st)"
proof (induction ms arbitrary: st)
  case (Cons m ms)
  obtain d s d' s' where st: "st = (d, s)" and st': "derive_member b ls m (d, s) = (d', s')" by fastforce
  have "d_desired d' = d_desired d \<and> d_anywhere d' = d_anywhere d \<and> d_binding d' = d_binding d
    \<and> d_outside d' = d_outside d \<and> d_org d' = d_org d"
    using st' by (cases rule: derive_member_cases) (simp_all add: frame_simps)
  then show ?case using Cons.IH [of "(d', s')"] by (simp add: st st')
qed simp

text \<open>The three stages, named, and the fields the later ones leave to the earlier ones.\<close>

definition wished_draft :: "string \<Rightarrow> GitHubOrg \<Rightarrow> Holders \<Rightarrow> Draft" where
  "wished_draft org binding holders = fold want (wishes binding holders) (empty_draft org binding)"

definition member_draft :: "string \<Rightarrow> GitHubOrg \<Rightarrow> Holders \<Rightarrow> GHState \<Rightarrow> Draft \<times> string list" where
  "member_draft org binding holders state =
     fold (derive_member binding (gs_Links state)) (gs_Members state) (wished_draft org binding holders, [])"

definition outside_draft :: "string \<Rightarrow> GitHubOrg \<Rightarrow> Holders \<Rightarrow> GHState \<Rightarrow> Draft" where
  "outside_draft org binding holders state =
     fold (derive_outside binding (map mb_ID (gs_Members state))) (gs_Links state)
       (drop_ambiguous (fst (member_draft org binding holders state)))"

lemma Derive_stages:
  "\<exists>ids ivs. Derive org b hs st =
     (let d = (outside_draft org b hs st)\<lparr>d_invited := ivs, d_teamID := ids,
            d_current := current_teams b (snd (member_draft org b hs st)) (gs_TeamMembers st)\<rparr>
      in d\<lparr>d_candidates := candidates_of d\<rparr>)"
  by (cases "member_draft org b hs st")
    (auto simp: Derive_def Let_def outside_draft_def member_draft_def [symmetric] wished_draft_def [symmetric]
      split: prod.splits)

lemma Derive_fields:
  "d_loginOf (Derive org b hs st) = d_loginOf (drop_ambiguous (fst (member_draft org b hs st)))"
  "d_emailsOf (Derive org b hs st) = d_emailsOf (fst (member_draft org b hs st))"
  "d_owner (Derive org b hs st) = d_owner (fst (member_draft org b hs st))"
  "d_lost (Derive org b hs st) = d_lost (fst (member_draft org b hs st))"
  "d_ambiguous (Derive org b hs st) = d_ambiguous (outside_draft org b hs st)"
  "d_outside (Derive org b hs st) = d_outside (outside_draft org b hs st)"
  "d_desired (Derive org b hs st) = d_desired (wished_draft org b hs)"
  "d_anywhere (Derive org b hs st) = d_anywhere (wished_draft org b hs)"
  "d_binding (Derive org b hs st) = b"
  "d_current (Derive org b hs st) = current_teams b (snd (member_draft org b hs st)) (gs_TeamMembers st)"
proof -
  obtain ids ivs where D: "Derive org b hs st =
     (let d = (outside_draft org b hs st)\<lparr>d_invited := ivs, d_teamID := ids,
            d_current := current_teams b (snd (member_draft org b hs st)) (gs_TeamMembers st)\<rparr>
      in d\<lparr>d_candidates := candidates_of d\<rparr>)" using Derive_stages by blast
  have m: "d_desired (fst (member_draft org b hs st)) = d_desired (wished_draft org b hs)
    \<and> d_anywhere (fst (member_draft org b hs st)) = d_anywhere (wished_draft org b hs)
    \<and> d_binding (fst (member_draft org b hs st)) = b"
    by (simp add: member_draft_def derive_members_frame) (simp add: wished_draft_def frame_simps empty_draft_def)
  show "d_loginOf (Derive org b hs st) = d_loginOf (drop_ambiguous (fst (member_draft org b hs st)))"
    "d_emailsOf (Derive org b hs st) = d_emailsOf (fst (member_draft org b hs st))"
    "d_owner (Derive org b hs st) = d_owner (fst (member_draft org b hs st))"
    "d_lost (Derive org b hs st) = d_lost (fst (member_draft org b hs st))"
    "d_ambiguous (Derive org b hs st) = d_ambiguous (outside_draft org b hs st)"
    "d_outside (Derive org b hs st) = d_outside (outside_draft org b hs st)"
    "d_desired (Derive org b hs st) = d_desired (wished_draft org b hs)"
    "d_anywhere (Derive org b hs st) = d_anywhere (wished_draft org b hs)"
    "d_binding (Derive org b hs st) = b"
    "d_current (Derive org b hs st) = current_teams b (snd (member_draft org b hs st)) (gs_TeamMembers st)"
    using m by (simp_all add: D Let_def outside_draft_def derive_outsides_frame drop_ambiguous_def)
qed

lemma wished_blank:
  "d_loginOf (wished_draft org b hs) = []" "d_emailsOf (wished_draft org b hs) = []"
  "d_ambiguous (wished_draft org b hs) = []" "d_lost (wished_draft org b hs) = []"
  "d_outside (wished_draft org b hs) = []"
  by (simp_all add: wished_draft_def frame_simps empty_draft_def)

lemma member_draft_claims:
  "claims_ok (member_claims b (gs_Links st) (gs_Members st)) (fst (member_draft org b hs st))"
proof -
  have "claims_ok {} (wished_draft org b hs)" by (simp add: claims_ok_def wished_blank tget_def)
  from claims_ok_members [OF this] show ?thesis by (simp add: member_draft_def)
qed

lemma member_draft_logins:
  "logins_ok b (gs_Links st) (gs_Members st) (fst (member_draft org b hs st))"
proof -
  have "logins_ok b (gs_Links st) [] (wished_draft org b hs)" by (simp add: logins_ok_def wished_blank)
  from logins_ok_members [OF this, of "gs_Members st" "[]"] show ?thesis by (simp add: member_draft_def)
qed

lemma outside_draft_links:
  "outside_ok (outside_links b (map mb_ID (gs_Members st)) (gs_Links st)) (outside_draft org b hs st)
   \<and> dom (map_of (d_ambiguous (fst (member_draft org b hs st)))) \<subseteq> dom (map_of (d_ambiguous (outside_draft org b hs st)))"
proof -
  have "d_outside (fst (member_draft org b hs st)) = []"
    by (simp add: member_draft_def derive_members_frame wished_blank)
  then have "outside_ok {} (drop_ambiguous (fst (member_draft org b hs st)))"
    by (simp add: outside_ok_def drop_ambiguous_def)
  from derive_outsides_links [OF this] show ?thesis by (simp add: outside_draft_def drop_ambiguous_def del: domIff)
qed

lemma map_of_filter_keys: "map_of (filter (\<lambda>(k, _). P k) m) k = (if P k then map_of m k else None)"
  by (induction m) auto

lemma drop_ambiguous_lookup:
  "map_of (d_loginOf (drop_ambiguous d)) e = (if e \<in> dom (map_of (d_ambiguous d)) then None else map_of (d_loginOf d) e)"
  using map_of_filter_keys [of "\<lambda>e. \<not> has_key (d_ambiguous d) e" "d_loginOf d" e] by (simp add: drop_ambiguous_def)

lemma linked_iff:
  "map_of (d_loginOf (Derive org b hs st)) e = Some k \<longleftrightarrow>
   member_claims b (gs_Links st) (gs_Members st) `` {e} = {k}"
proof -
  let ?R = "member_claims b (gs_Links st) (gs_Members st)" and ?d = "fst (member_draft org b hs st)"
  note ok = claims_okD [OF member_draft_claims [of b st org hs]]
  have "map_of (d_loginOf (Derive org b hs st)) e = Some k \<longleftrightarrow> e \<notin> dom (map_of (d_ambiguous ?d)) \<and> map_of (d_loginOf ?d) e = Some k"
    by (simp add: Derive_fields drop_ambiguous_lookup)
  also have "\<dots> \<longleftrightarrow> ?R `` {e} = {k}"
  proof
    assume h: "e \<notin> dom (map_of (d_ambiguous ?d)) \<and> map_of (d_loginOf ?d) e = Some k"
    then have "(e, k) \<in> ?R" "\<And>k'. (e, k') \<in> ?R \<Longrightarrow> k' = k" using ok(2,3) [of e] by blast+
    then show "?R `` {e} = {k}" by blast
  next
    assume h: "?R `` {e} = {k}"
    then have uniq: "(e, k') \<in> ?R \<longleftrightarrow> k' = k" for k' by (metis Image_singleton_iff singleton_iff)
    obtain k' where k': "map_of (d_loginOf ?d) e = Some k'" using ok(1) [of e] h by (cases "map_of (d_loginOf ?d) e") simp_all
    have "e \<notin> dom (map_of (d_ambiguous ?d))" unfolding ok(3) [of e] uniq by simp
    moreover have "k' = k" using ok(2) [OF k'] uniq by simp
    ultimately show "e \<notin> dom (map_of (d_ambiguous ?d)) \<and> map_of (d_loginOf ?d) e = Some k" using k' by blast
  qed
  finally show ?thesis .
qed

section \<open>The properties\<close>

text \<open>
  An address is linked to an account exactly when that account is the only member that claims it,
  through its verified addresses or through its link; an address two accounts claim is linked to
  neither.
\<close>
theorem linked_exactly_when_one_account_claims:
  "map_of (d_loginOf (Derive org binding holders state)) email = Some login \<longleftrightarrow>
     {mb_Login m | m. m \<in> set (gs_Members state) \<and> email \<in> set (claimed binding (gs_Links state) m)} = {login}"
proof -
  have "member_claims binding (gs_Links state) (gs_Members state) `` {email}
      = {mb_Login m | m. m \<in> set (gs_Members state) \<and> email \<in> set (claimed binding (gs_Links state) m)}"
    by (auto simp: member_claims_def)
  then show ?thesis by (simp add: linked_iff)
qed

text \<open>
  The role a team wants somebody in is the widest the bindings give: maintainer when a live,
  not ignored holder of a maintainers' group has the address, else member when a members' group has
  it, else none.
\<close>
theorem wanted_role_is_the_widest:
  assumes "slug \<noteq> []" and "map_of (go_Teams binding) slug = Some team"
  shows "map_of (tget [] (d_desired (Derive org binding holders state)) slug) email =
    (if \<exists>g\<in>set (gt_Maintainers team). email \<in> set (live_holders binding holders g) then Some RoleMaintainer
     else if \<exists>g\<in>set (gt_Members team). email \<in> set (live_holders binding holders g) then Some RoleMember
     else None)"
proof -
  have "map_of (tget [] (d_desired (wished_draft org binding holders)) slug) email
      = widest (set (wishes binding holders)) slug email"
    using wants_desired [of "{}" "wishes binding holders" "empty_draft org binding"] wishes_roles
    by (simp add: wished_draft_def empty_draft_def widest_def tget_def)
  moreover have "(slug, email, r) \<in> set (wishes binding holders) \<longleftrightarrow>
     (r = RoleMember \<and> (\<exists>g\<in>set (gt_Members team). email \<in> set (live_holders binding holders g)))
     \<or> (r = RoleMaintainer \<and> (\<exists>g\<in>set (gt_Maintainers team). email \<in> set (live_holders binding holders g)))" for r
    using assms(2) by (simp add: wishes_of_team [OF assms(1)] set_team_wishes)
  ultimately show ?thesis by (simp add: Derive_fields widest_def)
qed

section \<open>Invitations\<close>

text \<open>What holds of every invitation under way.\<close>

definition invitation_ok :: "Draft \<Rightarrow> int \<Rightarrow> Action \<Rightarrow> bool" where
  "invitation_ok d ident i \<longleftrightarrow>
     a_Kind i = ActionInvite \<and> a_Team i = [] \<and> a_Account i = ident \<and> a_Email i \<in> set (d_anywhere d)
   \<and> map_of (d_loginOf d) (a_Email i) = None \<and> map_of (d_ambiguous d) (a_Email i) = None
   \<and> a_Email i \<notin> set (d_invited d) \<and> ''@'' @ to_lower (a_Login i) \<notin> set (d_invited d)
   \<and> (\<exists>l. map_of (d_outside d) (a_Email i) = Some l \<and> ln_ID l = ident \<and> ln_Login l = a_Login i)"

lemma invitation_ok_teams [simp]: "invitation_ok d ident (i\<lparr>a_Teams := ts\<rparr>) \<longleftrightarrow> invitation_ok d ident i"
  by (simp add: invitation_ok_def)

definition inviting_ok :: "Draft \<Rightarrow> Inviting \<Rightarrow> bool" where
  "inviting_ok d st \<longleftrightarrow>
     distinct (map fst (i_invites st)) \<and> (\<forall>ident i. map_of (i_invites st) ident = Some i \<longrightarrow> invitation_ok d ident i)"

lemma invite_one_ok:
  assumes ok: "inviting_ok d st" and e: "email \<in> set (d_anywhere d)"
  shows "inviting_ok d (invite_one d email st)"
proof (cases "map_of (d_loginOf d) email = None \<and> email \<notin> set (d_invited d) \<and> map_of (d_ambiguous d) email = None
    \<and> (\<exists>l. map_of (d_outside d) email = Some l \<and> ''@'' @ to_lower (ln_Login l) \<notin> set (d_invited d))")
  case False
  then have "i_invites (invite_one d email st) = i_invites st"
    by (auto simp: invite_one_def split: option.splits)
  then show ?thesis using ok by (simp add: inviting_ok_def)
next
  case True
  then obtain l where l: "map_of (d_outside d) email = Some l" "''@'' @ to_lower (ln_Login l) \<notin> set (d_invited d)" by blast
  define i where "i = (case map_of (i_invites st) (ln_ID l) of Some i \<Rightarrow> i
      | None \<Rightarrow> blank_action\<lparr>a_Kind := ActionInvite, a_Email := email, a_Login := ln_Login l,
          a_Account := ln_ID l, a_Role := RoleMember\<rparr>)"
  have st': "i_invites (invite_one d email st)
      = tput (ln_ID l) (i\<lparr>a_Teams := invite_teams d email (a_Teams i)\<rparr>) (i_invites st)"
    using True l by (simp add: invite_one_def i_def Let_def domIff)
  have i_ok: "invitation_ok d (ln_ID l) i"
  proof (cases "map_of (i_invites st) (ln_ID l)")
    case None
    then show ?thesis using True l e by (simp add: i_def invitation_ok_def blank_action_def)
  next
    case (Some i')
    then show ?thesis using ok by (simp add: i_def inviting_ok_def)
  qed
  have "distinct (map fst (tput (ln_ID l) (i\<lparr>a_Teams := invite_teams d email (a_Teams i)\<rparr>) (i_invites st)))"
    using ok by (simp add: inviting_ok_def tput_def distinct_update)
  then show ?thesis using ok i_ok unfolding inviting_ok_def st' by simp
qed

lemma inviting_is_ok: "inviting_ok d (inviting d)"
proof -
  have "inviting_ok d (fold (invite_one d) es st)" if "inviting_ok d st" "set es \<subseteq> set (d_anywhere d)" for es st
    using that by (induction es arbitrary: st) (simp_all add: invite_one_ok)
  moreover have "inviting_ok d \<lparr>i_invites = [], i_held = [], i_notLinked = []\<rparr>" by (simp add: inviting_ok_def)
  ultimately show ?thesis unfolding inviting_def by simp
qed

lemma invite_actions_ok:
  "a \<in> set (invite_actions d) \<Longrightarrow> invitation_ok d (a_Account a) a"
proof -
  assume "a \<in> set (invite_actions d)"
  then obtain ident i where i: "(ident, i) \<in> set (i_invites (inviting d))" "a = i\<lparr>a_Teams := sort (a_Teams i)\<rparr>"
    by (auto simp: invite_actions_def)
  have "map_of (i_invites (inviting d)) ident = Some i"
    using inviting_is_ok [of d] i(1) by (simp add: inviting_ok_def)
  then have "invitation_ok d ident i" using inviting_is_ok [of d] by (simp add: inviting_ok_def)
  then show ?thesis by (simp add: i(2)) (simp add: invitation_ok_def)
qed

lemma invite_accounts_distinct: "distinct (map a_Account (invite_actions d))"
proof -
  have "map a_Account (invite_actions d) = map fst (i_invites (inviting d))"
  proof -
    have "a_Account i = ident" if "(ident, i) \<in> set (i_invites (inviting d))" for ident i
      using inviting_is_ok [of d] that by (simp add: inviting_ok_def invitation_ok_def)
    then show ?thesis by (auto simp: invite_actions_def)
  qed
  then show ?thesis using inviting_is_ok [of d] by (simp add: inviting_ok_def)
qed

section \<open>Whom a decision touches\<close>

lemma row_actions:
  assumes "a \<in> set (snd (row d ivt scope email role))"
  shows "map_of (d_loginOf d) email = Some (a_Login a) \<and> a_Email a = email \<and> a_Team a = scope \<and> scope \<noteq> [] \<and> a_Role a = role
    \<and> (a_Kind a = ActionAdd \<and> \<not> has_key (tget [] (d_current d) scope) (a_Login a)
       \<or> a_Kind a = ActionSetRole \<and> map_of (tget [] (d_current d) scope) (a_Login a) = Some (role \<noteq> RoleMaintainer)
         \<and> (tget False (d_owner d) (a_Login a) \<longrightarrow> role = RoleMaintainer))"
  using assms by (auto simp: row_def Let_def blank_action_def split: option.splits if_splits)

lemma leaver_actions:
  assumes "(r, [a]) \<in> set (leaver_row d conf slug login)"
  shows "a_Kind a = ActionRemove \<and> a_Team a = slug \<and> a_Login a = login \<and> \<not> tget False (d_owner d) login
    \<and> tget [] (d_emailsOf d) login \<noteq> [] \<and> \<not> wantsAny d slug (tget [] (d_emailsOf d) login)
    \<and> confirmTeamRemoval d slug (tget [] (d_emailsOf d) login) conf = None"
  using assms by (auto simp: leaver_row_def Let_def blank_action_def split: option.splits if_splits)

lemma gone_actions:
  assumes "(r, [a]) \<in> set (gone_row d conf (login, emails))"
  shows "a_Kind a = ActionRemove \<and> a_Team a = [] \<and> a_Login a = login \<and> \<not> tget False (d_owner d) login
    \<and> \<not> wantsAnywhere d emails \<and> allGone emails conf"
  using assms by (auto simp: gone_row_def Let_def blank_action_def split: if_splits)

lemma lost_actions:
  assumes "lost_row d (login, l) = (r, [a])"
  shows "a_Kind a = ActionRemove \<and> a_Team a = [] \<and> a_Login a = login \<and> \<not> tget False (d_owner d) login"
  using assms by (auto simp: lost_row_def Let_def blank_action_def split: if_splits)

lemmas action_facts = row_actions leaver_actions gone_actions lost_actions

lemma linked_has_emails:
  assumes "map_of (d_loginOf (Derive org b hs st)) e = Some k"
  shows "has_key (d_emailsOf (Derive org b hs st)) k"
proof -
  have "(e, k) \<in> member_claims b (gs_Links st) (gs_Members st)" using assms unfolding linked_iff by blast
  then have "e \<in> set (tget [] (d_emailsOf (fst (member_draft org b hs st))) k)"
    using claims_okD(4) [OF member_draft_claims] by blast
  then show ?thesis
    by (cases "map_of (d_emailsOf (fst (member_draft org b hs st))) k") (auto simp: Derive_fields tget_def)
qed

text \<open>The login of every action that is not an invitation is a known member's.\<close>

lemma touched_logins:
  assumes "a \<in> set (snd (Decide (Derive org b hs st) conf))" and "a_Kind a \<noteq> ActionInvite"
  shows "has_key (d_emailsOf (Derive org b hs st)) (a_Login a) \<or> has_key (d_lost (Derive org b hs st)) (a_Login a)"
  using assms(1)
proof (cases rule: Decide_actions)
  case invite
  then show ?thesis using invite_actions_ok assms(2) by (auto simp: invitation_ok_def)
next
  case (wanted scope email role)
  then show ?thesis using row_actions [OF wanted(2)] linked_has_emails by blast
next
  case (leaver slug login r)
  then show ?thesis using leaver_actions [OF leaver(3)] by (auto simp: tget_def split: option.splits)
next
  case (gone login emails r)
  then show ?thesis using gone_actions [OF gone(2)] by auto
next
  case (lost login l r)
  then show ?thesis using lost_actions [OF lost(2)] by auto
qed

lemma touched_member:
  assumes "a \<in> set (snd (Decide (Derive org b hs st) conf))" and "a_Kind a \<noteq> ActionInvite"
  obtains m where "m \<in> set (gs_Members st)" "mb_Login m = a_Login a" "to_lower (a_Login a) \<notin> IgnoredLogins b"
    "tget False (d_owner (Derive org b hs st)) (a_Login a) = mb_Owner m"
proof -
  have "has_key (d_emailsOf (fst (member_draft org b hs st))) (a_Login a) \<or> has_key (d_lost (fst (member_draft org b hs st))) (a_Login a)"
    using touched_logins [OF assms] by (simp only: Derive_fields)
  then obtain m where "m \<in> set (gs_Members st)" "mb_Login m = a_Login a" "to_lower (a_Login a) \<notin> IgnoredLogins b"
    "map_of (d_owner (fst (member_draft org b hs st))) (a_Login a) = Some (mb_Owner m)"
    using member_draft_logins [of b st org hs] unfolding logins_ok_def by blast
  then show thesis by (intro that [of m]) (simp_all add: Derive_fields tget_def)
qed

lemma link_of_Some: "link_of links ident = Some l \<Longrightarrow> l \<in> set links \<and> ln_ID l = ident"
proof -
  have "map_of (fold (\<lambda>l m. tput (ln_ID l) l m) links acc) ident = Some l \<Longrightarrow>
    (l \<in> set links \<and> ln_ID l = ident) \<or> map_of acc ident = Some l" for acc
    by (induction links arbitrary: acc) (fastforce split: if_splits)+
  then show "link_of links ident = Some l \<Longrightarrow> l \<in> set links \<and> ln_ID l = ident" by (fastforce simp: link_of_def)
qed

text \<open>The addresses the member behind a login is known by.\<close>

definition addresses_of :: "GitHubOrg \<Rightarrow> GHState \<Rightarrow> string \<Rightarrow> string set" where
  "addresses_of binding state login =
     {e. \<exists>m\<in>set (gs_Members state). mb_Login m = login \<and> e \<in> set (claimed binding (gs_Links state) m)}"

lemma emailsOf_addresses: "set (tget [] (d_emailsOf (Derive org b hs st)) k) = addresses_of b st k"
  using claims_okD(4) [OF member_draft_claims [of b st org hs]]
  by (auto simp: Derive_fields addresses_of_def member_claims_def)

lemma emailsOf_not_Nil: "map_of (d_emailsOf (Derive org b hs st)) k \<noteq> Some []"
  using claims_okD(5) [OF member_draft_claims [of b st org hs]] by (simp add: Derive_fields)

lemma invitations_of_Decide:
  assumes "a \<in> set (snd (Decide d conf))" and "a_Kind a = ActionInvite"
  shows "a \<in> set (invite_actions d)"
  using assms(1)
proof (cases rule: Decide_actions)
  case (wanted scope email role)
  then show ?thesis using row_actions [OF wanted(2)] assms(2) by auto
next
  case (leaver slug login r)
  then show ?thesis using leaver_actions [OF leaver(3)] assms(2) by simp
next
  case (gone login emails r)
  then show ?thesis using gone_actions [OF gone(2)] assms(2) by simp
next
  case (lost login l r)
  then show ?thesis using lost_actions [OF lost(2)] assms(2) by simp
qed

lemma invited_link:
  assumes "a \<in> set (invite_actions (Derive org b hs st))"
  obtains l where "(a_Email a, l) \<in> outside_links b (map mb_ID (gs_Members st)) (gs_Links st)"
    "ln_Login l = a_Login a" "ln_ID l = a_Account a"
proof -
  obtain l where l: "map_of (d_outside (Derive org b hs st)) (a_Email a) = Some l" "ln_Login l = a_Login a" "ln_ID l = a_Account a"
    using invite_actions_ok [OF assms] unfolding invitation_ok_def by blast
  have "map_of (d_outside (outside_draft org b hs st)) (a_Email a) = Some l" using l(1) by (simp add: Derive_fields)
  then show thesis using that [OF _ l(2,3)] outside_okD(2) [OF conjunct1 [OF outside_draft_links]] by blast
qed

text \<open>
  C11. An owner keeps what they have: no decision removes an owner from a team or from the organisation,
  and none sets an owner's role in a team to anything but maintainer.
\<close>
theorem owners_are_never_removed_or_demoted:
  assumes "distinct (map mb_Login (gs_Members state))" and "m \<in> set (gs_Members state)" and "mb_Owner m"
    and "a \<in> set (snd (Decide (Derive org binding holders state) confirmations))" and "a_Login a = mb_Login m"
  shows "a_Kind a \<noteq> ActionRemove \<and> (a_Kind a = ActionSetRole \<longrightarrow> a_Role a = RoleMaintainer)"
proof (cases "a_Kind a = ActionInvite")
  case False
  then obtain m' where m': "m' \<in> set (gs_Members state)" "mb_Login m' = a_Login a"
    "tget False (d_owner (Derive org binding holders state)) (a_Login a) = mb_Owner m'"
    using touched_member [OF assms(4)] by metis
  then have "m' = m" using assms(1,2,5) by (simp add: distinct_map inj_on_def)
  then have owner: "tget False (d_owner (Derive org binding holders state)) (a_Login a)" using m' assms(3) by simp
  from assms(4) show ?thesis
  proof (cases rule: Decide_actions)
    case invite
    then show ?thesis using invite_actions_ok False by (auto simp: invitation_ok_def)
  next
    case (wanted scope email role)
    then show ?thesis using row_actions [OF wanted(2)] owner by auto
  next
    case (leaver slug login r)
    then show ?thesis using leaver_actions [OF leaver(3)] owner by simp
  next
    case (gone login emails r)
    then show ?thesis using gone_actions [OF gone(2)] owner by simp
  next
    case (lost login l r)
    then show ?thesis using lost_actions [OF lost(2)] owner by simp
  qed
qed simp

text \<open>
  C12. A removal rests on evidence: the account's link is lost by GitHub's own answer; or the directory
  answered for every address of the account that it is gone; or, for a team, it vouched for every
  address and none of them, found and not suspended, is in a group the team wants.
\<close>
theorem removals_rest_on_evidence:
  assumes "a \<in> set (snd (Decide (Derive org binding holders state) confirmations))" and "a_Kind a = ActionRemove"
  shows "(\<exists>m l. m \<in> set (gs_Members state) \<and> mb_Login m = a_Login a \<and> l \<in> set (gs_Links state)
            \<and> ln_ID l = mb_ID m \<and> ln_Lost l)
    \<or> addresses_of binding state (a_Login a) \<noteq> {}
      \<and> ((\<forall>e\<in>addresses_of binding state (a_Login a). \<exists>v. map_of confirmations e = Some v \<and> Vouch_Gone v)
         \<or> (\<exists>team. map_of (go_Teams binding) (a_Team a) = Some team
             \<and> (\<forall>e\<in>addresses_of binding state (a_Login a). \<exists>v. map_of confirmations e = Some v \<and> v_Authoritative v
                 \<and> (v_Found v \<and> \<not> v_Suspended v \<longrightarrow>
                      set (GitHubTeam_Groups team) \<inter> (set (v_Groups v) \<union> set (v_DirectoryGroups v)) = {}))))"
  using assms(1)
proof (cases rule: Decide_actions)
  case invite
  then show ?thesis using invite_actions_ok assms(2) by (auto simp: invitation_ok_def)
next
  case (wanted scope email role)
  then show ?thesis using row_actions [OF wanted(2)] assms(2) by auto
next
  case (leaver slug login r)
  note f = leaver_actions [OF leaver(3)]
  obtain team where team: "map_of (go_Teams binding) slug = Some team" using leaver(1) by (auto simp: Derive_fields)
  have "Removal (tget [] (d_emailsOf (Derive org binding holders state)) login) confirmations (GitHubTeam_Groups team) = None"
    using f team by (simp add: confirmTeamRemoval_def Derive_fields)
  then have "\<forall>e\<in>addresses_of binding state login. \<exists>v. map_of confirmations e = Some v \<and> v_Authoritative v
      \<and> (v_Found v \<and> \<not> v_Suspended v \<longrightarrow>
           set (GitHubTeam_Groups team) \<inter> (set (v_Groups v) \<union> set (v_DirectoryGroups v)) = {})"
    unfolding Removal_None_iff emailsOf_addresses by (fastforce simp: holdsAny_def list_ex_iff)
  moreover have "addresses_of binding state login \<noteq> {}" using f emailsOf_addresses [of org binding holders state login] by auto
  ultimately show ?thesis using f team by blast
next
  case (gone login emails r)
  note f = gone_actions [OF gone(2)]
  have "set emails = addresses_of binding state login"
    using gone(1) emailsOf_addresses [of org binding holders state login] by (simp add: tget_def)
  moreover have "emails \<noteq> []" using gone(1) emailsOf_not_Nil by blast
  ultimately show ?thesis using f by (fastforce simp: allGone_def list_all_iff split: option.splits)
next
  case (lost login l r)
  have "map_of (d_lost (fst (member_draft org binding holders state))) login = Some l" using lost(1) by (simp add: Derive_fields)
  then obtain m where "m \<in> set (gs_Members state)" "mb_Login m = login" "link_of (gs_Links state) (mb_ID m) = Some l" "ln_Lost l"
    using member_draft_logins [of binding state org holders] unfolding logins_ok_def by blast
  then show ?thesis using lost_actions [OF lost(2)] link_of_Some [of "gs_Links state" "mb_ID m" l]
    by (intro disjI1 exI [of _ m] exI [of _ l]) simp
qed

text \<open>
  An ignored login is never touched: no action of a decision, invitations included, concerns an
  account whose login the binding ignores, in whatever case it is written.
\<close>
theorem ignored_logins_are_never_touched:
  assumes "a \<in> set (snd (Decide (Derive org binding holders state) confirmations))"
  shows "to_lower (a_Login a) \<notin> IgnoredLogins binding"
proof (cases "a_Kind a = ActionInvite")
  case False
  then show ?thesis using touched_member [OF assms] by metis
next
  case True
  let ?d = "Derive org binding holders state"
  have "a \<in> set (invite_actions ?d)" by (rule invitations_of_Decide [OF assms True])
  from invited_link [OF this] show ?thesis by (auto simp: outside_links_def)
qed

text \<open>
  An invitation goes to the one account its address was proved with: a linked account outside the
  organisation, not lost and not ignored, whose link proves a wanted address that no member and no other
  outside account claims, and no account is invited twice in one decision.
\<close>
theorem invitations_go_to_the_linked_account:
  assumes "a \<in> set (snd (Decide (Derive org binding holders state) confirmations))" and "a_Kind a = ActionInvite"
  shows "\<exists>l. (a_Email a, l) \<in> outside_links binding (map mb_ID (gs_Members state)) (gs_Links state)
      \<and> ln_Login l = a_Login a \<and> ln_ID l = a_Account a
      \<and> (\<forall>l'. (a_Email a, l') \<in> outside_links binding (map mb_ID (gs_Members state)) (gs_Links state) \<longrightarrow> ln_ID l' = ln_ID l)
      \<and> (\<forall>m\<in>set (gs_Members state). a_Email a \<notin> set (claimed binding (gs_Links state) m))
      \<and> (\<exists>scope role. (scope, a_Email a, role) \<in> set (wishes binding holders))
      \<and> (\<forall>a'. a' \<in> set (snd (Decide (Derive org binding holders state) confirmations)) \<and> a_Kind a' = ActionInvite
           \<and> a_Account a' = a_Account a \<longrightarrow> a' = a)"
proof -
  let ?d = "Derive org binding holders state" and ?O = "outside_links binding (map mb_ID (gs_Members state)) (gs_Links state)"
  have inv: "a \<in> set (invite_actions ?d)" by (rule invitations_of_Decide [OF assms])
  note ok = invite_actions_ok [OF inv, unfolded invitation_ok_def]
  obtain l where l: "(a_Email a, l) \<in> ?O" "ln_Login l = a_Login a" "ln_ID l = a_Account a" using invited_link [OF inv] by blast
  have amb: "a_Email a \<notin> dom (map_of (d_ambiguous (outside_draft org binding holders state)))"
    using ok by (simp add: Derive_fields domIff)
  have one: "ln_ID l' = ln_ID l" if "(a_Email a, l') \<in> ?O" for l'
    using outside_okD(3) [OF conjunct1 [OF outside_draft_links] l(1) that] amb by metis
  have "a_Email a \<notin> dom (map_of (d_ambiguous (fst (member_draft org binding holders state))))"
    using amb conjunct2 [OF outside_draft_links [of binding state org holders]] by blast
  moreover have "map_of (d_loginOf ?d) (a_Email a) = None" using ok by blast
  ultimately have "map_of (d_loginOf (fst (member_draft org binding holders state))) (a_Email a) = None"
    by (simp add: Derive_fields drop_ambiguous_lookup)
  then have none: "member_claims binding (gs_Links state) (gs_Members state) `` {a_Email a} = {}"
    using claims_okD(1) [OF member_draft_claims] by blast
  have wanted: "\<exists>scope role. (scope, a_Email a, role) \<in> set (wishes binding holders)"
    using ok by (force simp: Derive_fields wished_draft_def wants_anywhere empty_draft_def)
  have once: "a' = a" if "a' \<in> set (snd (Decide ?d confirmations))" "a_Kind a' = ActionInvite" "a_Account a' = a_Account a" for a'
    using inj_onD [OF conjunct2 [OF invite_accounts_distinct [of ?d, unfolded distinct_map]] that(3)]
      invitations_of_Decide [OF that(1,2)] inv by blast
  have unclaimed: "\<forall>m\<in>set (gs_Members state). a_Email a \<notin> set (claimed binding (gs_Links state) m)"
    using none unfolding member_claims_def by blast
  show ?thesis
    by (intro exI [of _ l] conjI l wanted unclaimed allI impI) (use one once in blast)+
qed

lemma Derive_candidates: "d_candidates (Derive org b hs st) = candidates_of (Derive org b hs st)"
proof -
  have "candidates_of (d\<lparr>d_candidates := cs\<rparr>) = candidates_of d" for d cs
    by (simp add: candidates_of_def wantsAny_def wantsAnywhere_def)
  then show ?thesis using Derive_stages [of org b hs st] by (auto simp: Let_def)
qed

lemma allGone_cong:
  "(\<And>e. e \<in> set emails \<Longrightarrow> map_of c e = map_of c' e) \<Longrightarrow> allGone emails c = allGone emails c'"
  by (simp add: allGone_def list_all_iff)

lemma leaver_row_cong:
  assumes "slug \<in> set (tkeys (go_Teams (d_binding d)))" and "login \<in> set (tkeys (tget [] (d_current d) slug))"
    and same: "\<And>e. e \<in> set (candidates_of d) \<Longrightarrow> map_of c e = map_of c' e"
  shows "leaver_row d c slug login = leaver_row d c' slug login"
proof (cases "tget [] (d_emailsOf d) login = [] \<or> tget False (d_owner d) login \<or> wantsAny d slug (tget [] (d_emailsOf d) login)")
  case True
  then show ?thesis by (auto simp: leaver_row_def Let_def)
next
  case False
  then have "set (tget [] (d_emailsOf d) login) \<subseteq> set (candidates_of d)"
    using assms(1,2) by (fastforce simp: candidates_of_def Let_def simp del: set_tkeys)
  then have eq: "confirmTeamRemoval d slug (tget [] (d_emailsOf d) login) c = confirmTeamRemoval d slug (tget [] (d_emailsOf d) login) c'"
    unfolding confirmTeamRemoval_def using same by (intro Removal_cong) blast
  show ?thesis unfolding leaver_row_def Let_def eq ..
qed

lemma gone_row_cong:
  assumes "(login, emails) \<in> set (sorted_entries (d_emailsOf d))"
    and same: "\<And>e. e \<in> set (candidates_of d) \<Longrightarrow> map_of c e = map_of c' e"
  shows "gone_row d c (login, emails) = gone_row d c' (login, emails)"
proof (cases "wantsAnywhere d emails")
  case False
  then have "set emails \<subseteq> set (candidates_of d)" using assms(1) by (fastforce simp: candidates_of_def)
  then have "allGone emails c = allGone emails c'" using same by (intro allGone_cong) blast
  then show ?thesis by (simp add: gone_row_def)
qed (simp add: gone_row_def)

text \<open>
  The addresses Confirm names are all that Decide needs to know about: two sets of answers that
  agree on them give the same report and the same actions.
\<close>
theorem confirm_names_all_decide_needs:
  assumes "\<And>e. e \<in> set (Draft_Confirm (Derive org binding holders state)) \<Longrightarrow> map_of conf e = map_of conf' e"
  shows "Decide (Derive org binding holders state) conf = Decide (Derive org binding holders state) conf'"
proof -
  let ?d = "Derive org binding holders state"
  have same: "e \<in> set (candidates_of ?d) \<Longrightarrow> map_of conf e = map_of conf' e" for e
    using assms by (simp add: Draft_Confirm_def Derive_candidates)
  have "team_rows ?d ivt conf slug = team_rows ?d ivt conf' slug" if "slug \<in> set (tkeys (go_Teams (d_binding ?d)))" for ivt slug
  proof -
    have eq: "map (leaver_row ?d conf slug) (tkeys (tget [] (d_current ?d) slug))
        = map (leaver_row ?d conf' slug) (tkeys (tget [] (d_current ?d) slug))"
      by (rule map_cong [OF refl]) (rule leaver_row_cong [OF that _ same])
    show ?thesis unfolding team_rows_def eq ..
  qed
  then have teams: "map (\<lambda>slug. (slug, team_rows ?d (inviting ?d) conf slug)) (tkeys (go_Teams (d_binding ?d)))
      = map (\<lambda>slug. (slug, team_rows ?d (inviting ?d) conf' slug)) (tkeys (go_Teams (d_binding ?d)))"
    by (intro map_cong [OF refl]) simp
  have gone: "map (gone_row ?d conf) (sorted_entries (d_emailsOf ?d)) = map (gone_row ?d conf') (sorted_entries (d_emailsOf ?d))"
    by (rule map_cong [OF refl]) (metis gone_row_cong same surj_pair)
  show ?thesis unfolding Decide_def Let_def teams gone ..
qed

section \<open>A small organisation\<close>

text \<open>
  An owner \<open>root\<close> nobody wants, an owner \<open>ann\<close> who is a lead, \<open>bob\<close> who left the directory, a linked
  account \<open>cat\<close> outside the organisation, and a login \<open>bot\<close> that is ignored.
\<close>

definition sample_binding :: GitHubOrg where
  "sample_binding = \<lparr>go_Members = [''staff''], go_Teams = [(''core'', \<lparr>gt_Members = [''staff''], gt_Maintainers = [''leads'']\<rparr>)],
     go_Ignore = [''Bot'']\<rparr>"

definition sample_holders :: Holders where
  "sample_holders = [(''staff'', [\<lparr>ho_Email = ''ann@x.io'', ho_Live = True\<rparr>, \<lparr>ho_Email = ''Cat@x.io'', ho_Live = True\<rparr>]),
     (''leads'', [\<lparr>ho_Email = ''ann@x.io'', ho_Live = True\<rparr>])]"

definition sample_member :: "int \<Rightarrow> string \<Rightarrow> bool \<Rightarrow> GMember" where
  "sample_member ident login owner = \<lparr>mb_ID = ident, mb_Login = login, mb_Owner = owner, mb_Emails = []\<rparr>"

definition sample_link :: "int \<Rightarrow> string \<Rightarrow> Link" where
  "sample_link ident login = \<lparr>ln_ID = ident, ln_Login = login, ln_Emails = [login @ ''@x.io''], ln_Lost = False, ln_Reason = []\<rparr>"

definition sample_state :: GHState where
  "sample_state = \<lparr>gs_Members = [sample_member 1 ''root'' True, sample_member 2 ''ann'' True, sample_member 3 ''bob'' False, sample_member 5 ''bot'' False],
     gs_Invitations = [], gs_Teams = [\<lparr>tm_ID = 7, tm_Slug = ''core''\<rparr>],
     gs_TeamMembers = [(''core'', [\<lparr>tmm_Login = ''root'', tmm_Maintainer = True\<rparr>, \<lparr>tmm_Login = ''ann'', tmm_Maintainer = False\<rparr>,
       \<lparr>tmm_Login = ''bob'', tmm_Maintainer = False\<rparr>, \<lparr>tmm_Login = ''bot'', tmm_Maintainer = False\<rparr>])],
     gs_Links = map (\<lambda>(i, l). sample_link i l) [(1, ''root''), (2, ''ann''), (3, ''bob''), (4, ''cat''), (5, ''bot'')]\<rparr>"

definition sample_draft :: Draft where
  "sample_draft = Derive ''acme'' sample_binding sample_holders sample_state"

definition sample_confirmations :: "Vouch table" where
  "sample_confirmations = [(''root@x.io'', gone_vouch), (''bob@x.io'', gone_vouch)]"

text \<open>What the run does: ann is promoted, bob leaves, cat is invited into the team.\<close>

lemma sample_actions:
  "map (\<lambda>a. (a_Kind a, a_Team a, a_Login a)) (snd (Decide sample_draft sample_confirmations))
   = [(ActionInvite, [], ''cat''), (ActionSetRole, ''core'', ''ann''), (ActionRemove, [], ''bob'')]"
  by code_simp

lemma sample_action:
  "(k, t, l) \<in> {(ActionInvite, [], ''cat''), (ActionSetRole, ''core'', ''ann''), (ActionRemove, [], ''bob'')} \<Longrightarrow>
   \<exists>a\<in>set (snd (Decide (Derive ''acme'' sample_binding sample_holders sample_state) sample_confirmations)).
     a_Kind a = k \<and> a_Team a = t \<and> a_Login a = l"
proof -
  assume "(k, t, l) \<in> {(ActionInvite, [], ''cat''), (ActionSetRole, ''core'', ''ann''), (ActionRemove, [], ''bob'')}"
  then have "(k, t, l) \<in> set (map (\<lambda>a. (a_Kind a, a_Team a, a_Login a)) (snd (Decide sample_draft sample_confirmations)))"
    unfolding sample_actions by auto
  then show ?thesis by (auto simp: sample_draft_def)
qed

theorem owners_witness:
  "\<exists>a. a \<in> set (snd (Decide sample_draft sample_confirmations)) \<and> a_Login a = ''ann''
     \<and> a_Kind a = ActionSetRole \<and> a_Role a = RoleMaintainer"
proof -
  have d: "distinct (map mb_Login (gs_Members sample_state))" and m: "sample_member 2 ''ann'' True \<in> set (gs_Members sample_state)"
    by code_simp+
  obtain a where a: "a \<in> set (snd (Decide (Derive ''acme'' sample_binding sample_holders sample_state) sample_confirmations))"
    "a_Kind a = ActionSetRole" "a_Login a = ''ann''" using sample_action [of ActionSetRole "''core''" "''ann''"] by auto
  have "a_Role a = RoleMaintainer"
    using owners_are_never_removed_or_demoted [OF d m _ a(1)] a(2,3) by (simp add: sample_member_def)
  then show ?thesis using a unfolding sample_draft_def by blast
qed

theorem evidence_witness:
  "\<exists>v. map_of sample_confirmations ''bob@x.io'' = Some v \<and> v_Authoritative v"
proof -
  obtain a where a: "a \<in> set (snd (Decide (Derive ''acme'' sample_binding sample_holders sample_state) sample_confirmations))"
    "a_Kind a = ActionRemove" "a_Login a = ''bob''" using sample_action [of ActionRemove "[]" "''bob''"] by auto
  have bob: "''bob@x.io'' \<in> addresses_of sample_binding sample_state ''bob''"
  proof -
    have "sample_member 3 ''bob'' False \<in> set (gs_Members sample_state)"
      "''bob@x.io'' \<in> set (claimed sample_binding (gs_Links sample_state) (sample_member 3 ''bob'' False))" by code_simp+
    then show ?thesis unfolding addresses_of_def by (force simp: sample_member_def)
  qed
  have "\<not> (\<exists>m l. m \<in> set (gs_Members sample_state) \<and> mb_Login m = ''bob'' \<and> l \<in> set (gs_Links sample_state) \<and> ln_ID l = mb_ID m \<and> ln_Lost l)"
    by (auto simp: sample_state_def sample_link_def)
  then show ?thesis
    using removals_rest_on_evidence [OF a(1,2)] bob unfolding a(3) by (auto simp: Vouch_Gone_def)
qed

theorem ignored_witness:
  "\<exists>a. a \<in> set (snd (Decide sample_draft sample_confirmations)) \<and> to_lower (a_Login a) \<notin> IgnoredLogins sample_binding"
proof -
  obtain a where a: "a \<in> set (snd (Decide (Derive ''acme'' sample_binding sample_holders sample_state) sample_confirmations))"
    using sample_action [of ActionRemove "[]" "''bob''"] by auto
  from ignored_logins_are_never_touched [OF this] a show ?thesis unfolding sample_draft_def by blast
qed

theorem invitation_witness:
  "\<exists>(a :: Action) l. a_Kind a = ActionInvite \<and> ln_Login l = a_Login a \<and> a_Login a = ''cat''
     \<and> (a_Email a, l) \<in> outside_links sample_binding (map mb_ID (gs_Members sample_state)) (gs_Links sample_state)"
proof -
  obtain a where a: "a \<in> set (snd (Decide (Derive ''acme'' sample_binding sample_holders sample_state) sample_confirmations))"
    "a_Kind a = ActionInvite" "a_Login a = ''cat''" using sample_action [of ActionInvite "[]" "''cat''"] by auto
  from invitations_go_to_the_linked_account [OF a(1,2)] a(2,3) show ?thesis by blast
qed

theorem wanted_role_witness:
  "map_of (tget [] (d_desired (Derive ''acme'' sample_binding sample_holders sample_state)) ''core'') ''ann@x.io'' = Some RoleMaintainer"
proof -
  have t: "map_of (go_Teams sample_binding) ''core'' = Some \<lparr>gt_Members = [''staff''], gt_Maintainers = [''leads'']\<rparr>"
    by (simp add: sample_binding_def)
  have l: "''ann@x.io'' \<in> set (live_holders sample_binding sample_holders ''leads'')" by code_simp
  show ?thesis using wanted_role_is_the_widest [OF _ t, of "''acme''" sample_holders sample_state "''ann@x.io''"] l by simp
qed

theorem confirm_witness:
  "Decide sample_draft sample_confirmations = Decide sample_draft ((''zed@x.io'', gone_vouch) # sample_confirmations)"
proof -
  have "''zed@x.io'' \<notin> set (Draft_Confirm (Derive ''acme'' sample_binding sample_holders sample_state))" by code_simp
  then show ?thesis unfolding sample_draft_def
    by (intro confirm_names_all_decide_needs) auto
qed

end
