(* ===== verification/Encoding.thy ===== *)
theory Encoding
  imports Go_Prelude
begin

text \<open>
  Encodings of the standard library that the modelled packages use: \<open>base64.RawURLEncoding\<close> (the
  decoder skips carriage returns and line feeds and does not check the bits a last, short group leaves
  over), \<open>strconv.FormatInt(n, 10)\<close>, which is also \<open>%d\<close>, and \<open>strconv.ParseInt(s, 10, 64)\<close>. The lemmas
  are the round trips, and which bytes an encoded string can hold.
\<close>

section \<open>Unpadded URL-safe base64\<close>

definition b64_alphabet :: string where
  "b64_alphabet = ''ABCDEFGHIJKLMNOPQRSTUVWXYZabcdefghijklmnopqrstuvwxyz0123456789-_''"

definition b64_char :: "int \<Rightarrow> char" where
  "b64_char n = b64_alphabet ! nat n"

definition b64_val :: "char \<Rightarrow> int option" where
  "b64_val ch =
     (let n = of_char ch :: int
      in if 65 \<le> n \<and> n \<le> 90 then Some (n - 65)
         else if 97 \<le> n \<and> n \<le> 122 then Some (n - 71)
         else if 48 \<le> n \<and> n \<le> 57 then Some (n + 4)
         else if n = 45 then Some 62 else if n = 95 then Some 63 else None)"

fun b64_bytes :: "int list \<Rightarrow> int list" where
  "b64_bytes [] = []"
| "b64_bytes [a] = [a div 4, (a mod 4) * 16]"
| "b64_bytes [a, b] = [a div 4, (a mod 4) * 16 + b div 16, (b mod 16) * 4]"
| "b64_bytes (a # b # c # rest) =
     a div 4 # ((a mod 4) * 16 + b div 16) # ((b mod 16) * 4 + c div 64) # (c mod 64) # b64_bytes rest"

definition b64_encode :: "string \<Rightarrow> string" where
  "b64_encode s = map b64_char (b64_bytes (map of_char s))"

fun b64_groups :: "int list \<Rightarrow> int list option" where
  "b64_groups [] = Some []"
| "b64_groups [w] = None"
| "b64_groups [w, x] = Some [w * 4 + x div 16]"
| "b64_groups [w, x, y] = Some [w * 4 + x div 16, (x mod 16) * 16 + y div 4]"
| "b64_groups (w # x # y # z # rest) =
     map_option (\<lambda>bs. (w * 4 + x div 16) # ((x mod 16) * 16 + y div 4) # ((y mod 4) * 64 + z) # bs) (b64_groups rest)"

fun all_some :: "'a option list \<Rightarrow> 'a list option" where
  "all_some [] = Some []"
| "all_some (x # xs) = (case x of None \<Rightarrow> None | Some v \<Rightarrow> map_option (Cons v) (all_some xs))"

definition b64_decode :: "string \<Rightarrow> string option" where
  "b64_decode s =
     (case all_some (map b64_val (filter (\<lambda>ch. ch \<noteq> CHR 0x0A \<and> ch \<noteq> CHR 0x0D) s)) of
        None \<Rightarrow> None
      | Some vs \<Rightarrow> map_option (map char_of) (b64_groups vs))"

lemma all_some_map_Some [simp]: "all_some (map Some xs) = Some xs"
  by (induction xs) auto

lemma six_bits: "n \<in> {0..<64} \<Longrightarrow> n \<in> set [0..63 :: int]"
  by auto

lemma b64_char_val: "0 \<le> n \<Longrightarrow> n < 64 \<Longrightarrow> b64_val (b64_char n) = Some n \<and> b64_char n \<in> set b64_alphabet"
proof -
  have "list_all (\<lambda>n. b64_val (b64_char n) = Some n \<and> b64_char n \<in> set b64_alphabet) [0..63]" by code_simp
  then show "0 \<le> n \<Longrightarrow> n < 64 \<Longrightarrow> b64_val (b64_char n) = Some n \<and> b64_char n \<in> set b64_alphabet"
    unfolding list_all_iff using six_bits [of n] by auto
qed

lemma b64_bytes_range: "\<forall>b\<in>set bs. 0 \<le> b \<and> b < 256 \<Longrightarrow> v \<in> set (b64_bytes bs) \<Longrightarrow> 0 \<le> v \<and> v < 64"
  by (induction bs rule: b64_bytes.induct) (auto, (presburger+)?)

lemma b64_groups_bytes: "\<forall>b\<in>set bs. 0 \<le> b \<and> b < 256 \<Longrightarrow> b64_groups (b64_bytes bs) = Some bs"
proof (induction bs rule: b64_bytes.induct)
  case (4 a b c rest)
  have "((a mod 4) * 16 + b div 16) div 16 = a mod 4" "((a mod 4) * 16 + b div 16) mod 16 = b div 16"
    "((b mod 16) * 4 + c div 64) div 4 = b mod 16" "((b mod 16) * 4 + c div 64) mod 4 = c div 64"
    using 4(2) by (auto simp: div_add1_eq)
  then show ?case using 4 by (auto simp: mult.commute)
next
  case (3 a b)
  have "((a mod 4) * 16 + b div 16) div 16 = a mod 4" "((a mod 4) * 16 + b div 16) mod 16 = b div 16"
    using 3 by auto
  then show ?case by (auto simp: mult.commute)
qed (auto simp: mult.commute)

lemma byte_range: "0 \<le> (of_char ch :: int) \<and> of_char ch < (256 :: int)"
  by (metis of_char_mod_256 pos_mod_bound pos_mod_sign zero_less_numeral)

lemma b64_encode_chars: "set (b64_encode s) \<subseteq> set b64_alphabet"
proof -
  have "\<forall>b\<in>set (map of_char s). 0 \<le> b \<and> b < (256 :: int)" using byte_range by auto
  then have "b64_char v \<in> set b64_alphabet" if "v \<in> set (b64_bytes (map of_char s))" for v
    using b64_bytes_range [OF _ that] b64_char_val [of v] by blast
  then show ?thesis unfolding b64_encode_def by auto
qed

theorem b64_round_trip: "b64_decode (b64_encode s) = Some s"
proof -
  let ?vs = "b64_bytes (map of_char s)"
  have bs: "\<forall>b\<in>set (map of_char s). 0 \<le> b \<and> b < (256 :: int)" using byte_range by auto
  then have r: "\<And>v. v \<in> set ?vs \<Longrightarrow> b64_val (b64_char v) = Some v" using b64_bytes_range b64_char_val by blast
  have "CHR 0x0A \<notin> set b64_alphabet" "CHR 0x0D \<notin> set b64_alphabet" by (simp_all add: b64_alphabet_def)
  then have "filter (\<lambda>ch. ch \<noteq> CHR 0x0A \<and> ch \<noteq> CHR 0x0D) (b64_encode s) = b64_encode s"
    using b64_encode_chars [of s] by (intro filter_True) blast
  moreover have "map b64_val (b64_encode s) = map Some ?vs"
    unfolding b64_encode_def using r by simp
  ultimately show ?thesis unfolding b64_decode_def by (simp add: b64_groups_bytes [OF bs] o_def)
qed

lemma b64_encode_Nil_iff [simp]: "b64_encode s = [] \<longleftrightarrow> s = []"
proof
  assume "b64_encode s = []"
  then have "b64_decode [] = Some s" using b64_round_trip [of s] by simp
  then show "s = []" by (simp add: b64_decode_def)
qed (simp add: b64_encode_def)

lemma b64_encode_free: "ch \<notin> set b64_alphabet \<Longrightarrow> ch \<notin> set (b64_encode s)"
  using b64_encode_chars by blast

section \<open>Integers in decimal\<close>

function show_digits :: "int \<Rightarrow> string" where
  "show_digits n = (if n < 10 then [char_of (48 + n)] else show_digits (n div 10) @ [char_of (48 + n mod 10)])"
  by auto
termination by (relation "measure nat") auto

declare show_digits.simps [simp del]

definition show_int :: "int \<Rightarrow> string" where
  "show_int n = (if n < 0 then CHR ''-'' # show_digits (- n) else show_digits n)"

fun parse_digits :: "int \<Rightarrow> string \<Rightarrow> int option" where
  "parse_digits acc [] = Some acc"
| "parse_digits acc (ch # cs) =
     (let n = of_char ch :: int
      in if 48 \<le> n \<and> n \<le> 57 then parse_digits (acc * 10 + (n - 48)) cs else None)"

text \<open>\<open>strconv.ParseInt(s, 10, 64)\<close>.\<close>

definition parse_int64 :: "string \<Rightarrow> int option" where
  "parse_int64 s =
     (let (neg, ds) = (case s of [] \<Rightarrow> (False, []) | ch # cs \<Rightarrow>
          if ch = CHR ''+'' then (False, cs) else if ch = CHR ''-'' then (True, cs) else (False, s))
      in if ds = [] then None
         else case parse_digits 0 ds of
           None \<Rightarrow> None
         | Some n \<Rightarrow> (if neg then (if n \<le> 2 ^ 63 then Some (- n) else None)
                      else (if n < 2 ^ 63 then Some n else None)))"

lemma of_char_digit: "0 \<le> n \<Longrightarrow> n < 10 \<Longrightarrow> of_char (char_of (48 + n) :: char) = (48 + n :: int)"
  by (simp add: of_char_of)

lemma parse_digits_append:
  "parse_digits acc (xs @ ys) = (case parse_digits acc xs of None \<Rightarrow> None | Some n \<Rightarrow> parse_digits n ys)"
  by (induction xs arbitrary: acc) (auto simp: Let_def)

lemma parse_show_digits: "0 \<le> n \<Longrightarrow> parse_digits 0 (show_digits n) = Some n"
proof (induction n rule: show_digits.induct)
  case (1 n)
  show ?case
  proof (cases "n < 10")
    case True
    then show ?thesis using 1(2) by (subst show_digits.simps) (simp add: of_char_digit)
  next
    case False
    then have "parse_digits 0 (show_digits (n div 10)) = Some (n div 10)" using 1 by simp
    then show ?thesis using False
      by (subst show_digits.simps) (simp add: parse_digits_append of_char_digit)
  qed
qed

lemma digits_chars:
  assumes "0 \<le> n" and "ch \<in> set (show_digits n)"
  shows "48 \<le> (of_char ch :: int) \<and> of_char ch \<le> (57 :: int)"
  using assms
proof (induction n rule: show_digits.induct)
  case (1 n)
  have d: "0 \<le> m \<Longrightarrow> m < 10 \<Longrightarrow> 48 \<le> (of_char (char_of (48 + m) :: char) :: int) \<and> of_char (char_of (48 + m) :: char) \<le> (57 :: int)" for m :: int
    by (simp only: of_char_digit) simp
  show ?case
  proof (cases "n < 10")
    case True
    then have "ch = char_of (48 + n)" using 1(3) by (simp add: show_digits.simps [of n])
    then show ?thesis using d [OF 1(2) True] by simp
  next
    case False
    then have "ch \<in> set (show_digits (n div 10) @ [char_of (48 + n mod 10)])"
      using 1(3) by (metis show_digits.simps)
    then have "ch \<in> set (show_digits (n div 10)) \<or> ch = char_of (48 + n mod 10)"
      unfolding set_append list.set by blast
    then show ?thesis using 1(1) [OF False] 1(2) d [of "n mod 10"] by (elim disjE) auto
  qed
qed

lemma show_digits_not_Nil: "show_digits n \<noteq> []"
  by (subst show_digits.simps) simp

lemma show_int_chars: "ch \<in> set (show_int n) \<Longrightarrow> ch = CHR ''-'' \<or> (48 \<le> (of_char ch :: int) \<and> of_char ch \<le> (57 :: int))"
  using digits_chars [of n ch] digits_chars [of "- n" ch] by (auto simp: show_int_def split: if_splits)

theorem int_round_trip: "- (2 ^ 63) \<le> n \<Longrightarrow> n < 2 ^ 63 \<Longrightarrow> parse_int64 (show_int n) = Some n"
proof -
  assume n: "- (2 ^ 63) \<le> n" "n < 2 ^ 63"
  show ?thesis
  proof (cases "n < 0")
    case True
    then show ?thesis using n show_digits_not_Nil [of "- n"] parse_show_digits [of "- n"]
      by (simp add: parse_int64_def show_int_def)
  next
    case False
    obtain ch cs where c: "show_digits n = ch # cs" using show_digits_not_Nil by (meson neq_Nil_conv)
    have "48 \<le> (of_char ch :: int)" using digits_chars [of n ch] False c by simp
    then have "ch \<noteq> CHR ''+''" "ch \<noteq> CHR ''-''" by auto
    then show ?thesis using False n c parse_show_digits [of n] by (simp add: parse_int64_def show_int_def)
  qed
qed

end
