(* ===== verification/GitHub_Guard.thy ===== *)
theory GitHub_Guard
  imports GitHub_Safety Encoding
begin

text \<open>
  The three rules of \<open>src/internal/githubroster/reconcile/guard.go\<close> a decided organisation is checked
  against before anything is done: an account that let invitations expire is not invited again, nobody
  is invited without a free seat, and a mass removal waits for an operator. \<open>slices.DeleteFunc\<close> calls its
  predicate once per action in order, so each rule is a fold that threads the report and keeps the rest.
  A \<open>time.Time\<close> is nanoseconds since Go's zero time, which is what a missing entry of \<open>LinkedAt\<close> reads as;
  SHA-256, which fingerprints the removals, is the parameter \<open>sha\<close>.
\<close>

section \<open>Definitions\<close>

record FailedInvitation =
  fi_Login :: string
  fi_Email :: string
  fi_FailedAt :: int

record Plan =
  pl_Seats :: int
  pl_Filled :: int

record Guards =
  g_Plan :: Plan
  g_Known :: bool
  g_Pending :: int
  g_Failed :: "FailedInvitation list"
  g_LinkedAt :: "(int, int) gomap"
  g_Members :: int
  g_Confirmed :: string

definition ignoredAfter :: int where "ignoredAfter = 2"

text \<open>Every row an action concerns.\<close>

definition row_matches :: "Action \<Rightarrow> Row \<Rightarrow> bool" where
  "row_matches a m =
     (if row_Action m \<noteq> a_Kind a then False
      else if a_Kind a = ActionInvite
      then row_Email m = a_Email a \<or> (a_Login a \<noteq> [] \<and> equal_fold (row_Login m) (a_Login a))
      else equal_fold (row_Login m) (a_Login a))"

definition setRows :: "Action \<Rightarrow> (Row \<Rightarrow> Row) \<Rightarrow> Report \<Rightarrow> Report" where
  "setRows a change report =
     (let touch = map (\<lambda>m. if row_matches a m then change m else m);
          r1 = (if a_Kind a = ActionInvite \<or> a_Team a = []
                then report\<lparr>rep_Members := touch (rep_Members report)\<rparr> else report)
      in r1\<lparr>rep_Teams := map (\<lambda>(slug, ms).
            if a_Kind a = ActionRemove \<and> a_Team a \<noteq> [] \<and> slug \<noteq> a_Team a then (slug, ms) else (slug, touch ms))
          (rep_Teams r1)\<rparr>)"

definition expired_invitations :: "Guards \<Rightarrow> Action \<Rightarrow> int" where
  "expired_invitations g a =
     int (length (filter (\<lambda>f. equal_fold (fi_Login f) (a_Login a) \<and> fi_FailedAt f > tget 0 (g_LinkedAt g) (a_Account a)) (g_Failed g)))"

definition ignore_one :: "Guards \<Rightarrow> Action \<Rightarrow> Report \<times> Action list \<Rightarrow> Report \<times> Action list" where
  "ignore_one g a st =
     (case st of (report, out) \<Rightarrow>
        if a_Kind a \<noteq> ActionInvite \<or> a_Account a = 0 then (report, out @ [a])
        else if expired_invitations g a < ignoredAfter then (report, out @ [a])
        else (setRows a (\<lambda>m. m\<lparr>row_State := StateIgnored, row_Action := ActionNone,
                row_Reason := ''@'' @ a_Login a @ '' let '' @ show_int (expired_invitations g a)
                  @ '' invitations expire; linking the account again invites them again''\<rparr>) report, out))"

definition ignoreRepeatedInvitations :: "Guards \<Rightarrow> Report \<times> Action list \<Rightarrow> Report \<times> Action list" where
  "ignoreRepeatedInvitations g ra = fold (ignore_one g) (snd ra) (fst ra, [])"

definition no_seat_reason :: "Guards \<Rightarrow> string" where
  "no_seat_reason g =
     (if \<not> g_Known g
      then ''seats cannot be counted: approve organisation administration (read) for the App, and invitations go out on the next pass''
      else ''no free seat: buy a seat in the organisation's billing, and the invitation goes out on the next pass'')"

definition initial_seats :: "Guards \<Rightarrow> Seats" where
  "initial_seats g =
     \<lparr>se_Known = g_Known g, se_Total = (if g_Known g then pl_Seats (g_Plan g) else 0),
      se_Filled = (if g_Known g then pl_Filled (g_Plan g) else 0), se_Pending = g_Pending g,
      se_Free = (if g_Known g then max 0 (pl_Seats (g_Plan g) - pl_Filled (g_Plan g) - g_Pending g) else 0), se_Short = 0\<rparr>"

text \<open>The state of the pass over the actions: the report, the free seats left, the invitations short, what stays.\<close>

definition seat_one :: "Guards \<Rightarrow> Action \<Rightarrow> Report \<times> int \<times> int \<times> Action list \<Rightarrow> Report \<times> int \<times> int \<times> Action list" where
  "seat_one g a st =
     (case st of (report, free, short, out) \<Rightarrow>
        if a_Kind a \<noteq> ActionInvite then (report, free, short, out @ [a])
        else if g_Known g \<and> free > 0 then (report, free - 1, short, out @ [a])
        else (setRows a (\<lambda>m. m\<lparr>row_State := StateHeld, row_Reason := no_seat_reason g\<rparr>) report, free, short + 1, out))"

definition fitSeats :: "Guards \<Rightarrow> Report \<times> Action list \<Rightarrow> Report \<times> Action list" where
  "fitSeats g ra =
     (case fold (seat_one g) (snd ra) (fst ra, se_Free (initial_seats g), 0, []) of
        (report, _, short, out) \<Rightarrow> (report\<lparr>rep_Seats := Some ((initial_seats g)\<lparr>se_Short := short\<rparr>)\<rparr>, out))"

definition removal_lines :: "Action list \<Rightarrow> string list" where
  "removal_lines actions =
     map (\<lambda>a. to_lower (a_Login a) @ ''|'' @ a_Team a) (filter (\<lambda>a. a_Kind a = ActionRemove) actions)"

definition affected_accounts :: "Action list \<Rightarrow> string list" where
  "affected_accounts actions = remdups (map (\<lambda>a. to_lower (a_Login a)) (filter (\<lambda>a. a_Kind a = ActionRemove) actions))"

definition over_limit_reason :: "Breaker \<Rightarrow> string" where
  "over_limit_reason b =
     ''over the removal limit '' @ [CHR 0xE2, CHR 0x80, CHR 0x94] @ '' '' @ show_int (br_Affected b) @ '' of '' @ show_int (br_Total b)
     @ '' members at once: an operator confirms this set in the console''"

definition hold_one :: "string \<Rightarrow> Action \<Rightarrow> Report \<times> Action list \<Rightarrow> Report \<times> Action list" where
  "hold_one reason a st =
     (case st of (report, out) \<Rightarrow>
        if a_Kind a \<noteq> ActionRemove then (report, out @ [a])
        else (setRows a (\<lambda>m. m\<lparr>row_State := StateHeld, row_Reason := reason\<rparr>) report, out))"

definition breakMassRemoval :: "(string \<Rightarrow> string) \<Rightarrow> Guards \<Rightarrow> Report \<times> Action list \<Rightarrow> Report \<times> Action list" where
  "breakMassRemoval sha g ra =
     (case ra of (report, actions) \<Rightarrow>
        (case CheckBreaker sha (int (length (affected_accounts actions))) (removal_lines actions) (g_Members g) (g_Confirmed g) of
           None \<Rightarrow> (report, actions)
         | Some b \<Rightarrow>
             let report' = report\<lparr>rep_Breaker := Some b\<rparr>
             in if br_Confirmed b then (report', actions)
                else fold (hold_one (over_limit_reason b)) actions (report', [])))"

definition Guard :: "(string \<Rightarrow> string) \<Rightarrow> Guards \<Rightarrow> Report \<times> Action list \<Rightarrow> Report \<times> Action list" where
  "Guard sha g ra = breakMassRemoval sha g (fitSeats g (ignoreRepeatedInvitations g ra))"

section \<open>What each rule keeps\<close>

lemma ignore_fold:
  "snd (fold (ignore_one g) as (r, out)) =
     out @ filter (\<lambda>a. \<not> (a_Kind a = ActionInvite \<and> a_Account a \<noteq> 0 \<and> ignoredAfter \<le> expired_invitations g a)) as"
  by (induction as arbitrary: r out) (auto simp: ignore_one_def)

lemma ignoreRepeated_actions:
  "snd (ignoreRepeatedInvitations g (r, as)) =
     filter (\<lambda>a. \<not> (a_Kind a = ActionInvite \<and> a_Account a \<noteq> 0 \<and> ignoredAfter \<le> expired_invitations g a)) as"
  by (simp add: ignoreRepeatedInvitations_def ignore_fold)

lemma hold_fold:
  "snd (fold (hold_one why) as (r, out)) = out @ filter (\<lambda>a. a_Kind a \<noteq> ActionRemove) as"
  by (induction as arbitrary: r out) (auto simp: hold_one_def)

text \<open>The first \<open>n\<close> invitations and everything else.\<close>

fun first_invites :: "nat \<Rightarrow> Action list \<Rightarrow> Action list" where
  "first_invites n [] = []"
| "first_invites n (a # as) =
     (if a_Kind a \<noteq> ActionInvite then a # first_invites n as
      else case n of 0 \<Rightarrow> first_invites 0 as | Suc k \<Rightarrow> a # first_invites k as)"

abbreviation invites :: "Action list \<Rightarrow> Action list" where
  "invites as \<equiv> filter (\<lambda>a. a_Kind a = ActionInvite) as"

lemma first_invites_invites: "invites (first_invites n as) = take n (invites as)"
  by (induction n as rule: first_invites.induct) (auto split: nat.splits)

lemma first_invites_rest:
  "filter (\<lambda>a. a_Kind a \<noteq> ActionInvite) (first_invites n as) = filter (\<lambda>a. a_Kind a \<noteq> ActionInvite) as"
  by (induction n as rule: first_invites.induct) (auto split: nat.splits)

lemma seat_one_cases:
  "a_Kind a \<noteq> ActionInvite \<Longrightarrow> seat_one g a (r, free, short, out) = (r, free, short, out @ [a])"
  "a_Kind a = ActionInvite \<Longrightarrow> g_Known g \<Longrightarrow> 0 < free \<Longrightarrow> seat_one g a (r, free, short, out) = (r, free - 1, short, out @ [a])"
  "a_Kind a = ActionInvite \<Longrightarrow> free \<le> 0 \<Longrightarrow> seat_one g a (r, free, short, out) =
     (setRows a (\<lambda>m. m\<lparr>row_State := StateHeld, row_Reason := no_seat_reason g\<rparr>) r, free, short + 1, out)"
  by (simp_all add: seat_one_def)

lemma seat_fold:
  "0 \<le> free \<Longrightarrow> (\<not> g_Known g \<Longrightarrow> free = 0) \<Longrightarrow>
   \<exists>r' free'. fold (seat_one g) as (r, free, short, out) =
     (r', free', short + int (length (invites as)) - int (length (take (nat free) (invites as))), out @ first_invites (nat free) as)"
proof (induction as arbitrary: r free short out)
  case (Cons a as)
  show ?case
  proof (cases "a_Kind a = ActionInvite \<and> 0 < free")
    case True
    then obtain k where k: "nat free = Suc k" "nat (free - 1) = k" by (metis Suc_nat_eq_nat_zadd1 diff_add_cancel zle_diff1_eq add.commute)
    show ?thesis
    proof (cases "g_Known g")
      case known: True
      have "0 \<le> free - 1" using True by simp
      then obtain r' free' where "fold (seat_one g) as (r, free - 1, short, out @ [a]) =
        (r', free', short + int (length (invites as)) - int (length (take k (invites as))), (out @ [a]) @ first_invites k as)"
        using Cons.IH [of "free - 1" r short "out @ [a]"] known k(2) by auto
      then show ?thesis using True known k(1) by (simp add: seat_one_cases algebra_simps)
    next
      case False
      then show ?thesis using Cons.prems True by simp
    qed
  next
    case False
    note IH = Cons.IH [OF Cons.prems]
    show ?thesis
    proof (cases "a_Kind a = ActionInvite")
      case inv: True
      then have "free = 0" using False Cons.prems(1) by simp
      then show ?thesis using inv IH [of _ "short + 1" out] by (simp add: seat_one_cases algebra_simps)
    next
      case other: False
      then show ?thesis using IH [of r short "out @ [a]"] by (simp add: seat_one_cases)
    qed
  qed
qed simp

lemma fitSeats_result:
  "snd (fitSeats g (r, as)) = first_invites (nat (se_Free (initial_seats g))) as
   \<and> rep_Seats (fst (fitSeats g (r, as))) = Some ((initial_seats g)\<lparr>se_Short :=
        int (length (invites as)) - int (length (invites (snd (fitSeats g (r, as)))))\<rparr>)"
proof -
  have "0 \<le> se_Free (initial_seats g)" "\<not> g_Known g \<Longrightarrow> se_Free (initial_seats g) = 0" by (simp_all add: initial_seats_def)
  then obtain r' free' where "fold (seat_one g) as (r, se_Free (initial_seats g), 0, []) =
      (r', free', 0 + int (length (invites as)) - int (length (take (nat (se_Free (initial_seats g))) (invites as))),
       [] @ first_invites (nat (se_Free (initial_seats g))) as)" using seat_fold [of _ g] by blast
  then show ?thesis by (simp add: fitSeats_def first_invites_invites)
qed

lemma setRows_seats [simp]: "rep_Seats (setRows a f r) = rep_Seats r"
  by (simp add: setRows_def Let_def)

lemma hold_fold_seats: "rep_Seats (fst (fold (hold_one why) as (r, out))) = rep_Seats r"
  by (induction as arbitrary: r out) (auto simp: hold_one_def)

lemma breakMassRemoval_actions:
  "snd (breakMassRemoval sha g (r, as)) =
     (case CheckBreaker sha (int (length (affected_accounts as))) (removal_lines as) (g_Members g) (g_Confirmed g) of
        Some b \<Rightarrow> if br_Confirmed b then as else filter (\<lambda>a. a_Kind a \<noteq> ActionRemove) as
      | None \<Rightarrow> as)"
  by (simp add: breakMassRemoval_def Let_def hold_fold split: option.splits)

lemma breakMassRemoval_seats: "rep_Seats (fst (breakMassRemoval sha g ra)) = rep_Seats (fst ra)"
  by (cases ra) (simp add: breakMassRemoval_def Let_def hold_fold_seats split: option.splits)

text \<open>The actions that pass the first two rules.\<close>

definition seated :: "Guards \<Rightarrow> Action list \<Rightarrow> Action list" where
  "seated g as = first_invites (nat (se_Free (initial_seats g)))
     (filter (\<lambda>a. \<not> (a_Kind a = ActionInvite \<and> a_Account a \<noteq> 0 \<and> ignoredAfter \<le> expired_invitations g a)) as)"

lemma fitSeats_seated: "snd (fitSeats g (ignoreRepeatedInvitations g (r, as))) = seated g as"
  using conjunct1 [OF fitSeats_result [of g "fst (ignoreRepeatedInvitations g (r, as))" "snd (ignoreRepeatedInvitations g (r, as))"]]
  unfolding seated_def ignoreRepeated_actions [symmetric, where g = g and r = r and as = as] by simp

lemma seated_others:
  "filter (\<lambda>a. a_Kind a \<noteq> ActionInvite) (seated g as) = filter (\<lambda>a. a_Kind a \<noteq> ActionInvite) as"
  unfolding seated_def first_invites_rest filter_filter by (rule filter_cong) auto

lemma seated_removals:
  "filter (\<lambda>a. a_Kind a = ActionRemove) (seated g as) = filter (\<lambda>a. a_Kind a = ActionRemove) as"
proof -
  have sub: "filter (\<lambda>a. a_Kind a = ActionRemove) xs
      = filter (\<lambda>a. a_Kind a = ActionRemove) (filter (\<lambda>a. a_Kind a \<noteq> ActionInvite) xs)" for xs :: "Action list"
    by (simp add: conj_commute) (rule filter_cong [OF refl], auto)
  show ?thesis using seated_others [of g as] sub [of "seated g as"] sub [of as] by simp
qed

text \<open>
  Invitations fit the seats: at most as many go out as there are free seats, counting the pending
  ones as taken, the first ones in the order of the decision; none goes out while the seats cannot be
  read; the report counts every one that was short of a seat; and none goes to an account that let two
  expire since it was last linked.
\<close>
theorem invitations_fit_the_free_seats:
  assumes "Guard sha g (report, actions) = (report', actions')"
  defines "eligible \<equiv> filter (\<lambda>a. a_Kind a = ActionInvite \<and> (a_Account a = 0 \<or> expired_invitations g a < 2)) actions"
  defines "free \<equiv> (if g_Known g then max 0 (pl_Seats (g_Plan g) - pl_Filled (g_Plan g) - g_Pending g) else 0)"
  shows "filter (\<lambda>a. a_Kind a = ActionInvite) actions' = take (nat free) eligible
    \<and> (\<exists>s. rep_Seats report' = Some s \<and> se_Free s = free \<and> se_Short s = int (length eligible) - int (length (take (nat free) eligible)))"
proof -
  let ?ig = "ignoreRepeatedInvitations g (report, actions)"
  have free: "se_Free (initial_seats g) = free" by (simp add: free_def initial_seats_def)
  have elig: "invites (snd ?ig) = eligible"
    unfolding ignoreRepeated_actions eligible_def filter_filter by (rule filter_cong) (auto simp: ignoredAfter_def)
  have fit: "invites (snd (fitSeats g ?ig)) = take (nat free) eligible"
    using fitSeats_result [of g "fst ?ig" "snd ?ig"] elig free by (simp add: first_invites_invites)
  have act: "actions' = snd (breakMassRemoval sha g (fitSeats g ?ig))" and rep: "report' = fst (breakMassRemoval sha g (fitSeats g ?ig))"
    using assms(1) by (simp_all add: Guard_def)
  have "invites actions' = invites (snd (fitSeats g ?ig))"
    unfolding act by (cases "fitSeats g ?ig") (auto simp: breakMassRemoval_actions split: option.splits intro!: filter_cong)
  moreover have "rep_Seats report' = Some ((initial_seats g)\<lparr>se_Short := int (length eligible) - int (length (take (nat free) eligible))\<rparr>)"
    unfolding rep breakMassRemoval_seats using fitSeats_result [of g "fst ?ig" "snd ?ig"] fit elig by simp
  ultimately show ?thesis using fit free by simp
qed

text \<open>
  C31. A mass removal waits for an operator: when the decided removals concern more than half of the
  members, either nothing is removed, or the operator confirmed the fingerprint of exactly these
  removals; otherwise every decided removal is kept. Changes that are neither an invitation nor a
  removal always go through.
\<close>
theorem mass_removal_needs_confirmation:
  assumes "Guard sha g (report, actions) = (report', actions')"
  defines "removals \<equiv> filter (\<lambda>a. a_Kind a = ActionRemove) actions"
  defines "accounts \<equiv> card ((\<lambda>a. to_lower (a_Login a)) ` set removals)"
  shows "filter (\<lambda>a. a_Kind a = ActionRemove) actions' =
      (if g_Members g \<noteq> 0 \<and> g_Members g < 2 * int accounts
          \<and> \<not> (g_Confirmed g \<noteq> [] \<and> g_Confirmed g = Fingerprint sha (removal_lines removals)) then [] else removals)
    \<and> filter (\<lambda>a. a_Kind a \<notin> {ActionRemove, ActionInvite}) actions' = filter (\<lambda>a. a_Kind a \<notin> {ActionRemove, ActionInvite}) actions"
proof -
  have act: "actions' = snd (breakMassRemoval sha g (fst (fitSeats g (ignoreRepeatedInvitations g (report, actions))), seated g actions))"
    using assms(1) unfolding fitSeats_seated [symmetric, of g actions report] by (simp add: Guard_def)
  have rm: "filter (\<lambda>a. a_Kind a = ActionRemove) (seated g actions) = removals" by (simp add: seated_removals removals_def)
  have ln: "removal_lines (seated g actions) = removal_lines removals"
    unfolding removal_lines_def rm by (simp add: removals_def)
  have cnt: "length (affected_accounts (seated g actions)) = accounts"
    unfolding affected_accounts_def rm by (simp add: accounts_def length_remdups_card_conv)
  have none: "filter (\<lambda>a. a_Kind a = ActionRemove) (filter (\<lambda>a. a_Kind a \<noteq> ActionRemove) xs) = []" for xs :: "Action list"
    by (simp add: filter_empty_conv)
  have "filter (\<lambda>a. a_Kind a \<notin> {ActionRemove, ActionInvite}) (seated g actions) = filter (\<lambda>a. a_Kind a \<notin> {ActionRemove, ActionInvite}) actions"
  proof -
    have "filter (\<lambda>a. a_Kind a \<notin> {ActionRemove, ActionInvite}) xs
        = filter (\<lambda>a. a_Kind a \<noteq> ActionRemove) (filter (\<lambda>a. a_Kind a \<noteq> ActionInvite) xs)" for xs :: "Action list"
      unfolding filter_filter by (rule filter_cong) auto
    moreover have "filter (\<lambda>a. a_Kind a \<noteq> ActionInvite) (seated g actions) = filter (\<lambda>a. a_Kind a \<noteq> ActionInvite) actions"
      by (rule seated_others)
    ultimately show ?thesis by (simp only:)
  qed
  then have "filter (\<lambda>a. a_Kind a \<notin> {ActionRemove, ActionInvite}) actions' = filter (\<lambda>a. a_Kind a \<notin> {ActionRemove, ActionInvite}) actions"
    unfolding act breakMassRemoval_actions by (auto split: option.splits)
  moreover have "filter (\<lambda>a. a_Kind a = ActionRemove) actions' =
      (if g_Members g \<noteq> 0 \<and> g_Members g < 2 * int accounts
          \<and> \<not> (g_Confirmed g \<noteq> [] \<and> g_Confirmed g = Fingerprint sha (removal_lines removals)) then [] else removals)"
    unfolding act breakMassRemoval_actions ln cnt by (auto simp: CheckBreaker_def none rm)
  ultimately show ?thesis by blast
qed

text \<open>Over the sample organisation: one seat and one invitation; three members, one of them leaving.\<close>

definition sample_guards :: Guards where
  "sample_guards = \<lparr>g_Plan = \<lparr>pl_Seats = 5, pl_Filled = 4\<rparr>, g_Known = True, g_Pending = 0,
     g_Failed = [\<lparr>fi_Login = ''cat'', fi_Email = [], fi_FailedAt = 9\<rparr>], g_LinkedAt = [(4, 3)], g_Members = 4, g_Confirmed = []\<rparr>"

definition sample_guarded :: "Report \<times> Action list" where
  "sample_guarded = Guard id sample_guards (Decide sample_draft sample_confirmations)"

theorem seats_witness:
  "map a_Login (filter (\<lambda>a. a_Kind a = ActionInvite) (snd sample_guarded)) = [''cat'']
   \<and> (\<exists>s. rep_Seats (fst sample_guarded) = Some s \<and> se_Short s = 0)"
proof -
  let ?D = "Decide sample_draft sample_confirmations"
  have g: "Guard id sample_guards (fst ?D, snd ?D) = (fst sample_guarded, snd sample_guarded)" by (simp add: sample_guarded_def)
  have e: "map a_Login (take (nat 1) (filter (\<lambda>a. a_Kind a = ActionInvite \<and> (a_Account a = 0 \<or> expired_invitations sample_guards a < 2)) (snd ?D))) = [''cat'']"
    "length (filter (\<lambda>a. a_Kind a = ActionInvite \<and> (a_Account a = 0 \<or> expired_invitations sample_guards a < 2)) (snd ?D)) = 1"
    by code_simp+
  have f: "(if g_Known sample_guards then max 0 (pl_Seats (g_Plan sample_guards) - pl_Filled (g_Plan sample_guards) - g_Pending sample_guards) else 0) = 1"
    by (simp add: sample_guards_def)
  from invitations_fit_the_free_seats [OF g] show ?thesis unfolding f using e by auto
qed

theorem mass_removal_witness:
  "map a_Login (filter (\<lambda>a. a_Kind a = ActionRemove) (snd sample_guarded)) = [''bob'']
   \<and> filter (\<lambda>a. a_Kind a = ActionRemove) (snd (Guard id (sample_guards\<lparr>g_Members := 1\<rparr>) (Decide sample_draft sample_confirmations))) = []"
proof -
  let ?D = "Decide sample_draft sample_confirmations" and ?rm = "filter (\<lambda>a. a_Kind a = ActionRemove)"
  let ?G = "Guard id (sample_guards\<lparr>g_Members := 1\<rparr>) ?D"
  have g: "Guard id sample_guards (fst ?D, snd ?D) = (fst sample_guarded, snd sample_guarded)"
    "Guard id (sample_guards\<lparr>g_Members := 1\<rparr>) (fst ?D, snd ?D) = (fst ?G, snd ?G)" by (simp_all add: sample_guarded_def)
  have e: "map a_Login (?rm (snd ?D)) = [''bob'']" by code_simp
  have c: "card ((\<lambda>a. to_lower (a_Login a)) ` set (?rm (snd ?D))) = 1"
  proof -
    have "(\<lambda>a. to_lower (a_Login a)) ` set (?rm (snd ?D)) = to_lower ` set (map a_Login (?rm (snd ?D)))" by (simp add: image_image)
    then show ?thesis unfolding e by simp
  qed
  have "?rm (snd sample_guarded) = ?rm (snd ?D)"
    using conjunct1 [OF mass_removal_needs_confirmation [OF g(1)]] unfolding c by (simp add: sample_guards_def)
  moreover have "?rm (snd ?G) = []"
    using conjunct1 [OF mass_removal_needs_confirmation [OF g(2)]] unfolding c by (simp add: sample_guards_def)
  ultimately show ?thesis using e by simp
qed

end
