(* ===== verification/State_Codec.thy ===== *)
theory State_Codec
  imports Encoding
begin

text \<open>
  The signed state an OAuth flow carries from its start to its callback,
  \<open>src/internal/access/state.go\<close>. The message authentication code (HMAC-SHA-256 under the hub's key) is
  the parameter \<open>mac\<close>: nothing below needs more of it than that it is a function of the body, and
  what is proved is that a state is accepted exactly when it carries the code of its own body and has
  not expired, and that it gives back the binding it was issued for. Times are nanoseconds since the
  Unix epoch.
\<close>

section \<open>Operations\<close>

record Binding =
  bi_Bind :: string
  bi_Actor :: string
  bi_Owner :: string

record StateCodec =
  sc_mac :: "string \<Rightarrow> string"
  sc_ttl :: int

datatype state_err = BadState | BadSignature | BadOwner | BadExpiry | Expired | BadBinding | BadActor

definition NewStateCodec :: "(string \<Rightarrow> string) \<Rightarrow> int \<Rightarrow> StateCodec" where
  "NewStateCodec mac ttl = \<lparr>sc_mac = mac, sc_ttl = (if ttl \<le> 0 then 10 * 60 * 1000000000 else ttl)\<rparr>"

definition Unix :: "int \<Rightarrow> int" where
  "Unix t = t div 1000000000"

definition StateCodec_sign :: "StateCodec \<Rightarrow> string \<Rightarrow> string" where
  "StateCodec_sign c body = b64_encode (sc_mac c body)"

text \<open>\<open>nonce\<close> is the 16 random bytes.\<close>

definition IssueAs :: "StateCodec \<Rightarrow> string \<Rightarrow> int \<Rightarrow> Binding \<Rightarrow> string" where
  "IssueAs c nonce now b =
     (let body = join '':'' [b64_encode nonce, b64_encode (bi_Bind b), b64_encode (bi_Actor b), b64_encode (bi_Owner b),
            show_int (Unix (now + sc_ttl c))]
      in body @ ''.'' @ StateCodec_sign c body)"

definition Issue :: "StateCodec \<Rightarrow> string \<Rightarrow> int \<Rightarrow> string \<Rightarrow> string" where
  "Issue c nonce now bind = IssueAs c nonce now \<lparr>bi_Bind = bind, bi_Actor = [], bi_Owner = []\<rparr>"

definition or_err :: "'e \<Rightarrow> 'a option \<Rightarrow> 'e + 'a" where
  "or_err e x = (case x of None \<Rightarrow> Inl e | Some v \<Rightarrow> Inr v)"

text \<open>The parts of a body with the owner decoded: four of them in a state issued before owners were carried.\<close>

definition state_parts :: "string \<Rightarrow> state_err + string list \<times> string" where
  "state_parts body =
     (case split_on CHR '':'' body of
        [n, b, a, e] \<Rightarrow> Inr ([n, b, a, [], e], [])
      | [n, b, a, ow, e] \<Rightarrow> (case b64_decode ow of None \<Rightarrow> Inl BadOwner | Some owner \<Rightarrow> Inr ([n, b, a, ow, e], owner))
      | _ \<Rightarrow> Inl BadState)"

definition VerifyBinding :: "StateCodec \<Rightarrow> int \<Rightarrow> string \<Rightarrow> state_err + Binding" where
  "VerifyBinding c now state =
     (case cut CHR ''.'' state of
        None \<Rightarrow> Inl BadState
      | Some (body, signature) \<Rightarrow>
          if signature \<noteq> StateCodec_sign c body then Inl BadSignature
          else case state_parts body of
            Inl e \<Rightarrow> Inl e
          | Inr (parts, owner) \<Rightarrow>
              (case parse_int64 (parts ! 4) of
                 None \<Rightarrow> Inl BadExpiry
               | Some expires \<Rightarrow>
                   if Unix now \<ge> expires then Inl Expired
                   else case b64_decode (parts ! 1) of
                     None \<Rightarrow> Inl BadBinding
                   | Some bind \<Rightarrow>
                       (case b64_decode (parts ! 2) of
                          None \<Rightarrow> Inl BadActor
                        | Some actor \<Rightarrow> Inr \<lparr>bi_Bind = bind, bi_Actor = actor, bi_Owner = owner\<rparr>)))"

definition Verify :: "StateCodec \<Rightarrow> int \<Rightarrow> string \<Rightarrow> state_err + string" where
  "Verify c now state = map_sum id bi_Bind (VerifyBinding c now state)"

section \<open>Correctness\<close>

lemma no_colon_dot: "CHR '':'' \<notin> set (b64_encode s)" "CHR ''.'' \<notin> set (b64_encode s)"
  by (rule b64_encode_free, simp add: b64_alphabet_def)+

lemma show_int_no_colon_dot: "CHR '':'' \<notin> set (show_int n)" "CHR ''.'' \<notin> set (show_int n)"
  using show_int_chars [of "CHR '':''" n] show_int_chars [of "CHR ''.''" n] by auto

lemma set_join: "set (join sep xs) \<subseteq> set sep \<union> \<Union> (set ` set xs)"
  by (induction sep xs rule: join.induct) auto

lemma cut_append: "ch \<notin> set a \<Longrightarrow> cut ch (a @ ch # b) = Some (a, b)"
  by (simp add: cut_Some)

text \<open>
  C34. A flow's state comes back as it was issued: until its expiry, in whole seconds, the callback
  reads exactly the workspace, the actor and the owner the flow began with, and from then on it is
  refused as expired.
\<close>
theorem state_round_trip:
  assumes "\<bar>Unix (issued + sc_ttl c)\<bar> < 2 ^ 63"
  shows "VerifyBinding c now (IssueAs c nonce issued b) =
    (if Unix now < Unix (issued + sc_ttl c) then Inr b else Inl Expired)"
proof -
  let ?parts = "[b64_encode nonce, b64_encode (bi_Bind b), b64_encode (bi_Actor b), b64_encode (bi_Owner b), show_int (Unix (issued + sc_ttl c))]"
  let ?body = "join '':'' ?parts"
  have "CHR ''.'' \<notin> set ?body"
    using set_join [of "'':''" ?parts] no_colon_dot(2) show_int_no_colon_dot(2) by fastforce
  then have cut: "cut CHR ''.'' (IssueAs c nonce issued b) = Some (?body, StateCodec_sign c ?body)"
    by (simp add: IssueAs_def Let_def cut_append del: join.simps)
  have "split_on CHR '':'' ?body = ?parts"
    by (rule split_on_join) (simp_all add: no_colon_dot(1) show_int_no_colon_dot(1))
  then have parts: "state_parts ?body = Inr (?parts, bi_Owner b)"
    by (simp add: state_parts_def b64_round_trip del: join.simps)
  have "parse_int64 (show_int (Unix (issued + sc_ttl c))) = Some (Unix (issued + sc_ttl c))"
    using assms by (intro int_round_trip) auto
  then show ?thesis using cut parts
    by (simp add: VerifyBinding_def b64_round_trip del: join.simps)
qed

text \<open>
  A state is accepted only with the code of its own body under this hub's key, unexpired: whoever
  cannot compute the code for a body cannot have it accepted.
\<close>
theorem accepted_state_is_signed:
  assumes "VerifyBinding c now state = Inr b"
  shows "\<exists>body expires. state = body @ ''.'' @ StateCodec_sign c body \<and> CHR ''.'' \<notin> set body
    \<and> parse_int64 (last (split_on CHR '':'' body)) = Some expires \<and> Unix now < expires"
proof -
  obtain body sig where cut: "cut CHR ''.'' state = Some (body, sig)" and sig: "sig = StateCodec_sign c body"
    using assms by (auto simp: VerifyBinding_def split: option.splits prod.splits if_splits)
  obtain parts owner where parts: "state_parts body = Inr (parts, owner)"
    using assms cut sig by (auto simp: VerifyBinding_def split: sum.splits)
  obtain xs where xs: "split_on CHR '':'' body = xs" by simp
  have "parts ! 4 = last xs"
    using parts unfolding state_parts_def xs by (auto split: list.splits option.splits)
  then have last: "parts ! 4 = last (split_on CHR '':'' body)" using xs by simp
  obtain expires where "parse_int64 (parts ! 4) = Some expires" "Unix now < expires"
    using assms cut sig parts by (auto simp: VerifyBinding_def split: option.splits if_splits)
  then show ?thesis using cut sig last by (auto simp: cut_Some)
qed

definition sample_codec :: StateCodec where
  "sample_codec = NewStateCodec (\<lambda>s. rev s) 0"

definition sample_binding_state :: string where
  "sample_binding_state = IssueAs sample_codec ''n0'' 5000000000 \<lparr>bi_Bind = ''C0x'', bi_Actor = ''ann@x.io'', bi_Owner = []\<rparr>"

theorem state_round_trip_witness:
  "VerifyBinding sample_codec 604000000000 sample_binding_state = Inr \<lparr>bi_Bind = ''C0x'', bi_Actor = ''ann@x.io'', bi_Owner = []\<rparr>
   \<and> VerifyBinding sample_codec 605000000000 sample_binding_state = Inl Expired"
proof -
  have e: "Unix (5000000000 + sc_ttl sample_codec) = 605" by (simp add: Unix_def sample_codec_def NewStateCodec_def)
  have n: "Unix 604000000000 = 604" "Unix 605000000000 = 605" by (simp_all add: Unix_def)
  note r = state_round_trip [of 5000000000 sample_codec, unfolded e]
  show ?thesis unfolding sample_binding_state_def using r [of 604000000000] r [of 605000000000] by (simp add: n)
qed

theorem signed_state_witness:
  "\<exists>body. sample_binding_state = body @ ''.'' @ StateCodec_sign sample_codec body"
proof -
  have "VerifyBinding sample_codec 604000000000 sample_binding_state = Inr \<lparr>bi_Bind = ''C0x'', bi_Actor = ''ann@x.io'', bi_Owner = []\<rparr>"
    by code_simp
  from accepted_state_is_signed [OF this] show ?thesis by blast
qed

end
