(* ===== verification/Memory_Pages.thy ===== *)
theory Memory_Pages
  imports Memory_Store Encoding
begin

text \<open>
  Listing a store a page at a time: page tokens (\<open>src/internal/port/layout.go\<close>), \<open>List\<close> of the in-memory
  adapter (\<open>src/internal/port/memory/memory.go\<close>) and the loop that reads every page,
  \<open>Base.listAll\<close> of \<open>src/internal/portstore/portstore.go\<close>. The loop is a partial function over any
  \<open>List\<close>, \<^const>\<open>None\<close> if it never ends; over the memory store it ends, with every live record under
  the prefix, once and in the order of the keys.
\<close>

section \<open>Pages\<close>

record PortRecord =
  r_Key :: string
  r_Value :: string
  r_Revision :: revision

record Page =
  pg_Records :: "PortRecord list"
  pg_Next :: string

definition DefaultPage :: int where
  "DefaultPage = 100"

definition PageToken :: "string \<Rightarrow> string \<Rightarrow> string" where
  "PageToken prefix lastk = b64_encode (prefix @ [CHR 0x00] @ lastk)"

definition PageStart :: "string \<Rightarrow> string \<Rightarrow> port_err + string" where
  "PageStart prefix token =
     (if token = [] then Inr []
      else case b64_decode token of
        None \<Rightarrow> Inl ErrBadPage
      | Some raw \<Rightarrow>
          (case cut CHR 0x00 raw of
             None \<Rightarrow> Inl ErrBadPage
           | Some (p, lastk) \<Rightarrow> (if p \<noteq> prefix then Inl ErrBadPage else Inr lastk)))"

definition Store_List :: "string \<Rightarrow> string \<Rightarrow> int \<Rightarrow> Store \<Rightarrow> port_err + Page" where
  "Store_List prefix page limit0 s =
     (case PageStart prefix page of
        Inl e \<Rightarrow> Inl e
      | Inr after \<Rightarrow>
          let limit = nat (if limit0 \<le> 0 then DefaultPage else limit0);
              keys = filter (\<lambda>key. has_prefix key prefix \<and> key > after \<and> liveEntry s key \<noteq> None) (tkeys (st_records s));
              shown = take limit keys
          in Inr \<lparr>pg_Records = map (\<lambda>key. case liveEntry s key of
                    Some e \<Rightarrow> \<lparr>r_Key = key, r_Value = e_value e, r_Revision = e_rev e\<rparr>) shown,
                  pg_Next = (if length keys > limit then PageToken prefix (last shown) else [])\<rparr>)"

text \<open>\<open>listAll\<close>, from a page on, with what was read before.\<close>

partial_function (option) listAll_from ::
  "(string \<Rightarrow> string \<Rightarrow> int \<Rightarrow> port_err + Page) \<Rightarrow> string \<Rightarrow> string \<Rightarrow> PortRecord list \<Rightarrow> (port_err + PortRecord list) option" where
  [code]: "listAll_from lst prefix page out =
     (case lst prefix page 0 of
        Inl e \<Rightarrow> Some (Inl e)
      | Inr p \<Rightarrow>
          (if pg_Next p = [] then Some (Inr (out @ pg_Records p))
           else listAll_from lst prefix (pg_Next p) (out @ pg_Records p)))"

definition listAll :: "(string \<Rightarrow> string \<Rightarrow> int \<Rightarrow> port_err + Page) \<Rightarrow> string \<Rightarrow> (port_err + PortRecord list) option" where
  "listAll lst prefix = listAll_from lst prefix [] []"

section \<open>Tokens\<close>

lemma PageToken_not_Nil [simp]: "PageToken prefix lastk \<noteq> []"
  by (simp add: PageToken_def)

lemma PageStart_PageToken:
  assumes "CHR 0x00 \<notin> set prefix"
  shows "PageStart prefix' (PageToken prefix lastk) = (if prefix' = prefix then Inr lastk else Inl ErrBadPage)"
proof -
  have "cut CHR 0x00 (prefix @ [CHR 0x00] @ lastk) = Some (prefix, lastk)"
    using assms by (simp add: cut_Some)
  then show ?thesis
    unfolding PageStart_def by (simp add: PageToken_def b64_round_trip)
qed

text \<open>
  A page token starts the next page of the listing it was issued for, and is refused for any other
  prefix.
\<close>
theorem page_token_is_bound_to_its_prefix:
  assumes "CHR 0x00 \<notin> set prefix"
  shows "PageStart prefix' (PageToken prefix lastk) = (if prefix' = prefix then Inr lastk else Inl ErrBadPage)"
  by (rule PageStart_PageToken [OF assms])

section \<open>Listing\<close>

text \<open>Every live key under a prefix, in order.\<close>

definition live_keys :: "string \<Rightarrow> Store \<Rightarrow> string list" where
  "live_keys prefix s = filter (\<lambda>key. has_prefix key prefix \<and> liveEntry s key \<noteq> None) (tkeys (st_records s))"

definition record_of :: "Store \<Rightarrow> string \<Rightarrow> PortRecord" where
  "record_of s key = (case liveEntry s key of Some e \<Rightarrow> \<lparr>r_Key = key, r_Value = e_value e, r_Revision = e_rev e\<rparr>)"

lemma sorted_filter_greater:
  assumes "sorted xs" "distinct xs" "0 < n" "n \<le> length xs"
  shows "filter (\<lambda>x. x > last (take n xs)) xs = drop n (xs :: 'a :: linorder list)"
proof -
  have split: "xs = take n xs @ drop n xs" by simp
  let ?l = "last (take n xs)"
  have ne: "take n xs \<noteq> []" using assms(3,4) by (cases xs) auto
  then have l: "take n xs = butlast (take n xs) @ [?l]" by simp
  have s: "sorted (take n xs @ drop n xs)" "distinct (take n xs @ drop n xs)" using assms by simp_all
  have low: "\<not> x > ?l" if "x \<in> set (take n xs)" for x
  proof -
    have "sorted (butlast (take n xs) @ [?l])" using s(1) l by (metis sorted_append)
    then show ?thesis using that l by (metis Un_iff empty_iff empty_set leD list.set_intros(1) set_ConsD set_append sorted_append order_refl)
  qed
  have high: "x > ?l" if "x \<in> set (drop n xs)" for x
  proof -
    have "?l \<le> x" using s(1) that last_in_set [OF ne] unfolding sorted_append by blast
    moreover have "?l \<noteq> x" using s(2) that last_in_set [OF ne] by (metis distinct_append disjoint_iff)
    ultimately show ?thesis by simp
  qed
  have "filter (\<lambda>x. x > ?l) (take n xs @ drop n xs) = drop n xs"
    unfolding filter_append using low high by (simp add: filter_empty_conv)
  then show ?thesis by simp
qed

lemma Store_List_after:
  fixes s :: Store
  assumes "PageStart prefix page = Inr after"
  defines "keys \<equiv> filter (\<lambda>key. key > after) (live_keys prefix s)"
  shows "Store_List prefix page 0 s = Inr \<lparr>pg_Records = map (record_of s) (take 100 keys),
    pg_Next = (if length keys > 100 then PageToken prefix (last (take 100 keys)) else [])\<rparr>"
proof -
  have "filter (\<lambda>key. has_prefix key prefix \<and> key > after \<and> liveEntry s key \<noteq> None) (tkeys (st_records s)) = keys"
    unfolding keys_def live_keys_def filter_filter by (rule filter_cong) auto
  then show ?thesis using assms(1) unfolding Store_List_def record_of_def [abs_def] by (simp add: Let_def DefaultPage_def)
qed

lemma listAll_walk:
  assumes "CHR 0x00 \<notin> set prefix" and "PageStart prefix page = Inr after"
  shows "listAll_from (\<lambda>p t l. Store_List p t l s) prefix page out =
    Some (Inr (out @ map (record_of s) (filter (\<lambda>key. key > after) (live_keys prefix s))))"
  using assms(2)
proof (induction "length (filter (\<lambda>key. key > after) (live_keys prefix s))" arbitrary: page after out rule: less_induct)
  case less
  let ?keys = "filter (\<lambda>key. key > after) (live_keys prefix s)"
  note page = Store_List_after [OF less.prems, of s]
  show ?case
  proof (cases "length ?keys > 100")
    case False
    then show ?thesis by (subst listAll_from.simps) (simp add: page)
  next
    case True
    let ?l = "last (take 100 ?keys)"
    have "sorted ?keys" "distinct ?keys" by (simp_all add: live_keys_def sorted_filter [where f = id, simplified])
    then have drop: "filter (\<lambda>key. key > ?l) ?keys = drop 100 ?keys"
      using True by (intro sorted_filter_greater) simp_all
    have "?l \<in> set ?keys" using True by (metis gr_implies_not0 in_set_takeD last_in_set length_greater_0_conv less_nat_zero_code list.size(3) take_eq_Nil zero_neq_numeral)
    then have "?l > after" by simp
    then have rest: "filter (\<lambda>key. key > ?l) (live_keys prefix s) = drop 100 ?keys"
      unfolding drop [symmetric] filter_filter by (intro filter_cong) auto
    have start: "PageStart prefix (PageToken prefix ?l) = Inr ?l"
      using PageStart_PageToken [OF assms(1)] by simp
    have "length (filter (\<lambda>key. key > ?l) (live_keys prefix s)) < length ?keys"
      unfolding rest using True by simp
    from less.hyps [OF this start] show ?thesis
      using True by (subst listAll_from.simps) (simp add: page rest map_append [symmetric] del: map_append)
  qed
qed

text \<open>
  C33. Reading every page of a listing ends, and with every live record under the prefix exactly once, in
  the order of the keys; only a record under the empty key is left out, which no page ever starts
  before.
\<close>
theorem listing_ends_with_every_live_record:
  assumes "CHR 0x00 \<notin> set prefix"
  shows "listAll (\<lambda>p t l. Store_List p t l s) prefix = Some (Inr (map (record_of s) (filter (\<lambda>key. key \<noteq> []) (live_keys prefix s))))"
proof -
  have "PageStart prefix [] = Inr []" by (simp add: PageStart_def)
  moreover have "(key > []) = (key \<noteq> [])" for key :: string by (cases key) simp_all
  ultimately show ?thesis unfolding listAll_def using listAll_walk [OF assms] by simp
qed

theorem page_token_witness: "PageStart ''ws.'' (PageToken ''ws.'' ''ws.dir.a'') = Inr ''ws.dir.a''
   \<and> PageStart ''gh.'' (PageToken ''ws.'' ''ws.dir.a'') = Inl ErrBadPage"
  using page_token_is_bound_to_its_prefix [of "''ws.''"] by simp

definition two_records :: Store where
  "two_records = fst (Store_Put ''ws.b'' ''2'' 0 (fst (Store_Put ''ws.a'' ''1'' 0 (fst (Store_Put ''gh.org.x'' ''0'' 0 (Store_New 0))))))"

theorem listing_witness:
  "listAll (\<lambda>p t l. Store_List p t l two_records) ''ws.'' =
     Some (Inr [\<lparr>r_Key = ''ws.a'', r_Value = ''1'', r_Revision = 2\<rparr>, \<lparr>r_Key = ''ws.b'', r_Value = ''2'', r_Revision = 3\<rparr>])"
proof -
  have "map (record_of two_records) (filter (\<lambda>key. key \<noteq> []) (live_keys ''ws.'' two_records)) =
      [\<lparr>r_Key = ''ws.a'', r_Value = ''1'', r_Revision = 2\<rparr>, \<lparr>r_Key = ''ws.b'', r_Value = ''2'', r_Revision = 3\<rparr>]" by code_simp
  then show ?thesis using listing_ends_with_every_live_record [of "''ws.''" two_records] by simp
qed

end
