(* ===== verification/Portstore.thy ===== *)
theory Portstore
  imports Memory_Pages
begin

text \<open>
  What every domain store shares, \<open>src/internal/portstore/portstore.go\<close>: the compare-and-swap
  read-modify-write of a key (\<open>Base.editRaw\<close>) and the spelling of a name as a key segment (\<open>seg\<close>,
  \<open>unseg\<close>). The write is modelled together with the other writers of the store: \<open>others\<close> is what they do
  to it before and after each read. Over the contract \<open>state_port\<close> a change that returns without an
  error was applied to exactly the value it was computed from, whatever the others did; a change that
  returns an error wrote nothing.
\<close>

section \<open>Key segments\<close>

definition seg_plain :: "char \<Rightarrow> bool" where
  "seg_plain c =
     (let n = of_char c :: int
      in (97 \<le> n \<and> n \<le> 122) \<or> (65 \<le> n \<and> n \<le> 90) \<or> (48 \<le> n \<and> n \<le> 57) \<or> c = CHR ''-'' \<or> c = CHR ''_'')"

definition hex_upper :: "int \<Rightarrow> char" where
  "hex_upper n = ''0123456789ABCDEF'' ! nat n"

definition seg :: "string \<Rightarrow> string" where
  "seg s = concat (map (\<lambda>c. if seg_plain c then [c]
     else [CHR ''~'', hex_upper (of_char c div 16), hex_upper (of_char c mod 16)]) s)"

definition hex_val :: "char \<Rightarrow> int option" where
  "hex_val c =
     (let n = of_char c :: int
      in if 48 \<le> n \<and> n \<le> 57 then Some (n - 48)
         else if 65 \<le> n \<and> n \<le> 70 then Some (n - 55)
         else if 97 \<le> n \<and> n \<le> 102 then Some (n - 87) else None)"

text \<open>\<open>fmt.Sscanf(s, "%02X", &v)\<close> on two bytes: blanks are skipped first, and one digit is enough.\<close>

definition sscanf_02X :: "char \<Rightarrow> char \<Rightarrow> int option" where
  "sscanf_02X a b =
     (case hex_val a of
        Some x \<Rightarrow> (case hex_val b of Some y \<Rightarrow> Some (x * 16 + y) | None \<Rightarrow> Some x)
      | None \<Rightarrow> (if is_space a \<and> a \<noteq> CHR 0x0A then hex_val b else None))"

fun unseg_from :: "string \<Rightarrow> string" where
  "unseg_from [] = []"
| "unseg_from (c # a # b # rest) =
     (if c = CHR ''~'' then (case sscanf_02X a b of Some v \<Rightarrow> char_of v # unseg_from rest | None \<Rightarrow> c # unseg_from (a # b # rest))
      else c # unseg_from (a # b # rest))"
| "unseg_from (c # rest) = c # unseg_from rest"

definition unseg :: "string \<Rightarrow> string" where
  "unseg s = (if CHR ''~'' \<notin> set s then s else unseg_from s)"

section \<open>Read, modify, write\<close>

text \<open>What a change function answers: leave the key as it is, an error of its own, or the next value, \<^const>\<open>None\<close> to delete.\<close>

datatype 'e change_answer = KeepAsIs | ChangeErr 'e | NextValue "string option"

datatype 'e edit_err = ErrBusy | EditPort port_err | EditErr 'e

definition attempts :: nat where
  "attempts = 16"

text \<open>The write of one attempt, over what was read.\<close>

definition edit_write ::
  "'s StatePort \<Rightarrow> string \<Rightarrow> int \<Rightarrow> (string \<times> revision) option \<Rightarrow> string option \<Rightarrow> 's \<Rightarrow> 's \<times> port_err option" where
  "edit_write P key ttl cur nxt s =
     (case (nxt, cur) of
        (None, None) \<Rightarrow> (s, None)
      | (None, Some (_, rv)) \<Rightarrow>
          (case sp_DeleteIfRevision P key rv s of (s', err) \<Rightarrow> (s', if err = Some ErrNotFound then None else err))
      | (Some v, None) \<Rightarrow>
          (case sp_Create P key v ttl s of (s', Inl e) \<Rightarrow> (s', Some e) | (s', Inr _) \<Rightarrow> (s', None))
      | (Some v, Some (_, rv)) \<Rightarrow>
          (case sp_Update P key v ttl rv s of (s', Inl e) \<Rightarrow> (s', Some e) | (s', Inr _) \<Rightarrow> (s', None)))"

definition edit_again :: "port_err \<Rightarrow> bool" where
  "edit_again e = (e = ErrConflict \<or> e = ErrExists \<or> e = ErrNotFound)"

text \<open>One attempt: fin, with what is returned, or to be made again.\<close>

definition edit_attempt ::
  "'s StatePort \<Rightarrow> (nat \<Rightarrow> 's \<Rightarrow> 's) \<Rightarrow> nat \<Rightarrow> string \<Rightarrow> int \<Rightarrow> (string option \<Rightarrow> 'e change_answer) \<Rightarrow> 's
   \<Rightarrow> 's \<times> 'e edit_err option + 's" where
  "edit_attempt P others n key ttl change s =
     (let s0 = others (2 * n + 1) s; got = sp_Get P key s0; s1 = others (2 * n) s0;
          cur = (case got of Inl _ \<Rightarrow> None | Inr r \<Rightarrow> Some r)
      in if (case got of Inl e \<Rightarrow> e \<noteq> ErrNotFound | Inr _ \<Rightarrow> False) then Inl (s1, Some (EditPort (projl got)))
         else case change (map_option fst cur) of
           KeepAsIs \<Rightarrow> Inl (s1, None)
         | ChangeErr e \<Rightarrow> Inl (s1, Some (EditErr e))
         | NextValue nxt \<Rightarrow>
             (case edit_write P key ttl cur nxt s1 of
                (s2, None) \<Rightarrow> Inl (s2, None)
              | (s2, Some e) \<Rightarrow> (if edit_again e then Inr s2 else Inl (s2, Some (EditPort e)))))"

fun edit_loop ::
  "'s StatePort \<Rightarrow> (nat \<Rightarrow> 's \<Rightarrow> 's) \<Rightarrow> nat \<Rightarrow> string \<Rightarrow> int \<Rightarrow> (string option \<Rightarrow> 'e change_answer) \<Rightarrow> 's
   \<Rightarrow> 's \<times> 'e edit_err option" where
  "edit_loop P others 0 key ttl change s = (s, Some ErrBusy)"
| "edit_loop P others (Suc n) key ttl change s =
     (case edit_attempt P others n key ttl change s of
        Inl fin \<Rightarrow> fin | Inr s' \<Rightarrow> edit_loop P others n key ttl change s')"

definition editRaw ::
  "'s StatePort \<Rightarrow> (nat \<Rightarrow> 's \<Rightarrow> 's) \<Rightarrow> string \<Rightarrow> int \<Rightarrow> (string option \<Rightarrow> 'e change_answer) \<Rightarrow> 's
   \<Rightarrow> 's \<times> 'e edit_err option" where
  "editRaw P others key ttl change s = edit_loop P others attempts key ttl change s"

section \<open>Round trip of segments\<close>

lemma hex_round_trip: "0 \<le> n \<Longrightarrow> n < 16 \<Longrightarrow> hex_val (hex_upper n) = Some n"
proof -
  have all: "list_all (\<lambda>n. hex_val (hex_upper n) = Some n) [0..15]" by code_simp
  assume n: "0 \<le> n" "n < 16"
  then have "n \<in> set [0..15]" by auto
  then show "hex_val (hex_upper n) = Some n" using all unfolding list_all_iff by blast
qed

lemma sscanf_byte: "sscanf_02X (hex_upper (of_char c div 16)) (hex_upper (of_char c mod 16)) = Some (of_char c)"
proof -
  have "0 \<le> (of_char c :: int) div 16" "(of_char c :: int) div 16 < 16" using byte_range [of c] by auto
  then show ?thesis by (simp add: sscanf_02X_def hex_round_trip)
qed

lemma seg_Cons: "seg (c # s) = (if seg_plain c then [c] else [CHR ''~'', hex_upper (of_char c div 16), hex_upper (of_char c mod 16)]) @ seg s"
  by (simp add: seg_def)

lemma unseg_from_plain: "c \<noteq> CHR ''~'' \<Longrightarrow> unseg_from (c # s) = c # unseg_from s"
  by (cases s rule: unseg_from.cases) simp_all

lemma seg_plain_no_tilde: "seg_plain c \<Longrightarrow> c \<noteq> CHR ''~''"
  by (auto simp: seg_plain_def Let_def)

lemma unseg_from_seg: "unseg_from (seg s) = s"
proof (induction s)
  case Nil
  then show ?case by (simp add: seg_def)
next
  case (Cons c s)
  then show ?case
    by (cases "seg_plain c") (simp_all add: seg_Cons unseg_from_plain seg_plain_no_tilde sscanf_byte)
qed

lemma unseg_from_no_tilde: "CHR ''~'' \<notin> set s \<Longrightarrow> unseg_from s = s"
  by (induction s) (auto simp: unseg_from_plain)

text \<open>
  A name survives being spelled as a key segment, and the spelling holds no dot that would end the
  segment: two names never share a key.
\<close>
theorem segment_round_trip:
  "unseg (seg s) = s \<and> CHR ''.'' \<notin> set (seg s)"
proof -
  have "unseg (seg s) = s" using unseg_from_seg [of s] unseg_from_no_tilde [of "seg s"] by (auto simp: unseg_def)
  moreover have "CHR ''.'' \<notin> set (seg s)"
  proof (induction s)
    case (Cons c s)
    have hex: "hex_upper n \<noteq> CHR ''.''" if "0 \<le> n" "n < 16" for n
    proof
      assume "hex_upper n = CHR ''.''"
      then have "hex_val (CHR ''.'') = Some n" using hex_round_trip [OF that] by simp
      then show False by (simp add: hex_val_def)
    qed
    have "\<not> seg_plain (CHR ''.'')" by (simp add: seg_plain_def)
    moreover have "0 \<le> (of_char c :: int) div 16" "(of_char c :: int) div 16 < 16" using byte_range [of c] by auto
    ultimately show ?case using Cons hex [of "of_char c div 16"] hex [of "of_char c mod 16"]
      by (auto simp: seg_Cons)
  qed (simp add: seg_def)
  ultimately show ?thesis ..
qed

section \<open>Atomicity over the contract of the port\<close>

text \<open>What the other writers alone can have made of a store.\<close>

inductive by_others :: "(nat \<Rightarrow> 's \<Rightarrow> 's) \<Rightarrow> 's \<Rightarrow> 's \<Rightarrow> bool" for others where
  others_none: "by_others others s s"
| others_step: "by_others others s t \<Longrightarrow> by_others others s (others i t)"

lemma by_others_trans: "by_others others t u \<Longrightarrow> by_others others s t \<Longrightarrow> by_others others s u"
  by (induction rule: by_others.induct) (auto intro: others_step)

context state_port
begin

text \<open>A revision that was handed out never comes to stand for another value.\<close>

definition later :: "'s \<Rightarrow> 's \<Rightarrow> bool" where
  "later s s' \<longleftrightarrow> ok s' \<and> issued s \<subseteq> issued s'
     \<and> (\<forall>k v r. r \<in> issued s \<longrightarrow> lookup s' k = Some (v, r) \<longrightarrow> lookup s k = Some (v, r))"

lemma later_refl: "ok s \<Longrightarrow> later s s"
  by (simp add: later_def)

lemma later_trans: "later s t \<Longrightarrow> later t u \<Longrightarrow> later s u"
  unfolding later_def by blast

lemma later_create: "ok s \<Longrightarrow> sp_Create P k v ttl s = (s', res) \<Longrightarrow> later s s'"
  using create_ok [of s k v ttl s'] create_err [of s k v ttl s']
  by (cases res) (auto simp: later_def split: if_splits)

lemma later_update: "ok s \<Longrightarrow> sp_Update P k v ttl rv s = (s', res) \<Longrightarrow> later s s'"
  using update_ok [of s k v ttl rv s'] update_err [of s k v ttl rv s']
  by (cases res) (auto simp: later_def split: if_splits)

lemma later_put: "ok s \<Longrightarrow> sp_Put P k v ttl s = (s', res) \<Longrightarrow> later s s'"
  using put_ok [of s k v ttl s'] put_err [of s k v ttl s']
  by (cases res) (auto simp: later_def split: if_splits)

lemma later_delete: "ok s \<Longrightarrow> sp_Delete P k s = (s', res) \<Longrightarrow> later s s'"
  using delete_law [of s k s' res] by (auto simp: later_def split: if_splits)

lemma later_delete_if: "ok s \<Longrightarrow> sp_DeleteIfRevision P k rv s = (s', res) \<Longrightarrow> later s s'"
  using delete_if_ok [of s k rv s'] delete_if_err [of s k rv s']
  by (cases res) (auto simp: later_def split: if_splits)

lemma later_elapse: "ok s \<Longrightarrow> elapse s s' \<Longrightarrow> later s s'"
  using elapse_law [of s s'] by (auto simp: later_def map_le_def dom_def)

text \<open>Writing over what was read succeeds only while it is still there.\<close>

lemma edit_write_applied:
  assumes "ok s" and "ok s0" and "later s0 s" and "cur = lookup s0 key"
    and "edit_write P key ttl cur nxt s = (s', None)"
  shows "(s' = s \<and> nxt = None \<and> (cur = None \<or> lookup s key = None))
    \<or> (lookup s key = cur \<and> (\<exists>r. lookup s' = (lookup s)(key := map_option (\<lambda>v. (v, r)) nxt)))"
proof (cases nxt; cases cur)
  fix c assume n: "nxt = None" and c: "cur = Some c"
  obtain v rv where vr: "c = (v, rv)" by fastforce
  obtain res where d: "sp_DeleteIfRevision P key rv s = (s', res)" "res = None \<or> res = Some ErrNotFound"
    using assms(5) n c vr by (auto simp: edit_write_def split: prod.splits if_splits)
  show ?thesis
  proof (cases res)
    case None
    then obtain v0 where v0: "lookup s key = Some (v0, rv)" "lookup s' = (lookup s)(key := None)"
      using delete_if_ok [OF assms(1)] d(1) by blast
    have "rv \<in> issued s0" using lookup_issued [OF assms(2)] assms(4) c vr by metis
    then have "lookup s0 key = Some (v0, rv)" using assms(3) v0(1) unfolding later_def by blast
    then show ?thesis using v0 assms(4) c n by simp
  next
    case (Some e)
    then show ?thesis using delete_if_err [OF assms(1)] d n by auto
  qed
next
  fix v c assume n: "nxt = Some v" and c: "cur = Some c"
  obtain w rv where vr: "c = (w, rv)" by fastforce
  obtain r where u: "sp_Update P key v ttl rv s = (s', Inr r)"
    using assms(5) n c vr by (auto simp: edit_write_def split: prod.splits sum.splits)
  obtain v0 where v0: "lookup s key = Some (v0, rv)" "lookup s' = (lookup s)(key \<mapsto> (v, r))"
    using update_ok [OF assms(1) u] by blast
  have "rv \<in> issued s0" using lookup_issued [OF assms(2)] assms(4) c vr by metis
  then have "lookup s0 key = Some (v0, rv)" using assms(3) v0(1) unfolding later_def by blast
  then show ?thesis using v0 assms(4) c n by auto
next
  fix v assume n: "nxt = Some v" and c: "cur = None"
  obtain r where "sp_Create P key v ttl s = (s', Inr r)"
    using assms(5) n c by (auto simp: edit_write_def split: prod.splits sum.splits)
  from create_ok [OF assms(1) this] show ?thesis using n c by auto
qed (use assms(5) in \<open>auto simp: edit_write_def\<close>)

lemma edit_write_failed:
  assumes "ok s" and "edit_write P key ttl cur nxt s = (s', Some e)"
  shows "s' = s"
  using assms create_err [OF assms(1)] update_err [OF assms(1)] delete_if_err [OF assms(1)]
  by (auto simp: edit_write_def split: prod.splits sum.splits option.splits if_splits)

lemma edit_write_later: "ok s \<Longrightarrow> edit_write P key ttl cur nxt s = (s', res) \<Longrightarrow> later s s'"
  using later_create later_update later_delete_if later_refl
  by (fastforce simp: edit_write_def split: prod.splits sum.splits option.splits)

text \<open>What a change that returned without an error did: it saw the key at \<open>t\<close>, and wrote, if at all, at \<open>u\<close>.\<close>

definition edited :: "(nat \<Rightarrow> 's \<Rightarrow> 's) \<Rightarrow> string \<Rightarrow> (string option \<Rightarrow> 'e change_answer) \<Rightarrow> 's \<Rightarrow> 's \<Rightarrow> bool" where
  "edited others key change s s' \<longleftrightarrow>
     (\<exists>t u. by_others others s t \<and> by_others others t u
       \<and> (case change (map_option fst (lookup t key)) of
            KeepAsIs \<Rightarrow> s' = u
          | ChangeErr _ \<Rightarrow> False
          | NextValue nxt \<Rightarrow>
              (s' = u \<and> nxt = None \<and> (lookup t key = None \<or> lookup u key = None))
            \<or> (lookup u key = lookup t key \<and> (\<exists>r. lookup s' = (lookup u)(key := map_option (\<lambda>v. (v, r)) nxt)))))"

lemma edited_after: "by_others others s0 s \<Longrightarrow> edited others key change s s' \<Longrightarrow> edited others key change s0 s'"
  unfolding edited_def by (elim exE conjE, intro exI conjI, erule by_others_trans) assumption+

lemma edit_attempt_laws:
  assumes others: "\<And>i t. ok t \<Longrightarrow> later t (others i t)" and "ok s"
    and att: "edit_attempt P others n key ttl change s = res"
  shows "case res of
      Inl (s', None) \<Rightarrow> ok s' \<and> edited others key change s s'
    | Inl (s', Some _) \<Rightarrow> ok s' \<and> by_others others s s'
    | Inr s' \<Rightarrow> ok s' \<and> by_others others s s'"
proof -
  define s0 where "s0 = others (2 * n + 1) s"
  define s1 where "s1 = others (2 * n) s0"
  let ?s0 = s0 and ?s1 = s1 and ?cur = "lookup s0 key"
  have ok0: "ok ?s0" "later s ?s0" using others [OF assms(2)] by (auto simp: later_def s0_def)
  have ok1: "ok ?s1" "later ?s0 ?s1" using others [OF ok0(1)] by (auto simp: later_def s1_def)
  have b0: "by_others others s ?s0" unfolding s0_def by (rule others_step [OF others_none])
  have b1: "by_others others ?s0 ?s1" unfolding s1_def by (rule others_step [OF others_none])
  have b: "by_others others s ?s1" using by_others_trans [OF b1 b0] .
  have got: "sp_Get P key ?s0 = (case ?cur of None \<Rightarrow> Inl ErrNotFound | Some x \<Rightarrow> Inr x)" by (rule get_law)
  have c1: "(case (case ?cur of None \<Rightarrow> Inl ErrNotFound | Some x \<Rightarrow> Inr x) of Inl _ \<Rightarrow> None | Inr r \<Rightarrow> Some r) = ?cur"
    and c2: "(case (case ?cur of None \<Rightarrow> Inl ErrNotFound | Some x \<Rightarrow> Inr x) of Inl e \<Rightarrow> e \<noteq> ErrNotFound | Inr _ \<Rightarrow> False) = False"
    by (cases ?cur; simp)+
  have att': "res = (case change (map_option fst ?cur) of
           KeepAsIs \<Rightarrow> Inl (?s1, None)
         | ChangeErr e \<Rightarrow> Inl (?s1, Some (EditErr e))
         | NextValue nxt \<Rightarrow>
             (case edit_write P key ttl ?cur nxt ?s1 of
                (s2, None) \<Rightarrow> Inl (s2, None)
              | (s2, Some e) \<Rightarrow> (if edit_again e then Inr s2 else Inl (s2, Some (EditPort e)))))"
    unfolding att [symmetric] edit_attempt_def Let_def s0_def [symmetric] s1_def [symmetric] got c1 c2 if_False ..
  show ?thesis
  proof (cases "change (map_option fst ?cur)")
    case KeepAsIs
    then have "edited others key change s ?s1" unfolding edited_def using b0 b1 by force
    then show ?thesis using att' KeepAsIs ok1(1) by simp
  next
    case (ChangeErr e)
    then show ?thesis using att' ok1(1) b by simp
  next
    case (NextValue nxt)
    obtain s2 err where w: "edit_write P key ttl ?cur nxt ?s1 = (s2, err)" by fastforce
    have ok2: "ok s2" using edit_write_later [OF ok1(1) w] by (simp add: later_def)
    show ?thesis
    proof (cases err)
      case None
      have "(s2 = ?s1 \<and> nxt = None \<and> (?cur = None \<or> lookup ?s1 key = None))
        \<or> (lookup ?s1 key = ?cur \<and> (\<exists>r. lookup s2 = (lookup ?s1)(key := map_option (\<lambda>v. (v, r)) nxt)))"
        by (rule edit_write_applied [OF ok1(1) ok0(1) ok1(2) refl w [unfolded None]])
      then have "edited others key change s s2" unfolding edited_def using b0 b1 NextValue
        by (intro exI [of _ ?s0] exI [of _ ?s1]) simp
      then show ?thesis using att' NextValue w None ok2 by simp
    next
      case (Some e)
      then have "s2 = ?s1" using edit_write_failed [OF ok1(1)] w by blast
      then show ?thesis using att' NextValue w Some ok1(1) b by simp
    qed
  qed
qed

lemma edit_loop_laws:
  assumes others: "\<And>i t. ok t \<Longrightarrow> later t (others i t)" and "ok s"
    and "edit_loop P others n key ttl change s = (s', res)"
  shows "ok s' \<and> (if res = None then edited others key change s s' else by_others others s s')"
  using assms(2,3)
proof (induction n arbitrary: s)
  case 0
  then show ?case by (auto intro: others_none)
next
  case (Suc n)
  note law = edit_attempt_laws [where others = others, OF others Suc.prems(1) refl, where n = n and key = key and ttl = ttl and change = change]
  show ?case
  proof (cases "edit_attempt P others n key ttl change s")
    case (Inl fin)
    then have "fin = (s', res)" using Suc.prems(2) by simp
    then show ?thesis using law Inl by (cases res) auto
  next
    case (Inr t)
    then have t: "ok t" "by_others others s t" "edit_loop P others n key ttl change t = (s', res)" using law Suc.prems(2) by auto
    show ?thesis using Suc.IH [OF t(1,3)] edited_after [OF t(2)] by_others_trans [OF _ t(2)] by auto
  qed
qed

text \<open>With nobody else writing, the first attempt decides.\<close>

lemma edit_uncontended:
  assumes "ok s" and "\<And>v. change (map_option fst (lookup s key)) = NextValue (Some v) \<Longrightarrow> CheckWrite key v ttl = None"
  shows "\<exists>fin. edit_attempt P (\<lambda>_ t. t) n key ttl change s = Inl fin \<and> snd fin \<noteq> Some ErrBusy
    \<and> (\<forall>e. snd fin \<noteq> Some (EditPort e))"
proof -
  have got: "sp_Get P key s = (case lookup s key of None \<Rightarrow> Inl ErrNotFound | Some x \<Rightarrow> Inr x)" by (rule get_law)
  have wr: "\<exists>s'. edit_write P key ttl (lookup s key) nxt s = (s', None)"
    if "change (map_option fst (lookup s key)) = NextValue nxt" for nxt
  proof (cases "lookup s key")
    case None
    then show ?thesis using create_succeeds [OF assms(1) assms(2)] that
      by (cases nxt) (fastforce simp: edit_write_def)+
  next
    case (Some x)
    then obtain v rv where x: "lookup s key = Some (v, rv)" by (cases x) simp
    show ?thesis
    proof (cases nxt)
      case None
      then show ?thesis using delete_if_succeeds [OF assms(1) x] x by (auto simp: edit_write_def)
    next
      case (Some w)
      then show ?thesis using update_succeeds [OF assms(1) assms(2) x, of w] that x by (auto simp: edit_write_def)
    qed
  qed
  show ?thesis
  proof (cases "change (map_option fst (lookup s key))")
    case (NextValue nxt)
    then show ?thesis using wr [OF NextValue] by (cases "lookup s key") (auto simp: edit_attempt_def got)
  qed (cases "lookup s key"; simp add: edit_attempt_def got)+
qed

end

section \<open>Over the in-memory store\<close>

text \<open>Everything another writer can do to the records of the store, and the passing of time.\<close>

datatype store_op =
    OpPut string string int
  | OpCreate string string int
  | OpUpdate string string int revision
  | OpDelete string
  | OpDeleteIf string revision
  | OpAdvance nat

primrec run_op :: "store_op \<Rightarrow> Store \<Rightarrow> Store" where
  "run_op (OpPut k v ttl) s = fst (Store_Put k v ttl s)"
| "run_op (OpCreate k v ttl) s = fst (Store_Create k v ttl s)"
| "run_op (OpUpdate k v ttl rv) s = fst (Store_Update k v ttl rv s)"
| "run_op (OpDelete k) s = fst (Store_Delete k s)"
| "run_op (OpDeleteIf k rv) s = fst (Store_DeleteIfRevision k rv s)"
| "run_op (OpAdvance d) s = Store_Advance (int d) s"

lemma memory_port_sel [simp]:
  "sp_Get memory_port = Store_Get" "sp_Put memory_port = Store_Put" "sp_Create memory_port = Store_Create"
  "sp_Update memory_port = Store_Update" "sp_Delete memory_port = Store_Delete"
  "sp_DeleteIfRevision memory_port = Store_DeleteIfRevision"
  by (simp_all add: memory_port_def)

lemma run_op_later: "store_ok s \<Longrightarrow> mem.later s (run_op x s)"
proof (cases x)
  case (OpPut k v ttl)
  then show "store_ok s \<Longrightarrow> ?thesis" using mem.later_put [of s k v ttl] by (cases "Store_Put k v ttl s") simp
next
  case (OpCreate k v ttl)
  then show "store_ok s \<Longrightarrow> ?thesis" using mem.later_create [of s k v ttl] by (cases "Store_Create k v ttl s") simp
next
  case (OpUpdate k v ttl rv)
  then show "store_ok s \<Longrightarrow> ?thesis" using mem.later_update [of s k v ttl rv] by (cases "Store_Update k v ttl rv s") simp
next
  case (OpDelete k)
  then show "store_ok s \<Longrightarrow> ?thesis" using mem.later_delete [of s k] by (cases "Store_Delete k s") simp
next
  case (OpDeleteIf k rv)
  then show "store_ok s \<Longrightarrow> ?thesis" using mem.later_delete_if [of s k rv] by (cases "Store_DeleteIfRevision k rv s") simp
next
  case (OpAdvance d)
  moreover have "store_elapse s (Store_Advance (int d) s)" unfolding store_elapse_def by (intro exI [of _ "int d"]) simp
  ultimately show "store_ok s \<Longrightarrow> ?thesis" using mem.later_elapse [of s "Store_Advance (int d) s"] by simp
qed

lemma run_ops_later: "store_ok s \<Longrightarrow> mem.later s (fold run_op xs s)"
proof (induction xs arbitrary: s)
  case (Cons x xs)
  have l: "mem.later s (run_op x s)" by (rule run_op_later [OF Cons.prems])
  then have "store_ok (run_op x s)" by (simp add: mem.later_def)
  then show ?case using Cons.IH mem.later_trans [OF l] by simp
qed (simp add: mem.later_refl)

lemma store_reached_ok: "store_ok (fold run_op history (Store_New now))"
proof -
  from run_ops_later [OF store_ok_New] show ?thesis by (simp add: mem.later_def)
qed

text \<open>
  C20. A read-modify-write is atomic whatever the other writers do before and after each of its reads:
  when it returns without an error, its change was computed from what the key held at some moment
  \<open>t\<close>, and was written at a later moment \<open>u\<close> at which the key still held exactly that (or there was
  nothing to delete); when it returns an error, it wrote nothing, and the store is what the others
  made of it.
\<close>
theorem edit_is_atomic:
  fixes ops :: "nat \<Rightarrow> store_op list" and history :: "store_op list" and now :: int
  defines "others \<equiv> \<lambda>i. fold run_op (ops i)" and "s \<equiv> fold run_op history (Store_New now)"
  assumes "editRaw memory_port others key ttl change s = (s', res)"
  shows "if res = None
    then \<exists>t u. by_others others s t \<and> by_others others t u
       \<and> (case change (map_option fst (live_lookup t key)) of
            KeepAsIs \<Rightarrow> s' = u
          | ChangeErr _ \<Rightarrow> False
          | NextValue nxt \<Rightarrow>
              (s' = u \<and> nxt = None \<and> (live_lookup t key = None \<or> live_lookup u key = None))
            \<or> (live_lookup u key = live_lookup t key
                \<and> (\<exists>r. live_lookup s' = (live_lookup u)(key := map_option (\<lambda>v. (v, r)) nxt))))
    else by_others others s s'"
proof -
  have "store_ok s" unfolding s_def by (rule store_reached_ok)
  moreover have "\<And>i t. store_ok t \<Longrightarrow> mem.later t (others i t)" unfolding others_def by (rule run_ops_later)
  ultimately show ?thesis using mem.edit_loop_laws [of others s] assms(3) unfolding editRaw_def mem.edited_def by blast
qed

text \<open>
  With nobody else writing, one attempt is enough: the change is applied to what the key holds, and
  the caller is never told that the record kept changing or that the store refused.
\<close>
theorem uncontended_edit_succeeds:
  fixes history :: "store_op list" and now :: int
  defines "s \<equiv> fold run_op history (Store_New now)"
  assumes "editRaw memory_port (\<lambda>_ t. t) key ttl change s = (s', res)"
    and "\<And>v. change (map_option fst (live_lookup s key)) = NextValue (Some v) \<Longrightarrow> CheckWrite key v ttl = None"
  shows "case change (map_option fst (live_lookup s key)) of
      KeepAsIs \<Rightarrow> res = None \<and> s' = s
    | ChangeErr e \<Rightarrow> res = Some (EditErr e)
    | NextValue nxt \<Rightarrow> res = None \<and> (\<exists>r. live_lookup s' = (live_lookup s)(key := map_option (\<lambda>v. (v, r)) nxt))"
proof -
  have ok: "store_ok s" unfolding s_def by (rule store_reached_ok)
  have still: "by_others (\<lambda>_ t. t) a b \<Longrightarrow> b = a" for a b :: Store
    by (induction rule: by_others.induct) simp_all
  obtain fin where fin: "edit_attempt memory_port (\<lambda>_ t. t) 15 key ttl change s = Inl fin" "snd fin \<noteq> Some ErrBusy" "\<And>e. snd fin \<noteq> Some (EditPort e)"
    using mem.edit_uncontended [OF ok assms(3), where n = 15] by blast
  have sixteen: "attempts = Suc 15" by (simp add: attempts_def)
  have fin': "fin = (s', res)" using assms(2) unfolding editRaw_def sixteen edit_loop.simps fin(1) by simp
  have law: "case Inl fin of Inl (x, None) \<Rightarrow> store_ok x \<and> mem.edited (\<lambda>_ t. t) key change s x
      | Inl (x, Some _) \<Rightarrow> store_ok x \<and> by_others (\<lambda>_ t. t) s x | Inr x \<Rightarrow> store_ok x \<and> by_others (\<lambda>_ t. t) s x"
    by (rule mem.edit_attempt_laws [OF mem.later_refl ok fin(1)])
  show ?thesis
  proof (cases res)
    case None
    then have "mem.edited (\<lambda>_ t. t) key change s s'" using law fin' by simp
    then obtain t u where b: "by_others (\<lambda>_ t. t) s t" "by_others (\<lambda>_ t. t) t u" and e: "case change (map_option fst (live_lookup t key)) of
            KeepAsIs \<Rightarrow> s' = u
          | ChangeErr _ \<Rightarrow> False
          | NextValue nxt \<Rightarrow>
              (s' = u \<and> nxt = None \<and> (live_lookup t key = None \<or> live_lookup u key = None))
            \<or> (live_lookup u key = live_lookup t key
                \<and> (\<exists>r. live_lookup s' = (live_lookup u)(key := map_option (\<lambda>v. (v, r)) nxt)))"
      unfolding mem.edited_def by (elim exE conjE) (rule that, assumption+)
    have "t = s" "u = s" using still [OF b(1)] still [OF b(2)] by simp_all
    then show ?thesis using e None by (auto split: change_answer.splits intro: fun_upd_idem [symmetric])
  next
    case (Some e)
    then obtain x where x: "e = EditErr x" using fin(2,3) fin' by (cases e) auto
    have "edit_attempt memory_port (\<lambda>_ t. t) 15 key ttl change s = Inl (s', Some (EditErr x))" using fin(1) fin' Some x by simp
    then have "change (map_option fst (live_lookup s key)) = ChangeErr x"
      using mem.get_law [of key s]
      by (cases "live_lookup s key") (auto simp: edit_attempt_def Let_def split: change_answer.splits prod.splits option.splits if_splits)
    then show ?thesis using Some x by simp
  qed
qed

text \<open>A counter edited while another writer bumps it between the read and the write: the change is made again.\<close>

definition bump :: "string option \<Rightarrow> string change_answer" where
  "bump cur = NextValue (Some (case cur of None \<Rightarrow> ''1'' | Some v \<Rightarrow> v @ ''1''))"

definition meddler :: "nat \<Rightarrow> store_op list" where
  "meddler i = (if i = 30 then [OpPut ''rec.n'' ''9'' 0] else [])"

definition meddled :: "Store \<times> string edit_err option" where
  "meddled = editRaw memory_port (\<lambda>i. fold run_op (meddler i)) ''rec.n'' 0 bump (fold run_op [OpPut ''rec.n'' ''0'' 0] (Store_New 0))"

theorem edit_is_atomic_witness:
  "live_lookup (fst meddled) ''rec.n'' = Some (''91'', 3) \<and>
   (\<exists>t u r. live_lookup u ''rec.n'' = live_lookup t ''rec.n''
     \<and> live_lookup (fst meddled) = (live_lookup u)(''rec.n'' \<mapsto> ((case map_option fst (live_lookup t ''rec.n'') of None \<Rightarrow> ''1'' | Some v \<Rightarrow> v @ ''1''), r)))"
proof
  show "live_lookup (fst meddled) ''rec.n'' = Some (''91'', 3)" by code_simp
  have n: "snd meddled = None" by code_simp
  have "editRaw memory_port (\<lambda>i. fold run_op (meddler i)) ''rec.n'' 0 bump (fold run_op [OpPut ''rec.n'' ''0'' 0] (Store_New 0))
      = (fst meddled, snd meddled)" by (simp add: meddled_def)
  from edit_is_atomic [OF this] show "\<exists>t u r. live_lookup u ''rec.n'' = live_lookup t ''rec.n''
     \<and> live_lookup (fst meddled) = (live_lookup u)(''rec.n'' \<mapsto> ((case map_option fst (live_lookup t ''rec.n'') of None \<Rightarrow> ''1'' | Some v \<Rightarrow> v @ ''1''), r))"
    unfolding n by (auto simp: bump_def)
qed

theorem uncontended_witness:
  "\<exists>r. live_lookup (fst (editRaw memory_port (\<lambda>_ t. t) ''rec.n'' 0 bump (fold run_op [OpPut ''rec.n'' ''0'' 0] (Store_New 0)))) ''rec.n''
     = Some (''01'', r)"
proof -
  let ?s = "fold run_op [OpPut ''rec.n'' ''0'' 0] (Store_New 0)" and ?e = "editRaw memory_port (\<lambda>_ t. t) ''rec.n'' 0 bump (fold run_op [OpPut ''rec.n'' ''0'' 0] (Store_New 0))"
  have cur: "map_option fst (live_lookup ?s ''rec.n'') = Some ''0''" by code_simp
  have chk: "CheckWrite ''rec.n'' ''01'' 0 = None" by code_simp
  have e: "?e = (fst ?e, snd ?e)" by simp
  have "case bump (map_option fst (live_lookup ?s ''rec.n'')) of
      KeepAsIs \<Rightarrow> snd ?e = None \<and> fst ?e = ?s
    | ChangeErr x \<Rightarrow> snd ?e = Some (EditErr x)
    | NextValue nxt \<Rightarrow> snd ?e = None \<and> (\<exists>r. live_lookup (fst ?e) = (live_lookup ?s)(''rec.n'' := map_option (\<lambda>v. (v, r)) nxt))"
    by (rule uncontended_edit_succeeds [OF e]) (simp only: cur, simp add: bump_def chk)
  then show ?thesis unfolding cur by (auto simp: bump_def)
qed

end
