(* ===== verification/Authorizer.thy ===== *)
theory Authorizer
  imports Evaluate
begin

text \<open>
  The hub's authorizer, \<open>src/internal/access/access.go\<close>: from an authenticated principal to an identity
  with its roles. The directory is the interface \<open>Directory\<close> of the source, a function \<open>dir\<close> from an
  address to what the hub resolves, \<^const>\<open>None\<close> for a hub without one. The authorizer's own state is
  what each address was last granted while the directory vouched for it; \<open>evaluate\<close> passes it on
  explicitly and takes the current time. What is shown: the hold window only ever gives back the latest
  vouched grant of the same address, for as long as the window; an account the directory says is not
  live gets no identity; a role over one workspace comes from a grant over that workspace or over all
  of them, and from nothing else.
\<close>

section \<open>Roles and identities\<close>

datatype CRole = CRoleNone | CRoleViewer | CRoleOperator

primrec rank :: "CRole \<Rightarrow> nat" where
  "rank CRoleOperator = 2"
| "rank CRoleViewer = 1"
| "rank CRoleNone = 0"

definition Implies :: "CRole \<Rightarrow> CRole \<Rightarrow> bool" where
  "Implies r other = (rank r \<ge> rank other)"

datatype Source = SourceForwarded | SourceDirectory | SourceOIDC | SourceRecovery | SourceWorkload

record Principal =
  pr_Email :: string
  pr_Subject :: string
  pr_Source :: Source
  pr_Issuer :: string
  pr_Claims :: "string list table"
  pr_ServiceAccount :: "ServiceAccountRef option"

record Identity =
  id_Email :: string
  id_Subject :: string
  id_GivenName :: string
  id_FamilyName :: string
  id_Source :: Source
  id_Role :: CRole
  id_Groups :: "string list"
  id_Held :: "Held list"
  id_Claims :: fragment
  id_Lifetime :: int
  id_Scopes :: "CRole table"

definition Can :: "Identity \<Rightarrow> CRole \<Rightarrow> bool" where
  "Can i role = Implies (id_Role i) role"

definition CanFor :: "Identity \<Rightarrow> CRole \<Rightarrow> string \<Rightarrow> bool" where
  "CanFor i role workspace = (if Implies (id_Role i) role then True
     else Implies (tget CRoleNone (id_Scopes i) workspace) role)"

definition CanAnywhere :: "Identity \<Rightarrow> CRole \<Rightarrow> bool" where
  "CanAnywhere i role = (if Implies (id_Role i) role then True
     else list_ex (\<lambda>(_, scoped). Implies scoped role) (sorted_entries (id_Scopes i)))"

text \<open>\<^const>\<open>None\<close> is every workspace.\<close>

definition Workspaces :: "Identity \<Rightarrow> CRole \<Rightarrow> string list option" where
  "Workspaces i role = (if Implies (id_Role i) role then None
     else Some (map fst (filter (\<lambda>(_, scoped). Implies scoped role) (sorted_entries (id_Scopes i)))))"

definition Who :: "Identity \<Rightarrow> string" where
  "Who i = (if id_Email i \<noteq> [] then id_Email i else id_Subject i)"

definition Identity_Name :: "Identity \<Rightarrow> string" where
  "Identity_Name i =
     (let name = trim_space (id_GivenName i @ '' '' @ id_FamilyName i) in if name = [] then Who i else name)"

section \<open>The authorizer\<close>

record UserResult =
  u_Email :: string
  u_Workspace :: string
  u_InDomain :: bool
  u_Found :: bool
  u_Suspended :: bool
  u_Groups :: "string list"
  u_GivenName :: string
  u_FamilyName :: string
  u_Authoritative :: bool

definition no_UserResult :: UserResult where
  "no_UserResult = \<lparr>u_Email = [], u_Workspace = [], u_InDomain = False, u_Found = False, u_Suspended = False, u_Groups = [],
     u_GivenName = [], u_FamilyName = [], u_Authoritative = False\<rparr>"

datatype authz_err = ErrSuspended string | ErrResolve string string

type_synonym Directory = "string \<Rightarrow> string + UserResult"

record Authorizer =
  au_dir :: "Directory option"
  au_set :: Policy
  au_holdWindow :: int
  au_held :: "(Result \<times> int) table"

definition NewAuthorizer :: "Policy \<Rightarrow> Directory option \<Rightarrow> int \<Rightarrow> Authorizer" where
  "NewAuthorizer p dir holdWindow = \<lparr>au_dir = dir, au_set = p, au_holdWindow = holdWindow, au_held = []\<rparr>"

definition crole_of :: "Result \<Rightarrow> CRole" where
  "crole_of result =
     (if Result_Has result GroupOperators then CRoleOperator
      else if Result_Has result GroupViewers then CRoleViewer else CRoleNone)"

definition scope_one :: "string \<Rightarrow> CRole table \<Rightarrow> CRole table" where
  "scope_one name out =
     (case SplitScopedGroup name of
        None \<Rightarrow> out
      | Some (workspace, role) \<Rightarrow>
          (if workspace = [] then out
           else let held = (if role = RoleOperator then CRoleOperator else CRoleViewer)
                in if Implies held (tget CRoleNone out workspace) then tput workspace held out else out))"

definition scopesOf :: "Result \<Rightarrow> CRole table" where
  "scopesOf result = fold scope_one (res_Groups result) []"

definition evaluate :: "Authorizer \<Rightarrow> int \<Rightarrow> Input \<Rightarrow> Authorizer \<times> Result" where
  "evaluate a now inp =
     (let result = Evaluate (au_set a) inp
      in if in_Email inp = [] then (a, result)
         else if in_Authoritative inp
         then (a\<lparr>au_held := tput (in_Email inp) (result, now) (au_held a)\<rparr>, result)
         else if au_holdWindow a \<le> 0 then (a, result)
         else case map_of (au_held a) (in_Email inp) of
           None \<Rightarrow> (a, result)
         | Some (previous, at) \<Rightarrow>
             (if now - at > au_holdWindow a then (a, result)
              else if Implies (crole_of previous) (crole_of result) then (a, previous)
              else (a, result)))"

record ClientAdmission =
  ca_ID :: string
  ca_Kind :: string
  ca_Requires :: "string list"
  ca_Admitted :: bool
  ca_Lifetime :: int

definition admissions :: "Authorizer \<Rightarrow> Result \<Rightarrow> ClientAdmission list" where
  "admissions a result =
     map (\<lambda>(ident, c). \<lparr>ca_ID = ident, ca_Kind = c_Kind c, ca_Requires = c_Requires c, ca_Admitted = Client_Admits c result,
            ca_Lifetime = (if Client_Admits c result then Client_Cap c (res_Lifetime result) else 0)\<rparr>)
       (sorted_entries (p_Clients (au_set a)))"

record Proof =
  pf_Email :: string
  pf_GitHub :: "GitHubClaims option"
  pf_ServiceAccount :: "ServiceAccountRef option"

definition IsPerson :: "Proof \<Rightarrow> bool" where
  "IsPerson p = (pf_GitHub p = None \<and> pf_ServiceAccount p = None)"

record Explanation =
  ex_Email :: string
  ex_Workspace :: string
  ex_GivenName :: string
  ex_FamilyName :: string
  ex_InDomain :: bool
  ex_Found :: bool
  ex_Suspended :: bool
  ex_Authoritative :: bool
  ex_DirectoryGroups :: "string list"
  ex_Result :: Result
  ex_Role :: CRole
  ex_Clients :: "ClientAdmission list"

definition explain :: "Authorizer \<Rightarrow> int \<Rightarrow> Proof \<Rightarrow> bool \<Rightarrow> Authorizer \<times> (authz_err + Explanation)" where
  "explain a now proof refuseSuspended =
     (let email = to_lower (trim_space (pf_Email proof));
          inp = \<lparr>in_Email = email, in_DirectoryGroups = [], in_Authoritative = False, in_GitHub = pf_GitHub proof,
                 in_ServiceAccount = pf_ServiceAccount proof, in_AWS = None\<rparr>;
          finish = (\<lambda>user inp. case evaluate a now inp of (a', result) \<Rightarrow>
             (a', Inr \<lparr>ex_Email = email, ex_Workspace = u_Workspace user, ex_GivenName = u_GivenName user, ex_FamilyName = u_FamilyName user,
                      ex_InDomain = u_InDomain user, ex_Found = u_Found user, ex_Suspended = u_Suspended user,
                      ex_Authoritative = u_Authoritative user, ex_DirectoryGroups = u_Groups user,
                      ex_Result = result, ex_Role = crole_of result, ex_Clients = admissions a result\<rparr>))
      in case (if Domain email \<noteq> None \<and> IsPerson proof then au_dir a else None) of
           None \<Rightarrow> finish no_UserResult inp
         | Some dir \<Rightarrow>
             (case dir email of
                Inl e \<Rightarrow> (a, Inl (ErrResolve email e))
              | Inr resolved \<Rightarrow>
                  (if refuseSuspended \<and> u_Authoritative resolved \<and> u_InDomain resolved \<and> (\<not> u_Found resolved \<or> u_Suspended resolved)
                   then (a, Inl (ErrSuspended email))
                   else finish resolved
                     (inp\<lparr>in_DirectoryGroups := u_Groups resolved, in_Authoritative := u_Authoritative resolved\<rparr>))))"

definition Explain :: "Authorizer \<Rightarrow> int \<Rightarrow> Proof \<Rightarrow> Authorizer \<times> (authz_err + Explanation)" where
  "Explain a now proof = explain a now proof False"

definition recovery_identity :: "Principal \<Rightarrow> Identity" where
  "recovery_identity p =
     \<lparr>id_Email = pr_Email p, id_Subject = pr_Subject p, id_GivenName = [], id_FamilyName = [], id_Source = SourceRecovery,
      id_Role = CRoleOperator, id_Groups = [], id_Held = [\<lparr>h_Group = ''recovery'', h_Via = [''the recovery sign-in''], h_Key = [], h_Implies = []\<rparr>], id_Claims = [],
      id_Lifetime = 0, id_Scopes = []\<rparr>"

definition Authorize :: "Authorizer \<Rightarrow> int \<Rightarrow> Principal \<Rightarrow> Authorizer \<times> (authz_err + Identity)" where
  "Authorize a now p =
     (if pr_Source p = SourceRecovery then (a, Inr (recovery_identity p))
      else let proof = (case pr_ServiceAccount p of
                  None \<Rightarrow> \<lparr>pf_Email = pr_Email p, pf_GitHub = None, pf_ServiceAccount = None\<rparr>
                | Some acc \<Rightarrow> \<lparr>pf_Email = [], pf_GitHub = None, pf_ServiceAccount = Some acc\<rparr>)
           in case explain a now proof True of
             (a', Inl e) \<Rightarrow> (a', Inl e)
           | (a', Inr x) \<Rightarrow>
               (a', Inr \<lparr>id_Email = pr_Email p, id_Subject = pr_Subject p,
                  id_GivenName = ex_GivenName x, id_FamilyName = ex_FamilyName x,
                  id_Source = pr_Source p, id_Role = ex_Role x, id_Groups = res_Groups (ex_Result x), id_Held = res_Held (ex_Result x),
                  id_Claims = res_Claims (ex_Result x), id_Lifetime = res_Lifetime (ex_Result x), id_Scopes = scopesOf (ex_Result x)\<rparr>))"

record Person =
  pe_Email :: string
  pe_GivenName :: string
  pe_FamilyName :: string
  pe_Live :: bool
  pe_Authoritative :: bool
  pe_DirectoryGroups :: "string list"

record GroupHolder =
  hr_Email :: string
  hr_GivenName :: string
  hr_FamilyName :: string
  hr_Live :: bool
  hr_Authoritative :: bool
  hr_Via :: "string list"
  hr_Lifetime :: int

definition person_input :: "Person \<Rightarrow> Input" where
  "person_input p = \<lparr>in_Email = pe_Email p, in_DirectoryGroups = pe_DirectoryGroups p, in_Authoritative = pe_Authoritative p,
     in_GitHub = None, in_ServiceAccount = None, in_AWS = None\<rparr>"

text \<open>The last reason recorded for the group is the one shown.\<close>

definition holder_of :: "Authorizer \<Rightarrow> string \<Rightarrow> Client option \<Rightarrow> Person \<Rightarrow> GroupHolder option" where
  "holder_of a grp wanted p =
     (let result = Evaluate (au_set a) (person_input p);
          holder = \<lparr>hr_Email = pe_Email p, hr_GivenName = pe_GivenName p, hr_FamilyName = pe_FamilyName p, hr_Live = pe_Live p,
            hr_Authoritative = pe_Authoritative p, hr_Via = [], hr_Lifetime = 0\<rparr>
      in if grp \<noteq> []
         then (if \<not> Result_Has result grp then None
               else Some (fold (\<lambda>h out. if h_Group h = grp then out\<lparr>hr_Via := h_Via h\<rparr> else out) (res_Held result) holder))
         else case wanted of
           None \<Rightarrow> None
         | Some c \<Rightarrow>
             (if \<not> Client_Admits c result then None
              else Some (holder\<lparr>hr_Via := filter (Result_Has result) (c_Requires c),
                     hr_Lifetime := Client_Cap c (res_Lifetime result)\<rparr>)))"

definition HoldersOf :: "Authorizer \<Rightarrow> Person list \<Rightarrow> string \<Rightarrow> string \<Rightarrow> GroupHolder list" where
  "HoldersOf a people grp client =
     (if client \<noteq> [] \<and> map_of (p_Clients (au_set a)) client = None then []
      else List.map_filter (holder_of a grp (if client = [] then None else map_of (p_Clients (au_set a)) client)) people)"

section \<open>The hold window\<close>

text \<open>A history of calls: when, and with which input.\<close>

definition run_calls :: "(int \<times> Input) list \<Rightarrow> Authorizer \<Rightarrow> Authorizer" where
  "run_calls calls a = fold (\<lambda>(now, inp) a. fst (evaluate a now inp)) calls a"

lemma evaluate_frame [simp]:
  "au_set (fst (evaluate a now inp)) = au_set a" "au_dir (fst (evaluate a now inp)) = au_dir a"
  "au_holdWindow (fst (evaluate a now inp)) = au_holdWindow a"
  by (auto simp: evaluate_def Let_def split: option.splits)

lemma run_calls_frame [simp]:
  "au_set (run_calls calls a) = au_set a" "au_dir (run_calls calls a) = au_dir a"
  "au_holdWindow (run_calls calls a) = au_holdWindow a"
  unfolding run_calls_def by (induction calls arbitrary: a) (auto split: prod.splits)

text \<open>The latest vouched call for an address.\<close>

definition latest_vouched :: "string \<Rightarrow> (int \<times> Input) list \<Rightarrow> (int \<times> Input) option" where
  "latest_vouched email calls =
     fold (\<lambda>call found. if in_Email (snd call) = email \<and> in_Authoritative (snd call) then Some call else found) calls None"

lemma latest_vouched_snoc:
  "latest_vouched email (calls @ [(now, inp)]) =
     (if in_Email inp = email \<and> in_Authoritative inp then Some (now, inp) else latest_vouched email calls)"
  by (simp add: latest_vouched_def)

lemma latest_vouched_Some:
  "latest_vouched email calls = Some (at, inp) \<Longrightarrow> (at, inp) \<in> set calls \<and> in_Email inp = email \<and> in_Authoritative inp"
  by (induction calls rule: rev_induct) (auto simp: latest_vouched_def split: if_splits)

lemma held_is_latest:
  assumes "email \<noteq> []"
  shows "map_of (au_held (run_calls calls (NewAuthorizer p dir w))) email =
     map_option (\<lambda>(at, inp). (Evaluate p inp, at)) (latest_vouched email calls)"
proof (induction calls rule: rev_induct)
  case Nil
  then show ?case by (simp add: run_calls_def NewAuthorizer_def latest_vouched_def)
next
  case (snoc call calls)
  obtain now inp where call: "call = (now, inp)" by fastforce
  let ?a = "run_calls calls (NewAuthorizer p dir w)"
  have step: "run_calls (calls @ [(now, inp)]) (NewAuthorizer p dir w) = fst (evaluate ?a now inp)"
    by (simp add: run_calls_def)
  have set: "au_set ?a = p" by (simp add: NewAuthorizer_def)
  have "map_of (au_held (fst (evaluate ?a now inp))) email =
      (if in_Email inp = email \<and> in_Authoritative inp then Some (Evaluate p inp, now) else map_of (au_held ?a) email)"
    using assms set by (auto simp: evaluate_def Let_def split: option.splits)
  then show ?case unfolding call step latest_vouched_snoc snoc.IH by simp
qed

text \<open>
  C29. While the directory does not vouch for an address, the authorizer either evaluates the policy
  on the unvouched input, or gives back what the latest vouched call for that same address was granted;
  the latter only within the hold window, and only when it is no smaller a role. A vouched call always
  gets a fresh evaluation.
\<close>
theorem hold_gives_back_only_the_latest_vouched_grant:
  assumes "evaluate (run_calls calls (NewAuthorizer p dir window)) now inp = (a', result)"
  shows "result = Evaluate p inp
    \<or> (\<not> in_Authoritative inp \<and> (\<exists>at inp'. latest_vouched (in_Email inp) calls = Some (at, inp')
         \<and> in_Email inp' = in_Email inp \<and> in_Authoritative inp' \<and> now - at \<le> window \<and> 0 < window
         \<and> result = Evaluate p inp' \<and> Implies (crole_of result) (crole_of (Evaluate p inp))))"
proof (cases "result = Evaluate p inp")
  case False
  let ?a = "run_calls calls (NewAuthorizer p dir window)"
  have set: "au_set ?a = p" "au_holdWindow ?a = window" by (simp_all add: NewAuthorizer_def)
  obtain prev at where h: "in_Email inp \<noteq> []" "\<not> in_Authoritative inp" "0 < window"
    "map_of (au_held ?a) (in_Email inp) = Some (prev, at)" "now - at \<le> window" "result = prev"
    "Implies (crole_of prev) (crole_of (Evaluate p inp))"
    using assms False set by (auto simp: evaluate_def Let_def split: if_splits option.splits)
  obtain inp' where l: "latest_vouched (in_Email inp) calls = Some (at, inp')" "prev = Evaluate p inp'"
    using h(4) unfolding held_is_latest [OF h(1)] by auto
  from latest_vouched_Some [OF l(1)] show ?thesis using h l by auto
qed simp

section \<open>Roles over a workspace\<close>

text \<open>What the groups give over one workspace: the wider of the roles named for it.\<close>

definition scoped_role :: "string set \<Rightarrow> string \<Rightarrow> CRole option" where
  "scoped_role G w =
     (if \<exists>g\<in>G. SplitScopedGroup g = Some (w, RoleOperator) then Some CRoleOperator
      else if \<exists>g\<in>G. SplitScopedGroup g = Some (w, RoleViewer) then Some CRoleViewer else None)"

lemma scope_one_role:
  assumes "w \<noteq> []" and "map_of out w = scoped_role G w"
  shows "map_of (scope_one name out) w = scoped_role (insert name G) w"
proof (cases "SplitScopedGroup name")
  case None
  then show ?thesis using assms by (simp add: scope_one_def scoped_role_def)
next
  case (Some wr)
  obtain w' r where wr: "wr = (w', r)" by fastforce
  have r: "r = RoleOperator \<or> r = RoleViewer" using SplitScopedGroup_Some [of name w' r] Some wr by simp
  have ne: "RoleOperator \<noteq> RoleViewer" by (simp add: name_consts)
  show ?thesis
  proof (cases "w' = w")
    case True
    then show ?thesis using Some wr assms r ne
      by (auto simp: scope_one_def scoped_role_def Implies_def tget_def Let_def)
  next
    case False
    then show ?thesis using Some wr assms by (auto simp: scope_one_def scoped_role_def Let_def)
  qed
qed

lemma scopesOf_role:
  assumes "w \<noteq> []"
  shows "map_of (scopesOf r) w = scoped_role (set (res_Groups r)) w"
proof -
  have "map_of (fold scope_one gs out) w = scoped_role (set gs \<union> G) w" if "map_of out w = scoped_role G w" for gs out G
    using that
  proof (induction gs arbitrary: out G)
    case (Cons g gs)
    from Cons.IH [OF scope_one_role [OF assms Cons.prems]] show ?case by simp
  qed simp
  from this [of "[]" "{}"] show ?thesis by (simp add: scopesOf_def scoped_role_def)
qed

lemma SplitScopedGroup_valid:
  assumes "ValidWorkspaceID w" and "role = RoleOperator \<or> role = RoleViewer"
  shows "SplitScopedGroup g = Some (w, role) \<longleftrightarrow> g = ScopedGroup w role"
proof
  have "w \<noteq> []" using assms(1) by (simp add: ValidWorkspaceID_def)
  then show "SplitScopedGroup g = Some (w, role) \<Longrightarrow> g = ScopedGroup w role" using SplitScopedGroup_Some [of g w role] by simp
qed (simp add: SplitScopedGroup_ScopedGroup [OF assms])

lemma explain_result:
  assumes "explain a now proof refuse = (a', Inr x)"
  shows "\<exists>ds vouched. evaluate a now \<lparr>in_Email = to_lower (trim_space (pf_Email proof)), in_DirectoryGroups = ds,
      in_Authoritative = vouched, in_GitHub = pf_GitHub proof, in_ServiceAccount = pf_ServiceAccount proof, in_AWS = None\<rparr>
        = (a', ex_Result x) \<and> ex_Role x = crole_of (ex_Result x)"
  using assms by (auto simp: explain_def Let_def split: option.splits sum.splits prod.splits if_splits) (intro exI, assumption)+

lemma Authorize_identity:
  assumes "Authorize a now p = (a', Inr i)" and "pr_Source p \<noteq> SourceRecovery"
  obtains inp result where "evaluate a now inp = (a', result)" "id_Groups i = res_Groups result"
    "id_Role i = crole_of result" "id_Scopes i = scopesOf result" "in_GitHub inp = None" "in_ServiceAccount inp = pr_ServiceAccount p"
    "in_Email inp = (if pr_ServiceAccount p = None then to_lower (trim_space (pr_Email p)) else [])"
proof -
  let ?proof = "case pr_ServiceAccount p of
                  None \<Rightarrow> \<lparr>pf_Email = pr_Email p, pf_GitHub = None, pf_ServiceAccount = None\<rparr>
                | Some acc \<Rightarrow> \<lparr>pf_Email = [], pf_GitHub = None, pf_ServiceAccount = Some acc\<rparr>"
  obtain x where x: "explain a now ?proof True = (a', Inr x)" "id_Groups i = res_Groups (ex_Result x)" "id_Role i = ex_Role x"
    "id_Scopes i = scopesOf (ex_Result x)"
    using assms by (auto simp: Authorize_def Let_def split: prod.splits sum.splits)
  from explain_result [OF x(1)] obtain ds vouched where "evaluate a now \<lparr>in_Email = to_lower (trim_space (pf_Email ?proof)),
      in_DirectoryGroups = ds, in_Authoritative = vouched, in_GitHub = pf_GitHub ?proof, in_ServiceAccount = pf_ServiceAccount ?proof,
      in_AWS = None\<rparr> = (a', ex_Result x)" and role: "ex_Role x = crole_of (ex_Result x)" by blast
  from that [OF this(1)] show thesis using x(2-4) role by (simp split: option.splits)
qed

text \<open>
  A role over one workspace comes from a grant over that workspace or over all of them, and from
  nothing else: the administrator of one company has no role over another's.
\<close>
theorem workspace_roles_do_not_cross:
  assumes "Authorize a now p = (a', Inr i)" and "pr_Source p \<noteq> SourceRecovery" and "ValidWorkspaceID w"
  shows "(CanFor i CRoleOperator w \<longleftrightarrow> GroupOperators \<in> set (id_Groups i) \<or> ScopedGroup w RoleOperator \<in> set (id_Groups i))
    \<and> (CanFor i CRoleViewer w \<longleftrightarrow> GroupOperators \<in> set (id_Groups i) \<or> GroupViewers \<in> set (id_Groups i)
         \<or> ScopedGroup w RoleOperator \<in> set (id_Groups i) \<or> ScopedGroup w RoleViewer \<in> set (id_Groups i))
    \<and> (Can i CRoleOperator \<longleftrightarrow> GroupOperators \<in> set (id_Groups i))"
proof -
  obtain inp result where r: "id_Groups i = res_Groups result" "id_Role i = crole_of result" "id_Scopes i = scopesOf result"
    using Authorize_identity [OF assms(1,2)] by metis
  have w: "w \<noteq> []" using assms(3) by (simp add: ValidWorkspaceID_def)
  have "scoped_role (set (res_Groups result)) w =
      (if ScopedGroup w RoleOperator \<in> set (res_Groups result) then Some CRoleOperator
       else if ScopedGroup w RoleViewer \<in> set (res_Groups result) then Some CRoleViewer else None)"
    by (simp add: scoped_role_def SplitScopedGroup_valid [OF assms(3)])
  then have s: "tget CRoleNone (id_Scopes i) w =
      (if ScopedGroup w RoleOperator \<in> set (res_Groups result) then CRoleOperator
       else if ScopedGroup w RoleViewer \<in> set (res_Groups result) then CRoleViewer else CRoleNone)"
    unfolding r tget_def scopesOf_role [OF w] by simp
  show ?thesis unfolding CanFor_def Can_def s r(1,2) by (auto simp: Implies_def crole_of_def Result_Has_def)
qed

text \<open>
  An account that is not live reaches nothing: when the directory says with authority that an
  address of its own is unknown or suspended, the sign-in is refused, and the refusal changes nothing;
  it is refused as not live in no other case.
\<close>
theorem accounts_not_live_are_refused:
  "(\<exists>a' e. Authorize a now p = (a', Inl (ErrSuspended e))) \<longleftrightarrow>
     (pr_Source p \<noteq> SourceRecovery \<and> pr_ServiceAccount p = None \<and> Domain (to_lower (trim_space (pr_Email p))) \<noteq> None
      \<and> (\<exists>dir u. au_dir a = Some dir \<and> dir (to_lower (trim_space (pr_Email p))) = Inr u
          \<and> u_Authoritative u \<and> u_InDomain u \<and> (\<not> u_Found u \<or> u_Suspended u)))"
  by (auto simp: Authorize_def explain_def IsPerson_def Let_def split: option.splits sum.splits prod.splits if_splits)

lemma Authorize_error_state: "Authorize a now p = (a', Inl e) \<Longrightarrow> a' = a"
  by (auto simp: Authorize_def explain_def Let_def split: option.splits sum.splits prod.splits if_splits)

section \<open>A small installation\<close>

definition hub_policy :: Policy where
  "hub_policy = no_Policy\<lparr>p_Version := 1, p_Groups :=
     [(''all:access-roster:operator'', \<lparr>g_Members = [''ops@x.io''], g_Matchers = []\<rparr>),
      (''C01:access-roster:operator'', \<lparr>g_Members = [], g_Matchers = [no_Matcher\<lparr>m_Email := ''bea@y.io''\<rparr>]\<rparr>)]\<rparr>"

definition ann_user :: "bool \<Rightarrow> bool \<Rightarrow> UserResult" where
  "ann_user vouched suspended = \<lparr>u_Email = ''ann@x.io'', u_Workspace = ''C0x'', u_InDomain = True, u_Found = True, u_Suspended = suspended,
     u_Groups = [''ops@x.io''], u_GivenName = ''Ann'', u_FamilyName = [], u_Authoritative = vouched\<rparr>"

definition ann_call :: "bool \<Rightarrow> Input" where
  "ann_call vouched = \<lparr>in_Email = ''ann@x.io'', in_DirectoryGroups = [''ops@x.io''], in_Authoritative = vouched, in_GitHub = None,
     in_ServiceAccount = None, in_AWS = None\<rparr>"

definition person_at :: "string \<Rightarrow> Principal" where
  "person_at email = \<lparr>pr_Email = email, pr_Subject = [], pr_Source = SourceForwarded, pr_Issuer = [], pr_Claims = [], pr_ServiceAccount = None\<rparr>"

definition hub_authorizer :: Authorizer where
  "hub_authorizer = NewAuthorizer hub_policy None 100"

theorem hold_witness:
  "\<exists>at inp'. latest_vouched ''ann@x.io'' [(0, ann_call True)] = Some (at, inp') \<and> 50 - at \<le> 100
     \<and> snd (evaluate (run_calls [(0, ann_call True)] hub_authorizer) 50 (ann_call False)) = Evaluate hub_policy inp'"
proof -
  let ?e = "evaluate (run_calls [(0, ann_call True)] hub_authorizer) 50 (ann_call False)"
  have e: "evaluate (run_calls [(0, ann_call True)] (NewAuthorizer hub_policy None 100)) 50 (ann_call False) = (fst ?e, snd ?e)"
    by (simp add: hub_authorizer_def)
  have "res_Groups (snd ?e) = [''all:access-roster:operator'']" "res_Groups (Evaluate hub_policy (ann_call False)) = []" by code_simp+
  then have "snd ?e \<noteq> Evaluate hub_policy (ann_call False)" by auto
  moreover have "in_Email (ann_call False) = ''ann@x.io''" by (simp add: ann_call_def)
  ultimately show ?thesis using hold_gives_back_only_the_latest_vouched_grant [OF e] by auto
qed

theorem workspace_roles_witness:
  "\<exists>i. snd (Authorize hub_authorizer 0 (person_at ''bea@y.io'')) = Inr i \<and> CanFor i CRoleOperator ''C01'' \<and> \<not> CanFor i CRoleOperator ''C02''"
proof -
  obtain i where i: "Authorize hub_authorizer 0 (person_at ''bea@y.io'') = (fst (Authorize hub_authorizer 0 (person_at ''bea@y.io'')), Inr i)"
    "id_Groups i = [''C01:access-roster:operator'']"
  proof -
    have "case snd (Authorize hub_authorizer 0 (person_at ''bea@y.io'')) of Inl _ \<Rightarrow> False | Inr i \<Rightarrow> id_Groups i = [''C01:access-roster:operator'']"
      by code_simp
    then show thesis using that by (cases "Authorize hub_authorizer 0 (person_at ''bea@y.io'')") (auto split: sum.splits)
  qed
  have src: "pr_Source (person_at ''bea@y.io'') \<noteq> SourceRecovery" by (simp add: person_at_def)
  have w: "ValidWorkspaceID ''C01''" "ValidWorkspaceID ''C02''" by code_simp+
  have g: "ScopedGroup ''C01'' RoleOperator = ''C01:access-roster:operator''" "ScopedGroup ''C02'' RoleOperator = ''C02:access-roster:operator''"
    "GroupOperators = ''all:access-roster:operator''" by code_simp+
  have c: "CanFor i CRoleOperator ''C01''" "\<not> CanFor i CRoleOperator ''C02''"
    using workspace_roles_do_not_cross [OF i(1) src w(1)] workspace_roles_do_not_cross [OF i(1) src w(2)] by (simp_all add: i(2) g)
  have "snd (Authorize hub_authorizer 0 (person_at ''bea@y.io'')) = Inr i" by (subst i(1)) simp
  then show ?thesis using c by blast
qed

theorem not_live_witness:
  "\<exists>a' e. Authorize (NewAuthorizer hub_policy (Some (\<lambda>_. Inr (ann_user True True))) 0) 0 (person_at ''ann@x.io'') = (a', Inl (ErrSuspended e))"
proof -
  have d: "Domain (to_lower (trim_space (pr_Email (person_at ''ann@x.io'')))) \<noteq> None" by code_simp
  show ?thesis unfolding accounts_not_live_are_refused
    using d by (simp add: person_at_def NewAuthorizer_def ann_user_def)
qed

end
