(* ===== verification/Login_State.thy ===== *)
theory Login_State
  imports Memory_Store
begin

text \<open>
  Where a login in progress lives, \<open>src/internal/issuer/state.go\<close> and \<open>src/internal/issuer/portstate.go\<close>:
  the interface \<open>State\<close> as a record of operations, the process-local \<open>MemoryState\<close>, and \<open>portState\<close>, the
  same interface over the storage ports. What a client may rely on is the locale \<open>login_state\<close>: every
  operation acts on an abstract view of the store, live values with the instant they end and live sets
  with theirs. Both implementations refine it; the interpretations at the end are the proofs. Go's map
  iteration order is unspecified: \<open>Members\<close> lists a set in order here.
\<close>

section \<open>Operations that change a state and may fail\<close>

type_synonym ('s, 'e, 'a) sop = "'s \<Rightarrow> 's \<times> ('e + 'a)"

definition ret :: "'a \<Rightarrow> ('s, 'e, 'a) sop" where
  "ret x s = (s, Inr x)"

definition raise :: "'e \<Rightarrow> ('s, 'e, 'a) sop" where
  "raise e s = (s, Inl e)"

definition bnd :: "('s, 'e, 'a) sop \<Rightarrow> ('a \<Rightarrow> ('s, 'e, 'b) sop) \<Rightarrow> ('s, 'e, 'b) sop" where
  "bnd m f s = (case m s of (s', Inl e) \<Rightarrow> (s', Inl e) | (s', Inr x) \<Rightarrow> f x s')"

definition map_err :: "('e \<Rightarrow> 'f) \<Rightarrow> ('s, 'e, 'a) sop \<Rightarrow> ('s, 'f, 'a) sop" where
  "map_err g m s = (case m s of (s', Inl e) \<Rightarrow> (s', Inl (g e)) | (s', Inr x) \<Rightarrow> (s', Inr x))"

fun each :: "('a \<Rightarrow> ('s, 'e, unit) sop) \<Rightarrow> 'a list \<Rightarrow> ('s, 'e, unit) sop" where
  "each f [] = ret ()"
| "each f (x # xs) = bnd (f x) (\<lambda>_. each f xs)"

named_theorems op_simps \<open>how an operation that returned got there\<close>

lemma ret_Inr [op_simps]: "ret x s = (s', Inr y) \<longleftrightarrow> s' = s \<and> y = x"
  by (auto simp: ret_def)

lemma raise_Inr [op_simps]: "raise e s = (s', Inr y) \<longleftrightarrow> False"
  by (simp add: raise_def)

lemma bnd_Inr [op_simps]:
  "bnd m f s = (s', Inr y) \<longleftrightarrow> (\<exists>s1 x. m s = (s1, Inr x) \<and> f x s1 = (s', Inr y))"
  by (auto simp: bnd_def split: prod.splits sum.splits)

lemma map_err_Inr [op_simps]: "map_err g m s = (s', Inr y) \<longleftrightarrow> m s = (s', Inr y)"
  by (auto simp: map_err_def split: prod.splits sum.splits)

text \<open>An operation keeps a property of the state, whether it returns a value or an error.\<close>

definition keeps :: "('s \<Rightarrow> bool) \<Rightarrow> ('s, 'e, 'a) sop \<Rightarrow> bool" where
  "keeps I m = (\<forall>s. I s \<longrightarrow> I (fst (m s)))"

lemma keepsD: "keeps I m \<Longrightarrow> I s \<Longrightarrow> m s = (s', res) \<Longrightarrow> I s'"
  unfolding keeps_def by (metis fst_conv)

lemma keeps_ret [intro!]: "keeps I (ret x)"
  by (simp add: keeps_def ret_def)

lemma keeps_raise [intro!]: "keeps I (raise e)"
  by (simp add: keeps_def raise_def)

lemma keeps_map_err [intro]: "keeps I m \<Longrightarrow> keeps I (map_err g m)"
  by (fastforce simp: keeps_def map_err_def split: prod.splits sum.splits)

lemma keeps_bnd:
  assumes "keeps I m" and "\<And>x s s'. I s \<Longrightarrow> m s = (s', Inr x) \<Longrightarrow> I (fst (f x s'))"
  shows "keeps I (bnd m f)"
  using assms by (fastforce simp: keeps_def bnd_def split: prod.splits sum.splits)

lemma keeps_bnd_all [intro]: "keeps I m \<Longrightarrow> (\<And>x. keeps I (f x)) \<Longrightarrow> keeps I (bnd m f)"
  by (rule keeps_bnd) (auto simp: keeps_def dest: spec intro: keepsD)

lemma keeps_each [intro]: "(\<And>x. x \<in> set xs \<Longrightarrow> keeps I (f x)) \<Longrightarrow> keeps I (each f xs)"
  by (induction xs) auto

section \<open>The interface\<close>

record 's LoginState =
  ls_Get :: "string \<Rightarrow> ('s, port_err, string option) sop"
  ls_Set :: "string \<Rightarrow> string \<Rightarrow> int \<Rightarrow> ('s, port_err, unit) sop"
  ls_SetIfAbsent :: "string \<Rightarrow> string \<Rightarrow> int \<Rightarrow> ('s, port_err, bool) sop"
  ls_Delete :: "string \<Rightarrow> ('s, port_err, unit) sop"
  ls_Add :: "string \<Rightarrow> string \<Rightarrow> int \<Rightarrow> ('s, port_err, unit) sop"
  ls_Remove :: "string \<Rightarrow> string \<Rightarrow> ('s, port_err, unit) sop"
  ls_Members :: "string \<Rightarrow> ('s, port_err, string list) sop"

section \<open>In one process\<close>

record memoryValue =
  mv_value :: string
  mv_expires :: "int option"

record MemoryState =
  ms_values :: "memoryValue table"
  ms_sets :: "string list table"
  ms_setExpiry :: "int table"
  ms_now :: int

definition NewMemoryState :: "int \<Rightarrow> MemoryState" where
  "NewMemoryState now = \<lparr>ms_values = [], ms_sets = [], ms_setExpiry = [], ms_now = now\<rparr>"

definition SetClock :: "int \<Rightarrow> MemoryState \<Rightarrow> MemoryState" where
  "SetClock now m = m\<lparr>ms_now := now\<rparr>"

definition mem_get :: "string \<Rightarrow> MemoryState \<Rightarrow> MemoryState \<times> string option" where
  "mem_get key m =
     (case map_of (ms_values m) key of
        None \<Rightarrow> (m, None)
      | Some held \<Rightarrow>
          (case mv_expires held of
             Some t \<Rightarrow> (if \<not> ms_now m < t then (m\<lparr>ms_values := tdel key (ms_values m)\<rparr>, None)
                        else (m, Some (mv_value held)))
           | None \<Rightarrow> (m, Some (mv_value held))))"

definition mem_set :: "string \<Rightarrow> string \<Rightarrow> int \<Rightarrow> MemoryState \<Rightarrow> MemoryState" where
  "mem_set key val ttl m =
     m\<lparr>ms_values := tput key \<lparr>mv_value = val, mv_expires = (if ttl > 0 then Some (ms_now m + ttl) else None)\<rparr>
         (ms_values m)\<rparr>"

definition Mem_Get :: "string \<Rightarrow> (MemoryState, port_err, string option) sop" where
  "Mem_Get key m = (case mem_get key m of (m', v) \<Rightarrow> (m', Inr v))"

definition Mem_Set :: "string \<Rightarrow> string \<Rightarrow> int \<Rightarrow> (MemoryState, port_err, unit) sop" where
  "Mem_Set key val ttl m = (mem_set key val ttl m, Inr ())"

definition Mem_SetIfAbsent :: "string \<Rightarrow> string \<Rightarrow> int \<Rightarrow> (MemoryState, port_err, bool) sop" where
  "Mem_SetIfAbsent key val ttl m =
     (case mem_get key m of
        (m', Some _) \<Rightarrow> (m', Inr False)
      | (m', None) \<Rightarrow> (mem_set key val ttl m', Inr True))"

definition Mem_Delete :: "string \<Rightarrow> (MemoryState, port_err, unit) sop" where
  "Mem_Delete key m = (m\<lparr>ms_values := tdel key (ms_values m)\<rparr>, Inr ())"

definition Mem_Add :: "string \<Rightarrow> string \<Rightarrow> int \<Rightarrow> (MemoryState, port_err, unit) sop" where
  "Mem_Add key member ttl m =
     (let m1 = m\<lparr>ms_sets := tput key (List.insert member (tget [] (ms_sets m) key)) (ms_sets m)\<rparr>
      in (if ttl > 0 then m1\<lparr>ms_setExpiry := tput key (ms_now m + ttl) (ms_setExpiry m1)\<rparr> else m1, Inr ()))"

definition Mem_Remove :: "string \<Rightarrow> string \<Rightarrow> (MemoryState, port_err, unit) sop" where
  "Mem_Remove key member m =
     (let left = removeAll member (tget [] (ms_sets m) key)
      in (if left = []
          then m\<lparr>ms_sets := tdel key (ms_sets m), ms_setExpiry := tdel key (ms_setExpiry m)\<rparr>
          else m\<lparr>ms_sets := tput key left (ms_sets m)\<rparr>, Inr ()))"

definition mem_set_ended :: "MemoryState \<Rightarrow> string \<Rightarrow> bool" where
  "mem_set_ended m key =
     (case map_of (ms_setExpiry m) key of None \<Rightarrow> False | Some t \<Rightarrow> \<not> ms_now m < t)"

definition Mem_Members :: "string \<Rightarrow> (MemoryState, port_err, string list) sop" where
  "Mem_Members key m =
     (if mem_set_ended m key
      then (m\<lparr>ms_sets := tdel key (ms_sets m), ms_setExpiry := tdel key (ms_setExpiry m)\<rparr>, Inr [])
      else (m, Inr (sort (tget [] (ms_sets m) key))))"

definition Mem_Keys :: "MemoryState \<Rightarrow> string list" where
  "Mem_Keys m = tkeys (ms_values m)"

definition memory_state :: "MemoryState LoginState" where
  "memory_state = \<lparr>ls_Get = Mem_Get, ls_Set = Mem_Set, ls_SetIfAbsent = Mem_SetIfAbsent, ls_Delete = Mem_Delete,
     ls_Add = Mem_Add, ls_Remove = Mem_Remove, ls_Members = Mem_Members\<rparr>"

section \<open>Over the storage ports\<close>

record 's IndexPort =
  ip_Add :: "string \<Rightarrow> string \<Rightarrow> int \<Rightarrow> ('s, port_err, unit) sop"
  ip_Remove :: "string \<Rightarrow> string \<Rightarrow> ('s, port_err, unit) sop"
  ip_Members :: "string \<Rightarrow> ('s, port_err, string list) sop"

definition Port_Get :: "'s StatePort \<Rightarrow> string \<Rightarrow> ('s, port_err, string option) sop" where
  "Port_Get P key s =
     (s, case sp_Get P key s of
           Inl e \<Rightarrow> (if e = ErrNotFound then Inr None else Inl e) | Inr (v, _) \<Rightarrow> Inr (Some v))"

definition Port_Set :: "'s StatePort \<Rightarrow> string \<Rightarrow> string \<Rightarrow> int \<Rightarrow> ('s, port_err, unit) sop" where
  "Port_Set P key val ttl s =
     (case sp_Put P key val ttl s of (s', Inl e) \<Rightarrow> (s', Inl e) | (s', Inr _) \<Rightarrow> (s', Inr ()))"

definition Port_SetIfAbsent :: "'s StatePort \<Rightarrow> string \<Rightarrow> string \<Rightarrow> int \<Rightarrow> ('s, port_err, bool) sop" where
  "Port_SetIfAbsent P key val ttl s =
     (case sp_Create P key val ttl s of
        (s', Inl e) \<Rightarrow> (s', if e = ErrExists then Inr False else Inl e)
      | (s', Inr _) \<Rightarrow> (s', Inr True))"

definition Port_Delete :: "'s StatePort \<Rightarrow> string \<Rightarrow> ('s, port_err, unit) sop" where
  "Port_Delete P key s = (case sp_Delete P key s of (s', None) \<Rightarrow> (s', Inr ()) | (s', Some e) \<Rightarrow> (s', Inl e))"

definition NewPortState :: "'s StatePort \<Rightarrow> 's IndexPort \<Rightarrow> 's LoginState" where
  "NewPortState P X = \<lparr>ls_Get = Port_Get P, ls_Set = Port_Set P, ls_SetIfAbsent = Port_SetIfAbsent P,
     ls_Delete = Port_Delete P, ls_Add = ip_Add X, ls_Remove = ip_Remove X, ls_Members = ip_Members X\<rparr>"

definition memory_index :: "Store IndexPort" where
  "memory_index = \<lparr>ip_Add = (\<lambda>key member ttl s. (Index_Add key member ttl s, Inr ())),
     ip_Remove = (\<lambda>key member s. (Index_Remove key member s, Inr ())),
     ip_Members = (\<lambda>key s. (s, Inr (Index_Members key s)))\<rparr>"

section \<open>What a client may rely on\<close>

record View =
  vw_now :: int
  vw_val :: "string \<Rightarrow> (string \<times> int option) option"
  vw_set :: "string \<Rightarrow> string set \<times> int option"

definition ending :: "int \<Rightarrow> int \<Rightarrow> int option" where
  "ending now ttl = (if ttl > 0 then Some (now + ttl) else None)"

text \<open>A set nobody is in has no end of its own.\<close>

definition norm_set :: "string set \<Rightarrow> int option \<Rightarrow> string set \<times> int option" where
  "norm_set M e = (if M = {} then ({}, None) else (M, e))"

text \<open>What is left of a view at a later instant.\<close>

definition view_later :: "int \<Rightarrow> View \<Rightarrow> View" where
  "view_later d v =
     \<lparr>vw_now = vw_now v + d,
      vw_val = (\<lambda>k. case vw_val v k of
         None \<Rightarrow> None | Some (x, e) \<Rightarrow> (if unexpired (vw_now v + d) e then Some (x, e) else None)),
      vw_set = (\<lambda>k. case vw_set v k of
         (M, e) \<Rightarrow> (if unexpired (vw_now v + d) e then (M, e) else ({}, None)))\<rparr>"

locale login_state =
  fixes L :: "'s LoginState"
    and ok :: "'s \<Rightarrow> bool"
    and view :: "'s \<Rightarrow> View"
    and wait :: "int \<Rightarrow> 's \<Rightarrow> 's"
  assumes live_val: "ok s \<Longrightarrow> vw_val (view s) k = Some (x, e) \<Longrightarrow> unexpired (vw_now (view s)) e"
    and live_set: "ok s \<Longrightarrow> vw_set (view s) k = (M, e) \<Longrightarrow> unexpired (vw_now (view s)) e"
    and on_error: "ok s \<Longrightarrow> (\<exists>f. f \<in> {ls_Set L k x ttl, ls_Delete L k, ls_Add L k x ttl, ls_Remove L k x} \<and> f s = (s', Inl err))
        \<Longrightarrow> ok s' \<and> view s' = view s"
    and get_law: "ok s \<Longrightarrow> ls_Get L k s = (s', res) \<Longrightarrow>
        ok s' \<and> view s' = view s \<and> res = Inr (map_option fst (vw_val (view s) k))"
    and set_law: "ok s \<Longrightarrow> ls_Set L k x ttl s = (s', Inr u) \<Longrightarrow>
        ok s' \<and> view s' = (view s)\<lparr>vw_val := (vw_val (view s))(k \<mapsto> (x, ending (vw_now (view s)) ttl))\<rparr>"
    and set_if_absent_law: "ok s \<Longrightarrow> ls_SetIfAbsent L k x ttl s = (s', claimed) \<Longrightarrow>
        ok s' \<and> (case claimed of
            Inl _ \<Rightarrow> view s' = view s
          | Inr False \<Rightarrow> vw_val (view s) k \<noteq> None \<and> view s' = view s
          | Inr True \<Rightarrow> vw_val (view s) k = None
              \<and> view s' = (view s)\<lparr>vw_val := (vw_val (view s))(k \<mapsto> (x, ending (vw_now (view s)) ttl))\<rparr>)"
    and delete_law: "ok s \<Longrightarrow> ls_Delete L k s = (s', Inr u) \<Longrightarrow>
        ok s' \<and> view s' = (view s)\<lparr>vw_val := (vw_val (view s))(k := None)\<rparr>"
    and add_law: "ok s \<Longrightarrow> 0 < ttl \<Longrightarrow> ls_Add L k x ttl s = (s', Inr u) \<Longrightarrow>
        ok s' \<and> (\<exists>M. insert x (fst (vw_set (view s) k)) \<subseteq> M
          \<and> view s' = (view s)\<lparr>vw_set := (vw_set (view s))(k := (M, ending (vw_now (view s)) ttl))\<rparr>)"
    and remove_law: "ok s \<Longrightarrow> ls_Remove L k x s = (s', Inr u) \<Longrightarrow>
        ok s' \<and> view s' = (view s)\<lparr>vw_set := (vw_set (view s))
          (k := norm_set (fst (vw_set (view s) k) - {x}) (snd (vw_set (view s) k)))\<rparr>"
    and members_law: "ok s \<Longrightarrow> ls_Members L k s = (s', listed) \<Longrightarrow>
        ok s' \<and> view s' = view s \<and> (\<exists>ms. listed = Inr ms \<and> set ms = fst (vw_set (view s) k))"
    and wait_law: "ok s \<Longrightarrow> 0 \<le> d \<Longrightarrow> ok (wait d s) \<and> view (wait d s) = view_later d (view s)"

section \<open>The process-local store refines it\<close>

definition memory_view :: "MemoryState \<Rightarrow> View" where
  "memory_view m =
     \<lparr>vw_now = ms_now m,
      vw_val = (\<lambda>k. case map_of (ms_values m) k of
         None \<Rightarrow> None
       | Some h \<Rightarrow> (if unexpired (ms_now m) (mv_expires h) then Some (mv_value h, mv_expires h) else None)),
      vw_set = (\<lambda>k. if mem_set_ended m k then ({}, None)
         else norm_set (set (tget [] (ms_sets m) k)) (map_of (ms_setExpiry m) k))\<rparr>"

definition memory_wait :: "int \<Rightarrow> MemoryState \<Rightarrow> MemoryState" where
  "memory_wait d m = SetClock (ms_now m + d) m"

lemmas memory_defs = memory_state_def Mem_Get_def Mem_Set_def Mem_SetIfAbsent_def Mem_Delete_def Mem_Add_def
  Mem_Remove_def Mem_Members_def Let_def

lemma view_eqI:
  "vw_now v = vw_now w \<Longrightarrow> vw_val v = vw_val w \<Longrightarrow> vw_set v = vw_set w \<Longrightarrow> (v :: View) = w"
  by simp

lemma mem_get_law:
  "mem_get k m = (m', v) \<Longrightarrow> memory_view m' = memory_view m \<and> v = map_option fst (vw_val (memory_view m) k)"
  by (auto simp: mem_get_def memory_view_def mem_set_ended_def unexpired_def fun_eq_iff
      split: option.splits if_splits)

lemma mem_set_law:
  "memory_view (mem_set k x ttl m) =
     (memory_view m)\<lparr>vw_val := (vw_val (memory_view m))(k \<mapsto> (x, ending (vw_now (memory_view m)) ttl))\<rparr>"
  by (auto simp: mem_set_def memory_view_def mem_set_ended_def unexpired_def ending_def fun_eq_iff
      split: option.splits if_splits)

lemma mem_sets_law:
  assumes "\<And>j. j \<noteq> k \<Longrightarrow> map_of S j = map_of (ms_sets m) j" and "\<And>j. j \<noteq> k \<Longrightarrow> map_of E j = map_of (ms_setExpiry m) j"
  shows "memory_view (m\<lparr>ms_sets := S, ms_setExpiry := E\<rparr>) =
    (memory_view m)\<lparr>vw_set := (vw_set (memory_view m))
       (k := vw_set (memory_view (m\<lparr>ms_sets := S, ms_setExpiry := E\<rparr>)) k)\<rparr>"
  using assms by (auto simp: memory_view_def mem_set_ended_def tget_def fun_eq_iff cong: option.case_cong if_cong)

lemma mem_drop_law:
  "memory_view (m\<lparr>ms_sets := tdel k (ms_sets m), ms_setExpiry := tdel k (ms_setExpiry m)\<rparr>) =
    (memory_view m)\<lparr>vw_set := (vw_set (memory_view m))(k := ({}, None))\<rparr>"
  by (subst mem_sets_law [where k = k]) (simp_all, simp add: memory_view_def mem_set_ended_def tget_def norm_set_def)

lemma mem_add_law:
  assumes "0 < ttl"
  shows "\<exists>M. insert x (fst (vw_set (memory_view m) k)) \<subseteq> M
    \<and> memory_view (fst (Mem_Add k x ttl m)) =
        (memory_view m)\<lparr>vw_set := (vw_set (memory_view m))(k := (M, ending (vw_now (memory_view m)) ttl))\<rparr>"
proof (intro exI conjI)
  show "insert x (fst (vw_set (memory_view m) k)) \<subseteq> insert x (set (tget [] (ms_sets m) k))"
    by (auto simp: memory_view_def norm_set_def split: if_splits)
  show "memory_view (fst (Mem_Add k x ttl m)) = (memory_view m)\<lparr>vw_set := (vw_set (memory_view m))
      (k := (insert x (set (tget [] (ms_sets m) k)), ending (vw_now (memory_view m)) ttl))\<rparr>"
    using assms by (simp add: Mem_Add_def)
      (subst mem_sets_law [where k = k], simp_all, simp add: memory_view_def mem_set_ended_def tget_def norm_set_def ending_def)
qed

lemma mem_remove_law:
  "memory_view (fst (Mem_Remove k x m)) = (memory_view m)\<lparr>vw_set := (vw_set (memory_view m))
     (k := norm_set (fst (vw_set (memory_view m) k) - {x}) (snd (vw_set (memory_view m) k)))\<rparr>"
proof (cases "removeAll x (tget [] (ms_sets m) k) = []")
  case True
  then have "set (tget [] (ms_sets m) k) - {x} = {}" by (metis set_removeAll set_empty)
  then have "fst (vw_set (memory_view m) k) - {x} = {}" by (auto simp: memory_view_def norm_set_def)
  then show ?thesis using True by (simp add: Mem_Remove_def mem_drop_law norm_set_def)
next
  case False
  let ?S = "tput k (removeAll x (tget [] (ms_sets m) k)) (ms_sets m)"
  have "memory_view (m\<lparr>ms_sets := ?S\<rparr>) = memory_view (m\<lparr>ms_sets := ?S, ms_setExpiry := ms_setExpiry m\<rparr>)" by simp
  moreover have "vw_set (memory_view (m\<lparr>ms_sets := ?S, ms_setExpiry := ms_setExpiry m\<rparr>)) k =
      norm_set (fst (vw_set (memory_view m) k) - {x}) (snd (vw_set (memory_view m) k))"
    using False by (auto simp: memory_view_def mem_set_ended_def norm_set_def tget_def split: option.splits)
  ultimately show ?thesis using False mem_sets_law [of k ?S m "ms_setExpiry m"] by (simp add: Mem_Remove_def)
qed

lemma norm_set_unexpired: "(\<And>t. e = Some t \<Longrightarrow> now < t) \<Longrightarrow> unexpired now (snd (norm_set M e))"
  by (auto simp: norm_set_def unexpired_def split: option.splits)

interpretation ms: login_state memory_state "\<lambda>_. True" memory_view memory_wait
proof unfold_locales
  show "unexpired (vw_now (memory_view s)) e" if "vw_val (memory_view s) k = Some (x, e)" for s k x e
    using that by (auto simp: memory_view_def split: option.splits if_splits)
  show "unexpired (vw_now (memory_view s)) e" if "vw_set (memory_view s) k = (M, e)" for s k M e
    using that norm_set_unexpired [of "map_of (ms_setExpiry s) k" "ms_now s" "set (tget [] (ms_sets s) k)"]
    by (auto simp: memory_view_def mem_set_ended_def unexpired_def split: if_splits option.splits)
  show "True \<and> memory_view s' = memory_view s \<and> (\<exists>ms. res = Inr ms \<and> set ms = fst (vw_set (memory_view s) k))"
    if "ls_Members memory_state k s = (s', res)" for k s s' res
    using that fun_upd_triv [of "vw_set (memory_view s)" k]
    by (auto simp: memory_defs mem_drop_law split: if_splits) (auto simp: memory_view_def norm_set_def split: if_splits)
  show "True \<and> memory_view (memory_wait d s) = view_later d (memory_view s)" if "0 \<le> d" for d s
    using that by (auto simp: memory_wait_def SetClock_def memory_view_def view_later_def mem_set_ended_def norm_set_def
        unexpired_def fun_eq_iff split: option.splits)
  show "True \<and> memory_view s' = memory_view s \<and> res = Inr (map_option fst (vw_val (memory_view s) k))"
    if "ls_Get memory_state k s = (s', res)" for k s s' res
    using that mem_get_law [of k s] by (auto simp: memory_defs split: prod.splits)
  show "True \<and> (case res of
            Inl _ \<Rightarrow> memory_view s' = memory_view s
          | Inr False \<Rightarrow> vw_val (memory_view s) k \<noteq> None \<and> memory_view s' = memory_view s
          | Inr True \<Rightarrow> vw_val (memory_view s) k = None
              \<and> memory_view s' = (memory_view s)\<lparr>vw_val := (vw_val (memory_view s))(k \<mapsto> (x, ending (vw_now (memory_view s)) ttl))\<rparr>)"
    if "ls_SetIfAbsent memory_state k x ttl s = (s', res)" for k x ttl s s' res
    using that mem_get_law [of k s] by (auto simp: memory_defs mem_set_law split: prod.splits option.splits)
  show "True \<and> memory_view s' = (memory_view s)\<lparr>vw_val := (vw_val (memory_view s))(k := None)\<rparr>"
    if "ls_Delete memory_state k s = (s', Inr u)" for k s s' u
    using that by (auto simp: memory_defs memory_view_def mem_set_ended_def fun_eq_iff cong: option.case_cong if_cong)
  show "True \<and> (\<exists>M. insert x (fst (vw_set (memory_view s) k)) \<subseteq> M
          \<and> memory_view s' = (memory_view s)\<lparr>vw_set := (vw_set (memory_view s))(k := (M, ending (vw_now (memory_view s)) ttl))\<rparr>)"
    if "0 < ttl" "ls_Add memory_state k x ttl s = (s', Inr u)" for ttl k x s s' u
    using that mem_add_law [of ttl x s k] by (auto simp: memory_state_def)
  show "True \<and> memory_view s' = (memory_view s)\<lparr>vw_set := (vw_set (memory_view s))
          (k := norm_set (fst (vw_set (memory_view s) k) - {x}) (snd (vw_set (memory_view s) k)))\<rparr>"
    if "ls_Remove memory_state k x s = (s', Inr u)" for k x s s' u
    using that mem_remove_law [of k x s] by (auto simp: memory_state_def)
qed (auto simp: memory_defs mem_set_law)

section \<open>The ports refine it\<close>

definition store_view :: "Store \<Rightarrow> View" where
  "store_view s =
     \<lparr>vw_now = st_now s,
      vw_val = (\<lambda>k. map_option (\<lambda>e. (e_value e, e_expires e)) (liveEntry s k)),
      vw_set = (\<lambda>k. case live_set s k of
         None \<Rightarrow> ({}, None) | Some m \<Rightarrow> norm_set (set (s_members m)) (s_expires m))\<rparr>"

definition sets_ok :: "Store \<Rightarrow> bool" where
  "sets_ok s = distinct (map fst (st_sets s))"

lemma distinct_tput: "distinct (map fst m) \<Longrightarrow> distinct (map fst (tput k v m))"
  by (simp add: tput_def distinct_update)

lemma store_write_view:
  assumes "CheckWrite k x ttl = None"
  shows "store_view (fst (Store_write k x ttl s)) =
    (store_view s)\<lparr>vw_val := (vw_val (store_view s))(k \<mapsto> (x, ending (vw_now (store_view s)) ttl))\<rparr>"
  using CheckWrite_live [OF assms, of "st_now s"]
  by (auto simp: store_view_def Store_write_def Let_def emitLocked_def liveEntry_def Store_live_def Store_expiry_def
      ending_def live_set_def unexpired_def fun_eq_iff cong: option.case_cong if_cong)

lemma delete_view: "store_view (deleteLocked k s) = (store_view s)\<lparr>vw_val := (vw_val (store_view s))(k := None)\<rparr>"
  by (auto simp: store_view_def deleteLocked_def emitLocked_def liveEntry_def Store_live_def live_set_def fun_eq_iff
      split: option.splits cong: if_cong)

lemma write_sets: "st_sets (fst (Store_write k x ttl s)) = st_sets s"
  by (simp add: Store_write_def Let_def emitLocked_def)

lemma delete_sets: "st_sets (deleteLocked k s) = st_sets s"
  by (simp add: deleteLocked_def emitLocked_def split: option.splits)

lemma sweep_view: "store_view (sweep_key k s) = store_view s"
proof -
  have "vw_val (store_view s) k = None" if "map_of (st_records s) k = Some e" "\<not> Store_live s e" for e
    using that by (simp add: store_view_def liveEntry_def)
  then show ?thesis
    using fun_upd_idem [of "vw_val (store_view s)" k None]
    by (auto simp: sweep_key_def delete_view split: option.splits)
qed

lemma sweep_sets: "st_sets (sweep_key k s) = st_sets s"
  by (simp add: sweep_key_def delete_sets split: option.splits)

lemma sweeps_view: "store_view (fold sweep_key ks s) = store_view s \<and> st_sets (fold sweep_key ks s) = st_sets s"
  by (induction ks arbitrary: s) (simp_all add: sweep_view sweep_sets)

lemma map_of_filter_sets:
  "distinct (map fst m) \<Longrightarrow> map_of (filter (\<lambda>(k, v). P v) m) k = (case map_of m k of None \<Rightarrow> None | Some v \<Rightarrow> if P v then Some v else None)"
  by (induction m) (auto split: option.splits simp: image_iff map_of_eq_None_iff)

lemma set_filter_view:
  assumes "sets_ok s"
  shows "store_view (s\<lparr>st_sets := filter (\<lambda>(k, m). unexpired (st_now s) (s_expires m)) (st_sets s)\<rparr>) = store_view s"
  using assms
  by (auto simp: store_view_def live_set_def liveEntry_def Store_live_def sets_ok_def map_of_filter_sets fun_eq_iff
      split: option.splits cong: option.case_cong if_cong)

lemma advance_view:
  assumes "sets_ok s" and "0 \<le> d"
  shows "sets_ok (Store_Advance d s) \<and> store_view (Store_Advance d s) = view_later d (store_view s)"
proof -
  let ?t = "s\<lparr>st_now := st_now s + d\<rparr>"
  let ?u = "fold sweep_key (tkeys (st_records ?t)) ?t"
  have u: "store_view ?u = store_view ?t" "st_sets ?u = st_sets s" using sweeps_view [of _ ?t] by auto
  have okU: "sets_ok ?u" using assms(1) u(2) by (simp add: sets_ok_def)
  have "store_view (Store_Advance d s) = store_view ?t"
    using set_filter_view [OF okU] u(1) by (simp add: Store_Advance_def sweepLocked_def Let_def)
  moreover have "store_view ?t = view_later d (store_view s)"
    using assms(2) by (auto simp: store_view_def view_later_def liveEntry_def Store_live_def live_set_def unexpired_def norm_set_def
        fun_eq_iff split: option.splits)
  moreover have "sets_ok (Store_Advance d s)"
    using okU by (simp add: Store_Advance_def sweepLocked_def Let_def sets_ok_def distinct_map inj_on_def)
  ultimately show ?thesis by simp
qed

lemma CheckWrite_not_exists: "CheckWrite k x ttl \<noteq> Some ErrExists"
  using first_some_Some [of "[guard_err (int (length x) > MaxValue) ErrTooLarge,
      guard_err (ttl < 0 \<or> (ttl = 0 \<and> \<not> Permanent k)) ErrNoLifetime]" ErrExists]
  by (auto simp: CheckWrite_def guard_err_def split: if_splits)

lemma insert_not_Nil: "List.insert x xs \<noteq> []"
  by (simp add: List.insert_def) auto

lemma removeAll_Nil_iff: "removeAll x xs = [] \<longleftrightarrow> set xs \<subseteq> {x}"
  by (induction xs) auto

lemma index_add_view:
  assumes "0 < ttl"
  shows "\<exists>M. insert x (fst (vw_set (store_view s) k)) \<subseteq> M \<and> store_view (Index_Add k x ttl s) =
     (store_view s)\<lparr>vw_set := (vw_set (store_view s))(k := (M, ending (vw_now (store_view s)) ttl))\<rparr>"
proof (intro exI conjI)
  show "insert x (fst (vw_set (store_view s) k)) \<subseteq> insert x (fst (vw_set (store_view s) k))" ..
  show "store_view (Index_Add k x ttl s) = (store_view s)\<lparr>vw_set := (vw_set (store_view s))
     (k := (insert x (fst (vw_set (store_view s) k)), ending (vw_now (store_view s)) ttl))\<rparr>"
    using assms
    by (auto simp: store_view_def Index_Add_def Let_def live_set_def liveEntry_def Store_live_def Store_expiry_def
        ending_def norm_set_def unexpired_def insert_not_Nil fun_eq_iff split: option.splits cong: option.case_cong if_cong)
qed

lemma index_remove_view:
  "store_view (Index_Remove k x s) = (store_view s)\<lparr>vw_set := (vw_set (store_view s))
     (k := norm_set (fst (vw_set (store_view s) k) - {x}) (snd (vw_set (store_view s) k)))\<rparr>"
  by (auto simp: store_view_def Index_Remove_def live_set_def liveEntry_def Store_live_def norm_set_def
      removeAll_Nil_iff fun_eq_iff split: option.splits cong: option.case_cong if_cong)

lemma index_keeps_ok:
  "store_ok (Index_Add k x ttl s) = store_ok s" "store_ok (Index_Remove k x s) = store_ok s"
  "sets_ok s \<Longrightarrow> sets_ok (Index_Add k x ttl s)" "sets_ok s \<Longrightarrow> sets_ok (Index_Remove k x s)"
  by (auto simp: Index_Add_def Index_Remove_def Let_def sets_ok_def distinct_tput split: option.splits)

lemmas port_defs = NewPortState_def Port_Get_def Port_Set_def Port_SetIfAbsent_def Port_Delete_def memory_index_def

lemma store_write_kept:
  assumes "CheckWrite k x ttl = None" and "store_ok s" and "sets_ok s"
  shows "store_ok (fst (Store_write k x ttl s)) \<and> sets_ok (fst (Store_write k x ttl s))"
  using Store_write_laws [OF assms(1,2), of "fst (Store_write k x ttl s)" "snd (Store_write k x ttl s)"] assms(3)
  by (simp add: sets_ok_def write_sets)

interpretation ps: login_state "NewPortState memory_port memory_index" "\<lambda>s. store_ok s \<and> sets_ok s" store_view Store_Advance
proof unfold_locales
  fix s k x e
  show "unexpired (vw_now (store_view s)) e" if "vw_val (store_view s) k = Some (x, e)"
    using that by (auto simp: store_view_def liveEntry_def Store_live_def split: option.splits if_splits)
next
  fix s k M e
  show "unexpired (vw_now (store_view s)) e" if "vw_set (store_view s) k = (M, e)"
    using that by (auto simp: store_view_def live_set_def norm_set_def unexpired_def split: option.splits if_splits)
next
  fix s s' k x ttl err
  assume "store_ok s \<and> sets_ok s" and "\<exists>f. f \<in> {ls_Set (NewPortState memory_port memory_index) k x ttl,
     ls_Delete (NewPortState memory_port memory_index) k, ls_Add (NewPortState memory_port memory_index) k x ttl,
     ls_Remove (NewPortState memory_port memory_index) k x} \<and> f s = (s', Inl err)"
  then show "(store_ok s' \<and> sets_ok s') \<and> store_view s' = store_view s"
    by (auto simp: port_defs store_defs split: prod.splits sum.splits option.splits)
next
  fix s s' k res
  assume "store_ok s \<and> sets_ok s" and "ls_Get (NewPortState memory_port memory_index) k s = (s', res)"
  then show "(store_ok s' \<and> sets_ok s') \<and> store_view s' = store_view s
      \<and> res = Inr (map_option fst (vw_val (store_view s) k))"
    by (auto simp: port_defs store_defs store_view_def split: option.splits)
next
  fix s s' k x ttl u
  assume "store_ok s \<and> sets_ok s" and "ls_Set (NewPortState memory_port memory_index) k x ttl s = (s', Inr u)"
  then show "(store_ok s' \<and> sets_ok s') \<and> store_view s' =
      (store_view s)\<lparr>vw_val := (vw_val (store_view s))(k \<mapsto> (x, ending (vw_now (store_view s)) ttl))\<rparr>"
    using store_write_view [of k x ttl s] store_write_kept [of k x ttl s]
    by (auto simp: port_defs store_defs split: prod.splits sum.splits option.splits)
next
  fix s s' k x ttl res
  assume "store_ok s \<and> sets_ok s" and "ls_SetIfAbsent (NewPortState memory_port memory_index) k x ttl s = (s', res)"
  then show "(store_ok s' \<and> sets_ok s') \<and> (case res of
            Inl _ \<Rightarrow> store_view s' = store_view s
          | Inr False \<Rightarrow> vw_val (store_view s) k \<noteq> None \<and> store_view s' = store_view s
          | Inr True \<Rightarrow> vw_val (store_view s) k = None \<and> store_view s' =
              (store_view s)\<lparr>vw_val := (vw_val (store_view s))(k \<mapsto> (x, ending (vw_now (store_view s)) ttl))\<rparr>)"
    using store_write_view [of k x ttl s] store_write_kept [of k x ttl s]
    by (cases "CheckWrite k x ttl"; cases "liveEntry s k"; cases "Store_write k x ttl s")
      (auto simp: port_defs store_defs store_view_def CheckWrite_not_exists)
next
  fix s s' k u
  assume "store_ok s \<and> sets_ok s" and "ls_Delete (NewPortState memory_port memory_index) k s = (s', Inr u)"
  then show "(store_ok s' \<and> sets_ok s') \<and> store_view s' = (store_view s)\<lparr>vw_val := (vw_val (store_view s))(k := None)\<rparr>"
    by (auto simp: port_defs store_defs delete_view deleteLocked_laws sets_ok_def delete_sets)
next
  fix s s' ttl k x u
  assume "store_ok s \<and> sets_ok s" and "0 < ttl" and "ls_Add (NewPortState memory_port memory_index) k x ttl s = (s', Inr u)"
  then show "(store_ok s' \<and> sets_ok s') \<and> (\<exists>M. insert x (fst (vw_set (store_view s) k)) \<subseteq> M \<and> store_view s' =
      (store_view s)\<lparr>vw_set := (vw_set (store_view s))(k := (M, ending (vw_now (store_view s)) ttl))\<rparr>)"
    using index_add_view [of ttl x s k] by (auto simp: port_defs index_keeps_ok)
next
  fix s s' k x u
  assume "store_ok s \<and> sets_ok s" and "ls_Remove (NewPortState memory_port memory_index) k x s = (s', Inr u)"
  then show "(store_ok s' \<and> sets_ok s') \<and> store_view s' = (store_view s)\<lparr>vw_set := (vw_set (store_view s))
          (k := norm_set (fst (vw_set (store_view s) k) - {x}) (snd (vw_set (store_view s) k)))\<rparr>"
    by (auto simp: port_defs index_keeps_ok index_remove_view)
next
  fix s s' k res
  assume "store_ok s \<and> sets_ok s" and "ls_Members (NewPortState memory_port memory_index) k s = (s', res)"
  then show "(store_ok s' \<and> sets_ok s') \<and> store_view s' = store_view s
      \<and> (\<exists>ms. res = Inr ms \<and> set ms = fst (vw_set (store_view s) k))"
    by (auto simp: port_defs Index_Members_def store_view_def norm_set_def split: option.splits if_splits)
next
  fix s d
  assume "store_ok s \<and> sets_ok s" and "(0 :: int) \<le> d"
  then show "(store_ok (Store_Advance d s) \<and> sets_ok (Store_Advance d s)) \<and> store_view (Store_Advance d s) = view_later d (store_view s)"
    using Store_Advance_laws(1) advance_view by blast
qed

abbreviation port_state :: "Store LoginState" where
  "port_state \<equiv> NewPortState memory_port memory_index"

end
