(* ===== verification/Sessions.thy ===== *)
theory Sessions
  imports Login_State
begin

text \<open>
  The issuer's sessions, \<open>src/internal/issuer/session.go\<close>: the index beside the refresh tokens, over the
  interface of \<open>Login_State\<close>. Every operation is given the instant \<open>now\<close> it runs at and, where the code
  draws one, the new identifier. A time is a number of nanoseconds, the zero time is \<^const>\<open>None\<close>. The
  JSON form of a record (\<open>marshal\<close>, \<open>unmarshal\<close>) and the hexadecimal SHA-256 of a token (\<open>digest\<close>) are
  parameters held in \<open>Sessions\<close>; what is relied on is that \<open>unmarshal\<close> reads back what \<open>marshal\<close> wrote, and
  that the tokens a theorem speaks of have different digests.
\<close>

section \<open>Data\<close>

datatype How = HowCode | HowDevice | HowExchange

record Session =
  ses_ID :: string
  ses_Identity :: string
  ses_ClientID :: string
  ses_How :: How
  ses_Scopes :: "string list"
  ses_Resource :: string
  ses_SSO :: string
  ses_AuthTime :: "int option"
  ses_IssuedAt :: int
  ses_ExpiresAt :: int
  ses_LastRefreshed :: "int option"

definition Live :: "Session \<Rightarrow> int \<Rightarrow> bool" where
  "Live s now = (now < ses_ExpiresAt s)"

record 's Sessions =
  ss_state :: "'s LoginState"
  ss_lifetime :: int
  ss_absolute :: int
  ss_resolve :: "(string list \<Rightarrow> int) option"
  ss_marshal :: "Session \<Rightarrow> string"
  ss_unmarshal :: "string \<Rightarrow> Session option"
  ss_digest :: "string \<Rightarrow> string"

datatype sess_err =
    StateErr port_err
  | NotReadable string
  | AlreadyExpired string
  | SubstringNamesSessionsToList

definition NewSessions ::
  "'s LoginState \<Rightarrow> (Session \<Rightarrow> string) \<Rightarrow> (string \<Rightarrow> Session option) \<Rightarrow> (string \<Rightarrow> string) \<Rightarrow> int \<Rightarrow> int \<Rightarrow> 's Sessions" where
  "NewSessions state marshal unmarshal digest lifetime absolute =
     \<lparr>ss_state = state, ss_lifetime = lifetime, ss_absolute = absolute, ss_resolve = None,
      ss_marshal = marshal, ss_unmarshal = unmarshal, ss_digest = digest\<rparr>"

definition SetAbsoluteResolver :: "(string list \<Rightarrow> int) \<Rightarrow> 's Sessions \<Rightarrow> 's Sessions" where
  "SetAbsoluteResolver resolve S = S\<lparr>ss_resolve := Some resolve\<rparr>"

definition absoluteOf :: "'s Sessions \<Rightarrow> string list \<Rightarrow> int" where
  "absoluteOf S touched = (case ss_resolve S of None \<Rightarrow> ss_absolute S | Some resolve \<Rightarrow> resolve touched)"

definition pastLimit :: "'s Sessions \<Rightarrow> int \<Rightarrow> Session \<Rightarrow> bool" where
  "pastLimit S now session =
     (let absolute = absoluteOf S [ses_Resource session]
      in case ses_AuthTime session of
           None \<Rightarrow> False
         | Some auth \<Rightarrow> (if absolute \<le> 0 then False else \<not> now < auth + absolute))"

definition sessionKey :: "string \<Rightarrow> string" where
  "sessionKey sid = ''issuer:session:'' @ sid"

definition sessionOfKey :: "string \<Rightarrow> string" where
  "sessionOfKey identity = ''issuer:sessions-of:'' @ to_lower identity"

definition sessionForKey :: "string \<Rightarrow> string" where
  "sessionForKey clientID = ''issuer:sessions-for:'' @ clientID"

definition sessionTokenKey :: "'s Sessions \<Rightarrow> string \<Rightarrow> string" where
  "sessionTokenKey S token = ''issuer:session-token:'' @ ss_digest S token"

definition sessionRotatedKey :: "'s Sessions \<Rightarrow> string \<Rightarrow> string" where
  "sessionRotatedKey S token = ''issuer:session-rotated:'' @ ss_digest S token"

definition sessionAllKey :: string where
  "sessionAllKey = ''issuer:sessions''"

definition capEnd :: "int \<Rightarrow> int option \<Rightarrow> int \<Rightarrow> int \<Rightarrow> int" where
  "capEnd now authTime refresh absolute =
     (let end = now + refresh
      in case authTime of
           None \<Rightarrow> end
         | Some auth \<Rightarrow> (if absolute \<le> 0 then end
              else let limit = auth + absolute in if limit < end then limit else end))"

definition refreshGrace :: int where
  "refreshGrace = 30 * 1000000000"

record Opened =
  op_Identity :: string
  op_ClientID :: string
  op_Resource :: string
  op_How :: How
  op_Token :: string
  op_Scopes :: "string list"
  op_SSO :: string
  op_AuthTime :: "int option"

section \<open>Records\<close>

abbreviation st :: "('s, port_err, 'a) sop \<Rightarrow> ('s, sess_err, 'a) sop" where
  "st \<equiv> map_err StateErr"

definition getJSON :: "'s Sessions \<Rightarrow> string \<Rightarrow> ('s, sess_err, Session option) sop" where
  "getJSON S key = bnd (st (ls_Get (ss_state S) key)) (\<lambda>raw.
     case raw of
       None \<Rightarrow> ret None
     | Some r \<Rightarrow> (case ss_unmarshal S r of None \<Rightarrow> raise (NotReadable key) | Some out \<Rightarrow> ret (Some out)))"

definition setJSON :: "'s Sessions \<Rightarrow> string \<Rightarrow> Session \<Rightarrow> int \<Rightarrow> ('s, sess_err, unit) sop" where
  "setJSON S key val ttl = st (ls_Set (ss_state S) key (ss_marshal S val) ttl)"

definition byID :: "'s Sessions \<Rightarrow> int \<Rightarrow> string \<Rightarrow> ('s, sess_err, Session option) sop" where
  "byID S now sid = bnd (getJSON S (sessionKey sid)) (\<lambda>session.
     case session of
       None \<Rightarrow> ret None
     | Some ses \<Rightarrow> (if \<not> Live ses now then ret None else ret (Some ses)))"

definition put_session :: "'s Sessions \<Rightarrow> int \<Rightarrow> Session \<Rightarrow> ('s, sess_err, unit) sop" where
  "put_session S now session =
     (if \<not> now < ses_ExpiresAt session then raise (AlreadyExpired (ses_ID session))
      else setJSON S (sessionKey (ses_ID session)) session (ss_lifetime S))"

text \<open>The sets a session is listed in.\<close>

definition session_sets :: "Session \<Rightarrow> string list" where
  "session_sets session = [sessionAllKey, sessionOfKey (ses_Identity session), sessionForKey (ses_ClientID session)]"

definition index_session :: "'s Sessions \<Rightarrow> Session \<Rightarrow> ('s, sess_err, unit) sop" where
  "index_session S session =
     each (\<lambda>key. st (ls_Add (ss_state S) key (ses_ID session) (ss_lifetime S))) (session_sets session)"

definition deleteSession :: "'s Sessions \<Rightarrow> Session \<Rightarrow> ('s, sess_err, unit) sop" where
  "deleteSession S session =
     bnd (st (ls_Delete (ss_state S) (sessionKey (ses_ID session)))) (\<lambda>_.
       each (\<lambda>key. st (ls_Remove (ss_state S) key (ses_ID session))) (session_sets session))"

section \<open>Opening and refreshing\<close>

definition opened_session :: "'s Sessions \<Rightarrow> int \<Rightarrow> string \<Rightarrow> Opened \<Rightarrow> Session" where
  "opened_session S now sid p =
     \<lparr>ses_ID = sid, ses_Identity = to_lower (op_Identity p), ses_ClientID = op_ClientID p, ses_How = op_How p,
      ses_Scopes = op_Scopes p, ses_Resource = op_Resource p, ses_SSO = op_SSO p, ses_AuthTime = op_AuthTime p,
      ses_IssuedAt = now,
      ses_ExpiresAt = capEnd now (op_AuthTime p) (ss_lifetime S) (absoluteOf S [op_Resource p]),
      ses_LastRefreshed = None\<rparr>"

definition Record :: "'s Sessions \<Rightarrow> int \<Rightarrow> string \<Rightarrow> Opened \<Rightarrow> ('s, sess_err, Session) sop" where
  "Record S now sid p =
     (let session = opened_session S now sid p
      in bnd (put_session S now session) (\<lambda>_.
         bnd (st (ls_Set (ss_state S) (sessionTokenKey S (op_Token p)) (ses_ID session) (ss_lifetime S))) (\<lambda>_.
         bnd (index_session S session) (\<lambda>_. ret session))))"

definition ByToken :: "'s Sessions \<Rightarrow> int \<Rightarrow> string \<Rightarrow> ('s, sess_err, Session option) sop" where
  "ByToken S now token = bnd (st (ls_Get (ss_state S) (sessionTokenKey S token))) (\<lambda>raw.
     case raw of None \<Rightarrow> ret None | Some sid \<Rightarrow> byID S now sid)"

definition replayed :: "'s Sessions \<Rightarrow> int \<Rightarrow> string \<Rightarrow> ('s, sess_err, (Session \<times> string) option) sop" where
  "replayed S now oldToken = bnd (st (ls_Get (ss_state S) (sessionRotatedKey S oldToken))) (\<lambda>raw.
     case raw of
       None \<Rightarrow> ret None
     | Some successor \<Rightarrow> bnd (ByToken S now successor) (\<lambda>found.
         case found of None \<Rightarrow> ret None | Some session \<Rightarrow> ret (Some (session, successor))))"

text \<open>What \<open>Refreshed\<close> does once it has read the session of the token: everything after its first call.\<close>

definition rotate_session ::
  "'s Sessions \<Rightarrow> int \<Rightarrow> string \<Rightarrow> string \<Rightarrow> Session \<Rightarrow> ('s, sess_err, (Session \<times> string) option) sop" where
  "rotate_session S now oldToken newToken session =
     bnd (st (ls_Delete (ss_state S) (sessionTokenKey S oldToken))) (\<lambda>_.
     bnd (st (ls_Set (ss_state S) (sessionRotatedKey S oldToken) newToken refreshGrace)) (\<lambda>_.
       let session = session\<lparr>ses_LastRefreshed := Some now,
             ses_ExpiresAt := capEnd now (ses_AuthTime session) (ss_lifetime S) (absoluteOf S [ses_Resource session])\<rparr>
       in if \<not> now < ses_ExpiresAt session then bnd (deleteSession S session) (\<lambda>_. ret None)
          else bnd (put_session S now session) (\<lambda>_.
               bnd (st (ls_Set (ss_state S) (sessionTokenKey S newToken) (ses_ID session) (ss_lifetime S))) (\<lambda>_.
               bnd (index_session S session) (\<lambda>_. ret (Some (session, newToken)))))))"

definition Refreshed ::
  "'s Sessions \<Rightarrow> int \<Rightarrow> string \<Rightarrow> string \<Rightarrow> ('s, sess_err, (Session \<times> string) option) sop" where
  "Refreshed S now oldToken newToken = bnd (ByToken S now oldToken) (\<lambda>found.
     case found of
       None \<Rightarrow> replayed S now oldToken
     | Some session \<Rightarrow> rotate_session S now oldToken newToken session)"

definition ByRefreshToken :: "'s Sessions \<Rightarrow> int \<Rightarrow> string \<Rightarrow> ('s, sess_err, Session option) sop" where
  "ByRefreshToken S now token = bnd (ByToken S now token) (\<lambda>found.
     case found of
       Some session \<Rightarrow> ret (Some session)
     | None \<Rightarrow> bnd (replayed S now token) (\<lambda>r. ret (map_option fst r)))"

section \<open>Listing\<close>

record Query =
  q_Identity :: string
  q_ClientID :: string
  q_SSO :: string
  q_Contains :: bool

definition query_set :: "Query \<Rightarrow> string" where
  "query_set q =
     (if q_Contains q then sessionAllKey
      else if q_Identity q \<noteq> [] then sessionOfKey (q_Identity q)
      else if q_ClientID q \<noteq> [] then sessionForKey (q_ClientID q)
      else sessionAllKey)"

definition matches :: "string \<Rightarrow> string \<Rightarrow> bool \<Rightarrow> bool" where
  "matches held want contains = (if contains then contains_str held want else held = want)"

text \<open>The cases of the switch that keep a session out of a listing.\<close>

definition query_selects :: "Query \<Rightarrow> Session \<Rightarrow> bool" where
  "query_selects q session =
     (let identity = to_lower (trim_space (q_Identity q))
      in if identity \<noteq> [] \<and> \<not> matches (ses_Identity session) identity (q_Contains q) then False
         else if q_ClientID q \<noteq> [] \<and> \<not> matches (ses_ClientID session) (q_ClientID q) (q_Contains q) then False
         else if q_SSO q \<noteq> [] \<and> ses_SSO session \<noteq> q_SSO q then False
         else True)"

fun collect_each ::
  "'s Sessions \<Rightarrow> int \<Rightarrow> Query \<Rightarrow> string list \<Rightarrow> ('s, sess_err, Session list) sop" where
  "collect_each S now q [] = ret []"
| "collect_each S now q (sid # ids) = bnd (byID S now sid) (\<lambda>found.
     case found of
       None \<Rightarrow> bnd (st (ls_Remove (ss_state S) (query_set q) sid)) (\<lambda>_. collect_each S now q ids)
     | Some session \<Rightarrow>
         bnd (collect_each S now q ids) (\<lambda>out. ret (if query_selects q session then session # out else out)))"

definition collect_sessions :: "'s Sessions \<Rightarrow> int \<Rightarrow> Query \<Rightarrow> ('s, sess_err, Session list) sop" where
  "collect_sessions S now q = bnd (st (ls_Members (ss_state S) (query_set q))) (\<lambda>ids. collect_each S now q ids)"

definition newest_first :: "Session list \<Rightarrow> Session list" where
  "newest_first sessions = sort_key (\<lambda>s. - ses_IssuedAt s) (sort_key ses_ID sessions)"

definition List_Sessions :: "'s Sessions \<Rightarrow> int \<Rightarrow> Query \<Rightarrow> ('s, sess_err, Session list) sop" where
  "List_Sessions S now q = bnd (collect_sessions S now q) (\<lambda>sessions. ret (newest_first sessions))"

section \<open>Ending\<close>

definition RevokeID :: "'s Sessions \<Rightarrow> int \<Rightarrow> string \<Rightarrow> ('s, sess_err, bool) sop" where
  "RevokeID S now sid = bnd (byID S now sid) (\<lambda>found.
     case found of None \<Rightarrow> ret False | Some session \<Rightarrow> bnd (deleteSession S session) (\<lambda>_. ret True))"

text \<open>A revocation that stops halfway returns how many ended, beside the error.\<close>

fun revoke_each :: "'s Sessions \<Rightarrow> int \<Rightarrow> Session list \<Rightarrow> int \<Rightarrow> 's \<Rightarrow> 's \<times> int \<times> sess_err option" where
  "revoke_each S now [] ended s = (s, ended, None)"
| "revoke_each S now (x # xs) ended s =
     (case RevokeID S now (ses_ID x) s of
        (s', Inl e) \<Rightarrow> (s', ended, Some e)
      | (s', Inr gone) \<Rightarrow> revoke_each S now xs (if gone then ended + 1 else ended) s')"

definition Revoke :: "'s Sessions \<Rightarrow> int \<Rightarrow> Query \<Rightarrow> 's \<Rightarrow> 's \<times> int \<times> sess_err option" where
  "Revoke S now q s =
     (if q_Contains q then (s, 0, Some SubstringNamesSessionsToList)
      else case collect_sessions S now q s of
        (s', Inl e) \<Rightarrow> (s', 0, Some e)
      | (s', Inr sessions) \<Rightarrow> revoke_each S now sessions 0 s')"

definition RevokeToken :: "'s Sessions \<Rightarrow> int \<Rightarrow> string \<Rightarrow> ('s, sess_err, bool) sop" where
  "RevokeToken S now token = bnd (st (ls_Get (ss_state S) (sessionTokenKey S token))) (\<lambda>raw.
     case raw of
       None \<Rightarrow> ret False
     | Some sid \<Rightarrow>
         bnd (st (ls_Delete (ss_state S) (sessionTokenKey S token))) (\<lambda>_. RevokeID S now sid))"

fun sweep_each :: "'s Sessions \<Rightarrow> int \<Rightarrow> string list \<Rightarrow> int \<Rightarrow> 's \<Rightarrow> 's \<times> int \<times> sess_err option" where
  "sweep_each S now [] gone s = (s, gone, None)"
| "sweep_each S now (sid # ids) gone s =
     (case byID S now sid s of
        (s', Inl e) \<Rightarrow> (s', gone, Some e)
      | (s', Inr found) \<Rightarrow> sweep_each S now ids (if found = None then gone + 1 else gone) s')"

definition Sweep :: "'s Sessions \<Rightarrow> int \<Rightarrow> 's \<Rightarrow> 's \<times> int \<times> sess_err option" where
  "Sweep S now s =
     (case st (ls_Members (ss_state S) sessionAllKey) s of
        (s', Inl e) \<Rightarrow> (s', 0, Some e)
      | (s', Inr ids) \<Rightarrow> sweep_each S now ids 0 s')"

definition endedByAbsoluteLimit :: "'s Sessions \<Rightarrow> int \<Rightarrow> string \<Rightarrow> ('s, sess_err, Session option) sop" where
  "endedByAbsoluteLimit S now token = bnd (st (ls_Get (ss_state S) (sessionTokenKey S token))) (\<lambda>raw.
     case raw of
       None \<Rightarrow> ret None
     | Some sid \<Rightarrow> bnd (getJSON S (sessionKey sid)) (\<lambda>session.
         case session of
           None \<Rightarrow> ret None
         | Some ses \<Rightarrow> (if Live ses now then ret None else ret (Some ses))))"

end
