(* ===== verification/Session_Laws.thy ===== *)
theory Session_Laws
  imports Sessions
begin

text \<open>
  What the operations of \<open>Sessions\<close> do to the view of the store, proved once from the contract
  \<open>login_state\<close>: reads answer exactly what the view holds and change nothing; each write that succeeds
  changes the view in the way stated. The properties of sessions rest on these.
\<close>

section \<open>What a view answers\<close>

definition sessions_over :: "'s Sessions \<Rightarrow> 's LoginState \<Rightarrow> bool" where
  "sessions_over S L = (ss_state S = L \<and> 0 < ss_lifetime S \<and> (\<forall>x. ss_unmarshal S (ss_marshal S x) = Some x))"

definition read_json :: "'s Sessions \<Rightarrow> View \<Rightarrow> string \<Rightarrow> sess_err + Session option" where
  "read_json S v key =
     (case vw_val v key of
        None \<Rightarrow> Inr None
      | Some (raw, _) \<Rightarrow> (case ss_unmarshal S raw of None \<Rightarrow> Inl (NotReadable key) | Some x \<Rightarrow> Inr (Some x)))"

definition read_id :: "'s Sessions \<Rightarrow> View \<Rightarrow> int \<Rightarrow> string \<Rightarrow> sess_err + Session option" where
  "read_id S v now sid =
     (case read_json S v (sessionKey sid) of
        Inl e \<Rightarrow> Inl e
      | Inr None \<Rightarrow> Inr None
      | Inr (Some x) \<Rightarrow> Inr (if Live x now then Some x else None))"

definition read_token :: "'s Sessions \<Rightarrow> View \<Rightarrow> int \<Rightarrow> string \<Rightarrow> sess_err + Session option" where
  "read_token S v now token =
     (case vw_val v (sessionTokenKey S token) of None \<Rightarrow> Inr None | Some (sid, _) \<Rightarrow> read_id S v now sid)"

definition read_replay :: "'s Sessions \<Rightarrow> View \<Rightarrow> int \<Rightarrow> string \<Rightarrow> sess_err + (Session \<times> string) option" where
  "read_replay S v now token =
     (case vw_val v (sessionRotatedKey S token) of
        None \<Rightarrow> Inr None
      | Some (successor, _) \<Rightarrow>
          (case read_token S v now successor of
             Inl e \<Rightarrow> Inl e | Inr x \<Rightarrow> Inr (map_option (\<lambda>ses. (ses, successor)) x)))"

definition read_ended :: "'s Sessions \<Rightarrow> View \<Rightarrow> int \<Rightarrow> string \<Rightarrow> sess_err + Session option" where
  "read_ended S v now token =
     (case vw_val v (sessionTokenKey S token) of
        None \<Rightarrow> Inr None
      | Some (sid, _) \<Rightarrow>
          (case read_json S v (sessionKey sid) of
             Inl e \<Rightarrow> Inl e
           | Inr None \<Rightarrow> Inr None
           | Inr (Some x) \<Rightarrow> Inr (if Live x now then None else Some x)))"

text \<open>The record a rotation at \<open>now\<close> writes.\<close>

definition rotated :: "'s Sessions \<Rightarrow> int \<Rightarrow> Session \<Rightarrow> Session" where
  "rotated S now x = x\<lparr>ses_LastRefreshed := Some now,
     ses_ExpiresAt := capEnd now (ses_AuthTime x) (ss_lifetime S) (absoluteOf S [ses_Resource x])\<rparr>"

text \<open>What adding a member to some sets, or removing it, did to them.\<close>

definition added :: "View \<Rightarrow> string list \<Rightarrow> string \<Rightarrow> int \<Rightarrow> View \<Rightarrow> bool" where
  "added v ks m t v' = (\<forall>k. if k \<in> set ks
     then insert m (fst (vw_set v k)) \<subseteq> fst (vw_set v' k) \<and> snd (vw_set v' k) = Some t
     else vw_set v' k = vw_set v k)"

definition removed :: "View \<Rightarrow> string list \<Rightarrow> string \<Rightarrow> View \<Rightarrow> bool" where
  "removed v ks m v' = (\<forall>k. vw_set v' k =
     (if k \<in> set ks then norm_set (fst (vw_set v k) - {m}) (snd (vw_set v k)) else vw_set v k))"

lemma added_cong: "vw_set v = vw_set w \<Longrightarrow> added v ks m t v' = added w ks m t v'"
  by (simp add: added_def)

lemma added_Cons:
  assumes "added v [a] m t v1" and "added v1 ks m t v2"
  shows "added v (a # ks) m t v2"
  unfolding added_def
proof
  fix k
  show "if k \<in> set (a # ks) then insert m (fst (vw_set v k)) \<subseteq> fst (vw_set v2 k) \<and> snd (vw_set v2 k) = Some t
      else vw_set v2 k = vw_set v k"
    using spec [OF assms(1) [unfolded added_def], of k] spec [OF assms(2) [unfolded added_def], of k]
    by (cases "k = a"; cases "k \<in> set ks") auto
qed

lemma removed_cong: "vw_set v = vw_set w \<Longrightarrow> removed v ks m v' = removed w ks m v'"
  by (simp add: removed_def)

lemma key_simps [simp]:
  "sessionKey a = sessionKey b \<longleftrightarrow> a = b"
  "sessionKey a \<noteq> sessionTokenKey S t" "sessionTokenKey S t \<noteq> sessionKey a"
  "sessionKey a \<noteq> sessionRotatedKey S t" "sessionRotatedKey S t \<noteq> sessionKey a"
  "sessionTokenKey S t \<noteq> sessionRotatedKey S u" "sessionRotatedKey S u \<noteq> sessionTokenKey S t"
  "sessionTokenKey S t = sessionTokenKey S u \<longleftrightarrow> ss_digest S t = ss_digest S u"
  "sessionRotatedKey S t = sessionRotatedKey S u \<longleftrightarrow> ss_digest S t = ss_digest S u"
  by (simp_all add: sessionKey_def sessionTokenKey_def sessionRotatedKey_def)

section \<open>The laws\<close>

context login_state
begin

lemma st_get:
  assumes "ok s" and "st (ls_Get L k) s = (s', res)"
  shows "ok s' \<and> view s' = view s \<and> res = Inr (map_option fst (vw_val (view s) k))"
  using assms(2) get_law [OF assms(1), of k] by (auto simp: map_err_def split: prod.splits sum.splits)

lemma getJSON_law:
  assumes "ok s" and "ss_state S = L" and "getJSON S key s = (s', res)"
  shows "ok s' \<and> view s' = view s \<and> res = read_json S (view s) key"
proof (cases "st (ls_Get L key) s")
  case (Pair s1 r)
  note st_get [OF assms(1) this]
  then show ?thesis
    using assms(2,3) Pair
    by (auto simp: getJSON_def bnd_def read_json_def ret_def raise_def split: option.splits)
qed

lemma byID_law:
  assumes "ok s" and "ss_state S = L" and "byID S now sid s = (s', res)"
  shows "ok s' \<and> view s' = view s \<and> res = read_id S (view s) now sid"
proof (cases "getJSON S (sessionKey sid) s")
  case (Pair s1 r)
  note getJSON_law [OF assms(1,2) this]
  then show ?thesis
    using assms(3) Pair by (auto simp: byID_def bnd_def read_id_def ret_def split: sum.splits option.splits if_splits)
qed

lemma ByToken_law:
  assumes "ok s" and "ss_state S = L" and "ByToken S now token s = (s', res)"
  shows "ok s' \<and> view s' = view s \<and> res = read_token S (view s) now token"
proof (cases "st (ls_Get L (sessionTokenKey S token)) s")
  case (Pair s1 r)
  note st_get [OF assms(1) this]
  then show ?thesis
    using assms(2,3) Pair byID_law [of s1 S now] 
    by (fastforce simp: ByToken_def bnd_def read_token_def ret_def split: option.splits)
qed

lemma replayed_law:
  assumes "ok s" and "ss_state S = L" and "replayed S now token s = (s', res)"
  shows "ok s' \<and> view s' = view s \<and> res = read_replay S (view s) now token"
proof (cases "st (ls_Get L (sessionRotatedKey S token)) s")
  case (Pair s1 r)
  note g = st_get [OF assms(1) this]
  show ?thesis
  proof (cases "vw_val (view s) (sessionRotatedKey S token)")
    case None
    then show ?thesis using assms(2,3) Pair g by (auto simp: replayed_def bnd_def read_replay_def ret_def)
  next
    case (Some x)
    obtain succ e where x: "x = (succ, e)" by (cases x)
    obtain s2 r2 where bt: "ByToken S now succ s1 = (s2, r2)" by (cases "ByToken S now succ s1")
    then have "ok s2 \<and> view s2 = view s \<and> r2 = read_token S (view s) now succ"
      using ByToken_law [OF _ assms(2) bt] g by simp
    then show ?thesis
      using assms(2,3) Pair g Some x bt
      by (auto simp: replayed_def bnd_def read_replay_def ret_def split: sum.splits option.splits)
  qed
qed

lemma ended_law:
  assumes "ok s" and "ss_state S = L" and "endedByAbsoluteLimit S now token s = (s', res)"
  shows "ok s' \<and> view s' = view s \<and> res = read_ended S (view s) now token"
proof (cases "st (ls_Get L (sessionTokenKey S token)) s")
  case (Pair s1 r)
  note g = st_get [OF assms(1) this]
  show ?thesis
  proof (cases "vw_val (view s) (sessionTokenKey S token)")
    case None
    then show ?thesis using assms(2,3) Pair g by (auto simp: endedByAbsoluteLimit_def bnd_def read_ended_def ret_def)
  next
    case (Some x)
    obtain sid e where x: "x = (sid, e)" by (cases x)
    obtain s2 r2 where gj: "getJSON S (sessionKey sid) s1 = (s2, r2)" by (cases "getJSON S (sessionKey sid) s1")
    then have "ok s2 \<and> view s2 = view s \<and> r2 = read_json S (view s) (sessionKey sid)"
      using getJSON_law [OF _ assms(2) gj] g by simp
    then show ?thesis
      using assms(2,3) Pair g Some x gj
      by (auto simp: endedByAbsoluteLimit_def bnd_def read_ended_def ret_def split: sum.splits option.splits if_splits)
  qed
qed

lemma st_set: "ok s \<Longrightarrow> st (ls_Set L k x ttl) s = (s', Inr u) \<Longrightarrow>
    ok s' \<and> view s' = (view s)\<lparr>vw_val := (vw_val (view s))(k \<mapsto> (x, ending (vw_now (view s)) ttl))\<rparr>"
  by (simp add: op_simps set_law)

lemma st_delete: "ok s \<Longrightarrow> st (ls_Delete L k) s = (s', Inr u) \<Longrightarrow>
    ok s' \<and> view s' = (view s)\<lparr>vw_val := (vw_val (view s))(k := None)\<rparr>"
  by (simp add: op_simps delete_law)

text \<open>Adding to sets and removing from them.\<close>

lemma st_add:
  assumes "ok s" and "0 < ttl" and "st (ls_Add L a m ttl) s = (s', Inr u)"
  shows "ok s' \<and> vw_now (view s') = vw_now (view s) \<and> vw_val (view s') = vw_val (view s)
    \<and> added (view s) [a] m (vw_now (view s) + ttl) (view s')"
proof -
  have "ls_Add L a m ttl s = (s', Inr u)" using assms(3) by (simp add: op_simps)
  from add_law [OF assms(1,2) this] obtain M where "ok s'" "insert m (fst (vw_set (view s) a)) \<subseteq> M"
      "view s' = (view s)\<lparr>vw_set := (vw_set (view s))(a := (M, ending (vw_now (view s)) ttl))\<rparr>" by blast
  then show ?thesis using assms(2) by (simp add: added_def ending_def)
qed

lemma each_add_law:
  assumes "ok s" and "0 < ttl" and "each (\<lambda>key. st (ls_Add L key m ttl)) ks s = (s', Inr u)"
  shows "ok s' \<and> vw_now (view s') = vw_now (view s) \<and> vw_val (view s') = vw_val (view s)
    \<and> added (view s) ks m (vw_now (view s) + ttl) (view s')"
  using assms(1,3)
proof (induction ks arbitrary: s)
  case Nil
  then show ?case by (auto simp: op_simps added_def)
next
  case (Cons a ks)
  obtain s1 u1 where s1: "st (ls_Add L a m ttl) s = (s1, Inr u1)" "each (\<lambda>key. st (ls_Add L key m ttl)) ks s1 = (s', Inr u)"
    using Cons.prems(2) unfolding each.simps bnd_Inr by blast
  note a = st_add [OF Cons.prems(1) assms(2) s1(1)]
  note b = Cons.IH [OF conjunct1 [OF a] s1(2)]
  show ?case using a b added_Cons by metis
qed

lemma index_law:
  assumes "ok s" and "sessions_over S L" and "index_session S x s = (s', Inr u)"
  shows "ok s' \<and> vw_now (view s') = vw_now (view s) \<and> vw_val (view s') = vw_val (view s)
    \<and> added (view s) (session_sets x) (ses_ID x) (vw_now (view s) + ss_lifetime S) (view s')"
  by (rule each_add_law [where u = u]) (use assms in \<open>simp_all add: sessions_over_def index_session_def\<close>)

lemma each_remove_law:
  assumes "ok s" and "each (\<lambda>key. st (ls_Remove L key m)) ks s = (s', Inr u)"
  shows "ok s' \<and> vw_now (view s') = vw_now (view s) \<and> vw_val (view s') = vw_val (view s) \<and> removed (view s) ks m (view s')"
  using assms
proof (induction ks arbitrary: s)
  case Nil
  then show ?case by (auto simp: op_simps removed_def)
next
  case (Cons a ks)
  obtain s1 u1 where s1: "ls_Remove L a m s = (s1, Inr u1)" "each (\<lambda>key. st (ls_Remove L key m)) ks s1 = (s', Inr u)"
    using Cons.prems(2) unfolding each.simps bnd_Inr map_err_Inr by blast
  note M = remove_law [OF Cons.prems(1) s1(1)]
  show ?case
    using Cons.IH [OF conjunct1 [OF M] s1(2)] M by (auto simp: removed_def norm_set_def split: if_splits)
qed

lemma deleteSession_law:
  assumes "ok s" and "ss_state S = L" and "deleteSession S x s = (s', Inr u)"
  shows "ok s' \<and> vw_now (view s') = vw_now (view s)
    \<and> vw_val (view s') = (vw_val (view s))(sessionKey (ses_ID x) := None)
    \<and> removed (view s) (session_sets x) (ses_ID x) (view s')"
proof -
  obtain s1 u1 where s1: "st (ls_Delete L (sessionKey (ses_ID x))) s = (s1, Inr u1)"
      "each (\<lambda>key. st (ls_Remove L key (ses_ID x))) (session_sets x) s1 = (s', Inr u)"
    using assms(2,3) unfolding deleteSession_def bnd_Inr by blast
  note d = st_delete [OF assms(1) s1(1)]
  show ?thesis using each_remove_law [OF conjunct1 [OF d] s1(2)] d removed_cong [of "view s1" "view s"] by simp
qed

lemma put_law:
  assumes "ok s" and "ss_state S = L" and "put_session S now x s = (s', Inr u)"
  shows "now < ses_ExpiresAt x \<and> ok s' \<and> view s' = (view s)\<lparr>vw_val := (vw_val (view s))
    (sessionKey (ses_ID x) \<mapsto> (ss_marshal S x, ending (vw_now (view s)) (ss_lifetime S)))\<rparr>"
  using assms st_set by (auto simp: put_session_def setJSON_def op_simps split: if_splits)

text \<open>Opening a session, and moving it to a new token.\<close>

lemma Record_law:
  assumes "ok s" and "sessions_over S L" and "Record S now sid p s = (s', Inr x)"
  shows "ok s' \<and> x = opened_session S now sid p \<and> now < ses_ExpiresAt x \<and> vw_now (view s') = vw_now (view s)
    \<and> vw_val (view s') = (vw_val (view s))
        (sessionKey sid \<mapsto> (ss_marshal S x, Some (vw_now (view s) + ss_lifetime S)),
         sessionTokenKey S (op_Token p) \<mapsto> (sid, Some (vw_now (view s) + ss_lifetime S)))
    \<and> added (view s) (session_sets x) sid (vw_now (view s) + ss_lifetime S) (view s')"
proof -
  have S: "ss_state S = L" "0 < ss_lifetime S" using assms(2) by (auto simp: sessions_over_def)
  let ?x = "opened_session S now sid p"
  obtain s1 s2 u1 u2 u3 where st: "put_session S now ?x s = (s1, Inr u1)"
      "st (ls_Set L (sessionTokenKey S (op_Token p)) sid (ss_lifetime S)) s1 = (s2, Inr u2)"
      "index_session S ?x s2 = (s', Inr u3)" "x = ?x"
    using assms(3) S(1) by (auto simp: Record_def Let_def op_simps opened_session_def)
  note p = put_law [OF assms(1) S(1) st(1)]
  note q = st_set [OF conjunct1 [OF conjunct2 [OF p]] st(2)]
  note i = index_law [OF conjunct1 [OF q] assms(2) st(3)]
  have "ses_ID ?x = sid" by (simp add: opened_session_def)
  then show ?thesis using p q i st(4) S(2) added_cong [of "view s2" "view s"] by (simp add: ending_def)
qed

lemma rotate_law:
  assumes "ok s" and "sessions_over S L" and "rotate_session S now old_tok new_tok x s = (s', Inr r)"
  defines "y \<equiv> rotated S now x" and "v \<equiv> view s" and "v' \<equiv> view s'"
  shows "ok s' \<and> vw_now v' = vw_now v \<and>
    (if now < ses_ExpiresAt y
     then r = Some (y, new_tok)
       \<and> vw_val v' = (vw_val v)(sessionTokenKey S old_tok := None,
           sessionRotatedKey S old_tok \<mapsto> (new_tok, Some (vw_now v + refreshGrace)),
           sessionKey (ses_ID x) \<mapsto> (ss_marshal S y, Some (vw_now v + ss_lifetime S)),
           sessionTokenKey S new_tok \<mapsto> (ses_ID x, Some (vw_now v + ss_lifetime S)))
       \<and> added v (session_sets x) (ses_ID x) (vw_now v + ss_lifetime S) v'
     else r = None
       \<and> vw_val v' = (vw_val v)(sessionTokenKey S old_tok := None,
           sessionRotatedKey S old_tok \<mapsto> (new_tok, Some (vw_now v + refreshGrace)),
           sessionKey (ses_ID x) := None)
       \<and> removed v (session_sets x) (ses_ID x) v')"
proof -
  have S: "ss_state S = L" "0 < ss_lifetime S" using assms(2) by (auto simp: sessions_over_def)
  have y: "ses_ID y = ses_ID x" "session_sets y = session_sets x" by (simp_all add: y_def rotated_def session_sets_def)
  have grace: "0 < refreshGrace" by (simp add: refreshGrace_def)
  obtain s1 s2 u1 u2 where st: "st (ls_Delete L (sessionTokenKey S old_tok)) s = (s1, Inr u1)"
      "st (ls_Set L (sessionRotatedKey S old_tok) new_tok refreshGrace) s1 = (s2, Inr u2)"
    and rest: "(if \<not> now < ses_ExpiresAt y then bnd (deleteSession S y) (\<lambda>_. ret None)
          else bnd (put_session S now y) (\<lambda>_.
               bnd (st (ls_Set L (sessionTokenKey S new_tok) (ses_ID y) (ss_lifetime S))) (\<lambda>_.
               bnd (index_session S y) (\<lambda>_. ret (Some (y, new_tok)))))) s2 = (s', Inr r)"
    using assms(3) S(1) unfolding rotate_session_def bnd_Inr Let_def y_def rotated_def by blast
  note d = st_delete [OF assms(1) st(1)]
  note e = st_set [OF conjunct1 [OF d] st(2)]
  show ?thesis
  proof (cases "now < ses_ExpiresAt y")
    case False
    then obtain u3 where dl: "deleteSession S y s2 = (s', Inr u3)" "r = None" using rest by (auto simp: op_simps)
    note f = deleteSession_law [OF conjunct1 [OF e] S(1) dl(1)]
    show ?thesis using False f d e dl(2) y removed_cong [of "view s2" "view s"] grace
      by (simp add: v_def v'_def ending_def)
  next
    case True
    then obtain s3 s4 u3 u4 u5 where put: "put_session S now y s2 = (s3, Inr u3)"
        and tok: "st (ls_Set L (sessionTokenKey S new_tok) (ses_ID y) (ss_lifetime S)) s3 = (s4, Inr u4)"
        and ix: "index_session S y s4 = (s', Inr u5)" and r: "r = Some (y, new_tok)"
      using rest by (auto simp: bnd_Inr ret_Inr)
    note f = put_law [OF conjunct1 [OF e] S(1) put]
    note g = st_set [OF conjunct1 [OF conjunct2 [OF f]] tok]
    note h = index_law [OF conjunct1 [OF g] assms(2) ix]
    show ?thesis using True d e f g h r y S(2) grace added_cong [of "view s4" "view s"]
      by (simp add: v_def v'_def ending_def)
  qed
qed

end

end
