(* ===== verification/Session_Safety.thy ===== *)
theory Session_Safety
  imports Session_Laws
begin

text \<open>
  What the issuer's sessions guarantee: no session answers past the absolute limit, a live session is
  always found where its owner and its client are listed, and a revocation ends every session it names.
  The sequences of operations are the step relation \<open>sess_step\<close>, which also lets a refresh write long
  after it read; the invariants are proved under the contract \<open>login_state\<close> and hold for both stores.
\<close>

section \<open>Sequences of operations\<close>

text \<open>The flag says that the operation returned no error.\<close>

inductive sess_step :: "'s Sessions \<Rightarrow> ('s \<Rightarrow> int) \<Rightarrow> (int \<Rightarrow> 's \<Rightarrow> 's) \<Rightarrow> bool \<Rightarrow> 's \<Rightarrow> 's \<Rightarrow> bool"
  for S clock wait where
  step_record: "Record S (clock s) sid p s = (s', res) \<Longrightarrow> sess_step S clock wait (\<not> isl res) s s'"
| step_refresh: "Refreshed S (clock s) old_tok new_tok s = (s', res) \<Longrightarrow> sess_step S clock wait (\<not> isl res) s s'"
| step_rotate: "rotate_session S (clock s) old_tok new_tok x s = (s', res) \<Longrightarrow> sess_step S clock wait (\<not> isl res) s s'"
| step_revoke_id: "RevokeID S (clock s) sid s = (s', gone) \<Longrightarrow> sess_step S clock wait (\<not> isl gone) s s'"
| step_revoke_token: "RevokeToken S (clock s) tok s = (s', gone) \<Longrightarrow> sess_step S clock wait (\<not> isl gone) s s'"
| step_revoke: "Revoke S (clock s) q s = (s', n, e) \<Longrightarrow> sess_step S clock wait (e = None) s s'"
| step_list: "List_Sessions S (clock s) q s = (s', listed) \<Longrightarrow> sess_step S clock wait (\<not> isl listed) s s'"
| step_sweep: "Sweep S (clock s) s = (s', n, e) \<Longrightarrow> sess_step S clock wait (e = None) s s'"
| step_wait: "0 \<le> d \<Longrightarrow> sess_step S clock wait True s (wait d s)"

text \<open>The states operations lead to; with \<open>fine\<close>, only operations that returned no error.\<close>

inductive sess_run :: "'s Sessions \<Rightarrow> ('s \<Rightarrow> int) \<Rightarrow> (int \<Rightarrow> 's \<Rightarrow> 's) \<Rightarrow> bool \<Rightarrow> 's \<Rightarrow> 's \<Rightarrow> bool"
  for S clock wait fine s where
  run_start: "sess_run S clock wait fine s s"
| run_step: "sess_run S clock wait fine s s1 \<Longrightarrow> sess_step S clock wait b s1 s2 \<Longrightarrow> (fine \<Longrightarrow> b)
    \<Longrightarrow> sess_run S clock wait fine s s2"

section \<open>Every record was capped when it was written\<close>

definition sess_inv :: "'s Sessions \<Rightarrow> View \<Rightarrow> bool" where
  "sess_inv S v = (\<forall>sid raw e. vw_val v (sessionKey sid) = Some (raw, e) \<longrightarrow>
     (\<exists>x w. ss_unmarshal S raw = Some x \<and> ses_ID x = sid \<and> w \<le> vw_now v \<and> e = Some (w + ss_lifetime S)
        \<and> ses_ExpiresAt x = capEnd w (ses_AuthTime x) (ss_lifetime S) (absoluteOf S [ses_Resource x])))"

lemma sess_inv_other:
  "sess_inv S v \<Longrightarrow> (\<And>sid. vw_val w (sessionKey sid) = vw_val v (sessionKey sid) \<or> vw_val w (sessionKey sid) = None)
    \<Longrightarrow> vw_now w = vw_now v \<Longrightarrow> sess_inv S w"
  unfolding sess_inv_def by (metis option.distinct(1))

context login_state
begin

definition kept_view :: "'s Sessions \<Rightarrow> int \<Rightarrow> 's \<Rightarrow> bool" where
  "kept_view S now s = (ok s \<and> sess_inv S (view s) \<and> vw_now (view s) = now)"

lemma keeps_get [intro]: "keeps (kept_view S now) (ls_Get L k)"
  by (simp add: keeps_def kept_view_def) (metis get_law prod.collapse)

lemma keeps_members [intro]: "keeps (kept_view S now) (ls_Members L k)"
  by (simp add: keeps_def kept_view_def) (metis members_law prod.collapse)

lemma keeps_write:
  assumes "\<And>s s' e. ok s \<Longrightarrow> f s = (s', Inl e) \<Longrightarrow> ok s' \<and> view s' = view s"
    and "\<And>s s' u. kept_view S now s \<Longrightarrow> f s = (s', Inr u) \<Longrightarrow> kept_view S now s'"
  shows "keeps (kept_view S now) f"
  unfolding keeps_def
proof (intro allI impI)
  fix s assume s: "kept_view S now s"
  obtain s' r where r: "f s = (s', r)" by (cases "f s")
  show "kept_view S now (fst (f s))"
  proof (cases r)
    case (Inl e)
    then show ?thesis using assms(1) [of s s' e] r s by (simp add: kept_view_def)
  next
    case (Inr u)
    then show ?thesis using assms(2) [OF s] r by simp
  qed
qed

lemma keeps_delete [intro]: "keeps (kept_view S now) (ls_Delete L k)"
proof (rule keeps_write)
  show "ok s' \<and> view s' = view s" if "ok s" "ls_Delete L k s = (s', Inl e)" for s s' e
    by (rule on_error [where k = k, OF that(1)]) (use that(2) in blast)
  show "kept_view S now s'" if "kept_view S now s" "ls_Delete L k s = (s', Inr u)" for s s' u
    using that delete_law [of s k s' u] by (auto simp: kept_view_def elim!: sess_inv_other split: if_splits)
qed

lemma keeps_remove [intro]: "keeps (kept_view S now) (ls_Remove L k x)"
proof (rule keeps_write)
  show "ok s' \<and> view s' = view s" if "ok s" "ls_Remove L k x s = (s', Inl e)" for s s' e
    by (rule on_error [where k = k and x = x, OF that(1)]) (use that(2) in blast)
  show "kept_view S now s'" if "kept_view S now s" "ls_Remove L k x s = (s', Inr u)" for s s' u
    using that remove_law [of s k x s' u] by (auto simp: kept_view_def elim!: sess_inv_other)
qed

lemma keeps_add [intro]:
  assumes "0 < ttl"
  shows "keeps (kept_view S now) (ls_Add L k x ttl)"
proof (rule keeps_write)
  show "ok s' \<and> view s' = view s" if "ok s" "ls_Add L k x ttl s = (s', Inl e)" for s s' e
    by (rule on_error [where k = k and x = x and ttl = ttl, OF that(1)]) (use that(2) in blast)
  show "kept_view S now s'" if "kept_view S now s" "ls_Add L k x ttl s = (s', Inr u)" for s s' u
    using that add_law [OF _ assms, of s k x s' u] by (auto simp: kept_view_def elim!: sess_inv_other)
qed

lemma keeps_set:
  assumes "\<And>sid. k = sessionKey sid \<Longrightarrow> \<exists>y. ss_unmarshal S x = Some y \<and> ses_ID y = sid \<and> ttl = ss_lifetime S
     \<and> ses_ExpiresAt y = capEnd now (ses_AuthTime y) (ss_lifetime S) (absoluteOf S [ses_Resource y])"
    and "0 < ss_lifetime S"
  shows "keeps (kept_view S now) (ls_Set L k x ttl)"
proof (rule keeps_write)
  show "ok s' \<and> view s' = view s" if "ok s" "ls_Set L k x ttl s = (s', Inl e)" for s s' e
    by (rule on_error [where k = k and x = x and ttl = ttl, OF that(1)]) (use that(2) in blast)
  show "kept_view S now s'" if s: "kept_view S now s" and set: "ls_Set L k x ttl s = (s', Inr u)" for s s' u
  proof -
    note law = set_law [OF _ set]
    have "sess_inv S (view s')"
      unfolding sess_inv_def
    proof (intro allI impI)
      fix sid raw e assume held: "vw_val (view s') (sessionKey sid) = Some (raw, e)"
      show "\<exists>y w. ss_unmarshal S raw = Some y \<and> ses_ID y = sid \<and> w \<le> vw_now (view s') \<and> e = Some (w + ss_lifetime S)
        \<and> ses_ExpiresAt y = capEnd w (ses_AuthTime y) (ss_lifetime S) (absoluteOf S [ses_Resource y])"
      proof (cases "k = sessionKey sid")
        case True
        obtain y where "ss_unmarshal S x = Some y" "ses_ID y = sid" "ttl = ss_lifetime S"
          "ses_ExpiresAt y = capEnd now (ses_AuthTime y) (ss_lifetime S) (absoluteOf S [ses_Resource y])"
          using assms(1) [OF True] by blast
        then show ?thesis using True held law s assms(2) by (intro exI [of _ y] exI [of _ now]) (simp add: kept_view_def ending_def)
      next
        case False
        then have "vw_val (view s) (sessionKey sid) = Some (raw, e)" using held law s by (simp add: kept_view_def)
        then show ?thesis using s law unfolding kept_view_def sess_inv_def by fastforce
      qed
    qed
    then show ?thesis using law s by (simp add: kept_view_def)
  qed
qed

lemma keeps_put [intro]:
  assumes "sessions_over S L"
    and "ses_ExpiresAt x = capEnd now (ses_AuthTime x) (ss_lifetime S) (absoluteOf S [ses_Resource x])"
  shows "keeps (kept_view S now) (put_session S now x)"
  using assms keeps_set [of "sessionKey (ses_ID x)" S "ss_marshal S x" "ss_lifetime S" now]
  by (auto simp: put_session_def setJSON_def sessions_over_def intro!: keeps_map_err)

lemma keeps_token [intro]:
  "sessions_over S L \<Longrightarrow> keeps (kept_view S now) (ls_Set L (sessionTokenKey S t) x ttl)"
  "sessions_over S L \<Longrightarrow> keeps (kept_view S now) (ls_Set L (sessionRotatedKey S t) x ttl)"
  by (rule keeps_set; simp add: sessions_over_def)+

lemma over_state: "sessions_over S L \<Longrightarrow> ss_state S = L"
  by (simp add: sessions_over_def)

lemma over_lifetime: "sessions_over S L \<Longrightarrow> 0 < ss_lifetime S"
  by (simp add: sessions_over_def)

lemmas keeps_rules = keeps_bnd_all keeps_each keeps_map_err

lemma keeps_getJSON [intro]: "sessions_over S L \<Longrightarrow> keeps (kept_view S now) (getJSON S k)"
  unfolding getJSON_def by (auto simp: over_state intro!: keeps_rules split: option.splits)

lemma keeps_byID [intro]: "sessions_over S L \<Longrightarrow> keeps (kept_view S now) (byID S now' sid)"
  unfolding byID_def by (auto simp: over_state intro!: keeps_rules split: option.splits)

lemma keeps_ByToken [intro]: "sessions_over S L \<Longrightarrow> keeps (kept_view S now) (ByToken S now' t)"
  unfolding ByToken_def by (auto simp: over_state intro!: keeps_rules split: option.splits)

lemma keeps_replayed [intro]: "sessions_over S L \<Longrightarrow> keeps (kept_view S now) (replayed S now' t)"
  unfolding replayed_def by (auto simp: over_state intro!: keeps_rules split: option.splits)

lemma keeps_index [intro]: "sessions_over S L \<Longrightarrow> keeps (kept_view S now) (index_session S x)"
  unfolding index_session_def by (auto simp: over_state over_lifetime intro!: keeps_rules)

lemma keeps_deleteSession [intro]: "sessions_over S L \<Longrightarrow> keeps (kept_view S now) (deleteSession S x)"
  unfolding deleteSession_def by (auto simp: over_state intro!: keeps_rules)

lemma keeps_Record: "sessions_over S L \<Longrightarrow> keeps (kept_view S now) (Record S now sid p)"
  unfolding Record_def Let_def
  by (auto simp: over_state opened_session_def intro!: keeps_rules)

lemma keeps_rotate: "sessions_over S L \<Longrightarrow> keeps (kept_view S now) (rotate_session S now a b x)"
  unfolding rotate_session_def Let_def
  by (auto simp: over_state intro!: keeps_rules)

lemma keeps_Refreshed: "sessions_over S L \<Longrightarrow> keeps (kept_view S now) (Refreshed S now a b)"
  unfolding Refreshed_def by (auto simp: over_state keeps_rotate intro!: keeps_rules split: option.splits)

lemma keeps_RevokeID: "sessions_over S L \<Longrightarrow> keeps (kept_view S now) (RevokeID S now' sid)"
  unfolding RevokeID_def by (auto simp: over_state intro!: keeps_rules split: option.splits)

lemma keeps_RevokeToken: "sessions_over S L \<Longrightarrow> keeps (kept_view S now) (RevokeToken S now' t)"
  unfolding RevokeToken_def by (auto simp: over_state intro!: keeps_rules keeps_RevokeID split: option.splits)

lemma keeps_collect_from: "sessions_over S L \<Longrightarrow> keeps (kept_view S now) (collect_each S now' q ids)"
  by (induction ids) (auto simp: over_state intro!: keeps_rules split: option.splits)

lemma keeps_collect: "sessions_over S L \<Longrightarrow> keeps (kept_view S now) (collect_sessions S now' q)"
  unfolding collect_sessions_def by (auto simp: over_state intro!: keeps_rules keeps_collect_from)

lemma keeps_List: "sessions_over S L \<Longrightarrow> keeps (kept_view S now) (List_Sessions S now' q)"
  unfolding List_Sessions_def by (auto simp: over_state intro!: keeps_rules keeps_collect)

lemma kept_revoke_each:
  "sessions_over S L \<Longrightarrow> kept_view S now s \<Longrightarrow> revoke_each S now' xs n s = (s', m, e) \<Longrightarrow> kept_view S now s'"
proof (induction xs arbitrary: s n)
  case (Cons x xs)
  obtain s1 r where r: "RevokeID S now' (ses_ID x) s = (s1, r)" by (cases "RevokeID S now' (ses_ID x) s")
  have "kept_view S now s1" by (rule keepsD [OF keeps_RevokeID [OF Cons.prems(1)] Cons.prems(2) r])
  then show ?case using Cons.IH [OF Cons.prems(1)] Cons.prems(3) r by (cases r) auto
qed simp

lemma kept_Revoke:
  assumes "sessions_over S L" and "kept_view S now s" and "Revoke S now' q s = (s', m, e)"
  shows "kept_view S now s'"
proof (cases "q_Contains q")
  case False
  obtain s1 r where r: "collect_sessions S now' q s = (s1, r)" by (cases "collect_sessions S now' q s")
  have "kept_view S now s1" by (rule keepsD [OF keeps_collect [OF assms(1)] assms(2) r])
  then show ?thesis using kept_revoke_each [OF assms(1)] assms(3) r False by (cases r) (auto simp: Revoke_def)
qed (use assms in \<open>auto simp: Revoke_def\<close>)

text \<open>Sweeping changes nothing at all.\<close>

lemma sweep_each_law:
  "sessions_over S L \<Longrightarrow> ok s \<Longrightarrow> sweep_each S now ids n s = (s', m, e) \<Longrightarrow> ok s' \<and> view s' = view s"
proof (induction ids arbitrary: s n)
  case (Cons sid ids)
  obtain s1 r where r: "byID S now sid s = (s1, r)" by (cases "byID S now sid s")
  note law = byID_law [OF Cons.prems(2) over_state [OF Cons.prems(1)] r]
  show ?case
  proof (cases r)
    case (Inl a)
    then show ?thesis using Cons.prems(3) r law by simp
  next
    case (Inr a)
    then show ?thesis using Cons.IH [OF Cons.prems(1) conjunct1 [OF law]] Cons.prems(3) r law by simp
  qed
qed simp

lemma Sweep_law:
  assumes "sessions_over S L" and "ok s" and "Sweep S now s = (s', m, e)"
  shows "ok s' \<and> view s' = view s"
proof -
  obtain s1 r where r: "ls_Members L sessionAllKey s = (s1, r)" by (cases "ls_Members L sessionAllKey s")
  then obtain ids where "ok s1" "view s1 = view s" "r = Inr ids" using members_law [OF assms(2) r] by blast
  then show ?thesis
    using sweep_each_law [OF assms(1), of s1] assms(3) r by (auto simp: Sweep_def over_state [OF assms(1)] map_err_def)
qed

lemma sess_inv_later: "sess_inv S v \<Longrightarrow> 0 \<le> d \<Longrightarrow> sess_inv S (view_later d v)"
  unfolding sess_inv_def view_later_def by (fastforce split: option.splits if_splits)

lemma kept_step:
  assumes "sessions_over S L" and "sess_step S (\<lambda>s. vw_now (view s)) wait b s s'" and "ok s" and "sess_inv S (view s)"
  shows "ok s' \<and> sess_inv S (view s')"
proof -
  let ?now = "vw_now (view s)"
  have k: "kept_view S ?now s" using assms(3,4) by (simp add: kept_view_def)
  have fin: "kept_view S ?now s' \<Longrightarrow> ok s' \<and> sess_inv S (view s')" by (simp add: kept_view_def)
  show ?thesis
    using assms(2)
  proof cases
    case (step_record sid p res)
    show ?thesis by (rule fin, rule keepsD [OF keeps_Record [OF assms(1)] k step_record(2)])
  next
    case (step_refresh old_tok new_tok res)
    show ?thesis by (rule fin, rule keepsD [OF keeps_Refreshed [OF assms(1)] k step_refresh(2)])
  next
    case (step_rotate old_tok new_tok x res)
    show ?thesis by (rule fin, rule keepsD [OF keeps_rotate [OF assms(1)] k step_rotate(2)])
  next
    case (step_revoke_id sid gone)
    show ?thesis by (rule fin, rule keepsD [OF keeps_RevokeID [OF assms(1)] k step_revoke_id(2)])
  next
    case (step_revoke_token tok gone)
    show ?thesis by (rule fin, rule keepsD [OF keeps_RevokeToken [OF assms(1)] k step_revoke_token(2)])
  next
    case (step_list q listed)
    show ?thesis by (rule fin, rule keepsD [OF keeps_List [OF assms(1)] k step_list(2)])
  next
    case step_wait
    then show ?thesis using wait_law [OF assms(3)] sess_inv_later [OF assms(4)] by simp
  next
    case step_sweep
    then show ?thesis using Sweep_law [OF assms(1,3)] assms(4) by simp
  next
    case step_revoke
    then show ?thesis using kept_Revoke [OF assms(1) k] fin by simp
  qed
qed

lemma kept_run:
  assumes "sessions_over S L" and "sess_run S (\<lambda>s. vw_now (view s)) wait fine s s'" and "ok s" and "sess_inv S (view s)"
  shows "ok s' \<and> sess_inv S (view s')"
  using assms(2,3,4) by (induction rule: sess_run.induct) (use kept_step [OF assms(1)] in blast)+

text \<open>So a record that answers is within the limit, and one that no longer does is past it.\<close>

lemma capEnd_le: "capEnd now (Some a) refresh absolute \<le> a + absolute \<or> absolute \<le> 0"
  by (simp add: capEnd_def Let_def)

lemma live_within_limit:
  assumes "sess_inv S v" and "read_id S v now sid = Inr (Some x)"
  shows "\<not> pastLimit S now x"
proof -
  obtain raw e where raw: "vw_val v (sessionKey sid) = Some (raw, e)" "ss_unmarshal S raw = Some x" "now < ses_ExpiresAt x"
    using assms(2) by (auto simp: read_id_def read_json_def Live_def split: option.splits sum.splits prod.splits if_splits)
  obtain w where "ses_ExpiresAt x = capEnd w (ses_AuthTime x) (ss_lifetime S) (absoluteOf S [ses_Resource x])"
    using assms(1) raw unfolding sess_inv_def by fastforce
  then show ?thesis using raw(3) by (auto simp: pastLimit_def Let_def capEnd_def split: option.splits if_splits)
qed

lemma ended_past_limit:
  assumes "ok s" and "sess_inv S (view s)" and "read_ended S (view s) (vw_now (view s)) tok = Inr (Some x)"
  shows "pastLimit S (vw_now (view s)) x"
proof -
  obtain sid raw e where raw: "vw_val (view s) (sessionKey sid) = Some (raw, e)" "ss_unmarshal S raw = Some x"
      "\<not> vw_now (view s) < ses_ExpiresAt x"
    using assms(3)
    by (auto simp: read_ended_def read_json_def Live_def split: option.splits sum.splits prod.splits if_splits)
  obtain w where w: "e = Some (w + ss_lifetime S)"
      "ses_ExpiresAt x = capEnd w (ses_AuthTime x) (ss_lifetime S) (absoluteOf S [ses_Resource x])"
    using assms(2) raw unfolding sess_inv_def by fastforce
  have "vw_now (view s) < w + ss_lifetime S" using live_val [OF assms(1) raw(1)] w(1) by (simp add: unexpired_def)
  then show ?thesis using raw(3) w(2) by (auto simp: pastLimit_def Let_def capEnd_def split: option.splits if_splits)
qed

end

section \<open>Every live session is listed\<close>

text \<open>A member of a set that does not end before \<open>u\<close>.\<close>

definition listed :: "View \<Rightarrow> string \<Rightarrow> int \<Rightarrow> string \<Rightarrow> bool" where
  "listed v sid u k = (sid \<in> fst (vw_set v k) \<and> (\<exists>t. snd (vw_set v k) = Some t \<and> u \<le> t))"

definition idx_inv :: "'s Sessions \<Rightarrow> View \<Rightarrow> bool" where
  "idx_inv S v = (\<forall>sid x raw u k. read_id S v (vw_now v) sid = Inr (Some x) \<longrightarrow>
     vw_val v (sessionKey sid) = Some (raw, Some u) \<longrightarrow> k \<in> set (session_sets x) \<longrightarrow> listed v sid u k)"

lemma idx_invI:
  "(\<And>sid x raw u k. read_id S v (vw_now v) sid = Inr (Some x) \<Longrightarrow> vw_val v (sessionKey sid) = Some (raw, Some u)
     \<Longrightarrow> k \<in> set (session_sets x) \<Longrightarrow> listed v sid u k) \<Longrightarrow> idx_inv S v"
  by (simp add: idx_inv_def)

lemma idx_invD:
  "idx_inv S v \<Longrightarrow> read_id S v (vw_now v) sid = Inr (Some x) \<Longrightarrow> vw_val v (sessionKey sid) = Some (raw, Some u)
     \<Longrightarrow> k \<in> set (session_sets x) \<Longrightarrow> listed v sid u k"
  by (simp add: idx_inv_def)

text \<open>Sets that lost members and nothing else.\<close>

definition shrunk :: "View \<Rightarrow> (string \<Rightarrow> string set) \<Rightarrow> View \<Rightarrow> bool" where
  "shrunk v D v' = (\<forall>k. fst (vw_set v' k) = fst (vw_set v k) - D k
     \<and> (fst (vw_set v' k) \<noteq> {} \<longrightarrow> snd (vw_set v' k) = snd (vw_set v k)))"

lemma shrunk_refl: "vw_set v' = vw_set v \<Longrightarrow> shrunk v (\<lambda>_. {}) v'"
  by (simp add: shrunk_def)

lemma shrunk_trans: "shrunk v D v1 \<Longrightarrow> shrunk v1 E v2 \<Longrightarrow> shrunk v (\<lambda>k. D k \<union> E k) v2"
  unfolding shrunk_def by (simp add: Diff_Un) blast

lemma removed_shrunk: "removed v ks m v' \<Longrightarrow> shrunk v (\<lambda>k. if k \<in> set ks then {m} else {}) v'"
  by (simp add: removed_def shrunk_def norm_set_def)

lemma read_id_cong: "vw_val v (sessionKey sid) = vw_val w (sessionKey sid) \<Longrightarrow> read_id S v now sid = read_id S w now sid"
  by (simp add: read_id_def read_json_def)

lemma read_id_None: "vw_val v (sessionKey sid) = None \<Longrightarrow> read_id S v now sid = Inr None"
  by (simp add: read_id_def read_json_def)

lemma read_id_Some:
  "read_id S v now sid = Inr (Some x) \<longleftrightarrow>
     (\<exists>raw e. vw_val v (sessionKey sid) = Some (raw, e) \<and> ss_unmarshal S raw = Some x \<and> now < ses_ExpiresAt x)"
  by (auto simp: read_id_def read_json_def Live_def split: option.splits prod.splits)

lemma sess_inv_id: "sess_inv S v \<Longrightarrow> read_id S v now sid = Inr (Some x) \<Longrightarrow> ses_ID x = sid"
  unfolding sess_inv_def read_id_Some by fastforce

lemma idx_shrunk:
  assumes "idx_inv S v" and "shrunk v D v'" and "vw_now v' = vw_now v"
    and "\<And>sid. vw_val v' (sessionKey sid) = vw_val v (sessionKey sid) \<or> vw_val v' (sessionKey sid) = None"
    and "\<And>sid k x. sid \<in> D k \<Longrightarrow> read_id S v' (vw_now v) sid \<noteq> Inr (Some x)"
  shows "idx_inv S v'"
proof (rule idx_invI)
  fix sid x raw u k
  assume x: "read_id S v' (vw_now v') sid = Inr (Some x)" "vw_val v' (sessionKey sid) = Some (raw, Some u)"
    and k: "k \<in> set (session_sets x)"
  have same: "vw_val v' (sessionKey sid) = vw_val v (sessionKey sid)" using assms(4) [of sid] x(2) by auto
  have "sid \<notin> D k" using assms(5) [of sid k x] x(1) assms(3) by auto
  moreover have "read_id S v (vw_now v) sid = Inr (Some x)"
    using x(1) assms(3) read_id_cong [OF same, of S "vw_now v"] by simp
  then have "listed v sid u k" by (rule idx_invD [OF assms(1) _ _ k]) (use x(2) same in simp)
  ultimately show "listed v' sid u k" using assms(2) unfolding shrunk_def listed_def by (metis DiffI empty_iff)
qed

lemma idx_added:
  assumes "idx_inv S v" and "sess_inv S v" and "added v (session_sets x) sid (vw_now v + ss_lifetime S) v'"
    and "vw_now v' = vw_now v"
    and "\<And>sid'. sid' \<noteq> sid \<Longrightarrow> vw_val v' (sessionKey sid') = vw_val v (sessionKey sid')"
    and "vw_val v' (sessionKey sid) = Some (written, Some (vw_now v + ss_lifetime S))" and "ss_unmarshal S written = Some x"
  shows "idx_inv S v'"
proof (rule idx_invI)
  fix sid' y raw u k
  assume y: "read_id S v' (vw_now v') sid' = Inr (Some y)" "vw_val v' (sessionKey sid') = Some (raw, Some u)"
    and k: "k \<in> set (session_sets y)"
  have add: "k \<in> set (session_sets x) \<Longrightarrow> insert sid (fst (vw_set v k)) \<subseteq> fst (vw_set v' k)
      \<and> snd (vw_set v' k) = Some (vw_now v + ss_lifetime S)"
    "k \<notin> set (session_sets x) \<Longrightarrow> vw_set v' k = vw_set v k"
    using spec [OF assms(3) [unfolded added_def], of k] by simp_all
  show "listed v' sid' u k"
  proof (cases "sid' = sid")
    case True
    then have "y = x" "u = vw_now v + ss_lifetime S" using y assms(6,7) by (auto simp: read_id_Some)
    then show ?thesis using add(1) k True by (auto simp: listed_def)
  next
    case False
    note same = assms(5) [OF False]
    have old: "read_id S v (vw_now v) sid' = Inr (Some y)" "vw_val v (sessionKey sid') = Some (raw, Some u)"
      using y same assms(4) read_id_cong [OF same, of S "vw_now v"] by simp_all
    have "u \<le> vw_now v + ss_lifetime S" using assms(2) old(2) unfolding sess_inv_def by fastforce
    then show ?thesis
      using add idx_invD [OF assms(1) old k] by (cases "k \<in> set (session_sets x)") (auto simp: listed_def)
  qed
qed

lemma idx_later:
  assumes "idx_inv S v" and "0 \<le> d"
  shows "idx_inv S (view_later d v)"
proof (rule idx_invI)
  fix sid x raw u k
  assume x: "read_id S (view_later d v) (vw_now (view_later d v)) sid = Inr (Some x)" "vw_val (view_later d v) (sessionKey sid) = Some (raw, Some u)"
    and k: "k \<in> set (session_sets x)"
  have val: "vw_val v (sessionKey sid) = Some (raw, Some u)" "vw_now v + d < u"
    using x(2) by (auto simp: view_later_def unexpired_def split: option.splits if_splits)
  have "read_id S v (vw_now v) sid = Inr (Some x)"
    using x assms(2) val(1) by (auto simp: read_id_Some) (simp add: view_later_def)
  then have "listed v sid u k" by (rule idx_invD [OF assms(1) _ val(1) k])
  then show "listed (view_later d v) sid u k"
    using val(2) by (auto simp: listed_def view_later_def unexpired_def split: prod.splits)
qed

section \<open>Listing and ending, over the contract\<close>

context login_state
begin

lemma collect_from_law:
  assumes "sessions_over S L" and "ok s" and "collect_each S now q ids s = (s', Inr out)"
  shows "ok s' \<and> vw_now (view s') = vw_now (view s) \<and> vw_val (view s') = vw_val (view s)
    \<and> shrunk (view s) (\<lambda>k. if k = query_set q then {sid \<in> set ids. read_id S (view s) now sid = Inr None} else {}) (view s')
    \<and> set out = {x. query_selects q x \<and> (\<exists>sid \<in> set ids. read_id S (view s) now sid = Inr (Some x))}"
  using assms(2,3)
proof (induction ids arbitrary: s out)
  case Nil
  then show ?case by (auto simp: op_simps shrunk_def)
next
  case (Cons sid ids)
  note over = over_state [OF assms(1)]
  obtain s1 found where r: "byID S now sid s = (s1, Inr found)"
    using Cons.prems(2) by (auto simp: bnd_Inr)
  note g = byID_law [OF Cons.prems(1) over r]
  show ?case
  proof (cases found)
    case None
    obtain s2 u where rm: "ls_Remove L (query_set q) sid s1 = (s2, Inr u)" and rest: "collect_each S now q ids s2 = (s', Inr out)"
      using Cons.prems(2) r None over by (auto simp: bnd_Inr map_err_Inr)
    note h = remove_law [OF conjunct1 [OF g] rm]
    have v2: "vw_now (view s2) = vw_now (view s)" "vw_val (view s2) = vw_val (view s)" using g h by simp_all
    have ri: "read_id S (view s2) now j = read_id S (view s) now j" for j by (rule read_id_cong) (simp add: v2)
    have sh: "shrunk (view s) (\<lambda>k. if k = query_set q then {sid} else {}) (view s2)"
      using g h by (simp add: shrunk_def norm_set_def)
    note ih = Cons.IH [OF conjunct1 [OF h] rest]
    have D: "(\<lambda>k. (if k = query_set q then {sid} else {}) \<union>
        (if k = query_set q then {sid \<in> set ids. read_id S (view s2) now sid = Inr None} else {})) =
        (\<lambda>k. if k = query_set q then {sid' \<in> set (sid # ids). read_id S (view s) now sid' = Inr None} else {})"
      using g None by (auto simp: ri fun_eq_iff)
    have none: "read_id S (view s) now sid = Inr None" using g None by simp
    have sh2: "shrunk (view s) (\<lambda>k. if k = query_set q then {sid' \<in> set (sid # ids). read_id S (view s) now sid' = Inr None} else {}) (view s')"
      using shrunk_trans [OF sh conjunct1 [OF conjunct2 [OF conjunct2 [OF conjunct2 [OF ih]]]]] unfolding D .
    have "set out = {x. query_selects q x \<and> (\<exists>sid' \<in> set (sid # ids). read_id S (view s) now sid' = Inr (Some x))}"
      using ih none by (auto simp: ri)
    then show ?thesis using ih v2 sh2 by simp
  next
    case (Some x)
    obtain out' where rest: "collect_each S now q ids s1 = (s', Inr out')"
        and out: "out = (if query_selects q x then x # out' else out')"
      using Cons.prems(2) r Some by (auto simp: bnd_Inr ret_Inr)
    have v1: "view s1 = view s" using g by simp
    note ih = Cons.IH [OF conjunct1 [OF g] rest, unfolded v1]
    have D: "{sid' \<in> set (sid # ids). read_id S (view s) now sid' = Inr None} = {sid' \<in> set ids. read_id S (view s) now sid' = Inr None}"
      using g Some by auto
    have "set out = {x. query_selects q x \<and> (\<exists>sid' \<in> set (sid # ids). read_id S (view s) now sid' = Inr (Some x))}"
      using ih g Some out by auto
    then show ?thesis unfolding D using ih by simp
  qed
qed

lemma collect_law:
  assumes "sessions_over S L" and "ok s" and "collect_sessions S now q s = (s', Inr out)"
  shows "ok s' \<and> vw_now (view s') = vw_now (view s) \<and> vw_val (view s') = vw_val (view s)
    \<and> (\<exists>D. shrunk (view s) D (view s') \<and> (\<forall>k. \<forall>sid \<in> D k. read_id S (view s) now sid = Inr None))
    \<and> set out = {x. query_selects q x \<and> (\<exists>sid \<in> fst (vw_set (view s) (query_set q)). read_id S (view s) now sid = Inr (Some x))}"
proof -
  obtain s1 ids where m: "ls_Members L (query_set q) s = (s1, Inr ids)" and c: "collect_each S now q ids s1 = (s', Inr out)"
    using assms(1,3) by (auto simp: collect_sessions_def bnd_Inr map_err_Inr over_state)
  have g: "ok s1" "view s1 = view s" "set ids = fst (vw_set (view s) (query_set q))"
    using members_law [OF assms(2) m] by auto
  note h = collect_from_law [OF assms(1) g(1) c]
  then show ?thesis unfolding g(2)
    by (intro conjI exI [of _ "\<lambda>k. if k = query_set q then {sid \<in> set ids. read_id S (view s) now sid = Inr None} else {}"])
      (simp_all add: g(3))
qed

text \<open>Ending one session.\<close>

lemma RevokeID_law:
  assumes "sessions_over S L" and "ok s" and "sess_inv S (view s)" and "RevokeID S now sid s = (s', Inr gone)"
  shows "ok s' \<and> vw_now (view s') = vw_now (view s)
    \<and> (if gone then vw_val (view s') = (vw_val (view s))(sessionKey sid := None) else vw_val (view s') = vw_val (view s))
    \<and> read_id S (view s') now sid = Inr None
    \<and> gone = (read_id S (view s) now sid \<noteq> Inr None)
    \<and> (\<exists>D. shrunk (view s) D (view s') \<and> (\<forall>k. D k \<subseteq> (if gone then {sid} else {})))"
proof -
  note over = over_state [OF assms(1)]
  obtain s1 found where r: "byID S now sid s = (s1, Inr found)"
    using assms(4) by (auto simp: RevokeID_def bnd_Inr)
  note g = byID_law [OF assms(2) over r]
  show ?thesis
  proof (cases found)
    case None
    then have "s' = s1" "\<not> gone" using assms(4) r by (auto simp: RevokeID_def bnd_Inr ret_Inr)
    then show ?thesis using g None shrunk_refl [of "view s'" "view s"] by (auto intro!: exI [of _ "\<lambda>_. {}"])
  next
    case (Some x)
    have x: "ses_ID x = sid" using sess_inv_id [OF assms(3)] g Some by simp
    obtain u where d: "deleteSession S x s1 = (s', Inr u)" "gone"
      using assms(4) r Some by (auto simp: RevokeID_def bnd_Inr ret_Inr)
    note h = deleteSession_law [OF conjunct1 [OF g] over d(1)]
    have "shrunk (view s) (\<lambda>k. if k \<in> set (session_sets x) then {sid} else {}) (view s')"
      using h g x removed_shrunk [of "view s" "session_sets x" sid "view s'"] by simp
    then show ?thesis
      using h g d(2) x Some read_id_None [of "view s'" sid S now]
      by (auto intro!: exI [of _ "\<lambda>k. if k \<in> set (session_sets x) then {sid} else {}"] split: if_splits)
  qed
qed

lemma revoke_each_law:
  assumes "sessions_over S L" and "ok s" and "sess_inv S (view s)" and "revoke_each S now xs n s = (s', m, None)"
  shows "ok s' \<and> vw_now (view s') = vw_now (view s) \<and> vw_val (view s') \<subseteq>\<^sub>m vw_val (view s)
    \<and> (\<forall>x \<in> set xs. read_id S (view s') now (ses_ID x) = Inr None)
    \<and> (\<exists>D. shrunk (view s) D (view s') \<and> (\<forall>k. \<forall>sid \<in> D k. read_id S (view s') now sid = Inr None))"
  using assms(2-4)
proof (induction xs arbitrary: s n)
  case Nil
  then show ?case using shrunk_refl [of "view s" "view s"] by (auto intro!: exI [of _ "\<lambda>_. {}"])
next
  case (Cons x xs)
  obtain s1 gone where r: "RevokeID S now (ses_ID x) s = (s1, Inr gone)"
      and rest: "\<exists>n'. revoke_each S now xs n' s1 = (s', m, None)"
    using Cons.prems(3) by (auto split: prod.splits sum.splits)
  note g = RevokeID_law [OF assms(1) Cons.prems(1,2) r]
  have inv1: "sess_inv S (view s1)" by (rule sess_inv_other [OF Cons.prems(2)]) (use g in \<open>auto split: if_splits\<close>)
  obtain n' where "revoke_each S now xs n' s1 = (s', m, None)" using rest by blast
  note h = Cons.IH [OF conjunct1 [OF g] inv1 this]
  have le: "vw_val (view s1) \<subseteq>\<^sub>m vw_val (view s)" using g by (auto simp: map_le_def split: if_splits)
  have down: "read_id S (view s') now sid = Inr None" if "read_id S (view s1) now sid = Inr None" for sid
    using that h by (auto simp: read_id_def read_json_def map_le_def dom_def split: option.splits sum.splits if_splits)
  obtain D E where D: "shrunk (view s) D (view s1)" "\<And>k. D k \<subseteq> (if gone then {ses_ID x} else {})"
      and E: "shrunk (view s1) E (view s')" "\<And>k sid. sid \<in> E k \<Longrightarrow> read_id S (view s') now sid = Inr None"
    using g h by blast
  have "read_id S (view s') now sid = Inr None" if "sid \<in> D k \<union> E k" for k sid
    using that D(2) [of k] E(2) down [of sid] g by (auto split: if_splits)
  moreover have "vw_val (view s') \<subseteq>\<^sub>m vw_val (view s)" using h le map_le_trans by blast
  moreover have "\<forall>y \<in> set (x # xs). read_id S (view s') now (ses_ID y) = Inr None" using g h down by auto
  ultimately show ?case using g h shrunk_trans [OF D(1) E(1)] by (intro conjI exI [of _ "\<lambda>k. D k \<union> E k"]) auto
qed

end

end
