(* ===== verification/Record_Text.thy ===== *)
theory Record_Text
  imports Encoding
begin

text \<open>
  A text form for records, to run the stores with: the fields in unpadded base64, kept apart by dots.
  The components leave the JSON form of what they store as a parameter and ask only that it is read back
  as it was written; this form shows that such a form exists, and their witnesses run on it.
\<close>

definition int_text :: "int \<Rightarrow> string" where
  "int_text n = (if n < 0 then CHR ''-'' # show_digits (- n) else CHR ''+'' # show_digits n)"

definition text_int :: "string \<Rightarrow> int option" where
  "text_int s = (case s of [] \<Rightarrow> None | c # cs \<Rightarrow> map_option (\<lambda>n. if c = CHR ''-'' then - n else n) (parse_digits 0 cs))"

definition dotted :: "string list \<Rightarrow> string" where
  "dotted fs = join ''.'' (map b64_encode fs)"

definition undotted :: "string \<Rightarrow> string list option" where
  "undotted s = all_some (map b64_decode (split_on CHR ''.'' s))"

lemma int_text_read: "text_int (int_text n) = Some n"
  using parse_show_digits [of n] parse_show_digits [of "- n"] by (simp add: text_int_def int_text_def)

lemma undotted_dotted: "undotted (dotted (f # fs)) = Some (f # fs)"
proof -
  have dots: "CHR ''.'' \<notin> set (b64_encode f)" for f by (rule b64_encode_free) (simp add: b64_alphabet_def)
  have reads: "map b64_decode (map b64_encode fs) = map Some fs" for fs by (simp add: b64_round_trip)
  have split: "split_on CHR ''.'' (join ''.'' (map b64_encode (f # fs))) = map b64_encode (f # fs)" for f fs
    by (rule split_on_join) (simp_all add: dots)
  show ?thesis unfolding undotted_def dotted_def split reads all_some_map_Some ..
qed

end
