(* ===== verification/Session_Properties.thy ===== *)
theory Session_Properties
  imports Session_Safety Record_Text
begin

text \<open>
  The properties of the issuer's sessions, on both stores they are kept in: the limit on how long a
  session lives, the single use of a refresh token and its grace, the completeness of a revocation, and
  what two requests running at once can do, which the code's comments do not expect.
\<close>

section \<open>The index over operations that succeed\<close>

lemma idx_same:
  "idx_inv S v \<Longrightarrow> vw_now w = vw_now v \<Longrightarrow> vw_set w = vw_set v
    \<Longrightarrow> (\<And>sid. vw_val w (sessionKey sid) = vw_val v (sessionKey sid)) \<Longrightarrow> idx_inv S w"
  by (rule idx_shrunk [of S v "\<lambda>_. {}" w]) (simp_all add: shrunk_def)

context login_state
begin

lemma idx_Record:
  assumes "sessions_over S L" and "ok s" and "sess_inv S (view s)" and "idx_inv S (view s)"
    and "Record S (vw_now (view s)) sid p s = (s', Inr x)"
  shows "idx_inv S (view s')"
proof -
  note law = Record_law [OF assms(2,1,5)]
  have "ss_unmarshal S (ss_marshal S x) = Some x" using assms(1) by (simp add: sessions_over_def)
  then show ?thesis
    using law by (intro idx_added [OF assms(4,3), where x = x and sid = sid and written = "ss_marshal S x"]) auto
qed

lemma idx_rotate:
  assumes "sessions_over S L" and "ok s" and "sess_inv S (view s)" and "idx_inv S (view s)"
    and "rotate_session S (vw_now (view s)) a b x s = (s', Inr r)"
  shows "idx_inv S (view s')"
proof (cases "vw_now (view s) < ses_ExpiresAt (rotated S (vw_now (view s)) x)")
  case True
  let ?y = "rotated S (vw_now (view s)) x"
  note law = rotate_law [OF assms(2,1,5)]
  have "ss_unmarshal S (ss_marshal S ?y) = Some ?y" using assms(1) by (simp add: sessions_over_def)
  moreover have "session_sets ?y = session_sets x" by (simp add: rotated_def session_sets_def)
  ultimately show ?thesis
    using law True
    by (intro idx_added [OF assms(4,3), where x = ?y and sid = "ses_ID x" and written = "ss_marshal S ?y"]) auto
next
  case False
  note law = rotate_law [OF assms(2,1,5)]
  show ?thesis
    by (rule idx_shrunk [OF assms(4) removed_shrunk [of _ "session_sets x" "ses_ID x"]])
      (use law False in \<open>auto simp: read_id_None split: if_splits\<close>)
qed

lemma idx_Refreshed:
  assumes "sessions_over S L" and "ok s" and "sess_inv S (view s)" and "idx_inv S (view s)"
    and "Refreshed S (vw_now (view s)) a b s = (s', Inr r)"
  shows "idx_inv S (view s')"
proof -
  obtain s1 found where bt: "ByToken S (vw_now (view s)) a s = (s1, Inr found)"
    using assms(5) by (auto simp: Refreshed_def bnd_Inr)
  note g = ByToken_law [OF assms(2) over_state [OF assms(1)] bt]
  show ?thesis
  proof (cases found)
    case None
    then have "replayed S (vw_now (view s)) a s1 = (s', Inr r)" using assms(5) bt by (auto simp: Refreshed_def bnd_Inr)
    then show ?thesis using replayed_law [OF conjunct1 [OF g] over_state [OF assms(1)]] g assms(4) by auto
  next
    case (Some x)
    then have "rotate_session S (vw_now (view s1)) a b x s1 = (s', Inr r)"
      using assms(5) bt g by (auto simp: Refreshed_def bnd_Inr)
    then show ?thesis using idx_rotate [OF assms(1) conjunct1 [OF g]] g assms(3,4) by auto
  qed
qed

lemma idx_RevokeID:
  assumes "sessions_over S L" and "ok s" and "sess_inv S (view s)" and "idx_inv S (view s)"
    and "RevokeID S (vw_now (view s)) sid s = (s', Inr gone)"
  shows "idx_inv S (view s')"
proof -
  note law = RevokeID_law [OF assms(1-3,5)]
  then obtain D where D: "shrunk (view s) D (view s')" "\<And>k. D k \<subseteq> (if gone then {sid} else {})" by blast
  have dead: "read_id S (view s') (vw_now (view s)) j \<noteq> Inr (Some x)" if "j \<in> D k" for j k x
    using that D(2) [of k] law by (auto split: if_splits)
  show ?thesis by (rule idx_shrunk [OF assms(4) D(1)]) (use law dead in \<open>auto split: if_splits\<close>)
qed

lemma idx_RevokeToken:
  assumes "sessions_over S L" and "ok s" and "sess_inv S (view s)" and "idx_inv S (view s)"
    and "RevokeToken S (vw_now (view s)) tok s = (s', Inr gone)"
  shows "idx_inv S (view s')"
proof -
  note over = over_state [OF assms(1)]
  obtain s1 raw where g: "st (ls_Get L (sessionTokenKey S tok)) s = (s1, Inr raw)"
    using assms(5) over by (auto simp: RevokeToken_def bnd_Inr)
  note gl = st_get [OF assms(2) g]
  show ?thesis
  proof (cases raw)
    case None
    then show ?thesis using assms(4,5) g gl over by (auto simp: RevokeToken_def bnd_Inr ret_Inr)
  next
    case (Some sid)
    obtain s2 u where d: "st (ls_Delete L (sessionTokenKey S tok)) s1 = (s2, Inr u)"
        and r: "RevokeID S (vw_now (view s)) sid s2 = (s', Inr gone)"
      using assms(5) g over Some by (auto simp: RevokeToken_def bnd_Inr)
    note dl = st_delete [OF conjunct1 [OF gl] d]
    have "sess_inv S (view s2)" by (rule sess_inv_other [OF assms(3)]) (use gl dl in auto)
    moreover have "idx_inv S (view s2)" by (rule idx_same [OF assms(4)]) (use gl dl in auto)
    moreover have "vw_now (view s2) = vw_now (view s)" using gl dl by simp
    ultimately show ?thesis using idx_RevokeID [OF assms(1) conjunct1 [OF dl]] r by simp
  qed
qed

lemma idx_collect:
  assumes "sessions_over S L" and "ok s" and "idx_inv S (view s)" and "collect_sessions S (vw_now (view s)) q s = (s', Inr out)"
  shows "idx_inv S (view s')"
proof -
  note law = collect_law [OF assms(1,2,4)]
  then obtain D where D: "shrunk (view s) D (view s')" "\<And>k sid. sid \<in> D k \<Longrightarrow> read_id S (view s) (vw_now (view s)) sid = Inr None" by blast
  have same: "read_id S (view s') now j = read_id S (view s) now j" for now j
    by (rule read_id_cong) (use law in simp)
  show ?thesis
    by (rule idx_shrunk [OF assms(3) D(1)]) (use law D(2) in \<open>simp_all add: same\<close>)
qed

text \<open>After a revocation that succeeds, nothing it named is left.\<close>

lemma Revoke_law:
  assumes "sessions_over S L" and "ok s" and "sess_inv S (view s)" and "idx_inv S (view s)"
    and "Revoke S (vw_now (view s)) q s = (s', m, None)"
  shows "idx_inv S (view s') \<and> vw_now (view s') = vw_now (view s) \<and> vw_val (view s') \<subseteq>\<^sub>m vw_val (view s)
    \<and> (\<forall>x sid. sid \<in> fst (vw_set (view s) (query_set q)) \<and> query_selects q x
        \<and> read_id S (view s) (vw_now (view s)) sid = Inr (Some x) \<longrightarrow> read_id S (view s') (vw_now (view s)) sid = Inr None)"
proof -
  obtain s1 xs where c: "collect_sessions S (vw_now (view s)) q s = (s1, Inr xs)"
      and r: "revoke_each S (vw_now (view s)) xs 0 s1 = (s', m, None)"
    using assms(5) by (auto simp: Revoke_def split: if_splits prod.splits sum.splits)
  note cl = collect_law [OF assms(1,2) c]
  have same: "read_id S (view s1) now j = read_id S (view s) now j" for now j
    by (rule read_id_cong) (use cl in simp)
  have inv1: "sess_inv S (view s1)" by (rule sess_inv_other [OF assms(3)]) (use cl in auto)
  note rl = revoke_each_law [OF assms(1) conjunct1 [OF cl] inv1 r]
  obtain D where D: "shrunk (view s1) D (view s')"
      "\<And>k sid. sid \<in> D k \<Longrightarrow> read_id S (view s') (vw_now (view s)) sid = Inr None" using rl by blast
  have "idx_inv S (view s')"
    by (rule idx_shrunk [OF idx_collect [OF assms(1,2,4) c] D(1)])
      (use rl cl D(2) in \<open>auto simp: map_le_def dom_def\<close>)
  moreover have "read_id S (view s') (vw_now (view s)) sid = Inr None"
    if "sid \<in> fst (vw_set (view s) (query_set q))" "query_selects q x" "read_id S (view s) (vw_now (view s)) sid = Inr (Some x)" for x sid
  proof -
    have "x \<in> set xs" using cl that by blast
    moreover have "ses_ID x = sid" by (rule sess_inv_id [OF assms(3) that(3)])
    ultimately show ?thesis using rl by blast
  qed
  ultimately show ?thesis using rl cl by auto
qed

lemma isl_cases: "\<not> isl r \<longleftrightarrow> (\<exists>x. r = Inr x)"
  by (cases r) auto

lemma idx_step:
  assumes "sessions_over S L" and "sess_step S (\<lambda>s. vw_now (view s)) wait True s s'" and "ok s" and "sess_inv S (view s)"
    and "idx_inv S (view s)"
  shows "idx_inv S (view s')"
  using assms(2)
proof cases
  case (step_record sid p res)
  then show ?thesis using idx_Record [OF assms(1,3-5)] by (auto simp: isl_cases)
next
  case (step_refresh a b res)
  then show ?thesis using idx_Refreshed [OF assms(1,3-5)] by (auto simp: isl_cases)
next
  case (step_rotate a b x res)
  then show ?thesis using idx_rotate [OF assms(1,3-5)] by (auto simp: isl_cases)
next
  case (step_revoke_id sid gone)
  then show ?thesis using idx_RevokeID [OF assms(1,3-5)] by (auto simp: isl_cases)
next
  case (step_revoke_token tok gone)
  then show ?thesis using idx_RevokeToken [OF assms(1,3-5)] by (auto simp: isl_cases)
next
  case (step_revoke q n e)
  then show ?thesis using Revoke_law [OF assms(1,3-5)] by simp
next
  case (step_list q listed)
  then obtain x where "collect_sessions S (vw_now (view s)) q s = (s', Inr x)"
    by (auto simp: isl_cases List_Sessions_def bnd_Inr ret_Inr)
  then show ?thesis by (rule idx_collect [OF assms(1,3,5)])
next
  case (step_sweep n e)
  then show ?thesis using Sweep_law [OF assms(1,3)] assms(5) by simp
next
  case (step_wait d)
  then show ?thesis using wait_law [OF assms(3)] idx_later [OF assms(5)] by simp
qed

lemma idx_run:
  assumes "sessions_over S L" and "sess_run S (\<lambda>s. vw_now (view s)) wait True s s'" and "ok s" and "sess_inv S (view s)"
    and "idx_inv S (view s)"
  shows "ok s' \<and> sess_inv S (view s') \<and> idx_inv S (view s')"
  using assms(2-5)
proof (induction rule: sess_run.induct)
  case (run_step s1 b s2)
  then have "b" by simp
  then show ?case using run_step kept_step [OF assms(1)] idx_step [OF assms(1), of s1 s2] by simp
qed simp

text \<open>A query that is no substring search reads a set every session it selects is listed in.\<close>

lemma query_set_covers:
  assumes "query_selects q x" and "\<not> q_Contains q" and "trim_space (q_Identity q) = q_Identity q"
  shows "query_set q \<in> set (session_sets x)"
  using assms
  by (auto simp: query_selects_def query_set_def session_sets_def matches_def sessionOfKey_def Let_def split: if_splits)

lemma live_is_listed:
  assumes "sess_inv S v" and "idx_inv S v" and "read_id S v (vw_now v) sid = Inr (Some x)" and "k \<in> set (session_sets x)"
  shows "sid \<in> fst (vw_set v k)"
proof -
  obtain raw e where "vw_val v (sessionKey sid) = Some (raw, e)" using assms(3) by (auto simp: read_id_Some)
  moreover from this obtain w where "e = Some (w + ss_lifetime S)" using assms(1) unfolding sess_inv_def by fastforce
  ultimately show ?thesis using idx_invD [OF assms(2,3) _ assms(4)] by (auto simp: listed_def)
qed

text \<open>What answers a refresh token is a live record.\<close>

lemma read_token_Some: "read_token S v now tok = Inr (Some x) \<Longrightarrow> \<exists>sid. read_id S v now sid = Inr (Some x)"
  by (auto simp: read_token_def split: option.splits)

lemma ByRefreshToken_law:
  assumes "sessions_over S L" and "ok s" and "ByRefreshToken S now tok s = (s', Inr (Some x))"
  shows "ok s' \<and> view s' = view s \<and> (\<exists>sid. read_id S (view s) now sid = Inr (Some x))"
proof -
  note over = over_state [OF assms(1)]
  obtain s1 found where bt: "ByToken S now tok s = (s1, Inr found)"
    using assms(3) by (auto simp: ByRefreshToken_def bnd_Inr)
  note g = ByToken_law [OF assms(2) over bt]
  show ?thesis
  proof (cases found)
    case (Some y)
    then have "s' = s1" "y = x" using assms(3) bt by (auto simp: ByRefreshToken_def bnd_Inr ret_Inr)
    then show ?thesis using g Some read_token_Some [of S "view s" now tok x] by auto
  next
    case None
    then obtain r where r: "replayed S now tok s1 = (s', Inr (Some (x, r)))"
      using assms(3) bt by (auto simp: ByRefreshToken_def bnd_Inr ret_Inr dest!: sym [of "Some x"])
    have "read_replay S (view s) now tok = Inr (Some (x, r))" using replayed_law [OF conjunct1 [OF g] over r] g by simp
    then have "\<exists>t. read_token S (view s) now t = Inr (Some x)"
      by (auto simp: read_replay_def split: option.splits sum.splits)
    then show ?thesis using replayed_law [OF conjunct1 [OF g] over r] g read_token_Some by metis
  qed
qed

text \<open>A refresh: the spent token is gone, and answers its successor for as long as the grace lasts.\<close>

lemma rotation_law:
  assumes "sessions_over S L" and "ok s" and "ByToken S (vw_now (view s)) a s = (s0, Inr (Some x))"
    and "Refreshed S (vw_now (view s)) a b s = (s', Inr (Some (y, tok)))"
  shows "tok = b \<and> y = rotated S (vw_now (view s)) x \<and> ok s' \<and> vw_now (view s') = vw_now (view s)
    \<and> vw_val (view s') = (vw_val (view s))(sessionTokenKey S a := None,
           sessionRotatedKey S a \<mapsto> (b, Some (vw_now (view s) + refreshGrace)),
           sessionKey (ses_ID x) \<mapsto> (ss_marshal S y, Some (vw_now (view s) + ss_lifetime S)),
           sessionTokenKey S b \<mapsto> (ses_ID x, Some (vw_now (view s) + ss_lifetime S)))"
proof -
  note g = ByToken_law [OF assms(2) over_state [OF assms(1)] assms(3)]
  have rot: "rotate_session S (vw_now (view s0)) a b x s0 = (s', Inr (Some (y, tok)))"
    using assms(3,4) g by (auto simp: Refreshed_def bnd_Inr)
  note h = rotate_law [OF conjunct1 [OF g] assms(1) rot]
  show ?thesis using g h by (auto split: if_splits)
qed

lemma rotated_bound: "ses_ExpiresAt (rotated S now x) \<le> now + ss_lifetime S"
  by (auto simp: rotated_def capEnd_def Let_def split: option.splits)

lemma rotation_replay:
  assumes "sessions_over S L" and "ok s" and "ByToken S (vw_now (view s)) a s = (s0, Inr (Some x))"
    and "Refreshed S (vw_now (view s)) a b s = (s', Inr (Some (y, tok)))"
    and "ss_digest S a \<noteq> ss_digest S b" and "0 \<le> d"
    and "Refreshed S (vw_now (view s) + d) a c (wait d s') = (s'', res)"
  shows "view s'' = view (wait d s')
    \<and> res = Inr (if d < refreshGrace \<and> vw_now (view s) + d < ses_ExpiresAt y then Some (y, b) else None)"
proof -
  let ?n = "vw_now (view s)"
  note h = rotation_law [OF assms(1-4)]
  have w: "ok (wait d s')" "view (wait d s') = view_later d (view s')" using wait_law [OF _ assms(6)] h by auto
  obtain s1 r1 where bt: "ByToken S (?n + d) a (wait d s') = (s1, r1)" by (cases "ByToken S (?n + d) a (wait d s')")
  note g = ByToken_law [OF w(1) over_state [OF assms(1)] bt]
  have dead: "read_token S (view_later d (view s')) (?n + d) a = Inr None"
    using h assms(5) by (simp add: read_token_def view_later_def)
  have rp: "replayed S (?n + d) a s1 = (s'', res)"
    using assms(7) bt g dead w(2) by (auto simp: Refreshed_def bnd_def)
  note k = replayed_law [OF conjunct1 [OF g] over_state [OF assms(1)] rp]
  have um: "ss_unmarshal S (ss_marshal S y) = Some y" using assms(1) by (simp add: sessions_over_def)
  have life: "?n + d < ses_ExpiresAt y \<Longrightarrow> d < ss_lifetime S" using h rotated_bound [of S ?n x] by simp
  have "read_replay S (view_later d (view s')) (?n + d) a =
      Inr (if d < refreshGrace \<and> ?n + d < ses_ExpiresAt y then Some (y, b) else None)"
    using h assms(5) um life
    by (auto simp: read_replay_def read_token_def read_id_def read_json_def view_later_def unexpired_def Live_def)
  then show ?thesis using k g w(2) by simp
qed

end

section \<open>A text form to run the sessions with\<close>

text \<open>
  Any form that is read back as it was written will do; this one keeps the fields apart with dots. It
  shows that what the theorems below ask of \<open>marshal\<close> and \<open>unmarshal\<close> can hold, and runs their witnesses.
\<close>

definition time_text :: "int option \<Rightarrow> string" where
  "time_text t = (case t of None \<Rightarrow> [] | Some n \<Rightarrow> int_text n)"

definition how_text :: "How \<Rightarrow> string" where
  "how_text h = (case h of HowCode \<Rightarrow> ''code'' | HowDevice \<Rightarrow> ''device'' | HowExchange \<Rightarrow> ''exchange'')"

definition text_how :: "string \<Rightarrow> How" where
  "text_how s = (if s = ''code'' then HowCode else if s = ''device'' then HowDevice else HowExchange)"

definition session_text :: "Session \<Rightarrow> string" where
  "session_text x = dotted ([ses_ID x, ses_Identity x, ses_ClientID x, how_text (ses_How x), ses_Resource x,
     ses_SSO x, time_text (ses_AuthTime x), int_text (ses_IssuedAt x), int_text (ses_ExpiresAt x),
     time_text (ses_LastRefreshed x)] @ ses_Scopes x)"

definition text_session :: "string \<Rightarrow> Session option" where
  "text_session s =
     (case undotted s of
        Some (a # b # c # h # r # br # au # iss # ex # la # sc) \<Rightarrow>
          (case (text_int iss, text_int ex) of
             (Some i, Some e) \<Rightarrow> Some \<lparr>ses_ID = a, ses_Identity = b, ses_ClientID = c, ses_How = text_how h, ses_Scopes = sc,
                ses_Resource = r, ses_SSO = br, ses_AuthTime = text_int au, ses_IssuedAt = i, ses_ExpiresAt = e,
                ses_LastRefreshed = text_int la\<rparr>
           | _ \<Rightarrow> None)
      | _ \<Rightarrow> None)"

lemma time_text_read: "text_int (time_text t) = t"
  by (cases t) (simp_all add: time_text_def int_text_read, simp add: text_int_def)

lemma how_text_read: "text_how (how_text h) = h"
  by (cases h) (simp_all add: how_text_def text_how_def)

lemma session_text_read: "text_session (session_text x) = Some x"
  unfolding text_session_def session_text_def append_Cons undotted_dotted
  by (simp add: int_text_read time_text_read how_text_read)

section \<open>On the stores\<close>

lemma port_clock: "st_now = (\<lambda>s. vw_now (store_view s))"
  by (simp add: store_view_def)

lemma port_start:
  "store_ok (Store_New t) \<and> sets_ok (Store_New t)" "sess_inv S (store_view (Store_New t))" "idx_inv S (store_view (Store_New t))"
  using store_ok_New [of t]
  by (simp_all add: sets_ok_def sess_inv_def idx_inv_def read_id_def read_json_def store_view_def liveEntry_def Store_New_def)

lemma port_run:
  assumes "sessions_over S port_state" and "sess_run S st_now Store_Advance fine (Store_New t) s"
  shows "(store_ok s \<and> sets_ok s) \<and> sess_inv S (store_view s) \<and> (fine \<longrightarrow> idx_inv S (store_view s))"
  using ps.kept_run [OF assms(1) _ port_start(1,2)] ps.idx_run [OF assms(1) _ port_start] assms(2)
  unfolding port_clock by (cases fine) auto

lemma answers_within_limit:
  assumes "sessions_over S port_state" and "sess_run S st_now Store_Advance fine (Store_New t) s"
    and "ByRefreshToken S (st_now s) tok s = (s', Inr (Some x))"
    and "ses_AuthTime x = Some auth" and "0 < absoluteOf S [ses_Resource x]"
  shows "st_now s < auth + absoluteOf S [ses_Resource x]"
proof -
  note r = port_run [OF assms(1,2)]
  obtain sid where "read_id S (store_view s) (st_now s) sid = Inr (Some x)"
    using ps.ByRefreshToken_law [OF assms(1) conjunct1 [OF r] assms(3)] by blast
  then have "\<not> pastLimit S (st_now s) x" using ps.live_within_limit r by blast
  then show ?thesis using assms(4,5) by (simp add: pastLimit_def Let_def)
qed

text \<open>
  C4. No session outlives the absolute limit. Whatever has been recorded, refreshed, listed, revoked and
  waited for before, with refreshes interleaved in any way: when a refresh token, or one rotated within
  the grace, answers with a session of a person, the instant is before the moment they authenticated
  plus the absolute limit of what the session is for.
\<close>
theorem no_session_outlives_its_limit:
  assumes "sessions_over S port_state" and "sess_run S st_now Store_Advance fine (Store_New t) s"
    and "ByRefreshToken S (st_now s) tok s = (s', Inr (Some x))"
    and "ses_AuthTime x = Some auth" and "0 < absoluteOf S [ses_Resource x]"
  shows "st_now s < auth + absoluteOf S [ses_Resource x]"
  by (rule answers_within_limit [OF assms])

text \<open>
  C8. A refresh token is used once. When a live token is refreshed, the session it named goes on under
  the new token, its identity, client, scopes, resource and time of sign-in as they were. From then on the
  spent token writes nothing: for the thirty seconds of grace, while the session lives, it is answered with
  the very successor, and after that it is refused.
\<close>
theorem refresh_token_is_used_once:
  assumes "sessions_over S port_state" and "store_ok s \<and> sets_ok s"
    and "ByToken S (st_now s) a s = (s0, Inr (Some x))"
    and "Refreshed S (st_now s) a b s = (s', Inr (Some (y, tok)))"
    and "ss_digest S a \<noteq> ss_digest S b" and "0 \<le> d"
    and "Refreshed S (st_now s + d) a c (Store_Advance d s') = (s'', res)"
  shows "tok = b \<and> y = x\<lparr>ses_LastRefreshed := Some (st_now s), ses_ExpiresAt := ses_ExpiresAt y\<rparr>
    \<and> store_view s'' = store_view (Store_Advance d s')
    \<and> res = Inr (if d < refreshGrace \<and> st_now s + d < ses_ExpiresAt y then Some (y, b) else None)"
  using ps.rotation_law [OF assms(1,2) assms(3,4) [unfolded port_clock]]
    ps.rotation_replay [OF assms(1,2) assms(3,4) [unfolded port_clock] assms(5,6) assms(7) [unfolded port_clock]]
  unfolding port_clock by (simp add: rotated_def)


text \<open>
  A listing is exact. After operations that succeeded, a listing that is no substring search returns
  the live sessions the query selects and no other, the newest first.
\<close>
theorem session_listing_is_exact:
  assumes "sessions_over S port_state" and "sess_run S st_now Store_Advance True (Store_New t) s"
    and "\<not> q_Contains q" and "trim_space (q_Identity q) = q_Identity q"
    and "List_Sessions S (st_now s) q s = (s', Inr xs)"
  shows "set xs = {x. query_selects q x \<and> (\<exists>sid. snd (byID S (st_now s) sid s) = Inr (Some x))}
    \<and> sorted (map (\<lambda>x. - ses_IssuedAt x) xs)"
proof -
  note r = port_run [OF assms(1,2)]
  obtain ys where c: "collect_sessions S (st_now s) q s = (s', Inr ys)" and xs: "xs = newest_first ys"
    using assms(5) by (auto simp: List_Sessions_def bnd_Inr ret_Inr)
  note cl = ps.collect_law [OF assms(1) conjunct1 [OF r] c]
  have byID: "snd (byID S (st_now s) sid s) = read_id S (store_view s) (st_now s) sid" for sid
    using ps.byID_law [OF conjunct1 [OF r] ps.over_state [OF assms(1)], of "st_now s" sid "fst (byID S (st_now s) sid s)"] by simp
  have "sid \<in> fst (vw_set (store_view s) (query_set q))"
    if "query_selects q x" "read_id S (store_view s) (st_now s) sid = Inr (Some x)" for x sid
    using that ps.live_is_listed [of S "store_view s" sid x "query_set q"] ps.query_set_covers [of q x] r assms(3,4)
    unfolding port_clock by simp
  then have "set ys = {x. query_selects q x \<and> (\<exists>sid. snd (byID S (st_now s) sid s) = Inr (Some x))}"
    using cl by (auto simp: byID)
  then show ?thesis by (simp add: xs newest_first_def)
qed

text \<open>
  C0. The reason given for a refused refresh is right: when \<open>endedByAbsoluteLimit\<close> answers, the session
  was ended by the absolute limit and by nothing else.
\<close>

theorem ended_only_by_the_limit:
  assumes "sessions_over S port_state" and "sess_run S st_now Store_Advance fine (Store_New t) s"
    and "endedByAbsoluteLimit S (st_now s) tok s = (s', Inr (Some x))"
  shows "pastLimit S (st_now s) x"
proof -
  note r = port_run [OF assms(1,2)]
  have "read_ended S (store_view s) (st_now s) tok = Inr (Some x)"
    using ps.ended_law [OF conjunct1 [OF r] ps.over_state [OF assms(1)] assms(3)] by simp
  then show ?thesis using ps.ended_past_limit r unfolding port_clock by blast
qed

section \<open>Runs\<close>

text \<open>One hour of refresh window, two hours of absolute limit; Ada signs in at the start and opens one session.\<close>

definition w_sessions :: "'s LoginState \<Rightarrow> 's Sessions" where
  "w_sessions L = NewSessions L session_text text_session id 3600000000000 7200000000000"

definition w_opened :: Opened where
  "w_opened = \<lparr>op_Identity = ''Ada'', op_ClientID = ''argo'', op_Resource = [], op_How = HowCode, op_Token = ''t0'',
     op_Scopes = [''openid''], op_SSO = [], op_AuthTime = Some 0\<rparr>"

definition w_session :: Session where
  "w_session = opened_session (w_sessions port_state) 0 ''id1'' w_opened"

definition w_store :: Store where
  "w_store = fst (Record (w_sessions port_state) 0 ''id1'' w_opened (Store_New 0))"

definition w_ada :: Query where
  "w_ada = \<lparr>q_Identity = ''ada'', q_ClientID = [], q_SSO = [], q_Contains = False\<rparr>"

lemma w_over: "sessions_over (w_sessions L) L"
  by (simp add: sessions_over_def w_sessions_def NewSessions_def session_text_read)

lemma w_record: "Record (w_sessions port_state) (st_now (Store_New 0)) ''id1'' w_opened (Store_New 0) = (w_store, Inr w_session)"
  by code_simp

lemma w_by_token: "ByToken (w_sessions port_state) (st_now w_store) ''t0'' w_store = (w_store, Inr (Some w_session))"
  by code_simp

lemma w_by_refresh_token: "ByRefreshToken (w_sessions port_state) (st_now w_store) ''t0'' w_store = (w_store, Inr (Some w_session))"
  by code_simp

lemma w_run: "sess_run (w_sessions port_state) st_now Store_Advance fine (Store_New 0) w_store"
  by (rule run_step [OF run_start step_record [where clock = st_now, OF w_record]]) simp

theorem no_session_outlives_witness:
  "st_now w_store < 0 + absoluteOf (w_sessions port_state) [ses_Resource w_session]"
proof (rule no_session_outlives_its_limit [OF w_over w_run w_by_refresh_token])
  show "ses_AuthTime w_session = Some 0" by code_simp
  show "0 < absoluteOf (w_sessions port_state) [ses_Resource w_session]" by code_simp
qed

text \<open>The first refresh, at the start, and its replay one second and one minute later.\<close>

definition w_refreshed :: Store where
  "w_refreshed = fst (Refreshed (w_sessions port_state) 0 ''t0'' ''t1'' w_store)"

definition w_moved :: Session where
  "w_moved = rotated (w_sessions port_state) 0 w_session"

lemma w_refresh: "Refreshed (w_sessions port_state) (st_now w_store) ''t0'' ''t1'' w_store = (w_refreshed, Inr (Some (w_moved, ''t1'')))"
  by code_simp

definition w_replay :: "int \<Rightarrow> Store \<times> (sess_err + (Session \<times> string) option)" where
  "w_replay d = Refreshed (w_sessions port_state) (st_now w_store + d) ''t0'' ''t2'' (Store_Advance d w_refreshed)"

theorem refresh_once_witness:
  "snd (w_replay 1000000000) = Inr (Some (w_moved, ''t1'')) \<and> snd (w_replay 60000000000) = Inr None"
proof -
  have tok: "ss_digest (w_sessions port_state) ''t0'' \<noteq> ss_digest (w_sessions port_state) ''t1''" by code_simp
  have ok: "store_ok w_store \<and> sets_ok w_store" using port_run [OF w_over w_run] by blast
  have replay: "Refreshed (w_sessions port_state) (st_now w_store + d) ''t0'' ''t2'' (Store_Advance d w_refreshed) =
      (fst (w_replay d), snd (w_replay d))" for d by (simp add: w_replay_def)
  note at = refresh_token_is_used_once [OF w_over ok w_by_token w_refresh tok _ replay]
  have now: "1000000000 < refreshGrace \<and> st_now w_store + 1000000000 < ses_ExpiresAt w_moved" by code_simp
  have late: "\<not> 60000000000 < refreshGrace" by code_simp
  show ?thesis using at [of 1000000000] at [of 60000000000] now late by simp
qed

text \<open>Bob signs in too; ending Ada's sessions leaves his.\<close>

definition w_bob :: Opened where
  "w_bob = w_opened\<lparr>op_Identity := ''bob'', op_Token := ''u0''\<rparr>"

definition w_both :: Store where
  "w_both = fst (Record (w_sessions port_state) 0 ''id2'' w_bob w_store)"

definition w_bobs :: Session where
  "w_bobs = opened_session (w_sessions port_state) 0 ''id2'' w_bob"

definition w_left :: Store where
  "w_left = fst (Revoke (w_sessions port_state) 0 w_ada w_both)"

lemma w_record_bob: "Record (w_sessions port_state) (st_now w_store) ''id2'' w_bob w_store = (w_both, Inr w_bobs)"
  by code_simp

lemma w_run_both: "sess_run (w_sessions port_state) st_now Store_Advance fine (Store_New 0) w_both"
  by (rule run_step [OF w_run step_record [where clock = st_now, OF w_record_bob]]) simp


theorem session_listing_witness:
  "set [w_session] = {x. query_selects w_ada x \<and> (\<exists>sid. snd (byID (w_sessions port_state) (st_now w_both) sid w_both) = Inr (Some x))}"
proof -
  have trim: "trim_space (q_Identity w_ada) = q_Identity w_ada" by code_simp
  have q: "\<not> q_Contains w_ada" by code_simp
  have ls: "List_Sessions (w_sessions port_state) (st_now w_both) w_ada w_both = (w_both, Inr [w_session])" by code_simp
  show ?thesis using session_listing_is_exact [OF w_over w_run_both q trim ls] by blast
qed

text \<open>A session opened from a sign-in long ago ends within its refresh window.\<close>

definition w_old :: Opened where
  "w_old = w_opened\<lparr>op_AuthTime := Some (- 6000000000000)\<rparr>"

definition w_old_store :: Store where
  "w_old_store = fst (Record (w_sessions port_state) 0 ''id3'' w_old (Store_New 0))"

definition w_old_session :: Session where
  "w_old_session = opened_session (w_sessions port_state) 0 ''id3'' w_old"

definition w_old_later :: Store where
  "w_old_later = Store_Advance 2000000000000 w_old_store"

theorem ended_witness:
  "endedByAbsoluteLimit (w_sessions port_state) (st_now w_old_later) ''t0'' w_old_later = (w_old_later, Inr (Some w_old_session))
    \<and> pastLimit (w_sessions port_state) (st_now w_old_later) w_old_session"
proof (rule conjI)
  have rec: "Record (w_sessions port_state) (st_now (Store_New 0)) ''id3'' w_old (Store_New 0) = (w_old_store, Inr w_old_session)"
    by code_simp
  have run1: "sess_run (w_sessions port_state) st_now Store_Advance True (Store_New 0) w_old_store"
    by (rule run_step [OF run_start step_record [where clock = st_now, OF rec]]) simp
  have run2: "sess_run (w_sessions port_state) st_now Store_Advance True (Store_New 0) w_old_later"
    unfolding w_old_later_def by (rule run_step [OF run1 step_wait]) simp_all
  show e: "endedByAbsoluteLimit (w_sessions port_state) (st_now w_old_later) ''t0'' w_old_later =
      (w_old_later, Inr (Some w_old_session))" by code_simp
  show "pastLimit (w_sessions port_state) (st_now w_old_later) w_old_session"
    by (rule ended_only_by_the_limit [OF w_over run2 e])
qed

section \<open>Two requests at once\<close>

text \<open>
  \<open>Refreshed\<close> reads the session of a token and then writes, and nothing keeps two requests from reading
  before either writes. The states below are those two requests leave: each has read \<open>w_session\<close>.
\<close>

definition w_race :: Store where
  "w_race = fst (rotate_session (w_sessions port_state) 0 ''t0'' ''b'' w_session
     (fst (rotate_session (w_sessions port_state) 0 ''t0'' ''a'' w_session w_store)))"



text \<open>
  Sweeping removes nothing: it counts the identifiers whose records are gone and leaves the store as it
  found it, sets included.
\<close>
theorem sweep_removes_nothing:
  assumes "sessions_over S port_state" and "store_ok s \<and> sets_ok s" and "Sweep S now s = (s', n, e)"
  shows "store_view s' = store_view s"
  using ps.Sweep_law [OF assms] by simp

definition w_gone :: Store where
  "w_gone = fst (ls_Delete port_state (sessionKey ''id1'') w_store)"

theorem sweep_witness:
  "Sweep (w_sessions port_state) 0 w_gone = (fst (Sweep (w_sessions port_state) 0 w_gone), 1, None)
    \<and> store_view (fst (Sweep (w_sessions port_state) 0 w_gone)) = store_view w_gone"
proof (rule conjI)
  show sw: "Sweep (w_sessions port_state) 0 w_gone = (fst (Sweep (w_sessions port_state) 0 w_gone), 1, None)" by code_simp
  have "store_ok w_store \<and> sets_ok w_store" using port_run [OF w_over w_run] by blast
  moreover have "ls_Delete port_state (sessionKey ''id1'') w_store = (w_gone, Inr ())" by code_simp
  ultimately have ok: "store_ok w_gone \<and> sets_ok w_gone" using ps.delete_law by blast
  show "store_view (fst (Sweep (w_sessions port_state) 0 w_gone)) = store_view w_gone"
    by (rule sweep_removes_nothing [OF w_over ok sw])
qed

text \<open>
  A set of the process-local store that has ended is not empty for good: a member added afterwards
  brings the members it had back with it.
\<close>
theorem ended_set_comes_back:
  "snd (Mem_Members ''k'' (memory_wait 20 (fst (Mem_Add ''k'' ''x'' 10 (NewMemoryState 0))))) = Inr []
   \<and> snd (Mem_Members ''k'' (fst (Mem_Add ''k'' ''y'' 10 (memory_wait 20 (fst (Mem_Add ''k'' ''x'' 10 (NewMemoryState 0)))))))
       = Inr [''x'', ''y'']"
  by code_simp

end
