(* ===== verification/GitHub_Grant.thy ===== *)
theory GitHub_Grant
  imports Validate
begin

text \<open>
  Installation tokens of declared GitHub Apps: the catalogue of Apps and its checks
  (\<open>src/internal/githubapp/catalogue/catalogue.go\<close>) and the decision which grant a request is minted under
  (\<open>src/internal/issuer/githubtoken.go\<close>). The catalogue's YAML is decoded by a third-party library and the
  token itself comes from GitHub: what GitHub answers is an argument of \<open>MintGitHubToken\<close>.
\<close>

section \<open>The catalogue\<close>

definition NameLimit :: nat where "NameLimit = 34"
definition InstallationAll :: string where "InstallationAll = ''all''"
definition InstallationSelected :: string where "InstallationSelected = ''selected''"

definition levels :: "string \<Rightarrow> int" where
  "levels l = (if l = ''read'' then 1 else if l = ''write'' then 2 else if l = ''admin'' then 3 else 0)"

text \<open>The zero value of a missing level is the empty string, which no level is.\<close>

definition Covers :: "string \<Rightarrow> string \<Rightarrow> bool" where
  "Covers held want = (levels held > 0 \<and> levels want > 0 \<and> levels held \<ge> levels want)"

record Grant =
  gr_Group :: string
  gr_Repositories :: "string list"
  gr_Permissions :: "string table"

record App =
  ap_ID :: string
  ap_Org :: string
  ap_Name :: string
  ap_Description :: string
  ap_Public :: bool
  ap_Permissions :: "string table"
  ap_Events :: "string list"
  ap_Installation :: string
  ap_Grants :: "Grant list"

type_synonym Catalogue = "App list"

definition lower_alnum :: "char \<Rightarrow> bool" where
  "lower_alnum c = (is_digit c \<or> is_lower c)"

definition ValidID :: "string \<Rightarrow> bool" where
  "ValidID s = (s \<noteq> [] \<and> length s \<le> 32 \<and> lower_alnum (hd s) \<and> lower_alnum (last s)
     \<and> list_all (\<lambda>c. lower_alnum c \<or> c = CHR ''-'') s)"

definition permissionPattern :: "string \<Rightarrow> bool" where
  "permissionPattern s = (case s of [] \<Rightarrow> False
     | c # cs \<Rightarrow> is_lower c \<and> list_all (\<lambda>c. lower_alnum c \<or> c = CHR ''_'') cs)"

definition eventPattern :: "string \<Rightarrow> bool" where
  "eventPattern s = permissionPattern s"

definition loginPattern :: "string \<Rightarrow> bool" where
  "loginPattern s = (case s of [] \<Rightarrow> False
     | c # cs \<Rightarrow> is_alnum c \<and> (case login_units cs of None \<Rightarrow> False | Some n \<Rightarrow> n \<le> 38))"

definition repositoryPattern :: "string \<Rightarrow> bool" where
  "repositoryPattern s = (s \<noteq> [] \<and> list_all (\<lambda>c. is_alnum c \<or> c \<in> set ''._*?[]^!-'') s)"

definition DisplayName :: "App \<Rightarrow> string" where
  "DisplayName a =
     (if ap_Name a \<noteq> [] then ap_Name a
      else let name = ap_Org a @ ''-'' @ ap_ID a
           in if length name > NameLimit then rev (dropWhile (\<lambda>c. c = CHR ''-'') (rev (take NameLimit name))) else name)"

definition InstallationScope :: "App \<Rightarrow> string" where
  "InstallationScope a = (if ap_Installation a = [] then InstallationSelected else ap_Installation a)"

definition Catalogue_Get :: "Catalogue \<Rightarrow> string \<Rightarrow> App option" where
  "Catalogue_Get c ident = List.find (\<lambda>a. ap_ID a = ident) c"

datatype cat_err =
    IDTwice nat string
  | BadID string
  | BadOrg string
  | BadName string
  | BadInstallation string
  | NoPermissions
  | BadPermission string
  | BadLevel string string
  | BadEvent string
  | EmptyGroup
  | NoRepositories
  | BadRepository string
  | BadGlob string
  | EmptyGrant
  | NotOfTheApp string
  | MoreThanTheApp string string string
  | InApp nat string cat_err
  | InGrant nat string cat_err

definition checkPermissions :: "string table \<Rightarrow> cat_err list" where
  "checkPermissions permissions = concat (map (\<lambda>name.
       (if permissionPattern name then [] else [BadPermission name])
       @ (if levels (tget [] permissions name) = 0 then [BadLevel name (tget [] permissions name)] else []))
     (tkeys permissions))"

definition check_repository :: "string \<Rightarrow> cat_err list" where
  "check_repository repository =
     (if \<not> repositoryPattern repository then [BadRepository repository]
      else case path_match repository [] of None \<Rightarrow> [BadGlob repository] | Some _ \<Rightarrow> [])"

definition check_within :: "string table \<Rightarrow> string table \<Rightarrow> string \<Rightarrow> cat_err list" where
  "check_within app permissions name =
     (let level = tget [] permissions name
      in if levels level = 0 then []
         else case map_of app name of
           None \<Rightarrow> [NotOfTheApp name]
         | Some held \<Rightarrow> (if Covers held level then [] else [MoreThanTheApp name level held]))"

definition Grant_check :: "string table \<Rightarrow> Grant \<Rightarrow> cat_err list" where
  "Grant_check app g =
     (if trim_space (gr_Group g) = [] then [EmptyGroup] else [])
     @ (if gr_Repositories g = [] then [NoRepositories] else [])
     @ concat (map check_repository (gr_Repositories g))
     @ (if gr_Permissions g = [] then [EmptyGrant] else [])
     @ checkPermissions (gr_Permissions g)
     @ concat (map (check_within app (gr_Permissions g)) (tkeys (gr_Permissions g)))"

definition App_Validate :: "App \<Rightarrow> cat_err list" where
  "App_Validate a =
     (if ValidID (ap_ID a) then [] else [BadID (ap_ID a)])
     @ (if loginPattern (ap_Org a) then [] else [BadOrg (ap_Org a)])
     @ (if length (DisplayName a) > NameLimit \<or> trim_space (DisplayName a) = [] then [BadName (DisplayName a)] else [])
     @ (if ap_Installation a \<in> {[], InstallationAll, InstallationSelected} then [] else [BadInstallation (ap_Installation a)])
     @ (if ap_Permissions a = [] then [NoPermissions] else [])
     @ checkPermissions (ap_Permissions a)
     @ map BadEvent (filter (\<lambda>e. \<not> eventPattern e) (ap_Events a))
     @ concat (map (\<lambda>(i, g). map (InGrant i (gr_Group g)) (Grant_check (ap_Permissions a) g))
         (zip [0..<length (ap_Grants a)] (ap_Grants a)))"

fun validate_from :: "nat \<Rightarrow> string list \<Rightarrow> Catalogue \<Rightarrow> cat_err list" where
  "validate_from i seen [] = []"
| "validate_from i seen (a # as) =
     (if ap_ID a \<in> set seen then [IDTwice i (ap_ID a)] else [])
     @ map (InApp i (ap_ID a)) (App_Validate a)
     @ validate_from (Suc i) (ap_ID a # seen) as"

definition Catalogue_Validate :: "Catalogue \<Rightarrow> cat_err list" where
  "Catalogue_Validate c = validate_from 0 [] c"

definition Grant_Matches :: "Grant \<Rightarrow> string \<Rightarrow> bool" where
  "Grant_Matches g repository = list_ex (\<lambda>pattern. path_match pattern repository = Some True) (gr_Repositories g)"

definition UndeclaredGroups :: "Catalogue \<Rightarrow> (string \<Rightarrow> bool) \<Rightarrow> string list" where
  "UndeclaredGroups c declared = fold (\<lambda>(a, g) out.
       let line = ap_ID a @ '': '' @ gr_Group g
       in if \<not> declared (gr_Group g) \<and> line \<notin> set out then out @ [line] else out)
     (concat (map (\<lambda>a. map (Pair a) (ap_Grants a)) c)) []"

definition GrantGroups :: "Catalogue \<Rightarrow> string list" where
  "GrantGroups c = fold (\<lambda>g out. if gr_Group g \<in> set out then out else out @ [gr_Group g])
     (concat (map ap_Grants c)) []"

section \<open>The request\<close>

record GitHubTokenRequest =
  tr_App :: string
  tr_Repositories :: "string list"
  tr_Permissions :: "string table"

text \<open>\<open>strings.Fields\<close>.\<close>

fun str_fields_from :: "string \<Rightarrow> string \<Rightarrow> string list" where
  "str_fields_from acc [] = (if acc = [] then [] else [acc])"
| "str_fields_from acc (c # cs) =
     (if is_space c then (if acc = [] then [] else [acc]) @ str_fields_from [] cs else str_fields_from (acc @ [c]) cs)"

definition str_fields :: "string \<Rightarrow> string list" where
  "str_fields s = str_fields_from [] s"

definition requestedRepository :: "string \<Rightarrow> bool" where
  "requestedRepository s = (s \<noteq> [] \<and> length s \<le> 100 \<and> list_all (\<lambda>c. is_alnum c \<or> c \<in> set ''._-'') s)"

definition requestedPermission :: "string \<Rightarrow> bool" where
  "requestedPermission s = permissionPattern s"

definition maxRepositories :: int where "maxRepositories = 500"

datatype request_err =
    NotARepository string
  | TooManyRepositories int
  | NotAPermission string
  | BothLevels string string string

definition add_repository :: "string \<Rightarrow> string list \<Rightarrow> request_err + string list" where
  "add_repository name out =
     (if \<not> requestedRepository name then Inl (NotARepository name)
      else Inr (if name \<in> set out then out else out @ [name]))"

definition add_permission :: "string \<Rightarrow> string table \<Rightarrow> request_err + string table" where
  "add_permission field out =
     (case cut CHR '':'' field of
        None \<Rightarrow> Inl (NotAPermission field)
      | Some (name, level) \<Rightarrow>
          (if \<not> requestedPermission name \<or> \<not> Covers level level then Inl (NotAPermission field)
           else case map_of out name of
             Some previous \<Rightarrow> (if previous \<noteq> level then Inl (BothLevels name previous level) else Inr (tput name level out))
           | None \<Rightarrow> Inr (tput name level out)))"

definition ParseGitHubTokenRequest :: "string \<Rightarrow> string \<Rightarrow> string \<Rightarrow> request_err + GitHubTokenRequest" where
  "ParseGitHubTokenRequest app repositories scope =
     (case fold_err add_repository (str_fields repositories) [] of
        Inl e \<Rightarrow> Inl e
      | Inr repos \<Rightarrow>
          (if int (length repos) > maxRepositories then Inl (TooManyRepositories (int (length repos)))
           else case fold_err add_permission (str_fields scope) [] of
             Inl e \<Rightarrow> Inl e
           | Inr perms \<Rightarrow> Inr \<lparr>tr_App = app, tr_Repositories = repos, tr_Permissions = perms\<rparr>))"

definition FormatPermissions :: "string table \<Rightarrow> string" where
  "FormatPermissions permissions = join '' '' (map (\<lambda>name. name @ '':'' @ tget [] permissions name) (tkeys permissions))"

section \<open>The decision\<close>

record Narrowing =
  na_Repositories :: "string list"
  na_Permissions :: "string table"

datatype github_err =
    ErrGitHubAppUnavailable
  | ErrNoGitHubGrant
  | ErrGitHubScope
  | ErrGitHubUpstream

definition coversAll :: "string table \<Rightarrow> string table \<Rightarrow> bool" where
  "coversAll held want = list_all (\<lambda>name. Covers (tget [] held name) (tget [] want name)) (tkeys want)"

definition grantGroups :: "Grant list \<Rightarrow> string list" where
  "grantGroups grants = fold (\<lambda>g out. if gr_Group g \<in> set out then out else out @ [gr_Group g]) grants []"

definition DecideGitHubGrant ::
  "App \<Rightarrow> string list \<Rightarrow> string list \<Rightarrow> string table \<Rightarrow> github_err + Grant \<times> Narrowing" where
  "DecideGitHubGrant app groups repositories permissions =
     (let held = filter (\<lambda>g. gr_Group g \<in> set groups) (ap_Grants app)
      in if held = [] then Inl ErrNoGitHubGrant
         else if list_ex (\<lambda>r. \<not> list_ex (\<lambda>g. Grant_Matches g r) held) repositories then Inl ErrGitHubScope
         else let covering = (if repositories \<noteq> []
                then filter (\<lambda>g. \<not> list_ex (\<lambda>r. \<not> Grant_Matches g r) repositories) held
                else filter (\<lambda>g. ''*'' \<in> set (gr_Repositories g)) held)
              in case covering of
                   [] \<Rightarrow> Inl ErrGitHubScope
                 | chosen # _ \<Rightarrow>
                     (if permissions = []
                      then Inr (chosen, \<lparr>na_Repositories = repositories, na_Permissions = gr_Permissions chosen\<rparr>)
                      else case List.find (\<lambda>g. coversAll (gr_Permissions g) permissions) covering of
                        None \<Rightarrow> Inl ErrGitHubScope
                      | Some g \<Rightarrow> Inr (g, \<lparr>na_Repositories = repositories, na_Permissions = permissions\<rparr>)))"

text \<open>What the store has of an App: an error, nothing, or its record (\<open>Installed\<close>) and key.\<close>

datatype stored_app = StoreFails | NotCreated | Created bool string

text \<open>How asking GitHub for the token ends.\<close>

datatype 't github_answer = KeyFails | Status int | OtherFailure | Minted 't

definition MintGitHubToken ::
  "Catalogue option \<Rightarrow> (string \<Rightarrow> stored_app) option \<Rightarrow> (Narrowing \<Rightarrow> 't github_answer) \<Rightarrow> string list
   \<Rightarrow> GitHubTokenRequest \<Rightarrow> github_err + Grant \<times> 't" where
  "MintGitHubToken catalogue store ask groups request =
     (case catalogue of
        None \<Rightarrow> Inl ErrGitHubAppUnavailable
      | Some c \<Rightarrow>
          (case Catalogue_Get c (tr_App request) of
             None \<Rightarrow> Inl ErrGitHubAppUnavailable
           | Some app \<Rightarrow>
               (case DecideGitHubGrant app groups (tr_Repositories request) (tr_Permissions request) of
                  Inl e \<Rightarrow> Inl e
                | Inr (grant, narrowed) \<Rightarrow>
                    (case store of
                       None \<Rightarrow> Inl ErrGitHubAppUnavailable
                     | Some get \<Rightarrow>
                         (case get (ap_ID app) of
                            StoreFails \<Rightarrow> Inl ErrGitHubUpstream
                          | NotCreated \<Rightarrow> Inl ErrGitHubAppUnavailable
                          | Created installed key \<Rightarrow>
                              (if \<not> installed \<or> key = [] then Inl ErrGitHubAppUnavailable
                               else case ask narrowed of
                                 KeyFails \<Rightarrow> Inl ErrGitHubUpstream
                               | Status code \<Rightarrow> Inl (if code = 404 then ErrGitHubAppUnavailable
                                   else if code = 422 then ErrGitHubScope else ErrGitHubUpstream)
                               | OtherFailure \<Rightarrow> Inl ErrGitHubUpstream
                               | Minted t \<Rightarrow> Inr (grant, t)))))))"

section \<open>One grant covers the whole request\<close>

text \<open>The rule the comment on \<open>DecideGitHubGrant\<close> states.\<close>

definition covers_request :: "string list \<Rightarrow> string list \<Rightarrow> string table \<Rightarrow> Grant \<Rightarrow> bool" where
  "covers_request groups repositories permissions g =
     (gr_Group g \<in> set groups
      \<and> (if repositories = [] then ''*'' \<in> set (gr_Repositories g) else list_all (Grant_Matches g) repositories)
      \<and> coversAll (gr_Permissions g) permissions)"

lemma find_filter: "List.find P (filter Q xs) = List.find (\<lambda>x. Q x \<and> P x) xs"
  by (induction xs) auto

lemma find_cong: "(\<And>x. x \<in> set xs \<Longrightarrow> P x = Q x) \<Longrightarrow> List.find P xs = List.find Q xs"
  by (induction xs) auto

lemma hd_find: "xs \<noteq> [] \<Longrightarrow> List.find (\<lambda>_. True) xs = Some (hd xs)"
  by (cases xs) auto

lemma find_None_filter: "filter P xs = [] \<Longrightarrow> List.find (\<lambda>x. P x \<and> Q x) xs = None"
  by (induction xs) (auto split: if_splits)

lemma coversAll_Nil: "coversAll held []"
  by (simp add: coversAll_def)

definition covering :: "string list \<Rightarrow> string list \<Rightarrow> Grant list \<Rightarrow> Grant list" where
  "covering groups repositories grants = filter (\<lambda>g. gr_Group g \<in> set groups
     \<and> (if repositories = [] then ''*'' \<in> set (gr_Repositories g) else list_all (Grant_Matches g) repositories)) grants"

lemma find_covers_request:
  "List.find (covers_request groups repositories permissions) grants =
     List.find (\<lambda>g. coversAll (gr_Permissions g) permissions) (covering groups repositories grants)"
  unfolding covering_def find_filter by (rule find_cong) (simp add: covers_request_def)

lemma decide_covering:
  "DecideGitHubGrant app groups repositories permissions =
     (let grants = ap_Grants app in
      if filter (\<lambda>g. gr_Group g \<in> set groups) grants = [] then Inl ErrNoGitHubGrant
      else case covering groups repositories grants of
        [] \<Rightarrow> Inl ErrGitHubScope
      | chosen # _ \<Rightarrow>
          (if permissions = [] then Inr (chosen, \<lparr>na_Repositories = repositories, na_Permissions = gr_Permissions chosen\<rparr>)
           else case List.find (\<lambda>g. coversAll (gr_Permissions g) permissions) (covering groups repositories grants) of
             None \<Rightarrow> Inl ErrGitHubScope
           | Some g \<Rightarrow> Inr (g, \<lparr>na_Repositories = repositories, na_Permissions = permissions\<rparr>)))"
proof -
  let ?held = "filter (\<lambda>g. gr_Group g \<in> set groups) (ap_Grants app)"
  have cov: "covering groups repositories (ap_Grants app) =
      (if repositories \<noteq> [] then filter (\<lambda>g. \<not> list_ex (\<lambda>r. \<not> Grant_Matches g r) repositories) ?held
       else filter (\<lambda>g. ''*'' \<in> set (gr_Repositories g)) ?held)"
    by (auto simp: covering_def list_ex_iff list_all_iff conj_commute intro!: filter_cong)
  have none: "covering groups repositories (ap_Grants app) = []"
    if bad: "list_ex (\<lambda>r. \<not> list_ex (\<lambda>g. Grant_Matches g r) ?held) repositories"
  proof -
    obtain r where r: "r \<in> set repositories" "\<forall>g \<in> set ?held. \<not> Grant_Matches g r" using bad by (auto simp: list_ex_iff)
    then have "repositories \<noteq> []" by auto
    then show ?thesis using r by (auto simp: covering_def filter_empty_conv list_all_iff)
  qed
  show ?thesis unfolding DecideGitHubGrant_def Let_def cov [symmetric] using none by (auto split: list.splits)
qed

lemma decide_iff:
  "DecideGitHubGrant app groups repositories permissions = Inr (g, n) \<longleftrightarrow>
     List.find (covers_request groups repositories permissions) (ap_Grants app) = Some g
     \<and> n = \<lparr>na_Repositories = repositories, na_Permissions = (if permissions = [] then gr_Permissions g else permissions)\<rparr>"
proof (cases "covering groups repositories (ap_Grants app)")
  case Nil
  then show ?thesis by (auto simp: decide_covering find_covers_request Let_def)
next
  case (Cons chosen rest)
  then have "chosen \<in> set (covering groups repositories (ap_Grants app))" by simp
  then have held: "filter (\<lambda>g. gr_Group g \<in> set groups) (ap_Grants app) \<noteq> []"
    by (auto simp: covering_def filter_empty_conv)
  show ?thesis
    unfolding decide_covering find_covers_request Let_def using held Cons
    by (auto simp: coversAll_Nil split: option.splits)
qed

text \<open>
  One grant covers the whole request. A request for an installation token is decided under the first
  grant, in the order of the catalogue, that names a group of the caller, covers every repository asked
  for (or every repository, when none is named) and every permission at its level; the token is narrowed
  to the request, or to that grant's permissions when none were asked for. There is no other way to a
  decision, and no request such a grant covers is refused.
\<close>
theorem one_grant_covers_the_request:
  "DecideGitHubGrant app groups repositories permissions = Inr (g, n) \<longleftrightarrow>
     List.find (covers_request groups repositories permissions) (ap_Grants app) = Some g
     \<and> n = \<lparr>na_Repositories = repositories, na_Permissions = (if permissions = [] then gr_Permissions g else permissions)\<rparr>"
  by (rule decide_iff)

section \<open>A token is within the App\<close>

lemma Covers_trans: "Covers a b \<Longrightarrow> Covers b c \<Longrightarrow> Covers a c"
  by (simp add: Covers_def)

lemma Covers_refl: "levels a \<noteq> 0 \<Longrightarrow> Covers a a"
  by (auto simp: Covers_def levels_def split: if_splits)

lemma tget_Some: "map_of m k = Some v \<Longrightarrow> tget d m k = v"
  by (simp add: tget_def)

lemma validated_app:
  "Catalogue_Validate c = [] \<Longrightarrow> app \<in> set c \<Longrightarrow> App_Validate app = []"
proof -
  have "validate_from i seen c = [] \<Longrightarrow> app \<in> set c \<Longrightarrow> App_Validate app = []" for i seen
    by (induction c arbitrary: i seen) auto
  then show "Catalogue_Validate c = [] \<Longrightarrow> app \<in> set c \<Longrightarrow> App_Validate app = []"
    by (simp add: Catalogue_Validate_def)
qed

lemma validated_grant:
  assumes "App_Validate app = []" and "g \<in> set (ap_Grants app)"
  shows "Grant_check (ap_Permissions app) g = []"
proof -
  obtain i where i: "i < length (ap_Grants app)" "g = ap_Grants app ! i" using assms(2) by (auto simp: in_set_conv_nth)
  then have "(i, g) \<in> set (zip [0..<length (ap_Grants app)] (ap_Grants app))" by (force simp: in_set_zip)
  then show ?thesis using assms(1) by (auto simp: App_Validate_def)
qed

lemma validated_level:
  assumes "Grant_check app g = []" and "map_of (gr_Permissions g) name = Some level"
  shows "Covers level level \<and> Covers (tget [] app name) level"
proof -
  have name: "name \<in> set (tkeys (gr_Permissions g))" using assms(2) by auto
  have level: "levels level \<noteq> 0"
    using assms name by (auto simp: Grant_check_def checkPermissions_def tget_Some simp del: set_tkeys split: if_splits)
  have "check_within app (gr_Permissions g) name = []"
    using assms(1) name by (auto simp: Grant_check_def simp del: set_tkeys)
  then have "Covers (tget [] app name) level"
    using level assms(2) by (auto simp: check_within_def Let_def tget_def split: option.splits if_splits)
  then show ?thesis using Covers_refl [OF level] by simp
qed

text \<open>
  Of a catalogue that passed its checks, no token goes beyond what was declared: it is narrowed to at
  least one permission, and to each at a level its grant holds and its App holds.
\<close>
theorem token_stays_within_the_app:
  assumes "Catalogue_Validate c = []" and "app \<in> set c"
    and "DecideGitHubGrant app groups repositories permissions = Inr (g, n)"
  shows "na_Permissions n \<noteq> [] \<and> g \<in> set (ap_Grants app)
    \<and> (\<forall>name level. map_of (na_Permissions n) name = Some level \<longrightarrow>
         Covers (tget [] (gr_Permissions g) name) level \<and> Covers (tget [] (ap_Permissions app) name) level)"
proof -
  have f: "List.find (covers_request groups repositories permissions) (ap_Grants app) = Some g"
      "n = \<lparr>na_Repositories = repositories, na_Permissions = (if permissions = [] then gr_Permissions g else permissions)\<rparr>"
    using assms(3) by (simp_all add: decide_iff)
  have g: "g \<in> set (ap_Grants app)" "coversAll (gr_Permissions g) permissions"
    using f(1) by (auto simp: find_Some_iff covers_request_def)
  have check: "Grant_check (ap_Permissions app) g = []" by (rule validated_grant [OF validated_app [OF assms(1,2)] g(1)])
  have some: "gr_Permissions g \<noteq> []" using check by (auto simp: Grant_check_def)
  have "Covers (tget [] (gr_Permissions g) name) level \<and> Covers (tget [] (ap_Permissions app) name) level"
    if held: "map_of (na_Permissions n) name = Some level" for name level
  proof -
    have cov: "Covers (tget [] (gr_Permissions g) name) level"
    proof (cases "permissions = []")
      case True
      then show ?thesis using held f(2) validated_level [OF check] by (simp add: tget_Some)
    next
      case False
      then have p: "map_of permissions name = Some level" using held f(2) by simp
      then have "name \<in> set (tkeys permissions)" by auto
      then show ?thesis using g(2) p unfolding coversAll_def list_all_iff by (auto simp: tget_Some simp del: set_tkeys)
    qed
    then obtain l where l: "map_of (gr_Permissions g) name = Some l" "Covers l level"
      by (cases "map_of (gr_Permissions g) name") (auto simp: tget_def Covers_def levels_def)
    then show ?thesis using cov validated_level [OF check l(1)] Covers_trans by blast
  qed
  then show ?thesis using f(2) some g(1) by auto
qed

section \<open>A request reads back\<close>

definition word :: "string \<Rightarrow> bool" where
  "word w = (w \<noteq> [] \<and> list_all (\<lambda>c. \<not> is_space c) w)"

lemma str_fields_from_word: "list_all (\<lambda>c. \<not> is_space c) w \<Longrightarrow> str_fields_from acc (w @ rest) = str_fields_from (acc @ w) rest"
  by (induction w arbitrary: acc) auto

lemma str_fields_join: "list_all word ws \<Longrightarrow> str_fields (join '' '' ws) = ws"
proof (induction ws)
  case Nil
  then show ?case by (simp add: str_fields_def)
next
  case (Cons w ws)
  have w: "w \<noteq> []" "list_all (\<lambda>c. \<not> is_space c) w" using Cons.prems by (auto simp: word_def)
  have blank: "is_space CHR '' ''" by (simp add: is_space_def)
  show ?case
  proof (cases "ws = []")
    case True
    then show ?thesis using w str_fields_from_word [OF w(2), of "[]" "[]"] by (simp add: str_fields_def)
  next
    case False
    then have "str_fields (join '' '' (w # ws)) = str_fields_from [] (w @ '' '' @ join '' '' ws)"
      by (simp add: str_fields_def join_Cons_head)
    also have "\<dots> = w # str_fields (join '' '' ws)" using w blank by (simp add: str_fields_from_word str_fields_def)
    finally show ?thesis using Cons by simp
  qed
qed

lemma char_bounds:
  "is_lower c \<Longrightarrow> 97 \<le> (of_char c :: int) \<and> of_char c \<le> (122 :: int)"
  "is_digit c \<Longrightarrow> 48 \<le> (of_char c :: int) \<and> of_char c \<le> (57 :: int)"
  "is_upper c \<Longrightarrow> 65 \<le> (of_char c :: int) \<and> of_char c \<le> (90 :: int)"
  by (simp_all add: is_lower_def is_digit_def is_upper_def Let_def)

lemma plain_char: "is_lower c \<or> is_digit c \<or> is_upper c \<Longrightarrow> \<not> is_space c \<and> c \<noteq> CHR '':''"
  using char_bounds [of c] by (auto simp: is_space_def)

lemma repository_word: "requestedRepository w \<Longrightarrow> word w"
proof -
  assume r: "requestedRepository w"
  have "\<not> is_space c" if "c \<in> set w" for c
  proof -
    have "is_alnum c \<or> c \<in> set ''._-''" using r that by (auto simp: requestedRepository_def list_all_iff)
    then show ?thesis using plain_char [of c] by (auto simp: is_alnum_def is_space_def)
  qed
  then show "word w" using r by (auto simp: word_def requestedRepository_def list_all_iff)
qed

lemma permission_chars:
  assumes "permissionPattern n" and "c \<in> set n"
  shows "\<not> is_space c \<and> c \<noteq> CHR '':''"
proof -
  have "is_lower c \<or> is_digit c \<or> c = CHR ''_''"
    using assms by (auto simp: permissionPattern_def lower_alnum_def list_all_iff split: list.splits)
  then show ?thesis using plain_char [of c] by (auto simp: is_space_def)
qed

lemma level_words: "Covers l l \<Longrightarrow> l \<in> {''read'', ''write'', ''admin''}"
  by (auto simp: Covers_def levels_def split: if_splits)

lemma spelled_word:
  assumes "permissionPattern n" and "Covers l l"
  shows "word (n @ '':'' @ l)" "cut CHR '':'' (n @ '':'' @ l) = Some (n, l)"
proof -
  have "list_all (\<lambda>c. \<not> is_space c) l" using level_words [OF assms(2)] by (auto simp: is_space_def)
  then show "word (n @ '':'' @ l)"
    using permission_chars [OF assms(1)] by (auto simp: word_def list_all_iff) (simp add: is_space_def)
  show "cut CHR '':'' (n @ '':'' @ l) = Some (n, l)"
    using permission_chars [OF assms(1)] by (auto simp: cut_Some)
qed

lemma repositories_kept:
  "distinct (out @ ws) \<Longrightarrow> list_all requestedRepository ws \<Longrightarrow> fold_err add_repository ws out = Inr (out @ ws)"
  by (induction ws arbitrary: out) (auto simp: add_repository_def)

lemma permissions_kept:
  assumes "\<forall>n \<in> set ns. requestedPermission n \<and> Covers (f n) (f n)"
    and "\<forall>n \<in> set ns. map_of out n = None \<or> map_of out n = Some (f n)"
  shows "\<exists>r. fold_err add_permission (map (\<lambda>n. n @ '':'' @ f n) ns) out = Inr r
    \<and> map_of r = (\<lambda>k. if k \<in> set ns then Some (f k) else map_of out k)"
  using assms
proof (induction ns arbitrary: out)
  case (Cons n ns)
  have cut: "cut CHR '':'' (n @ '':'' @ f n) = Some (n, f n)"
    by (rule spelled_word) (use Cons.prems(1) in \<open>simp_all add: requestedPermission_def\<close>)
  have add: "add_permission (n @ '':'' @ f n) out = Inr (tput n (f n) out)"
    using Cons.prems cut by (auto simp: add_permission_def split: option.splits)
  have "\<exists>r. fold_err add_permission (map (\<lambda>n. n @ '':'' @ f n) ns) (tput n (f n) out) = Inr r
      \<and> map_of r = (\<lambda>k. if k \<in> set ns then Some (f k) else map_of (tput n (f n) out) k)"
    by (rule Cons.IH) (use Cons.prems in auto)
  then show ?case using add by (auto simp: fun_eq_iff)
qed simp

text \<open>
  C0. A request reads back: repository names and permissions, spelled the way \<open>FormatPermissions\<close> spells
  them, are parsed to the same repositories and the same permissions.
\<close>

theorem request_round_trip:
  assumes "distinct repos" and "list_all requestedRepository repos" and "int (length repos) \<le> maxRepositories"
    and "\<And>name level. map_of perms name = Some level \<Longrightarrow> requestedPermission name \<and> Covers level level"
  shows "\<exists>r. ParseGitHubTokenRequest app (join '' '' repos) (FormatPermissions perms) =
      Inr \<lparr>tr_App = app, tr_Repositories = repos, tr_Permissions = r\<rparr> \<and> map_of r = map_of perms"
proof -
  let ?f = "tget [] perms"
  have names: "\<forall>n \<in> set (tkeys perms). requestedPermission n \<and> Covers (?f n) (?f n)"
    using assms(4) by (auto simp: tget_def)
  have words: "list_all word (map (\<lambda>n. n @ '':'' @ ?f n) (tkeys perms))"
    using names spelled_word(1) by (auto simp: list_all_iff requestedPermission_def simp del: set_tkeys)
  obtain r where r: "fold_err add_permission (map (\<lambda>n. n @ '':'' @ ?f n) (tkeys perms)) [] = Inr r"
      "map_of r = (\<lambda>k. if k \<in> set (tkeys perms) then Some (?f k) else map_of [] k)"
    using permissions_kept [OF names, of "[]"] by auto
  have "list_all word repos" using assms(2) repository_word by (auto simp: list_all_iff)
  then have "ParseGitHubTokenRequest app (join '' '' repos) (FormatPermissions perms) =
      Inr \<lparr>tr_App = app, tr_Repositories = repos, tr_Permissions = r\<rparr>"
    using assms(1-3) r(1) repositories_kept [of "[]" repos] str_fields_join [OF words]
    by (simp add: ParseGitHubTokenRequest_def FormatPermissions_def str_fields_join)
  moreover have "map_of r = map_of perms" using r(2) by (auto simp: fun_eq_iff tget_def dom_def)
  ultimately show ?thesis by blast
qed

section \<open>A catalogue\<close>

definition ci_app :: App where
  "ci_app = \<lparr>ap_ID = ''ci'', ap_Org = ''acme'', ap_Name = [], ap_Description = [], ap_Public = False,
     ap_Permissions = [(''contents'', ''write''), (''issues'', ''read'')], ap_Events = [], ap_Installation = [],
     ap_Grants = [\<lparr>gr_Group = ''prod:ci:reader'', gr_Repositories = [''web-*''], gr_Permissions = [(''contents'', ''read'')]\<rparr>,
                  \<lparr>gr_Group = ''prod:ci:writer'', gr_Repositories = [''*''], gr_Permissions = [(''contents'', ''write'')]\<rparr>]\<rparr>"

theorem token_within_witness:
  "na_Permissions \<lparr>na_Repositories = [''web-a''], na_Permissions = [(''contents'', ''read'')]\<rparr> \<noteq> []
    \<and> Covers (tget [] (ap_Permissions ci_app) ''contents'') ''read''"
proof -
  have ok: "Catalogue_Validate [ci_app] = []" by code_simp
  have app: "ci_app \<in> set [ci_app]" by simp
  have d: "DecideGitHubGrant ci_app [''prod:ci:reader''] [''web-a''] [] =
      Inr (hd (ap_Grants ci_app), \<lparr>na_Repositories = [''web-a''], na_Permissions = [(''contents'', ''read'')]\<rparr>)" by code_simp
  show ?thesis using token_stays_within_the_app [OF ok app d] by simp
qed

theorem request_round_trip_witness:
  "\<exists>r. ParseGitHubTokenRequest ''ci'' (join '' '' [''web-a'', ''api'']) (FormatPermissions [(''issues'', ''read''), (''contents'', ''write'')]) =
      Inr \<lparr>tr_App = ''ci'', tr_Repositories = [''web-a'', ''api''], tr_Permissions = r\<rparr>
      \<and> map_of r = map_of [(''issues'', ''read''), (''contents'', ''write'')]"
proof (rule request_round_trip)
  show "distinct [''web-a'', ''api'']" by code_simp
  show "list_all requestedRepository [''web-a'', ''api'']" by code_simp
  show "int (length [''web-a'', ''api'']) \<le> maxRepositories" by code_simp
  have "requestedPermission ''issues'' \<and> requestedPermission ''contents'' \<and> Covers ''read'' ''read'' \<and> Covers ''write'' ''write''"
    by code_simp
  then show "map_of [(''issues'', ''read''), (''contents'', ''write'')] name = Some level
      \<Longrightarrow> requestedPermission name \<and> Covers level level" for name level
    by (auto split: if_splits)
qed

text \<open>
  An organisation login of seventy-seven characters passes: the pattern bounds the repetitions, and a dash
  with the letter after it is one.
\<close>

theorem long_login_passes:
  "loginPattern (concat (replicate 38 ''a-'') @ ''a'') \<and> length (concat (replicate 38 ''a-'') @ ''a'') = 77"
  by code_simp

end
