(* ===== verification/Key_Ring.thy ===== *)
theory Key_Ring
  imports Login_State Fragments Record_Text
begin

text \<open>
  The issuer's signing keys, \<open>src/internal/issuer/keyring.go\<close> and \<open>src/internal/issuer/keyrings.go\<close>: which keys
  a replica publishes and which one it signs with, over the shared state of \<open>Login_State\<close>. A ring belongs
  to one replica; the state is what the replicas share, and every operation is given the instant it runs
  at. Key material is opaque, and the JSON form of an entry, which leaves the private half out, is a parameter.
  Logging and metrics are left out. The order of a Go map is open: entries are taken in the order of their
  identifiers, so keys with the same activation are scheduled in that order.
\<close>

section \<open>Data\<close>

definition DefaultKeyActivationDelay :: int where "DefaultKeyActivationDelay = 15 * 60 * 1000000000"
definition KeyOverlapSkew :: int where "KeyOverlapSkew = 5 * 60 * 1000000000"
definition DefaultTokenLifetime :: int where "DefaultTokenLifetime = 3600 * 1000000000"
definition DefaultKeyOverlap :: int where "DefaultKeyOverlap = DefaultTokenLifetime + KeyOverlapSkew"
definition keyRingEntryTTL :: int where "keyRingEntryTTL = 30 * 24 * 3600 * 1000000000"

record KeyRingConfig =
  kc_ActivationDelay :: int
  kc_Overlap :: int

definition withDefaults :: "KeyRingConfig \<Rightarrow> KeyRingConfig" where
  "withDefaults c =
     \<lparr>kc_ActivationDelay = (if kc_ActivationDelay c \<le> 0 then DefaultKeyActivationDelay else kc_ActivationDelay c),
      kc_Overlap = (if kc_Overlap c \<le> 0 then DefaultKeyOverlap else kc_Overlap c)\<rparr>"

record SigningKey =
  sk_id :: string
  sk_public :: string
  sk_alg :: string

record ringEntry =
  re_ID :: string
  re_JWK :: string
  re_Algorithm :: string
  re_SeenAt :: int
  re_ActivateAt :: int
  re_signer :: "SigningKey option"

record 's KeyRing =
  kr_alg :: string
  kr_state :: "'s LoginState"
  kr_cfg :: KeyRingConfig
  kr_marshal :: "ringEntry \<Rightarrow> string"
  kr_unmarshal :: "string \<Rightarrow> ringEntry option"
  kr_entries :: "ringEntry table"
  kr_activeID :: string
  kr_published :: "string list"

definition keyRingIndexKey :: "string \<Rightarrow> string" where
  "keyRingIndexKey alg = ''issuer:keyring:index:'' @ alg"

definition keyRingEntryKey :: "string \<Rightarrow> string \<Rightarrow> string" where
  "keyRingEntryKey alg ident = ''issuer:keyring:entry:'' @ alg @ '':'' @ ident"

definition NewKeyRing ::
  "string \<Rightarrow> 's LoginState \<Rightarrow> KeyRingConfig \<Rightarrow> (ringEntry \<Rightarrow> string) \<Rightarrow> (string \<Rightarrow> ringEntry option) \<Rightarrow> 's KeyRing" where
  "NewKeyRing alg state cfg marshal unmarshal =
     \<lparr>kr_alg = alg, kr_state = state, kr_cfg = withDefaults cfg, kr_marshal = marshal, kr_unmarshal = unmarshal,
      kr_entries = [], kr_activeID = [], kr_published = []\<rparr>"

definition Configure :: "KeyRingConfig \<Rightarrow> 's KeyRing \<Rightarrow> 's KeyRing" where
  "Configure cfg r = r\<lparr>kr_cfg := withDefaults cfg\<rparr>"

section \<open>The schedule\<close>

text \<open>The activated entries, the one activated last at the end: those published and those retired.\<close>

fun schedule :: "int \<Rightarrow> int \<Rightarrow> ringEntry list \<Rightarrow> string list \<times> string list" where
  "schedule overlap now [] = ([], [])"
| "schedule overlap now [e] = ([re_ID e], [])"
| "schedule overlap now (e # f # es) =
     (case schedule overlap now (f # es) of
        (published, retired) \<Rightarrow>
          (if now > re_ActivateAt f + overlap then (published, re_ID e # retired) else (re_ID e # published, retired)))"

definition by_activation :: "'s KeyRing \<Rightarrow> ringEntry list" where
  "by_activation r = sort_key re_ActivateAt (map snd (sorted_entries (kr_entries r)))"

definition activated :: "'s KeyRing \<Rightarrow> int \<Rightarrow> ringEntry list" where
  "activated r now = filter (\<lambda>e. \<not> re_ActivateAt e > now) (by_activation r)"

definition pending :: "'s KeyRing \<Rightarrow> int \<Rightarrow> ringEntry list" where
  "pending r now = filter (\<lambda>e. re_ActivateAt e > now) (by_activation r)"

definition scheduled :: "'s KeyRing \<Rightarrow> int \<Rightarrow> string" where
  "scheduled r now = (if activated r now = [] then [] else re_ID (last (activated r now)))"

text \<open>A retired key leaves the ring and, as far as the store answers, the store.\<close>

fun drop_retired :: "string list \<Rightarrow> 's KeyRing \<Rightarrow> 's \<Rightarrow> 's KeyRing \<times> 's" where
  "drop_retired [] r s = (r, s)"
| "drop_retired (ident # ids) r s =
     drop_retired ids (r\<lparr>kr_entries := tdel ident (kr_entries r)\<rparr>)
       (fst (ls_Remove (kr_state r) (keyRingIndexKey (kr_alg r)) ident
         (fst (ls_Delete (kr_state r) (keyRingEntryKey (kr_alg r) ident) s))))"

definition recompute :: "int \<Rightarrow> 's KeyRing \<Rightarrow> 's \<Rightarrow> 's KeyRing \<times> 's" where
  "recompute now r s =
     (case schedule (kc_Overlap (kr_cfg r)) now (activated r now) of
        (published, retired) \<Rightarrow>
          (case drop_retired (filter (\<lambda>ident. ident \<in> set retired) (tkeys (kr_entries r))) r s of
             (r', s') \<Rightarrow>
               (r'\<lparr>kr_activeID := scheduled r now, kr_published := remdups (map re_ID (pending r now) @ published)\<rparr>, s')))"

section \<open>Observing a key\<close>

definition entry_json :: "'s KeyRing \<Rightarrow> string \<Rightarrow> ('s, port_err option, ringEntry option) sop" where
  "entry_json r key s =
     (case ls_Get (kr_state r) key s of
        (s', Inl e) \<Rightarrow> (s', Inl (Some e))
      | (s', Inr None) \<Rightarrow> (s', Inr None)
      | (s', Inr (Some raw)) \<Rightarrow>
          (case kr_unmarshal r raw of None \<Rightarrow> (s', Inl None) | Some x \<Rightarrow> (s', Inr (Some x))))"

definition new_entry :: "'s KeyRing \<Rightarrow> int \<Rightarrow> SigningKey \<Rightarrow> bool \<Rightarrow> ringEntry" where
  "new_entry r now key immediate =
     \<lparr>re_ID = sk_id key, re_JWK = sk_public key, re_Algorithm = sk_alg key, re_SeenAt = now,
      re_ActivateAt = (if immediate then now else now + kc_ActivationDelay (kr_cfg r)), re_signer = None\<rparr>"

definition claim_entry :: "SigningKey \<Rightarrow> 's KeyRing \<Rightarrow> ringEntry \<Rightarrow> 's \<Rightarrow> 's \<times> ringEntry" where
  "claim_entry key r entry s =
     (case ls_SetIfAbsent (kr_state r) (keyRingEntryKey (kr_alg r) (sk_id key)) (kr_marshal r entry) keyRingEntryTTL s of
        (s2, won) \<Rightarrow>
          (case (if won = Inr False then entry_json r (keyRingEntryKey (kr_alg r) (sk_id key)) s2 else (s2, Inr None)) of
             (s3, stored) \<Rightarrow>
               (fst (ls_Add (kr_state r) (keyRingIndexKey (kr_alg r)) (sk_id key) keyRingEntryTTL s3),
                (case stored of Inr (Some x) \<Rightarrow> x | _ \<Rightarrow> entry)\<lparr>re_signer := Some key\<rparr>)))"

definition record_key :: "int \<Rightarrow> SigningKey \<Rightarrow> 's KeyRing \<Rightarrow> 's \<Rightarrow> 's \<times> ringEntry" where
  "record_key now key r s =
     (case ls_Members (kr_state r) (keyRingIndexKey (kr_alg r)) s of
        (s1, members) \<Rightarrow>
          claim_entry key r
            (new_entry r now key (case members of Inl _ \<Rightarrow> kr_entries r = [] | Inr ms \<Rightarrow> ms = [])) s1)"

fun absorb_each :: "string list \<Rightarrow> 's KeyRing \<Rightarrow> 's \<Rightarrow> 's KeyRing \<times> 's" where
  "absorb_each [] r s = (r, s)"
| "absorb_each (ident # ids) r s =
     (if has_key (kr_entries r) ident then absorb_each ids r s
      else case entry_json r (keyRingEntryKey (kr_alg r) ident) s of
        (s', Inr (Some stored)) \<Rightarrow> absorb_each ids (r\<lparr>kr_entries := tput ident stored (kr_entries r)\<rparr>) s'
      | (s', _) \<Rightarrow> absorb_each ids r s')"

definition absorb :: "'s KeyRing \<Rightarrow> 's \<Rightarrow> 's KeyRing \<times> 's" where
  "absorb r s =
     (case ls_Members (kr_state r) (keyRingIndexKey (kr_alg r)) s of
        (s', Inl _) \<Rightarrow> (r, s') | (s', Inr ids) \<Rightarrow> absorb_each ids r s')"

definition refresh_one :: "'s KeyRing \<Rightarrow> string \<times> ringEntry \<Rightarrow> 's \<Rightarrow> 's" where
  "refresh_one r ie s =
     (case ie of (ident, entry) \<Rightarrow>
        fst (ls_Add (kr_state r) (keyRingIndexKey (kr_alg r)) ident keyRingEntryTTL
          (fst (ls_Set (kr_state r) (keyRingEntryKey (kr_alg r) ident) (kr_marshal r entry) keyRingEntryTTL s))))"

definition refresh :: "'s KeyRing \<Rightarrow> 's \<Rightarrow> 's" where
  "refresh r s = fold (refresh_one r) (sorted_entries (kr_entries r)) s"

datatype ring_err = NoKey | WrongAlgorithm string string | NoRing string | TwoKeys string

text \<open>The end of an observation: the entry is filed, what other replicas know is taken in, all of it is written again, the answers follow.\<close>

fun finish :: "int \<Rightarrow> 's KeyRing \<times> 's \<Rightarrow> 's KeyRing \<times> 's \<times> ring_err option" where
  "finish now (r, s) = (case recompute now r (refresh r s) of (r', s') \<Rightarrow> (r', s', None))"

fun settle :: "int \<Rightarrow> SigningKey \<Rightarrow> 's KeyRing \<Rightarrow> 's \<times> ringEntry \<Rightarrow> 's KeyRing \<times> 's \<times> ring_err option" where
  "settle now k r (s, entry) = finish now (absorb (r\<lparr>kr_entries := tput (sk_id k) entry (kr_entries r)\<rparr>) s)"

definition Observe :: "int \<Rightarrow> SigningKey option \<Rightarrow> 's KeyRing \<Rightarrow> 's \<Rightarrow> 's KeyRing \<times> 's \<times> ring_err option" where
  "Observe now key r s =
     (case key of
        None \<Rightarrow> (r, s, Some NoKey)
      | Some k \<Rightarrow>
          (if sk_alg k \<noteq> kr_alg r then (r, s, Some (WrongAlgorithm (kr_alg r) (sk_alg k)))
           else settle now k r (case map_of (kr_entries r) (sk_id k) of
                    Some existing \<Rightarrow> (s, existing\<lparr>re_signer := Some k\<rparr>)
                  | None \<Rightarrow> record_key now k r s)))"

section \<open>Answers\<close>

definition newer :: "ringEntry \<Rightarrow> ringEntry option \<Rightarrow> ringEntry option" where
  "newer e best = (case best of None \<Rightarrow> Some e | Some b \<Rightarrow> (if re_ActivateAt e > re_ActivateAt b then Some e else Some b))"

definition Active :: "'s KeyRing \<Rightarrow> SigningKey option" where
  "Active r =
     (case (case map_of (kr_entries r) (kr_activeID r) of None \<Rightarrow> None | Some e \<Rightarrow> re_signer e) of
        Some k \<Rightarrow> Some k
      | None \<Rightarrow>
          (case fold newer (filter (\<lambda>e. re_signer e \<noteq> None) (map snd (sorted_entries (kr_entries r)))) None of
             None \<Rightarrow> None | Some best \<Rightarrow> re_signer best))"

definition Published :: "'s KeyRing \<Rightarrow> (string \<times> string \<times> string) list" where
  "Published r = List.map_filter (\<lambda>ident. map_option (\<lambda>e. (re_ID e, re_Algorithm e, re_JWK e)) (map_of (kr_entries r) ident))
     (kr_published r)"

definition Algorithms :: "'s KeyRing \<Rightarrow> string list" where
  "Algorithms r = remdups (List.map_filter (\<lambda>ident. map_option re_Algorithm (map_of (kr_entries r) ident)) (kr_published r))"

definition Status :: "'s KeyRing \<Rightarrow> string \<times> int" where
  "Status r = (kr_activeID r, int (length (kr_published r)))"

section \<open>One ring for every algorithm\<close>

record 's KeyRings =
  ks_rings :: "'s KeyRing table"
  ks_primary :: string

fun adopt :: "int \<Rightarrow> (string \<Rightarrow> 's KeyRing) \<Rightarrow> SigningKey option list \<Rightarrow> 's KeyRings \<Rightarrow> 's \<Rightarrow> 's \<times> (ring_err + 's KeyRings)" where
  "adopt now fresh [] out s = (s, Inr out)"
| "adopt now fresh (None # ks) out s = adopt now fresh ks out s"
| "adopt now fresh (Some k # ks) out s =
     (if has_key (ks_rings out) (sk_alg k) then (s, Inl (TwoKeys (sk_alg k)))
      else case Observe now (Some k) (fresh (sk_alg k)) s of
        (_, s', Some e) \<Rightarrow> (s', Inl e)
      | (ring, s', None) \<Rightarrow> adopt now fresh ks (out\<lparr>ks_rings := tput (sk_alg k) ring (ks_rings out)\<rparr>) s')"

definition NewKeyRings ::
  "int \<Rightarrow> (string \<Rightarrow> 's KeyRing) \<Rightarrow> SigningKey option \<Rightarrow> SigningKey option list \<Rightarrow> 's \<Rightarrow> 's \<times> (ring_err + 's KeyRings)" where
  "NewKeyRings now fresh primary additional s =
     (case primary of
        None \<Rightarrow> (s, Inl NoKey)
      | Some p \<Rightarrow> adopt now fresh (primary # additional) \<lparr>ks_rings = [], ks_primary = sk_alg p\<rparr> s)"

definition Rings_Has :: "'s KeyRings \<Rightarrow> string \<Rightarrow> bool" where
  "Rings_Has k alg = has_key (ks_rings k) alg"

definition Configured :: "'s KeyRings \<Rightarrow> string list" where
  "Configured k = tkeys (ks_rings k)"

definition Rings_Active :: "'s KeyRings \<Rightarrow> string \<Rightarrow> SigningKey option" where
  "Rings_Active k alg = (case map_of (ks_rings k) alg of None \<Rightarrow> None | Some ring \<Rightarrow> Active ring)"

definition Rotate :: "int \<Rightarrow> SigningKey \<Rightarrow> 's KeyRings \<Rightarrow> 's \<Rightarrow> 's KeyRings \<times> 's \<times> ring_err option" where
  "Rotate now key k s =
     (case map_of (ks_rings k) (sk_alg key) of
        None \<Rightarrow> (k, s, Some (NoRing (sk_alg key)))
      | Some ring \<Rightarrow>
          (case Observe now (Some key) ring s of
             (ring', s', e) \<Rightarrow> (k\<lparr>ks_rings := tput (sk_alg key) ring' (ks_rings k)\<rparr>, s', e)))"

definition Rings_Configure :: "KeyRingConfig \<Rightarrow> 's KeyRings \<Rightarrow> 's KeyRings" where
  "Rings_Configure cfg k = k\<lparr>ks_rings := map (\<lambda>(alg, ring). (alg, Configure cfg ring)) (ks_rings k)\<rparr>"

definition Rings_Published :: "'s KeyRings \<Rightarrow> (string \<times> string \<times> string) list" where
  "Rings_Published k = concat (map (Published \<circ> snd) (sorted_entries (ks_rings k)))"

definition Rings_Algorithms :: "'s KeyRings \<Rightarrow> string list" where
  "Rings_Algorithms k = sort_compact (concat (map (Algorithms \<circ> snd) (sorted_entries (ks_rings k))))"

definition Rings_Status :: "'s KeyRings \<Rightarrow> (string \<times> int) table" where
  "Rings_Status k = map (\<lambda>(alg, ring). (alg, Status ring)) (sorted_entries (ks_rings k))"

section \<open>Overlap\<close>

text \<open>Every entry is filed under its own identifier, and no two are activated at the same instant.\<close>

definition ring_ok :: "'s KeyRing \<Rightarrow> bool" where
  "ring_ok r = ((\<forall>i e. map_of (kr_entries r) i = Some e \<longrightarrow> re_ID e = i)
     \<and> (\<forall>i j e f. map_of (kr_entries r) i = Some e \<and> map_of (kr_entries r) j = Some f \<and> re_ActivateAt e = re_ActivateAt f \<longrightarrow> i = j))"

lemma set_by_activation: "e \<in> set (by_activation r) \<longleftrightarrow> (\<exists>i. map_of (kr_entries r) i = Some e)"
  by (force simp: by_activation_def sorted_entries_def image_iff dom_def)

lemma sorted_last: "sorted (map f xs) \<Longrightarrow> x \<in> set xs \<Longrightarrow> (f x :: int) \<le> f (last xs)"
  by (induction xs) auto

lemma published_or_retired:
  "e \<in> set xs \<Longrightarrow> re_ID e \<in> set (fst (schedule ov now xs)) \<or> re_ID e \<in> set (snd (schedule ov now xs))"
  by (induction ov now xs rule: schedule.induct) (auto split: prod.splits if_splits)

lemma retired_superseded:
  "sorted_wrt (\<lambda>a b. re_ActivateAt a < re_ActivateAt b) xs \<Longrightarrow> i \<in> set (snd (schedule ov now xs))
    \<Longrightarrow> \<exists>e \<in> set xs. re_ID e = i \<and> (\<exists>f \<in> set xs. re_ActivateAt e < re_ActivateAt f \<and> now > re_ActivateAt f + ov)"
proof (induction ov now xs rule: schedule.induct)
  case (3 ov now e f es)
  have "sorted_wrt (\<lambda>a b. re_ActivateAt a < re_ActivateAt b) (f # es)" using 3(2) by simp
  moreover have "re_ActivateAt e < re_ActivateAt f" using 3(2) by simp
  ultimately show ?case using 3(1,3) by (fastforce split: prod.splits if_splits)
qed auto

lemma strictly_by_activation:
  assumes "ring_ok r"
  shows "sorted_wrt (\<lambda>a b. re_ActivateAt a < re_ActivateAt b) (by_activation r)"
proof -
  let ?vs = "map snd (sorted_entries (kr_entries r))"
  have keys: "?vs = map (\<lambda>k. the (map_of (kr_entries r) k)) (tkeys (kr_entries r))" by (simp add: sorted_entries_def)
  have "inj_on (\<lambda>k. re_ActivateAt (the (map_of (kr_entries r) k))) (set (tkeys (kr_entries r)))"
  proof (rule inj_onI)
    fix i j assume "i \<in> set (tkeys (kr_entries r))" "j \<in> set (tkeys (kr_entries r))"
      "re_ActivateAt (the (map_of (kr_entries r) i)) = re_ActivateAt (the (map_of (kr_entries r) j))"
    then show "i = j" using assms unfolding ring_ok_def by fastforce
  qed
  then have "distinct (map re_ActivateAt ?vs)" unfolding keys map_map comp_def by (simp only: distinct_map distinct_tkeys simp_thms)
  then have "distinct (map re_ActivateAt (by_activation r))"
    unfolding by_activation_def distinct_map set_sort distinct_sort .
  moreover have "sorted (map re_ActivateAt (by_activation r))" by (simp add: by_activation_def)
  ultimately have "sorted_wrt (<) (map re_ActivateAt (by_activation r))" by (simp add: strict_sorted_iff)
  then show ?thesis by (simp add: sorted_wrt_map)
qed

lemma scheduled_is_newest:
  assumes "ring_ok r" and "activated r now \<noteq> []"
  shows "\<exists>e. map_of (kr_entries r) (scheduled r now) = Some e \<and> re_ActivateAt e \<le> now
    \<and> (\<forall>i f. map_of (kr_entries r) i = Some f \<and> re_ActivateAt f \<le> now \<longrightarrow> re_ActivateAt f \<le> re_ActivateAt e)"
proof -
  let ?xs = "activated r now" and ?e = "last (activated r now)"
  have e: "?e \<in> set ?xs" using assms(2) by simp
  then obtain i where i: "map_of (kr_entries r) i = Some ?e" "re_ActivateAt ?e \<le> now"
    by (auto simp: activated_def set_by_activation)
  then have "scheduled r now = i" using assms unfolding scheduled_def ring_ok_def by auto
  moreover have "re_ActivateAt f \<le> re_ActivateAt ?e" if "map_of (kr_entries r) j = Some f" "re_ActivateAt f \<le> now" for j f
  proof -
    have f: "f \<in> set ?xs" using that by (auto simp: activated_def set_by_activation)
    have "sorted (map re_ActivateAt ?xs)" by (simp add: activated_def by_activation_def sorted_filter)
    then show ?thesis using f by (rule sorted_last)
  qed
  ultimately show ?thesis using i by blast
qed

lemma drop_retired_entries:
  "map_of (kr_entries (fst (drop_retired ids r s))) k = (if k \<in> set ids then None else map_of (kr_entries r) k)"
  by (induction ids r s rule: drop_retired.induct) (auto simp: Let_def)

lemma recompute_keeps:
  assumes "ring_ok r" and "map_of (kr_entries r) k = Some e"
    and "\<And>i f. map_of (kr_entries r) i = Some f \<Longrightarrow> re_ActivateAt f \<le> now \<Longrightarrow> re_ActivateAt e < re_ActivateAt f
      \<Longrightarrow> now \<le> re_ActivateAt f + kc_Overlap (kr_cfg r)"
  shows "k \<in> set (kr_published (fst (recompute now r s))) \<and> map_of (kr_entries (fst (recompute now r s))) k = Some e"
proof -
  have idk: "re_ID e = k" using assms(1,2) by (simp add: ring_ok_def)
  obtain pub ret where sc: "schedule (kc_Overlap (kr_cfg r)) now (activated r now) = (pub, ret)" by (cases "schedule (kc_Overlap (kr_cfg r)) now (activated r now)")
  have "sorted_wrt (\<lambda>a b. re_ActivateAt a < re_ActivateAt b) (activated r now)"
    unfolding activated_def by (rule sorted_wrt_filter [OF strictly_by_activation [OF assms(1)]])
  note sup = retired_superseded [OF this, of _ "kc_Overlap (kr_cfg r)" now]
  have live: "k \<notin> set ret"
  proof
    assume "k \<in> set ret"
    then obtain g f where gf: "g \<in> set (activated r now)" "re_ID g = k" "f \<in> set (activated r now)"
        "re_ActivateAt g < re_ActivateAt f" "now > re_ActivateAt f + kc_Overlap (kr_cfg r)"
      using sup [of k] sc by auto
    obtain i where "map_of (kr_entries r) i = Some g" using gf(1) by (auto simp: activated_def set_by_activation)
    then have "g = e" using assms(1,2) gf(2) unfolding ring_ok_def by (metis option.inject)
    moreover obtain j where "map_of (kr_entries r) j = Some f" "re_ActivateAt f \<le> now"
      using gf(3) by (auto simp: activated_def set_by_activation)
    ultimately show False using assms(3) gf(4,5) by fastforce
  qed
  have "k \<in> set (map re_ID (pending r now)) \<or> k \<in> set pub"
  proof (cases "re_ActivateAt e \<le> now")
    case True
    then have "e \<in> set (activated r now)" using assms(2) by (auto simp: activated_def set_by_activation)
    then show ?thesis using published_or_retired [of e "activated r now" "kc_Overlap (kr_cfg r)" now] sc live idk by auto
  next
    case False
    then have "e \<in> set (pending r now)" using assms(2) by (auto simp: pending_def set_by_activation)
    then show ?thesis using idk by auto
  qed
  then show ?thesis
    using live sc assms(2) drop_retired_entries [of "filter (\<lambda>i. i \<in> set ret) (tkeys (kr_entries r))" r s k]
    by (auto simp: recompute_def split: prod.splits)
qed


section \<open>Recording a key\<close>

definition entries_ok :: "'s KeyRing \<Rightarrow> bool" where
  "entries_ok r = (\<forall>i e. map_of (kr_entries r) i = Some e \<longrightarrow> re_ID e = i)"

definition stored_ok :: "'s KeyRing \<Rightarrow> View \<Rightarrow> bool" where
  "stored_ok r v = (\<forall>i raw t x. vw_val v (keyRingEntryKey (kr_alg r) i) = Some (raw, t) \<and> kr_unmarshal r raw = Some x \<longrightarrow> re_ID x = i)"

definition ring_codec :: "'s KeyRing \<Rightarrow> bool" where
  "ring_codec r = (\<forall>e. kr_unmarshal r (kr_marshal r e) = Some (e\<lparr>re_signer := None\<rparr>))"

lemma entry_key_inj [simp]: "keyRingEntryKey alg i = keyRingEntryKey alg j \<longleftrightarrow> i = j"
  by (simp add: keyRingEntryKey_def)

lemma absorb_each_keeps:
  "map_of (kr_entries r) i = Some e \<Longrightarrow> map_of (kr_entries (fst (absorb_each ids r s))) i = Some e"
proof (induction ids arbitrary: r s)
  case (Cons j ids)
  obtain s1 st where st: "entry_json r (keyRingEntryKey (kr_alg r) j) s = (s1, st)"
    by (cases "entry_json r (keyRingEntryKey (kr_alg r) j) s")
  show ?case
  proof (cases "has_key (kr_entries r) j")
    case True
    then show ?thesis using Cons by simp
  next
    case False
    then have "j \<noteq> i" using Cons.prems by (auto simp: has_key_def dom_def)
    then show ?thesis using Cons False st by (auto split: sum.splits option.splits)
  qed
qed simp

lemma absorb_keeps: "map_of (kr_entries r) i = Some e \<Longrightarrow> map_of (kr_entries (fst (absorb r s))) i = Some e"
  by (auto simp: absorb_def absorb_each_keeps split: prod.splits sum.splits)

lemma ttl_pos: "0 < keyRingEntryTTL"
  by (simp add: keyRingEntryTTL_def)

context login_state
begin

lemma entry_json_law:
  assumes "ok s" and "kr_state r = L" and "entry_json r key s = (s', res)"
  shows "ok s' \<and> view s' = view s \<and> res = (case vw_val (view s) key of None \<Rightarrow> Inr None
    | Some (raw, _) \<Rightarrow> (case kr_unmarshal r raw of None \<Rightarrow> Inl None | Some x \<Rightarrow> Inr (Some x)))"
proof (cases "ls_Get L key s")
  case (Pair s1 r1)
  note get_law [OF assms(1) this]
  then show ?thesis using assms(2,3) Pair by (auto simp: entry_json_def split: option.splits)
qed

lemma add_keeps_vals:
  assumes "ok s" and "ls_Add L k x keyRingEntryTTL s = (s', res)"
  shows "ok s' \<and> vw_now (view s') = vw_now (view s) \<and> vw_val (view s') = vw_val (view s)"
proof (cases res)
  case (Inl e)
  have "ok s' \<and> view s' = view s"
    by (rule on_error [where k = k and x = x and ttl = keyRingEntryTTL, OF assms(1)]) (use assms(2) Inl in blast)
  then show ?thesis by simp
next
  case (Inr u)
  then show ?thesis using add_law [OF assms(1) ttl_pos] assms(2) by fastforce
qed

text \<open>The first replica decides the schedule and writes it; whoever comes later takes what is written.\<close>

lemma record_first:
  assumes "ok s" and "kr_state r = L" and "vw_val (view s) (keyRingEntryKey (kr_alg r) (sk_id k)) = None"
    and "\<And>s' b. \<not> isl (snd (ls_SetIfAbsent L (keyRingEntryKey (kr_alg r) (sk_id k)) (kr_marshal r (new_entry r now k b)) keyRingEntryTTL s'))"
    and "record_key now k r s = (s', e)"
  defines "x \<equiv> new_entry r now k (fst (vw_set (view s) (keyRingIndexKey (kr_alg r))) = {})"
  shows "e = x\<lparr>re_signer := Some k\<rparr> \<and> ok s' \<and> vw_now (view s') = vw_now (view s)
    \<and> vw_val (view s') = (vw_val (view s))(keyRingEntryKey (kr_alg r) (sk_id k) \<mapsto>
        (kr_marshal r x, Some (vw_now (view s) + keyRingEntryTTL)))"
proof -
  let ?ek = "keyRingEntryKey (kr_alg r) (sk_id k)" and ?ix = "keyRingIndexKey (kr_alg r)"
  obtain s1 ms where m: "ls_Members L ?ix s = (s1, Inr ms)" "ok s1" "view s1 = view s" "set ms = fst (vw_set (view s) ?ix)"
    using members_law [OF assms(1)] by (metis prod.collapse)
  have imm: "new_entry r now k (ms = []) = x" by (simp add: x_def m(4) [symmetric])
  obtain s2 won where w: "ls_SetIfAbsent L ?ek (kr_marshal r x) keyRingEntryTTL s1 = (s2, won)"
    by (cases "ls_SetIfAbsent L ?ek (kr_marshal r x) keyRingEntryTTL s1")
  have "\<not> isl won" using assms(4) [of "fst (vw_set (view s) ?ix) = {}" s1] w by (simp add: x_def)
  then have won: "won = Inr True" "ok s2"
      "view s2 = (view s)\<lparr>vw_val := (vw_val (view s))(?ek \<mapsto> (kr_marshal r x, ending (vw_now (view s)) keyRingEntryTTL))\<rparr>"
    using set_if_absent_law [OF m(2) w] assms(3) m(3) by (cases won; auto split: bool.splits)+
  obtain s3 ar where a: "ls_Add L ?ix (sk_id k) keyRingEntryTTL s2 = (s3, ar)" by (cases "ls_Add L ?ix (sk_id k) keyRingEntryTTL s2")
  have "s' = s3" "e = x\<lparr>re_signer := Some k\<rparr>"
    using assms(2,5) m(1) imm w won(1) a by (auto simp: record_key_def claim_entry_def)
  then show ?thesis using add_keeps_vals [OF won(2) a] won(3) ttl_pos by (simp add: ending_def)
qed

lemma record_later:
  assumes "ok s" and "kr_state r = L" and "vw_val (view s) (keyRingEntryKey (kr_alg r) (sk_id k)) = Some (raw, t)"
    and "kr_unmarshal r raw = Some x"
    and "\<And>s' b. \<not> isl (snd (ls_SetIfAbsent L (keyRingEntryKey (kr_alg r) (sk_id k)) (kr_marshal r (new_entry r now k b)) keyRingEntryTTL s'))"
    and "record_key now k r s = (s', e)"
  shows "e = x\<lparr>re_signer := Some k\<rparr>"
proof -
  let ?ek = "keyRingEntryKey (kr_alg r) (sk_id k)" and ?ix = "keyRingIndexKey (kr_alg r)"
  obtain s1 ms where m: "ls_Members L ?ix s = (s1, Inr ms)" "ok s1" "view s1 = view s"
    using members_law [OF assms(1)] by (metis prod.collapse)
  let ?y = "new_entry r now k (ms = [])"
  obtain s2 won where w: "ls_SetIfAbsent L ?ek (kr_marshal r ?y) keyRingEntryTTL s1 = (s2, won)"
    by (cases "ls_SetIfAbsent L ?ek (kr_marshal r ?y) keyRingEntryTTL s1")
  have "\<not> isl won" using assms(5) [of "ms = []" s1] w by simp
  then have won: "won = Inr False" "ok s2" "view s2 = view s"
    using set_if_absent_law [OF m(2) w] assms(3) m(3) by (cases won; auto split: bool.splits)+
  obtain s3 st where j: "entry_json r ?ek s2 = (s3, st)" by (cases "entry_json r ?ek s2")
  have "st = Inr (Some x)" using entry_json_law [OF won(2) assms(2) j] assms(3,4) won(3) by simp
  then show ?thesis using assms(2,6) m(1) w won(1) j by (auto simp: record_key_def claim_entry_def)
qed

lemma absorb_each_ok:
  "ok s \<Longrightarrow> kr_state r = L \<Longrightarrow> entries_ok r \<Longrightarrow> stored_ok r (view s)
    \<Longrightarrow> entries_ok (fst (absorb_each ids r s)) \<and> kr_cfg (fst (absorb_each ids r s)) = kr_cfg r"
proof (induction ids arbitrary: r s)
  case (Cons i ids)
  show ?case
  proof (cases "has_key (kr_entries r) i")
    case True
    then show ?thesis using Cons by simp
  next
    case False
    obtain s1 st where j: "entry_json r (keyRingEntryKey (kr_alg r) i) s = (s1, st)"
      by (cases "entry_json r (keyRingEntryKey (kr_alg r) i) s")
    note law = entry_json_law [OF Cons.prems(1,2) j]
    show ?thesis
    proof (cases "\<exists>x. st = Inr (Some x)")
      case True
      then obtain x where x: "st = Inr (Some x)" by blast
      then have "re_ID x = i" using law Cons.prems(4) by (auto simp: stored_ok_def split: option.splits)
      then have "entries_ok (r\<lparr>kr_entries := tput i x (kr_entries r)\<rparr>)" using Cons.prems(3) by (simp add: entries_ok_def)
      moreover have "stored_ok (r\<lparr>kr_entries := tput i x (kr_entries r)\<rparr>) (view s1)"
        using Cons.prems(4) law by (simp add: stored_ok_def)
      moreover have "absorb_each (i # ids) r s = absorb_each ids (r\<lparr>kr_entries := tput i x (kr_entries r)\<rparr>) s1"
        using False j [unfolded x] by simp
      ultimately show ?thesis
        using Cons.IH [of s1 "r\<lparr>kr_entries := tput i x (kr_entries r)\<rparr>"] Cons.prems(2) law by simp
    next
      case False
      have "absorb_each (i # ids) r s = absorb_each ids r s1"
        using False \<open>\<not> has_key (kr_entries r) i\<close> j by (auto split: sum.splits option.splits)
      then show ?thesis using Cons.IH [of s1 r] Cons.prems law by simp
    qed
  qed
qed simp

lemma absorb_ok:
  assumes "ok s" and "kr_state r = L" and "entries_ok r" and "stored_ok r (view s)"
  shows "entries_ok (fst (absorb r s)) \<and> kr_cfg (fst (absorb r s)) = kr_cfg r"
proof -
  obtain s1 ms where "ls_Members L (keyRingIndexKey (kr_alg r)) s = (s1, Inr ms)" "ok s1" "view s1 = view s"
    using members_law [OF assms(1)] by (metis prod.collapse)
  then show ?thesis using absorb_each_ok [of s1 r ms] assms by (simp add: absorb_def)
qed

end

lemma pending_published:
  assumes "entries_ok r" and "map_of (kr_entries r) i = Some e" and "now < re_ActivateAt e"
  shows "i \<in> set (kr_published (fst (recompute now r s))) \<and> kr_activeID (fst (recompute now r s)) \<noteq> i \<or> i = []"
proof -
  have idi: "re_ID e = i" using assms(1,2) by (simp add: entries_ok_def)
  have "e \<in> set (pending r now)" using assms(2,3) by (auto simp: pending_def set_by_activation)
  then have pub: "i \<in> set (kr_published (fst (recompute now r s)))"
    using idi by (auto simp: recompute_def split: prod.splits)
  have "re_ID g \<noteq> i" if act: "g \<in> set (activated r now)" for g
  proof
    assume g: "re_ID g = i"
    obtain j where j: "map_of (kr_entries r) j = Some g" using act by (auto simp: activated_def set_by_activation)
    then have "j = i" using assms(1) g by (auto simp: entries_ok_def)
    then show False using j assms(2,3) act by (auto simp: activated_def)
  qed
  then have "scheduled r now = [] \<or> scheduled r now \<noteq> i" by (auto simp: scheduled_def)
  then show ?thesis using pub by (auto simp: recompute_def split: prod.splits)
qed

text \<open>A write of an entry that fits the store is never refused.\<close>

definition entry_fits :: "'s KeyRing \<Rightarrow> int \<Rightarrow> SigningKey \<Rightarrow> bool" where
  "entry_fits r now k = (\<forall>b. int (length (kr_marshal r (new_entry r now k b))) \<le> MaxValue)"

lemma claim_not_refused:
  assumes "entry_fits r now k"
  shows "\<not> isl (snd (ls_SetIfAbsent port_state key (kr_marshal r (new_entry r now k b)) keyRingEntryTTL s))"
proof -
  have "CheckWrite key (kr_marshal r (new_entry r now k b)) keyRingEntryTTL = None"
    using assms ttl_pos by (simp add: CheckWrite_def guard_err_def entry_fits_def not_less first_some_None)
  then show ?thesis
    by (cases "liveEntry s key"; cases "Store_write key (kr_marshal r (new_entry r now k b)) keyRingEntryTTL s")
      (auto simp: port_defs store_defs)
qed

text \<open>
  When a key is activated is decided once. Over the shared store, the first replica to observe a key
  records its schedule, and a replica that observes the same key later, while the record lives and
  whatever its own clock and configuration say, takes that schedule instead of deciding one of its own.
\<close>
theorem schedule_is_decided_once:
  assumes "store_ok s" and "sets_ok s" and "kr_state a = port_state" and "kr_state b = port_state"
    and "kr_alg b = kr_alg a" and "ring_codec a" and "kr_unmarshal b = kr_unmarshal a"
    and "vw_val (store_view s) (keyRingEntryKey (kr_alg a) (sk_id k)) = None"
    and "entry_fits a now k" and "entry_fits b later k" and "0 \<le> d" and "d < keyRingEntryTTL"
    and "record_key now k a s = (s', e)"
  shows "snd (record_key later k b (Store_Advance d s')) = e"
proof -
  let ?ek = "keyRingEntryKey (kr_alg a) (sk_id k)"
  let ?x = "new_entry a now k (fst (vw_set (store_view s) (keyRingIndexKey (kr_alg a))) = {})"
  have first: "e = ?x\<lparr>re_signer := Some k\<rparr>" "store_ok s' \<and> sets_ok s'" "vw_now (store_view s') = vw_now (store_view s)"
      "vw_val (store_view s') = (vw_val (store_view s))(?ek \<mapsto> (kr_marshal a ?x, Some (vw_now (store_view s) + keyRingEntryTTL)))"
    using ps.record_first [OF conjI [OF assms(1,2)] assms(3,8) claim_not_refused [OF assms(9)] assms(13)] by simp_all
  note wait = ps.wait_law [OF first(2) assms(11)]
  have "vw_val (store_view (Store_Advance d s')) ?ek = Some (kr_marshal a ?x, Some (vw_now (store_view s) + keyRingEntryTTL))"
    using wait first(3,4) assms(12) by (simp add: view_later_def unexpired_def)
  moreover have "kr_unmarshal b (kr_marshal a ?x) = Some (?x\<lparr>re_signer := None\<rparr>)" using assms(6,7) by (simp add: ring_codec_def)
  ultimately have "snd (record_key later k b (Store_Advance d s')) = ?x\<lparr>re_signer := None\<rparr>\<lparr>re_signer := Some k\<rparr>"
    using ps.record_later [OF conjunct1 [OF wait] assms(4) _ _ claim_not_refused [OF assms(10)]
        prod.collapse [symmetric]] by (simp add: assms(5))
  then show ?thesis using first(1) by simp
qed

text \<open>
  A new key is published before it signs. When a replica observes a key that the shared state does
  not know, and other keys are known, the key is published at once with an activation one delay away, and
  until then the schedule names another key or none.
\<close>
theorem new_key_waits_published:
  assumes "store_ok s" and "sets_ok s" and "kr_state r = port_state" and "ring_codec r" and "entries_ok r"
    and "stored_ok r (store_view s)" and "fst (vw_set (store_view s) (keyRingIndexKey (kr_alg r))) \<noteq> {}"
    and "map_of (kr_entries r) (sk_id k) = None" and "vw_val (store_view s) (keyRingEntryKey (kr_alg r) (sk_id k)) = None"
    and "entry_fits r now k" and "sk_alg k = kr_alg r" and "sk_id k \<noteq> []" and "0 < kc_ActivationDelay (kr_cfg r)"
    and "Observe now (Some k) r s = (r', s', err)"
  shows "err = None \<and> sk_id k \<in> set (kr_published r') \<and> kr_activeID r' \<noteq> sk_id k"
proof -
  let ?x = "new_entry r now k False"
  obtain s1 e where rk: "record_key now k r s = (s1, e)" by (cases "record_key now k r s")
  have first: "e = ?x\<lparr>re_signer := Some k\<rparr>" "store_ok s1 \<and> sets_ok s1"
      "vw_val (store_view s1) = (vw_val (store_view s))(keyRingEntryKey (kr_alg r) (sk_id k) \<mapsto>
         (kr_marshal r ?x, Some (vw_now (store_view s) + keyRingEntryTTL)))"
    using ps.record_first [OF conjI [OF assms(1,2)] assms(3,9) claim_not_refused [OF assms(10)] rk] assms(7) by simp_all
  let ?r = "r\<lparr>kr_entries := tput (sk_id k) e (kr_entries r)\<rparr>"
  have "entries_ok ?r" using assms(5) first(1) by (auto simp: entries_ok_def new_entry_def)
  moreover have "stored_ok ?r (store_view s1)"
    using assms(4,6) first(3) by (auto simp: stored_ok_def ring_codec_def new_entry_def split: if_splits)
  moreover have "kr_state ?r = port_state" using assms(3) by simp
  ultimately have ok: "entries_ok (fst (absorb ?r s1))" using ps.absorb_ok [OF first(2)] by blast
  have "map_of (kr_entries (fst (absorb ?r s1))) (sk_id k) = Some e" by (rule absorb_keeps) simp
  moreover have "now < re_ActivateAt e" using first(1) assms(13) by (simp add: new_entry_def)
  ultimately have "sk_id k \<in> set (kr_published (fst (recompute now (fst (absorb ?r s1)) st)))
      \<and> kr_activeID (fst (recompute now (fst (absorb ?r s1)) st)) \<noteq> sk_id k" for st
    using pending_published [OF ok] assms(12) by blast
  moreover have "finish now (absorb ?r s1) = (r', s', err)" using assms(8,11,14) rk by (simp add: Observe_def)
  ultimately show ?thesis
    by (cases "absorb ?r s1") (auto split: prod.splits, (metis fst_conv)+)
qed

section \<open>Runs\<close>

text \<open>Two replicas on one store, a minute for a new key to wait and five minutes of overlap, with entries kept as text.\<close>

definition entry_text :: "ringEntry \<Rightarrow> string" where
  "entry_text e = dotted [re_ID e, re_JWK e, re_Algorithm e, int_text (re_SeenAt e), int_text (re_ActivateAt e)]"

definition text_entry :: "string \<Rightarrow> ringEntry option" where
  "text_entry s =
     (case undotted s of
        Some [i, j, a, n, t] \<Rightarrow>
          (case (text_int n, text_int t) of
             (Some seen, Some act) \<Rightarrow> Some \<lparr>re_ID = i, re_JWK = j, re_Algorithm = a, re_SeenAt = seen, re_ActivateAt = act, re_signer = None\<rparr>
           | _ \<Rightarrow> None)
      | _ \<Rightarrow> None)"

lemma entry_text_read: "text_entry (entry_text e) = Some (e\<lparr>re_signer := None\<rparr>)"
  unfolding text_entry_def entry_text_def undotted_dotted by (simp add: int_text_read)

definition w_ring :: "Store KeyRing" where
  "w_ring = NewKeyRing ''RS256'' port_state \<lparr>kc_ActivationDelay = 60, kc_Overlap = 300\<rparr> entry_text text_entry"

definition w_key :: "string \<Rightarrow> SigningKey" where
  "w_key i = \<lparr>sk_id = i, sk_public = ''pub'' @ i, sk_alg = ''RS256''\<rparr>"

definition w_entry :: "string \<Rightarrow> int \<Rightarrow> ringEntry" where
  "w_entry i t = \<lparr>re_ID = i, re_JWK = ''pub'' @ i, re_Algorithm = ''RS256'', re_SeenAt = t, re_ActivateAt = t, re_signer = None\<rparr>"

definition w_before :: "Store KeyRing" where
  "w_before = w_ring\<lparr>kr_entries := [(''k1'', w_entry ''k1'' 0)]\<rparr>"

definition w_after :: "Store KeyRing" where
  "w_after = w_ring\<lparr>kr_entries := [(''k1'', w_entry ''k1'' 0), (''k2'', w_entry ''k2'' 160)]\<rparr>"

definition ring_of :: "'r \<times> 's \<times> 'e \<Rightarrow> 'r" where
  "ring_of x = fst x"

definition store_of :: "'r \<times> 's \<times> 'e \<Rightarrow> 's" where
  "store_of x = fst (snd x)"


lemma w_fits: "entry_fits w_ring 0 (w_key ''k1'')" "entry_fits w_ring 7 (w_key ''k1'')" "entry_fits w_ring 100 (w_key ''k2'')"
  unfolding entry_fits_def all_bool_eq by code_simp+

lemma w_empty: "store_ok (Store_New 0)" "sets_ok (Store_New 0)" "vw_val (store_view (Store_New 0)) k = None"
  using store_ok_New [of 0] by (simp_all add: sets_ok_def store_view_def liveEntry_def Store_New_def)

lemma w_codec: "ring_codec w_ring"
  by (simp add: ring_codec_def w_ring_def NewKeyRing_def entry_text_read)

lemma w_ring_simps: "kr_state w_ring = port_state" "kr_alg w_ring = ''RS256''" "kr_entries w_ring = []"
  "kr_cfg w_ring = \<lparr>kc_ActivationDelay = 60, kc_Overlap = 300\<rparr>"
  by (simp_all add: w_ring_def NewKeyRing_def withDefaults_def)

theorem schedule_is_decided_once_witness:
  "snd (record_key 7 (w_key ''k1'') w_ring (Store_Advance 100 (fst (record_key 0 (w_key ''k1'') w_ring (Store_New 0))))) =
     snd (record_key 0 (w_key ''k1'') w_ring (Store_New 0))"
  using schedule_is_decided_once [OF w_empty(1,2) w_ring_simps(1,1) refl w_codec refl w_empty(3) w_fits(1,2) _ _
      prod.collapse [symmetric], of 100] by (simp add: keyRingEntryTTL_def)

definition w_known :: Store where
  "w_known = Index_Add (keyRingIndexKey ''RS256'') ''k1'' keyRingEntryTTL (Store_New 0)"

theorem new_key_waits_published_witness:
  "''k2'' \<in> set (kr_published (ring_of (Observe 100 (Some (w_key ''k2'')) w_ring w_known)))"
proof -
  have ok: "store_ok w_known" "sets_ok w_known" using w_empty by (simp_all add: w_known_def index_keeps_ok)
  have view: "vw_val (store_view w_known) key = None" for key
    using index_add_view [OF ttl_pos, of "''k1''" "Store_New 0" "keyRingIndexKey ''RS256''"] w_empty(3) by (auto simp: w_known_def)
  have "fst (vw_set (store_view w_known) (keyRingIndexKey (kr_alg w_ring))) \<noteq> {}"
    using index_add_view [OF ttl_pos, of "''k1''" "Store_New 0" "keyRingIndexKey ''RS256''"] by (auto simp: w_known_def w_ring_simps)
  then show ?thesis
    using new_key_waits_published [OF ok w_ring_simps(1) w_codec _ _ _ _ _ w_fits(3), of "ring_of (Observe 100 (Some (w_key ''k2'')) w_ring w_known)"
        "store_of (Observe 100 (Some (w_key ''k2'')) w_ring w_known)" "snd (snd (Observe 100 (Some (w_key ''k2'')) w_ring w_known))"] view
    by (simp add: entries_ok_def stored_ok_def w_ring_simps w_key_def ring_of_def store_of_def)
qed

text \<open>
  A replica that reads the first key from its file and has heard of the second, which took over at 160. It
  polls at 470, when the overlap is over, and half a minute later, still with the first key in its file.
\<close>

definition w_lagging :: "Store KeyRing" where
  "w_lagging = w_ring\<lparr>kr_entries := [(''k1'', (w_entry ''k1'' 0)\<lparr>re_signer := Some (w_key ''k1'')\<rparr>), (''k2'', w_entry ''k2'' 160)]\<rparr>"

fun poll_again :: "Store KeyRing \<times> Store \<times> ring_err option \<Rightarrow> SigningKey option \<times> string \<times> string" where
  "poll_again (r, s, _) =
     (Active r, scheduled r 500, scheduled (ring_of (Observe 500 (Some (w_key ''k1'')) r (Store_Advance 30 s))) 560)"

definition lagging_run :: "SigningKey option \<times> string \<times> string" where
  "lagging_run = poll_again (Observe 470 (Some (w_key ''k1'')) w_lagging (Store_New 470))"


end
