(* ===== verification/Issuer_Decide.thy ===== *)
theory Issuer_Decide
  imports Lint Key_Ring
begin

text \<open>
  What the issuer decides, in \<open>src/internal/issuer\<close>: \<open>issuer.go\<close> (configuration), \<open>resolve.go\<close> (the groups of a
  person, held for a window when the directory cannot vouch), \<open>exchange.go\<close> (a proof for an audience),
  \<open>scoping_enforce.go\<close> and \<open>groups_delimiter.go\<close> (the groups a token shows an audience), \<open>grants.go\<close> (what a
  caller's groups open), \<open>resource.go\<close> (resource indicators) and \<open>recovery.go\<close>. The directory's answer is an
  argument of the call that asks for it, \<open>url.Parse\<close> and the cluster's token review are parameters. The audit trail
  is left out here: its records say what happened and decide nothing.
\<close>

section \<open>Configuration\<close>

definition GroupsScopingOff :: string where "GroupsScopingOff = ''off''"
definition GroupsScopingReport :: string where "GroupsScopingReport = ''report''"
definition GroupsScopingEnforce :: string where "GroupsScopingEnforce = ''enforce''"

definition CheckGroupsScopingMode :: "string \<Rightarrow> bool" where
  "CheckGroupsScopingMode mode = (mode \<in> {GroupsScopingOff, GroupsScopingReport, GroupsScopingEnforce})"

record Config =
  cf_URL :: string
  cf_TokenLifetime :: int
  cf_RefreshLifetime :: int
  cf_AbsoluteLifetime :: int
  cf_HoldWindow :: int
  cf_GroupsScoping :: string

definition DefaultRefreshLifetime :: int where "DefaultRefreshLifetime = 12 * 3600 * 1000000000"
definition DefaultAbsoluteLifetime :: int where "DefaultAbsoluteLifetime = 24 * 3600 * 1000000000"
definition DefaultHoldWindow :: int where "DefaultHoldWindow = 4 * 3600 * 1000000000"

definition positive_or :: "int \<Rightarrow> int \<Rightarrow> int" where
  "positive_or fallback x = (if x \<le> 0 then fallback else x)"

definition Config_withDefaults :: "Config \<Rightarrow> Config" where
  "Config_withDefaults c =
     c\<lparr>cf_TokenLifetime := positive_or DefaultTokenLifetime (cf_TokenLifetime c),
       cf_RefreshLifetime := positive_or DefaultRefreshLifetime (cf_RefreshLifetime c),
       cf_AbsoluteLifetime := positive_or DefaultAbsoluteLifetime (cf_AbsoluteLifetime c),
       cf_HoldWindow := positive_or DefaultHoldWindow (cf_HoldWindow c),
       cf_GroupsScoping := (if cf_GroupsScoping c = [] then GroupsScopingReport else cf_GroupsScoping c)\<rparr>"

section \<open>Who a person is\<close>

record Standing =
  sd_Found :: bool
  sd_Suspended :: bool
  sd_Groups :: "string list"
  sd_Authoritative :: bool
  sd_GivenName :: string
  sd_FamilyName :: string

record lastKnown =
  lk_groups :: "string list"
  lk_at :: int

record Resolver =
  rv_window :: int
  rv_seen :: "lastKnown table"

record Resolution =
  rn_Groups :: "string list"
  rn_Held :: bool
  rn_GivenName :: string
  rn_FamilyName :: string

datatype resolve_err = NotLive | NoRecentAnswer | DirectoryFailed string

definition NewResolver :: "int \<Rightarrow> Resolver" where
  "NewResolver window = \<lparr>rv_window = window, rv_seen = []\<rparr>"

definition address :: "string \<Rightarrow> string" where
  "address email = to_lower (trim_space email)"

text \<open>The directory is asked about the lowered, trimmed address.\<close>

type_synonym directory = "string \<Rightarrow> string + Standing"

definition Resolve :: "directory \<Rightarrow> int \<Rightarrow> string \<Rightarrow> Resolver \<Rightarrow> Resolver \<times> (resolve_err + Resolution)" where
  "Resolve dir now email r =
     (case dir (address email) of
        Inr standing \<Rightarrow>
          (if sd_Authoritative standing then
             (if \<not> sd_Found standing \<or> sd_Suspended standing then (r\<lparr>rv_seen := tdel (address email) (rv_seen r)\<rparr>, Inl NotLive)
              else (r\<lparr>rv_seen := tput (address email) \<lparr>lk_groups = sd_Groups standing, lk_at = now\<rparr> (rv_seen r)\<rparr>,
                    Inr \<lparr>rn_Groups = sd_Groups standing, rn_Held = False,
                         rn_GivenName = sd_GivenName standing, rn_FamilyName = sd_FamilyName standing\<rparr>))
           else (r, case map_of (rv_seen r) (address email) of
                      Some known \<Rightarrow> (if now - lk_at known > rv_window r then Inl NoRecentAnswer
                        else Inr \<lparr>rn_Groups = lk_groups known, rn_Held = True, rn_GivenName = [], rn_FamilyName = []\<rparr>)
                    | None \<Rightarrow> Inl NoRecentAnswer))
      | Inl e \<Rightarrow>
          (r, case map_of (rv_seen r) (address email) of
                Some known \<Rightarrow> (if now - lk_at known > rv_window r then Inl (DirectoryFailed e)
                  else Inr \<lparr>rn_Groups = lk_groups known, rn_Held = True, rn_GivenName = [], rn_FamilyName = []\<rparr>)
              | None \<Rightarrow> Inl (DirectoryFailed e)))"

definition Forget :: "string \<Rightarrow> Resolver \<Rightarrow> Resolver" where
  "Forget email r = r\<lparr>rv_seen := tdel (address email) (rv_seen r)\<rparr>"

definition Resolution_Input :: "Resolution \<Rightarrow> string \<Rightarrow> Input" where
  "Resolution_Input res email =
     \<lparr>in_Email = email, in_DirectoryGroups = rn_Groups res, in_Authoritative = True,
      in_GitHub = None, in_ServiceAccount = None, in_AWS = None\<rparr>"

section \<open>Proofs\<close>

record SubjectProof =
  pf_Email :: string
  pf_GitHub :: "GitHubClaims option"
  pf_ServiceAccount :: "ServiceAccountRef option"
  pf_AWS :: "AWSRole option"

definition proof_Subject :: "SubjectProof \<Rightarrow> string" where
  "proof_Subject p =
     (if pf_Email p \<noteq> [] then pf_Email p
      else case pf_GitHub p of
        Some g \<Rightarrow> ''github:'' @ gh_Repository g
      | None \<Rightarrow>
     (case pf_ServiceAccount p of
        Some a \<Rightarrow> ServiceAccountRef_Subject a
      | None \<Rightarrow> (case pf_AWS p of Some a \<Rightarrow> AWSRole_Subject a | None \<Rightarrow> [])))"

definition proof_kind :: "SubjectProof \<Rightarrow> string" where
  "proof_kind p =
     (if pf_GitHub p \<noteq> None then ''ci''
      else if pf_ServiceAccount p \<noteq> None \<or> pf_AWS p \<noteq> None then ''workload''
      else if pf_Email p \<noteq> [] then ''person''
      else [])"

definition evaluate_proof ::
  "Policy \<Rightarrow> directory \<Rightarrow> int \<Rightarrow> SubjectProof \<Rightarrow> Resolver \<Rightarrow> Resolver \<times> (resolve_err + Result \<times> bool)" where
  "evaluate_proof p dir now pf r =
     (if pf_Email pf = [] then
        (r, Inr (Evaluate p \<lparr>in_Email = [], in_DirectoryGroups = [], in_Authoritative = False,
                  in_GitHub = pf_GitHub pf, in_ServiceAccount = pf_ServiceAccount pf, in_AWS = pf_AWS pf\<rparr>, False))
      else case Resolve dir now (pf_Email pf) r of
        (r', Inl e) \<Rightarrow> (r', Inl e)
      | (r', Inr res) \<Rightarrow>
          (r', Inr (Evaluate p ((Resolution_Input res (pf_Email pf))
             \<lparr>in_GitHub := pf_GitHub pf, in_ServiceAccount := pf_ServiceAccount pf, in_AWS := pf_AWS pf\<rparr>), rn_Held res)))"

section \<open>What a token shows an audience\<close>

definition scopeClaims :: "url_parser \<Rightarrow> string \<Rightarrow> Policy \<Rightarrow> fragment \<Rightarrow> string \<Rightarrow> string list \<Rightarrow> fragment" where
  "scopeClaims parse mode p claims audience held =
     (if mode \<noteq> GroupsScopingEnforce \<or> audience = [] \<or> held = [] then claims
      else let kept = fst (ScopeGroups parse p audience held)
           in if kept = [] then tdel ''groups'' claims else tput ''groups'' (VList (map VStr kept)) claims)"

definition groupsDelimiterFor :: "Policy \<Rightarrow> string \<Rightarrow> string" where
  "groupsDelimiterFor p ident =
     (if ident = [] then []
      else case map_of (p_Resources p) ident of
        Some r \<Rightarrow> (if r_GroupsDelimiter r \<noteq> [] then r_GroupsDelimiter r
                  else (case map_of (p_Clients p) ident of Some c \<Rightarrow> c_GroupsDelimiter c | None \<Rightarrow> []))
      | None \<Rightarrow> (case map_of (p_Clients p) ident of Some c \<Rightarrow> c_GroupsDelimiter c | None \<Rightarrow> []))"

fun rewrite_group :: "string \<Rightarrow> claim \<Rightarrow> claim" where
  "rewrite_group d (VStr name) = VStr (RewriteGroupsDelimiter name d)"
| "rewrite_group d other = other"

definition applyGroupsDelimiter :: "Policy \<Rightarrow> fragment \<Rightarrow> string \<Rightarrow> fragment" where
  "applyGroupsDelimiter p claims audience =
     (let d = groupsDelimiterFor p audience
      in if d = [] then claims
         else case map_of claims ''groups'' of
           Some (VList (g # gs)) \<Rightarrow> tput ''groups'' (VList (map (rewrite_group d) (g # gs))) claims
         | _ \<Rightarrow> claims)"

text \<open>The two, in the order every path that makes a token applies them.\<close>

definition shown_claims :: "url_parser \<Rightarrow> string \<Rightarrow> Policy \<Rightarrow> fragment \<Rightarrow> string \<Rightarrow> string list \<Rightarrow> fragment" where
  "shown_claims parse mode p claims audience held =
     applyGroupsDelimiter p (scopeClaims parse mode p claims audience held) audience"

section \<open>A proof for an audience\<close>

record ExchangeGrant =
  eg_Subject :: string
  eg_Audience :: string
  eg_Result :: Result
  eg_Claims :: fragment
  eg_Held :: bool

datatype exchange_err = ErrNoTarget | ErrUnknownTarget string | ErrRefused string | ResolveErr resolve_err

definition Exchange ::
  "url_parser \<Rightarrow> Config \<Rightarrow> Policy \<Rightarrow> directory \<Rightarrow> int \<Rightarrow> SubjectProof \<Rightarrow> string \<Rightarrow> Resolver
     \<Rightarrow> Resolver \<times> (exchange_err + ExchangeGrant)" where
  "Exchange parse cfg p dir now pf wanted r =
     (let audience = trim_space wanted
      in if audience = [] then (r, Inl ErrNoTarget)
         else case map_of (p_Clients p) audience of
           None \<Rightarrow> (r, Inl (ErrUnknownTarget audience))
         | Some client \<Rightarrow>
             (case evaluate_proof p dir now pf r of
                (r', Inl e) \<Rightarrow> (r', Inl (ResolveErr e))
              | (r', Inr (result, held)) \<Rightarrow>
                  (if \<not> Client_Admits client result then (r', Inl (ErrRefused audience))
                   else (r', Inr \<lparr>eg_Subject = proof_Subject pf, eg_Audience = audience, eg_Result = result,
                          eg_Claims = shown_claims parse (cf_GroupsScoping cfg) p (res_Claims result) audience (res_Groups result),
                          eg_Held = held\<rparr>))))"

definition Issuer_Lifetime :: "Policy \<Rightarrow> ExchangeGrant \<Rightarrow> int" where
  "Issuer_Lifetime p grant =
     (case map_of (p_Clients p) (eg_Audience grant) of
        None \<Rightarrow> res_Lifetime (eg_Result grant)
      | Some client \<Rightarrow> Client_Cap client (res_Lifetime (eg_Result grant)))"

definition Issuer_AbsoluteFor :: "Policy \<Rightarrow> Config \<Rightarrow> string \<Rightarrow> int" where
  "Issuer_AbsoluteFor p cfg resource = Set_EffectiveAbsolute p (cf_AbsoluteLifetime cfg) [resource]"

section \<open>What a caller's groups open\<close>

record Opens =
  on_Audience :: string
  on_Kind :: string
  on_Through :: "string list"

definition intersect :: "string list \<Rightarrow> string list \<Rightarrow> string list" where
  "intersect requires held = filter (\<lambda>name. name \<in> set held) requires"

definition opened_by :: "Policy \<Rightarrow> string list \<Rightarrow> Opens list" where
  "opened_by p groups =
     map (\<lambda>(ident, c). \<lparr>on_Audience = ident, on_Kind = c_Kind c, on_Through = intersect (c_Requires c) groups\<rparr>)
       (filter (\<lambda>(ident, c). Client_Admits c \<lparr>res_Groups = groups, res_Held = [], res_Claims = [], res_Lifetime = 0\<rparr>)
         (sorted_entries (p_Clients p)))"

section \<open>Resource indicators\<close>

datatype indicator_err = NotAURI | NotAbsolute | HasFragment | TwoIndicators | NotDeclared string

definition validateIndicator :: "url_parser \<Rightarrow> string \<Rightarrow> indicator_err option" where
  "validateIndicator parse raw =
     (case parse raw of
        None \<Rightarrow> Some NotAURI
      | Some u \<Rightarrow> first_some [guard_err (u_Scheme u = []) NotAbsolute,
                             guard_err (u_Fragment u \<noteq> [] \<or> CHR ''#'' \<in> set raw) HasFragment])"

text \<open>The indicators of one request to the authorization or the token endpoint: what it is carried on with.\<close>

definition resourceIndicators :: "url_parser \<Rightarrow> Policy \<Rightarrow> string list \<Rightarrow> indicator_err + string option" where
  "resourceIndicators parse p asked =
     (case asked of
        [] \<Rightarrow> Inr None
      | [wanted] \<Rightarrow>
          (case validateIndicator parse wanted of
             Some e \<Rightarrow> Inl e
           | None \<Rightarrow> (if has_key (p_Resources p) wanted then Inr (Some wanted) else Inl (NotDeclared wanted)))
      | _ \<Rightarrow> Inl TwoIndicators)"

section \<open>Recovery\<close>

record TokenRecovery =
  tr_Review :: "(string \<Rightarrow> string list \<Rightarrow> string option) option"
  tr_Audience :: string
  tr_Subjects :: "string list"
  tr_Cluster :: string

definition Recovery_Verify :: "TokenRecovery \<Rightarrow> string \<Rightarrow> string option" where
  "Recovery_Verify t evidence =
     (let token = trim_space evidence
      in case tr_Review t of
           None \<Rightarrow> None
         | Some review \<Rightarrow>
             (if token = [] \<or> tr_Audience t = [] \<or> tr_Subjects t = [] then None
              else case review token [tr_Audience t] of
                None \<Rightarrow> None
              | Some subject \<Rightarrow>
                  (if subject \<notin> set (tr_Subjects t) then None
                   else case ParseServiceAccountSubject subject of
                     Some account \<Rightarrow> Some (ServiceAccountRef_Subject (account\<lparr>sa_Cluster := tr_Cluster t\<rparr>))
                   | None \<Rightarrow> Some subject)))"

section \<open>The hold window\<close>

text \<open>What happened to a resolver: calls with the directory of that moment, and addresses forgotten.\<close>

datatype resolver_event = Asked directory int string | Forgot string

fun resolver_step :: "resolver_event \<Rightarrow> Resolver \<Rightarrow> Resolver" where
  "resolver_step (Asked dir now email) r = fst (Resolve dir now email r)"
| "resolver_step (Forgot email) r = Forget email r"

text \<open>What a directory vouches for: the groups of a live account, or that the account is not live.\<close>

definition vouched :: "directory \<Rightarrow> string \<Rightarrow> Standing option option" where
  "vouched dir a =
     (case dir a of
        Inl _ \<Rightarrow> None
      | Inr st \<Rightarrow> (if \<not> sd_Authoritative st then None
                  else if sd_Found st \<and> \<not> sd_Suspended st then Some (Some st) else Some None))"

text \<open>The reference: the latest vouched answer about an address, unless it was that the account is not live or was forgotten.\<close>

fun latest_answer :: "string \<Rightarrow> resolver_event \<Rightarrow> lastKnown option \<Rightarrow> lastKnown option" where
  "latest_answer a (Asked dir now email) known =
     (if address email \<noteq> a then known
      else case vouched dir a of
        None \<Rightarrow> known
      | Some None \<Rightarrow> None
      | Some (Some st) \<Rightarrow> Some \<lparr>lk_groups = sd_Groups st, lk_at = now\<rparr>)"
| "latest_answer a (Forgot email) known = (if address email = a then None else known)"

lemma Resolve_seen:
  "map_of (rv_seen (fst (Resolve dir now email r))) a = latest_answer a (Asked dir now email) (map_of (rv_seen r) a)"
  by (auto simp: Resolve_def vouched_def split: sum.splits option.splits)

lemma resolver_run:
  "rv_window (fold resolver_step evs r) = rv_window r
    \<and> map_of (rv_seen (fold resolver_step evs r)) a = fold (latest_answer a) evs (map_of (rv_seen r) a)"
proof (induction evs arbitrary: r)
  case (Cons ev evs)
  have "map_of (rv_seen (resolver_step ev r)) a = latest_answer a ev (map_of (rv_seen r) a)"
    using Resolve_seen by (cases ev) (auto simp: Forget_def simp del: latest_answer.simps(1))
  moreover have "rv_window (resolver_step ev r) = rv_window r"
    by (cases ev) (auto simp: Resolve_def Forget_def split: sum.splits)
  ultimately show ?case using Cons.IH [of "resolver_step ev r"] by simp
qed simp

text \<open>
  The hold window. Whatever a resolver was asked before: an answer the directory vouches for is taken as
  it is, a live account with its groups and names, any other account with a refusal. Otherwise the groups are
  those of the latest vouched answer about that address, within the window after it and without a name, and
  there are none when that answer said the account is not live, or the address was forgotten since.
\<close>
theorem resolver_holds_the_latest_answer:
  "snd (Resolve dir now email (fold resolver_step evs (NewResolver window))) =
     (case vouched dir (address email) of
        Some (Some st) \<Rightarrow> Inr \<lparr>rn_Groups = sd_Groups st, rn_Held = False, rn_GivenName = sd_GivenName st, rn_FamilyName = sd_FamilyName st\<rparr>
      | Some None \<Rightarrow> Inl NotLive
      | None \<Rightarrow>
          (case fold (latest_answer (address email)) evs None of
             Some known \<Rightarrow>
               (if now \<le> lk_at known + window
                then Inr \<lparr>rn_Groups = lk_groups known, rn_Held = True, rn_GivenName = [], rn_FamilyName = []\<rparr>
                else Inl (case dir (address email) of Inl e \<Rightarrow> DirectoryFailed e | Inr _ \<Rightarrow> NoRecentAnswer))
           | None \<Rightarrow> Inl (case dir (address email) of Inl e \<Rightarrow> DirectoryFailed e | Inr _ \<Rightarrow> NoRecentAnswer)))"
proof -
  let ?r = "fold resolver_step evs (NewResolver window)"
  have "rv_window ?r = window" "map_of (rv_seen ?r) (address email) = fold (latest_answer (address email)) evs None"
    using resolver_run [of evs "NewResolver window" "address email"] by (simp_all add: NewResolver_def)
  then show ?thesis by (auto simp: Resolve_def vouched_def split: sum.splits option.splits)
qed

section \<open>The groups of a token\<close>

lemma validated_delimiter:
  assumes "Policy_Validate parse p = None"
  shows "colon \<notin> set (groupsDelimiterFor p a)"
proof -
  have ok: "check_delimiter p d = None \<Longrightarrow> colon \<notin> set d" for d
    using validGroupsDelimiter_nonempty by (auto simp: check_delimiter_def err_simps split: if_splits)
  have "check_delimiter p (c_GroupsDelimiter c) = None" if "map_of (p_Clients p) a = Some c" for c
    using Validate_parts(8) [OF assms that] by (simp add: Client_validate_def err_simps)
  moreover have "check_delimiter p (r_GroupsDelimiter r) = None" if "map_of (p_Resources p) a = Some r" for r
    using Validate_parts(9) [OF assms that] by (simp add: Resource_validate_def err_simps)
  ultimately show ?thesis using ok by (auto simp: groupsDelimiterFor_def split: option.splits)
qed

lemma rewrite_group_idem: "colon \<notin> set d \<Longrightarrow> rewrite_group d (rewrite_group d g) = rewrite_group d g"
proof (cases g)
  case (VStr n)
  assume d: "colon \<notin> set d"
  have "colon \<notin> set s \<Longrightarrow> replace_all colon d s = s" for s by (induction s) auto
  moreover have "colon \<notin> set (replace_all colon d n)" using d by (induction n) auto
  ultimately show ?thesis using VStr by (simp add: RewriteGroupsDelimiter_def)
qed simp_all

lemma map_of_delimiter:
  "map_of (applyGroupsDelimiter p claims a) k =
     (if k = ''groups'' \<and> groupsDelimiterFor p a \<noteq> [] then
        (case map_of claims ''groups'' of
           Some (VList gs) \<Rightarrow> Some (VList (map (rewrite_group (groupsDelimiterFor p a)) gs))
         | other \<Rightarrow> other)
      else map_of claims k)"
  by (auto simp: applyGroupsDelimiter_def Let_def split: option.splits claim.splits list.splits)

lemma map_of_scoped:
  "map_of (scopeClaims parse mode p claims a held) k =
     (if k = ''groups'' \<and> mode = GroupsScopingEnforce \<and> a \<noteq> [] \<and> held \<noteq> [] then
        (if fst (ScopeGroups parse p a held) = [] then None else Some (VList (map VStr (fst (ScopeGroups parse p a held)))))
      else map_of claims k)"
  by (auto simp: scopeClaims_def Let_def)

text \<open>
  Narrowing a token's claims is safe to repeat. Under a policy that passed validation, narrowing the
  claims for an audience a second time, from the same held groups, shows what narrowing them once did: an
  exchanged token is narrowed when it is decided and again when it is written.
\<close>
theorem narrowing_twice_is_narrowing_once:
  assumes "Policy_Validate parse' p = None"
  shows "map_of (shown_claims parse mode p (shown_claims parse mode p claims a held) a held) =
    map_of (shown_claims parse mode p claims a held)"
proof
  fix k
  have idem: "rewrite_group (groupsDelimiterFor p a) (rewrite_group (groupsDelimiterFor p a) g) =
      rewrite_group (groupsDelimiterFor p a) g" for g
    by (rule rewrite_group_idem [OF validated_delimiter [OF assms]])
  show "map_of (shown_claims parse mode p (shown_claims parse mode p claims a held) a held) k =
      map_of (shown_claims parse mode p claims a held) k"
    by (auto simp: shown_claims_def map_of_delimiter map_of_scoped idem split: option.splits claim.splits)
qed

text \<open>
  What an exchanged token shows. With scoping enforced, the groups of a token the exchange grants are
  exactly those of the caller's groups that the audience's scope keeps, spelled with the audience's own
  delimiter; and when the groups the audience requires are grants, one of those it was admitted by is among them.
\<close>
theorem exchanged_token_shows_its_scope:
  assumes "Exchange parse cfg p dir now pf wanted r = (r', Inr grant)" and "cf_GroupsScoping cfg = GroupsScopingEnforce"
    and "map_of (p_Clients p) (eg_Audience grant) = Some client"
    and "\<And>n. n \<in> set (c_Requires client) \<Longrightarrow> SplitGroup n \<noteq> None"
  defines "d \<equiv> groupsDelimiterFor p (eg_Audience grant)"
  shows "map_of (eg_Claims grant) ''groups'' =
      Some (VList (map (\<lambda>n. VStr (RewriteGroupsDelimiter n d)) (fst (ScopeGroups parse p (eg_Audience grant) (res_Groups (eg_Result grant))))))
    \<and> (\<exists>n\<in>set (c_Requires client). n \<in> set (fst (ScopeGroups parse p (eg_Audience grant) (res_Groups (eg_Result grant)))))"
proof -
  let ?a = "eg_Audience grant" and ?held = "res_Groups (eg_Result grant)"
  have g: "?a \<noteq> []" "Client_Admits client (eg_Result grant)"
      "eg_Claims grant = shown_claims parse (cf_GroupsScoping cfg) p (res_Claims (eg_Result grant)) ?a ?held"
    using assms(1,3) by (auto simp: Exchange_def Let_def split: if_splits option.splits prod.splits sum.splits)
  obtain n where n: "n \<in> set (c_Requires client)" "n \<in> set ?held"
    using g(2) by (auto simp: Client_Admits_def Result_Has_def list_ex_iff)
  obtain sc t ro where "SplitGroup n = Some (sc, t, ro)" using assms(4) [OF n(1)] by (cases "SplitGroup n") auto
  then have kept: "n \<in> set (fst (ScopeGroups parse p ?a ?held))" using required_grant_kept [OF assms(3) n(1)] n(2) by blast
  moreover have "?held \<noteq> []" using n(2) by auto
  ultimately show ?thesis
    using n(1) g(1) assms(2) by (auto simp: g(3) shown_claims_def map_of_delimiter map_of_scoped d_def comp_def
        RewriteGroupsDelimiter_def split: if_splits)
qed

text \<open>
  What the grants endpoint lists is what the exchange gives. For a caller with the groups its proof
  evaluates to, a declared audience is listed exactly when an exchange of that proof for it succeeds.
\<close>
theorem listed_exactly_when_exchanged:
  assumes "evaluate_proof p dir now pf r = (r', Inr (result, held))" and "trim_space a = a" and "a \<noteq> []"
  shows "a \<in> on_Audience ` set (opened_by p (res_Groups result))
    \<longleftrightarrow> (\<exists>grant. Exchange parse cfg p dir now pf a r = (r', Inr grant))"
proof -
  have same: "Client_Admits c \<lparr>res_Groups = res_Groups result, res_Held = [], res_Claims = [], res_Lifetime = 0\<rparr> = Client_Admits c result" for c
    by (simp add: Client_Admits_def Result_Has_def list_ex_iff)
  have "a \<in> on_Audience ` set (opened_by p (res_Groups result)) \<longleftrightarrow> (\<exists>c. map_of (p_Clients p) a = Some c \<and> Client_Admits c result)"
    by (force simp: opened_by_def same sorted_entries_def image_iff dom_def)
  moreover have "(\<exists>grant. Exchange parse cfg p dir now pf a r = (r', Inr grant)) \<longleftrightarrow> (\<exists>c. map_of (p_Clients p) a = Some c \<and> Client_Admits c result)"
    using assms by (auto simp: Exchange_def Let_def split: option.splits)
  ultimately show ?thesis by simp
qed

end
