(* ===== verification/Client_Documents.thy ===== *)
theory Client_Documents
  imports Issuer_Decide
begin

text \<open>
  Clients that describe themselves, \<open>src/internal/issuer/clientdoc.go\<close>: a client identified by the address of a
  document, fetched from an origin the policy admits and kept for a while. The fetch itself (HTTP and JSON) is a
  parameter, one answer for each of the two attempts; \<open>url.Parse\<close> is a parameter. A name is cut after a number of
  bytes, as the code does; the bytes of a name are taken as they are.
\<close>

section \<open>Data\<close>

definition documentNameMax :: nat where "documentNameMax = 64"
definition documentCacheFor :: int where "documentCacheFor = 10 * 60 * 1000000000"
definition documentStaleFor :: int where "documentStaleFor = 3600 * 1000000000"

record client_document =
  doc_ClientID :: string
  doc_ClientName :: string
  doc_RedirectURIs :: "string list"

text \<open>What an attempt to fetch a document comes to: it was read, the origin could not be reached, or it refused.\<close>

datatype fetched = Fetched client_document | Transient | Refusing

datatype doc_err =
    NotADocumentClient | NotAURL | NoHost | Credentials | WithFragment | OriginNotAdmitted
  | FetchTransient | FetchRefused | CallsItself string | NoRedirects

record cachedDocument =
  cc_client :: Client
  cc_until :: int

type_synonym doc_cache = "cachedDocument table"

section \<open>Operations\<close>

definition documentURL :: "url_parser \<Rightarrow> string \<Rightarrow> doc_err + url" where
  "documentURL parse clientID =
     (if \<not> has_prefix clientID ''https://'' then Inl NotADocumentClient
      else case parse clientID of
        None \<Rightarrow> Inl NotAURL
      | Some target \<Rightarrow>
          (if u_Host target = [] then Inl NoHost
           else if u_HasUser target then Inl Credentials
           else if u_Fragment target \<noteq> [] then Inl WithFragment
           else Inr target))"

definition documentName :: "string \<Rightarrow> url \<Rightarrow> string" where
  "documentName given target =
     (let name = map (\<lambda>c. if c \<in> {CHR 0x0A, CHR 0x0D, CHR 0x09} then CHR '' '' else c) (trim_space given)
      in if name = [] then u_Host target else take documentNameMax name)"

definition document_client :: "ClientDocuments \<Rightarrow> url \<Rightarrow> client_document \<Rightarrow> Client" where
  "document_client allow target doc =
     \<lparr>c_Kind = KindPublic, c_DisplayName = documentName (doc_ClientName doc) target,
      c_Description = ''Registered by the document it serves at its own address.'', c_Secret = [],
      c_Redirects = doc_RedirectURIs doc, c_SignedOut = [], c_Requires = elems (cd_Requires allow),
      c_TTLCap = cd_TTLCap allow, c_SignInExchange = False, c_BackChannelLogout = [], c_SigningAlg = [],
      c_Groups = no_override, c_GroupsDelimiter = []\<rparr>"

text \<open>The address a document is compared with is the parsed target printed again, which \<open>printed\<close> stands for.\<close>

definition load_document :: "ClientDocuments \<Rightarrow> string \<Rightarrow> url \<Rightarrow> fetched \<Rightarrow> doc_err + Client" where
  "load_document allow printed target answer =
     (case answer of
        Transient \<Rightarrow> Inl FetchTransient
      | Refusing \<Rightarrow> Inl FetchRefused
      | Fetched doc \<Rightarrow>
          (if doc_ClientID doc \<noteq> printed then Inl (CallsItself (doc_ClientID doc))
           else if doc_RedirectURIs doc = [] then Inl NoRedirects
           else Inr (document_client allow target doc)))"

definition loadWithRetry :: "ClientDocuments \<Rightarrow> string \<Rightarrow> url \<Rightarrow> fetched \<Rightarrow> fetched \<Rightarrow> doc_err + Client" where
  "loadWithRetry allow printed target first second =
     (case load_document allow printed target first of
        Inl FetchTransient \<Rightarrow> load_document allow printed target second
      | res \<Rightarrow> res)"

definition fromCache :: "int \<Rightarrow> string \<Rightarrow> doc_cache \<Rightarrow> doc_cache \<times> Client option" where
  "fromCache now clientID cached =
     (case map_of cached clientID of
        None \<Rightarrow> (cached, None)
      | Some entry \<Rightarrow>
          (if now > cc_until entry then
             (if now > cc_until entry + documentStaleFor then tdel clientID cached else cached, None)
           else (cached, Some (cc_client entry))))"

definition fromStale :: "int \<Rightarrow> string \<Rightarrow> doc_cache \<Rightarrow> Client option" where
  "fromStale now clientID cached =
     (case map_of cached clientID of
        None \<Rightarrow> None
      | Some entry \<Rightarrow> (if now > cc_until entry + documentStaleFor then None else Some (cc_client entry)))"

record doc_fetch =
  df_parse :: url_parser
  df_printed :: "url \<Rightarrow> string"
  df_first :: fetched
  df_second :: fetched

definition Documents_Resolve ::
  "ClientDocuments \<Rightarrow> doc_fetch \<Rightarrow> int \<Rightarrow> string \<Rightarrow> doc_cache \<Rightarrow> doc_cache \<times> (doc_err + Client)" where
  "Documents_Resolve allow f now clientID cached =
     (if \<not> ClientDocuments_Enabled allow then (cached, Inl NotADocumentClient)
      else case documentURL (df_parse f) clientID of
        Inl e \<Rightarrow> (cached, Inl e)
      | Inr target \<Rightarrow>
          (if \<not> ClientDocuments_Permits allow target then (cached, Inl OriginNotAdmitted)
           else case fromCache now clientID cached of
             (cached, Some client) \<Rightarrow> (cached, Inr client)
           | (cached, None) \<Rightarrow>
               (case loadWithRetry allow (df_printed f target) target (df_first f) (df_second f) of
                  Inl e \<Rightarrow>
                    (case fromStale now clientID cached of
                       Some stale \<Rightarrow> (if e = FetchTransient then (cached, Inr stale) else (cached, Inl e))
                     | None \<Rightarrow> (cached, Inl e))
                | Inr client \<Rightarrow>
                    (tput clientID \<lparr>cc_client = client, cc_until = now + documentCacheFor\<rparr> cached, Inr client))))"

section \<open>What is answered\<close>

text \<open>A sequence of calls, and the instants at which each client's document was read.\<close>

type_synonym doc_call = "doc_fetch \<times> int \<times> string"

fun documents_run :: "ClientDocuments \<Rightarrow> doc_call list \<Rightarrow> doc_cache" where
  "documents_run allow [] = []"
| "documents_run allow ((f, now, ident) # calls) = fst (Documents_Resolve allow f now ident (documents_run allow calls))"

definition read_at :: "ClientDocuments \<Rightarrow> doc_call \<Rightarrow> string \<Rightarrow> Client \<Rightarrow> int \<Rightarrow> bool" where
  "read_at allow call ident client t =
     (case call of (f, now, asked) \<Rightarrow> asked = ident \<and> t = now \<and>
        (\<exists>target. documentURL (df_parse f) ident = Inr target \<and> ClientDocuments_Permits allow target
           \<and> loadWithRetry allow (df_printed f target) target (df_first f) (df_second f) = Inr client))"

lemma documents_step:
  "map_of (fst (Documents_Resolve allow f now ident cached)) i = Some entry \<Longrightarrow>
     map_of cached i = Some entry \<or> (read_at allow (f, now, ident) i (cc_client entry) now \<and> cc_until entry = now + documentCacheFor)"
  by (auto simp: Documents_Resolve_def read_at_def fromCache_def split: if_splits sum.splits option.splits prod.splits)

lemma documents_kept:
  "map_of (documents_run allow calls) i = Some entry \<Longrightarrow>
     \<exists>call\<in>set calls. \<exists>t. read_at allow call i (cc_client entry) t \<and> cc_until entry = t + documentCacheFor"
proof (induction calls)
  case (Cons call calls)
  obtain f now ident where call: "call = (f, now, ident)" by (cases call)
  have "map_of (fst (Documents_Resolve allow f now ident (documents_run allow calls))) i = Some entry" using Cons.prems call by simp
  from documents_step [OF this] show ?case
  proof
    assume "map_of (documents_run allow calls) i = Some entry"
    then show ?thesis using Cons.IH by auto
  next
    assume "read_at allow (f, now, ident) i (cc_client entry) now \<and> cc_until entry = now + documentCacheFor"
    then show ?thesis using call by auto
  qed
qed simp

lemma document_client_public:
  "loadWithRetry allow printed target a b = Inr client \<Longrightarrow>
     c_Kind client = KindPublic \<and> c_Requires client = elems (cd_Requires allow) \<and> c_TTLCap client = cd_TTLCap allow
     \<and> c_Secret client = [] \<and> \<not> c_SignInExchange client \<and> c_Redirects client \<noteq> []"
  by (auto simp: loadWithRetry_def load_document_def document_client_def split: sum.splits fetched.splits doc_err.splits if_splits)

text \<open>
  What a self-described client is admitted with. Whatever was asked before, a document client that
  resolves was read from its own admitted address: now, or within the ten minutes before, or, when the
  origin cannot be reached now, within an hour and ten minutes before; and it is public, asks exactly the groups
  the policy asks of documents, is capped as the policy caps them and may not exchange sign-ins.
\<close>
theorem document_client_is_recent_and_bounded:
  assumes "snd (Documents_Resolve allow f now ident (documents_run allow calls)) = Inr client"
  shows "(\<exists>call\<in>insert (f, now, ident) (set calls). \<exists>t. read_at allow call ident client t
      \<and> (t = now \<or> now \<le> t + documentCacheFor
         \<or> (now \<le> t + documentCacheFor + documentStaleFor \<and> (df_first f = Transient \<and> df_second f = Transient))))
    \<and> c_Kind client = KindPublic \<and> c_Requires client = elems (cd_Requires allow) \<and> c_TTLCap client = cd_TTLCap allow
    \<and> \<not> c_SignInExchange client"
proof -
  let ?cached = "documents_run allow calls"
  obtain target where target: "documentURL (df_parse f) ident = Inr target" "ClientDocuments_Permits allow target"
    using assms by (auto simp: Documents_Resolve_def split: if_splits sum.splits)
  have trans: "loadWithRetry allow p t a b = Inl FetchTransient \<Longrightarrow> a = Transient \<and> b = Transient" for p t a b
    by (auto simp: loadWithRetry_def load_document_def split: sum.splits fetched.splits doc_err.splits if_splits)
  consider (fresh) "loadWithRetry allow (df_printed f target) target (df_first f) (df_second f) = Inr client"
    | (cache) entry where "map_of ?cached ident = Some entry" "client = cc_client entry" "now \<le> cc_until entry"
    | (stale) entry where "map_of ?cached ident = Some entry" "client = cc_client entry" "now \<le> cc_until entry + documentStaleFor"
        "df_first f = Transient \<and> df_second f = Transient"
    using assms target trans
    by (auto simp: Documents_Resolve_def fromCache_def fromStale_def split: if_splits sum.splits option.splits prod.splits)
  then have at: "\<exists>call\<in>insert (f, now, ident) (set calls). \<exists>t. read_at allow call ident client t
      \<and> (t = now \<or> now \<le> t + documentCacheFor
         \<or> (now \<le> t + documentCacheFor + documentStaleFor \<and> (df_first f = Transient \<and> df_second f = Transient)))"
  proof cases
    case fresh
    then have "read_at allow (f, now, ident) ident client now" using target by (simp add: read_at_def)
    then show ?thesis by blast
  next
    case (cache entry)
    then show ?thesis using documents_kept [OF cache(1)] by fastforce
  next
    case (stale entry)
    then show ?thesis using documents_kept [OF stale(1)] by fastforce
  qed
  then show ?thesis using document_client_public by (fastforce simp: read_at_def)
qed

end
