(* ===== verification/SSO.thy ===== *)
theory SSO
  imports Session_Laws Record_Text
begin

text \<open>
  The browser's sign-ins with the issuer, \<open>src/internal/issuer/sso.go\<close>, over the shared state of \<open>Login_State\<close>: one
  record for a sign-in, and sets of identifiers beside it. The JSON form of a record is a parameter. The cookie
  is left out. What is shown: a sign-in answers for exactly its lifetime, an ended one never again, ending
  everything of an identity leaves it no sign-in, and the clients of a sign-in stay listed when it ends.
\<close>

section \<open>Records of any type\<close>

definition load_json :: "'s LoginState \<Rightarrow> (string \<Rightarrow> 'a option) \<Rightarrow> string \<Rightarrow> ('s, sess_err, 'a option) sop" where
  "load_json L unmarshal key = bnd (st (ls_Get L key)) (\<lambda>raw.
     case raw of
       None \<Rightarrow> ret None
     | Some r \<Rightarrow> (case unmarshal r of None \<Rightarrow> raise (NotReadable key) | Some x \<Rightarrow> ret (Some x)))"

definition save_json :: "'s LoginState \<Rightarrow> ('a \<Rightarrow> string) \<Rightarrow> string \<Rightarrow> 'a \<Rightarrow> int \<Rightarrow> ('s, sess_err, unit) sop" where
  "save_json L marshal key x ttl = st (ls_Set L key (marshal x) ttl)"

definition stored :: "View \<Rightarrow> (string \<Rightarrow> 'a option) \<Rightarrow> string \<Rightarrow> sess_err + 'a option" where
  "stored v unmarshal key =
     (case vw_val v key of
        None \<Rightarrow> Inr None
      | Some (raw, _) \<Rightarrow> (case unmarshal raw of None \<Rightarrow> Inl (NotReadable key) | Some x \<Rightarrow> Inr (Some x)))"

section \<open>Data\<close>

record SSOSession =
  so_ID :: string
  so_Identity :: string
  so_How :: string
  so_AuthTime :: int
  so_ExpiresAt :: int

definition SSO_Live :: "SSOSession \<Rightarrow> int \<Rightarrow> bool" where
  "SSO_Live x now = (now < so_ExpiresAt x)"

definition Fresh :: "SSOSession \<Rightarrow> int \<Rightarrow> int \<Rightarrow> bool" where
  "Fresh x now within = (within \<le> 0 \<or> now - so_AuthTime x \<le> within)"

record 's SSO =
  sso_state :: "'s LoginState"
  sso_lifetime :: int
  sso_marshal :: "SSOSession \<Rightarrow> string"
  sso_unmarshal :: "string \<Rightarrow> SSOSession option"

definition NewSSO :: "'s LoginState \<Rightarrow> (SSOSession \<Rightarrow> string) \<Rightarrow> (string \<Rightarrow> SSOSession option) \<Rightarrow> int \<Rightarrow> 's SSO" where
  "NewSSO state marshal unmarshal lifetime =
     \<lparr>sso_state = state, sso_lifetime = (if lifetime \<le> 0 then 12 * 3600 * 1000000000 else lifetime),
      sso_marshal = marshal, sso_unmarshal = unmarshal\<rparr>"

definition ssoKey :: "string \<Rightarrow> string" where "ssoKey ident = ''issuer:sso:'' @ ident"
definition ssoClientsKey :: "string \<Rightarrow> string" where "ssoClientsKey ident = ''issuer:sso-clients:'' @ ident"
definition ssoOfKey :: "string \<Rightarrow> string" where "ssoOfKey identity = ''issuer:sso-of:'' @ to_lower identity"
definition ssoAllKey :: string where "ssoAllKey = ''issuer:sso''"

section \<open>Operations\<close>

definition SSO_Get :: "'s SSO \<Rightarrow> int \<Rightarrow> string \<Rightarrow> ('s, sess_err, SSOSession option) sop" where
  "SSO_Get S now ident =
     (if ident = [] then ret None
      else bnd (load_json (sso_state S) (sso_unmarshal S) (ssoKey ident)) (\<lambda>found.
        case found of
          None \<Rightarrow> ret None
        | Some x \<Rightarrow> (if \<not> SSO_Live x now then ret None else ret (Some x))))"

definition begun :: "'s SSO \<Rightarrow> int \<Rightarrow> string \<Rightarrow> string \<Rightarrow> string \<Rightarrow> SSOSession" where
  "begun S now ident identity how =
     \<lparr>so_ID = ident, so_Identity = to_lower (trim_space identity), so_How = how, so_AuthTime = now,
      so_ExpiresAt = now + sso_lifetime S\<rparr>"

definition Begin :: "'s SSO \<Rightarrow> int \<Rightarrow> string \<Rightarrow> string \<Rightarrow> string \<Rightarrow> ('s, sess_err, SSOSession) sop" where
  "Begin S now ident identity how =
     (let x = begun S now ident identity how
      in bnd (save_json (sso_state S) (sso_marshal S) (ssoKey ident) x (sso_lifetime S)) (\<lambda>_.
         bnd (each (\<lambda>key. st (ls_Add (sso_state S) key ident (sso_lifetime S))) [ssoAllKey, ssoOfKey (so_Identity x)]) (\<lambda>_.
         ret x)))"

definition Involve :: "'s SSO \<Rightarrow> string \<Rightarrow> string \<Rightarrow> ('s, sess_err, unit) sop" where
  "Involve S ident clientID =
     (if ident = [] \<or> clientID = [] then ret ()
      else st (ls_Add (sso_state S) (ssoClientsKey ident) clientID (sso_lifetime S)))"

definition Involved :: "'s SSO \<Rightarrow> string \<Rightarrow> ('s, sess_err, string list) sop" where
  "Involved S ident = st (ls_Members (sso_state S) (ssoClientsKey ident))"

fun sso_list_each :: "'s SSO \<Rightarrow> int \<Rightarrow> string \<Rightarrow> (SSOSession \<Rightarrow> bool) \<Rightarrow> string list \<Rightarrow> ('s, sess_err, SSOSession list) sop" where
  "sso_list_each S now key keep [] = ret []"
| "sso_list_each S now key keep (ident # ids) = bnd (SSO_Get S now ident) (\<lambda>found.
     case found of
       None \<Rightarrow> bnd (st (ls_Remove (sso_state S) key ident)) (\<lambda>_. sso_list_each S now key keep ids)
     | Some x \<Rightarrow> bnd (sso_list_each S now key keep ids) (\<lambda>out. ret (if keep x then x # out else out)))"

definition sso_list :: "'s SSO \<Rightarrow> int \<Rightarrow> string \<Rightarrow> bool \<Rightarrow> ('s, sess_err, SSOSession list) sop" where
  "sso_list S now asked contains =
     (let identity = to_lower (trim_space asked);
          key = (if identity \<noteq> [] \<and> \<not> contains then ssoOfKey identity else ssoAllKey)
      in bnd (st (ls_Members (sso_state S) key)) (\<lambda>ids.
         bnd (sso_list_each S now key (\<lambda>x. contains \<longrightarrow> contains_str (to_lower (so_Identity x)) identity) ids) (\<lambda>out.
         ret (sort_key (\<lambda>x. - so_AuthTime x) out))))"

definition List_SSO :: "'s SSO \<Rightarrow> int \<Rightarrow> string \<Rightarrow> ('s, sess_err, SSOSession list) sop" where
  "List_SSO S now identity = sso_list S now identity False"

definition Like_SSO :: "'s SSO \<Rightarrow> int \<Rightarrow> string \<Rightarrow> ('s, sess_err, SSOSession list) sop" where
  "Like_SSO S now part = sso_list S now part True"

definition End_SSO :: "'s SSO \<Rightarrow> int \<Rightarrow> string \<Rightarrow> ('s, sess_err, unit) sop" where
  "End_SSO S now ident = bnd (SSO_Get S now ident) (\<lambda>found.
     bnd (case found of
            None \<Rightarrow> ret ()
          | Some x \<Rightarrow> each (\<lambda>key. st (ls_Remove (sso_state S) key ident)) [ssoAllKey, ssoOfKey (so_Identity x)]) (\<lambda>_.
     bnd (st (ls_Delete (sso_state S) (ssoClientsKey ident))) (\<lambda>_.
       st (ls_Delete (sso_state S) (ssoKey ident)))))"

fun end_each :: "'s SSO \<Rightarrow> string \<Rightarrow> string list \<Rightarrow> int \<Rightarrow> 's \<Rightarrow> 's \<times> int \<times> sess_err option" where
  "end_each S key [] ended s = (s, ended, None)"
| "end_each S key (ident # ids) ended s =
     (case bnd (st (ls_Delete (sso_state S) (ssoClientsKey ident))) (\<lambda>_.
           bnd (st (ls_Delete (sso_state S) (ssoKey ident))) (\<lambda>_.
             st (ls_Remove (sso_state S) key ident))) s of
        (s', Inl e) \<Rightarrow> (s', ended, Some e)
      | (s', Inr _) \<Rightarrow> end_each S key ids (ended + 1) s')"

definition EndFor :: "'s SSO \<Rightarrow> string \<Rightarrow> 's \<Rightarrow> 's \<times> int \<times> sess_err option" where
  "EndFor S identity s =
     (case st (ls_Members (sso_state S) (ssoOfKey identity)) s of
        (s', Inl e) \<Rightarrow> (s', 0, Some e)
      | (s', Inr ids) \<Rightarrow> end_each S (ssoOfKey identity) ids 0 s')"

section \<open>What a view answers\<close>

definition read_sso :: "'s SSO \<Rightarrow> View \<Rightarrow> int \<Rightarrow> string \<Rightarrow> sess_err + SSOSession option" where
  "read_sso S v now ident =
     (if ident = [] then Inr None
      else case stored v (sso_unmarshal S) (ssoKey ident) of
        Inl e \<Rightarrow> Inl e
      | Inr None \<Rightarrow> Inr None
      | Inr (Some x) \<Rightarrow> Inr (if SSO_Live x now then Some x else None))"

definition sso_over :: "'s SSO \<Rightarrow> 's LoginState \<Rightarrow> bool" where
  "sso_over S L = (sso_state S = L \<and> 0 < sso_lifetime S \<and> (\<forall>x. sso_unmarshal S (sso_marshal S x) = Some x))"

lemma sso_keys [simp]:
  "ssoKey a = ssoKey b \<longleftrightarrow> a = b" "ssoClientsKey a \<noteq> ssoKey b" "ssoKey b \<noteq> ssoClientsKey a"
  "ssoClientsKey a \<noteq> ssoAllKey" "ssoAllKey \<noteq> ssoClientsKey a" "ssoClientsKey a \<noteq> ssoOfKey b" "ssoOfKey b \<noteq> ssoClientsKey a"
  "ssoAllKey \<noteq> ssoOfKey b" "ssoOfKey b \<noteq> ssoAllKey"
  by (simp_all add: ssoKey_def ssoClientsKey_def ssoAllKey_def ssoOfKey_def)

lemma ssoOfKey_eq: "ssoOfKey a = ssoOfKey b \<longleftrightarrow> to_lower a = to_lower b"
  by (simp add: ssoOfKey_def)

context login_state
begin

lemma load_law:
  assumes "ok s" and "load_json L unmarshal key s = (s', res)"
  shows "ok s' \<and> view s' = view s \<and> res = stored (view s) unmarshal key"
proof (cases "st (ls_Get L key) s")
  case (Pair s1 r)
  note st_get [OF assms(1) this]
  then show ?thesis
    using assms(2) Pair by (auto simp: load_json_def bnd_def stored_def ret_def raise_def split: option.splits)
qed

lemma save_law:
  "ok s \<Longrightarrow> save_json L marshal key x ttl s = (s', Inr u) \<Longrightarrow> 0 < ttl \<Longrightarrow>
    ok s' \<and> view s' = (view s)\<lparr>vw_val := (vw_val (view s))(key \<mapsto> (marshal x, Some (vw_now (view s) + ttl)))\<rparr>"
  using st_set [of s key "marshal x" ttl s' u] by (simp add: save_json_def ending_def)

lemma sso_get_law:
  assumes "ok s" and "sso_state S = L" and "SSO_Get S now ident s = (s', res)"
  shows "ok s' \<and> view s' = view s \<and> res = read_sso S (view s) now ident"
proof (cases "load_json L (sso_unmarshal S) (ssoKey ident) s")
  case (Pair s1 r)
  note load_law [OF assms(1) this]
  then show ?thesis
    using assms Pair by (auto simp: SSO_Get_def bnd_def read_sso_def ret_def split: sum.splits option.splits if_splits)
qed

lemma begin_law:
  assumes "ok s" and "sso_over S L" and "Begin S now ident identity how s = (s', Inr x)"
  shows "ok s' \<and> x = begun S now ident identity how \<and> vw_now (view s') = vw_now (view s)
    \<and> vw_val (view s') = (vw_val (view s))(ssoKey ident \<mapsto> (sso_marshal S x, Some (vw_now (view s) + sso_lifetime S)))
    \<and> added (view s) [ssoAllKey, ssoOfKey (so_Identity x)] ident (vw_now (view s) + sso_lifetime S) (view s')"
proof -
  let ?x = "begun S now ident identity how"
  have S: "sso_state S = L" "0 < sso_lifetime S" using assms(2) by (auto simp: sso_over_def)
  obtain s1 u1 u2 where st: "save_json L (sso_marshal S) (ssoKey ident) ?x (sso_lifetime S) s = (s1, Inr u1)"
      "each (\<lambda>key. st (ls_Add L key ident (sso_lifetime S))) [ssoAllKey, ssoOfKey (so_Identity ?x)] s1 = (s', Inr u2)" "x = ?x"
    using assms(3) S(1) unfolding Begin_def Let_def bnd_Inr ret_Inr by blast
  note p = save_law [OF assms(1) st(1) S(2)]
  note q = each_add_law [OF conjunct1 [OF p] S(2) st(2)]
  show ?thesis using p q st(3) added_cong [of "view s1" "view s"] by simp
qed

lemma end_law:
  assumes "ok s" and "sso_state S = L" and "End_SSO S now ident s = (s', Inr u)"
  shows "ok s' \<and> vw_now (view s') = vw_now (view s)
    \<and> vw_val (view s') = (vw_val (view s))(ssoClientsKey ident := None, ssoKey ident := None)
    \<and> (\<exists>ks. set ks \<subseteq> insert ssoAllKey (range ssoOfKey) \<and> removed (view s) ks ident (view s'))"
proof -
  obtain s1 r where g: "SSO_Get S now ident s = (s1, Inr r)"
    using assms(3) by (auto simp: End_SSO_def bnd_def split: prod.splits sum.splits)
  note get = sso_get_law [OF assms(1,2) g]
  obtain s2 s3 u2 u3 where st: "(case r of None \<Rightarrow> ret () | Some x \<Rightarrow>
        each (\<lambda>key. st (ls_Remove L key ident)) [ssoAllKey, ssoOfKey (so_Identity x)]) s1 = (s2, Inr u2)"
      "st (ls_Delete L (ssoClientsKey ident)) s2 = (s3, Inr u3)" "st (ls_Delete L (ssoKey ident)) s3 = (s', Inr u)"
    using assms(2,3) g unfolding End_SSO_def bnd_Inr by (auto simp: bnd_def split: prod.splits sum.splits)
  have mid: "ok s2 \<and> vw_now (view s2) = vw_now (view s) \<and> vw_val (view s2) = vw_val (view s)
      \<and> (\<exists>ks. set ks \<subseteq> insert ssoAllKey (range ssoOfKey) \<and> removed (view s) ks ident (view s2))"
  proof (cases r)
    case None
    then show ?thesis using st(1) get by (auto simp: op_simps removed_def intro!: exI [of _ "[]"])
  next
    case (Some x)
    have "each (\<lambda>key. st (ls_Remove L key ident)) [ssoAllKey, ssoOfKey (so_Identity x)] s1 = (s2, Inr u2)"
      using st(1) Some by simp
    from each_remove_law [OF conjunct1 [OF get] this]
    show ?thesis using get removed_cong [of "view s1" "view s"]
      by (metis insert_subset list.set(1,2) empty_subsetI insertI1 insertI2 rangeI)
  qed
  note d1 = st_delete [OF conjunct1 [OF mid] st(2)]
  note d2 = st_delete [OF conjunct1 [OF d1] st(3)]
  show ?thesis using mid d1 d2 by (auto simp: removed_def)
qed

end

section \<open>Every sign-in is in its sets\<close>

text \<open>
  The operations that returned no error, time, and whatever else is done to the shared store, as long as it
  leaves the sign-ins and their sets alone.
\<close>

definition apart :: "View \<Rightarrow> View \<Rightarrow> bool" where
  "apart v w = (vw_now w = vw_now v \<and> (\<forall>i. vw_val w (ssoKey i) = vw_val v (ssoKey i))
     \<and> vw_set w ssoAllKey = vw_set v ssoAllKey \<and> (\<forall>i. vw_set w (ssoOfKey i) = vw_set v (ssoOfKey i)))"

inductive sso_step :: "'s SSO \<Rightarrow> ('s \<Rightarrow> bool) \<Rightarrow> ('s \<Rightarrow> View) \<Rightarrow> (int \<Rightarrow> 's \<Rightarrow> 's) \<Rightarrow> 's \<Rightarrow> 's \<Rightarrow> bool"
  for S ok view wait where
  sso_begin: "ident \<noteq> [] \<Longrightarrow> Begin S (vw_now (view s)) ident identity how s = (s', Inr x) \<Longrightarrow> sso_step S ok view wait s s'"
| sso_end: "End_SSO S (vw_now (view s)) ident s = (s', Inr u) \<Longrightarrow> sso_step S ok view wait s s'"
| sso_end_for: "EndFor S identity s = (s', n, None) \<Longrightarrow> sso_step S ok view wait s s'"
| sso_listed: "sso_list S (vw_now (view s)) asked contains s = (s', Inr out) \<Longrightarrow> sso_step S ok view wait s s'"
| sso_involve: "Involve S ident client s = (s', Inr u) \<Longrightarrow> sso_step S ok view wait s s'"
| sso_other: "ok s' \<Longrightarrow> apart (view s) (view s') \<Longrightarrow> sso_step S ok view wait s s'"
| sso_wait: "0 \<le> d \<Longrightarrow> sso_step S ok view wait s (wait d s)"

inductive sso_run :: "'s SSO \<Rightarrow> ('s \<Rightarrow> bool) \<Rightarrow> ('s \<Rightarrow> View) \<Rightarrow> (int \<Rightarrow> 's \<Rightarrow> 's) \<Rightarrow> 's \<Rightarrow> 's \<Rightarrow> bool"
  for S ok view wait s where
  sso_run_start: "sso_run S ok view wait s s"
| sso_run_step: "sso_run S ok view wait s s1 \<Longrightarrow> sso_step S ok view wait s1 s2 \<Longrightarrow> sso_run S ok view wait s s2"

definition in_set :: "View \<Rightarrow> string \<Rightarrow> string \<Rightarrow> int \<Rightarrow> bool" where
  "in_set v k ident t = (ident \<in> fst (vw_set v k) \<and> (case snd (vw_set v k) of None \<Rightarrow> True | Some u \<Rightarrow> t \<le> u))"

definition filed :: "'s SSO \<Rightarrow> View \<Rightarrow> string \<Rightarrow> string \<Rightarrow> int option \<Rightarrow> SSOSession \<Rightarrow> bool" where
  "filed S v i raw e x = (i \<noteq> [] \<and> sso_unmarshal S raw = Some x \<and> so_ID x = i \<and> to_lower (so_Identity x) = so_Identity x
     \<and> e = Some (so_ExpiresAt x) \<and> so_ExpiresAt x \<le> vw_now v + sso_lifetime S
     \<and> in_set v ssoAllKey i (so_ExpiresAt x) \<and> in_set v (ssoOfKey (so_Identity x)) i (so_ExpiresAt x))"

definition sso_inv :: "'s SSO \<Rightarrow> View \<Rightarrow> bool" where
  "sso_inv S v = (\<forall>i raw e. vw_val v (ssoKey i) = Some (raw, e) \<longrightarrow> (\<exists>x. filed S v i raw e x))"

lemma sso_invD: "sso_inv S v \<Longrightarrow> vw_val v (ssoKey i) = Some (raw, e) \<Longrightarrow> \<exists>x. filed S v i raw e x"
  by (simp add: sso_inv_def)

text \<open>The sets may lose the identifiers that have no record any more.\<close>

lemma sso_inv_lose:
  assumes "sso_inv S v" and "vw_now v \<le> vw_now w"
    and "\<And>i. vw_val w (ssoKey i) = vw_val v (ssoKey i) \<or> vw_val w (ssoKey i) = None"
    and "\<And>k i raw t. k = ssoAllKey \<or> k \<in> range ssoOfKey \<Longrightarrow> vw_val w (ssoKey i) = Some (raw, Some t)
      \<Longrightarrow> in_set v k i t \<Longrightarrow> in_set w k i t"
  shows "sso_inv S w"
  unfolding sso_inv_def
proof (intro allI impI)
  fix i raw e assume w: "vw_val w (ssoKey i) = Some (raw, e)"
  then have "vw_val v (ssoKey i) = Some (raw, e)" using assms(3) [of i] by simp
  then obtain x where x: "filed S v i raw e x" using sso_invD [OF assms(1)] by blast
  moreover have "in_set w k i (so_ExpiresAt x)" if "k = ssoAllKey \<or> k \<in> range ssoOfKey" "in_set v k i (so_ExpiresAt x)" for k
    by (rule assms(4) [OF that(1) _ that(2), of raw]) (use w x in \<open>simp add: filed_def\<close>)
  ultimately have "filed S w i raw e x" using assms(2) by (simp add: filed_def)
  then show "\<exists>x. filed S w i raw e x" by blast
qed

lemma in_set_removed: "removed v ks m w \<Longrightarrow> i \<noteq> m \<Longrightarrow> in_set v k i t \<Longrightarrow> in_set w k i t"
  by (auto simp: in_set_def removed_def norm_set_def split: option.splits)

lemma in_set_added: "added v ks m u w \<Longrightarrow> t \<le> u \<Longrightarrow> in_set v k i t \<Longrightarrow> in_set w k i t"
  unfolding added_def in_set_def by (drule spec [of _ k]) (auto split: if_splits)

lemma in_set_new: "added v ks m u w \<Longrightarrow> k \<in> set ks \<Longrightarrow> in_set w k m u"
  unfolding added_def in_set_def by (drule spec [of _ k]) auto

lemma in_set_later: "in_set v k i t \<Longrightarrow> vw_now v + d < t \<Longrightarrow> in_set (view_later d v) k i t"
  by (auto simp: in_set_def view_later_def unexpired_def split: option.splits prod.splits)

lemma sso_inv_apart: "sso_inv S v \<Longrightarrow> apart v w \<Longrightarrow> sso_inv S w"
  by (erule sso_inv_lose) (auto simp: apart_def in_set_def)

context login_state
begin

lemma sso_begin_keeps:
  assumes "sso_over S L" and "ok s" and "sso_inv S (view s)" and "Begin S (vw_now (view s)) ident identity how s = (s', Inr x)"
    and "ident \<noteq> []"
  shows "ok s' \<and> sso_inv S (view s')"
proof -
  let ?n = "vw_now (view s)"
  have b: "ok s'" "vw_now (view s') = ?n"
      "vw_val (view s') = (vw_val (view s))(ssoKey ident \<mapsto> (sso_marshal S x, Some (?n + sso_lifetime S)))"
      "added (view s) [ssoAllKey, ssoOfKey (so_Identity x)] ident (?n + sso_lifetime S) (view s')"
    using begin_law [OF assms(2,1,4)] by blast+
  have x: "so_ID x = ident" "so_ExpiresAt x = ?n + sso_lifetime S" "to_lower (so_Identity x) = so_Identity x"
    using begin_law [OF assms(2,1,4)] by (auto simp: begun_def)
  have "sso_inv S (view s')"
    unfolding sso_inv_def
  proof (intro allI impI)
    fix i raw e assume val: "vw_val (view s') (ssoKey i) = Some (raw, e)"
    show "\<exists>y. filed S (view s') i raw e y"
    proof (cases "i = ident")
      case True
      have "in_set (view s') ssoAllKey ident (so_ExpiresAt x)" "in_set (view s') (ssoOfKey (so_Identity x)) ident (so_ExpiresAt x)"
        unfolding x(2) by (rule in_set_new [OF b(4)], simp)+
      moreover have "raw = sso_marshal S x" "e = Some (so_ExpiresAt x)" using val b x(2) True by auto
      ultimately have "filed S (view s') i raw e x"
        using True x b assms(1,5) by (simp add: filed_def sso_over_def)
      then show ?thesis ..
    next
      case False
      then have "vw_val (view s) (ssoKey i) = Some (raw, e)" using val b by simp
      then obtain y where y: "filed S (view s) i raw e y" using sso_invD [OF assms(3)] by blast
      then have "filed S (view s') i raw e y"
        using b(2) in_set_added [OF b(4)] by (simp add: filed_def)
      then show ?thesis ..
    qed
  qed
  then show ?thesis using b by simp
qed

lemma sso_end_keeps:
  assumes "sso_over S L" and "ok s" and "sso_inv S (view s)" and "End_SSO S now ident s = (s', Inr u)"
  shows "ok s' \<and> sso_inv S (view s')"
proof -
  have S: "sso_state S = L" using assms(1) by (simp add: sso_over_def)
  note e = end_law [OF assms(2) S assms(4)]
  then obtain ks where rm: "removed (view s) ks ident (view s')" by blast
  have "sso_inv S (view s')"
    by (rule sso_inv_lose [OF assms(3)]) (use e rm in \<open>auto intro: in_set_removed split: if_splits\<close>)
  then show ?thesis using e by simp
qed

lemma end_each_law:
  "ok s \<Longrightarrow> sso_over S L \<Longrightarrow> sso_inv S (view s) \<Longrightarrow> end_each S key ids n s = (s', m, None) \<Longrightarrow>
    ok s' \<and> vw_now (view s') = vw_now (view s) \<and> sso_inv S (view s')
    \<and> (\<forall>i. vw_val (view s') (ssoKey i) = (if i \<in> set ids then None else vw_val (view s) (ssoKey i)))"
proof (induction ids arbitrary: s n)
  case (Cons ident ids)
  have S: "sso_state S = L" using Cons.prems(2) by (simp add: sso_over_def)
  obtain s1 s2 s3 u1 u2 u3 where st: "st (ls_Delete L (ssoClientsKey ident)) s = (s1, Inr u1)"
      "st (ls_Delete L (ssoKey ident)) s1 = (s2, Inr u2)" "st (ls_Remove L key ident) s2 = (s3, Inr u3)"
      "end_each S key ids (n + 1) s3 = (s', m, None)"
    using Cons.prems(4) S by (auto simp: bnd_def split: prod.splits sum.splits)
  note d1 = st_delete [OF Cons.prems(1) st(1)]
  note d2 = st_delete [OF conjunct1 [OF d1] st(2)]
  have "each (\<lambda>k. st (ls_Remove L k ident)) [key] s2 = (s3, Inr ())" using st(3) by (simp add: bnd_def ret_def)
  note r = each_remove_law [OF conjunct1 [OF d2] this]
  have rm: "removed (view s) [key] ident (view s3)" using r d1 d2 removed_cong [of "view s2" "view s"] by simp
  have "sso_inv S (view s3)"
    by (rule sso_inv_lose [OF Cons.prems(3)]) (use r d1 d2 rm in \<open>auto intro: in_set_removed split: if_splits\<close>)
  from Cons.IH [OF conjunct1 [OF r] Cons.prems(2) this st(4)] show ?case using r d1 d2 by auto
qed simp

lemma end_for_law:
  assumes "sso_over S L" and "ok s" and "sso_inv S (view s)" and "EndFor S identity s = (s', n, None)"
  shows "ok s' \<and> sso_inv S (view s') \<and> vw_now (view s') = vw_now (view s)
    \<and> (\<forall>i. vw_val (view s') (ssoKey i) =
         (if i \<in> fst (vw_set (view s) (ssoOfKey identity)) then None else vw_val (view s) (ssoKey i)))"
proof -
  have S: "sso_state S = L" using assms(1) by (simp add: sso_over_def)
  obtain s1 ids where m: "ls_Members L (ssoOfKey identity) s = (s1, Inr ids)" "ok s1" "view s1 = view s"
      "set ids = fst (vw_set (view s) (ssoOfKey identity))"
    using members_law [OF assms(2)] by (metis prod.collapse)
  have "end_each S (ssoOfKey identity) ids 0 s1 = (s', n, None)"
    using assms(4) m(1) S by (simp add: EndFor_def map_err_def)
  from end_each_law [OF m(2) assms(1) _ this] show ?thesis using m assms(3) by simp
qed

text \<open>A listing takes only identifiers out of its set whose record is gone.\<close>

lemma stored_live:
  assumes "ok s" and "sso_inv S (view s)" and "read_sso S (view s) (vw_now (view s)) i = Inr None"
  shows "vw_val (view s) (ssoKey i) = None"
proof (rule ccontr)
  assume "vw_val (view s) (ssoKey i) \<noteq> None"
  then obtain raw e where i: "vw_val (view s) (ssoKey i) = Some (raw, e)" by auto
  then obtain x where x: "filed S (view s) i raw e x" using sso_invD [OF assms(2)] by blast
  moreover have "vw_now (view s) < so_ExpiresAt x" using live_val [OF assms(1) i] x by (simp add: unexpired_def filed_def)
  ultimately show False using assms(3) i by (simp add: read_sso_def stored_def SSO_Live_def filed_def)
qed

lemma list_each_law:
  "ok s \<Longrightarrow> sso_over S L \<Longrightarrow> sso_inv S (view s) \<Longrightarrow>
    sso_list_each S (vw_now (view s)) key keep ids s = (s', Inr out) \<Longrightarrow>
    ok s' \<and> sso_inv S (view s') \<and> vw_now (view s') = vw_now (view s) \<and> vw_val (view s') = vw_val (view s)
    \<and> set out = {x. \<exists>i\<in>set ids. read_sso S (view s) (vw_now (view s)) i = Inr (Some x) \<and> keep x}"
proof (induction ids arbitrary: s out)
  case (Cons i ids)
  let ?n = "vw_now (view s)"
  have S: "sso_state S = L" using Cons.prems(2) by (simp add: sso_over_def)
  obtain s1 r where g: "SSO_Get S ?n i s = (s1, Inr r)"
    using Cons.prems(4) by (auto simp: bnd_def split: prod.splits sum.splits)
  note get = sso_get_law [OF Cons.prems(1) S g]
  show ?case
  proof (cases r)
    case None
    obtain s2 u2 where rm: "st (ls_Remove L key i) s1 = (s2, Inr u2)" "sso_list_each S ?n key keep ids s2 = (s', Inr out)"
      using Cons.prems(4) g None S by (auto simp: bnd_def split: prod.splits sum.splits)
    have "each (\<lambda>k. st (ls_Remove L k i)) [key] s1 = (s2, Inr ())" using rm(1) by (simp add: bnd_def ret_def)
    note law = each_remove_law [OF conjunct1 [OF get] this]
    have gone: "vw_val (view s) (ssoKey i) = None"
      by (rule stored_live [OF Cons.prems(1,3)]) (use get None in simp)
    have inv2: "sso_inv S (view s2)"
      by (rule sso_inv_lose [OF Cons.prems(3)])
        (use law get gone in \<open>auto intro: in_set_removed [of "view s" "[key]" i] simp: removed_def\<close>)
    have same: "read_sso S (view s2) ?n j = read_sso S (view s) ?n j" for j
      using law get by (simp add: read_sso_def stored_def)
    have "ok s' \<and> sso_inv S (view s') \<and> vw_now (view s') = vw_now (view s2) \<and> vw_val (view s') = vw_val (view s2)
        \<and> set out = {x. \<exists>j\<in>set ids. read_sso S (view s2) (vw_now (view s2)) j = Inr (Some x) \<and> keep x}"
      by (rule Cons.IH) (use law get inv2 Cons.prems(2) rm(2) in simp_all)
    then show ?thesis using law get None same by auto
  next
    case (Some x)
    obtain out' where o: "sso_list_each S ?n key keep ids s1 = (s', Inr out')" "out = (if keep x then x # out' else out')"
      using Cons.prems(4) g Some by (auto simp: bnd_def ret_def split: prod.splits sum.splits)
    have "ok s' \<and> sso_inv S (view s') \<and> vw_now (view s') = vw_now (view s1) \<and> vw_val (view s') = vw_val (view s1)
        \<and> set out' = {x. \<exists>j\<in>set ids. read_sso S (view s1) (vw_now (view s1)) j = Inr (Some x) \<and> keep x}"
      by (rule Cons.IH) (use get Cons.prems(2,3) o(1) in simp_all)
    then show ?thesis using get Some o(2) by auto
  qed
qed (auto simp: op_simps)

lemma sso_list_law:
  assumes "sso_over S L" and "ok s" and "sso_inv S (view s)" and "sso_list S (vw_now (view s)) asked contains s = (s', Inr out)"
  defines "identity \<equiv> to_lower (trim_space asked)"
  defines "key \<equiv> (if identity \<noteq> [] \<and> \<not> contains then ssoOfKey identity else ssoAllKey)"
  shows "ok s' \<and> sso_inv S (view s') \<and> vw_now (view s') = vw_now (view s) \<and> vw_val (view s') = vw_val (view s)
    \<and> sorted_wrt (\<lambda>x y. so_AuthTime y \<le> so_AuthTime x) out
    \<and> set out = {x. \<exists>i\<in>fst (vw_set (view s) key). read_sso S (view s) (vw_now (view s)) i = Inr (Some x)
         \<and> (contains \<longrightarrow> contains_str (to_lower (so_Identity x)) identity)}"
proof -
  have S: "sso_state S = L" using assms(1) by (simp add: sso_over_def)
  obtain s1 ids where m: "ls_Members L key s = (s1, Inr ids)" "ok s1" "view s1 = view s" "set ids = fst (vw_set (view s) key)"
    using members_law [OF assms(2)] by (metis prod.collapse)
  obtain out' where o: "sso_list_each S (vw_now (view s)) key (\<lambda>x. contains \<longrightarrow> contains_str (to_lower (so_Identity x)) identity) ids s1 = (s', Inr out')"
      "out = sort_key (\<lambda>x. - so_AuthTime x) out'"
    using assms(4) m(1) S unfolding sso_list_def Let_def identity_def key_def
    by (auto simp: bnd_def ret_def map_err_def split: prod.splits sum.splits)
  have "sorted_wrt (\<lambda>x y. so_AuthTime y \<le> so_AuthTime x) out"
    using sorted_sort_key [of "\<lambda>x. - so_AuthTime x" out'] unfolding o(2) sorted_wrt_map by simp
  moreover have "ok s' \<and> sso_inv S (view s') \<and> vw_now (view s') = vw_now (view s1) \<and> vw_val (view s') = vw_val (view s1)
      \<and> set out' = {x. \<exists>i\<in>set ids. read_sso S (view s1) (vw_now (view s1)) i = Inr (Some x)
         \<and> (contains \<longrightarrow> contains_str (to_lower (so_Identity x)) identity)}"
    by (rule list_each_law) (use m assms(1,3) o(1) in simp_all)
  ultimately show ?thesis using m o(2) by simp
qed

lemma involve_apart:
  assumes "sso_over S L" and "ok s" and "Involve S ident client s = (s', Inr u)"
  shows "ok s' \<and> apart (view s) (view s')"
proof (cases "ident = [] \<or> client = []")
  case True
  then have "s' = s" using assms(3) by (auto simp: Involve_def ret_def)
  then show ?thesis using assms(2) by (simp add: apart_def)
next
  case False
  have "st (ls_Add L (ssoClientsKey ident) client (sso_lifetime S)) s = (s', Inr u)" "0 < sso_lifetime S"
    using assms(1,3) False by (auto simp: Involve_def sso_over_def)
  from st_add [OF assms(2) this(2,1)] show ?thesis by (auto simp: apart_def added_def)
qed

lemma sso_step_keeps:
  assumes "sso_over S L" and "sso_step S ok view wait s s'" and "ok s" and "sso_inv S (view s)"
  shows "ok s' \<and> sso_inv S (view s')"
  using assms(2)
proof cases
  case (sso_begin ident identity how x)
  then show ?thesis using sso_begin_keeps [OF assms(1,3,4)] by blast
next
  case (sso_end ident u)
  then show ?thesis using sso_end_keeps [OF assms(1,3,4)] by blast
next
  case (sso_end_for identity n)
  then show ?thesis using end_for_law [OF assms(1,3,4)] by blast
next
  case (sso_listed asked contains out)
  then show ?thesis using sso_list_law [OF assms(1,3,4)] by blast
next
  case (sso_involve ident client u)
  then show ?thesis using involve_apart [OF assms(1,3)] sso_inv_apart [OF assms(4)] by blast
next
  case sso_other
  then show ?thesis using sso_inv_apart [OF assms(4)] by blast
next
  case (sso_wait d)
  have v: "ok s'" "view s' = view_later d (view s)" using sso_wait wait_law [OF assms(3), of d] by simp_all
  have "sso_inv S (view_later d (view s))"
    by (rule sso_inv_lose [OF assms(4)])
      (use sso_wait(2) in \<open>auto simp: view_later_def unexpired_def in_set_def split: option.splits if_splits prod.splits\<close>)
  then show ?thesis using v by simp
qed

lemma sso_run_keeps:
  assumes "sso_over S L" and "sso_run S ok view wait s s'" and "ok s" and "sso_inv S (view s)"
  shows "ok s' \<and> sso_inv S (view s')"
  using assms(2-4) by (induction rule: sso_run.induct) (use sso_step_keeps [OF assms(1)] in blast)+

lemma filed_identity:
  assumes "sso_inv S v" and "read_sso S v now i = Inr (Some x)"
  shows "so_ID x = i \<and> to_lower (so_Identity x) = so_Identity x \<and> i \<in> fst (vw_set v ssoAllKey)
    \<and> i \<in> fst (vw_set v (ssoOfKey (so_Identity x)))"
proof -
  obtain raw e where raw: "vw_val v (ssoKey i) = Some (raw, e)" "sso_unmarshal S raw = Some x"
    using assms(2) by (auto simp: read_sso_def stored_def split: if_splits option.splits sum.splits prod.splits)
  obtain y where "filed S v i raw e y" using sso_invD [OF assms(1) raw(1)] by blast
  then show ?thesis using raw(2) by (auto simp: filed_def in_set_def)
qed

end

section \<open>On the shared store\<close>

abbreviation store_good :: "Store \<Rightarrow> bool" where
  "store_good s \<equiv> store_ok s \<and> sets_ok s"

abbreviation sso_reaches :: "Store SSO \<Rightarrow> Store \<Rightarrow> Store \<Rightarrow> bool" where
  "sso_reaches S \<equiv> sso_run S store_good store_view Store_Advance"

lemma sso_start: "store_good (Store_New t)" "sso_inv S (store_view (Store_New t))"
  using store_ok_New [of t] by (simp_all add: sets_ok_def sso_inv_def store_view_def liveEntry_def Store_New_def)

lemma sso_reached:
  assumes "sso_over S port_state" and "sso_reaches S (Store_New t) s"
  shows "store_good s" "sso_inv S (store_view s)"
  using ps.sso_run_keeps [OF assms sso_start] by simp_all

lemma sso_get_port: "sso_over S port_state \<Longrightarrow> store_good s \<Longrightarrow> snd (SSO_Get S now i s) = read_sso S (store_view s) now i"
  using ps.sso_get_law [of s S now i] by (metis prod.collapse sso_over_def)

lemma port_now: "vw_now (store_view s) = st_now s"
  by (simp add: store_view_def)

text \<open>
  C0. A sign-in lives exactly its lifetime. What \<open>Begin\<close> recorded answers with the same sign-in until its lifetime
  has passed and not at all from then on.
\<close>

theorem sign_in_lives_its_lifetime:
  assumes "sso_over S port_state" and "store_good s" and "ident \<noteq> []" and "0 \<le> d"
    and "Begin S (st_now s) ident identity how s = (s', Inr x)"
  shows "snd (SSO_Get S (st_now s + d) ident (Store_Advance d s')) = Inr (if d < sso_lifetime S then Some x else None)"
proof -
  have b: "store_good s'" "vw_now (store_view s') = st_now s"
      "vw_val (store_view s') (ssoKey ident) = Some (sso_marshal S x, Some (st_now s + sso_lifetime S))"
      "so_ExpiresAt x = st_now s + sso_lifetime S"
    using ps.begin_law [OF assms(2,1,5)] by (auto simp: port_now begun_def)
  note w = ps.wait_law [OF b(1) assms(4)]
  have "read_sso S (store_view (Store_Advance d s')) (st_now s + d) ident = Inr (if d < sso_lifetime S then Some x else None)"
    using w b(2-4) assms(1,3)
    by (auto simp: read_sso_def stored_def view_later_def unexpired_def SSO_Live_def sso_over_def)
  then show ?thesis using sso_get_port [OF assms(1)] w by simp
qed

text \<open>
  C0. An ended sign-in is gone, and only it. After \<open>End\<close> returned without an error, the sign-in it named answers
  nothing at any later time, and every other sign-in answers what it did before.
\<close>

theorem ended_sign_in_is_gone:
  assumes "sso_over S port_state" and "store_good s" and "End_SSO S now ident s = (s', Inr u)" and "0 \<le> d"
  shows "snd (SSO_Get S later ident (Store_Advance d s')) = Inr None
    \<and> (i \<noteq> ident \<longrightarrow> snd (SSO_Get S later i s') = snd (SSO_Get S later i s))"
proof -
  have S: "sso_state S = port_state" using assms(1) by (simp add: sso_over_def)
  have e: "store_good s'" "vw_val (store_view s') = (vw_val (store_view s))(ssoClientsKey ident := None, ssoKey ident := None)"
    using ps.end_law [OF assms(2) S assms(3)] by simp_all
  note w = ps.wait_law [OF e(1) assms(4)]
  have "read_sso S (store_view (Store_Advance d s')) later ident = Inr None"
    using w e(2) by (simp add: read_sso_def stored_def view_later_def)
  moreover have "i \<noteq> ident \<Longrightarrow> read_sso S (store_view s') later i = read_sso S (store_view s) later i"
    using e(2) by (simp add: read_sso_def stored_def)
  ultimately show ?thesis using sso_get_port [OF assms(1)] w e(1) assms(2) by simp
qed

text \<open>
  C0. Ending everything of an identity is complete. Whatever was done to the store before, after \<open>EndFor\<close>
  returned without an error no sign-in of that identity answers.
\<close>

theorem sign_out_everywhere_is_complete:
  assumes "sso_over S port_state" and "sso_reaches S (Store_New t) s" and "EndFor S identity s = (s', n, None)"
    and "snd (SSO_Get S now i s') = Inr (Some x)"
  shows "so_Identity x \<noteq> to_lower identity"
proof
  assume who: "so_Identity x = to_lower identity"
  note r = sso_reached [OF assms(1,2)]
  note e = ps.end_for_law [OF assms(1) r assms(3)]
  have x: "read_sso S (store_view s') now i = Inr (Some x)" using sso_get_port [OF assms(1)] e assms(4) by simp
  have gone: "vw_val (store_view s') (ssoKey i) =
      (if i \<in> fst (vw_set (store_view s) (ssoOfKey identity)) then None else vw_val (store_view s) (ssoKey i))" using e by blast
  have here: "vw_val (store_view s') (ssoKey i) \<noteq> None" using x by (auto simp: read_sso_def stored_def split: if_splits option.splits)
  then have "read_sso S (store_view s) now i = Inr (Some x)" using x gone by (simp add: read_sso_def stored_def split: if_splits)
  from ps.filed_identity [OF r(2) this] have "i \<in> fst (vw_set (store_view s) (ssoOfKey identity))"
    using who by (simp add: ssoOfKey_def)
  then show False using gone here by simp
qed

text \<open>
  A listing of sign-ins misses nobody. Whatever was done to the store before, everything listed for an
  identity is a live sign-in, every live sign-in of that identity is listed, and the newest come first.
\<close>
theorem sign_in_listing_misses_nobody:
  assumes "sso_over S port_state" and "sso_reaches S (Store_New t) s" and "to_lower (trim_space identity) \<noteq> []"
    and "List_SSO S (st_now s) identity s = (s', Inr out)"
  shows "sorted_wrt (\<lambda>x y. so_AuthTime y \<le> so_AuthTime x) out
    \<and> (\<forall>x. x \<in> set out \<longrightarrow> snd (SSO_Get S (st_now s) (so_ID x) s) = Inr (Some x))
    \<and> (\<forall>i x. snd (SSO_Get S (st_now s) i s) = Inr (Some x) \<and> so_Identity x = to_lower (trim_space identity) \<longrightarrow> x \<in> set out)"
proof -
  let ?key = "ssoOfKey (to_lower (trim_space identity))"
  note r = sso_reached [OF assms(1,2)]
  have "sso_list S (vw_now (store_view s)) identity False s = (s', Inr out)" using assms(4) by (simp add: List_SSO_def port_now)
  from ps.sso_list_law [OF assms(1) r this]
  have out: "sorted_wrt (\<lambda>x y. so_AuthTime y \<le> so_AuthTime x) out"
      "set out = {x. \<exists>i\<in>fst (vw_set (store_view s) ?key). read_sso S (store_view s) (st_now s) i = Inr (Some x)}"
    using assms(3) by (simp_all add: port_now)
  have get: "snd (SSO_Get S (st_now s) i s) = read_sso S (store_view s) (st_now s) i" for i
    by (rule sso_get_port [OF assms(1) r(1)])
  show ?thesis
    unfolding get
  proof (intro conjI allI impI)
    show "sorted_wrt (\<lambda>x y. so_AuthTime y \<le> so_AuthTime x) out" by (rule out(1))
    show "read_sso S (store_view s) (st_now s) (so_ID x) = Inr (Some x)" if "x \<in> set out" for x
      using that ps.filed_identity [OF r(2)] unfolding out(2) by auto
    show "x \<in> set out" if "read_sso S (store_view s) (st_now s) i = Inr (Some x) \<and> so_Identity x = to_lower (trim_space identity)" for i x
      using that ps.filed_identity [OF r(2), of "st_now s" i x] unfolding out(2) by auto
  qed
qed

text \<open>
  C0. The clients of a sign-in outlive it. \<open>End\<close> deletes the clients a sign-in was used at as if they were a
  record; they are a set, so they are listed after the sign-in ended exactly as they were before.
\<close>

theorem clients_outlive_their_sign_in:
  assumes "sso_over S port_state" and "store_good s" and "End_SSO S now ident s = (s', Inr u)"
    and "Involved S ident s = (s1, Inr before)" and "Involved S ident s' = (s2, Inr after)"
  shows "set after = set before"
proof -
  have S: "sso_state S = port_state" using assms(1) by (simp add: sso_over_def)
  obtain ks where e: "store_good s'" "set ks \<subseteq> insert ssoAllKey (range ssoOfKey)" "removed (store_view s) ks ident (store_view s')"
    using ps.end_law [OF assms(2) S assms(3)] by blast
  have "ssoClientsKey ident \<notin> set ks" using e(2) by auto
  then have same: "vw_set (store_view s') (ssoClientsKey ident) = vw_set (store_view s) (ssoClientsKey ident)"
    using e(3) by (simp add: removed_def)
  have "ls_Members port_state (ssoClientsKey ident) s = (s1, Inr before)" "ls_Members port_state (ssoClientsKey ident) s' = (s2, Inr after)"
    using assms(4,5) S by (simp_all add: Involved_def op_simps)
  then show ?thesis using ps.members_law [OF assms(2)] ps.members_law [OF e(1)] same by fastforce
qed

section \<open>Runs\<close>

definition sso_text :: "SSOSession \<Rightarrow> string" where
  "sso_text x = dotted [so_ID x, so_Identity x, so_How x, int_text (so_AuthTime x), int_text (so_ExpiresAt x)]"

definition text_sso :: "string \<Rightarrow> SSOSession option" where
  "text_sso s =
     (case undotted s of
        Some [i, who, how, n, t] \<Rightarrow>
          (case (text_int n, text_int t) of
             (Some at, Some ends) \<Rightarrow> Some \<lparr>so_ID = i, so_Identity = who, so_How = how, so_AuthTime = at, so_ExpiresAt = ends\<rparr>
           | _ \<Rightarrow> None)
      | _ \<Rightarrow> None)"

lemma sso_text_read: "text_sso (sso_text x) = Some x"
  unfolding text_sso_def sso_text_def undotted_dotted by (simp add: int_text_read)

text \<open>Ada signs in for an hour, at the console; later she signs out.\<close>

definition w_sso :: "Store SSO" where
  "w_sso = NewSSO port_state sso_text text_sso 3600"

definition w_begun :: SSOSession where
  "w_begun = begun w_sso 0 ''b1'' '' Ada@x.io'' ''google''"

definition w_in :: Store where
  "w_in = fst (Begin w_sso 0 ''b1'' '' Ada@x.io'' ''google'' (Store_New 0))"

definition w_used :: Store where
  "w_used = fst (Involve w_sso ''b1'' ''console'' w_in)"

lemma w_sso_over: "sso_over w_sso port_state"
  by (simp add: sso_over_def w_sso_def NewSSO_def sso_text_read)

lemma w_begin: "Begin w_sso (st_now (Store_New 0)) ''b1'' '' Ada@x.io'' ''google'' (Store_New 0) = (w_in, Inr w_begun)"
  by code_simp

lemma w_involve: "Involve w_sso ''b1'' ''console'' w_in = (w_used, Inr ())"
  by code_simp

lemma w_reached: "sso_reaches w_sso (Store_New 0) w_used"
proof (rule sso_run_step [OF sso_run_step [OF sso_run_start]])
  show "sso_step w_sso store_good store_view Store_Advance (Store_New 0) w_in"
    by (rule sso_begin [where view = store_view and x = w_begun, OF _ w_begin [folded port_now]]) simp
  show "sso_step w_sso store_good store_view Store_Advance w_in w_used" by (rule sso_involve [OF w_involve])
qed

theorem sign_in_lives_witness:
  "snd (SSO_Get w_sso 3599 ''b1'' (Store_Advance 3599 w_in)) = Inr (Some w_begun)
   \<and> snd (SSO_Get w_sso 3600 ''b1'' (Store_Advance 3600 w_in)) = Inr None"
proof -
  have "st_now (Store_New 0) = 0" "sso_lifetime w_sso = 3600" by code_simp+
  then show ?thesis
    using sign_in_lives_its_lifetime [OF w_sso_over sso_start(1) _ _ w_begin, of 3599]
      sign_in_lives_its_lifetime [OF w_sso_over sso_start(1) _ _ w_begin, of 3600] by simp
qed

lemma w_end: "End_SSO w_sso 100 ''b1'' w_used = (fst (End_SSO w_sso 100 ''b1'' w_used), Inr ())"
  by code_simp

theorem ended_sign_in_witness:
  "snd (SSO_Get w_sso 100 ''b1'' (Store_Advance 0 (fst (End_SSO w_sso 100 ''b1'' w_used)))) = Inr None"
  using ended_sign_in_is_gone [OF w_sso_over sso_reached(1) [OF w_sso_over w_reached] w_end, of 0 100] by simp

lemma w_end_for: "EndFor w_sso ''ADA@x.io'' w_used = (fst (EndFor w_sso ''ADA@x.io'' w_used), 1, None)"
  by code_simp

theorem sign_out_everywhere_witness:
  "snd (SSO_Get w_sso 100 ''b1'' (fst (EndFor w_sso ''ADA@x.io'' w_used))) \<noteq> Inr (Some w_begun)"
proof
  assume "snd (SSO_Get w_sso 100 ''b1'' (fst (EndFor w_sso ''ADA@x.io'' w_used))) = Inr (Some w_begun)"
  from sign_out_everywhere_is_complete [OF w_sso_over w_reached w_end_for this]
  show False by code_simp
qed

lemma w_list: "List_SSO w_sso (st_now w_used) ''Ada@x.io'' w_used = (fst (List_SSO w_sso (st_now w_used) ''Ada@x.io'' w_used), Inr [w_begun])"
  by code_simp

theorem sign_in_listing_witness:
  "snd (SSO_Get w_sso (st_now w_used) (so_ID w_begun) w_used) = Inr (Some w_begun)"
  using sign_in_listing_misses_nobody [OF w_sso_over w_reached _ w_list] by (simp add: trim_space_def is_space_def)

theorem clients_outlive_witness:
  "set (projr (snd (Involved w_sso ''b1'' (fst (End_SSO w_sso 100 ''b1'' w_used))))) = {''console''}"
proof -
  have "Involved w_sso ''b1'' w_used = (fst (Involved w_sso ''b1'' w_used), Inr [''console''])"
    "Involved w_sso ''b1'' (fst (End_SSO w_sso 100 ''b1'' w_used)) =
      (fst (Involved w_sso ''b1'' (fst (End_SSO w_sso 100 ''b1'' w_used))), Inr [''console''])" by code_simp+
  from clients_outlive_their_sign_in [OF w_sso_over sso_reached(1) [OF w_sso_over w_reached] w_end this]
  show ?thesis by code_simp
qed

end
