(* ===== verification/Issuer_Storage.thy ===== *)
theory Issuer_Storage
  imports Client_Documents SSO
begin

text \<open>
  The storage behind the issuer's OpenID protocol, \<open>src/internal/issuer/storage.go\<close>: authorization requests and
  codes, access tokens, refreshes, revocation, userinfo and token exchange, over the sessions, the sign-ins,
  the key rings and the decisions of the issuer. The protocol itself is a third-party library that calls these
  operations; what it hands over is the datatype \<open>TokenRequest\<close>. One call is given the instant it runs at, the
  directory's answers, the fetches of client documents and the identifiers it draws; JSON forms are
  parameters. The audit records that matter to a decision are kept in the state; metrics and logs are left out.
\<close>

section \<open>Data\<close>

record AccessToken =
  tk_ID :: string
  tk_Subject :: string
  tk_ClientID :: string
  tk_Audience :: "string list"
  tk_Scopes :: "string list"
  tk_Claims :: fragment
  tk_Expires :: int
  tk_GivenName :: string
  tk_FamilyName :: string
  tk_Session :: string

text \<open>A login in progress; the library's own part of it is the fields from the client to the maximal age.\<close>

record authRequest =
  ar_ID :: string
  ar_ClientID :: string
  ar_Scopes :: "string list"
  ar_RedirectURI :: string
  ar_State :: string
  ar_Prompt :: "string list"
  ar_MaxAge :: "int option"
  ar_Subject :: string
  ar_AuthTime :: "int option"
  ar_IsDone :: bool
  ar_How :: string
  ar_Resource :: string
  ar_SSO :: string
  ar_Session :: string

record exchangeRequest =
  xr_Subject :: string
  xr_Audience :: "string list"
  xr_ClientID :: string
  xr_Scopes :: "string list"
  xr_AuthTime :: "int option"
  xr_Grant :: "ExchangeGrant option"

datatype TokenRequest =
    CodeRequest authRequest
  | RefreshRequest Session "string list option"
  | ExchangeRequest exchangeRequest

definition ACRDirectory :: string where "ACRDirectory = ''urn:truvity:access-roster:acr:directory''"
definition ACRRecovery :: string where "ACRRecovery = ''urn:truvity:access-roster:acr:recovery''"
definition RecoveryHow :: string where "RecoveryHow = ''recovery''"

definition acrFor :: "string \<Rightarrow> string" where
  "acrFor how = (if how = RecoveryHow then ACRRecovery else ACRDirectory)"

definition amrFor :: "string \<Rightarrow> string list" where
  "amrFor how = (if how = RecoveryHow then [''swk''] else [])"

text \<open>The methods of proof a token names: of a code's request those presented, of a refresh always a password.\<close>

definition GetAMR :: "TokenRequest \<Rightarrow> string list" where
  "GetAMR rq = (case rq of CodeRequest a \<Rightarrow> amrFor (ar_How a) | RefreshRequest _ _ \<Rightarrow> [''pwd''] | ExchangeRequest _ \<Rightarrow> [])"

definition authRequestTTL :: int where "authRequestTTL = 30 * 60 * 1000000000"
definition authCodeTTL :: int where "authCodeTTL = 5 * 60 * 1000000000"

definition requestKey :: "string \<Rightarrow> string" where "requestKey ident = ''issuer:request:'' @ ident"
definition codeKey :: "string \<Rightarrow> string" where "codeKey code = ''issuer:code:'' @ code"
definition codeSessionKey :: "string \<Rightarrow> string" where "codeSessionKey rq = ''issuer:code-session:'' @ rq"
definition tokenKey :: "string \<Rightarrow> string" where "tokenKey ident = ''issuer:token:'' @ ident"

section \<open>What a request asks\<close>

definition GetSubject :: "TokenRequest \<Rightarrow> string" where
  "GetSubject rq = (case rq of CodeRequest a \<Rightarrow> ar_Subject a | RefreshRequest x _ \<Rightarrow> ses_Identity x | ExchangeRequest e \<Rightarrow> xr_Subject e)"

definition clientOf :: "TokenRequest \<Rightarrow> string" where
  "clientOf rq = (case rq of CodeRequest a \<Rightarrow> ar_ClientID a | RefreshRequest x _ \<Rightarrow> ses_ClientID x | ExchangeRequest e \<Rightarrow> xr_ClientID e)"

definition own_audience :: "string \<Rightarrow> string \<Rightarrow> string list" where
  "own_audience resource client = (if resource \<noteq> [] then [resource] else [client])"

definition GetAudience :: "TokenRequest \<Rightarrow> string list" where
  "GetAudience rq =
     (case rq of
        CodeRequest a \<Rightarrow> own_audience (ar_Resource a) (ar_ClientID a)
      | RefreshRequest x _ \<Rightarrow> own_audience (ses_Resource x) (ses_ClientID x)
      | ExchangeRequest e \<Rightarrow> xr_Audience e)"

definition GetScopes :: "TokenRequest \<Rightarrow> string list" where
  "GetScopes rq =
     (case rq of
        CodeRequest a \<Rightarrow> ar_Scopes a
      | RefreshRequest x narrowed \<Rightarrow> (case narrowed of Some scopes \<Rightarrow> scopes | None \<Rightarrow> ses_Scopes x)
      | ExchangeRequest e \<Rightarrow> xr_Scopes e)"

definition authTimeOf :: "TokenRequest \<Rightarrow> int option" where
  "authTimeOf rq =
     (case rq of
        CodeRequest a \<Rightarrow> ar_AuthTime a
      | RefreshRequest x _ \<Rightarrow> (case ses_AuthTime x of Some t \<Rightarrow> Some t | None \<Rightarrow> Some (ses_IssuedAt x))
      | ExchangeRequest e \<Rightarrow> xr_AuthTime e)"

definition ssoOf :: "TokenRequest \<Rightarrow> string" where
  "ssoOf rq = (case rq of CodeRequest a \<Rightarrow> ar_SSO a | RefreshRequest x _ \<Rightarrow> ses_SSO x | ExchangeRequest _ \<Rightarrow> [])"

definition resourceOf :: "TokenRequest \<Rightarrow> string" where
  "resourceOf rq = (case rq of CodeRequest a \<Rightarrow> ar_Resource a | RefreshRequest x _ \<Rightarrow> ses_Resource x | ExchangeRequest _ \<Rightarrow> [])"

definition sessionOf :: "TokenRequest \<Rightarrow> string" where
  "sessionOf rq = (case rq of CodeRequest a \<Rightarrow> ar_Session a | RefreshRequest x _ \<Rightarrow> ses_ID x | ExchangeRequest _ \<Rightarrow> [])"

definition accessAudienceOf :: "TokenRequest \<Rightarrow> string" where
  "accessAudienceOf rq = (case GetAudience rq of [] \<Rightarrow> [] | a # _ \<Rightarrow> a)"

section \<open>The storage and its state\<close>

datatype audit_event =
    SignInRecorded bool string string bool
  | RefreshRefused string string

record 's Storage =
  sg_cfg :: Config
  sg_set :: Policy
  sg_parse :: url_parser
  sg_state :: "'s LoginState"
  sg_sessions :: "'s Sessions"
  sg_sso :: "'s SSO"
  sg_secrets :: "string \<Rightarrow> string option"
  sg_put_token :: "AccessToken \<Rightarrow> string"
  sg_get_token :: "string \<Rightarrow> AccessToken option"
  sg_put_request :: "authRequest \<Rightarrow> string"
  sg_get_request :: "string \<Rightarrow> authRequest option"

text \<open>What one call is given: the time, the directory, the fetch of a client document, and whether the trail is kept.\<close>

record call =
  now :: int
  dir :: directory
  docs :: doc_fetch
  durable :: bool

text \<open>The carrier of the audience to sign for is absent, or empty, or marked.\<close>

record 's Issuing =
  io_store :: 's
  io_resolver :: Resolver
  io_documents :: doc_cache
  io_trail :: "audit_event list"
  io_carrier :: "string option option"

datatype storage_err =
    StoreErr sess_err
  | NoSuchRequest
  | NoSuchCode
  | NoSuchToken
  | NotEntitled
  | Unaudited
  | Unresolved resolve_err
  | ExchangeErr exchange_err
  | NotValidated
  | InvalidGrant string
  | InvalidTarget string
  | InvalidRefreshToken
  | Unverified
  | SessionHasEnded
  | UnknownClient
  | DocumentErr doc_err
  | BadSecret
  | NoPerson
  | NoSigningKey

definition on_store :: "('s, sess_err, 'a) sop \<Rightarrow> ('s Issuing, storage_err, 'a) sop" where
  "on_store m w = (case m (io_store w) of (s', r) \<Rightarrow>
     (w\<lparr>io_store := s'\<rparr>, case r of Inl e \<Rightarrow> Inl (StoreErr e) | Inr x \<Rightarrow> Inr x))"

definition on_resolver :: "(Resolver \<Rightarrow> Resolver \<times> (resolve_err + 'a)) \<Rightarrow> ('s Issuing, storage_err, 'a) sop" where
  "on_resolver m w = (case m (io_resolver w) of (r', res) \<Rightarrow>
     (w\<lparr>io_resolver := r'\<rparr>, case res of Inl e \<Rightarrow> Inl (Unresolved e) | Inr x \<Rightarrow> Inr x))"

definition on_documents :: "(doc_cache \<Rightarrow> doc_cache \<times> 'a) \<Rightarrow> ('s Issuing, storage_err, 'a) sop" where
  "on_documents m w = (case m (io_documents w) of (d, x) \<Rightarrow> (w\<lparr>io_documents := d\<rparr>, Inr x))"

definition record_event :: "audit_event \<Rightarrow> ('s Issuing, storage_err, unit) sop" where
  "record_event ev w = (w\<lparr>io_trail := ev # io_trail w\<rparr>, Inr ())"

definition mark :: "string \<Rightarrow> ('s Issuing, storage_err, unit) sop" where
  "mark ident w = (w\<lparr>io_carrier := map_option (\<lambda>_. Some ident) (io_carrier w)\<rparr>, Inr ())"

text \<open>An operation whose failure is only logged.\<close>

definition ignoring :: "('s, 'e, 'a) sop \<Rightarrow> ('s, 'e, unit) sop" where
  "ignoring m s = (fst (m s), Inr ())"

section \<open>Clients\<close>

definition tokenLifetime :: "'s Storage \<Rightarrow> Client \<Rightarrow> int" where
  "tokenLifetime G declared = Client_Cap declared (cf_TokenLifetime (sg_cfg G))"

definition GetClientByClientID :: "'s Storage \<Rightarrow> call \<Rightarrow> string \<Rightarrow> ('s Issuing, storage_err, Client \<times> int) sop" where
  "GetClientByClientID G k ident =
     (case map_of (p_Clients (sg_set G)) ident of
        Some declared \<Rightarrow> ret (declared, tokenLifetime G declared)
      | None \<Rightarrow>
          bnd (on_documents (Documents_Resolve (p_ClientDocuments (sg_set G)) (docs k) (now k) ident)) (\<lambda>res.
            case res of
              Inr resolved \<Rightarrow> ret (resolved, tokenLifetime G resolved)
            | Inl NotADocumentClient \<Rightarrow> raise UnknownClient
            | Inl e \<Rightarrow> raise (DocumentErr e)))"

definition AuthorizeClientIDSecret :: "'s Storage \<Rightarrow> string \<Rightarrow> string \<Rightarrow> storage_err option" where
  "AuthorizeClientIDSecret G ident secret =
     (case map_of (p_Clients (sg_set G)) ident of
        None \<Rightarrow>
          (case documentURL (sg_parse G) ident of
             Inr target \<Rightarrow> (if ClientDocuments_Permits (p_ClientDocuments (sg_set G)) target then Some BadSecret else Some UnknownClient)
           | Inl _ \<Rightarrow> Some UnknownClient)
      | Some declared \<Rightarrow>
          (if c_Kind declared = KindPublic \<or> c_Kind declared = KindExchange
           then (if secret \<noteq> [] then Some BadSecret else None)
           else case sg_secrets G ident of
             None \<Rightarrow> Some BadSecret
           | Some want \<Rightarrow> (if want = [] \<or> want \<noteq> secret then Some BadSecret else None)))"

section \<open>Who a subject is\<close>

fun judged :: "'s Storage \<Rightarrow> string \<Rightarrow> 's Issuing \<times> (storage_err + Resolution)
    \<Rightarrow> 's Issuing \<times> (storage_err + Result \<times> string \<times> string)" where
  "judged G subject (w, Inl e) = (w, Inl e)"
| "judged G subject (w, Inr res) =
     (w, Inr (Evaluate (sg_set G) (Resolution_Input res subject), rn_GivenName res, rn_FamilyName res))"

lemma judged_fst [simp]: "fst (judged G subject x) = fst x"
  by (induction G subject x rule: judged.induct) simp_all

definition resolveSubject :: "'s Storage \<Rightarrow> call \<Rightarrow> string \<Rightarrow> ('s Issuing, storage_err, Result \<times> string \<times> string) sop" where
  "resolveSubject G k subject w =
     (case ParseServiceAccountSubject subject of
        Some account \<Rightarrow> ret (Evaluate (sg_set G) \<lparr>in_Email = [], in_DirectoryGroups = [], in_Authoritative = False,
             in_GitHub = None, in_ServiceAccount = Some account, in_AWS = None\<rparr>, [], []) w
      | None \<Rightarrow> judged G subject (on_resolver (Resolve (dir k) (now k) subject) w))"

definition identityOf :: "'s Storage \<Rightarrow> call \<Rightarrow> string \<Rightarrow> ('s Issuing, storage_err, fragment \<times> string list \<times> string \<times> string) sop" where
  "identityOf G k subject = bnd (resolveSubject G k subject) (\<lambda>(result, given, family).
     ret (res_Claims result, res_Groups result, given, family))"

definition namesOf :: "'s Storage \<Rightarrow> call \<Rightarrow> string \<Rightarrow> ('s Issuing, storage_err, string \<times> string) sop" where
  "namesOf G k subject w =
     (if at_sign \<notin> set subject then (w, Inr ([], []))
      else case on_resolver (Resolve (dir k) (now k) subject) w of
        (w', Inl _) \<Rightarrow> (w', Inr ([], []))
      | (w', Inr res) \<Rightarrow> (w', Inr (rn_GivenName res, rn_FamilyName res)))"

definition entitled :: "'s Storage \<Rightarrow> call \<Rightarrow> string \<Rightarrow> string \<Rightarrow> string \<Rightarrow> ('s Issuing, storage_err, unit) sop" where
  "entitled G k clientID resource subject =
     bnd (case map_of (p_Clients (sg_set G)) clientID of
            Some declared \<Rightarrow> ret (Some declared)
          | None \<Rightarrow> bnd (on_documents (Documents_Resolve (p_ClientDocuments (sg_set G)) (docs k) (now k) clientID)) (\<lambda>res.
              ret (case res of Inr resolved \<Rightarrow> Some resolved | Inl _ \<Rightarrow> None))) (\<lambda>found.
     case found of
       None \<Rightarrow> ret ()
     | Some declared \<Rightarrow>
         bnd (resolveSubject G k subject) (\<lambda>(result, _, _).
           if \<not> Client_Admits declared result then raise NotEntitled
           else if resource = [] then ret ()
           else case map_of (p_Resources (sg_set G)) resource of
             None \<Rightarrow> raise NotEntitled
           | Some wanted \<Rightarrow> (if \<not> Resource_Admits wanted result then raise NotEntitled else ret ())))"

section \<open>Authorization requests and codes\<close>

definition load_request :: "'s Storage \<Rightarrow> string \<Rightarrow> ('s Issuing, storage_err, authRequest) sop" where
  "load_request G ident =
     bnd (on_store (load_json (sg_state G) (sg_get_request G) (requestKey ident))) (\<lambda>found.
       case found of None \<Rightarrow> raise NoSuchRequest | Some a \<Rightarrow> ret a)"

definition save_request :: "'s Storage \<Rightarrow> string \<Rightarrow> authRequest \<Rightarrow> ('s Issuing, storage_err, unit) sop" where
  "save_request G ident a = on_store (save_json (sg_state G) (sg_put_request G) (requestKey ident) a authRequestTTL)"

definition CreateAuthRequest ::
  "'s Storage \<Rightarrow> call \<Rightarrow> string \<Rightarrow> authRequest \<Rightarrow> string \<Rightarrow> string \<Rightarrow> ('s Issuing, storage_err, authRequest) sop" where
  "CreateAuthRequest G k ident rq subject resource =
     (let a = rq\<lparr>ar_ID := ident, ar_Subject := subject, ar_AuthTime := Some (now k), ar_IsDone := False, ar_How := [],
                 ar_Resource := resource, ar_SSO := [], ar_Session := []\<rparr>
      in bnd (save_request G ident a) (\<lambda>_. ret a))"

definition revokeCodeSession :: "'s Storage \<Rightarrow> call \<Rightarrow> string \<Rightarrow> ('s Issuing, storage_err, unit) sop" where
  "revokeCodeSession G k rq = ignoring
     (bnd (on_store (st (ls_Get (sg_state G) (codeSessionKey rq)))) (\<lambda>raw.
        case raw of
          None \<Rightarrow> ret ()
        | Some sid \<Rightarrow> bnd (on_store (RevokeID (sg_sessions G) (now k) sid)) (\<lambda>_.
            on_store (st (ls_Delete (sg_state G) (codeSessionKey rq))))))"

definition AuthRequestByCode :: "'s Storage \<Rightarrow> call \<Rightarrow> string \<Rightarrow> ('s Issuing, storage_err, authRequest) sop" where
  "AuthRequestByCode G k code =
     bnd (on_store (st (ls_Get (sg_state G) (codeKey code)))) (\<lambda>raw.
       case raw of
         None \<Rightarrow> raise NoSuchCode
       | Some rq \<Rightarrow> (\<lambda>w. case load_request G rq w of
             (w', Inl e) \<Rightarrow> bnd (revokeCodeSession G k rq) (\<lambda>_. raise e) w'
           | (w', Inr a) \<Rightarrow> (w', Inr a)))"

definition SaveAuthCode :: "'s Storage \<Rightarrow> string \<Rightarrow> string \<Rightarrow> ('s Issuing, storage_err, unit) sop" where
  "SaveAuthCode G ident code = bnd (load_request G ident) (\<lambda>_.
     on_store (st (ls_Set (sg_state G) (codeKey code) ident authCodeTTL)))"

definition DeleteAuthRequest :: "'s Storage \<Rightarrow> string \<Rightarrow> ('s Issuing, storage_err, unit) sop" where
  "DeleteAuthRequest G ident = on_store (st (ls_Delete (sg_state G) (requestKey ident)))"

record Authenticated =
  wh_Subject :: string
  wh_How :: string
  wh_AuthTime :: "int option"
  wh_SSO :: string

text \<open>Recording and answering are one: the durable write answers whether the record is kept.\<close>

definition recordDurable :: "call \<Rightarrow> audit_event \<Rightarrow> ('s Issuing, storage_err, bool) sop" where
  "recordDurable k ev w = (if durable k then (w\<lparr>io_trail := ev # io_trail w\<rparr>, Inr True) else (w, Inr False))"

definition signInEvent :: "Authenticated \<Rightarrow> string \<Rightarrow> bool \<Rightarrow> audit_event" where
  "signInEvent who client ok = SignInRecorded (wh_How who = RecoveryHow) (wh_Subject who) client ok"

definition completed :: "call \<Rightarrow> Authenticated \<Rightarrow> authRequest \<Rightarrow> authRequest" where
  "completed k who a = a\<lparr>ar_Subject := to_lower (wh_Subject who), ar_IsDone := True,
     ar_AuthTime := (case wh_AuthTime who of Some t \<Rightarrow> Some t | None \<Rightarrow> Some (now k)),
     ar_SSO := wh_SSO who, ar_How := wh_How who\<rparr>"

definition Complete :: "'s Storage \<Rightarrow> call \<Rightarrow> string \<Rightarrow> Authenticated \<Rightarrow> ('s Issuing, storage_err, unit) sop" where
  "Complete G k ident who =
     bnd (load_request G ident) (\<lambda>a. \<lambda>w.
       case entitled G k (ar_ClientID a) (ar_Resource a) (wh_Subject who) w of
         (w', Inl e) \<Rightarrow>
           (if e = NotEntitled then bnd (record_event (signInEvent who (ar_ClientID a) False)) (\<lambda>_. raise e) w' else (w', Inl e))
       | (w', Inr _) \<Rightarrow>
           bnd (if wh_How who = RecoveryHow then recordDurable k (signInEvent who (ar_ClientID a) True) else ret True) (\<lambda>kept.
             if \<not> kept then bnd (record_event (signInEvent who (ar_ClientID a) False)) (\<lambda>_. raise Unaudited)
             else (\<lambda>w. case save_request G ident (completed k who a) w of
                 (w2, Inl e) \<Rightarrow>
                   (if wh_How who = RecoveryHow
                    then bnd (record_event (signInEvent who (ar_ClientID a) False)) (\<lambda>_. raise e) w2 else (w2, Inl e))
               | (w2, Inr _) \<Rightarrow>
                   (if wh_How who = RecoveryHow then (w2, Inr ())
                    else record_event (signInEvent who (ar_ClientID a) True) w2))) w')"

record Pending =
  pd_RedirectURI :: string
  pd_State :: string
  pd_ClientID :: string
  pd_Resource :: string
  pd_Client :: "Client option"
  pd_ForcesLogin :: bool
  pd_ForbidsUI :: bool
  pd_MaxAge :: int

definition Pending_of :: "'s Storage \<Rightarrow> string \<Rightarrow> ('s Issuing, storage_err, Pending) sop" where
  "Pending_of G ident = bnd (load_request G ident) (\<lambda>a. ret
     \<lparr>pd_RedirectURI = ar_RedirectURI a, pd_State = ar_State a, pd_ClientID = ar_ClientID a, pd_Resource = ar_Resource a,
      pd_Client = map_of (p_Clients (sg_set G)) (ar_ClientID a),
      pd_ForcesLogin = (''login'' \<in> set (ar_Prompt a) \<or> ''select_account'' \<in> set (ar_Prompt a) \<or> ar_MaxAge a = Some 0),
      pd_ForbidsUI = (''none'' \<in> set (ar_Prompt a)),
      pd_MaxAge = (case ar_MaxAge a of None \<Rightarrow> 0 | Some m \<Rightarrow> m * 1000000000)\<rparr>)"

section \<open>Access tokens\<close>

definition claimsFor ::
  "'s Storage \<Rightarrow> call \<Rightarrow> TokenRequest \<Rightarrow> ('s Issuing, storage_err, fragment \<times> string list \<times> string \<times> string) sop" where
  "claimsFor G k rq =
     (case rq of
        ExchangeRequest e \<Rightarrow>
          (case xr_Grant e of
             None \<Rightarrow> raise NotValidated
           | Some grant \<Rightarrow> bnd (namesOf G k (xr_Subject e)) (\<lambda>(given, family).
               ret (eg_Claims grant, res_Groups (eg_Result grant), given, family)))
      | _ \<Rightarrow> identityOf G k (GetSubject rq))"

definition token_lifetime_for :: "'s Storage \<Rightarrow> TokenRequest \<Rightarrow> int" where
  "token_lifetime_for G rq =
     (let base = cf_TokenLifetime (sg_cfg G);
          client = (case map_of (p_Clients (sg_set G)) (clientOf rq) of Some c \<Rightarrow> Client_Cap c base | None \<Rightarrow> base);
          resource = (case map_of (p_Resources (sg_set G)) (resourceOf rq) of
            Some r \<Rightarrow> (if resourceOf rq \<noteq> [] \<and> r_TTLCap r > 0 \<and> (client = 0 \<or> r_TTLCap r < client) then r_TTLCap r else client)
          | None \<Rightarrow> client)
      in case rq of
           ExchangeRequest e \<Rightarrow>
             (case xr_Grant e of
                Some grant \<Rightarrow> (let capped = Issuer_Lifetime (sg_set G) grant
                   in if capped > 0 \<and> capped < resource then capped else resource)
              | None \<Rightarrow> resource)
         | _ \<Rightarrow> resource)"

definition token_expiry :: "'s Storage \<Rightarrow> call \<Rightarrow> TokenRequest \<Rightarrow> int" where
  "token_expiry G k rq =
     (let expires = now k + token_lifetime_for G rq
      in case authTimeOf rq of
           None \<Rightarrow> expires
         | Some auth \<Rightarrow>
             (let absolute = Issuer_AbsoluteFor (sg_set G) (sg_cfg G) (resourceOf rq)
              in if absolute > 0 \<and> auth + absolute < expires then auth + absolute else expires))"

definition save_token :: "'s Storage \<Rightarrow> call \<Rightarrow> AccessToken \<Rightarrow> ('s Issuing, storage_err, unit) sop" where
  "save_token G k t = on_store (save_json (sg_state G) (sg_put_token G) (tokenKey (tk_ID t)) t (tk_Expires t - now k))"

definition issue :: "'s Storage \<Rightarrow> call \<Rightarrow> string \<Rightarrow> TokenRequest \<Rightarrow> ('s Issuing, storage_err, AccessToken) sop" where
  "issue G k ident rq =
     bnd (mark (accessAudienceOf rq)) (\<lambda>_.
     bnd (claimsFor G k rq) (\<lambda>(claims, held, given, family).
       let t = \<lparr>tk_ID = ident, tk_Subject = GetSubject rq, tk_ClientID = clientOf rq, tk_Audience = GetAudience rq,
                tk_Scopes = GetScopes rq,
                tk_Claims = shown_claims (sg_parse G) (cf_GroupsScoping (sg_cfg G)) (sg_set G) claims (accessAudienceOf rq) held,
                tk_Expires = token_expiry G k rq, tk_GivenName = given, tk_FamilyName = family, tk_Session = []\<rparr>
       in bnd (save_token G k t) (\<lambda>_. ret t)))"

definition CreateAccessToken :: "'s Storage \<Rightarrow> call \<Rightarrow> string \<Rightarrow> TokenRequest \<Rightarrow> ('s Issuing, storage_err, string \<times> int) sop" where
  "CreateAccessToken G k ident rq = bnd (issue G k ident rq) (\<lambda>t. ret (tk_ID t, tk_Expires t))"

text \<open>The identifiers a call draws: of the access token, the refresh token and the session.\<close>

record drawn =
  dr_token :: string
  dr_refresh :: string
  dr_session :: string

definition opened_for :: "string \<Rightarrow> TokenRequest \<Rightarrow> string \<Rightarrow> Opened" where
  "opened_for subject rq new_token =
     \<lparr>op_Identity = subject, op_ClientID = clientOf rq, op_Resource = resourceOf rq,
      op_How = (case rq of ExchangeRequest _ \<Rightarrow> HowExchange | _ \<Rightarrow> HowCode), op_Token = new_token,
      op_Scopes = GetScopes rq, op_SSO = ssoOf rq, op_AuthTime = authTimeOf rq\<rparr>"

text \<open>The last component is the request as the library holds it afterwards: it has learnt its session.\<close>

definition CreateAccessAndRefreshTokens ::
  "'s Storage \<Rightarrow> call \<Rightarrow> drawn \<Rightarrow> TokenRequest \<Rightarrow> string
     \<Rightarrow> ('s Issuing, storage_err, string \<times> string \<times> int \<times> TokenRequest) sop" where
  "CreateAccessAndRefreshTokens G k d rq current =
     bnd (issue G k (dr_token d) rq) (\<lambda>t.
     if current \<noteq> [] then
       bnd (on_store (Refreshed (sg_sessions G) (now k) current (dr_refresh d))) (\<lambda>r.
         case r of
           None \<Rightarrow> raise (InvalidGrant ''the refresh token is not live'')
         | Some (live, successor) \<Rightarrow>
             bnd (save_token G k (t\<lparr>tk_Session := ses_ID live\<rparr>)) (\<lambda>_. ret (tk_ID t, successor, tk_Expires t, rq)))
     else
       bnd (on_store (Sessions.Record (sg_sessions G) (now k) (dr_session d) (opened_for (tk_Subject t) rq (dr_refresh d)))) (\<lambda>session.
       bnd (save_token G k (t\<lparr>tk_Session := ses_ID session\<rparr>)) (\<lambda>_.
       case rq of
         CodeRequest a \<Rightarrow>
           bnd (ignoring (on_store (st (ls_Set (sg_state G) (codeSessionKey (ar_ID a)) (ses_ID session) authCodeTTL)))) (\<lambda>_.
             ret (tk_ID t, dr_refresh d, tk_Expires t, CodeRequest (a\<lparr>ar_Session := ses_ID session\<rparr>)))
       | _ \<Rightarrow> ret (tk_ID t, dr_refresh d, tk_Expires t, rq))))"

section \<open>Refreshing and revoking\<close>

definition refuseAtAbsoluteLimit :: "'s Storage \<Rightarrow> Session \<Rightarrow> ('s Issuing, storage_err, 'a) sop" where
  "refuseAtAbsoluteLimit G ended =
     bnd (ignoring (on_store (deleteSession (sg_sessions G) ended))) (\<lambda>_.
     bnd (record_event (RefreshRefused (ses_Identity ended) (ses_ClientID ended))) (\<lambda>_.
       raise (InvalidGrant ''this session has reached its absolute limit and must sign in again'')))"

definition TokenRequestByRefreshToken :: "'s Storage \<Rightarrow> call \<Rightarrow> string \<Rightarrow> ('s Issuing, storage_err, TokenRequest) sop" where
  "TokenRequestByRefreshToken G k token =
     bnd (on_store (ByRefreshToken (sg_sessions G) (now k) token)) (\<lambda>found.
       case found of
         None \<Rightarrow> (\<lambda>w. case on_store (endedByAbsoluteLimit (sg_sessions G) (now k) token) w of
             (w', Inr (Some ended)) \<Rightarrow> refuseAtAbsoluteLimit G ended w'
           | (w', _) \<Rightarrow> (w', Inl InvalidRefreshToken))
       | Some session \<Rightarrow>
           (if pastLimit (sg_sessions G) (now k) session then refuseAtAbsoluteLimit G session
            else (\<lambda>w. case entitled G k (ses_ClientID session) (ses_Resource session) (ses_Identity session) w of
                (w', Inr _) \<Rightarrow> (w', Inr (RefreshRequest session None))
              | (w', Inl e) \<Rightarrow>
                  (if e = NotEntitled
                   then bnd (record_event (RefreshRefused (ses_Identity session) (ses_ClientID session))) (\<lambda>_.
                          raise (InvalidGrant ''this identity is not admitted to this client'')) w'
                   else (w', Inl e)))))"

definition GetRefreshTokenInfo :: "'s Storage \<Rightarrow> call \<Rightarrow> string \<Rightarrow> ('s Issuing, storage_err, string \<times> string) sop" where
  "GetRefreshTokenInfo G k token =
     bnd (on_store (ByRefreshToken (sg_sessions G) (now k) token)) (\<lambda>found.
       case found of None \<Rightarrow> raise InvalidRefreshToken | Some x \<Rightarrow> ret (ses_Identity x, ses_ID x))"

definition Storage_RevokeToken :: "'s Storage \<Rightarrow> call \<Rightarrow> string \<Rightarrow> ('s Issuing, storage_err, unit) sop" where
  "Storage_RevokeToken G k tokenOrID =
     bnd (on_store (RevokeToken (sg_sessions G) (now k) tokenOrID)) (\<lambda>_.
     bnd (on_store (RevokeID (sg_sessions G) (now k) tokenOrID)) (\<lambda>_.
       on_store (st (ls_Delete (sg_state G) (tokenKey tokenOrID)))))"

section \<open>Userinfo and private claims\<close>

definition displayName :: "string \<Rightarrow> string \<Rightarrow> string" where
  "displayName given family =
     (if given \<noteq> [] \<and> family \<noteq> [] then given @ '' '' @ family else if given \<noteq> [] then given else family)"

definition withNames :: "fragment \<Rightarrow> string \<Rightarrow> string \<Rightarrow> fragment" where
  "withNames claims given family =
     (let name = displayName given family
      in if name = [] then claims
         else let named = tput ''name'' (VStr name) claims;
                  given' = (if given \<noteq> [] then tput ''given_name'' (VStr given) named else named)
              in if family \<noteq> [] then tput ''family_name'' (VStr family) given' else given')"

record UserInfo =
  ui_Subject :: string
  ui_Email :: "string option"
  ui_Name :: string
  ui_GivenName :: string
  ui_FamilyName :: string
  ui_Claims :: fragment

text \<open>A subject that is an address is the verified address and the preferred user name as well.\<close>

definition fill :: "string \<Rightarrow> fragment \<Rightarrow> string \<Rightarrow> string \<Rightarrow> UserInfo" where
  "fill subject claims given family =
     \<lparr>ui_Subject = subject, ui_Email = (if at_sign \<in> set subject then Some subject else None),
      ui_Name = displayName given family, ui_GivenName = given, ui_FamilyName = family, ui_Claims = claims\<rparr>"

definition SetUserinfoFromToken :: "'s Storage \<Rightarrow> call \<Rightarrow> string \<Rightarrow> ('s Issuing, storage_err, UserInfo) sop" where
  "SetUserinfoFromToken G k ident =
     bnd (on_store (load_json (sg_state G) (sg_get_token G) (tokenKey ident))) (\<lambda>found.
       case found of
         None \<Rightarrow> raise NoSuchToken
       | Some t \<Rightarrow>
           bnd (if tk_Session t = [] then ret True
                else bnd (on_store (byID (sg_sessions G) (now k) (tk_Session t))) (\<lambda>x. ret (x \<noteq> None))) (\<lambda>live.
             if \<not> live then raise SessionHasEnded
             else ret (fill (tk_Subject t) (tk_Claims t) (tk_GivenName t) (tk_FamilyName t))))"

definition SetUserinfoFromRequest :: "'s Storage \<Rightarrow> call \<Rightarrow> TokenRequest \<Rightarrow> ('s Issuing, storage_err, UserInfo) sop" where
  "SetUserinfoFromRequest G k rq =
     bnd (resolveSubject G k (GetSubject rq)) (\<lambda>(result, given, family).
       let claims = shown_claims (sg_parse G) (cf_GroupsScoping (sg_cfg G)) (sg_set G) (res_Claims result) (clientOf rq) (res_Groups result);
           info = fill (GetSubject rq) (if sessionOf rq \<noteq> [] then tput ''sid'' (VStr (sessionOf rq)) claims else claims) given family
       in bnd (if ssoOf rq \<noteq> [] then on_store (Involve (sg_sso G) (ssoOf rq) (clientOf rq)) else ret ()) (\<lambda>_. ret info))"

definition GetPrivateClaimsFromScopes :: "'s Storage \<Rightarrow> call \<Rightarrow> string \<Rightarrow> ('s Issuing, storage_err, fragment) sop" where
  "GetPrivateClaimsFromScopes G k subject =
     bnd (identityOf G k subject) (\<lambda>(claims, held, given, family). \<lambda>w.
       (w, Inr (withNames (case io_carrier w of
            Some (Some audience) \<Rightarrow> shown_claims (sg_parse G) (cf_GroupsScoping (sg_cfg G)) (sg_set G) claims audience held
          | _ \<Rightarrow> claims) given family)))"

section \<open>Signing\<close>

definition signingAlgorithmFor :: "Policy \<Rightarrow> string \<Rightarrow> string \<Rightarrow> string" where
  "signingAlgorithmFor p primary ident =
     (if ident = [] then primary
      else case map_of (p_Resources p) ident of
        Some r \<Rightarrow> (if r_SigningAlg r \<noteq> [] then r_SigningAlg r
                  else (case map_of (p_Clients p) ident of Some c \<Rightarrow> (if c_SigningAlg c \<noteq> [] then c_SigningAlg c else primary) | None \<Rightarrow> primary))
      | None \<Rightarrow> (case map_of (p_Clients p) ident of Some c \<Rightarrow> (if c_SigningAlg c \<noteq> [] then c_SigningAlg c else primary) | None \<Rightarrow> primary))"

definition checkSigningAlgorithms :: "Policy \<Rightarrow> 's KeyRings \<Rightarrow> string option" where
  "checkSigningAlgorithms p keys =
     first_err (\<lambda>(ident, alg). guard_err (alg \<noteq> [] \<and> \<not> Rings_Has keys alg) ident)
       (map (\<lambda>(ident, c). (ident, c_SigningAlg c)) (sorted_entries (p_Clients p))
        @ map (\<lambda>(ident, r). (ident, r_SigningAlg r)) (sorted_entries (p_Resources p)))"

definition Storage_SigningKey :: "'s Storage \<Rightarrow> 't KeyRings \<Rightarrow> 's Issuing \<Rightarrow> SigningKey option" where
  "Storage_SigningKey G keys w =
     (let alg = (case io_carrier w of
            Some (Some ident) \<Rightarrow> signingAlgorithmFor (sg_set G) (ks_primary keys) ident
          | _ \<Rightarrow> ks_primary keys)
      in case Rings_Active keys alg of
           Some active \<Rightarrow> Some active
         | None \<Rightarrow> Rings_Active keys (ks_primary keys))"

section \<open>Exchange\<close>

text \<open>A verifier recognises a token and proves something, or refuses it, or does not recognise it.\<close>

datatype verdict = Proved SubjectProof | Rejected string | NotRecognised

fun Verifiers_Verify :: "(string \<Rightarrow> string \<Rightarrow> verdict) list \<Rightarrow> string \<Rightarrow> string \<Rightarrow> verdict" where
  "Verifiers_Verify [] token kind = NotRecognised"
| "Verifiers_Verify (v # vs) token kind =
     (case v token kind of NotRecognised \<Rightarrow> Verifiers_Verify vs token kind | answer \<Rightarrow> answer)"

text \<open>What an exchange presents: a verifier's proof, or one of the issuer's own tokens.\<close>

record presented =
  ps_Verified :: "SubjectProof option"
  ps_Type :: string
  ps_TokenID :: string
  ps_ClientID :: string

definition AccessTokenType :: string where "AccessTokenType = ''urn:ietf:params:oauth:token-type:access_token''"

definition VerifyExchangeSubjectToken ::
  "(string \<Rightarrow> string \<Rightarrow> verdict) list option \<Rightarrow> string \<Rightarrow> string \<Rightarrow> storage_err + SubjectProof" where
  "VerifyExchangeSubjectToken verify token kind =
     (case verify of
        None \<Rightarrow> Inl Unverified
      | Some vs \<Rightarrow>
          (case Verifiers_Verify vs token kind of
             NotRecognised \<Rightarrow> Inl Unverified
           | Rejected reason \<Rightarrow> Inl (InvalidGrant reason)
           | Proved pf \<Rightarrow> (if proof_Subject pf = [] then Inl Unverified else Inr pf)))"

definition signInProof :: "'s Storage \<Rightarrow> call \<Rightarrow> presented \<Rightarrow> ('s Issuing, storage_err, SubjectProof) sop" where
  "signInProof G k p =
     (if ps_Type p \<noteq> AccessTokenType then raise (InvalidGrant ''type'')
      else bnd (on_store (load_json (sg_state G) (sg_get_token G) (tokenKey (ps_TokenID p)))) (\<lambda>found.
        case found of
          None \<Rightarrow> raise (InvalidGrant ''record'')
        | Some t \<Rightarrow>
            (if \<not> (case map_of (p_Clients (sg_set G)) (tk_ClientID t) of Some c \<Rightarrow> c_SignInExchange c | None \<Rightarrow> False)
             then raise (InvalidGrant ''client'')
             else if ps_ClientID p \<noteq> tk_ClientID t then raise (InvalidGrant ''presented'')
             else if at_sign \<notin> set (tk_Subject t) then raise (InvalidGrant ''person'')
             else if tk_Session t = [] then raise (InvalidGrant ''session'')
             else bnd (on_store (byID (sg_sessions G) (now k) (tk_Session t))) (\<lambda>x.
               case x of
                 None \<Rightarrow> raise (InvalidGrant ''ended'')
               | Some _ \<Rightarrow> ret \<lparr>pf_Email = tk_Subject t, pf_GitHub = None, pf_ServiceAccount = None, pf_AWS = None\<rparr>))))"

definition proofOf :: "'s Storage \<Rightarrow> call \<Rightarrow> presented \<Rightarrow> ('s Issuing, storage_err, SubjectProof) sop" where
  "proofOf G k p = (case ps_Verified p of Some pf \<Rightarrow> ret pf | None \<Rightarrow> signInProof G k p)"

definition on_exchange :: "(Resolver \<Rightarrow> Resolver \<times> (exchange_err + 'a)) \<Rightarrow> ('s Issuing, storage_err, 'a) sop" where
  "on_exchange m w = (case m (io_resolver w) of (r', res) \<Rightarrow>
     (w\<lparr>io_resolver := r'\<rparr>, case res of
        Inl (ResolveErr e) \<Rightarrow> Inl (InvalidGrant ''resolve'')
      | Inl e \<Rightarrow> Inl (InvalidTarget ''target'')
      | Inr x \<Rightarrow> Inr x))"

definition ValidateTokenExchangeRequest ::
  "'s Storage \<Rightarrow> call \<Rightarrow> presented \<Rightarrow> exchangeRequest \<Rightarrow> ('s Issuing, storage_err, exchangeRequest) sop" where
  "ValidateTokenExchangeRequest G k p e =
     (case xr_Audience e of
        [audience] \<Rightarrow>
          bnd (proofOf G k p) (\<lambda>pf.
          bnd (on_exchange (Exchange (sg_parse G) (sg_cfg G) (sg_set G) (dir k) (now k) pf audience)) (\<lambda>grant.
            ret (e\<lparr>xr_Subject := eg_Subject grant, xr_Grant := Some grant\<rparr>)))
      | _ \<Rightarrow> raise (InvalidTarget ''name exactly one audience''))"

definition SetUserinfoFromTokenExchangeRequest ::
  "'s Storage \<Rightarrow> call \<Rightarrow> exchangeRequest \<Rightarrow> ('s Issuing, storage_err, UserInfo) sop" where
  "SetUserinfoFromTokenExchangeRequest G k e =
     (case xr_Grant e of
        None \<Rightarrow> raise NotValidated
      | Some grant \<Rightarrow> bnd (namesOf G k (eg_Subject grant)) (\<lambda>(given, family).
          ret (fill (eg_Subject grant) (eg_Claims grant) given family)))"

section \<open>Minting for the console\<close>

definition MintFor_lifetime :: "'s Storage \<Rightarrow> ExchangeGrant \<Rightarrow> int \<Rightarrow> int" where
  "MintFor_lifetime G grant asked =
     (let capped = Issuer_Lifetime (sg_set G) grant;
          lifetime = (if capped > 0 \<and> capped < asked then capped else asked)
      in if lifetime \<le> 0 \<or> lifetime > cf_TokenLifetime (sg_cfg G) then cf_TokenLifetime (sg_cfg G) else lifetime)"

text \<open>The registered claims, put last; an instant is in whole seconds.\<close>

definition registered :: "'s Storage \<Rightarrow> ExchangeGrant \<Rightarrow> string \<Rightarrow> string \<Rightarrow> int \<Rightarrow> int \<Rightarrow> (string \<times> claim) list" where
  "registered G grant email jti issued expires =
     [(''iss'', VStr (cf_URL (sg_cfg G))), (''sub'', VStr (eg_Subject grant)), (''aud'', VList [VStr (eg_Audience grant)]),
      (''client_id'', VStr (eg_Audience grant)), (''email'', VStr email), (''iat'', VInt (issued div 1000000000)),
      (''nbf'', VInt (issued div 1000000000)), (''exp'', VInt (expires div 1000000000)), (''jti'', VStr jti)]"

record minted =
  mt_Key :: SigningKey
  mt_Claims :: fragment
  mt_Expires :: int

definition MintFor ::
  "'s Storage \<Rightarrow> 't KeyRings \<Rightarrow> call \<Rightarrow> string \<Rightarrow> string \<Rightarrow> string \<Rightarrow> int \<Rightarrow> Resolver \<Rightarrow> Resolver \<times> (storage_err + minted)" where
  "MintFor G keys k jti given_email audience asked r =
     (let email = to_lower (trim_space given_email)
      in if email = [] then (r, Inl NoPerson)
         else case Exchange (sg_parse G) (sg_cfg G) (sg_set G) (dir k) (now k)
             \<lparr>pf_Email = email, pf_GitHub = None, pf_ServiceAccount = None, pf_AWS = None\<rparr> audience r of
           (r', Inl e) \<Rightarrow> (r', Inl (ExchangeErr e))
         | (r', Inr grant) \<Rightarrow>
             (let expires = now k + MintFor_lifetime G grant asked
              in case Rings_Active keys (signingAlgorithmFor (sg_set G) (ks_primary keys) audience) of
                   None \<Rightarrow> (r', Inl NoSigningKey)
                 | Some active \<Rightarrow> (r', Inr \<lparr>mt_Key = active,
                     mt_Claims = fold (\<lambda>(name, v). tput name v) (registered G grant email jti (now k) expires) (eg_Claims grant),
                     mt_Expires = expires\<rparr>)))"

end
