(* ===== verification/Issuing.thy ===== *)
theory Issuing
  imports Issuer_Storage Session_Properties
begin

text \<open>
  What the operations of \<open>Issuer_Storage\<close> keep, on the store behind the ports: every record of an
  authorization request is filed under its own identifier and, where it was completed by a recovery, has
  its entry in the trail; every access token is filed under its own identifier and its record ends when the
  token does; no code lives longer than a code may; every session was capped when it was written. The operations, in any order and with time
  passing between them, are the step relation \<open>issuing_step\<close>; the invariant holds wherever it leads.
\<close>

section \<open>A store all of whose values are sound\<close>

definition every :: "(string \<Rightarrow> string \<Rightarrow> int option \<Rightarrow> bool) \<Rightarrow> int \<Rightarrow> Store \<Rightarrow> bool" where
  "every P t s = (store_good s \<and> st_now s = t \<and> (\<forall>k x e. vw_val (store_view s) k = Some (x, e) \<longrightarrow> P k x e))"

lemma everyI:
  "every P t s \<Longrightarrow> store_good s' \<Longrightarrow> vw_now (store_view s') = vw_now (store_view s) \<Longrightarrow>
    (\<And>k. vw_val (store_view s') k = vw_val (store_view s) k \<or> vw_val (store_view s') k = None
       \<or> (\<exists>x e. vw_val (store_view s') k = Some (x, e) \<and> P k x e)) \<Longrightarrow> every P t s'"
  unfolding every_def port_now by (metis option.distinct(1) option.inject prod.inject)

lemma everyD: "every P t s \<Longrightarrow> vw_val (store_view s) k = Some (x, e) \<Longrightarrow> P k x e"
  by (simp add: every_def)

lemma every_get [intro]: "keeps (every P t) (ls_Get port_state k)"
  unfolding keeps_def
proof (intro allI impI)
  fix s assume s: "every P t s"
  then have g: "store_good (fst (ls_Get port_state k s)) \<and> store_view (fst (ls_Get port_state k s)) = store_view s"
    using ps.get_law [of s k] by (metis every_def prod.collapse)
  show "every P t (fst (ls_Get port_state k s))"
    by (rule everyI [OF s]) (use g in simp_all)
qed

lemma every_members [intro]: "keeps (every P t) (ls_Members port_state k)"
  unfolding keeps_def
proof (intro allI impI)
  fix s assume s: "every P t s"
  then have g: "store_good (fst (ls_Members port_state k s)) \<and> store_view (fst (ls_Members port_state k s)) = store_view s"
    using ps.members_law [of s k] by (metis every_def prod.collapse)
  show "every P t (fst (ls_Members port_state k s))"
    by (rule everyI [OF s]) (use g in simp_all)
qed

text \<open>Only a value that is too long, or ends at once, is refused; deleting and the sets never fail.\<close>

lemma port_delete: "\<exists>s'. ls_Delete port_state k s = (s', Inr ())"
  by (simp add: port_defs store_defs)

lemma port_remove: "\<exists>s'. ls_Remove port_state k x s = (s', Inr ())"
  by (simp add: port_defs)

lemma port_add: "\<exists>s'. ls_Add port_state k x ttl s = (s', Inr ())"
  by (simp add: port_defs)

lemma port_set: "CheckWrite k x ttl = None \<Longrightarrow> \<exists>s'. ls_Set port_state k x ttl s = (s', Inr ())"
  by (simp add: port_defs store_defs split: prod.splits)

lemma port_set_Inr: "ls_Set port_state k x ttl s = (s', Inr u) \<Longrightarrow> CheckWrite k x ttl = None"
  by (auto simp: port_defs store_defs split: option.splits)

lemma port_set_Inl: "ls_Set port_state k x ttl s = (s', Inl e) \<Longrightarrow> s' = s"
  by (auto simp: port_defs store_defs split: option.splits prod.splits)

lemma every_delete [intro]: "keeps (every P t) (ls_Delete port_state k)"
  unfolding keeps_def
proof (intro allI impI)
  fix s assume s: "every P t s"
  obtain s' where s': "ls_Delete port_state k s = (s', Inr ())" using port_delete by blast
  note d = ps.delete_law [OF _ s']
  show "every P t (fst (ls_Delete port_state k s))"
    by (rule everyI [OF s]) (use d s s' in \<open>simp_all add: every_def\<close>)
qed

lemma every_remove [intro]: "keeps (every P t) (ls_Remove port_state k x)"
  unfolding keeps_def
proof (intro allI impI)
  fix s assume s: "every P t s"
  obtain s' where s': "ls_Remove port_state k x s = (s', Inr ())" using port_remove by blast
  note d = ps.remove_law [OF _ s']
  show "every P t (fst (ls_Remove port_state k x s))"
    by (rule everyI [OF s]) (use d s s' in \<open>simp_all add: every_def\<close>)
qed

lemma every_add [intro]:
  assumes "0 < ttl"
  shows "keeps (every P t) (ls_Add port_state k x ttl)"
  unfolding keeps_def
proof (intro allI impI)
  fix s assume s: "every P t s"
  obtain s' where s': "ls_Add port_state k x ttl s = (s', Inr ())" using port_add by blast
  have "store_good s" using s by (simp add: every_def)
  from ps.add_law [OF this assms s'] obtain M where "store_good s'" "store_view s' =
      (store_view s)\<lparr>vw_set := (vw_set (store_view s))(k := (M, ending (vw_now (store_view s)) ttl))\<rparr>" by blast
  then show "every P t (fst (ls_Add port_state k x ttl s))"
    by (intro everyI [OF s]) (use s' in simp_all)
qed

lemma every_set:
  assumes "CheckWrite k x ttl = None \<Longrightarrow> P k x (ending t ttl)"
  shows "keeps (every P t) (ls_Set port_state k x ttl)"
  unfolding keeps_def
proof (intro allI impI)
  fix s assume s: "every P t s"
  obtain s' r where s': "ls_Set port_state k x ttl s = (s', r)" by (cases "ls_Set port_state k x ttl s")
  show "every P t (fst (ls_Set port_state k x ttl s))"
  proof (cases r)
    case (Inl e)
    then show ?thesis using s s' port_set_Inl [of k x ttl s s' e] by simp
  next
    case (Inr u)
    note d = ps.set_law [OF _ s' [unfolded Inr]]
    have "P k x (ending t ttl)" using assms port_set_Inr [of k x ttl s s' u] s' Inr by simp
    then show ?thesis
      by (intro everyI [OF s]) (use d s s' in \<open>auto simp: every_def port_now\<close>)
  qed
qed

section \<open>Sound entries\<close>

definition request_sound :: "'s Storage \<Rightarrow> audit_event set \<Rightarrow> string \<Rightarrow> string \<Rightarrow> bool" where
  "request_sound G T i raw = (\<exists>a. sg_get_request G raw = Some a \<and> ar_ID a = i \<and>
     (ar_IsDone a \<and> ar_How a = RecoveryHow \<longrightarrow>
        (\<exists>who. to_lower who = ar_Subject a \<and> SignInRecorded True who (ar_ClientID a) True \<in> T)))"

definition token_sound :: "'s Storage \<Rightarrow> string \<Rightarrow> string \<Rightarrow> int option \<Rightarrow> bool" where
  "token_sound G i raw e = (\<exists>t. sg_get_token G raw = Some t \<and> tk_ID t = i \<and> e = Some (tk_Expires t))"

definition code_sound :: "int \<Rightarrow> int option \<Rightarrow> bool" where
  "code_sound t e = (\<exists>u \<le> t + authCodeTTL. e = Some u)"

definition session_sound :: "'s Sessions \<Rightarrow> int \<Rightarrow> string \<Rightarrow> string \<Rightarrow> int option \<Rightarrow> bool" where
  "session_sound S t sid raw e =
     (\<exists>x w. ss_unmarshal S raw = Some x \<and> ses_ID x = sid \<and> w \<le> t \<and> e = Some (w + ss_lifetime S)
        \<and> ses_ExpiresAt x = capEnd w (ses_AuthTime x) (ss_lifetime S) (absoluteOf S [ses_Resource x]))"

definition sound :: "'s Storage \<Rightarrow> audit_event set \<Rightarrow> int \<Rightarrow> string \<Rightarrow> string \<Rightarrow> int option \<Rightarrow> bool" where
  "sound G T t k raw e =
     ((\<forall>i. k = requestKey i \<longrightarrow> request_sound G T i raw) \<and>
      (\<forall>i. k = tokenKey i \<longrightarrow> token_sound G i raw e) \<and>
      (\<forall>c. k = codeKey c \<longrightarrow> code_sound t e) \<and>
      (\<forall>sid. k = sessionKey sid \<longrightarrow> session_sound (sg_sessions G) t sid raw e))"

text \<open>
  What the storage stands on: one store for everything, and records that read back as they were written, except that
  numbers among a token's claims may come back in another form, and the session a request opened is not stored.
\<close>

definition storage_over :: "'s Storage \<Rightarrow> 's LoginState \<Rightarrow> bool" where
  "storage_over G L = (sg_state G = L \<and> sessions_over (sg_sessions G) L \<and> sso_over (sg_sso G) L \<and>
     (\<forall>t. \<exists>c. sg_get_token G (sg_put_token G t) = Some (t\<lparr>tk_Claims := c\<rparr>)) \<and>
     (\<forall>a. sg_get_request G (sg_put_request G a) = Some (a\<lparr>ar_Session := []\<rparr>)))"

lemma storage_keys [simp]:
  "requestKey i = requestKey j \<longleftrightarrow> i = j" "tokenKey i = tokenKey j \<longleftrightarrow> i = j"
  "codeKey i = codeKey j \<longleftrightarrow> i = j" "codeSessionKey i = codeSessionKey j \<longleftrightarrow> i = j"
  "requestKey i \<noteq> tokenKey j" "tokenKey j \<noteq> requestKey i" "requestKey i \<noteq> codeKey j" "codeKey j \<noteq> requestKey i"
  "requestKey i \<noteq> codeSessionKey j" "codeSessionKey j \<noteq> requestKey i" "tokenKey i \<noteq> codeKey j" "codeKey j \<noteq> tokenKey i"
  "tokenKey i \<noteq> codeSessionKey j" "codeSessionKey j \<noteq> tokenKey i" "codeKey i \<noteq> codeSessionKey j" "codeSessionKey j \<noteq> codeKey i"
  by (simp_all add: requestKey_def tokenKey_def codeKey_def codeSessionKey_def)

lemma storage_session_keys [simp]:
  "requestKey i \<noteq> sessionKey j" "sessionKey j \<noteq> requestKey i" "tokenKey i \<noteq> sessionKey j" "sessionKey j \<noteq> tokenKey i"
  "codeKey i \<noteq> sessionKey j" "sessionKey j \<noteq> codeKey i" "codeSessionKey i \<noteq> sessionKey j" "sessionKey j \<noteq> codeSessionKey i"
  "requestKey i \<noteq> sessionTokenKey S j" "sessionTokenKey S j \<noteq> requestKey i"
  "tokenKey i \<noteq> sessionTokenKey S j" "sessionTokenKey S j \<noteq> tokenKey i"
  "codeKey i \<noteq> sessionTokenKey S j" "sessionTokenKey S j \<noteq> codeKey i"
  "codeSessionKey i \<noteq> sessionTokenKey S j" "sessionTokenKey S j \<noteq> codeSessionKey i"
  "requestKey i \<noteq> sessionRotatedKey S j" "sessionRotatedKey S j \<noteq> requestKey i"
  "tokenKey i \<noteq> sessionRotatedKey S j" "sessionRotatedKey S j \<noteq> tokenKey i"
  "codeKey i \<noteq> sessionRotatedKey S j" "sessionRotatedKey S j \<noteq> codeKey i"
  "codeSessionKey i \<noteq> sessionRotatedKey S j" "sessionRotatedKey S j \<noteq> codeSessionKey i"
  by (simp_all add: requestKey_def tokenKey_def codeKey_def codeSessionKey_def sessionKey_def sessionTokenKey_def sessionRotatedKey_def)

lemma storage_sso_keys [simp]:
  "ssoKey j \<noteq> requestKey i" "ssoKey j \<noteq> tokenKey i" "ssoKey j \<noteq> sessionKey i" "ssoKey j \<noteq> codeKey i"
  by (simp_all add: requestKey_def tokenKey_def sessionKey_def codeKey_def ssoKey_def)

lemma sound_plain [simp]:
  "sound G T t (codeKey c) x e = code_sound t e" "sound G T t (codeSessionKey c) x e" "sound G T t (sessionTokenKey S c) x e"
  "sound G T t (sessionRotatedKey S c) x e" "sound G T t (ssoKey c) x e"
  by (simp_all add: sound_def)

lemma request_sound_mono: "request_sound G T i raw \<Longrightarrow> T \<subseteq> T' \<Longrightarrow> request_sound G T' i raw"
  unfolding request_sound_def by blast

lemma session_sound_mono: "session_sound S t i raw e \<Longrightarrow> t \<le> t' \<Longrightarrow> session_sound S t' i raw e"
  unfolding session_sound_def by (elim exE conjE, intro exI conjI; (assumption | simp))

lemma code_sound_mono: "code_sound t e \<Longrightarrow> t \<le> t' \<Longrightarrow> code_sound t' e"
  unfolding code_sound_def by force

lemma code_sound_new [simp]: "code_sound t (ending t authCodeTTL)"
  by (simp add: code_sound_def ending_def authCodeTTL_def)

lemma sound_mono: "sound G T t k x e \<Longrightarrow> T \<subseteq> T' \<Longrightarrow> t \<le> t' \<Longrightarrow> sound G T' t' k x e"
  unfolding sound_def using request_sound_mono session_sound_mono code_sound_mono by blast

lemma over_facts:
  assumes "storage_over G L"
  shows "sg_state G = L" "sessions_over (sg_sessions G) L" "ss_state (sg_sessions G) = L" "0 < ss_lifetime (sg_sessions G)"
    "sso_state (sg_sso G) = L" "0 < sso_lifetime (sg_sso G)" "\<exists>c. sg_get_token G (sg_put_token G u) = Some (u\<lparr>tk_Claims := c\<rparr>)"
    "sg_get_request G (sg_put_request G a) = Some (a\<lparr>ar_Session := []\<rparr>)" "ss_unmarshal (sg_sessions G) (ss_marshal (sg_sessions G) x) = Some x"
  using assms by (simp_all add: storage_over_def sessions_over_def sso_over_def)

section \<open>The sessions keep it\<close>

abbreviation sound_store :: "Store Storage \<Rightarrow> audit_event set \<Rightarrow> int \<Rightarrow> Store \<Rightarrow> bool" where
  "sound_store G T t \<equiv> every (sound G T t) t"

lemmas keeping = keeps_bnd_all keeps_each keeps_map_err every_get every_members every_delete every_remove every_add

named_theorems kept_ops \<open>operations that keep the store sound\<close>

lemma kept_byID [kept_ops]: "storage_over G port_state \<Longrightarrow> keeps (sound_store G T t) (byID (sg_sessions G) u sid)"
  unfolding byID_def getJSON_def by (auto simp: over_facts intro!: keeping split: option.splits)

lemma kept_ByToken [kept_ops]: "storage_over G port_state \<Longrightarrow> keeps (sound_store G T t) (ByToken (sg_sessions G) u tok)"
  unfolding ByToken_def by (auto simp: over_facts intro!: keeping kept_ops split: option.splits)

lemma kept_replayed [kept_ops]: "storage_over G port_state \<Longrightarrow> keeps (sound_store G T t) (replayed (sg_sessions G) u tok)"
  unfolding replayed_def by (auto simp: over_facts intro!: keeping kept_ops split: option.splits)

lemma kept_ended [kept_ops]: "storage_over G port_state \<Longrightarrow> keeps (sound_store G T t) (endedByAbsoluteLimit (sg_sessions G) u tok)"
  unfolding endedByAbsoluteLimit_def getJSON_def by (auto simp: over_facts intro!: keeping split: option.splits)

lemma kept_ByRefreshToken [kept_ops]: "storage_over G port_state \<Longrightarrow> keeps (sound_store G T t) (ByRefreshToken (sg_sessions G) u tok)"
  unfolding ByRefreshToken_def by (auto simp: over_facts intro!: keeping kept_ops split: option.splits)

lemma kept_deleteSession [kept_ops]: "storage_over G port_state \<Longrightarrow> keeps (sound_store G T t) (deleteSession (sg_sessions G) x)"
  unfolding deleteSession_def by (auto simp: over_facts intro!: keeping)

lemma kept_RevokeID [kept_ops]: "storage_over G port_state \<Longrightarrow> keeps (sound_store G T t) (RevokeID (sg_sessions G) u sid)"
  unfolding RevokeID_def by (auto simp: over_facts intro!: keeping kept_ops split: option.splits)

lemma kept_RevokeToken [kept_ops]: "storage_over G port_state \<Longrightarrow> keeps (sound_store G T t) (RevokeToken (sg_sessions G) u tok)"
  unfolding RevokeToken_def by (auto simp: over_facts intro!: keeping kept_ops split: option.splits)

lemma kept_index [kept_ops]: "storage_over G port_state \<Longrightarrow> keeps (sound_store G T t) (index_session (sg_sessions G) x)"
  unfolding index_session_def by (auto simp: over_facts intro!: keeping)

lemma kept_put:
  assumes "storage_over G port_state"
    and "ses_ExpiresAt x = capEnd t (ses_AuthTime x) (ss_lifetime (sg_sessions G)) (absoluteOf (sg_sessions G) [ses_Resource x])"
  shows "keeps (sound_store G T t) (put_session (sg_sessions G) t x)"
proof -
  have "session_sound (sg_sessions G) t (ses_ID x) (ss_marshal (sg_sessions G) x) (ending t (ss_lifetime (sg_sessions G)))"
    unfolding session_sound_def using assms
    by (intro exI [of _ x] exI [of _ t]) (simp add: over_facts ending_def)
  then show ?thesis
    unfolding put_session_def setJSON_def over_facts(3) [OF assms(1)]
    by (auto intro!: keeping every_set simp: sound_def)
qed

lemma kept_Record [kept_ops]: "storage_over G port_state \<Longrightarrow> keeps (sound_store G T t) (Sessions.Record (sg_sessions G) t sid p)"
  unfolding Record_def Let_def
  by (auto simp: over_facts opened_session_def intro!: keeping kept_ops kept_put every_set)

lemma kept_rotate [kept_ops]: "storage_over G port_state \<Longrightarrow> keeps (sound_store G T t) (rotate_session (sg_sessions G) t a b x)"
  unfolding rotate_session_def Let_def
  by (auto simp: over_facts intro!: keeping kept_ops kept_put every_set)

lemma kept_Refreshed [kept_ops]: "storage_over G port_state \<Longrightarrow> keeps (sound_store G T t) (Refreshed (sg_sessions G) t a b)"
  unfolding Refreshed_def by (auto simp: over_facts intro!: keeping kept_ops split: option.splits)

lemma kept_Involve [kept_ops]: "storage_over G port_state \<Longrightarrow> keeps (sound_store G T t) (Involve (sg_sso G) i c)"
  unfolding Involve_def by (auto simp: over_facts intro!: keeping)

lemma kept_load [kept_ops]: "keeps (sound_store G T t) (load_json port_state f k)"
  unfolding load_json_def by (auto intro!: keeping split: option.splits)

section \<open>The storage keeps it\<close>

definition kept :: "Store Storage \<Rightarrow> int \<Rightarrow> Store Issuing \<Rightarrow> bool" where
  "kept G t w = sound_store G (set (io_trail w)) t (io_store w)"

lemma keep_on_store:
  assumes "\<And>T. keeps (sound_store G T t) m"
  shows "keeps (kept G t) (on_store m)"
  unfolding keeps_def
proof (intro allI impI)
  fix w assume w: "kept G t w"
  obtain s' r where m: "m (io_store w) = (s', r)" by (cases "m (io_store w)")
  have "sound_store G (set (io_trail w)) t s'" using keepsD [OF assms w [unfolded kept_def] m] .
  then show "kept G t (fst (on_store m w))" using m by (simp add: on_store_def kept_def)
qed

lemma on_store_Inr [op_simps]:
  "on_store m w = (w', Inr x) \<longleftrightarrow> (\<exists>s'. m (io_store w) = (s', Inr x) \<and> w' = w\<lparr>io_store := s'\<rparr>)"
  by (auto simp: on_store_def split: prod.splits sum.splits)

lemma keep_same:
  assumes "\<And>w. io_store (fst (m w)) = io_store w" and "\<And>w. set (io_trail w) \<subseteq> set (io_trail (fst (m w)))"
  shows "keeps (kept G t) m"
  unfolding keeps_def
proof (intro allI impI)
  fix w assume w: "kept G t w"
  then show "kept G t (fst (m w))"
    unfolding kept_def assms(1) every_def using sound_mono [OF _ assms(2) order_refl] by blast
qed

named_theorems keep_ops \<open>operations of the storage that keep its state sound\<close>

lemma keep_resolver [keep_ops]: "keeps (kept G t) (on_resolver m)"
  by (rule keep_same) (simp_all add: on_resolver_def split: prod.splits)

lemma keep_documents [keep_ops]: "keeps (kept G t) (on_documents m)"
  by (rule keep_same) (simp_all add: on_documents_def split: prod.splits)

lemma keep_exchange [keep_ops]: "keeps (kept G t) (on_exchange m)"
  by (rule keep_same) (simp_all add: on_exchange_def split: prod.splits)

lemma keep_mark [keep_ops]: "keeps (kept G t) (mark i)"
  by (rule keep_same) (simp_all add: mark_def)

lemma keep_event [keep_ops]: "keeps (kept G t) (record_event ev)"
  by (rule keep_same) (auto simp: record_event_def)

lemma keep_durable [keep_ops]: "keeps (kept G t) (recordDurable k ev)"
  by (rule keep_same) (auto simp: recordDurable_def)

lemma keep_ignoring [keep_ops]: "keeps I m \<Longrightarrow> keeps I (ignoring m)"
  by (simp add: keeps_def ignoring_def)

lemmas keep_rules = keeps_bnd_all keep_on_store keep_ignoring kept_ops keeps_map_err every_get every_delete

lemma write_lasts: "CheckWrite (tokenKey i) x ttl = None \<Longrightarrow> 0 < ttl"
  by (auto simp: CheckWrite_def err_simps Permanent_def permanent_def has_prefix_def tokenKey_def take_Cons')

lemma save_token_keeps [keep_ops]:
  assumes "storage_over G port_state" and "now k = t"
  shows "keeps (kept G t) (save_token G k u)"
proof -
  obtain c where c: "sg_get_token G (sg_put_token G u) = Some (u\<lparr>tk_Claims := c\<rparr>)" using over_facts(7) [OF assms(1)] by blast
  show ?thesis
    unfolding save_token_def save_json_def over_facts(1) [OF assms(1)]
    by (auto simp: sound_def token_sound_def ending_def c assms(2) dest!: write_lasts intro!: keep_on_store keeps_map_err every_set)
qed

lemma resolveSubject_keeps [keep_ops]: "keeps (kept G t) (resolveSubject H k subject)"
  by (rule keep_same) (simp_all add: resolveSubject_def ret_def on_resolver_def split: option.splits prod.splits)

lemma identityOf_keeps [keep_ops]: "keeps (kept G t) (identityOf H k subject)"
  unfolding identityOf_def by (auto intro!: keep_rules keep_ops split: prod.splits)

lemma namesOf_keeps [keep_ops]: "keeps (kept G t) (namesOf H k subject)"
  by (rule keep_same) (simp_all add: namesOf_def on_resolver_def split: prod.splits sum.splits)

lemma entitled_keeps [keep_ops]: "keeps (kept G t) (entitled H k c r subject)"
  unfolding entitled_def by (auto intro!: keep_rules keep_ops split: option.splits sum.splits prod.splits)

lemma claimsFor_keeps [keep_ops]: "keeps (kept G t) (claimsFor H k rq)"
  unfolding claimsFor_def by (auto intro!: keep_rules keep_ops split: TokenRequest.splits option.splits prod.splits)

lemma issue_keeps [keep_ops]: "storage_over G port_state \<Longrightarrow> now k = t \<Longrightarrow> keeps (kept G t) (issue G k i rq)"
  unfolding issue_def Let_def by (auto intro!: keep_rules keep_ops split: prod.splits)

lemma load_request_keeps [keep_ops]: "storage_over G port_state \<Longrightarrow> keeps (kept G t) (load_request G i)"
  unfolding load_request_def by (auto simp: over_facts intro!: keep_rules split: option.splits)

lemma tokens_keep:
  "storage_over G port_state \<Longrightarrow> now k = t \<Longrightarrow> keeps (kept G t) (CreateAccessAndRefreshTokens G k d rq cur)"
  unfolding CreateAccessAndRefreshTokens_def
  by (auto simp: over_facts intro!: keep_rules keep_ops every_set split: option.splits TokenRequest.splits prod.splits)

lemma access_token_keeps: "storage_over G port_state \<Longrightarrow> now k = t \<Longrightarrow> keeps (kept G t) (CreateAccessToken G k i rq)"
  unfolding CreateAccessToken_def by (auto intro!: keep_rules keep_ops)

lemma revoke_code_keeps [keep_ops]: "storage_over G port_state \<Longrightarrow> keeps (kept G t) (revokeCodeSession G k i)"
  unfolding revokeCodeSession_def by (auto simp: over_facts intro!: keep_rules split: option.splits)

lemma keeps_handled:
  assumes "keeps I m" and "\<And>e. keeps I (h e)" and "\<And>x. keeps I (f x)"
  shows "keeps I (\<lambda>w. case m w of (w', Inl e) \<Rightarrow> h e w' | (w', Inr x) \<Rightarrow> f x w')"
  using assms by (fastforce simp: keeps_def split: prod.splits sum.splits)

lemma by_code_keeps: "storage_over G port_state \<Longrightarrow> keeps (kept G t) (AuthRequestByCode G k code)"
proof -
  assume G: "storage_over G port_state"
  have "keeps (kept G t) (\<lambda>w. case load_request G rq w of
      (w', Inl e) \<Rightarrow> bnd (revokeCodeSession G k rq) (\<lambda>_. raise e) w' | (w', Inr a) \<Rightarrow> (w', Inr a))" for rq
  proof (rule keeps_handled [of _ _ _ "\<lambda>a w. (w, Inr a)"])
    show "keeps (kept G t) (\<lambda>w. (w, Inr a))" for a :: authRequest by (simp add: keeps_def)
  qed (auto intro!: keep_ops keep_rules G)
  then show ?thesis
    unfolding AuthRequestByCode_def using G
    by (auto simp: over_facts intro!: keep_rules split: option.splits)
qed

lemma save_code_keeps: "storage_over G port_state \<Longrightarrow> keeps (kept G t) (SaveAuthCode G i code)"
  unfolding SaveAuthCode_def by (auto simp: over_facts intro!: keep_rules keep_ops every_set)

lemma delete_request_keeps: "storage_over G port_state \<Longrightarrow> keeps (kept G t) (DeleteAuthRequest G i)"
  unfolding DeleteAuthRequest_def by (auto simp: over_facts intro!: keep_rules)

lemma refuse_keeps [keep_ops]: "storage_over G port_state \<Longrightarrow> keeps (kept G t) (refuseAtAbsoluteLimit G x)"
  unfolding refuseAtAbsoluteLimit_def by (auto intro!: keep_rules keep_ops)

lemma revoke_token_keeps: "storage_over G port_state \<Longrightarrow> keeps (kept G t) (Storage_RevokeToken G k tok)"
  unfolding Storage_RevokeToken_def by (auto simp: over_facts intro!: keep_rules)

lemma userinfo_token_keeps: "storage_over G port_state \<Longrightarrow> keeps (kept G t) (SetUserinfoFromToken G k i)"
  unfolding SetUserinfoFromToken_def by (auto simp: over_facts intro!: keep_rules split: option.splits)

lemma userinfo_request_keeps: "storage_over G port_state \<Longrightarrow> keeps (kept G t) (SetUserinfoFromRequest G k rq)"
  unfolding SetUserinfoFromRequest_def Let_def by (auto intro!: keep_rules keep_ops split: prod.splits)

lemma signInProof_keeps [keep_ops]: "storage_over G port_state \<Longrightarrow> keeps (kept G t) (signInProof G k p)"
  unfolding signInProof_def by (auto simp: over_facts intro!: keep_rules split: option.splits)

lemma exchange_keeps: "storage_over G port_state \<Longrightarrow> keeps (kept G t) (ValidateTokenExchangeRequest G k p e)"
  unfolding ValidateTokenExchangeRequest_def proofOf_def
  by (auto intro!: keep_rules keep_ops split: option.splits list.splits)

lemma refresh_keeps:
  assumes "storage_over G port_state"
  shows "keeps (kept G t) (TokenRequestByRefreshToken G k tok)"
proof -
  have gone: "keeps (kept G t) (\<lambda>w. case on_store (endedByAbsoluteLimit (sg_sessions G) (now k) tok) w of
      (w', Inl e) \<Rightarrow> raise InvalidRefreshToken w'
    | (w', Inr x) \<Rightarrow> (case x of Some ended \<Rightarrow> refuseAtAbsoluteLimit G ended | None \<Rightarrow> raise InvalidRefreshToken) w')"
    using assms by (intro keeps_handled) (auto intro!: keep_rules keep_ops split: option.splits)
  have found: "keeps (kept G t) (\<lambda>w. case entitled G k c r i w of
      (w', Inl e) \<Rightarrow> (if e = NotEntitled then bnd (record_event ev) (\<lambda>_. raise f) else raise e) w'
    | (w', Inr _) \<Rightarrow> ret y w')" for c r i ev f and y :: TokenRequest
    by (rule keeps_handled) (auto intro!: keep_rules keep_ops)
  have rewrite: "TokenRequestByRefreshToken G k tok =
     bnd (on_store (ByRefreshToken (sg_sessions G) (now k) tok)) (\<lambda>found.
       case found of
         None \<Rightarrow> (\<lambda>w. case on_store (endedByAbsoluteLimit (sg_sessions G) (now k) tok) w of
              (w', Inl e) \<Rightarrow> raise InvalidRefreshToken w'
            | (w', Inr x) \<Rightarrow> (case x of Some ended \<Rightarrow> refuseAtAbsoluteLimit G ended | None \<Rightarrow> raise InvalidRefreshToken) w')
       | Some x \<Rightarrow>
           (if pastLimit (sg_sessions G) (now k) x then refuseAtAbsoluteLimit G x
            else (\<lambda>w. case entitled G k (ses_ClientID x) (ses_Resource x) (ses_Identity x) w of
                (w', Inl e) \<Rightarrow> (if e = NotEntitled
                   then bnd (record_event (RefreshRefused (ses_Identity x) (ses_ClientID x))) (\<lambda>_.
                          raise (InvalidGrant ''this identity is not admitted to this client'')) else raise e) w'
              | (w', Inr _) \<Rightarrow> ret (RefreshRequest x None) w')))"
    unfolding TokenRequestByRefreshToken_def
    by (rule arg_cong2 [where f = bnd, OF refl])
      (auto simp: fun_eq_iff ret_def raise_def split: option.splits prod.splits sum.splits)
  show ?thesis unfolding rewrite using assms gone found
    by (auto intro!: keep_rules keep_ops split: option.splits)
qed

text \<open>Completing a login: a recovery is in the trail before the request is done.\<close>

lemma save_request_keeps:
  assumes "storage_over G port_state" and "kept G t w" and "request_sound G (set (io_trail w)) i (sg_put_request G a)"
  shows "kept G t (fst (save_request G i a w))"
proof -
  let ?T = "set (io_trail w)"
  obtain s' r where m: "st (ls_Set port_state (requestKey i) (sg_put_request G a) authRequestTTL) (io_store w) = (s', r)"
    by (cases "st (ls_Set port_state (requestKey i) (sg_put_request G a) authRequestTTL) (io_store w)")
  have "keeps (sound_store G ?T t) (st (ls_Set port_state (requestKey i) (sg_put_request G a) authRequestTTL))"
    by (rule keeps_map_err, rule every_set) (use assms(3) in \<open>simp add: sound_def\<close>)
  from keepsD [OF this assms(2) [unfolded kept_def] m] have "sound_store G ?T t s'" .
  then show ?thesis
    using m by (simp add: save_request_def save_json_def on_store_def kept_def over_facts(1) [OF assms(1)])
qed

lemma load_request_law:
  assumes "storage_over G port_state" and "kept G t w" and "load_request G i w = (w', Inr a)"
  shows "ar_ID a = i \<and> store_view (io_store w') = store_view (io_store w) \<and> io_trail w' = io_trail w
    \<and> request_sound G (set (io_trail w)) i (sg_put_request G a)
    \<and> stored (store_view (io_store w)) (sg_get_request G) (requestKey i) = Inr (Some a)"
proof -
  obtain s' where l: "load_json port_state (sg_get_request G) (requestKey i) (io_store w) = (s', Inr (Some a))"
      and w': "w' = w\<lparr>io_store := s'\<rparr>"
    using assms(3) by (auto simp: load_request_def op_simps over_facts(1) [OF assms(1)] split: option.splits)
  have good: "store_good (io_store w)" using assms(2) by (simp add: kept_def every_def)
  note law = ps.load_law [OF good l]
  then obtain raw e where raw: "vw_val (store_view (io_store w)) (requestKey i) = Some (raw, e)" "sg_get_request G raw = Some a"
    by (auto simp: stored_def split: option.splits)
  have "request_sound G (set (io_trail w)) i raw"
    using everyD [OF assms(2) [unfolded kept_def] raw(1)] by (simp add: sound_def)
  then show ?thesis using raw law w' over_facts(8) [OF assms(1), of a] by (auto simp: request_sound_def)
qed

text \<open>What is left of \<open>Complete\<close> once the request is loaded and the person is entitled.\<close>

lemma Complete_keeps:
  assumes "storage_over G port_state"
  shows "keeps (kept G t) (Complete G k i who)"
  unfolding Complete_def
proof (rule keeps_bnd)
  show "keeps (kept G t) (load_request G i)" using assms by (rule load_request_keeps)
  fix a w w1 assume w: "kept G t w" and l: "load_request G i w = (w1, Inr a)"
  have w1: "kept G t w1" by (rule keepsD [OF load_request_keeps [OF assms] w l])
  note a = load_request_law [OF assms w l]
  obtain w2 r where e: "entitled G k (ar_ClientID a) (ar_Resource a) (wh_Subject who) w1 = (w2, r)"
    by (cases "entitled G k (ar_ClientID a) (ar_Resource a) (wh_Subject who) w1")
  have w2: "kept G t w2" by (rule keepsD [OF entitled_keeps w1 e])
  let ?ev = "signInEvent who (ar_ClientID a) True"
  have event: "kept G t u \<Longrightarrow> kept G t (fst (record_event ev u))" for u ev
    using keep_event by (simp add: keeps_def)
  have saved: "kept G t (fst (case save_request G i (completed k who a) u of
        (w2, Inl e) \<Rightarrow> (if wh_How who = RecoveryHow
             then bnd (record_event (signInEvent who (ar_ClientID a) False)) (\<lambda>_. raise e) w2 else (w2, Inl e))
      | (w2, Inr _) \<Rightarrow> (if wh_How who = RecoveryHow then (w2, Inr ()) else record_event ?ev w2)))"
    if u: "kept G t u" and trail: "wh_How who = RecoveryHow \<Longrightarrow> ?ev \<in> set (io_trail u)" for u
  proof -
    have "request_sound G (set (io_trail u)) i (sg_put_request G (completed k who a))"
      using a trail by (auto simp: request_sound_def over_facts(8) [OF assms] completed_def signInEvent_def)
    from save_request_keeps [OF assms u this] have "kept G t (fst (save_request G i (completed k who a) u))" .
    then show ?thesis
      using event by (auto simp: bnd_def record_event_def raise_def split: prod.splits sum.splits)
  qed
  show "kept G t (fst (case entitled G k (ar_ClientID a) (ar_Resource a) (wh_Subject who) w1 of
         (w', Inl e) \<Rightarrow>
           (if e = NotEntitled then bnd (record_event (signInEvent who (ar_ClientID a) False)) (\<lambda>_. raise e) w' else (w', Inl e))
       | (w', Inr _) \<Rightarrow>
           bnd (if wh_How who = RecoveryHow then recordDurable k ?ev else ret True) (\<lambda>kept.
             if \<not> kept then bnd (record_event (signInEvent who (ar_ClientID a) False)) (\<lambda>_. raise Unaudited)
             else (\<lambda>w. case save_request G i (completed k who a) w of
                 (w2, Inl e) \<Rightarrow>
                   (if wh_How who = RecoveryHow
                    then bnd (record_event (signInEvent who (ar_ClientID a) False)) (\<lambda>_. raise e) w2 else (w2, Inl e))
               | (w2, Inr _) \<Rightarrow>
                   (if wh_How who = RecoveryHow then (w2, Inr ())
                    else record_event ?ev w2))) w'))"
  proof (cases r)
    case (Inl err)
    then show ?thesis using e w2 event by (simp add: bnd_def record_event_def raise_def)
  next
    case (Inr x)
    consider "wh_How who \<noteq> RecoveryHow" | "wh_How who = RecoveryHow" "durable k" | "wh_How who = RecoveryHow" "\<not> durable k" by blast
    then show ?thesis
    proof cases
      case 1
      then show ?thesis using e Inr saved [OF w2] by (simp add: bnd_def ret_def)
    next
      case 2
      then show ?thesis using e Inr saved [of "fst (record_event ?ev w2)"] event [OF w2, of ?ev]
        by (simp add: bnd_def recordDurable_def record_event_def)
    next
      case 3
      then show ?thesis using e Inr event [OF w2] by (simp add: bnd_def recordDurable_def record_event_def raise_def)
    qed
  qed
qed

lemma create_request_keeps:
  assumes "storage_over G port_state"
  shows "keeps (kept G t) (CreateAuthRequest G k i rq subject resource)"
  unfolding CreateAuthRequest_def Let_def
proof (rule keeps_bnd_all)
  let ?a = "rq\<lparr>ar_ID := i, ar_Subject := subject, ar_AuthTime := Some (now k), ar_IsDone := False, ar_How := [],
                 ar_Resource := resource, ar_SSO := [], ar_Session := []\<rparr>"
  have "request_sound G T i (sg_put_request G ?a)" for T
    by (simp add: request_sound_def over_facts(8) [OF assms])
  then show "keeps (kept G t) (save_request G i ?a)"
    using save_request_keeps [OF assms] by (simp add: keeps_def)
qed auto

section \<open>Any sequence of operations\<close>

text \<open>Each operation runs at the instant of the store; a rotation may write long after it read its session.\<close>

inductive issuing_step :: "Store Storage \<Rightarrow> Store Issuing \<Rightarrow> Store Issuing \<Rightarrow> bool" for G w where
  is_create: "CreateAuthRequest G k i rq subject resource w = (w', made) \<Longrightarrow> issuing_step G w w'"
| is_complete: "Complete G k i who w = (w', end) \<Longrightarrow> issuing_step G w w'"
| is_code: "SaveAuthCode G i code w = (w', end) \<Longrightarrow> issuing_step G w w'"
| is_redeem: "AuthRequestByCode G k code w = (w', found) \<Longrightarrow> issuing_step G w w'"
| is_delete: "DeleteAuthRequest G i w = (w', end) \<Longrightarrow> issuing_step G w w'"
| is_token: "now k = st_now (io_store w) \<Longrightarrow> CreateAccessToken G k i rq w = (w', issued_token) \<Longrightarrow> issuing_step G w w'"
| is_tokens: "now k = st_now (io_store w) \<Longrightarrow> CreateAccessAndRefreshTokens G k d rq cur w = (w', toks) \<Longrightarrow> issuing_step G w w'"
| is_rotate: "on_store (rotate_session (sg_sessions G) (st_now (io_store w)) a b x) w = (w', r) \<Longrightarrow> issuing_step G w w'"
| is_refresh: "TokenRequestByRefreshToken G k tok w = (w', asked) \<Longrightarrow> issuing_step G w w'"
| is_revoke: "Storage_RevokeToken G k tok w = (w', end) \<Longrightarrow> issuing_step G w w'"
| is_end_session: "on_store (RevokeID (sg_sessions G) t sid) w = (w', gone) \<Longrightarrow> issuing_step G w w'"
| is_info: "SetUserinfoFromToken G k i w = (w', info) \<Longrightarrow> issuing_step G w w'"
| is_claims: "SetUserinfoFromRequest G k rq w = (w', info) \<Longrightarrow> issuing_step G w w'"
| is_exchange: "ValidateTokenExchangeRequest G k p e w = (w', x) \<Longrightarrow> issuing_step G w w'"
| is_wait: "0 \<le> d \<Longrightarrow> issuing_step G w (w\<lparr>io_store := Store_Advance d (io_store w)\<rparr>)"

inductive issuing_run :: "Store Storage \<Rightarrow> Store Issuing \<Rightarrow> Store Issuing \<Rightarrow> bool" for G w where
  issuing_start: "issuing_run G w w"
| issuing_next: "issuing_run G w w1 \<Longrightarrow> issuing_step G w1 w2 \<Longrightarrow> issuing_run G w w2"

abbreviation issuing_inv :: "Store Storage \<Rightarrow> Store Issuing \<Rightarrow> bool" where
  "issuing_inv G w \<equiv> kept G (st_now (io_store w)) w"

lemma kept_inv: "kept G t w \<Longrightarrow> issuing_inv G w"
  by (simp add: kept_def every_def)

lemma step_by: "keeps (kept G (st_now (io_store w))) m \<Longrightarrow> issuing_inv G w \<Longrightarrow> m w = (w', r) \<Longrightarrow> issuing_inv G w'"
  by (rule kept_inv) (rule keepsD)

lemma wait_keeps:
  assumes "issuing_inv G w" and "0 \<le> d"
  shows "issuing_inv G (w\<lparr>io_store := Store_Advance d (io_store w)\<rparr>)"
proof -
  let ?s = "io_store w" and ?s' = "Store_Advance d (io_store w)"
  have good: "store_good ?s" using assms(1) by (simp add: kept_def every_def)
  note law = ps.wait_law [OF good assms(2)]
  have t: "st_now ?s' = st_now ?s + d" using law by (simp add: view_later_def flip: port_now)
  have "sound G (set (io_trail w)) (st_now ?s') k x e" if "vw_val (store_view ?s') k = Some (x, e)" for k x e
  proof -
    have "vw_val (store_view ?s) k = Some (x, e)"
      using that law by (auto simp: view_later_def split: option.splits if_splits)
    from everyD [OF assms(1) [unfolded kept_def] this] show ?thesis
      by (rule sound_mono) (use t assms(2) in simp_all)
  qed
  then show ?thesis using law by (simp add: kept_def every_def)
qed

lemma issuing_step_keeps:
  assumes "storage_over G port_state" and "issuing_step G w w'" and "issuing_inv G w"
  shows "issuing_inv G w'"
  using assms(2)
proof cases
  case is_create
  then show ?thesis by (rule step_by [OF create_request_keeps [OF assms(1)] assms(3)])
next
  case is_complete
  then show ?thesis by (rule step_by [OF Complete_keeps [OF assms(1)] assms(3)])
next
  case is_code
  then show ?thesis by (rule step_by [OF save_code_keeps [OF assms(1)] assms(3)])
next
  case is_redeem
  then show ?thesis by (rule step_by [OF by_code_keeps [OF assms(1)] assms(3)])
next
  case is_delete
  then show ?thesis by (rule step_by [OF delete_request_keeps [OF assms(1)] assms(3)])
next
  case is_token
  then show ?thesis using step_by [OF access_token_keeps [OF assms(1)] assms(3)] by blast
next
  case is_tokens
  then show ?thesis using step_by [OF tokens_keep [OF assms(1)] assms(3)] by blast
next
  case is_rotate
  then show ?thesis by (rule step_by [OF keep_on_store [OF kept_rotate [OF assms(1)]] assms(3)])
next
  case is_refresh
  then show ?thesis by (rule step_by [OF refresh_keeps [OF assms(1)] assms(3)])
next
  case is_revoke
  then show ?thesis by (rule step_by [OF revoke_token_keeps [OF assms(1)] assms(3)])
next
  case is_end_session
  then show ?thesis by (rule step_by [OF keep_on_store [OF kept_RevokeID [OF assms(1)]] assms(3)])
next
  case is_info
  then show ?thesis by (rule step_by [OF userinfo_token_keeps [OF assms(1)] assms(3)])
next
  case is_claims
  then show ?thesis by (rule step_by [OF userinfo_request_keeps [OF assms(1)] assms(3)])
next
  case is_exchange
  then show ?thesis by (rule step_by [OF exchange_keeps [OF assms(1)] assms(3)])
next
  case is_wait
  then show ?thesis using wait_keeps [OF assms(3)] by simp
qed

lemma issuing_run_keeps:
  "issuing_run G w w' \<Longrightarrow> storage_over G port_state \<Longrightarrow> issuing_inv G w \<Longrightarrow> issuing_inv G w'"
  by (induction rule: issuing_run.induct) (use issuing_step_keeps in blast)+

definition issuing_new :: "int \<Rightarrow> Store Issuing" where
  "issuing_new t = \<lparr>io_store = Store_New t, io_resolver = NewResolver DefaultHoldWindow, io_documents = [], io_trail = [], io_carrier = None\<rparr>"

lemma issuing_new_sound: "issuing_inv G (issuing_new t)"
  using port_start(1) [of t]
  by (simp add: kept_def issuing_new_def every_def store_view_def liveEntry_def Store_New_def)

lemma issuing_reached: "storage_over G port_state \<Longrightarrow> issuing_run G (issuing_new t) w \<Longrightarrow> issuing_inv G w"
  by (rule issuing_run_keeps [OF _ _ issuing_new_sound])

end
