(* ===== verification/Token_Text.thy ===== *)
theory Token_Text
  imports Issuer_Storage Session_Properties
begin

text \<open>
  A text form for claims, access tokens and authorization requests, to run the storage of the issuer with. The
  storage leaves the JSON form of its records as a parameter and asks only that it is read back; a request is stored without the session it opened.
\<close>

section \<open>Claims\<close>

fun flat :: "(string \<times> string) list \<Rightarrow> string list" where
  "flat [] = []"
| "flat ((k, v) # m) = k # v # flat m"

fun unflat :: "string list \<Rightarrow> (string \<times> string) list" where
  "unflat (k # v # fs) = (k, v) # unflat fs"
| "unflat _ = []"

primrec claim_text :: "claim \<Rightarrow> string" where
  "claim_text VNull = Record_Text.dotted [''n'']"
| "claim_text (VBool b) = Record_Text.dotted [''b'', if b then ''t'' else ''f'']"
| "claim_text (VInt i) = Record_Text.dotted [''i'', int_text i]"
| "claim_text (VFloat s) = Record_Text.dotted [''f'', s]"
| "claim_text (VStr s) = Record_Text.dotted [''s'', s]"
| "claim_text (VList vs) = Record_Text.dotted (''l'' # map claim_text vs)"
| "claim_text (VMap kvs) = Record_Text.dotted (''m'' # flat (map (map_prod id claim_text) kvs))"

definition text_leaf :: "string \<Rightarrow> string list \<Rightarrow> claim option" where
  "text_leaf tag fs =
     (case fs of
        [] \<Rightarrow> (if tag = ''n'' then Some VNull else None)
      | f # _ \<Rightarrow>
          (if tag = ''b'' then Some (VBool (f = ''t''))
           else if tag = ''i'' then map_option VInt (text_int f)
           else if tag = ''f'' then Some (VFloat f)
           else if tag = ''s'' then Some (VStr f) else None))"

fun text_claim :: "nat \<Rightarrow> string \<Rightarrow> claim option" where
  "text_claim 0 s = None"
| "text_claim (Suc n) s =
     (case undotted s of
        Some (tag # fs) \<Rightarrow>
          (if tag = ''l'' then map_option VList (all_some (map (text_claim n) fs))
           else if tag = ''m'' then map_option VMap (all_some (map (\<lambda>(k, v). map_option (Pair k) (text_claim n v)) (unflat fs)))
           else text_leaf tag fs)
      | _ \<Rightarrow> None)"

lemma unflat_flat: "unflat (flat m) = m"
  by (induction m rule: flat.induct) simp_all

lemma all_some_Some: "(\<And>x. x \<in> set xs \<Longrightarrow> f x = Some (g x)) \<Longrightarrow> all_some (map f xs) = Some (map g xs)"
  using all_some_map_Some [of "map g xs"] by (simp cong: map_cong)

lemma vdepth_list: "v \<in> set vs \<Longrightarrow> vdepth v < vdepth (VList vs)"
  using fold_max_ge [of "vdepth v" "map vdepth vs" 0] by (simp add: less_Suc_eq_le)

lemma vdepth_map: "(k, v) \<in> set kvs \<Longrightarrow> vdepth v < vdepth (VMap kvs)"
  using fold_max_ge [of "vdepth v" "map snd (map (map_prod id vdepth) kvs)" 0] by (force simp: less_Suc_eq_le)

lemma claim_text_read: "vdepth c < n \<Longrightarrow> text_claim n (claim_text c) = Some c"
proof (induction n arbitrary: c)
  case (Suc n)
  show ?case
  proof (cases c)
    case (VList vs)
    have "text_claim n (claim_text v) = Some v" if "v \<in> set vs" for v
      using Suc vdepth_list [OF that] VList by simp
    then have "all_some (map (text_claim n \<circ> claim_text) vs) = Some (map id vs)" by (intro all_some_Some) simp
    then show ?thesis using VList by (simp add: undotted_dotted)
  next
    case (VMap kvs)
    have "text_claim n (claim_text v) = Some v" if "(k, v) \<in> set kvs" for k v
      using Suc vdepth_map [OF that] VMap by simp
    then have "all_some (map ((\<lambda>(k, v). map_option (Pair k) (text_claim n v)) \<circ> map_prod id claim_text) kvs) = Some (map id kvs)"
      by (intro all_some_Some) auto
    then show ?thesis using VMap by (simp add: undotted_dotted unflat_flat)
  qed (simp_all add: undotted_dotted text_leaf_def int_text_read)
qed simp

text \<open>A fragment carries its own depth.\<close>

definition fragment_text :: "fragment \<Rightarrow> string" where
  "fragment_text m = Record_Text.dotted [int_text (int (Suc (vdepth (VMap m)))), claim_text (VMap m)]"

definition text_fragment :: "string \<Rightarrow> fragment option" where
  "text_fragment s =
     (case undotted s of
        Some [d, c] \<Rightarrow>
          (case text_int d of
             None \<Rightarrow> None
           | Some n \<Rightarrow> (case text_claim (nat n) c of Some (VMap m) \<Rightarrow> Some m | _ \<Rightarrow> None))
      | _ \<Rightarrow> None)"

lemma fragment_text_read: "text_fragment (fragment_text m) = Some m"
  using claim_text_read [of "VMap m" "Suc (vdepth (VMap m))"]
  by (simp add: text_fragment_def fragment_text_def undotted_dotted int_text_read nat_add_distrib del: vdepth.simps claim_text.simps text_claim.simps)

section \<open>Access tokens and authorization requests\<close>

definition list_text :: "string list \<Rightarrow> string" where
  "list_text xs = Record_Text.dotted (''l'' # xs)"

definition text_list :: "string \<Rightarrow> string list" where
  "text_list s = (case undotted s of Some (_ # xs) \<Rightarrow> xs | _ \<Rightarrow> [])"

lemma list_text_read: "text_list (list_text xs) = xs"
  by (simp add: text_list_def list_text_def undotted_dotted)

definition token_text :: "AccessToken \<Rightarrow> string" where
  "token_text t = Record_Text.dotted [tk_ID t, tk_Subject t, tk_ClientID t, list_text (tk_Audience t), list_text (tk_Scopes t),
     fragment_text (tk_Claims t), int_text (tk_Expires t), tk_GivenName t, tk_FamilyName t, tk_Session t]"

definition text_token :: "string \<Rightarrow> AccessToken option" where
  "text_token s =
     (case undotted s of
        Some [i, sub, cl, au, sc, fr, ex, gi, fa, se] \<Rightarrow>
          (case (text_fragment fr, text_int ex) of
             (Some m, Some e) \<Rightarrow> Some \<lparr>tk_ID = i, tk_Subject = sub, tk_ClientID = cl, tk_Audience = text_list au,
               tk_Scopes = text_list sc, tk_Claims = m, tk_Expires = e, tk_GivenName = gi, tk_FamilyName = fa, tk_Session = se\<rparr>
           | _ \<Rightarrow> None)
      | _ \<Rightarrow> None)"

lemma token_text_read: "text_token (token_text t) = Some t"
  by (simp add: text_token_def token_text_def undotted_dotted fragment_text_read int_text_read list_text_read)

definition request_text :: "authRequest \<Rightarrow> string" where
  "request_text a = Record_Text.dotted [ar_ID a, ar_ClientID a, list_text (ar_Scopes a), ar_RedirectURI a, ar_State a, list_text (ar_Prompt a),
     time_text (ar_MaxAge a), ar_Subject a, time_text (ar_AuthTime a), if ar_IsDone a then ''t'' else ''f'', ar_How a, ar_Resource a,
     ar_SSO a]"

definition text_request :: "string \<Rightarrow> authRequest option" where
  "text_request s =
     (case undotted s of
        Some [i, cl, sc, re, sa, pr, ma, sub, au, dn, ho, rs, so] \<Rightarrow>
          Some \<lparr>ar_ID = i, ar_ClientID = cl, ar_Scopes = text_list sc, ar_RedirectURI = re, ar_State = sa, ar_Prompt = text_list pr,
            ar_MaxAge = text_int ma, ar_Subject = sub, ar_AuthTime = text_int au, ar_IsDone = (dn = ''t''), ar_How = ho, ar_Resource = rs,
            ar_SSO = so, ar_Session = []\<rparr>
      | _ \<Rightarrow> None)"

lemma request_text_read: "text_request (request_text a) = Some (a\<lparr>ar_Session := []\<rparr>)"
  by (simp add: text_request_def request_text_def undotted_dotted list_text_read time_text_read)

end
