(* ===== verification/Issuing_Properties.thy ===== *)
theory Issuing_Properties
  imports Issuing Token_Text Policy_Properties
begin

text \<open>
  What the issuer promises of its tokens, from the storage and everything below it: a code opens one session,
  an access token lives within every bound set on it, a refresh is answered only while the session lives and the
  person may still use the client, a revoked token tells nobody anything, a recovery leaves a trace.
\<close>

section \<open>What the operations do to the store\<close>

lemma inv_good: "issuing_inv G w \<Longrightarrow> store_good (io_store w)"
  by (simp add: kept_def every_def)

lemma inv_sound: "issuing_inv G w \<Longrightarrow> vw_val (store_view (io_store w)) k = Some (x, e) \<Longrightarrow> sound G (set (io_trail w)) (st_now (io_store w)) k x e"
  unfolding kept_def by (rule everyD)

lemma inv_sessions: "issuing_inv G w \<Longrightarrow> sess_inv (sg_sessions G) (store_view (io_store w))"
  using inv_sound [of G w "sessionKey _"] unfolding sess_inv_def port_now
  by (fastforce simp: sound_def session_sound_def)

lemma keeps_eq: "(\<And>w. io_store (fst (m w)) = io_store w) \<Longrightarrow> keeps (\<lambda>w. io_store w = s) m"
  by (simp add: keeps_def)

lemma apart_ops [keep_ops]:
  "keeps (\<lambda>w. io_store w = s) (on_resolver m)" "keeps (\<lambda>w. io_store w = s) (on_documents n)"
  "keeps (\<lambda>w. io_store w = s) (mark i)" "keeps (\<lambda>w. io_store w = s) (record_event ev)"
  "keeps (\<lambda>w. io_store w = s) (namesOf G k subject)" "keeps (\<lambda>w. io_store w = s) (resolveSubject G k subject)"
  by (rule keeps_eq; simp add: on_resolver_def on_documents_def mark_def record_event_def namesOf_def resolveSubject_def ret_def
      split: prod.splits sum.splits option.splits)+

lemma claimsFor_apart: "keeps (\<lambda>w. io_store w = s) (claimsFor G k rq)"
  unfolding claimsFor_def identityOf_def
  by (auto intro!: keeps_bnd_all keep_ops split: TokenRequest.splits option.splits prod.splits)

lemma entitled_apart: "keeps (\<lambda>w. io_store w = s) (entitled G k c r subject)"
  unfolding entitled_def
  by (auto intro!: keeps_bnd_all keep_ops split: option.splits sum.splits prod.splits)

lemma save_token_law:
  assumes "storage_over G port_state" and "store_good (io_store w)" and "now k = st_now (io_store w)"
    and "save_token G k t w = (w', Inr u)"
  shows "now k < tk_Expires t \<and> store_good (io_store w') \<and> st_now (io_store w') = now k
    \<and> vw_val (store_view (io_store w')) = (vw_val (store_view (io_store w)))
        (tokenKey (tk_ID t) \<mapsto> (sg_put_token G t, Some (tk_Expires t)))"
proof -
  let ?ttl = "tk_Expires t - now k"
  obtain s' where s: "ls_Set port_state (tokenKey (tk_ID t)) (sg_put_token G t) ?ttl (io_store w) = (s', Inr u)" "w' = w\<lparr>io_store := s'\<rparr>"
    using assms(4) by (auto simp: save_token_def save_json_def op_simps over_facts(1) [OF assms(1)])
  have "0 < ?ttl" by (rule write_lasts [OF port_set_Inr [OF s(1)]])
  then show ?thesis using ps.set_law [OF assms(2) s(1)] s(2) assms(3) by (auto simp: ending_def simp flip: port_now)
qed

lemma issue_law:
  assumes "storage_over G port_state" and "store_good (io_store w)" and "now k = st_now (io_store w)"
    and "issue G k i rq w = (w', Inr t)"
  shows "tk_ID t = i \<and> tk_Subject t = GetSubject rq \<and> tk_ClientID t = clientOf rq \<and> tk_Audience t = GetAudience rq
    \<and> tk_Expires t = token_expiry G k rq \<and> now k < tk_Expires t \<and> store_good (io_store w') \<and> st_now (io_store w') = now k
    \<and> vw_val (store_view (io_store w')) = (vw_val (store_view (io_store w)))(tokenKey i \<mapsto> (sg_put_token G t, Some (tk_Expires t)))"
proof -
  obtain w1 claims held given family w2 u where m: "mark (accessAudienceOf rq) w = (w1, Inr ())"
      "claimsFor G k rq w1 = (w2, Inr (claims, held, given, family))"
      and sv: "save_token G k t w2 = (w', Inr u)"
      and t: "tk_ID t = i" "tk_Subject t = GetSubject rq" "tk_ClientID t = clientOf rq" "tk_Audience t = GetAudience rq"
        "tk_Expires t = token_expiry G k rq"
    using assms(4) by (auto simp: issue_def op_simps Let_def split: prod.splits)
  have "io_store w1 = io_store w" using m(1) by (auto simp: mark_def)
  then have st2: "io_store w2 = io_store w" using keepsD [OF claimsFor_apart _ m(2), of "io_store w"] by simp
  show ?thesis using save_token_law [OF assms(1) _ _ sv, unfolded st2, OF assms(2,3)] t by simp
qed

lemma Record_port:
  assumes "sessions_over S port_state" and "store_good s" and "Sessions.Record S t sid p s = (s', Inr x)"
  shows "store_good s' \<and> st_now s' = st_now s \<and> x = opened_session S t sid p
    \<and> vw_val (store_view s') = (vw_val (store_view s))
        (sessionKey sid \<mapsto> (ss_marshal S x, Some (st_now s + ss_lifetime S)),
         sessionTokenKey S (op_Token p) \<mapsto> (sid, Some (st_now s + ss_lifetime S)))"
  using ps.Record_law [OF assms(2,1,3)] by (simp add: port_now)

text \<open>The first tokens of a code: the access token, its session, and which session the code opened.\<close>

lemma first_tokens_law:
  assumes "storage_over G port_state" and "store_good (io_store w)" and "now k = st_now (io_store w)"
    and "CreateAccessAndRefreshTokens G k d (CodeRequest a) [] w = (w', Inr (tid, rt, expires, rq))"
    and "int (length (dr_session d)) \<le> MaxValue"
  shows "store_good (io_store w') \<and> st_now (io_store w') = now k \<and> tid = dr_token d \<and> rt = dr_refresh d
    \<and> rq = CodeRequest (a\<lparr>ar_Session := dr_session d\<rparr>)
    \<and> (\<forall>c. vw_val (store_view (io_store w')) (codeKey c) = vw_val (store_view (io_store w)) (codeKey c)
         \<and> vw_val (store_view (io_store w')) (requestKey c) = vw_val (store_view (io_store w)) (requestKey c))
    \<and> vw_val (store_view (io_store w')) (codeSessionKey (ar_ID a)) = Some (dr_session d, Some (now k + authCodeTTL))
    \<and> vw_val (store_view (io_store w')) (sessionTokenKey (sg_sessions G) rt) = Some (dr_session d, Some (now k + ss_lifetime (sg_sessions G)))"
proof -
  let ?S = "sg_sessions G" and ?rq = "CodeRequest a" and ?key = "codeSessionKey (ar_ID a)" and ?sid = "dr_session d"
  note over = over_facts(1-3) [OF assms(1)]
  obtain t w1 where i: "issue G k (dr_token d) ?rq w = (w1, Inr t)" and rest: "bnd (on_store (Sessions.Record ?S (now k) ?sid
        (opened_for (tk_Subject t) ?rq (dr_refresh d)))) (\<lambda>x. bnd (save_token G k (t\<lparr>tk_Session := ses_ID x\<rparr>)) (\<lambda>_.
          bnd (ignoring (on_store (st (ls_Set port_state ?key (ses_ID x) authCodeTTL)))) (\<lambda>_.
             ret (tk_ID t, dr_refresh d, tk_Expires t, CodeRequest (a\<lparr>ar_Session := ses_ID x\<rparr>))))) w1 = (w', Inr (tid, rt, expires, rq))"
    using assms(4) by (auto simp: CreateAccessAndRefreshTokens_def bnd_Inr over)
  note l1 = issue_law [OF assms(1,2,3) i]
  obtain w2 x where r: "on_store (Sessions.Record ?S (now k) ?sid (opened_for (tk_Subject t) ?rq (dr_refresh d))) w1 = (w2, Inr x)"
      and rest2: "bnd (save_token G k (t\<lparr>tk_Session := ses_ID x\<rparr>)) (\<lambda>_.
          bnd (ignoring (on_store (st (ls_Set port_state ?key (ses_ID x) authCodeTTL)))) (\<lambda>_.
             ret (tk_ID t, dr_refresh d, tk_Expires t, CodeRequest (a\<lparr>ar_Session := ses_ID x\<rparr>)))) w2 = (w', Inr (tid, rt, expires, rq))"
    using rest unfolding bnd_Inr by blast
  have r': "Sessions.Record ?S (now k) ?sid (opened_for (tk_Subject t) ?rq (dr_refresh d)) (io_store w1) = (io_store w2, Inr x)"
    using r by (auto simp: on_store_Inr)
  have good1: "store_good (io_store w1)" using l1 by blast
  note l2 = Record_port [OF over(2) good1 r']
  have x: "ses_ID x = ?sid" using l2 by (simp add: opened_session_def)
  obtain w3 u where sv: "save_token G k (t\<lparr>tk_Session := ?sid\<rparr>) w2 = (w3, Inr u)"
      and rest3: "bnd (ignoring (on_store (st (ls_Set port_state ?key ?sid authCodeTTL)))) (\<lambda>_.
             ret (tk_ID t, dr_refresh d, tk_Expires t, CodeRequest (a\<lparr>ar_Session := ?sid\<rparr>))) w3 = (w', Inr (tid, rt, expires, rq))"
    using rest2 unfolding bnd_Inr x by blast
  have good2: "store_good (io_store w2)" "now k = st_now (io_store w2)" using l1 l2 by auto
  note l3 = save_token_law [OF assms(1) good2 sv]
  have "CheckWrite ?key ?sid authCodeTTL = None"
    using assms(5) by (simp add: CheckWrite_def err_simps authCodeTTL_def)
  then obtain s' where s': "ls_Set port_state ?key ?sid authCodeTTL (io_store w3) = (s', Inr ())" using port_set by blast
  have good3: "store_good (io_store w3)" using l3 by blast
  note l4 = ps.set_law [OF good3 s']
  have w': "w' = w3\<lparr>io_store := s'\<rparr>" "tid = tk_ID t" "rt = dr_refresh d" "rq = CodeRequest (a\<lparr>ar_Session := ?sid\<rparr>)"
    using rest3 s' by (auto simp: bnd_def ignoring_def on_store_def map_err_def ret_def)
  have "st_now s' = now k" using l3 l4 by (simp flip: port_now)
  then show ?thesis using l1 l2 l3 l4 w' x by (simp add: opened_for_def ending_def authCodeTTL_def port_now)
qed

lemma read_id_live: "read_id S v t sid = Inr (Some x) \<Longrightarrow> t < ses_ExpiresAt x"
  by (cases "read_json S v (sessionKey sid)") (auto simp: read_id_def Live_def split: option.split_asm if_split_asm)

lemma get_port: "store_good s \<Longrightarrow> snd (ls_Get port_state k s) = Inr (map_option fst (vw_val (store_view s) k))"
  using ps.get_law [OF _ surjective_pairing, of s k] by blast

lemma by_token_port:
  "sessions_over S port_state \<Longrightarrow> store_good s \<Longrightarrow> snd (ByToken S t tok s) = read_token S (store_view s) t tok"
  using ps.ByToken_law [OF _ ps.over_state surjective_pairing, of s S t tok] by blast

text \<open>On this store nothing that ends a session can fail.\<close>

lemma each_remove_port: "\<exists>s'. each (\<lambda>key. st (ls_Remove port_state key m)) ks s = (s', Inr ())"
proof (induction ks arbitrary: s)
  case Nil
  then show ?case by (simp add: ret_def)
next
  case (Cons k ks)
  obtain s1 where "ls_Remove port_state k m s = (s1, Inr ())" using port_remove by blast
  then have "st (ls_Remove port_state k m) s = (s1, Inr ())" by (simp add: map_err_Inr)
  then show ?case using Cons.IH [of s1] by (simp add: bnd_def)
qed

lemma deleteSession_port:
  assumes "ss_state S = port_state"
  shows "\<exists>s'. deleteSession S x s = (s', Inr ())"
proof -
  obtain s1 where "ls_Delete port_state (sessionKey (ses_ID x)) s = (s1, Inr ())" using port_delete by blast
  then have "st (ls_Delete port_state (sessionKey (ses_ID x))) s = (s1, Inr ())" by (simp add: map_err_Inr)
  then show ?thesis
    using each_remove_port [of "ses_ID x" "session_sets x" s1] assms by (simp add: deleteSession_def bnd_def)
qed

lemma RevokeID_port:
  assumes "sessions_over S port_state" and "store_good s" and "sess_inv S (store_view s)"
  shows "\<exists>s' gone. RevokeID S t sid s = (s', Inr gone)"
proof -
  note over = ps.over_state [OF assms(1)]
  obtain s1 r where b: "byID S t sid s = (s1, r)" by (cases "byID S t sid s")
  have "\<exists>x. r = Inr x"
    using ps.byID_law [OF assms(2) over b] assms(3)
    by (fastforce simp: read_id_def read_json_def sess_inv_def split: option.splits)
  then obtain x where "r = Inr x" ..
  then show ?thesis
    using b deleteSession_port [OF over, of "the x" s1]
    by (cases x) (auto simp: RevokeID_def bnd_def ret_def)
qed

lemma redeemed_law:
  assumes "storage_over G port_state" and "issuing_inv G w" and "AuthRequestByCode G k code w = (w', Inr a)"
  shows "\<exists>e. vw_val (store_view (io_store w)) (codeKey code) = Some (ar_ID a, e)
    \<and> stored (store_view (io_store w)) (sg_get_request G) (requestKey (ar_ID a)) = Inr (Some a)
    \<and> store_view (io_store w') = store_view (io_store w) \<and> issuing_inv G w'"
proof -
  note good = inv_good [OF assms(2)]
  obtain w1 i where g: "on_store (st (ls_Get port_state (codeKey code))) w = (w1, Inr (Some i))"
      and h: "(case load_request G i w1 of (w', Inl e) \<Rightarrow> bnd (revokeCodeSession G k i) (\<lambda>_. raise e) w'
             | (w', Inr a) \<Rightarrow> (w', Inr a)) = (w', Inr a)"
    using assms(3) by (auto simp: AuthRequestByCode_def bnd_Inr raise_Inr over_facts(1) [OF assms(1)] split: option.splits)
  have l: "load_request G i w1 = (w', Inr a)"
    using h by (cases "load_request G i w1"; cases "snd (load_request G i w1)") (auto simp: bnd_Inr raise_Inr)
  have g': "st (ls_Get port_state (codeKey code)) (io_store w) = (io_store w1, Inr (Some i))" "io_trail w1 = io_trail w"
    using g by (auto simp: on_store_Inr)
  note lg = ps.st_get [OF good g'(1)]
  have inv1: "kept G (st_now (io_store w)) w1"
    by (rule keepsD [OF keep_on_store assms(2) g]) (auto intro: keeping)
  note ll = load_request_law [OF assms(1) inv1 l]
  have "issuing_inv G w'"
    by (rule step_by [OF by_code_keeps [OF assms(1)] assms(2,3)])
  then show ?thesis using lg ll by (cases "vw_val (store_view (io_store w)) (codeKey code)") auto
qed

text \<open>A code whose request is gone: refused, and the session it opened ends.\<close>

lemma replayed_code_law:
  assumes "storage_over G port_state" and "issuing_inv G w" and "AuthRequestByCode G k code w = (w', res)"
    and "vw_val (store_view (io_store w)) (codeKey code) = Some (i, e)"
    and "vw_val (store_view (io_store w)) (requestKey i) = None"
    and "vw_val (store_view (io_store w)) (codeSessionKey i) = Some (sid, e')"
  shows "res = Inl NoSuchRequest \<and> read_id (sg_sessions G) (store_view (io_store w')) (now k) sid = Inr None
    \<and> store_good (io_store w')
    \<and> (\<forall>tok. vw_val (store_view (io_store w')) (sessionTokenKey (sg_sessions G) tok) = vw_val (store_view (io_store w)) (sessionTokenKey (sg_sessions G) tok))"
proof -
  let ?S = "sg_sessions G"
  note good = inv_good [OF assms(2)] and inv = inv_sessions [OF assms(2)] and over = over_facts(1,2) [OF assms(1)]
  obtain s1 r1 where g: "st (ls_Get port_state (codeKey code)) (io_store w) = (s1, r1)" by (cases "st (ls_Get port_state (codeKey code)) (io_store w)")
  note l1 = ps.st_get [OF good g]
  obtain s2 r2 where j: "load_json port_state (sg_get_request G) (requestKey i) s1 = (s2, r2)"
    by (cases "load_json port_state (sg_get_request G) (requestKey i) s1")
  note l2 = ps.load_law [OF conjunct1 [OF l1] j]
  obtain s3 r3 where h: "st (ls_Get port_state (codeSessionKey i)) s2 = (s3, r3)" by (cases "st (ls_Get port_state (codeSessionKey i)) s2")
  note l3 = ps.st_get [OF conjunct1 [OF l2] h]
  have v3: "store_good s3" "store_view s3 = store_view (io_store w)" "sess_inv ?S (store_view s3)" using l1 l2 l3 inv by auto
  obtain s4 gone where r: "RevokeID ?S (now k) sid s3 = (s4, Inr gone)" using RevokeID_port [OF over(2) v3(1,3)] by blast
  note l4 = ps.RevokeID_law [OF over(2) v3(1,3) r]
  obtain s5 where d: "ls_Delete port_state (codeSessionKey i) s4 = (s5, Inr ())" using port_delete by blast
  note l5 = ps.delete_law [OF conjunct1 [OF l4] d]
  have rs: "r1 = Inr (Some i)" "r2 = Inr None" "r3 = Inr (Some sid)" using l1 l2 l3 assms(4-6) by (auto simp: stored_def)
  have "w' = w\<lparr>io_store := s5\<rparr> \<and> res = Inl NoSuchRequest"
    using assms(3) g j h r d rs
    by (auto simp: AuthRequestByCode_def over bnd_def on_store_def load_request_def revokeCodeSession_def ignoring_def raise_def map_err_def)
  moreover have "read_id ?S (store_view s5) (now k) sid = read_id ?S (store_view s4) (now k) sid"
    by (rule read_id_cong) (use l5 in simp)
  ultimately show ?thesis using l4 l5 v3(2) by (auto split: if_splits)
qed

section \<open>Properties\<close>

text \<open>
  C17. What is on record is well formed. In every state the operations lead to, whatever is stored under the key of an
  access token reads as a token with that identifier whose record ends when the token does, and whatever is stored under
  the key of an authorization request reads as a request with that identifier.
\<close>
theorem records_are_well_formed:
  assumes "storage_over G port_state" and "issuing_run G (issuing_new t) w"
  shows "(\<forall>i raw e. vw_val (store_view (io_store w)) (tokenKey i) = Some (raw, e) \<longrightarrow>
      (\<exists>tok. sg_get_token G raw = Some tok \<and> tk_ID tok = i \<and> e = Some (tk_Expires tok)))
    \<and> (\<forall>i raw e. vw_val (store_view (io_store w)) (requestKey i) = Some (raw, e) \<longrightarrow>
      (\<exists>a. sg_get_request G raw = Some a \<and> ar_ID a = i))"
  using inv_sound [OF issuing_reached [OF assms]] by (fastforce simp: sound_def token_sound_def request_sound_def)

text \<open>
  C3. A code is redeemed once. Whatever happened before: once a code has been redeemed for tokens and the
  library has deleted its request, presenting it again is refused at every later instant, and while the code is
  still known the second presentation also ends the session the first one opened, so that its refresh
  token answers with nothing.
\<close>
theorem code_is_redeemed_once:
  assumes "storage_over G port_state" and "issuing_run G (issuing_new t) w" and "now k = st_now (io_store w)"
    and "AuthRequestByCode G k code w = (w1, Inr a)"
    and "CreateAccessAndRefreshTokens G k d (CodeRequest a) [] w1 = (w2, Inr (tid, tok, expires, rq))"
    and "DeleteAuthRequest G (ar_ID a) w2 = (w3, Inr ())" and "int (length (dr_session d)) \<le> MaxValue" and "0 \<le> later"
    and "AuthRequestByCode G j code (w3\<lparr>io_store := Store_Advance later (io_store w3)\<rparr>) = (w4, res)"
  shows "res = Inl NoSuchCode \<and> snd (ls_Get port_state (codeKey code) (Store_Advance later (io_store w3))) = Inr None
    \<or> res = Inl NoSuchRequest \<and> snd (ByToken (sg_sessions G) (now j) tok (io_store w4)) = Inr None"
proof -
  let ?S = "sg_sessions G" and ?u = "w3\<lparr>io_store := Store_Advance later (io_store w3)\<rparr>"
  note over = over_facts(1,2) [OF assms(1)]
  have inv: "issuing_inv G w" by (rule issuing_reached [OF assms(1,2)])
  obtain e where code: "vw_val (store_view (io_store w)) (codeKey code) = Some (ar_ID a, e)"
      and w1: "store_view (io_store w1) = store_view (io_store w)" "issuing_inv G w1"
    using redeemed_law [OF assms(1) inv assms(4)] by blast
  have now1: "now k = st_now (io_store w1)" using w1(1) assms(3) by (simp flip: port_now)
  note l2 = first_tokens_law [OF assms(1) inv_good [OF w1(2)] now1 assms(5,7)]
  have "issuing_inv G w2" by (rule step_by [OF tokens_keep [OF assms(1) now1] w1(2) assms(5)])
  then have inv3: "issuing_inv G w3" by (rule step_by [OF delete_request_keeps [OF assms(1)] _ assms(6)])
  have del: "ls_Delete port_state (requestKey (ar_ID a)) (io_store w2) = (io_store w3, Inr ())"
    using assms(6) by (auto simp: DeleteAuthRequest_def on_store_Inr map_err_Inr over)
  have good2: "store_good (io_store w2)" using l2 by blast
  note l3 = ps.delete_law [OF good2 del]
  have t3: "st_now (io_store w3) = now k" using l2 l3 by (simp flip: port_now)
  note adv = ps.wait_law [OF inv_good [OF inv3] assms(8)]
  have inv4: "issuing_inv G ?u" by (rule wait_keeps [OF inv3 assms(8)])
  obtain c where e: "e = Some c" "c \<le> now k + authCodeTTL"
    using inv_sound [OF inv code] assms(3) by (auto simp: code_sound_def)
  have v3: "vw_val (store_view (io_store w3)) (codeKey code) = Some (ar_ID a, Some c)"
      "vw_val (store_view (io_store w3)) (requestKey (ar_ID a)) = None"
      "vw_val (store_view (io_store w3)) (codeSessionKey (ar_ID a)) = Some (dr_session d, Some (now k + authCodeTTL))"
      "vw_val (store_view (io_store w3)) (sessionTokenKey ?S tok) = Some (dr_session d, Some (now k + ss_lifetime ?S))"
    using l2 l3 code w1(1) e by auto
  show ?thesis
  proof (cases "now k + later < c")
    case True
    have "vw_val (store_view (io_store ?u)) (codeKey code) = Some (ar_ID a, Some c)"
        "vw_val (store_view (io_store ?u)) (requestKey (ar_ID a)) = None"
        "vw_val (store_view (io_store ?u)) (codeSessionKey (ar_ID a)) = Some (dr_session d, Some (now k + authCodeTTL))"
      using True e v3 adv t3 by (simp_all add: view_later_def unexpired_def port_now)
    note l4 = replayed_code_law [OF assms(1) inv4 assms(9) this]
    have same: "vw_val (store_view (io_store w4)) (sessionTokenKey ?S tok) = vw_val (store_view (io_store ?u)) (sessionTokenKey ?S tok)"
      using l4 by blast
    have "read_token ?S (store_view (io_store w4)) (now j) tok = Inr None"
      unfolding read_token_def same using l4 v3(4) adv t3
      by (simp add: view_later_def port_now split: option.splits)
    moreover have "store_good (io_store w4)" "res = Inl NoSuchRequest" using l4 by blast+
    ultimately show ?thesis using by_token_port [OF over(2)] by simp
  next
    case False
    have none: "vw_val (store_view (io_store ?u)) (codeKey code) = None"
      using False v3 adv t3 by (simp add: view_later_def unexpired_def port_now)
    obtain s r where g: "st (ls_Get port_state (codeKey code)) (io_store ?u) = (s, r)" by (cases "st (ls_Get port_state (codeKey code)) (io_store ?u)")
    have "r = Inr None" using ps.st_get [OF inv_good [OF inv4] g] none by simp
    then have "res = Inl NoSuchCode"
      using assms(9) g by (auto simp: AuthRequestByCode_def over bnd_def on_store_def raise_def)
    moreover have "snd (ls_Get port_state (codeKey code) (io_store ?u)) = Inr None"
      using get_port [OF inv_good [OF inv4]] none by simp
    ultimately show ?thesis by simp
  qed
qed


text \<open>
  C26. Userinfo is told only to a live token. When the userinfo of a token is answered, the token is on record
  and has not ended, the answer is the record's, and the session it belongs to, if any, is still live and within its
  absolute limit.
\<close>
theorem userinfo_only_for_a_live_token:
  assumes "storage_over G port_state" and "issuing_run G (issuing_new t) w" and "now k = st_now (io_store w)"
    and "SetUserinfoFromToken G k i w = (w', Inr info)"
  shows "\<exists>tok. stored (store_view (io_store w)) (sg_get_token G) (tokenKey i) = Inr (Some tok) \<and> tk_ID tok = i \<and> now k < tk_Expires tok
    \<and> ui_Subject info = tk_Subject tok \<and> ui_Claims info = tk_Claims tok
    \<and> (tk_Session tok = [] \<or> (\<exists>x. read_id (sg_sessions G) (store_view (io_store w)) (now k) (tk_Session tok) = Inr (Some x)
          \<and> \<not> pastLimit (sg_sessions G) (now k) x))"
proof -
  note inv = issuing_reached [OF assms(1,2)]
  note good = inv_good [OF inv] and over = over_facts(1,2) [OF assms(1)]
  obtain s1 tok where l: "load_json port_state (sg_get_token G) (tokenKey i) (io_store w) = (s1, Inr (Some tok))"
      and rest: "bnd (if tk_Session tok = [] then ret True
                else bnd (on_store (byID (sg_sessions G) (now k) (tk_Session tok))) (\<lambda>x. ret (x \<noteq> None))) (\<lambda>live.
             if \<not> live then raise SessionHasEnded
             else ret (fill (tk_Subject tok) (tk_Claims tok) (tk_GivenName tok) (tk_FamilyName tok))) (w\<lparr>io_store := s1\<rparr>) = (w', Inr info)"
    using assms(4) unfolding SetUserinfoFromToken_def bnd_Inr [where f = "\<lambda>found. case found of None \<Rightarrow> _ | Some t \<Rightarrow> _ t"] over
    by (auto simp: on_store_Inr raise_Inr split: option.splits)
  note law = ps.load_law [OF good l]
  then obtain raw e where raw: "vw_val (store_view (io_store w)) (tokenKey i) = Some (raw, e)" "sg_get_token G raw = Some tok"
    by (auto simp: stored_def split: option.splits)
  have sound: "tk_ID tok = i" "e = Some (tk_Expires tok)"
    using inv_sound [OF inv raw(1)] raw(2) by (auto simp: sound_def token_sound_def)
  have "unexpired (vw_now (store_view (io_store w))) e" by (rule ps.live_val [OF good raw(1)])
  then have "now k < tk_Expires tok" using sound assms(3) by (simp add: unexpired_def port_now)
  moreover have "\<exists>x. read_id (sg_sessions G) (store_view (io_store w)) (now k) (tk_Session tok) = Inr (Some x)
      \<and> \<not> pastLimit (sg_sessions G) (now k) x" if ses: "tk_Session tok \<noteq> []"
  proof -
    obtain s2 x where b: "byID (sg_sessions G) (now k) (tk_Session tok) s1 = (s2, Inr (Some x))"
      using rest ses by (auto simp: op_simps split: if_splits option.splits)
    have "read_id (sg_sessions G) (store_view (io_store w)) (now k) (tk_Session tok) = Inr (Some x)"
      using ps.byID_law [OF conjunct1 [OF law] ps.over_state [OF over(2)] b] law by simp
    moreover from this have "\<not> pastLimit (sg_sessions G) (now k) x"
      using ps.live_within_limit inv_sessions [OF inv] assms(3) port_now by metis
    ultimately show ?thesis by blast
  qed
  moreover have "ui_Subject info = tk_Subject tok \<and> ui_Claims info = tk_Claims tok"
    using rest by (auto simp: op_simps fill_def split: if_splits)
  moreover have "stored (store_view (io_store w)) (sg_get_token G) (tokenKey i) = Inr (Some tok)"
    using raw by (simp add: stored_def)
  ultimately show ?thesis using sound(1) by blast
qed

text \<open>What the policy makes of a subject now, by what the directory and the resolver say.\<close>

definition subject_result :: "'s Storage \<Rightarrow> call \<Rightarrow> Resolver \<Rightarrow> string \<Rightarrow> Result option" where
  "subject_result G k R subject =
     (case ParseServiceAccountSubject subject of
        Some account \<Rightarrow> Some (Evaluate (sg_set G) \<lparr>in_Email = [], in_DirectoryGroups = [], in_Authoritative = False,
             in_GitHub = None, in_ServiceAccount = Some account, in_AWS = None\<rparr>)
      | None \<Rightarrow> (case snd (Resolve (dir k) (now k) subject R) of
          Inl _ \<Rightarrow> None | Inr res \<Rightarrow> Some (Evaluate (sg_set G) (Resolution_Input res subject))))"

lemma resolveSubject_Inr:
  "resolveSubject G k subject w = (w', Inr (result, names)) \<Longrightarrow> subject_result G k (io_resolver w) subject = Some result"
  by (auto simp: resolveSubject_def subject_result_def on_resolver_def bnd_def ret_def split: option.splits prod.splits sum.splits)

lemma entitled_Inr:
  assumes "entitled G k c r subject w = (w', Inr u)" and "map_of (p_Clients (sg_set G)) c = Some declared"
  shows "\<exists>result. subject_result G k (io_resolver w) subject = Some result \<and> Client_Admits declared result
    \<and> (r = [] \<or> (\<exists>wanted. map_of (p_Resources (sg_set G)) r = Some wanted \<and> Resource_Admits wanted result))"
proof -
  obtain w1 result names where "resolveSubject G k subject w = (w1, Inr (result, names))"
      and "Client_Admits declared result"
      and "r = [] \<or> (\<exists>wanted. map_of (p_Resources (sg_set G)) r = Some wanted \<and> Resource_Admits wanted result)"
    using assms by (auto simp: entitled_def op_simps split: if_splits option.splits)
  then show ?thesis using resolveSubject_Inr by blast
qed


text \<open>
  C16. A recovery leaves a trace before it opens anything. Whatever the sequence of operations, a login that stands
  completed by the recovery token has its entry in the trail: of the same person and the same client, as allowed. A login
  whose entry could not be kept is not completed.
\<close>
theorem recovery_leaves_a_trace:
  assumes "storage_over G port_state" and "issuing_run G (issuing_new t) w"
    and "load_request G i w = (w', Inr a)" and "ar_IsDone a" and "ar_How a = RecoveryHow"
  shows "\<exists>who. to_lower who = ar_Subject a \<and> SignInRecorded True who (ar_ClientID a) True \<in> set (io_trail w)"
  using load_request_law [OF assms(1) issuing_reached [OF assms(1,2)] assms(3)] assms(4,5)
  by (simp add: request_sound_def over_facts(8) [OF assms(1)])

text \<open>
  C27. What a sign-in's own token can be exchanged for. The issuer takes one of its own tokens as proof of a person
  exactly when it is presented as an access token, is on record, was issued to a client that allows it and is presented by
  that client, is of a person, and belongs to a session that is still live; the proof is the person and nothing else.
\<close>
theorem sign_in_exchange_exactly_when:
  assumes "storage_over G port_state" and "store_good (io_store w)"
  shows "snd (signInProof G k p w) = Inr pf \<longleftrightarrow>
    ps_Type p = AccessTokenType \<and>
    (\<exists>t c x. stored (store_view (io_store w)) (sg_get_token G) (tokenKey (ps_TokenID p)) = Inr (Some t)
       \<and> map_of (p_Clients (sg_set G)) (tk_ClientID t) = Some c \<and> c_SignInExchange c \<and> ps_ClientID p = tk_ClientID t
       \<and> at_sign \<in> set (tk_Subject t) \<and> tk_Session t \<noteq> []
       \<and> read_id (sg_sessions G) (store_view (io_store w)) (now k) (tk_Session t) = Inr (Some x)
       \<and> pf = \<lparr>pf_Email = tk_Subject t, pf_GitHub = None, pf_ServiceAccount = None, pf_AWS = None\<rparr>)"
proof (cases "ps_Type p = AccessTokenType")
  case True
  note over = over_facts(1,3) [OF assms(1)]
  obtain s1 r where l: "load_json port_state (sg_get_token G) (tokenKey (ps_TokenID p)) (io_store w) = (s1, r)"
    by (cases "load_json port_state (sg_get_token G) (tokenKey (ps_TokenID p)) (io_store w)")
  note law = ps.load_law [OF assms(2) l]
  have r: "stored (store_view (io_store w)) (sg_get_token G) (tokenKey (ps_TokenID p)) = r" using law by simp
  show ?thesis
  proof (cases "\<exists>t. r = Inr (Some t)")
    case False
    then have "snd (signInProof G k p w) \<noteq> Inr pf"
      using True l by (cases r) (auto simp: signInProof_def over bnd_def on_store_def raise_def split: option.splits)
    then show ?thesis unfolding r using False by blast
  next
    case True2: True
    then obtain t where t: "r = Inr (Some t)" ..
    obtain s2 b where b: "byID (sg_sessions G) (now k) (tk_Session t) s1 = (s2, b)"
      by (cases "byID (sg_sessions G) (now k) (tk_Session t) s1")
    have read: "read_id (sg_sessions G) (store_view (io_store w)) (now k) (tk_Session t) = b"
      using ps.byID_law [OF conjunct1 [OF law] over(2) b] law by simp
    show ?thesis unfolding r t using read True l t b
      by (cases b)
        (auto simp: signInProof_def over bnd_def on_store_def raise_def ret_def split: option.splits)
  qed
qed (simp add: signInProof_def raise_def)

lemma code_answers:
  assumes "storage_over G port_state" and "store_good (io_store w)"
    and "vw_val (store_view (io_store w)) (codeKey code) = Some (i, e)"
    and "stored (store_view (io_store w)) (sg_get_request G) (requestKey i) = Inr (Some a)"
  shows "snd (AuthRequestByCode G k code w) = Inr a"
proof -
  obtain s1 r1 where g: "st (ls_Get port_state (codeKey code)) (io_store w) = (s1, r1)" by (cases "st (ls_Get port_state (codeKey code)) (io_store w)")
  note l1 = ps.st_get [OF assms(2) g]
  obtain s2 r2 where j: "load_json port_state (sg_get_request G) (requestKey i) s1 = (s2, r2)"
    by (cases "load_json port_state (sg_get_request G) (requestKey i) s1")
  note l2 = ps.load_law [OF conjunct1 [OF l1] j]
  have "r1 = Inr (Some i)" "r2 = Inr (Some a)" using l1 l2 assms(3,4) by auto
  then show ?thesis
    using g j by (simp add: AuthRequestByCode_def over_facts(1) [OF assms(1)] bnd_def on_store_def load_request_def ret_def)
qed

text \<open>
  Two presentations at once are both honoured. Until the library deletes its request a code is not spent: presented
  again after tokens were issued for it, it answers with the same request, and the two sets of tokens stand side by side.
\<close>
theorem code_answers_until_its_request_is_deleted:
  assumes "storage_over G port_state" and "issuing_run G (issuing_new t) w" and "now k = st_now (io_store w)"
    and "AuthRequestByCode G k code w = (w1, Inr a)"
    and "CreateAccessAndRefreshTokens G k d (CodeRequest a) [] w1 = (w2, Inr (tid, tok, expires, rq))"
    and "int (length (dr_session d)) \<le> MaxValue"
  shows "snd (AuthRequestByCode G j code w2) = Inr a"
proof -
  have inv: "issuing_inv G w" by (rule issuing_reached [OF assms(1,2)])
  obtain e where code: "vw_val (store_view (io_store w)) (codeKey code) = Some (ar_ID a, e)"
      and req: "stored (store_view (io_store w)) (sg_get_request G) (requestKey (ar_ID a)) = Inr (Some a)"
      and w1: "store_view (io_store w1) = store_view (io_store w)" "issuing_inv G w1"
    using redeemed_law [OF assms(1) inv assms(4)] by blast
  have now1: "now k = st_now (io_store w1)" using w1(1) assms(3) by (simp flip: port_now)
  note l2 = first_tokens_law [OF assms(1) inv_good [OF w1(2)] now1 assms(5,6)]
  show ?thesis
    by (rule code_answers [OF assms(1)]) (use l2 w1(1) code req in \<open>auto simp: stored_def\<close>)
qed

lemma read_id_sub:
  assumes "vw_val v' \<subseteq>\<^sub>m vw_val v" and "read_id S v t sid = Inr None"
  shows "read_id S v' t sid = Inr None"
proof (cases "vw_val v' (sessionKey sid)")
  case None
  then show ?thesis by (rule read_id_None)
next
  case (Some x)
  then have "vw_val v' (sessionKey sid) = vw_val v (sessionKey sid)"
    using assms(1) unfolding map_le_def by (metis domI)
  then show ?thesis using assms(2) read_id_cong by metis
qed

lemma upd_None_sub: "m' = m(k := None) \<Longrightarrow> m' \<subseteq>\<^sub>m m"
  by (auto simp: map_le_def)

lemma RevokeToken_law:
  assumes "sessions_over S port_state" and "store_good s" and "sess_inv S (store_view s)" and "RevokeToken S t tok s = (s', Inr gone)"
  shows "store_good s' \<and> sess_inv S (store_view s') \<and> vw_val (store_view s') \<subseteq>\<^sub>m vw_val (store_view s)
    \<and> vw_val (store_view s') (sessionTokenKey S tok) = None
    \<and> (\<forall>sid e. vw_val (store_view s) (sessionTokenKey S tok) = Some (sid, e) \<longrightarrow> read_id S (store_view s') t sid = Inr None)"
proof -
  note over = ps.over_state [OF assms(1)]
  obtain s1 r where g: "st (ls_Get port_state (sessionTokenKey S tok)) s = (s1, Inr r)"
      and rest: "(case r of None \<Rightarrow> ret False | Some sid \<Rightarrow>
         bnd (st (ls_Delete port_state (sessionTokenKey S tok))) (\<lambda>_. RevokeID S t sid)) s1 = (s', Inr gone)"
    using assms(4) unfolding RevokeToken_def over bnd_Inr by blast
  note l1 = ps.st_get [OF assms(2) g]
  show ?thesis
  proof (cases r)
    case None
    then show ?thesis using rest l1 assms(3) by (auto simp: ret_Inr)
  next
    case (Some sid)
    obtain s2 where d: "ls_Delete port_state (sessionTokenKey S tok) s1 = (s2, Inr ())" and r: "RevokeID S t sid s2 = (s', Inr gone)"
      using rest Some by (auto simp: op_simps)
    note l2 = ps.delete_law [OF conjunct1 [OF l1] d]
    have v2: "vw_val (store_view s2) = (vw_val (store_view s))(sessionTokenKey S tok := None)" "vw_now (store_view s2) = vw_now (store_view s)"
      using l1 l2 by simp_all
    have inv2: "sess_inv S (store_view s2)" by (rule sess_inv_other [OF assms(3)]) (use v2 in auto)
    note l3 = ps.RevokeID_law [OF assms(1) conjunct1 [OF l2] inv2 r]
    have v3: "vw_val (store_view s') = (if gone then (vw_val (store_view s2))(sessionKey sid := None) else vw_val (store_view s2))"
      using l3 by auto
    have "vw_val (store_view s') \<subseteq>\<^sub>m vw_val (store_view s)" unfolding v3 v2(1) by (auto simp: map_le_def)
    moreover have "sess_inv S (store_view s')"
      by (rule sess_inv_other [OF inv2]) (use v3 l3 in auto)
    moreover have "vw_val (store_view s') (sessionTokenKey S tok) = None" unfolding v3 v2(1) by simp
    ultimately show ?thesis using l1 l3 Some by auto
  qed
qed

lemma token_info:
  assumes "storage_over G port_state" and "store_good (io_store w)"
  shows "snd (SetUserinfoFromToken G k i w) =
    (case stored (store_view (io_store w)) (sg_get_token G) (tokenKey i) of
       Inl e \<Rightarrow> Inl (StoreErr e)
     | Inr None \<Rightarrow> Inl NoSuchToken
     | Inr (Some t) \<Rightarrow>
         (if tk_Session t = [] then Inr (fill (tk_Subject t) (tk_Claims t) (tk_GivenName t) (tk_FamilyName t))
          else case read_id (sg_sessions G) (store_view (io_store w)) (now k) (tk_Session t) of
            Inl e \<Rightarrow> Inl (StoreErr e)
          | Inr None \<Rightarrow> Inl SessionHasEnded
          | Inr (Some _) \<Rightarrow> Inr (fill (tk_Subject t) (tk_Claims t) (tk_GivenName t) (tk_FamilyName t))))"
proof -
  note over = over_facts(1,3) [OF assms(1)]
  obtain s1 r where l: "load_json port_state (sg_get_token G) (tokenKey i) (io_store w) = (s1, r)"
    by (cases "load_json port_state (sg_get_token G) (tokenKey i) (io_store w)")
  note law = ps.load_law [OF assms(2) l]
  have r: "stored (store_view (io_store w)) (sg_get_token G) (tokenKey i) = r" using law by simp
  show ?thesis
  proof (cases "\<exists>t. r = Inr (Some t)")
    case True
    then obtain t where t: "r = Inr (Some t)" ..
    obtain s2 b where b: "byID (sg_sessions G) (now k) (tk_Session t) s1 = (s2, b)"
      by (cases "byID (sg_sessions G) (now k) (tk_Session t) s1")
    have read: "read_id (sg_sessions G) (store_view (io_store w)) (now k) (tk_Session t) = b"
      using ps.byID_law [OF conjunct1 [OF law] over(2) b] law by simp
    show ?thesis unfolding r t using read l t b
      by (cases b) (auto simp: SetUserinfoFromToken_def over bnd_def on_store_def raise_def ret_def split: option.splits)
  next
    case False
    then show ?thesis unfolding r using l
      by (cases r) (auto simp: SetUserinfoFromToken_def over bnd_def on_store_def raise_def split: option.splits)
  qed
qed


lemma checked_algorithms:
  assumes "checkSigningAlgorithms p keys = None"
  shows "map_of (p_Clients p) i = Some c \<Longrightarrow> c_SigningAlg c \<noteq> [] \<Longrightarrow> Rings_Has keys (c_SigningAlg c)"
    and "map_of (p_Resources p) i = Some r \<Longrightarrow> r_SigningAlg r \<noteq> [] \<Longrightarrow> Rings_Has keys (r_SigningAlg r)"
proof -
  have *: "\<forall>(i, alg) \<in> set (map (\<lambda>(ident, c). (ident, c_SigningAlg c)) (sorted_entries (p_Clients p))
        @ map (\<lambda>(ident, r). (ident, r_SigningAlg r)) (sorted_entries (p_Resources p))). alg = [] \<or> Rings_Has keys alg"
    using assms unfolding checkSigningAlgorithms_def first_err_None by (force simp: guard_err_def split: if_splits)
  show "map_of (p_Clients p) i = Some c \<Longrightarrow> c_SigningAlg c \<noteq> [] \<Longrightarrow> Rings_Has keys (c_SigningAlg c)"
    using * sorted_entries_iff [of i c "p_Clients p"] by (force simp del: sorted_entries_iff)
  show "map_of (p_Resources p) i = Some r \<Longrightarrow> r_SigningAlg r \<noteq> [] \<Longrightarrow> Rings_Has keys (r_SigningAlg r)"
    using * sorted_entries_iff [of i r "p_Resources p"] by (force simp del: sorted_entries_iff)
qed

lemma carrier_ops:
  "keeps (\<lambda>w. io_carrier w = c) (on_resolver m)" "keeps (\<lambda>w. io_carrier w = c) (on_store n)"
  "keeps (\<lambda>w. io_carrier w = c) (namesOf G k subject)" "keeps (\<lambda>w. io_carrier w = c) (resolveSubject G k subject)"
  by (simp_all add: keeps_def on_resolver_def on_store_def namesOf_def resolveSubject_def ret_def split: prod.splits sum.splits option.splits)

text \<open>
  A token is signed as its audience asks. Once the signing algorithms of a policy have been checked against the
  key rings, the algorithm an issued token is to be signed with, which is its audience's own where one is set, has a ring, and
  the key the library is handed for that request is the ring's active one.
\<close>
theorem token_is_signed_as_its_audience_asks:
  assumes "checkSigningAlgorithms (sg_set G) keys = None" and "Rings_Has keys (ks_primary keys)"
    and "issue G k i rq w = (w', Inr t)" and "io_carrier w \<noteq> None"
  defines "alg \<equiv> signingAlgorithmFor (sg_set G) (ks_primary keys) (accessAudienceOf rq)"
  shows "Rings_Has keys alg \<and> (\<forall>key. Rings_Active keys alg = Some key \<longrightarrow> Storage_SigningKey G keys w' = Some key)"
proof
  note checked = checked_algorithms [OF assms(1)]
  show "Rings_Has keys alg"
    unfolding alg_def signingAlgorithmFor_def using assms(2) checked by (auto split: option.splits)
  have carrier: "keeps (\<lambda>w. io_carrier w = c) (claimsFor G k rq)" "keeps (\<lambda>w. io_carrier w = c) (save_token G k t)" for c
    unfolding claimsFor_def identityOf_def save_token_def
    by (auto intro!: keeps_bnd_all carrier_ops split: TokenRequest.splits option.splits prod.splits)
  obtain c where c: "io_carrier w = Some c" using assms(4) by blast
  obtain w1 claims held given family w2 u where m: "mark (accessAudienceOf rq) w = (w1, Inr ())"
      "claimsFor G k rq w1 = (w2, Inr (claims, held, given, family))" "save_token G k t w2 = (w', Inr u)"
    using assms(3) by (auto simp: issue_def op_simps Let_def split: prod.splits)
  have "io_carrier w1 = Some (Some (accessAudienceOf rq))" using m(1) c by (auto simp: mark_def)
  then have "io_carrier w2 = Some (Some (accessAudienceOf rq))" using keepsD [OF carrier(1) _ m(2)] by blast
  then have "io_carrier w' = Some (Some (accessAudienceOf rq))" using keepsD [OF carrier(2) _ m(3)] by blast
  then show "\<forall>key. Rings_Active keys alg = Some key \<longrightarrow> Storage_SigningKey G keys w' = Some key"
    by (simp add: Storage_SigningKey_def alg_def)
qed

lemma Exchange_Inr:
  assumes "Exchange parse cfg p answers t pf wanted r = (r', Inr grant)"
  shows "eg_Subject grant = proof_Subject pf \<and> eg_Audience grant = trim_space wanted
    \<and> (\<exists>c. map_of (p_Clients p) (trim_space wanted) = Some c \<and> Client_Admits c (eg_Result grant))"
  using assms by (auto simp: Exchange_def Let_def split: if_splits option.splits prod.splits sum.splits)

text \<open>
  A token the console mints is the person's own and short. It is minted only for a declared client that admits the
  person by what the policy makes of them now; no fragment of a group can set whose it is, for whom, or when it ends; and
  it ends within the lifetime of tokens and, when a lifetime is asked for, within that and the cap of the groups.
\<close>
theorem minted_token_is_the_persons_own:
  assumes "MintFor G keys k jti email audience asked r = (r', Inr m)" and "0 < cf_TokenLifetime (sg_cfg G)"
  shows "map_of (mt_Claims m) ''sub'' = Some (VStr (to_lower (trim_space email)))
    \<and> map_of (mt_Claims m) ''aud'' = Some (VList [VStr (trim_space audience)])
    \<and> map_of (mt_Claims m) ''exp'' = Some (VInt (mt_Expires m div 1000000000))
    \<and> now k < mt_Expires m \<and> mt_Expires m \<le> now k + cf_TokenLifetime (sg_cfg G)
    \<and> (0 < asked \<longrightarrow> mt_Expires m \<le> now k + asked)
    \<and> (\<exists>c result. map_of (p_Clients (sg_set G)) (trim_space audience) = Some c \<and> Client_Admits c result
        \<and> (0 < asked \<longrightarrow> 0 < Client_Cap c (res_Lifetime result) \<longrightarrow> mt_Expires m \<le> now k + Client_Cap c (res_Lifetime result)))"
proof -
  let ?email = "to_lower (trim_space email)"
  let ?pf = "\<lparr>pf_Email = ?email, pf_GitHub = None, pf_ServiceAccount = None, pf_AWS = None\<rparr>"
  obtain grant active where e: "Exchange (sg_parse G) (sg_cfg G) (sg_set G) (dir k) (now k) ?pf audience r = (r', Inr grant)" "?email \<noteq> []"
      and m: "mt_Expires m = now k + MintFor_lifetime G grant asked"
        "mt_Claims m = fold (\<lambda>(name, v). tput name v) (registered G grant ?email jti (now k) (mt_Expires m)) (eg_Claims grant)"
    using assms(1) by (auto simp: MintFor_def Let_def split: if_splits prod.splits sum.splits option.splits)
  note x = Exchange_Inr [OF e(1)]
  have sub: "eg_Subject grant = ?email" using x e(2) by (simp add: proof_Subject_def)
  obtain c where c: "map_of (p_Clients (sg_set G)) (trim_space audience) = Some c" "Client_Admits c (eg_Result grant)" using x by blast
  have life: "Issuer_Lifetime (sg_set G) grant = Client_Cap c (res_Lifetime (eg_Result grant))"
    using x c(1) by (simp add: Issuer_Lifetime_def)
  have "map_of (mt_Claims m) ''sub'' = Some (VStr ?email) \<and> map_of (mt_Claims m) ''aud'' = Some (VList [VStr (trim_space audience)])
      \<and> map_of (mt_Claims m) ''exp'' = Some (VInt (mt_Expires m div 1000000000))"
    unfolding m(2) using x sub by (simp add: registered_def)
  moreover have "0 < MintFor_lifetime G grant asked" "MintFor_lifetime G grant asked \<le> cf_TokenLifetime (sg_cfg G)"
      "0 < asked \<Longrightarrow> MintFor_lifetime G grant asked \<le> asked"
      "0 < asked \<Longrightarrow> 0 < Client_Cap c (res_Lifetime (eg_Result grant)) \<Longrightarrow> MintFor_lifetime G grant asked \<le> Client_Cap c (res_Lifetime (eg_Result grant))"
    using assms(2) by (auto simp: MintFor_lifetime_def life Let_def)
  ultimately show ?thesis using m(1) c by auto
qed

section \<open>A run\<close>

text \<open>Ann signs in to the console by recovery, her browser is handed a code and the console redeems it.\<close>

definition iw_policy :: Policy where
  "iw_policy = no_Policy\<lparr>p_Groups := [(''ops'', \<lparr>g_Members = [''sre@x.io''], g_Matchers = []\<rparr>)],
     p_Clients := [(''console'', (snd (hd (p_Clients sample_policy)))\<lparr>c_Requires := [''ops'']\<rparr>)]\<rparr>"

definition iw_G :: "Store Storage" where
  "iw_G = \<lparr>sg_cfg = \<lparr>cf_URL = ''https://i'', cf_TokenLifetime = 3600000000000, cf_RefreshLifetime = DefaultRefreshLifetime,
       cf_AbsoluteLifetime = DefaultAbsoluteLifetime, cf_HoldWindow = DefaultHoldWindow, cf_GroupsScoping = GroupsScopingEnforce\<rparr>,
     sg_set = iw_policy, sg_parse = no_urls, sg_state = port_state,
     sg_sessions = NewSessions port_state session_text text_session id DefaultRefreshLifetime DefaultAbsoluteLifetime,
     sg_sso = w_sso, sg_secrets = (\<lambda>_. None), sg_put_token = token_text, sg_get_token = text_token,
     sg_put_request = request_text, sg_get_request = text_request\<rparr>"

definition iw_dir :: directory where
  "iw_dir email = Inr \<lparr>sd_Found = True, sd_Suspended = False, sd_Groups = [''sre@x.io''], sd_Authoritative = True,
     sd_GivenName = ''Ann'', sd_FamilyName = []\<rparr>"

definition iw_call :: "int \<Rightarrow> call" where
  "iw_call t = \<lparr>now = t, dir = iw_dir,
     docs = \<lparr>df_parse = no_urls, df_printed = (\<lambda>_. []), df_first = Refusing, df_second = Refusing\<rparr>, durable = True\<rparr>"

definition iw_asked :: authRequest where
  "iw_asked = \<lparr>ar_ID = [], ar_ClientID = ''console'', ar_Scopes = [''openid''], ar_RedirectURI = ''https://c/cb'', ar_State = ''s'',
     ar_Prompt = [], ar_MaxAge = None, ar_Subject = [], ar_AuthTime = None, ar_IsDone = False, ar_How = [], ar_Resource = [],
     ar_SSO = [], ar_Session = []\<rparr>"

definition iw_who :: Authenticated where
  "iw_who = \<lparr>wh_Subject = ''Ann@x.io'', wh_How = RecoveryHow, wh_AuthTime = None, wh_SSO = []\<rparr>"

definition iw_drawn :: drawn where
  "iw_drawn = \<lparr>dr_token = ''t1'', dr_refresh = ''r1'', dr_session = ''s1''\<rparr>"

definition iw_created :: "Store Issuing" where
  "iw_created = fst (CreateAuthRequest iw_G (iw_call 0) ''q1'' iw_asked [] [] (issuing_new 0))"

definition iw_completed :: "Store Issuing" where
  "iw_completed = fst (Complete iw_G (iw_call 0) ''q1'' iw_who iw_created)"

definition iw_coded :: "Store Issuing" where
  "iw_coded = fst (SaveAuthCode iw_G ''q1'' ''c1'' iw_completed)"

lemma iw_over: "storage_over iw_G port_state"
proof -
  have "\<exists>c. text_token (token_text t) = Some (t\<lparr>tk_Claims := c\<rparr>)" for t
    by (rule exI [of _ "tk_Claims t"]) (simp add: token_text_read)
  then show ?thesis
    by (simp add: storage_over_def iw_G_def sessions_over_def NewSessions_def session_text_read w_sso_over
        request_text_read DefaultRefreshLifetime_def)
qed

definition iw_a :: authRequest where
  "iw_a = completed (iw_call 0) iw_who (iw_asked\<lparr>ar_ID := ''q1'', ar_AuthTime := Some 0\<rparr>)"

definition iw_redeemed :: "Store Issuing" where
  "iw_redeemed = fst (AuthRequestByCode iw_G (iw_call 0) ''c1'' iw_coded)"

definition iw_tokens :: "Store Issuing \<times> (storage_err + string \<times> string \<times> int \<times> TokenRequest)" where
  "iw_tokens = CreateAccessAndRefreshTokens iw_G (iw_call 0) iw_drawn (CodeRequest iw_a) [] iw_redeemed"

lemma iw_redeem: "AuthRequestByCode iw_G (iw_call 0) ''c1'' iw_coded = (iw_redeemed, Inr iw_a)"
proof -
  have "snd (AuthRequestByCode iw_G (iw_call 0) ''c1'' iw_coded) = Inr iw_a" by code_simp
  then show ?thesis by (simp add: iw_redeemed_def prod_eq_iff)
qed

lemma iw_opens: "CreateAccessAndRefreshTokens iw_G (iw_call 0) iw_drawn (CodeRequest iw_a) [] iw_redeemed =
    (fst iw_tokens, Inr (''t1'', ''r1'', 3600000000000, CodeRequest (iw_a\<lparr>ar_Session := ''s1''\<rparr>)))"
proof -
  have "snd iw_tokens = Inr (''t1'', ''r1'', 3600000000000, CodeRequest (iw_a\<lparr>ar_Session := ''s1''\<rparr>))" by code_simp
  then show ?thesis by (simp add: iw_tokens_def prod_eq_iff)
qed

lemma iw_coded_run: "issuing_run iw_G (issuing_new 0) iw_coded" "issuing_run iw_G (issuing_new 0) iw_completed"
proof -
  have a: "issuing_step iw_G (issuing_new 0) iw_created"
    unfolding iw_created_def by (rule is_create [OF surjective_pairing])
  have b: "issuing_step iw_G iw_created iw_completed"
    unfolding iw_completed_def by (rule is_complete [OF surjective_pairing])
  have c: "issuing_step iw_G iw_completed iw_coded"
    unfolding iw_coded_def by (rule is_code [OF surjective_pairing])
  show "issuing_run iw_G (issuing_new 0) iw_completed" by (rule issuing_next [OF issuing_next [OF issuing_start a] b])
  then show "issuing_run iw_G (issuing_new 0) iw_coded" using c by (rule issuing_next)
qed

lemma iw_clock: "now (iw_call 0) = st_now (io_store iw_coded)" "now (iw_call 0) = st_now (io_store iw_redeemed)"
  "now (iw_call 0) = st_now (io_store (fst iw_tokens))"
proof -
  show coded: "now (iw_call 0) = st_now (io_store iw_coded)" by code_simp
  have red: "store_view (io_store iw_redeemed) = store_view (io_store iw_coded)" "issuing_inv iw_G iw_redeemed"
    using redeemed_law [OF iw_over issuing_reached [OF iw_over iw_coded_run(1)] iw_redeem] by blast+
  then show redeemed: "now (iw_call 0) = st_now (io_store iw_redeemed)" using coded by (metis port_now)
  show "now (iw_call 0) = st_now (io_store (fst iw_tokens))"
    using first_tokens_law [OF iw_over inv_good [OF red(2)] redeemed iw_opens] by (simp add: iw_drawn_def MaxValue_def)
qed

lemma iw_tokens_run: "issuing_run iw_G (issuing_new 0) (fst iw_tokens)"
  by (rule issuing_next [OF issuing_next [OF iw_coded_run(1) is_redeem [OF iw_redeem]] is_tokens [OF iw_clock(2) iw_opens]])

lemma iw_short: "int (length (dr_session iw_drawn)) \<le> MaxValue"
  by (simp add: iw_drawn_def MaxValue_def)

definition iw_deleted :: "Store Issuing" where
  "iw_deleted = fst (DeleteAuthRequest iw_G (ar_ID iw_a) (fst iw_tokens))"

lemma iw_delete: "DeleteAuthRequest iw_G (ar_ID iw_a) (fst iw_tokens) = (iw_deleted, Inr ())"
  using port_delete [of "requestKey (ar_ID iw_a)" "io_store (fst iw_tokens)"]
  by (auto simp: iw_deleted_def DeleteAuthRequest_def on_store_def map_err_def iw_G_def)

definition iw_again :: "Store Issuing \<times> (storage_err + authRequest)" where
  "iw_again = AuthRequestByCode iw_G (iw_call 60000000000) ''c1''
     (iw_deleted\<lparr>io_store := Store_Advance 60000000000 (io_store iw_deleted)\<rparr>)"

theorem code_once_witness:
  "snd iw_again = Inl NoSuchCode
      \<and> snd (ls_Get port_state (codeKey ''c1'') (Store_Advance 60000000000 (io_store iw_deleted))) = Inr None
    \<or> snd iw_again = Inl NoSuchRequest \<and> snd (ByToken (sg_sessions iw_G) 60000000000 ''r1'' (io_store (fst iw_again))) = Inr None"
  using code_is_redeemed_once [OF iw_over iw_coded_run(1) iw_clock(1) iw_redeem iw_opens iw_delete iw_short, of 60000000000
      "iw_call 60000000000" "fst iw_again" "snd iw_again"]
  by (simp add: iw_again_def iw_call_def)

theorem code_twice_witness: "snd (AuthRequestByCode iw_G (iw_call 0) ''c1'' (fst iw_tokens)) = Inr iw_a"
  by (rule code_answers_until_its_request_is_deleted [OF iw_over iw_coded_run(1) iw_clock(1) iw_redeem iw_opens iw_short])


theorem recovery_witness: "\<exists>who. to_lower who = ar_Subject iw_a \<and> SignInRecorded True who (ar_ClientID iw_a) True \<in> set (io_trail iw_completed)"
proof -
  let ?read = "load_request iw_G ''q1'' iw_completed"
  have "snd ?read = Inr iw_a" by code_simp
  then have read: "?read = (fst ?read, Inr iw_a)" by (simp add: prod_eq_iff)
  show ?thesis
    by (rule recovery_leaves_a_trace [OF iw_over iw_coded_run(2) read]) (simp_all add: iw_a_def completed_def iw_who_def)
qed

lemma iw_good: "store_good (io_store (fst iw_tokens))"
  by (rule inv_good [OF issuing_reached [OF iw_over iw_tokens_run]])

theorem well_formed_witness:
  "\<exists>raw e tok. vw_val (store_view (io_store (fst iw_tokens))) (tokenKey ''t1'') = Some (raw, e)
     \<and> sg_get_token iw_G raw = Some tok \<and> tk_ID tok = ''t1'' \<and> e = Some (tk_Expires tok)"
proof -
  have "vw_val (store_view (io_store (fst iw_tokens))) (tokenKey ''t1'') \<noteq> None" by code_simp
  then obtain raw e where "vw_val (store_view (io_store (fst iw_tokens))) (tokenKey ''t1'') = Some (raw, e)" by auto
  then show ?thesis using records_are_well_formed [OF iw_over iw_tokens_run] by blast
qed

definition iw_told :: "Store Issuing \<times> (storage_err + UserInfo)" where
  "iw_told = SetUserinfoFromToken iw_G (iw_call 0) ''t1'' (fst iw_tokens)"

theorem userinfo_witness:
  "ui_Subject (projr (snd iw_told)) = ''ann@x.io'' \<and>
   (\<exists>tok. stored (store_view (io_store (fst iw_tokens))) (sg_get_token iw_G) (tokenKey ''t1'') = Inr (Some tok) \<and> tk_ID tok = ''t1''
     \<and> now (iw_call 0) < tk_Expires tok \<and> ui_Subject (projr (snd iw_told)) = tk_Subject tok)"
proof -
  have "\<not> isl (snd iw_told) \<and> ui_Subject (projr (snd iw_told)) = ''ann@x.io''" by code_simp
  then have told: "SetUserinfoFromToken iw_G (iw_call 0) ''t1'' (fst iw_tokens) = (fst iw_told, Inr (projr (snd iw_told)))"
      and who: "ui_Subject (projr (snd iw_told)) = ''ann@x.io''"
    by (simp_all add: iw_told_def prod_eq_iff)
  from userinfo_only_for_a_live_token [OF iw_over iw_tokens_run iw_clock(3) told] who show ?thesis by blast
qed

definition iw_session :: Session where
  "iw_session = opened_session (sg_sessions iw_G) 0 ''s1'' (opened_for ''ann@x.io'' (CodeRequest iw_a) ''r1'')"



definition iw_presented :: presented where
  "iw_presented = \<lparr>ps_Verified = None, ps_Type = AccessTokenType, ps_TokenID = ''t1'', ps_ClientID = ''console''\<rparr>"

theorem sign_in_exchange_witness:
  "snd (signInProof iw_G (iw_call 0) iw_presented (fst iw_tokens)) =
      Inr \<lparr>pf_Email = ''ann@x.io'', pf_GitHub = None, pf_ServiceAccount = None, pf_AWS = None\<rparr>
    \<and> (\<exists>t. tk_Subject t = ''ann@x.io'' \<and> stored (store_view (io_store (fst iw_tokens))) (sg_get_token iw_G) (tokenKey ''t1'') = Inr (Some t))"
proof -
  let ?pf = "\<lparr>pf_Email = ''ann@x.io'', pf_GitHub = None, pf_ServiceAccount = None, pf_AWS = None\<rparr>"
  have proved: "snd (signInProof iw_G (iw_call 0) iw_presented (fst iw_tokens)) = Inr ?pf" by code_simp
  then show ?thesis
    unfolding sign_in_exchange_exactly_when [OF iw_over iw_good] by (auto simp: iw_presented_def)
qed

text \<open>The decisions of the issuer on examples: Ann, vouched for by the directory, asks for the console.\<close>

definition iw_proof :: SubjectProof where
  "iw_proof = \<lparr>pf_Email = ''ann@x.io'', pf_GitHub = None, pf_ServiceAccount = None, pf_AWS = None\<rparr>"

definition iw_input :: Input where
  "iw_input = (Resolution_Input \<lparr>rn_Groups = [''sre@x.io''], rn_Held = False, rn_GivenName = ''Ann'', rn_FamilyName = []\<rparr> ''ann@x.io'')
     \<lparr>in_GitHub := None, in_ServiceAccount := None, in_AWS := None\<rparr>"

definition iw_exchanged :: "Resolver \<times> (exchange_err + ExchangeGrant)" where
  "iw_exchanged = Exchange no_urls (sg_cfg iw_G) sample_policy iw_dir 0 iw_proof ''console'' (NewResolver 0)"

theorem exchanged_scope_witness:
  "map_of (eg_Claims (projr (snd iw_exchanged))) ''groups'' =
     Some (VList (map (\<lambda>n. VStr (RewriteGroupsDelimiter n (groupsDelimiterFor sample_policy ''console'')))
       (fst (ScopeGroups no_urls sample_policy ''console'' (res_Groups (eg_Result (projr (snd iw_exchanged))))))))"
proof -
  have given: "trim_space ''console'' = ''console''" "map_of (p_Clients sample_policy) ''console'' = Some (snd (hd (p_Clients sample_policy)))"
    by code_simp+
  have "Client_Admits (snd (hd (p_Clients sample_policy))) (Evaluate sample_policy iw_input)" by code_simp
  then have ok: "\<not> isl (snd iw_exchanged) \<and> eg_Audience (projr (snd iw_exchanged)) = ''console''"
    by (simp add: iw_exchanged_def Exchange_def Let_def given evaluate_proof_def Resolve_def iw_dir_def iw_proof_def iw_input_def)
  then have made: "Exchange no_urls (sg_cfg iw_G) sample_policy iw_dir 0 iw_proof ''console'' (NewResolver 0) =
      (fst iw_exchanged, Inr (projr (snd iw_exchanged)))"
    by (simp add: iw_exchanged_def prod_eq_iff)
  have mode: "cf_GroupsScoping (sg_cfg iw_G) = GroupsScopingEnforce" by (simp add: iw_G_def)
  have client: "map_of (p_Clients sample_policy) (eg_Audience (projr (snd iw_exchanged))) = Some (snd (hd (p_Clients sample_policy)))"
    using ok by (simp add: sample_policy_def)
  have grants: "SplitGroup n \<noteq> None" if "n \<in> set (c_Requires (snd (hd (p_Clients sample_policy))))" for n
  proof -
    have "list_all (\<lambda>n. SplitGroup n \<noteq> None) (c_Requires (snd (hd (p_Clients sample_policy))))" by code_simp
    then show ?thesis using that by (simp add: list_all_iff)
  qed
  show ?thesis using exchanged_token_shows_its_scope [OF made mode client grants] ok by simp
qed

theorem listed_witness:
  "''console'' \<in> on_Audience ` set (opened_by sample_policy (res_Groups (fst (projr (snd (evaluate_proof sample_policy iw_dir 0 iw_proof (NewResolver 0)))))))
    \<longleftrightarrow> (\<exists>grant. Exchange no_urls (sg_cfg iw_G) sample_policy iw_dir 0 iw_proof ''console'' (NewResolver 0) =
          (fst (evaluate_proof sample_policy iw_dir 0 iw_proof (NewResolver 0)), Inr grant))"
proof -
  let ?e = "evaluate_proof sample_policy iw_dir 0 iw_proof (NewResolver 0)"
  have "?e = (fst ?e, Inr (fst (projr (snd ?e)), snd (projr (snd ?e))))"
    by (simp add: evaluate_proof_def iw_proof_def Resolve_def iw_dir_def)
  then show ?thesis by (rule listed_exactly_when_exchanged) code_simp+
qed

theorem narrowing_witness:
  "map_of (shown_claims no_urls GroupsScopingEnforce sample_policy
       (shown_claims no_urls GroupsScopingEnforce sample_policy [(''sub'', VStr ''ann'')] ''console'' [''prod:k8s:admin'']) ''console'' [''prod:k8s:admin'']) =
     map_of (shown_claims no_urls GroupsScopingEnforce sample_policy [(''sub'', VStr ''ann'')] ''console'' [''prod:k8s:admin''])"
  by (rule narrowing_twice_is_narrowing_once [OF sample_valid])

text \<open>A client that describes itself at its own address.\<close>

definition iw_allow :: ClientDocuments where
  "iw_allow = \<lparr>cd_Origins = Some [''app.x.io''], cd_Requires = Some [''ops''], cd_TTLCap = 600, cd_Groups = no_override\<rparr>"

definition iw_fetch :: doc_fetch where
  "iw_fetch = \<lparr>df_parse = (\<lambda>_. Some \<lparr>u_Scheme = ''https'', u_Host = ''app.x.io'', u_HasUser = False, u_Fragment = []\<rparr>),
     df_printed = (\<lambda>_. ''https://app.x.io/c''),
     df_first = Fetched \<lparr>doc_ClientID = ''https://app.x.io/c'', doc_ClientName = ''App'', doc_RedirectURIs = [''https://app.x.io/cb'']\<rparr>,
     df_second = Refusing\<rparr>"

definition iw_document :: Client where
  "iw_document = projr (snd (Documents_Resolve iw_allow iw_fetch 0 ''https://app.x.io/c'' []))"

theorem document_witness:
  "c_Kind iw_document = KindPublic \<and> c_Requires iw_document = [''ops''] \<and> c_TTLCap iw_document = 600 \<and> \<not> c_SignInExchange iw_document"
proof -
  have "\<not> isl (snd (Documents_Resolve iw_allow iw_fetch 0 ''https://app.x.io/c'' []))" by code_simp
  then have "snd (Documents_Resolve iw_allow iw_fetch 0 ''https://app.x.io/c'' (documents_run iw_allow [])) = Inr iw_document"
    by (simp add: iw_document_def)
  from document_client_is_recent_and_bounded [OF this] show ?thesis by (simp add: iw_allow_def elems_def)
qed

text \<open>The console's tokens are signed with RS256, which has a ring.\<close>

definition iw_keys :: "Store KeyRings" where
  "iw_keys = \<lparr>ks_rings = [(''RS256'', w_ring)], ks_primary = ''RS256''\<rparr>"

definition iw_carried :: "Store Issuing \<times> (storage_err + AccessToken)" where
  "iw_carried = issue iw_G (iw_call 0) ''t3'' (CodeRequest iw_a) (issuing_new 0\<lparr>io_carrier := Some None\<rparr>)"

theorem signing_witness: "Rings_Has iw_keys (signingAlgorithmFor (sg_set iw_G) ''RS256'' ''console'')"
proof -
  have checked: "checkSigningAlgorithms (sg_set iw_G) iw_keys = None" by code_simp
  have has: "Rings_Has iw_keys (ks_primary iw_keys)" by code_simp
  have "\<not> isl (snd iw_carried)" by code_simp
  then have "issue iw_G (iw_call 0) ''t3'' (CodeRequest iw_a) (issuing_new 0\<lparr>io_carrier := Some None\<rparr>) =
      (fst iw_carried, Inr (projr (snd iw_carried)))"
    by (simp add: iw_carried_def prod_eq_iff)
  from token_is_signed_as_its_audience_asks [OF checked has this] show ?thesis
    by (simp add: iw_keys_def accessAudienceOf_def GetAudience_def own_audience_def iw_a_def completed_def iw_asked_def)
qed

definition iw_minted :: "Resolver \<times> (storage_err + minted)" where
  "iw_minted = MintFor iw_G (iw_keys\<lparr>ks_rings := [(''RS256'', w_ring\<lparr>kr_entries :=
     [(''k1'', (w_entry ''k1'' 0)\<lparr>re_signer := Some (w_key ''k1'')\<rparr>)], kr_activeID := ''k1''\<rparr>)]\<rparr>) (iw_call 0) ''j1'' '' Ann@x.io '' ''console'' 300000000000 (NewResolver 0)"

theorem minted_witness:
  "map_of (mt_Claims (projr (snd iw_minted))) ''sub'' = Some (VStr (to_lower (trim_space '' Ann@x.io '')))
    \<and> mt_Expires (projr (snd iw_minted)) \<le> now (iw_call 0) + 300000000000"
proof -
  have "\<not> isl (snd iw_minted)" by code_simp
  then have made: "iw_minted = (fst iw_minted, Inr (projr (snd iw_minted)))" by (simp add: prod_eq_iff)
  have "0 < cf_TokenLifetime (sg_cfg iw_G)" by (simp add: iw_G_def)
  from minted_token_is_the_persons_own [OF trans [OF iw_minted_def [symmetric] made] this] show ?thesis by simp
qed

end
