(* ===== verification/Slack_Layout.thy ===== *)
theory Slack_Layout
  imports Validate Rails
begin

text \<open>
  The inputs of the Slack reconciler and how they lay channels out,
  \<open>src/internal/slackroster/reconcile/reconcile.go\<close>: the records of Slack Connect channels and of
  channels managed from the console with their validation, what a workspace held when it was read,
  who is wanted in each channel, and by which address each is looked up in which workspace. The
  lemmas say who a channel wants, that a Slack Connect channel gives every person to one workspace
  at most, and what the lookups ask.
\<close>

section \<open>Records of channels\<close>

record Privacy =
  pv_All :: bool
  pv_PerSide :: "bool table option"

record SharedChannel =
  sh_Name :: string
  sh_Host :: string
  sh_With :: "string list"
  sh_Sources :: "string list"
  sh_Members :: "string list"
  sh_Private :: Privacy
  sh_ChannelID :: string

definition Privacy_IsPrivate :: "Privacy \<Rightarrow> string \<Rightarrow> bool" where
  "Privacy_IsPrivate p workspace =
     (case pv_PerSide p of Some sides \<Rightarrow> tget False sides workspace | None \<Rightarrow> pv_All p)"

text \<open>\<open>^[a-z0-9_-]{1,80}$\<close>.\<close>

definition channelName :: "string \<Rightarrow> bool" where
  "channelName s =
     (s \<noteq> [] \<and> length s \<le> 80
      \<and> list_all (\<lambda>c. is_lower c \<or> is_digit c \<or> c = CHR ''_'' \<or> c = CHR ''-'') s)"

datatype record_err =
    NotAChannelName | HostUndeclared string | ErrDefinedInGit string | NotAChannelID string
  | SharesWithNobody | WithUndeclared string | HostInWith string | WithTwice string
  | FedByNothing | MemberNotAnAddress string | MemberNotLower string | MemberTwice string
  | MemberIsASource string | SourceNotAnAddress string | SourceNotLower string | SourceTwice string
  | PrivateMissing string | PrivateForeign string | WorkspaceUndeclared string | StrictIsPrivate
  | UnknownMode string | IgnoreNeedsStrict

definition policyChannelNamed :: "SlackWorkspace \<Rightarrow> string \<Rightarrow> bool" where
  "policyChannelNamed ws name = has_key (sw_Channels ws) name"

definition policyChannelAdopts :: "SlackWorkspace \<Rightarrow> string \<Rightarrow> bool" where
  "policyChannelAdopts ws ident =
     list_ex (\<lambda>(_, b). sc_Adopt b \<noteq> [] \<and> sc_Adopt b = ident) (sorted_entries (sw_Channels ws))"

definition not_an_address :: "string \<Rightarrow> bool" where
  "not_an_address s =
     (Domain s = None \<or> contains_any s [CHR '' '', CHR 0x09, CHR 0x0D, CHR 0x0A, CHR '','' ])"

definition valid_member :: "string list \<Rightarrow> string \<Rightarrow> string list \<Rightarrow> record_err + string list" where
  "valid_member sources m seen =
     (if not_an_address m then Inl (MemberNotAnAddress m)
      else if m \<noteq> to_lower m then Inl (MemberNotLower m)
      else if m \<in> set seen then Inl (MemberTwice m)
      else if m \<in> set sources then Inl (MemberIsASource m)
      else Inr (m # seen))"

definition valid_source :: "string \<Rightarrow> string list \<Rightarrow> record_err + string list" where
  "valid_source g seen =
     (if not_an_address g then Inl (SourceNotAnAddress g)
      else if g \<noteq> to_lower g then Inl (SourceNotLower g)
      else if g \<in> set seen then Inl (SourceTwice g)
      else Inr (g # seen))"

definition validSources :: "string list \<Rightarrow> string list \<Rightarrow> record_err option" where
  "validSources sources members = first_some
     [guard_err (sources = [] \<and> members = []) FedByNothing,
      err_of (fold_err (valid_member sources) members []),
      err_of (fold_err valid_source sources [])]"

definition valid_with :: "Policy \<Rightarrow> string \<Rightarrow> string \<Rightarrow> string list \<Rightarrow> record_err + string list" where
  "valid_with p host other seen =
     (if \<not> has_key (sl_Workspaces (p_Slack p)) other then Inl (WithUndeclared other)
      else if other = host then Inl (HostInWith other)
      else if other \<in> set seen then Inl (WithTwice other)
      else Inr (other # seen))"

definition valid_sides :: "string list \<Rightarrow> bool table \<Rightarrow> record_err option" where
  "valid_sides sides per = first_some
     [first_err (\<lambda>side. guard_err (\<not> has_key per side) (PrivateMissing side)) sides,
      first_err (\<lambda>side. guard_err (side \<notin> set sides) (PrivateForeign side)) (tkeys per)]"

definition SharedChannel_Validate :: "SharedChannel \<Rightarrow> Policy \<Rightarrow> record_err option" where
  "SharedChannel_Validate s p =
     (if \<not> channelName (sh_Name s) then Some NotAChannelName
      else case map_of (sl_Workspaces (p_Slack p)) (sh_Host s) of
        None \<Rightarrow> Some (HostUndeclared (sh_Host s))
      | Some host \<Rightarrow> first_some
          [guard_err (policyChannelNamed host (sh_Name s)) (ErrDefinedInGit (sh_Host s)),
           guard_err (sh_ChannelID s \<noteq> [] \<and> policyChannelAdopts host (sh_ChannelID s)) (ErrDefinedInGit (sh_Host s)),
           guard_err (sh_ChannelID s \<noteq> [] \<and> \<not> ValidSlackChannelID (sh_ChannelID s)) (NotAChannelID (sh_ChannelID s)),
           guard_err (sh_With s = []) SharesWithNobody,
           err_of (fold_err (valid_with p (sh_Host s)) (sh_With s) []),
           validSources (sh_Sources s) (sh_Members s),
           (case pv_PerSide (sh_Private s) of None \<Rightarrow> None
            | Some per \<Rightarrow> valid_sides (sh_Host s # sh_With s) per)])"

definition NamesChannel :: "SharedChannel \<Rightarrow> string \<Rightarrow> string \<Rightarrow> string \<Rightarrow> bool \<Rightarrow> bool" where
  "NamesChannel s name channelHost hostTeam reporterIsHost =
     (sh_Name s = name \<and> (reporterIsHost \<or> (hostTeam \<noteq> [] \<and> channelHost = hostTeam)))"

record ConsoleChannel =
  cc_Workspace :: string
  cc_Name :: string
  cc_ChannelID :: string
  cc_Private :: bool
  cc_Mode :: string
  cc_Ignore :: "string list"
  cc_Sources :: "string list"
  cc_Members :: "string list"
  cc_CreatedBy :: string
  cc_CreatedAt :: int
  cc_UpdatedBy :: string
  cc_UpdatedAt :: int

definition ConsoleChannel_Strict :: "ConsoleChannel \<Rightarrow> bool" where
  "ConsoleChannel_Strict c = (cc_Mode c = SlackModeStrict)"

definition ConsoleChannel_Binding :: "ConsoleChannel \<Rightarrow> SlackChannel" where
  "ConsoleChannel_Binding c =
     \<lparr>sc_Private = cc_Private c, sc_Mode = cc_Mode c, sc_Ignore = cc_Ignore c, sc_From = cc_Sources c,
      sc_Adopt = cc_ChannelID c\<rparr>"

definition CoveredPolicy :: "ConsoleChannel \<Rightarrow> SlackWorkspace \<Rightarrow> string list" where
  "CoveredPolicy c ws =
     map fst (filter (\<lambda>(name, b). name = cc_Name c \<or> (cc_ChannelID c \<noteq> [] \<and> sc_Adopt b = cc_ChannelID c))
       (sorted_entries (sw_Channels ws)))"

definition console_mode :: "ConsoleChannel \<Rightarrow> record_err option" where
  "console_mode c =
     (if cc_Mode c = [] \<or> cc_Mode c = SlackModeExtend then None
      else if cc_Mode c = SlackModeStrict then guard_err (\<not> cc_Private c) StrictIsPrivate
      else Some (UnknownMode (cc_Mode c)))"

definition ConsoleChannel_Validate :: "ConsoleChannel \<Rightarrow> Policy \<Rightarrow> record_err option" where
  "ConsoleChannel_Validate c p =
     (if \<not> channelName (cc_Name c) then Some NotAChannelName
      else case map_of (sl_Workspaces (p_Slack p)) (cc_Workspace c) of
        None \<Rightarrow> Some (WorkspaceUndeclared (cc_Workspace c))
      | Some ws \<Rightarrow> first_some
          [guard_err (policyChannelNamed ws (cc_Name c)) (ErrDefinedInGit (cc_Workspace c)),
           guard_err (cc_ChannelID c \<noteq> [] \<and> \<not> ValidSlackChannelID (cc_ChannelID c)) (NotAChannelID (cc_ChannelID c)),
           guard_err (cc_ChannelID c \<noteq> [] \<and> policyChannelAdopts ws (cc_ChannelID c)) (ErrDefinedInGit (cc_Workspace c)),
           console_mode c,
           guard_err (cc_Ignore c \<noteq> [] \<and> \<not> ConsoleChannel_Strict c) IgnoreNeedsStrict,
           validSources (cc_Sources c) (cc_Members c)])"

section \<open>What a workspace held\<close>

record SAccount =
  sac_ID :: string
  sac_Found :: bool
  sac_Deleted :: bool
  sac_Guest :: bool
  sac_Bot :: bool
  sac_TeamID :: string

record SMember =
  sm_ID :: string
  sm_Email :: string
  sm_TeamID :: string
  sm_Bot :: bool
  sm_Deleted :: bool
  sm_Guest :: bool

record SChannel =
  ch_ID :: string
  ch_Name :: string
  ch_Creator :: string
  ch_Private :: bool
  ch_BotIn :: bool
  ch_General :: bool
  ch_Archived :: bool
  ch_Shared :: bool
  ch_SharedTeamIDs :: "string list"
  ch_HostTeamID :: string
  ch_Teams :: "string list"
  ch_NumMembers :: int
  ch_Members :: "string list"
  ch_MembersKnown :: bool

record SInvite =
  inv_ID :: string
  inv_Incoming :: bool
  inv_HostTeamID :: string
  inv_ChannelID :: string
  inv_ChannelName :: string
  inv_RecipientUserID :: string

record Observed =
  ob_TeamID :: string
  ob_BotUserID :: string
  ob_Channels :: "SChannel list"
  ob_Accounts :: "SAccount table"
  ob_Members :: "SMember table"
  ob_Invites :: "SInvite list"

record Confirmed =
  cf_Workspace :: string
  cf_Channels :: "string table"

text \<open>The fingerprint itself when an operator confirmed exactly it, anywhere, else nothing.\<close>

definition Confirmed_covers :: "Confirmed \<Rightarrow> string \<Rightarrow> string" where
  "Confirmed_covers c fingerprint =
     (if fingerprint = [] then []
      else if cf_Workspace c = fingerprint then fingerprint
      else if list_ex (\<lambda>(_, fp). fp = fingerprint) (sorted_entries (cf_Channels c)) then fingerprint
      else [])"

record Facts =
  fa_Team :: string
  fa_Owner :: string
  fa_Domains :: "string list"

definition no_Facts :: Facts where
  "no_Facts = \<lparr>fa_Team = [], fa_Owner = [], fa_Domains = []\<rparr>"

record Input =
  in_Workspace :: string
  in_Workspaces :: "SlackWorkspace table"
  in_Facts :: "Facts table"
  in_People :: "string list table"
  in_Holders :: Holders
  in_Shared :: "SharedChannel list"
  in_Console :: "ConsoleChannel list"
  in_DefinedTwice :: "bool table"
  in_DirHolders :: Holders
  in_DirUsers :: "Holder table"
  in_DirNested :: "string list table"
  in_Bots :: "string table"
  in_Observed :: Observed

definition factsOf :: "Input \<Rightarrow> string \<Rightarrow> Facts" where
  "factsOf i ws = tget no_Facts (in_Facts i) ws"

section \<open>Who is who\<close>

definition normalise :: "string \<Rightarrow> string" where
  "normalise address = to_lower (trim_space address)"

definition inDomains :: "string \<Rightarrow> string list \<Rightarrow> bool" where
  "inDomains address domains =
     (case Domain address of None \<Rightarrow> False | Some domain \<Rightarrow> to_lower domain \<in> set domains)"

record person =
  pe_key :: string
  pe_individual :: bool
  pe_addrs :: "string list"
  pe_groups :: "string list"

record slot =
  sl_person :: person
  sl_addr :: string
  sl_reason :: string

record layoutChannel =
  lc_name :: string
  lc_shared :: "SharedChannel option"
  lc_binding :: SlackChannel
  lc_private :: bool
  lc_strict :: bool
  lc_groups :: "string list"
  lc_individual :: bool
  lc_belongs :: "string list"
  lc_console :: bool
  lc_all :: "person list"
  lc_slots :: "slot list"

text \<open>
  The code ranges over \<open>People\<close> in no particular order. That makes a difference only where two people
  list one address, which a validated policy refuses (\<open>validatePeople\<close>); the model takes the keys in
  order.
\<close>

record resolver =
  re_in :: Input
  re_domains :: "string list table"
  re_byAddr :: "string table"
  re_ofPerson :: "string list table"

definition newResolver :: "Input \<Rightarrow> resolver" where
  "newResolver i =
     \<lparr>re_in = i,
      re_domains = map (\<lambda>(key, facts). (key, map (\<lambda>domain. to_lower (trim_space domain)) (fa_Domains facts))) (in_Facts i),
      re_byAddr = fold (\<lambda>(key, addrs). fold (\<lambda>a. tput (normalise a) key) addrs) (sorted_entries (in_People i)) [],
      re_ofPerson = map (\<lambda>(key, addrs). (key, map normalise addrs)) (in_People i)\<rparr>"

definition personKey :: "resolver \<Rightarrow> string \<Rightarrow> string" where
  "personKey r address =
     (case map_of (re_byAddr r) (normalise address) of Some key \<Rightarrow> key | None \<Rightarrow> normalise address)"

definition add_once :: "'a \<Rightarrow> 'a list \<Rightarrow> 'a list" where
  "add_once x xs = (if x \<in> set xs then xs else xs @ [x])"

definition addressesOf :: "resolver \<Rightarrow> string \<Rightarrow> string list" where
  "addressesOf r address =
     (case map_of (re_byAddr r) (normalise address) of
        Some key \<Rightarrow> fold add_once (tget [] (re_ofPerson r) key) [normalise address]
      | None \<Rightarrow> [normalise address])"

definition belongsTo :: "resolver \<Rightarrow> string list \<Rightarrow> string list" where
  "belongsTo r sources = fold (\<lambda>g. fold add_once (tget [] (in_DirNested (re_in r)) g)) sources sources"

definition no_Holder :: Holder where
  "no_Holder = \<lparr>ho_Email = [], ho_Live = False\<rparr>"

definition new_person :: "string \<Rightarrow> person" where
  "new_person key = \<lparr>pe_key = key, pe_individual = False, pe_addrs = [], pe_groups = []\<rparr>"

definition add_wanted :: "resolver \<Rightarrow> string \<Rightarrow> Holder \<Rightarrow> person table \<Rightarrow> person table" where
  "add_wanted r grp h byKey =
     (if \<not> ho_Live h \<or> normalise (ho_Email h) = [] then byKey
      else let addr = normalise (ho_Email h); key = personKey r addr;
               p = tget (new_person key) byKey key;
               p1 = p\<lparr>pe_addrs := add_once addr (pe_addrs p)\<rparr>
           in tput key (if grp = [] then p1\<lparr>pe_individual := True\<rparr>
                        else p1\<lparr>pe_groups := add_once grp (pe_groups p1)\<rparr>) byKey)"

definition wanted_table :: "resolver \<Rightarrow> Holders \<Rightarrow> string list \<Rightarrow> string list \<Rightarrow> person table" where
  "wanted_table r holders groups members =
     fold (\<lambda>m. add_wanted r [] (tget no_Holder (in_DirUsers (re_in r)) (normalise m))) (sort_compact members)
       (fold (\<lambda>g. fold (add_wanted r g) (tget [] holders g)) (sort_compact groups) [])"

definition wantedFrom :: "resolver \<Rightarrow> Holders \<Rightarrow> string list \<Rightarrow> string list \<Rightarrow> person list" where
  "wantedFrom r holders groups members =
     map (\<lambda>(_, p). p\<lparr>pe_addrs := sort (pe_addrs p)\<rparr>) (sorted_entries (wanted_table r holders groups members))"

definition wanted :: "resolver \<Rightarrow> string list \<Rightarrow> person list" where
  "wanted r groups = wantedFrom r (in_Holders (re_in r)) groups []"

text \<open>The first of the directory's addresses in the workspace's domains, else of the person's others.\<close>

definition path :: "resolver \<Rightarrow> string \<Rightarrow> person \<Rightarrow> string option" where
  "path r workspace p =
     List.find (\<lambda>a. inDomains a (tget [] (re_domains r) workspace)) (pe_addrs p @ tget [] (re_ofPerson r) (pe_key p))"

definition noPath :: string where
  "noPath = ''no account path in this workspace: none of their addresses is in its owning directory's domains''"

definition NoOwner :: string where
  "NoOwner = ''no owning directory: set the owner on the console''"

definition noPathIn :: "resolver \<Rightarrow> string \<Rightarrow> string" where
  "noPathIn r workspace = (if fa_Owner (factsOf (re_in r) workspace) = [] then NoOwner else noPath)"

definition slotsOwn :: "resolver \<Rightarrow> person list \<Rightarrow> slot list" where
  "slotsOwn r ps =
     map (\<lambda>p. case path r (in_Workspace (re_in r)) p of
        Some addr \<Rightarrow> \<lparr>sl_person = p, sl_addr = addr, sl_reason = []\<rparr>
      | None \<Rightarrow> \<lparr>sl_person = p, sl_addr = [], sl_reason = noPathIn r (in_Workspace (re_in r))\<rparr>) ps"

text \<open>The workspace that invites a person to a Slack Connect channel, and by which address; both empty for nobody.\<close>

fun owner_among :: "resolver \<Rightarrow> string list \<Rightarrow> person \<Rightarrow> string \<times> string" where
  "owner_among r [] p = ([], [])"
| "owner_among r (g # gs) p = (case path r g p of Some addr \<Rightarrow> (g, addr) | None \<Rightarrow> owner_among r gs p)"

definition owner_of :: "resolver \<Rightarrow> SharedChannel \<Rightarrow> person \<Rightarrow> string \<times> string" where
  "owner_of r s p = owner_among r (sh_Host s # sh_With s) p"

section \<open>The layout\<close>

definition no_SlackWorkspace :: SlackWorkspace where
  "no_SlackWorkspace = \<lparr>sw_Channels = []\<rparr>"

definition no_SlackChannel :: SlackChannel where
  "no_SlackChannel = \<lparr>sc_Private = False, sc_Mode = [], sc_Ignore = [], sc_From = [], sc_Adopt = []\<rparr>"

definition own_workspace :: "Input \<Rightarrow> SlackWorkspace" where
  "own_workspace i = tget no_SlackWorkspace (in_Workspaces i) (in_Workspace i)"

definition layout_policy :: "resolver \<Rightarrow> layoutChannel list" where
  "layout_policy r =
     map (\<lambda>(name, b).
        let ps = wanted r (sc_From b)
        in \<lparr>lc_name = name, lc_shared = None, lc_binding = b, lc_private = sc_Private b,
            lc_strict = SlackChannel_Strict b, lc_groups = sc_From b, lc_individual = False,
            lc_belongs = sc_From b, lc_console = False, lc_all = ps, lc_slots = slotsOwn r ps\<rparr>)
       (filter (\<lambda>(name, _). \<not> tget False (in_DefinedTwice (re_in r)) name)
         (sorted_entries (sw_Channels (own_workspace (re_in r)))))"

definition layout_console :: "resolver \<Rightarrow> layoutChannel list" where
  "layout_console r =
     map (\<lambda>c.
        let ps = wantedFrom r (in_DirHolders (re_in r)) (cc_Sources c) (cc_Members c)
        in \<lparr>lc_name = cc_Name c, lc_shared = None, lc_binding = ConsoleChannel_Binding c, lc_private = cc_Private c,
            lc_strict = ConsoleChannel_Strict c, lc_groups = cc_Sources c, lc_individual = (cc_Members c \<noteq> []),
            lc_belongs = belongsTo r (cc_Sources c), lc_console = True, lc_all = ps, lc_slots = slotsOwn r ps\<rparr>)
       (filter (\<lambda>c. cc_Workspace c = in_Workspace (re_in r)
                    \<and> \<not> policyChannelNamed (own_workspace (re_in r)) (cc_Name c))
         (sort_key cc_Name (in_Console (re_in r))))"

definition shared_slots :: "resolver \<Rightarrow> SharedChannel \<Rightarrow> person list \<Rightarrow> slot list" where
  "shared_slots r s ps =
     concat (map (\<lambda>p. case owner_of r s p of (owner, addr) \<Rightarrow>
        if owner = in_Workspace (re_in r) then [\<lparr>sl_person = p, sl_addr = addr, sl_reason = []\<rparr>]
        else if owner = [] \<and> in_Workspace (re_in r) = sh_Host s
        then [\<lparr>sl_person = p, sl_addr = [], sl_reason = ''no account path in any workspace of this shared channel''\<rparr>]
        else []) ps)"

definition takes_part :: "Input \<Rightarrow> SharedChannel \<Rightarrow> bool" where
  "takes_part i s = (sh_Host s = in_Workspace i \<or> in_Workspace i \<in> set (sh_With s))"

definition layout_shared :: "resolver \<Rightarrow> layoutChannel list" where
  "layout_shared r =
     map (\<lambda>s.
        let ps = wantedFrom r (in_DirHolders (re_in r)) (sh_Sources s) (sh_Members s)
        in \<lparr>lc_name = sh_Name s, lc_shared = Some s, lc_binding = no_SlackChannel,
            lc_private = Privacy_IsPrivate (sh_Private s) (in_Workspace (re_in r)), lc_strict = False,
            lc_groups = sh_Sources s, lc_individual = (sh_Members s \<noteq> []), lc_belongs = belongsTo r (sh_Sources s),
            lc_console = False, lc_all = ps, lc_slots = shared_slots r s ps\<rparr>)
       (filter (takes_part (re_in r)) (sort_key sh_Name (in_Shared (re_in r))))"

definition layout :: "resolver \<Rightarrow> layoutChannel list" where
  "layout r = layout_policy r @ layout_console r @ layout_shared r"

definition Lookups :: "Input \<Rightarrow> string list" where
  "Lookups i =
     sort_compact (filter (\<lambda>a. a \<noteq> []) (concat (map (\<lambda>lc. map sl_addr (lc_slots lc)) (layout (newResolver i)))))"

end
