(* ===== verification/Slack_Reconcile.thy ===== *)
theory Slack_Reconcile
  imports Slack_Layout
begin

text \<open>
  The decision of the Slack reconciler, \<open>src/internal/slackroster/reconcile/derive.go\<close> and
  \<open>decide.go\<close>, with the report it fills in (\<open>src/internal/slackroster/status/status.go\<close>):
  \<open>Slack_Derive\<close> works out what the inputs settle and fails on a read that is not whole, \<open>Slack_Confirm\<close>
  names the addresses the directory is asked about, \<open>Slack_Decide\<close> finishes with its answers. A Go map
  from plans to rows is a list of row lists in the order of the plans; \<^const>\<open>None\<close> stands for a decision
  that panics on a row or a channel it does not have.
\<close>

section \<open>The report\<close>

datatype SState = NoState | StateOK | StateWillInvite | StateWillRemove | StateHeld | StateRetrying | StateReported | StateIgnored

datatype SKind = NoAction | ActionCreate | ActionAdopt | ActionInvite | ActionRemove | ActionShareInvite | ActionShareAccept

datatype ChannelState = ChannelOK | ChannelWillCreate | ChannelWillAdopt | ChannelWillAccept | ChannelWaiting | ChannelHeld

record SRow =
  sr_Person :: string
  sr_Email :: string
  sr_UserID :: string
  sr_State :: SState
  sr_Action :: SKind
  sr_Reason :: string

record StatusChannel =
  stc_Name :: string
  stc_ID :: string
  stc_Private :: bool
  stc_Mode :: string
  stc_Shared :: bool
  stc_Host :: string
  stc_Console :: bool
  stc_State :: ChannelState
  stc_Reason :: string
  stc_Members :: "SRow list"
  stc_Breaker :: "Breaker option"

record Leaver =
  lv_Email :: string
  lv_UserID :: string
  lv_Channels :: "string list"
  lv_Reason :: string

record Discovered =
  di_ID :: string
  di_Name :: string
  di_Private :: bool
  di_Members :: int
  di_HostTeam :: string
  di_Teams :: "string list"
  di_Managed :: bool

record StatusWorkspace =
  sw_Workspace :: string
  sw_Team :: string
  sw_Tick :: Tick
  sw_Reports :: "StatusChannel list"
  sw_DiscoveredShared :: "Discovered list"
  sw_Discovered :: "Discovered list"
  sw_DiscoveredMore :: nat
  sw_Leavers :: "Leaver list"
  sw_Breaker :: "Breaker option"

definition MaxDiscovered :: nat where "MaxDiscovered = 500"

record SAction =
  act_Kind :: SKind
  act_Channel :: string
  act_ChannelID :: string
  act_Private :: bool
  act_User :: string
  act_Person :: string
  act_Email :: string
  act_Groups :: "string list"
  act_Reason :: string
  act_Host :: string
  act_Guest :: string
  act_GuestBot :: string
  act_InviteID :: string
  act_Shared :: bool

record SHeld =
  hd_Channel :: string
  hd_Person :: string
  hd_Email :: string
  hd_Change :: string
  hd_Reason :: string

definition SHeld_Key :: "SHeld \<Rightarrow> string" where
  "SHeld_Key h = join ''|'' [hd_Channel h, hd_Person h, hd_Change h, hd_Reason h]"

record Adoption =
  ad_Channel :: string
  ad_ID :: string
  ad_Private :: bool
  ad_Joins :: bool

record SDecision =
  de_Report :: StatusWorkspace
  de_Actions :: "SAction list"
  de_Held :: "SHeld list"
  de_Adopted :: "Adoption list"

definition action_of :: "SKind \<Rightarrow> layoutChannel \<Rightarrow> SAction" where
  "action_of k lc =
     \<lparr>act_Kind = k, act_Channel = lc_name lc, act_ChannelID = [], act_Private = lc_private lc, act_User = [], act_Person = [],
      act_Email = [], act_Groups = [], act_Reason = [], act_Host = [], act_Guest = [], act_GuestBot = [], act_InviteID = [],
      act_Shared = (lc_shared lc \<noteq> None)\<rparr>"

definition held_of :: "string \<Rightarrow> string \<Rightarrow> string \<Rightarrow> SHeld" where
  "held_of channel change reason =
     \<lparr>hd_Channel = channel, hd_Person = [], hd_Email = [], hd_Change = change, hd_Reason = reason\<rparr>"

section \<open>Where a channel stands\<close>

datatype resKind = resOK | resCreate | resJoin | resAccept | resHeld | resWaiting

record resolved =
  rs_kind :: resKind
  rs_reason :: string
  rs_adopted :: bool
  rs_change :: string
  rs_ch :: "SChannel option"
  rs_invite :: "SInvite option"

definition res_of :: "resKind \<Rightarrow> SChannel option \<Rightarrow> resolved" where
  "res_of k ch = \<lparr>rs_kind = k, rs_reason = [], rs_adopted = False, rs_change = [], rs_ch = ch, rs_invite = None\<rparr>"

definition res_held :: "SChannel option \<Rightarrow> string \<Rightarrow> string \<Rightarrow> resolved" where
  "res_held ch change reason = (res_of resHeld ch)\<lparr>rs_change := change, rs_reason := reason\<rparr>"

definition res_usable :: "resolved \<Rightarrow> bool" where
  "res_usable r = (rs_kind r = resOK \<or> rs_kind r = resCreate \<or> rs_kind r = resJoin \<or> rs_kind r = resAccept)"

record extra =
  ex_member :: SMember
  ex_key :: string
  ex_addrs :: "string list"
  ex_inDomain :: bool

record plan =
  pl_lc :: layoutChannel
  pl_res :: resolved
  pl_notes :: "string list"
  pl_heldShare :: bool
  pl_rows :: "SRow list"
  pl_chanActs :: "SAction list"
  pl_shareActs :: "SAction list"
  pl_inviteActs :: "SAction list"
  pl_held :: "SHeld list"
  pl_members :: "string list option"
  pl_extras :: "extra list"

record SDraft =
  dr_in :: Input
  dr_r :: resolver
  dr_plans :: "plan list"

definition visibility :: "bool \<Rightarrow> string" where
  "visibility private = (if private then ''private'' else ''public'')"

definition byID :: "Input \<Rightarrow> string \<Rightarrow> SChannel option" where
  "byID i ident = List.find (\<lambda>ch. ch_ID ch = ident) (ob_Channels (in_Observed i))"

definition byName :: "Input \<Rightarrow> string \<Rightarrow> SChannel option" where
  "byName i name = List.find (\<lambda>ch. ch_Name ch = name) (ob_Channels (in_Observed i))"

definition ready :: "SChannel \<Rightarrow> bool \<Rightarrow> bool \<Rightarrow> resolved" where
  "ready ch private joinable =
     (if ch_Private ch \<noteq> private
      then res_held (Some ch) ''adopt'' (''the channel is '' @ visibility (ch_Private ch) @ '' in Slack but the policy says ''
             @ visibility private @ ''; change one of them, the roster never changes visibility'')
      else if \<not> ch_BotIn ch \<and> ch_Private ch
      then res_held (Some ch) ''adopt'' ''the bot is not in this private channel: invite the bot first''
      else if \<not> ch_BotIn ch \<and> joinable then res_of resJoin (Some ch)
      else if \<not> ch_BotIn ch then res_held (Some ch) ''adopt'' ''the bot is not in this channel''
      else res_of resOK (Some ch))"

definition archivedReason :: "string \<Rightarrow> string \<Rightarrow> string" where
  "archivedReason name ident =
     ''the channel '' @ name @ '' ('' @ ident @ '') is archived: unarchive it in Slack or rename it; the roster never unarchives''"

definition adopting :: "(resolved \<Rightarrow> bool) \<Rightarrow> resolved \<Rightarrow> resolved" where
  "adopting f res = res\<lparr>rs_adopted := f res\<rparr>"

definition bound_channel :: "Input \<Rightarrow> layoutChannel \<Rightarrow> SChannel \<Rightarrow> resolved" where
  "bound_channel i lc ch =
     (if ch_Archived ch then res_held (Some ch) ''adopt'' (archivedReason (lc_name lc) (ch_ID ch))
      else adopting (\<lambda>res. res_usable res \<and> ch_Creator ch \<noteq> ob_BotUserID (in_Observed i)) (ready ch (lc_private lc) True))"

definition resolveBound :: "Input \<Rightarrow> layoutChannel \<Rightarrow> resolved" where
  "resolveBound i lc =
     (let ident = sc_Adopt (lc_binding lc)
      in if ident \<noteq> []
         then (case byID i ident of
             None \<Rightarrow> res_held None ''adopt'' (''adopt '' @ ident
               @ '': the bot cannot see that channel; if it is private, invite the bot first, otherwise check the id'')
           | Some ch \<Rightarrow>
               (if ch_Shared ch then res_held (Some ch) ''adopt'' (''adopt '' @ ident
                  @ '' is a Slack Connect channel; it is managed as a shared channel, not bound here'')
                else bound_channel i lc ch))
         else (case byName i (lc_name lc) of
             None \<Rightarrow> res_of resCreate None
           | Some ch \<Rightarrow>
               (if ch_Shared ch then res_held (Some ch) ''adopt'' (''a channel named '' @ lc_name lc @ '' ('' @ ch_ID ch
                  @ '') is a Slack Connect channel; it is managed as a shared channel, not bound here'')
                else bound_channel i lc ch)))"

definition host_channel :: "Input \<Rightarrow> layoutChannel \<Rightarrow> SharedChannel \<Rightarrow> SChannel \<Rightarrow> resolved" where
  "host_channel i lc s ch =
     (let madeHere = (ch_Creator ch = ob_BotUserID (in_Observed i))
      in if ch_Archived ch then res_held (Some ch) ''create'' (archivedReason (lc_name lc) (ch_ID ch))
         else if sh_ChannelID s = [] \<and> \<not> madeHere \<and> \<not> ch_Shared ch
         then res_held (Some ch) ''create'' (''a channel named '' @ lc_name lc @ '' already exists here ('' @ ch_ID ch
                @ '') and this roster did not create it'')
         else adopting (\<lambda>res. res_usable res \<and> \<not> madeHere) (ready ch (lc_private lc) True))"

definition resolveHost :: "Input \<Rightarrow> layoutChannel \<Rightarrow> SharedChannel \<Rightarrow> resolved" where
  "resolveHost i lc s =
     (let ident = sh_ChannelID s
      in if ident \<noteq> []
         then (case byID i ident of
             None \<Rightarrow> res_held None ''adopt'' (''the recorded channel '' @ ident
               @ '' is not visible to the bot; if it is private, invite the bot to it first, otherwise check the id'')
           | Some ch \<Rightarrow> host_channel i lc s ch)
         else (case byName i (lc_name lc) of
             None \<Rightarrow> res_of resCreate None
           | Some ch \<Rightarrow> host_channel i lc s ch))"

text \<open>The host's invitation for this channel, among those the workspace holds.\<close>

definition invite_for :: "Input \<Rightarrow> layoutChannel \<Rightarrow> SharedChannel \<Rightarrow> SInvite option" where
  "invite_for i lc s =
     (let host = fa_Team (factsOf i (sh_Host s)); ident = sh_ChannelID s
      in List.find (\<lambda>iv. \<not> (host = [] \<or> \<not> inv_Incoming iv \<or> inv_HostTeamID iv \<noteq> host
              \<or> inv_RecipientUserID iv \<noteq> ob_BotUserID (in_Observed i))
            \<and> ((ident \<noteq> [] \<and> inv_ChannelID iv = ident) \<or> (ident = [] \<and> inv_ChannelName iv = lc_name lc)))
          (ob_Invites (in_Observed i)))"

definition resolveGuest :: "Input \<Rightarrow> layoutChannel \<Rightarrow> SharedChannel \<Rightarrow> resolved" where
  "resolveGuest i lc s =
     (let ident = sh_ChannelID s
      in case (if ident \<noteq> [] then byID i ident else byName i (lc_name lc)) of
        Some ch \<Rightarrow>
          (if ch_Archived ch then res_held (Some ch) ''share'' (archivedReason (lc_name lc) (ch_ID ch))
           else if \<not> ch_Shared ch
           then res_held (Some ch) ''share'' (''a channel named '' @ lc_name lc @ '' already exists here and is not the shared channel'')
           else adopting (\<lambda>res. rs_kind res = resJoin) (ready ch (lc_private lc) True))
      | None \<Rightarrow>
          (case invite_for i lc s of
             Some iv \<Rightarrow> (res_of resAccept None)\<lparr>rs_invite := Some iv\<rparr>
           | None \<Rightarrow> (res_of resWaiting None)\<lparr>rs_reason :=
               (if ident \<noteq> []
                then ''the channel '' @ ident @ '' is not visible to this workspace's bot: waiting for '' @ sh_Host s
                  @ '' to invite this workspace, or, if it is already shared and private on this side, invite the bot to it''
                else ''waiting for '' @ sh_Host s @ '' to invite this workspace'')\<rparr>))"

definition resolve_channel :: "Input \<Rightarrow> layoutChannel \<Rightarrow> resolved" where
  "resolve_channel i lc =
     (case lc_shared lc of
        None \<Rightarrow> resolveBound i lc
      | Some s \<Rightarrow> (if sh_Host s = in_Workspace i then resolveHost i lc s else resolveGuest i lc s))"

section \<open>Deriving\<close>

datatype derive_err = NotDeclared string | MembersNotRead string string | NeverLookedUp string | NotIdentified string string

text \<open>A loop that collects what each element gives and stops at the first error.\<close>

fun map_err :: "('a \<Rightarrow> 'e + 'b) \<Rightarrow> 'a list \<Rightarrow> 'e + 'b list" where
  "map_err f [] = Inr []"
| "map_err f (x # xs) =
     (case f x of Inl e \<Rightarrow> Inl e
      | Inr y \<Rightarrow> (case map_err f xs of Inl e \<Rightarrow> Inl e | Inr ys \<Rightarrow> Inr (y # ys)))"

definition ch_id :: "SChannel option \<Rightarrow> string" where
  "ch_id ch = (case ch of None \<Rightarrow> [] | Some c \<Rightarrow> ch_ID c)"

definition channel_actions :: "Input \<Rightarrow> layoutChannel \<Rightarrow> resolved \<Rightarrow> SAction list" where
  "channel_actions i lc res =
     (case rs_kind res of
        resCreate \<Rightarrow> [(action_of ActionCreate lc)\<lparr>act_Reason := ''the policy binds a channel that does not exist''\<rparr>]
      | resJoin \<Rightarrow> [(action_of ActionAdopt lc)\<lparr>act_ChannelID := ch_id (rs_ch res),
                     act_Reason := ''the bot joins a public channel to manage it''\<rparr>]
      | resAccept \<Rightarrow> [(action_of ActionShareAccept lc)\<lparr>act_Shared := True,
                     act_Host := (case lc_shared lc of None \<Rightarrow> [] | Some s \<Rightarrow> sh_Host s), act_Guest := in_Workspace i,
                     act_InviteID := (case rs_invite res of None \<Rightarrow> [] | Some iv \<Rightarrow> inv_ID iv),
                     act_Reason := ''the host invited this workspace''\<rparr>]
      | _ \<Rightarrow> [])"

definition channel_held :: "layoutChannel \<Rightarrow> resolved \<Rightarrow> SHeld list" where
  "channel_held lc res = (if rs_kind res = resHeld then [held_of (lc_name lc) (rs_change res) (rs_reason res)] else [])"

definition rowEmail :: "slot \<Rightarrow> string" where
  "rowEmail s =
     (if sl_addr s \<noteq> [] then sl_addr s
      else case pe_addrs (sl_person s) of [] \<Rightarrow> [] | a # _ \<Rightarrow> a)"

definition share_invite :: "Input \<Rightarrow> plan \<Rightarrow> string \<Rightarrow> SAction" where
  "share_invite i p g =
     (action_of ActionShareInvite (pl_lc p))\<lparr>act_Shared := True, act_Host := in_Workspace i, act_Guest := g,
        act_GuestBot := tget [] (in_Bots i) g, act_ChannelID := ch_id (rs_ch (pl_res p)),
        act_Reason := ''the channel is shared with '' @ g\<rparr>"

definition shared_already :: "Input \<Rightarrow> SChannel option \<Rightarrow> string \<Rightarrow> bool" where
  "shared_already i ch g =
     (case ch of None \<Rightarrow> False
      | Some c \<Rightarrow> (let team = fa_Team (factsOf i g)
                   in team \<noteq> [] \<and> (team \<in> set (ch_SharedTeamIDs c) \<or> team \<in> set (ch_Teams c))))"

definition share_pending :: "Input \<Rightarrow> SChannel option \<Rightarrow> string \<Rightarrow> bool" where
  "share_pending i ch guestBot =
     (case ch of None \<Rightarrow> False
      | Some c \<Rightarrow> list_ex (\<lambda>iv. \<not> inv_Incoming iv \<and> inv_ChannelID iv = ch_ID c \<and> inv_RecipientUserID iv = guestBot \<and> guestBot \<noteq> [])
                    (ob_Invites (in_Observed i)))"

definition share_one :: "Input \<Rightarrow> string \<Rightarrow> plan \<Rightarrow> plan" where
  "share_one i g p =
     (let guestBot = tget [] (in_Bots i) g; ch = rs_ch (pl_res p);
          reason = g @ '' is not connected: its bot user id is unknown, so it cannot be invited''
      in if shared_already i ch g then p
         else if share_pending i ch guestBot then p\<lparr>pl_notes := pl_notes p @ [''waiting for '' @ g @ '' to accept'']\<rparr>
         else if guestBot = []
         then p\<lparr>pl_notes := pl_notes p @ [reason], pl_heldShare := True,
                pl_held := pl_held p @ [held_of (lc_name (pl_lc p)) ''share-invite'' reason]\<rparr>
         else p\<lparr>pl_shareActs := pl_shareActs p @ [share_invite i p g]\<rparr>)"

definition shareActions :: "Input \<Rightarrow> plan \<Rightarrow> plan" where
  "shareActions i p =
     (case lc_shared (pl_lc p) of
        None \<Rightarrow> p
      | Some s \<Rightarrow> (if sh_Host s = in_Workspace i \<and> res_usable (pl_res p) then fold (share_one i) (sh_With s) p else p))"

definition joinGroups :: "string list \<Rightarrow> string" where
  "joinGroups groups = join '', '' groups"

definition holdsReason :: "person \<Rightarrow> string" where
  "holdsReason p =
     (if pe_groups p = [] then ''is listed individually''
      else if pe_individual p then ''holds '' @ joinGroups (pe_groups p) @ '' and is listed individually''
      else ''holds '' @ joinGroups (pe_groups p))"

definition slot_row :: "slot \<Rightarrow> string \<Rightarrow> SState \<Rightarrow> string \<Rightarrow> SRow" where
  "slot_row s user state reason =
     \<lparr>sr_Person = pe_key (sl_person s), sr_Email = rowEmail s, sr_UserID = user, sr_State = state, sr_Action = NoAction,
      sr_Reason = reason\<rparr>"

definition slot_held :: "layoutChannel \<Rightarrow> slot \<Rightarrow> string \<Rightarrow> SHeld" where
  "slot_held lc s reason =
     \<lparr>hd_Channel = lc_name lc, hd_Person = pe_key (sl_person s), hd_Email = rowEmail s, hd_Change = ''invite'', hd_Reason = reason\<rparr>"

text \<open>What a wanted person comes to: a row, and a hold or an invitation with it.\<close>

type_synonym treated = "SRow \<times> SHeld list \<times> SAction list"

definition hold_slot :: "layoutChannel \<Rightarrow> slot \<Rightarrow> string \<Rightarrow> string \<Rightarrow> treated" where
  "hold_slot lc s user reason = (slot_row s user StateHeld reason, [slot_held lc s reason], [])"

definition invite_slot :: "layoutChannel \<Rightarrow> resolved \<Rightarrow> slot \<Rightarrow> string \<Rightarrow> SAction" where
  "invite_slot lc res s user =
     (action_of ActionInvite lc)\<lparr>act_User := user, act_Person := pe_key (sl_person s), act_Email := sl_addr s,
        act_Groups := pe_groups (sl_person s), act_Reason := holdsReason (sl_person s), act_ChannelID := ch_id (rs_ch res)\<rparr>"

definition treat :: "Input \<Rightarrow> layoutChannel \<Rightarrow> resolved \<Rightarrow> string list \<Rightarrow> slot \<Rightarrow> derive_err + treated" where
  "treat i lc res members s =
     (if sl_addr s = [] then Inr (hold_slot lc s [] (sl_reason s))
      else case map_of (ob_Accounts (in_Observed i)) (sl_addr s) of
        None \<Rightarrow> Inl (NeverLookedUp (sl_addr s))
      | Some acct \<Rightarrow> Inr
          (if \<not> sac_Found acct then hold_slot lc s [] ''no Slack account yet''
           else if sac_Deleted acct then hold_slot lc s (sac_ID acct) ''the Slack account is deactivated''
           else if sac_Bot acct then hold_slot lc s (sac_ID acct) ''that address belongs to a bot''
           else if sac_Guest acct
           then (slot_row s (sac_ID acct) StateReported ''a guest account: guests are never invited or removed'', [], [])
           else if sac_TeamID acct \<noteq> [] \<and> ob_TeamID (in_Observed i) \<noteq> [] \<and> sac_TeamID acct \<noteq> ob_TeamID (in_Observed i)
           then hold_slot lc s (sac_ID acct) ''the account belongs to another workspace''
           else if sac_ID acct \<in> set members then (slot_row s (sac_ID acct) StateOK [], [], [])
           else ((slot_row s (sac_ID acct) StateWillInvite [])\<lparr>sr_Action := ActionInvite\<rparr>, [],
                 [invite_slot lc res s (sac_ID acct)])))"

definition people :: "Input \<Rightarrow> plan \<Rightarrow> derive_err + plan" where
  "people i p =
     (case map_err (treat i (pl_lc p) (pl_res p) (case pl_members p of None \<Rightarrow> [] | Some ms \<Rightarrow> ms)) (lc_slots (pl_lc p)) of
        Inl e \<Rightarrow> Inl e
      | Inr ts \<Rightarrow> Inr (p\<lparr>pl_rows := pl_rows p @ map fst ts, pl_held := pl_held p @ concat (map (fst \<circ> snd) ts),
                        pl_inviteActs := pl_inviteActs p @ concat (map (snd \<circ> snd) ts)\<rparr>))"

definition wanted_ids :: "Input \<Rightarrow> layoutChannel \<Rightarrow> string list" where
  "wanted_ids i lc =
     concat (map (\<lambda>s. case map_of (ob_Accounts (in_Observed i)) (sl_addr s) of
        Some a \<Rightarrow> (if sl_addr s \<noteq> [] \<and> sac_Found a then [sac_ID a] else []) | None \<Rightarrow> []) (lc_slots lc))"

definition extra_of :: "resolver \<Rightarrow> SMember \<Rightarrow> extra" where
  "extra_of r m =
     (if sm_Email m = [] then \<lparr>ex_member = m, ex_key = [], ex_addrs = [], ex_inDomain = False\<rparr>
      else \<lparr>ex_member = m, ex_key = personKey r (sm_Email m), ex_addrs = addressesOf r (sm_Email m),
            ex_inDomain = inDomains (normalise (sm_Email m)) (tget [] (re_domains r) (in_Workspace (re_in r)))\<rparr>)"

definition find_extra :: "Input \<Rightarrow> resolver \<Rightarrow> layoutChannel \<Rightarrow> string \<Rightarrow> derive_err + extra list" where
  "find_extra i r lc ident =
     (if ident = ob_BotUserID (in_Observed i) \<or> ident \<in> set (wanted_ids i lc) then Inr []
      else case map_of (ob_Members (in_Observed i)) ident of
        None \<Rightarrow> Inl (NotIdentified ident (lc_name lc))
      | Some m \<Rightarrow> Inr
          (if sm_Bot m \<or> sm_Deleted m then []
           else let e = extra_of r m
                in if ex_key e \<noteq> [] \<and> ex_key e \<in> set (map pe_key (lc_all lc)) then [] else [e]))"

definition findExtras :: "Input \<Rightarrow> resolver \<Rightarrow> plan \<Rightarrow> derive_err + plan" where
  "findExtras i r p =
     (case map_err (find_extra i r (pl_lc p)) (case rs_ch (pl_res p) of None \<Rightarrow> [] | Some ch \<Rightarrow> ch_Members ch) of
        Inl e \<Rightarrow> Inl e
      | Inr ess \<Rightarrow> Inr (p\<lparr>pl_extras := concat ess\<rparr>))"

definition channel_exists :: "resolved \<Rightarrow> bool" where
  "channel_exists res = (rs_ch res \<noteq> None \<and> res_usable res)"

text \<open>The plan of a channel before its people: what is done to the channel itself.\<close>

definition start_plan :: "Input \<Rightarrow> layoutChannel \<Rightarrow> plan" where
  "start_plan i lc =
     (let res = resolve_channel i lc
      in shareActions i
           \<lparr>pl_lc = lc, pl_res = res, pl_notes = [], pl_heldShare = False, pl_rows = [],
            pl_chanActs = channel_actions i lc res, pl_shareActs = [], pl_inviteActs = [], pl_held = channel_held lc res,
            pl_members = (if channel_exists res then map_option (\<lambda>ch. remdups (ch_Members ch)) (rs_ch res) else None),
            pl_extras = []\<rparr>)"

definition derive_people :: "Input \<Rightarrow> plan \<Rightarrow> derive_err + plan" where
  "derive_people i p =
     (if res_usable (pl_res p) then people i p
      else if rs_kind (pl_res p) = resHeld
      then Inr (p\<lparr>pl_rows := pl_rows p @ map (\<lambda>s. slot_row s [] StateHeld (rs_reason (pl_res p))) (lc_slots (pl_lc p))\<rparr>)
      else Inr p)"

definition derive_channel :: "Input \<Rightarrow> resolver \<Rightarrow> layoutChannel \<Rightarrow> derive_err + plan" where
  "derive_channel i r lc =
     (let p = start_plan i lc
      in case (if channel_exists (pl_res p) then rs_ch (pl_res p) else None) of
           None \<Rightarrow> derive_people i p
         | Some ch \<Rightarrow>
             (if \<not> ch_MembersKnown ch then Inl (MembersNotRead (lc_name lc) (ch_ID ch))
              else case derive_people i p of Inl e \<Rightarrow> Inl e | Inr p' \<Rightarrow> findExtras i r p'))"

definition Slack_Derive :: "Input \<Rightarrow> derive_err + SDraft" where
  "Slack_Derive i =
     (if \<not> has_key (in_Workspaces i) (in_Workspace i) then Inl (NotDeclared (in_Workspace i))
      else let r = newResolver i
           in case map_err (derive_channel i r) (layout r) of
                Inl e \<Rightarrow> Inl e
              | Inr ps \<Rightarrow> Inr \<lparr>dr_in = i, dr_r = r, dr_plans = ps\<rparr>)"

section \<open>Who may be removed, who left\<close>

definition foreign :: "Input \<Rightarrow> SMember \<Rightarrow> bool" where
  "foreign i m = (sm_TeamID m \<noteq> [] \<and> ob_TeamID (in_Observed i) \<noteq> [] \<and> sm_TeamID m \<noteq> ob_TeamID (in_Observed i))"

definition removing :: "layoutChannel \<Rightarrow> bool" where
  "removing lc = (lc_strict lc \<and> lc_shared lc = None)"

definition ignored :: "layoutChannel \<Rightarrow> extra \<Rightarrow> bool" where
  "ignored lc e =
     (removing lc
      \<and> list_ex (\<lambda>entry. normalise entry = normalise (sm_ID (ex_member e)) \<or> normalise entry \<in> set (ex_addrs e))
          (sc_Ignore (lc_binding lc)))"

definition strictRemovable :: "Input \<Rightarrow> layoutChannel \<Rightarrow> extra \<Rightarrow> bool" where
  "strictRemovable i lc e =
     (removing lc \<and> \<not> sm_Guest (ex_member e) \<and> \<not> foreign i (ex_member e) \<and> sm_Email (ex_member e) \<noteq> []
      \<and> \<not> ignored lc e)"

definition leaverCandidate :: "Input \<Rightarrow> extra \<Rightarrow> bool" where
  "leaverCandidate i e =
     (\<not> sm_Guest (ex_member e) \<and> \<not> foreign i (ex_member e) \<and> sm_Email (ex_member e) \<noteq> [] \<and> ex_inDomain e)"

definition Slack_Confirm :: "SDraft \<Rightarrow> string list" where
  "Slack_Confirm d =
     sort_compact (concat (map (\<lambda>p. concat (map (\<lambda>e.
        if strictRemovable (dr_in d) (pl_lc p) e \<or> leaverCandidate (dr_in d) e then ex_addrs e else [])
        (pl_extras p))) (dr_plans d)))"

section \<open>Deciding\<close>

record removal =
  rm_channel :: string
  rm_key :: string
  rm_member :: SMember
  rm_email :: string
  rm_row :: nat

definition rm_line :: "removal \<Rightarrow> string" where
  "rm_line r = rm_channel r @ ''|'' @ rm_key r"

definition gone :: "string list \<Rightarrow> Vouch table \<Rightarrow> bool" where
  "gone addrs vouches =
     (addrs \<noteq> [] \<and> list_all (\<lambda>a. case map_of vouches a of None \<Rightarrow> False | Some v \<Rightarrow> Vouch_Gone v) addrs)"

definition extra_row :: "extra \<Rightarrow> SState \<Rightarrow> string \<Rightarrow> SRow" where
  "extra_row e state reason =
     \<lparr>sr_Person = ex_key e, sr_Email = sm_Email (ex_member e), sr_UserID = sm_ID (ex_member e), sr_State = state,
      sr_Action = NoAction, sr_Reason = reason\<rparr>"

definition keep_text :: "keep_reason \<Rightarrow> string" where
  "keep_text k =
     (case k of NotAsked email \<Rightarrow> ''the directory was not asked about '' @ email
      | CannotVouch email \<Rightarrow> ''the directory cannot vouch for '' @ email @ '' right now''
      | StillHolds \<Rightarrow> [])"

text \<open>What becomes of a member nobody names: a row if any, whether it is to be removed, whether it left.\<close>

definition verdict :: "Input \<Rightarrow> Vouch table \<Rightarrow> layoutChannel \<Rightarrow> extra \<Rightarrow> SRow option \<times> bool \<times> bool" where
  "verdict i vouches lc e =
     (let left = (leaverCandidate i e \<and> gone (ex_addrs e) vouches)
      in if ignored lc e
         then (Some (extra_row e StateIgnored ''on the channel's ignore list; never removed''), False, left)
         else if removing lc \<and> sm_Guest (ex_member e)
         then (Some (extra_row e StateReported ''a guest account: guests are never invited or removed''), False, False)
         else if removing lc \<and> foreign i (ex_member e)
         then (Some (extra_row e StateReported ''an account of another workspace; never removed''), False, False)
         else if removing lc \<and> sm_Email (ex_member e) = []
         then (Some ((extra_row e StateReported ''no address on the account, so the directory cannot vouch for it; never removed'')
                 \<lparr>sr_Person := []\<rparr>), False, False)
         else if strictRemovable i lc e
         then (case Removal (ex_addrs e) vouches (lc_belongs lc) of
                 None \<Rightarrow> (Some ((extra_row e StateWillRemove [])\<lparr>sr_Action := ActionRemove\<rparr>), True, False)
               | Some StillHolds \<Rightarrow> (Some (extra_row e StateOK []), False, False)
               | Some k \<Rightarrow> (Some (extra_row e StateRetrying (keep_text k)), False, False))
         else if left
         then (Some (extra_row e StateReported ''no longer in the directory and still in this channel''), False, True)
         else (None, False, False))"

definition add_leaver :: "string \<Rightarrow> extra \<Rightarrow> Leaver table \<Rightarrow> Leaver table" where
  "add_leaver channel e into =
     (let l = tget \<lparr>lv_Email = sm_Email (ex_member e), lv_UserID = sm_ID (ex_member e), lv_Channels = [],
                   lv_Reason = ''no longer in the directory and still active in a managed channel''\<rparr> into (sm_ID (ex_member e))
      in tput (sm_ID (ex_member e)) (l\<lparr>lv_Channels := add_once channel (lv_Channels l)\<rparr>) into)"

record judging =
  ju_rows :: "SRow list"
  ju_removals :: "removal list"
  ju_leavers :: "Leaver table"

definition judge_extra :: "Input \<Rightarrow> Vouch table \<Rightarrow> layoutChannel \<Rightarrow> extra \<Rightarrow> judging \<Rightarrow> judging" where
  "judge_extra i vouches lc e j =
     (case verdict i vouches lc e of (row, remove, left) \<Rightarrow>
        \<lparr>ju_rows = ju_rows j @ (case row of None \<Rightarrow> [] | Some x \<Rightarrow> [x]),
         ju_removals = ju_removals j @ (if remove
           then [\<lparr>rm_channel = lc_name lc, rm_key = ex_key e, rm_member = ex_member e, rm_email = sm_Email (ex_member e),
                  rm_row = length (ju_rows j)\<rparr>] else []),
         ju_leavers = (if left then add_leaver (lc_name lc) e (ju_leavers j) else ju_leavers j)\<rparr>)"

fun judge_plans ::
  "Input \<Rightarrow> Vouch table \<Rightarrow> plan list \<Rightarrow> removal list \<Rightarrow> Leaver table \<Rightarrow> SRow list list \<times> removal list \<times> Leaver table" where
  "judge_plans i vouches [] removals leavers = ([], removals, leavers)"
| "judge_plans i vouches (p # ps) removals leavers =
     (let j = fold (judge_extra i vouches (pl_lc p)) (pl_extras p)
                \<lparr>ju_rows = pl_rows p, ju_removals = removals, ju_leavers = leavers\<rparr>
      in case judge_plans i vouches ps (ju_removals j) (ju_leavers j) of
           (rowss, rms, ls) \<Rightarrow> (ju_rows j # rowss, rms, ls))"

definition managedMembers :: "Input \<Rightarrow> plan \<Rightarrow> nat" where
  "managedMembers i p =
     (case pl_members p of None \<Rightarrow> 0
      | Some ms \<Rightarrow> length (filter (\<lambda>ident. ident \<noteq> ob_BotUserID (in_Observed i)) ms))"

definition breaker_over :: "(string \<Rightarrow> string) \<Rightarrow> Confirmed \<Rightarrow> removal list \<Rightarrow> nat \<Rightarrow> Breaker option" where
  "breaker_over sha confirmed rms members =
     (let ls = map rm_line rms
      in CheckBreaker sha (int (length (remdups (map rm_key rms)))) ls (int members)
           (Confirmed_covers confirmed (Fingerprint sha ls)))"

definition tripped :: "Breaker option \<Rightarrow> bool" where
  "tripped b = (case b of None \<Rightarrow> False | Some x \<Rightarrow> \<not> br_Confirmed x)"

record breaking =
  bk_breakers :: "Breaker option table"
  bk_blocked :: "string list"
  bk_held :: "SHeld list"

definition break_text :: "Breaker option \<Rightarrow> string \<Rightarrow> string" where
  "break_text b whose =
     (case b of None \<Rightarrow> []
      | Some x \<Rightarrow> ''over the removal limit: '' @ sprint_int (br_Affected x) @ '' of '' @ sprint_int (br_Total x) @ whose
                  @ ''; an operator confirms this set'')"

definition break_channel :: "(string \<Rightarrow> string) \<Rightarrow> Confirmed \<Rightarrow> Input \<Rightarrow> removal list \<Rightarrow> plan \<Rightarrow> breaking \<Rightarrow> breaking" where
  "break_channel sha confirmed i removals p k =
     (let name = lc_name (pl_lc p); rms = filter (\<lambda>r. rm_channel r = name) removals;
          b = breaker_over sha confirmed rms (managedMembers i p)
      in if rms = [] \<or> lc_shared (pl_lc p) \<noteq> None then k
         else \<lparr>bk_breakers = tput name b (bk_breakers k),
               bk_blocked = (if tripped b then name # bk_blocked k else bk_blocked k),
               bk_held = bk_held k @ (if tripped b then [held_of name ''remove'' (break_text b ('' members of '' @ name))] else [])\<rparr>)"

definition workspace_members :: "Input \<Rightarrow> plan list \<Rightarrow> string list" where
  "workspace_members i ps =
     remdups (concat (map (\<lambda>p. case (rs_ch (pl_res p), pl_members p) of
        (Some _, Some ms) \<Rightarrow> filter (\<lambda>ident. ident \<noteq> ob_BotUserID (in_Observed i)) ms | _ \<Rightarrow> []) ps))"

definition workspace_breaker :: "(string \<Rightarrow> string) \<Rightarrow> Confirmed \<Rightarrow> Input \<Rightarrow> plan list \<Rightarrow> removal list \<Rightarrow> Breaker option" where
  "workspace_breaker sha confirmed i ps removals =
     (if removals = [] then None else breaker_over sha confirmed removals (length (workspace_members i ps)))"

fun planNamed :: "plan list \<Rightarrow> string \<Rightarrow> nat option" where
  "planNamed [] name = None"
| "planNamed (p # ps) name =
     (if lc_name (pl_lc p) = name \<and> lc_shared (pl_lc p) = None then Some 0 else map_option Suc (planNamed ps name))"

definition noLongerReason :: "layoutChannel \<Rightarrow> string" where
  "noLongerReason lc =
     (if lc_groups lc = [] then ''the directory vouches that they are no longer an active user listed in '' @ lc_name lc
      else if lc_individual lc
      then ''the directory vouches that they no longer hold '' @ joinGroups (lc_groups lc) @ '' and are no longer an active listed user''
      else ''the directory vouches that they no longer hold '' @ joinGroups (lc_groups lc))"

definition held_row :: "removal \<Rightarrow> string \<Rightarrow> SRow" where
  "held_row r reason =
     \<lparr>sr_Person = rm_key r, sr_Email = rm_email r, sr_UserID = sm_ID (rm_member r), sr_State = StateHeld, sr_Action = NoAction,
      sr_Reason = reason\<rparr>"

definition remove_action :: "plan \<Rightarrow> SChannel \<Rightarrow> removal \<Rightarrow> SAction" where
  "remove_action p ch r =
     (action_of ActionRemove (pl_lc p))\<lparr>act_Channel := rm_channel r, act_ChannelID := ch_ID ch, act_Shared := False,
        act_User := sm_ID (rm_member r), act_Person := rm_key r, act_Email := rm_email r,
        act_Groups := lc_groups (pl_lc p), act_Reason := noLongerReason (pl_lc p)\<rparr>"

definition hold_row :: "nat \<Rightarrow> removal \<Rightarrow> string \<Rightarrow> SRow list list \<Rightarrow> SRow list list option" where
  "hold_row n r reason rowss =
     (if n < length rowss \<and> rm_row r < length (rowss ! n)
      then Some (rowss[n := (rowss ! n)[rm_row r := held_row r reason]]) else None)"

text \<open>A removal becomes a held row when a breaker stops it, an action otherwise.\<close>

definition settle ::
  "plan list \<Rightarrow> string list \<Rightarrow> bool \<Rightarrow> removal \<Rightarrow> SRow list list \<times> SAction list \<Rightarrow> (SRow list list \<times> SAction list) option" where
  "settle ps blocked wsBlocked r st =
     (case st of (rowss, acts) \<Rightarrow>
        (case planNamed ps (rm_channel r) of
           None \<Rightarrow> None
         | Some n \<Rightarrow>
             (if rm_channel r \<in> set blocked
              then map_option (\<lambda>rs. (rs, acts))
                (hold_row n r ''this channel's removals are over the limit and wait for an operator's confirmation'' rowss)
              else if wsBlocked
              then map_option (\<lambda>rs. (rs, acts))
                (hold_row n r ''the workspace's removals are over the limit and wait for an operator's confirmation'' rowss)
              else (case rs_ch (pl_res (ps ! n)) of
                      None \<Rightarrow> None
                    | Some ch \<Rightarrow> Some (rowss, acts @ [remove_action (ps ! n) ch r])))))"

fun settle_all ::
  "plan list \<Rightarrow> string list \<Rightarrow> bool \<Rightarrow> removal list \<Rightarrow> SRow list list \<times> SAction list \<Rightarrow> (SRow list list \<times> SAction list) option" where
  "settle_all ps blocked wsBlocked [] st = Some st"
| "settle_all ps blocked wsBlocked (r # rs) st =
     (case settle ps blocked wsBlocked r st of None \<Rightarrow> None | Some st' \<Rightarrow> settle_all ps blocked wsBlocked rs st')"

definition modeOf :: "plan \<Rightarrow> string" where
  "modeOf p = (if removing (pl_lc p) then ''strict'' else ''extend'')"

definition joinNotes :: "string list \<Rightarrow> string" where
  "joinNotes notes = join ''; '' notes"

definition channelState :: "plan \<Rightarrow> ChannelState \<times> string" where
  "channelState p =
     (case rs_kind (pl_res p) of
        resHeld \<Rightarrow> (ChannelHeld, rs_reason (pl_res p))
      | k \<Rightarrow>
        (if pl_heldShare p then (ChannelHeld, joinNotes (pl_notes p))
         else case k of
           resCreate \<Rightarrow> (ChannelWillCreate, joinNotes (pl_notes p))
         | resJoin \<Rightarrow> (ChannelWillAdopt, joinNotes (pl_notes p))
         | resAccept \<Rightarrow> (ChannelWillAccept, joinNotes (pl_notes p))
         | resWaiting \<Rightarrow> (ChannelWaiting, rs_reason (pl_res p))
         | _ \<Rightarrow> (if pl_notes p \<noteq> [] then (ChannelWaiting, joinNotes (pl_notes p)) else (ChannelOK, []))))"

definition report_channel :: "Breaker option table \<Rightarrow> plan \<Rightarrow> SRow list \<Rightarrow> StatusChannel" where
  "report_channel breakers p rows =
     \<lparr>stc_Name = lc_name (pl_lc p), stc_ID = ch_id (rs_ch (pl_res p)),
      stc_Private = (case rs_ch (pl_res p) of None \<Rightarrow> lc_private (pl_lc p) | Some ch \<Rightarrow> ch_Private ch),
      stc_Mode = modeOf p, stc_Shared = (lc_shared (pl_lc p) \<noteq> None),
      stc_Host = (case lc_shared (pl_lc p) of None \<Rightarrow> [] | Some s \<Rightarrow> sh_Host s), stc_Console = lc_console (pl_lc p),
      stc_State = fst (channelState p), stc_Reason = snd (channelState p), stc_Members = rows,
      stc_Breaker = tget None breakers (lc_name (pl_lc p))\<rparr>"

definition adoptions :: "plan \<Rightarrow> Adoption list" where
  "adoptions p =
     (case rs_ch (pl_res p) of None \<Rightarrow> []
      | Some ch \<Rightarrow> (if rs_adopted (pl_res p)
          then [\<lparr>ad_Channel = lc_name (pl_lc p), ad_ID = ch_ID ch, ad_Private = ch_Private ch,
                 ad_Joins = (rs_kind (pl_res p) = resJoin)\<rparr>] else []))"

definition managed :: "Input \<Rightarrow> SChannel \<Rightarrow> bool" where
  "managed i ch =
     list_ex (\<lambda>rec. if sh_ChannelID rec \<noteq> [] then sh_ChannelID rec = ch_ID ch
                    else NamesChannel rec (ch_Name ch) (ch_HostTeamID ch) (fa_Team (factsOf i (sh_Host rec)))
                           (sh_Host rec = in_Workspace i)) (in_Shared i)"

definition discovered_of :: "SChannel \<Rightarrow> Discovered" where
  "discovered_of ch =
     \<lparr>di_ID = ch_ID ch, di_Name = ch_Name ch, di_Private = ch_Private ch, di_Members = ch_NumMembers ch,
      di_HostTeam = [], di_Teams = [], di_Managed = False\<rparr>"

definition discovered :: "Input \<Rightarrow> Discovered list" where
  "discovered i =
     map (\<lambda>ch. (discovered_of ch)\<lparr>di_HostTeam := ch_HostTeamID ch, di_Teams := ch_Teams ch, di_Managed := managed i ch\<rparr>)
       (filter (\<lambda>ch. ch_Shared ch \<and> \<not> ch_Archived ch) (ob_Channels (in_Observed i)))"

definition taken_ids :: "Input \<Rightarrow> plan list \<Rightarrow> string list" where
  "taken_ids i ps =
     concat (map (\<lambda>p. case rs_ch (pl_res p) of Some ch \<Rightarrow> (if lc_shared (pl_lc p) = None then [ch_ID ch] else []) | None \<Rightarrow> []) ps)
     @ filter (\<lambda>a. a \<noteq> []) (map (\<lambda>(_, b). sc_Adopt b) (sorted_entries (sw_Channels (own_workspace i))))
     @ filter (\<lambda>a. a \<noteq> []) (map cc_ChannelID (filter (\<lambda>c. cc_Workspace c = in_Workspace i) (in_Console i)))"

definition taken_names :: "Input \<Rightarrow> string list" where
  "taken_names i =
     tkeys (sw_Channels (own_workspace i)) @ map cc_Name (filter (\<lambda>c. cc_Workspace c = in_Workspace i) (in_Console i))"

text \<open>Sorted by name and, among channels of one name, by id.\<close>

definition unmanaged :: "Input \<Rightarrow> plan list \<Rightarrow> Discovered list" where
  "unmanaged i ps =
     sort_key di_Name (sort_key di_ID (map discovered_of
       (filter (\<lambda>ch. \<not> (ch_Shared ch \<or> ch_Archived ch \<or> ch_General ch \<or> ch_ID ch \<in> set (taken_ids i ps)
                        \<or> ch_Name ch \<in> set (taken_names i))) (ob_Channels (in_Observed i)))))"

definition discoveredOrdinary :: "Input \<Rightarrow> plan list \<Rightarrow> Discovered list \<times> nat" where
  "discoveredOrdinary i ps =
     (take MaxDiscovered (unmanaged i ps), length (unmanaged i ps) - MaxDiscovered)"

definition leavers_report :: "Leaver table \<Rightarrow> Leaver list" where
  "leavers_report ls = map (\<lambda>(key, l). l\<lparr>lv_UserID := key, lv_Channels := sort (lv_Channels l)\<rparr>) (sorted_entries ls)"

definition count_retrying :: "SRow list list \<Rightarrow> nat" where
  "count_retrying rowss = length (filter (\<lambda>m. sr_State m = StateRetrying) (concat rowss))"

definition assemble ::
  "SDraft \<Rightarrow> breaking \<Rightarrow> Breaker option \<Rightarrow> SHeld list \<Rightarrow> Leaver table \<Rightarrow> SRow list list \<Rightarrow> SAction list \<Rightarrow> SDecision" where
  "assemble d k wsBreaker wsHeld leavers rowss removeActs =
     (let i = dr_in d; ps = dr_plans d;
          channels = map (\<lambda>(p, rows). report_channel (bk_breakers k) p rows) (zip ps rowss);
          actions = concat (map pl_chanActs ps) @ concat (map pl_shareActs ps) @ concat (map pl_inviteActs ps) @ removeActs;
          held = sort_key SHeld_Key (bk_held k @ wsHeld @ concat (map pl_held ps))
      in \<lparr>de_Report =
            \<lparr>sw_Workspace = in_Workspace i, sw_Team = ob_TeamID (in_Observed i),
             sw_Tick = \<lparr>t_Changes = int (length actions), t_Held = int (length held), t_Retrying = int (count_retrying rowss),
                        t_Waiting = int (length (filter (\<lambda>ch. stc_State ch = ChannelWaiting) channels))\<rparr>,
             sw_Reports = channels, sw_DiscoveredShared = discovered i,
             sw_Discovered = fst (discoveredOrdinary i ps), sw_DiscoveredMore = snd (discoveredOrdinary i ps),
             sw_Leavers = leavers_report leavers, sw_Breaker = wsBreaker\<rparr>,
          de_Actions = actions, de_Held = held, de_Adopted = concat (map adoptions ps)\<rparr>)"

definition Slack_Decide :: "(string \<Rightarrow> string) \<Rightarrow> SDraft \<Rightarrow> Vouch table \<Rightarrow> Confirmed \<Rightarrow> SDecision option" where
  "Slack_Decide sha d vouches confirmed =
     (let i = dr_in d; ps = dr_plans d
      in case judge_plans i vouches ps [] [] of (rowss, removals, leavers) \<Rightarrow>
         (let k = fold (break_channel sha confirmed i removals) ps \<lparr>bk_breakers = [], bk_blocked = [], bk_held = []\<rparr>;
              wsBreaker = workspace_breaker sha confirmed i ps removals;
              wsHeld = (if tripped wsBreaker
                        then [held_of [] ''remove'' (break_text wsBreaker '' managed members of the workspace'')] else [])
          in case settle_all ps (bk_blocked k) (tripped wsBreaker) removals (rowss, []) of
               None \<Rightarrow> None
             | Some (rowss', removeActs) \<Rightarrow> Some (assemble d k wsBreaker wsHeld leavers rowss' removeActs)))"

end
