(* ===== verification/Slack_Safety.thy ===== *)
theory Slack_Safety
  imports Slack_Reconcile
begin

text \<open>
  What no decision of the Slack reconciler does: remove somebody the directory has not vouched for, or
  anybody from a channel that only extends, invite somebody no binding names, or remove over half of a
  channel or of the workspace that nobody confirmed; and what every decision does: come to an end, ask
  the directory about all it rests on, and give each person of a Slack Connect channel to one workspace.
\<close>

section \<open>Loops that stop at an error\<close>

lemma map_err_origin: "map_err f xs = Inr ys \<Longrightarrow> y \<in> set ys \<Longrightarrow> \<exists>x\<in>set xs. f x = Inr y"
  by (induction xs arbitrary: ys) (auto split: sum.splits)

lemma map_err_each: "map_err f xs = Inr ys \<Longrightarrow> x \<in> set xs \<Longrightarrow> \<exists>y\<in>set ys. f x = Inr y"
  by (induction xs arbitrary: ys) (auto split: sum.splits)

lemma map_err_map: "map_err f xs = Inr ys \<Longrightarrow> (\<And>x y. f x = Inr y \<Longrightarrow> g y = h x) \<Longrightarrow> map g ys = map h xs"
  by (induction xs arbitrary: ys) (auto split: sum.splits)

lemma map_err_total: "(\<And>x. x \<in> set xs \<Longrightarrow> \<exists>y. f x = Inr y) \<Longrightarrow> \<exists>ys. map_err f xs = Inr ys"
proof (induction xs)
  case (Cons x xs)
  from Cons.prems [of x] obtain y where y: "f x = Inr y" by auto
  from Cons.IH Cons.prems obtain ys where "map_err f xs = Inr ys" by (metis list.set_intros(2))
  with y show ?case by simp
qed simp

section \<open>Who is wanted\<close>

lemma set_add_once [simp]: "set (add_once x xs) = insert x (set xs)"
  by (auto simp: add_once_def)

lemma distinct_add_once [simp]: "distinct xs \<Longrightarrow> distinct (add_once x xs)"
  by (simp add: add_once_def)

lemma set_fold_add_once [simp]: "set (fold add_once ys xs) = set xs \<union> set ys"
  by (induction ys arbitrary: xs) auto

text \<open>The holders that make a person wanted: live, with an address, and of that person.\<close>

definition admits :: "resolver \<Rightarrow> string \<Rightarrow> Holder \<Rightarrow> bool" where
  "admits r key h = (ho_Live h \<and> normalise (ho_Email h) \<noteq> [] \<and> personKey r (normalise (ho_Email h)) = key)"

definition person_ok :: "resolver \<Rightarrow> Holder set \<Rightarrow> string \<times> person \<Rightarrow> bool" where
  "person_ok r hs kp =
     (case kp of (key, p) \<Rightarrow>
        pe_key p = key \<and> pe_addrs p \<noteq> []
        \<and> (\<forall>a\<in>set (pe_addrs p). \<exists>h\<in>hs. admits r key h \<and> a = normalise (ho_Email h)))"

lemma person_ok_mono: "person_ok r hs kp \<Longrightarrow> hs \<subseteq> hs' \<Longrightarrow> person_ok r hs' kp"
  unfolding person_ok_def by fastforce

definition table_ok :: "resolver \<Rightarrow> Holder set \<Rightarrow> person table \<Rightarrow> bool" where
  "table_ok r hs m = (\<forall>key p. map_of m key = Some p \<longrightarrow> person_ok r hs (key, p))"

lemma add_wanted_ok:
  assumes "table_ok r hs m" and "h \<in> hs"
  shows "table_ok r hs (add_wanted r g h m)"
  using assms
  by (auto simp: table_ok_def add_wanted_def Let_def person_ok_def admits_def tget_def new_person_def add_once_def
      split: option.splits if_splits)

lemma fold_add_wanted_ok: "table_ok r hs m \<Longrightarrow> set xs \<subseteq> hs \<Longrightarrow> table_ok r hs (fold (add_wanted r g) xs m)"
  by (induction xs arbitrary: m) (auto simp: add_wanted_ok)

definition sources_of :: "resolver \<Rightarrow> Holders \<Rightarrow> string list \<Rightarrow> string list \<Rightarrow> Holder set" where
  "sources_of r holders groups members =
     (\<Union>g\<in>set groups. set (tget [] holders g)) \<union> (\<lambda>m. tget no_Holder (in_DirUsers (re_in r)) (normalise m)) ` set members"

lemma groups_fold_ok:
  "table_ok r hs m \<Longrightarrow> (\<And>g. g \<in> set gs \<Longrightarrow> set (tget [] holders g) \<subseteq> hs) \<Longrightarrow>
   table_ok r hs (fold (\<lambda>g. fold (add_wanted r g) (tget [] holders g)) gs m)"
  by (induction gs arbitrary: m) (auto simp: fold_add_wanted_ok)

lemma members_fold_ok:
  "table_ok r hs m \<Longrightarrow> (\<And>x. x \<in> set ms \<Longrightarrow> f x \<in> hs) \<Longrightarrow> table_ok r hs (fold (\<lambda>x. add_wanted r [] (f x)) ms m)"
  by (induction ms arbitrary: m) (auto simp: add_wanted_ok)

lemma wanted_table_ok: "table_ok r (sources_of r holders groups members) (wanted_table r holders groups members)"
  unfolding wanted_table_def
  by (intro members_fold_ok groups_fold_ok) (auto simp: table_ok_def sources_of_def)

lemma wantedFrom_ok:
  assumes "p \<in> set (wantedFrom r holders groups members)"
  shows "person_ok r (sources_of r holders groups members) (pe_key p, p)"
proof -
  obtain key q where q: "map_of (wanted_table r holders groups members) key = Some q"
    and p: "p = q\<lparr>pe_addrs := sort (pe_addrs q)\<rparr>"
    using assms by (auto simp: wantedFrom_def sorted_entries_def)
  have "person_ok r (sources_of r holders groups members) (key, q)"
    using wanted_table_ok [of r holders groups members] q by (simp add: table_ok_def)
  then show ?thesis using p by (auto simp: person_ok_def) (metis length_sort list.size(3) length_0_conv)
qed

lemma admitted_live: "p \<in> set (wantedFrom r holders groups members) \<Longrightarrow>
  \<exists>h\<in>sources_of r holders groups members. admits r (pe_key p) h"
  using wantedFrom_ok [of p r holders groups members] by (cases "pe_addrs p") (auto simp: person_ok_def)

section \<open>One workspace for each person of a Slack Connect channel\<close>

text \<open>The same inputs as another workspace of the same deployment reads them.\<close>

definition seen_from :: "string \<Rightarrow> Observed \<Rightarrow> Input \<Rightarrow> Input" where
  "seen_from ws obs i = i\<lparr>in_Workspace := ws, in_Observed := obs\<rparr>"

lemma resolver_seen_from [simp]:
  "re_domains (newResolver (seen_from ws obs i)) = re_domains (newResolver i)"
  "re_byAddr (newResolver (seen_from ws obs i)) = re_byAddr (newResolver i)"
  "re_ofPerson (newResolver (seen_from ws obs i)) = re_ofPerson (newResolver i)"
  "re_in (newResolver i) = i"
  "in_DirHolders (seen_from ws obs i) = in_DirHolders i"
  "in_DirUsers (seen_from ws obs i) = in_DirUsers i"
  "in_Shared (seen_from ws obs i) = in_Shared i"
  "in_Workspace (seen_from ws obs i) = ws"
  "in_Observed (seen_from ws obs i) = obs"
  by (simp_all add: newResolver_def seen_from_def)

lemma path_seen_from [simp]: "path (newResolver (seen_from ws obs i)) w p = path (newResolver i) w p"
  by (simp add: path_def)

lemma owner_among_seen_from [simp]:
  "owner_among (newResolver (seen_from ws obs i)) gs p = owner_among (newResolver i) gs p"
  by (induction gs) (auto split: option.splits)

lemma owner_seen_from [simp]: "owner_of (newResolver (seen_from ws obs i)) s p = owner_of (newResolver i) s p"
  by (simp add: owner_of_def del: owner_among.simps)

lemma personKey_seen_from [simp]: "personKey (newResolver (seen_from ws obs i)) = personKey (newResolver i)"
  by (rule ext) (simp add: personKey_def)

lemma add_wanted_seen_from [simp]: "add_wanted (newResolver (seen_from ws obs i)) = add_wanted (newResolver i)"
  by (intro ext) (simp add: add_wanted_def)

lemma wantedFrom_seen_from [simp]: "wantedFrom (newResolver (seen_from ws obs i)) = wantedFrom (newResolver i)"
  by (intro ext) (simp add: wantedFrom_def wanted_table_def)

text \<open>Who a Slack Connect channel wants, whichever side reads it, and the slots of one side.\<close>

definition shared_people :: "Input \<Rightarrow> SharedChannel \<Rightarrow> person list" where
  "shared_people i s = wantedFrom (newResolver i) (in_DirHolders i) (sh_Sources s) (sh_Members s)"

definition side_slots :: "Input \<Rightarrow> string \<Rightarrow> Observed \<Rightarrow> SharedChannel \<Rightarrow> slot list" where
  "side_slots i ws obs s =
     concat (map lc_slots (filter (\<lambda>lc. lc_shared lc = Some s) (layout (newResolver (seen_from ws obs i)))))"

lemma path_in: "path r w p = Some a \<Longrightarrow> inDomains a (tget [] (re_domains r) w)"
  unfolding path_def by (metis find_Some_iff)

lemma inDomains_not_Nil: "inDomains a ds \<Longrightarrow> a \<noteq> []"
  by (auto simp: inDomains_def Domain_def cut_last_def)

lemma owner_among_Nil: "owner_among r gs p = ([], a) \<Longrightarrow> [] \<notin> set gs \<Longrightarrow> a = [] \<and> (\<forall>g\<in>set gs. path r g p = None)"
  by (induction gs) (auto split: option.splits)

lemma owner_among_Some: "owner_among r gs p = (w, a) \<Longrightarrow> w \<noteq> [] \<Longrightarrow> w \<in> set gs \<and> path r w p = Some a"
  by (induction gs) (auto split: option.splits)

lemma owner_among_exists: "g \<in> set gs \<Longrightarrow> path r g p = Some a \<Longrightarrow> [] \<notin> set gs \<Longrightarrow> fst (owner_among r gs p) \<noteq> []"
  by (induction gs) (auto split: option.splits)

lemma shared_slots_seen_from:
  "x \<in> set (shared_slots (newResolver (seen_from w obs i)) s ps) \<longleftrightarrow>
     (\<exists>p\<in>set ps. let own = fst (owner_of (newResolver i) s p); addr = snd (owner_of (newResolver i) s p) in
        (own = w \<and> x = \<lparr>sl_person = p, sl_addr = addr, sl_reason = []\<rparr>)
        \<or> (own \<noteq> w \<and> own = [] \<and> w = sh_Host s
           \<and> x = \<lparr>sl_person = p, sl_addr = [], sl_reason = ''no account path in any workspace of this shared channel''\<rparr>))"
  unfolding shared_slots_def case_prod_beta Let_def by (auto split: if_splits)

lemma in_side_slots:
  "x \<in> set (side_slots i w obs s) \<longleftrightarrow>
     s \<in> set (in_Shared i) \<and> takes_part (seen_from w obs i) s
     \<and> x \<in> set (shared_slots (newResolver (seen_from w obs i)) s (shared_people i s))"
  by (auto simp: side_slots_def layout_def layout_policy_def layout_console_def layout_shared_def shared_people_def Let_def
      split: prod.splits)

lemma takes_part_seen_from [simp]: "takes_part (seen_from w obs i) s \<longleftrightarrow> w \<in> set (sh_Host s # sh_With s)"
  by (auto simp: takes_part_def)

lemma addressed_slot:
  assumes "s \<in> set (in_Shared i)" and "[] \<notin> set (sh_Host s # sh_With s)" and "p \<in> set (shared_people i s)"
  shows "(\<exists>x\<in>set (side_slots i w obs s). sl_person x = p \<and> sl_addr x \<noteq> []) \<longleftrightarrow>
     fst (owner_of (newResolver i) s p) = w \<and> w \<noteq> []"
proof -
  obtain own a where o: "owner_of (newResolver i) s p = (own, a)" by fastforce
  have nil: "own = [] \<Longrightarrow> a = []"
    using o assms(2) owner_among_Nil by (auto simp: owner_of_def simp del: owner_among.simps)
  have some: "own \<in> set (sh_Host s # sh_With s) \<and> a \<noteq> []" if "own \<noteq> []"
    using owner_among_Some [OF o [unfolded owner_of_def] that] path_in inDomains_not_Nil by blast
  show ?thesis (is "?l \<longleftrightarrow> ?r")
  proof
    assume ?l
    then obtain x where "x \<in> set (side_slots i w obs s)" "sl_person x = p" "sl_addr x \<noteq> []" by blast
    then show ?r using o nil by (fastforce simp: in_side_slots shared_slots_seen_from Let_def)
  next
    assume ?r
    then have "\<lparr>sl_person = p, sl_addr = a, sl_reason = []\<rparr> \<in> set (side_slots i w obs s)"
      using assms o some by (force simp: in_side_slots shared_slots_seen_from Let_def)
    then show ?l using \<open>?r\<close> o some by force
  qed
qed

lemma no_path_owner:
  assumes "[] \<notin> set (sh_Host s # sh_With s)"
  shows "fst (owner_of r s p) = [] \<longleftrightarrow> (\<forall>w\<in>set (sh_Host s # sh_With s). path r w p = None)"
proof
  assume "fst (owner_of r s p) = []"
  then show "\<forall>w\<in>set (sh_Host s # sh_With s). path r w p = None"
    using owner_among_Nil [of r "sh_Host s # sh_With s" p "snd (owner_of r s p)"] assms
    by (simp add: owner_of_def prod_eq_iff del: owner_among.simps)
next
  assume none: "\<forall>w\<in>set (sh_Host s # sh_With s). path r w p = None"
  show "fst (owner_of r s p) = []"
  proof (rule ccontr)
    assume ne: "fst (owner_of r s p) \<noteq> []"
    have "owner_among r (sh_Host s # sh_With s) p = (fst (owner_of r s p), snd (owner_of r s p))"
      by (simp add: owner_of_def del: owner_among.simps)
    from owner_among_Some [OF this ne] none show False by fastforce
  qed
qed


section \<open>Where a plan comes from\<close>

lemma share_one_frame [simp]:
  "pl_lc (share_one i g p) = pl_lc p" "pl_res (share_one i g p) = pl_res p" "pl_members (share_one i g p) = pl_members p"
  "pl_extras (share_one i g p) = pl_extras p" "pl_inviteActs (share_one i g p) = pl_inviteActs p"
  "pl_chanActs (share_one i g p) = pl_chanActs p" "pl_rows (share_one i g p) = pl_rows p"
  by (simp_all add: share_one_def Let_def)

lemma fold_share_frame [simp]:
  "pl_lc (fold (share_one i) gs p) = pl_lc p" "pl_res (fold (share_one i) gs p) = pl_res p"
  "pl_members (fold (share_one i) gs p) = pl_members p" "pl_extras (fold (share_one i) gs p) = pl_extras p"
  "pl_inviteActs (fold (share_one i) gs p) = pl_inviteActs p" "pl_chanActs (fold (share_one i) gs p) = pl_chanActs p"
  "pl_rows (fold (share_one i) gs p) = pl_rows p"
  by (induction gs arbitrary: p) simp_all

lemma shareActions_frame [simp]:
  "pl_lc (shareActions i p) = pl_lc p" "pl_res (shareActions i p) = pl_res p" "pl_members (shareActions i p) = pl_members p"
  "pl_extras (shareActions i p) = pl_extras p" "pl_inviteActs (shareActions i p) = pl_inviteActs p"
  "pl_chanActs (shareActions i p) = pl_chanActs p" "pl_rows (shareActions i p) = pl_rows p"
  by (simp_all add: shareActions_def split: option.splits)

lemma start_plan_frame [simp]:
  "pl_lc (start_plan i lc) = lc" "pl_res (start_plan i lc) = resolve_channel i lc"
  "pl_extras (start_plan i lc) = []" "pl_inviteActs (start_plan i lc) = []"
  "pl_chanActs (start_plan i lc) = channel_actions i lc (resolve_channel i lc)" "pl_rows (start_plan i lc) = []"
  "pl_members (start_plan i lc) = (if channel_exists (resolve_channel i lc)
     then map_option (\<lambda>ch. remdups (ch_Members ch)) (rs_ch (resolve_channel i lc)) else None)"
  by (simp_all add: start_plan_def Let_def)

lemma derive_people_frame:
  assumes "derive_people i p = Inr q"
  shows "pl_lc q = pl_lc p \<and> pl_res q = pl_res p \<and> pl_members q = pl_members p \<and> pl_extras q = pl_extras p
    \<and> pl_chanActs q = pl_chanActs p \<and> pl_shareActs q = pl_shareActs p"
  using assms by (auto simp: derive_people_def people_def split: if_splits sum.splits)

lemma findExtras_frame:
  assumes "findExtras i r p = Inr q"
  shows "pl_lc q = pl_lc p \<and> pl_res q = pl_res p \<and> pl_members q = pl_members p \<and> pl_inviteActs q = pl_inviteActs p
    \<and> pl_chanActs q = pl_chanActs p \<and> pl_shareActs q = pl_shareActs p \<and> pl_rows q = pl_rows p \<and> pl_held q = pl_held p"
  using assms by (auto simp: findExtras_def split: sum.splits)

text \<open>A derived plan: the channel's people, then its extras where the channel exists.\<close>

lemma derive_channel_cases:
  assumes "derive_channel i r lc = Inr p"
  obtains q where "derive_people i (start_plan i lc) = Inr q"
    and "p = q \<and> \<not> channel_exists (resolve_channel i lc) \<or>
         findExtras i r q = Inr p \<and> channel_exists (resolve_channel i lc)
         \<and> (\<forall>ch. rs_ch (resolve_channel i lc) = Some ch \<longrightarrow> ch_MembersKnown ch)"
  using assms by (auto simp: derive_channel_def Let_def channel_exists_def split: if_splits option.splits sum.splits)

lemma derive_channel_frame:
  assumes "derive_channel i r lc = Inr p"
  shows "pl_lc p = lc \<and> pl_res p = resolve_channel i lc \<and> pl_members p = pl_members (start_plan i lc)
    \<and> pl_chanActs p = channel_actions i lc (resolve_channel i lc) \<and> pl_shareActs p = pl_shareActs (start_plan i lc)"
  using assms
proof (rule derive_channel_cases)
  fix q assume q: "derive_people i (start_plan i lc) = Inr q"
    and "p = q \<and> \<not> channel_exists (resolve_channel i lc) \<or> findExtras i r q = Inr p \<and> channel_exists (resolve_channel i lc)
      \<and> (\<forall>ch. rs_ch (resolve_channel i lc) = Some ch \<longrightarrow> ch_MembersKnown ch)"
  then show ?thesis using derive_people_frame [OF q] findExtras_frame [of i r q p] by (elim disjE) simp_all
qed

text \<open>Somebody the bindings do not name: a member of the channel that was read, identified, neither bot nor deactivated.\<close>

definition stray :: "Input \<Rightarrow> resolver \<Rightarrow> layoutChannel \<Rightarrow> SChannel \<Rightarrow> extra \<Rightarrow> bool" where
  "stray i r lc ch e =
     (\<exists>ident\<in>set (ch_Members ch). ident \<noteq> ob_BotUserID (in_Observed i) \<and> ident \<notin> set (wanted_ids i lc)
        \<and> (\<exists>m. map_of (ob_Members (in_Observed i)) ident = Some m \<and> \<not> sm_Bot m \<and> \<not> sm_Deleted m \<and> e = extra_of r m)
        \<and> (ex_key e \<noteq> [] \<longrightarrow> ex_key e \<notin> pe_key ` set (lc_all lc)))"

lemma find_extra_stray:
  "find_extra i r lc ident = Inr es \<Longrightarrow> e \<in> set es \<Longrightarrow> ident \<in> set (ch_Members ch) \<Longrightarrow> stray i r lc ch e"
  by (auto simp: find_extra_def stray_def Let_def split: if_splits option.splits)

lemma extras_stray:
  assumes "derive_channel i r lc = Inr p" and "e \<in> set (pl_extras p)"
  shows "\<exists>ch. rs_ch (resolve_channel i lc) = Some ch \<and> res_usable (resolve_channel i lc) \<and> ch_MembersKnown ch \<and> stray i r lc ch e"
proof -
  from assms(1) obtain q where q: "derive_people i (start_plan i lc) = Inr q"
    and p: "p = q \<and> \<not> channel_exists (resolve_channel i lc) \<or>
         findExtras i r q = Inr p \<and> channel_exists (resolve_channel i lc)
         \<and> (\<forall>ch. rs_ch (resolve_channel i lc) = Some ch \<longrightarrow> ch_MembersKnown ch)"
    by (rule derive_channel_cases)
  have fq: "pl_lc q = lc" "pl_res q = resolve_channel i lc" "pl_extras q = []" using derive_people_frame [OF q] by simp_all
  then have ex: "findExtras i r q = Inr p" "channel_exists (resolve_channel i lc)" using p assms(2) by auto
  then obtain ch where ch: "rs_ch (resolve_channel i lc) = Some ch" "res_usable (resolve_channel i lc)"
    by (auto simp: channel_exists_def)
  obtain ess where ess: "map_err (find_extra i r lc) (ch_Members ch) = Inr ess" "e \<in> set (concat ess)"
    using ex(1) assms(2) fq ch by (auto simp: findExtras_def split: sum.splits)
  then obtain es where "es \<in> set ess" "e \<in> set es" by auto
  with map_err_origin [OF ess(1)] obtain ident where "ident \<in> set (ch_Members ch)" "find_extra i r lc ident = Inr es" by blast
  with \<open>e \<in> set es\<close> find_extra_stray [of i r lc ident es e ch] ch p ex show ?thesis by auto
qed

lemma Derive_plans:
  assumes "Slack_Derive i = Inr d"
  shows "dr_in d = i \<and> dr_r d = newResolver i \<and> map_err (derive_channel i (newResolver i)) (layout (newResolver i)) = Inr (dr_plans d)"
  using assms by (auto simp: Slack_Derive_def Let_def split: if_splits sum.splits)

lemma Derive_plan:
  assumes "Slack_Derive i = Inr d" and "p \<in> set (dr_plans d)"
  shows "pl_lc p \<in> set (layout (newResolver i)) \<and> derive_channel i (newResolver i) (pl_lc p) = Inr p"
proof -
  from map_err_origin [OF _ assms(2)] Derive_plans [OF assms(1)] obtain lc
    where lc: "lc \<in> set (layout (newResolver i))" "derive_channel i (newResolver i) lc = Inr p" by blast
  with derive_channel_frame [OF lc(2)] show ?thesis by simp
qed

lemma Derive_layout:
  assumes "Slack_Derive i = Inr d"
  shows "map pl_lc (dr_plans d) = layout (newResolver i)"
proof -
  have "map pl_lc (dr_plans d) = map (\<lambda>lc. lc) (layout (newResolver i))"
    using Derive_plans [OF assms] derive_channel_frame by (intro map_err_map) blast+
  then show ?thesis by simp
qed

section \<open>Channels are told apart by their names\<close>

definition records_distinct :: "Input \<Rightarrow> bool" where
  "records_distinct i = distinct (map cc_Name (filter (\<lambda>c. cc_Workspace c = in_Workspace i) (in_Console i)))"

lemma distinct_filter_sort_key: "distinct (map f (filter P (sort_key g xs))) \<longleftrightarrow> distinct (map f (filter P xs))"
  by (intro mset_eq_imp_distinct_iff) (simp add: mset_filter)

lemma layout_names:
  "map lc_name (layout_policy (newResolver i)) = filter (\<lambda>n. \<not> tget False (in_DefinedTwice i) n) (tkeys (sw_Channels (own_workspace i)))"
  "map lc_name (layout_console (newResolver i)) = map cc_Name (filter (\<lambda>c. cc_Workspace c = in_Workspace i
      \<and> \<not> policyChannelNamed (own_workspace i) (cc_Name c)) (sort_key cc_Name (in_Console i)))"
  by (simp_all add: layout_policy_def layout_console_def Let_def sorted_entries_def filter_map comp_def split_beta)

lemma layout_ordinary:
  "filter (\<lambda>lc. lc_shared lc = None) (layout (newResolver i)) = layout_policy (newResolver i) @ layout_console (newResolver i)"
  by (auto simp: layout_def layout_policy_def layout_console_def layout_shared_def Let_def filter_empty_conv
      intro!: filter_True split: prod.splits)

lemma planNamed_Some:
  "planNamed ps name = Some n \<Longrightarrow> n < length ps \<and> lc_name (pl_lc (ps ! n)) = name \<and> lc_shared (pl_lc (ps ! n)) = None"
  by (induction ps arbitrary: n) (auto split: if_splits)

lemma planNamed_found:
  assumes "distinct (map (lc_name \<circ> pl_lc) (filter (\<lambda>p. lc_shared (pl_lc p) = None) ps))"
    and "k < length ps" and "lc_shared (pl_lc (ps ! k)) = None"
  shows "planNamed ps (lc_name (pl_lc (ps ! k))) = Some k"
  using assms
proof (induction ps arbitrary: k)
  case (Cons p ps)
  show ?case
  proof (cases k)
    case (Suc m)
    have in_rest: "ps ! m \<in> set (filter (\<lambda>p. lc_shared (pl_lc p) = None) ps)" using Cons.prems Suc by simp
    have ne: "\<not> (lc_name (pl_lc p) = lc_name (pl_lc (ps ! m)) \<and> lc_shared (pl_lc p) = None)"
      using Cons.prems(1) in_rest by (auto simp: image_iff split: if_splits)
    have "planNamed ps (lc_name (pl_lc (ps ! m))) = Some m"
      using Cons.IH [of m] Cons.prems Suc by (auto split: if_splits)
    with ne Suc show ?thesis by auto
  qed (use Cons.prems in auto)
qed simp

lemma ordinary_names_distinct:
  assumes "records_distinct i" and "Slack_Derive i = Inr d"
  shows "distinct (map (lc_name \<circ> pl_lc) (filter (\<lambda>p. lc_shared (pl_lc p) = None) (dr_plans d)))"
proof -
  have "map (lc_name \<circ> pl_lc) (filter (\<lambda>p. lc_shared (pl_lc p) = None) (dr_plans d))
      = map lc_name (filter (\<lambda>lc. lc_shared lc = None) (map pl_lc (dr_plans d)))"
    by (simp add: filter_map comp_def)
  also have "\<dots> = map lc_name (layout_policy (newResolver i)) @ map lc_name (layout_console (newResolver i))"
    by (simp add: Derive_layout [OF assms(2)] layout_ordinary)
  finally have names: "map (lc_name \<circ> pl_lc) (filter (\<lambda>p. lc_shared (pl_lc p) = None) (dr_plans d))
      = map lc_name (layout_policy (newResolver i)) @ map lc_name (layout_console (newResolver i))" .
  have "distinct (map cc_Name (filter (\<lambda>c. \<not> policyChannelNamed (own_workspace i) (cc_Name c))
      (filter (\<lambda>c. cc_Workspace c = in_Workspace i) (in_Console i))))"
    using assms(1) unfolding records_distinct_def by (rule distinct_map_filter)
  then have "distinct (map lc_name (layout_console (newResolver i)))"
    unfolding layout_names distinct_filter_sort_key by (simp add: conj_commute)
  then show ?thesis
    unfolding names by (auto simp: layout_names policyChannelNamed_def)
qed

section \<open>What the removals are\<close>

definition removal_of :: "Input \<Rightarrow> Vouch table \<Rightarrow> plan \<Rightarrow> removal \<Rightarrow> bool" where
  "removal_of i vouches p r =
     (\<exists>e\<in>set (pl_extras p). strictRemovable i (pl_lc p) e \<and> Removal (ex_addrs e) vouches (lc_belongs (pl_lc p)) = None
        \<and> rm_channel r = lc_name (pl_lc p) \<and> rm_key r = ex_key e \<and> rm_member r = ex_member e
        \<and> rm_email r = sm_Email (ex_member e))"

lemma verdict_removes:
  "fst (snd (verdict i vouches lc e)) \<longleftrightarrow>
     strictRemovable i lc e \<and> Removal (ex_addrs e) vouches (lc_belongs lc) = None"
  by (auto simp: verdict_def Let_def strictRemovable_def split: option.splits keep_reason.splits)

lemma removes_has_row: "fst (snd (verdict i vouches lc e)) \<Longrightarrow> fst (verdict i vouches lc e) \<noteq> None"
  by (auto simp: verdict_def Let_def split: option.splits keep_reason.splits if_splits)

lemma fold_judge:
  assumes "set es \<subseteq> set (pl_extras p)" and "r \<in> set (ju_removals (fold (judge_extra i vouches (pl_lc p)) es j))"
  shows "r \<in> set (ju_removals j)
    \<or> (removal_of i vouches p r \<and> rm_row r < length (ju_rows (fold (judge_extra i vouches (pl_lc p)) es j)))"
  using assms
proof (induction es rule: rev_induct)
  case (snoc e es)
  obtain row remove left where v: "verdict i vouches (pl_lc p) e = (row, remove, left)" by (metis prod_cases3)
  note step = judge_extra_def [of i vouches "pl_lc p" e]
  let ?j = "fold (judge_extra i vouches (pl_lc p)) es j"
  have rm: "remove \<longleftrightarrow> strictRemovable i (pl_lc p) e \<and> Removal (ex_addrs e) vouches (lc_belongs (pl_lc p)) = None"
    using verdict_removes [of i vouches "pl_lc p" e] v by simp
  have row: "remove \<Longrightarrow> row \<noteq> None" using removes_has_row [of i vouches "pl_lc p" e] v by simp
  from snoc.prems(2) consider "r \<in> set (ju_removals ?j)"
    | "remove" "r = \<lparr>rm_channel = lc_name (pl_lc p), rm_key = ex_key e, rm_member = ex_member e,
        rm_email = sm_Email (ex_member e), rm_row = length (ju_rows ?j)\<rparr>"
    by (auto simp: step v split: if_splits)
  then show ?case
  proof cases
    case 1
    then show ?thesis using snoc by (auto simp: step v)
  next
    case 2
    then show ?thesis using snoc.prems(1) rm row by (auto simp: removal_of_def step v)
  qed
qed simp

lemma judge_plans_removals:
  assumes "judge_plans i vouches ps rms ls = (rowss, rms', ls')"
  shows "length rowss = length ps \<and> (\<forall>r\<in>set rms'. r \<in> set rms
    \<or> (\<exists>k<length ps. removal_of i vouches (ps ! k) r \<and> rm_row r < length (rowss ! k)))"
  using assms
proof (induction ps arbitrary: rms ls rowss)
  case (Cons p ps)
  define j where "j = fold (judge_extra i vouches (pl_lc p)) (pl_extras p) \<lparr>ju_rows = pl_rows p, ju_removals = rms, ju_leavers = ls\<rparr>"
  obtain rest where rest: "judge_plans i vouches ps (ju_removals j) (ju_leavers j) = (rest, rms', ls')" "rowss = ju_rows j # rest"
    using Cons.prems by (auto simp: j_def Let_def split: prod.splits)
  have here: "r \<in> set rms \<or> (removal_of i vouches p r \<and> rm_row r < length (ju_rows j))" if "r \<in> set (ju_removals j)" for r
    using fold_judge [of "pl_extras p" p r i vouches "\<lparr>ju_rows = pl_rows p, ju_removals = rms, ju_leavers = ls\<rparr>"] that
    by (simp add: j_def)
  have IH: "length rest = length ps" "\<And>r. r \<in> set rms' \<Longrightarrow> r \<in> set (ju_removals j)
    \<or> (\<exists>k<length ps. removal_of i vouches (ps ! k) r \<and> rm_row r < length (rest ! k))"
    using Cons.IH [OF rest(1)] by auto
  have "r \<in> set rms \<or> (\<exists>k<length (p # ps). removal_of i vouches ((p # ps) ! k) r \<and> rm_row r < length (rowss ! k))"
    if "r \<in> set rms'" for r
    using IH(2) [OF that]
  proof
    assume "r \<in> set (ju_removals j)"
    from here [OF this] show ?thesis using rest(2) by (auto intro: exI [of _ 0])
  next
    assume "\<exists>k<length ps. removal_of i vouches (ps ! k) r \<and> rm_row r < length (rest ! k)"
    then obtain k where "k < length ps" "removal_of i vouches (ps ! k) r" "rm_row r < length (rest ! k)" by blast
    then show ?thesis using rest(2) by (intro disjI2 exI [of _ "Suc k"]) simp
  qed
  then show ?case using IH(1) rest(2) by simp
qed simp

section \<open>Settling the removals\<close>

definition act_of :: "plan list \<Rightarrow> removal \<Rightarrow> SAction" where
  "act_of ps r =
     (let p = ps ! the (planNamed ps (rm_channel r)) in remove_action p (the (rs_ch (pl_res p))) r)"

lemma settle_Some:
  assumes "settle ps blocked ws r (rowss, acts) = Some (rowss', acts')"
  shows "acts' = acts @ (if ws \<or> rm_channel r \<in> set blocked then [] else [act_of ps r]) \<and> length rowss' = length rowss
    \<and> map length rowss' = map length rowss"
  using assms
  by (auto simp: settle_def act_of_def hold_row_def Let_def map_update list_update_same_conv split: option.splits if_splits)

lemma settle_all_acts:
  assumes "settle_all ps blocked ws rs (rowss, acts) = Some (rowss', acts')"
  shows "acts' = acts @ (if ws then [] else map (act_of ps) (filter (\<lambda>r. rm_channel r \<notin> set blocked) rs))"
  using assms
proof (induction rs arbitrary: rowss acts)
  case (Cons r rs)
  then obtain x acts1 where st: "settle ps blocked ws r (rowss, acts) = Some (x, acts1)"
    "settle_all ps blocked ws rs (x, acts1) = Some (rowss', acts')"
    by (auto split: option.splits)
  show ?case using settle_Some [OF st(1)] Cons.IH [OF st(2)] by auto
qed simp

text \<open>A removal that can be settled: the plan of its channel has the channel and the row.\<close>

definition settleable :: "plan list \<Rightarrow> SRow list list \<Rightarrow> removal \<Rightarrow> bool" where
  "settleable ps rowss r =
     (\<exists>n. planNamed ps (rm_channel r) = Some n \<and> n < length rowss \<and> rm_row r < length (rowss ! n)
          \<and> rs_ch (pl_res (ps ! n)) \<noteq> None)"

lemma settle_total:
  assumes "settleable ps rowss r"
  shows "\<exists>rowss' acts'. settle ps blocked ws r (rowss, acts) = Some (rowss', acts')"
  using assms by (auto simp: settleable_def settle_def hold_row_def)

lemma settleable_lengths:
  assumes "map length rowss' = map length rowss" and "settleable ps rowss r"
  shows "settleable ps rowss' r"
proof -
  have "length rowss' = length rowss" using assms(1) map_eq_imp_length_eq by blast
  moreover have "length (rowss' ! n) = length (rowss ! n)" if "n < length rowss" for n
    using assms(1) that calculation by (metis nth_map)
  ultimately show ?thesis using assms(2) by (auto simp: settleable_def)
qed

lemma settle_all_total:
  assumes "\<forall>r\<in>set rs. settleable ps rowss r"
  shows "\<exists>st. settle_all ps blocked ws rs (rowss, acts) = Some st"
  using assms
proof (induction rs arbitrary: rowss acts)
  case (Cons r rs)
  then obtain rowss1 acts1 where st: "settle ps blocked ws r (rowss, acts) = Some (rowss1, acts1)"
    using settle_total [of ps rowss r blocked ws acts] by auto
  have "\<forall>r\<in>set rs. settleable ps rowss1 r"
    using Cons.prems settle_Some [OF st] settleable_lengths by auto
  from Cons.IH [OF this] st show ?case by simp
qed simp

text \<open>The parts of a decision: its rows and removals, its breakers, the actions.\<close>

lemma Decide_parts:
  assumes "Slack_Decide sha d vouches confirmed = Some dec"
  obtains rowss removals leavers k rowss' removeActs where
    "judge_plans (dr_in d) vouches (dr_plans d) [] [] = (rowss, removals, leavers)"
    "k = fold (break_channel sha confirmed (dr_in d) removals) (dr_plans d) \<lparr>bk_breakers = [], bk_blocked = [], bk_held = []\<rparr>"
    "settle_all (dr_plans d) (bk_blocked k) (tripped (workspace_breaker sha confirmed (dr_in d) (dr_plans d) removals))
       removals (rowss, []) = Some (rowss', removeActs)"
    "de_Actions dec = concat (map pl_chanActs (dr_plans d)) @ concat (map pl_shareActs (dr_plans d))
       @ concat (map pl_inviteActs (dr_plans d)) @ removeActs"
  using assms by (auto simp: Slack_Decide_def assemble_def Let_def split: prod.splits option.splits)

lemma removals_settleable:
  assumes "Slack_Derive i = Inr d" and "records_distinct i"
    and "judge_plans i vouches (dr_plans d) [] [] = (rowss, removals, leavers)" and "r \<in> set removals"
  shows "\<exists>k<length (dr_plans d). planNamed (dr_plans d) (rm_channel r) = Some k
    \<and> removal_of i vouches (dr_plans d ! k) r \<and> settleable (dr_plans d) rowss r"
proof -
  from judge_plans_removals [OF assms(3)] assms(4) obtain k
    where k: "k < length (dr_plans d)" "removal_of i vouches (dr_plans d ! k) r" "rm_row r < length (rowss ! k)"
      "length rowss = length (dr_plans d)" by auto
  let ?p = "dr_plans d ! k"
  from k(2) obtain e where e: "e \<in> set (pl_extras ?p)" "strictRemovable i (pl_lc ?p) e" "rm_channel r = lc_name (pl_lc ?p)"
    by (auto simp: removal_of_def)
  have p: "?p \<in> set (dr_plans d)" using k(1) by simp
  have named: "planNamed (dr_plans d) (rm_channel r) = Some k"
    using planNamed_found [OF ordinary_names_distinct [OF assms(2,1)] k(1)] e(2,3)
    by (simp add: strictRemovable_def removing_def)
  have "rs_ch (pl_res ?p) \<noteq> None"
    using extras_stray [OF conjunct2 [OF Derive_plan [OF assms(1) p]] e(1)] derive_channel_frame
      [OF conjunct2 [OF Derive_plan [OF assms(1) p]]] by auto
  then show ?thesis using k named by (auto simp: settleable_def)
qed

text \<open>
  A decision is always reached: with the console's records told apart by their names, what was derived
  from a whole read is decided whatever the directory answers, and never runs into a row or a channel
  that is not there.
\<close>
theorem decision_is_reached:
  assumes "Slack_Derive i = Inr d" and "records_distinct i"
  shows "\<exists>dec. Slack_Decide sha d vouches confirmed = Some dec"
proof -
  obtain rowss removals leavers where j: "judge_plans i vouches (dr_plans d) [] [] = (rowss, removals, leavers)"
    by (metis prod_cases3)
  have "\<forall>r\<in>set removals. settleable (dr_plans d) rowss r"
    using removals_settleable [OF assms j] by blast
  from settle_all_total [OF this] obtain rows acts where
    "settle_all (dr_plans d) (bk_blocked (fold (break_channel sha confirmed i removals) (dr_plans d)
         \<lparr>bk_breakers = [], bk_blocked = [], bk_held = []\<rparr>))
       (tripped (workspace_breaker sha confirmed i (dr_plans d) removals)) removals (rowss, []) = Some (rows, acts)"
    by (metis surj_pair)
  then show ?thesis using j Derive_plans [OF assms(1)] by (simp add: Slack_Decide_def Let_def)
qed

section \<open>Removals\<close>

lemma ready_usable:
  "res_usable (ready ch private True) \<Longrightarrow> rs_ch (ready ch private True) = Some ch \<and> ch_Private ch = private \<and> (ch_BotIn ch \<or> \<not> ch_Private ch)"
  by (auto simp: ready_def res_usable_def res_held_def res_of_def split: if_splits)

lemma adopting_frame [simp]:
  "rs_kind (adopting f res) = rs_kind res" "rs_ch (adopting f res) = rs_ch res" "res_usable (adopting f res) = res_usable res"
  by (simp_all add: adopting_def res_usable_def)

lemma not_usable_held [simp]: "\<not> res_usable (res_held ch change reason)"
  by (simp add: res_usable_def res_held_def res_of_def)

lemma rs_ch_res_of [simp]: "rs_ch (res_of k ch) = ch" "rs_ch (res_held ch change reason) = ch"
  by (simp_all add: res_held_def res_of_def)

lemma byID_in: "byID i ident = Some ch \<Longrightarrow> ch \<in> set (ob_Channels (in_Observed i)) \<and> ch_ID ch = ident"
  by (auto simp: byID_def find_Some_iff)

lemma byName_in: "byName i name = Some ch \<Longrightarrow> ch \<in> set (ob_Channels (in_Observed i)) \<and> ch_Name ch = name"
  by (auto simp: byName_def find_Some_iff)

lemma bound_channel_usable:
  "res_usable (bound_channel i lc c) \<Longrightarrow> rs_ch (bound_channel i lc c) = Some ch \<Longrightarrow>
   ch = c \<and> \<not> ch_Archived c \<and> ch_Private c = lc_private lc \<and> (ch_BotIn c \<or> \<not> ch_Private c)"
  using ready_usable [of c "lc_private lc"] by (auto simp: bound_channel_def split: if_splits)

lemma resolveBound_usable:
  assumes "res_usable (resolveBound i lc)" and "rs_ch (resolveBound i lc) = Some ch"
  shows "ch \<in> set (ob_Channels (in_Observed i)) \<and> \<not> ch_Shared ch \<and> \<not> ch_Archived ch \<and> ch_Private ch = lc_private lc
    \<and> (ch_BotIn ch \<or> \<not> ch_Private ch)
    \<and> (if sc_Adopt (lc_binding lc) = [] then ch_Name ch = lc_name lc else ch_ID ch = sc_Adopt (lc_binding lc))"
proof (cases "sc_Adopt (lc_binding lc) = []")
  case True
  with assms obtain c where "byName i (lc_name lc) = Some c" "\<not> ch_Shared c" "resolveBound i lc = bound_channel i lc c"
    by (auto simp: resolveBound_def Let_def split: option.splits if_splits)
  with assms True bound_channel_usable [of i lc c ch] byName_in [of i "lc_name lc" c] show ?thesis by auto
next
  case False
  with assms obtain c where "byID i (sc_Adopt (lc_binding lc)) = Some c" "\<not> ch_Shared c" "resolveBound i lc = bound_channel i lc c"
    by (auto simp: resolveBound_def Let_def split: option.splits if_splits)
  with assms False bound_channel_usable [of i lc c ch] byID_in [of i "sc_Adopt (lc_binding lc)" c] show ?thesis by auto
qed

text \<open>What a removal from a strict channel rests on.\<close>

definition removable_from :: "Input \<Rightarrow> Vouch table \<Rightarrow> layoutChannel \<Rightarrow> SChannel \<Rightarrow> SMember \<Rightarrow> bool" where
  "removable_from i vouches lc ch m =
     (lc_strict lc \<and> lc_shared lc = None
      \<and> ch \<in> set (ob_Channels (in_Observed i)) \<and> \<not> ch_Shared ch \<and> \<not> ch_Archived ch \<and> ch_Private ch = lc_private lc
      \<and> (\<exists>ident\<in>set (ch_Members ch). ident \<noteq> ob_BotUserID (in_Observed i) \<and> map_of (ob_Members (in_Observed i)) ident = Some m)
      \<and> \<not> sm_Bot m \<and> \<not> sm_Deleted m \<and> \<not> sm_Guest m \<and> \<not> foreign i m \<and> sm_Email m \<noteq> []
      \<and> (\<forall>entry\<in>set (sc_Ignore (lc_binding lc)). normalise entry \<noteq> normalise (sm_ID m)
           \<and> normalise entry \<notin> set (addressesOf (newResolver i) (sm_Email m)))
      \<and> personKey (newResolver i) (sm_Email m) \<notin> pe_key ` set (lc_all lc) - {[]}
      \<and> (\<forall>a\<in>set (addressesOf (newResolver i) (sm_Email m)). \<exists>v. map_of vouches a = Some v \<and> v_Authoritative v
           \<and> (v_Found v \<and> \<not> v_Suspended v \<longrightarrow> set (lc_belongs lc) \<inter> (set (v_Groups v) \<union> set (v_DirectoryGroups v)) = {})))"

lemma Removal_vouched:
  assumes "Removal addrs vouches belongs = None"
  shows "\<forall>a\<in>set addrs. \<exists>v. map_of vouches a = Some v \<and> v_Authoritative v
    \<and> (v_Found v \<and> \<not> v_Suspended v \<longrightarrow> set belongs \<inter> (set (v_Groups v) \<union> set (v_DirectoryGroups v)) = {})"
proof
  fix a assume "a \<in> set addrs"
  with assms obtain v where "map_of vouches a = Some v" "v_Authoritative v"
    "\<not> (v_Found v \<and> \<not> v_Suspended v \<and> (holdsAny (v_Groups v) belongs \<or> holdsAny (v_DirectoryGroups v) belongs))"
    unfolding Removal_None_iff by metis
  then show "\<exists>v. map_of vouches a = Some v \<and> v_Authoritative v
    \<and> (v_Found v \<and> \<not> v_Suspended v \<longrightarrow> set belongs \<inter> (set (v_Groups v) \<union> set (v_DirectoryGroups v)) = {})"
    by (intro exI [of _ v]) (auto simp: holdsAny_def list_ex_iff)
qed

lemma removal_of_removable:
  assumes "Slack_Derive i = Inr d" and "p \<in> set (dr_plans d)" and "removal_of i vouches p r"
  shows "\<exists>ch. rs_ch (pl_res p) = Some ch \<and> removable_from i vouches (pl_lc p) ch (rm_member r)"
proof -
  from assms(3) obtain e where e: "e \<in> set (pl_extras p)" "strictRemovable i (pl_lc p) e"
    "Removal (ex_addrs e) vouches (lc_belongs (pl_lc p)) = None" "rm_member r = ex_member e" by (auto simp: removal_of_def)
  note dp = conjunct2 [OF Derive_plan [OF assms(1,2)]]
  from extras_stray [OF dp e(1)] obtain ch where ch: "rs_ch (resolve_channel i (pl_lc p)) = Some ch"
    "res_usable (resolve_channel i (pl_lc p))" "stray i (newResolver i) (pl_lc p) ch e" by blast
  then have b: "res_usable (resolveBound i (pl_lc p))" "rs_ch (resolveBound i (pl_lc p)) = Some ch"
    using e(2) by (simp_all add: resolve_channel_def strictRemovable_def removing_def)
  from ch(3) obtain ident m where m: "ident \<in> set (ch_Members ch)" "ident \<noteq> ob_BotUserID (in_Observed i)"
    "map_of (ob_Members (in_Observed i)) ident = Some m" "\<not> sm_Bot m" "\<not> sm_Deleted m" "e = extra_of (newResolver i) m"
    and key: "ex_key e \<noteq> [] \<longrightarrow> ex_key e \<notin> pe_key ` set (lc_all (pl_lc p))"
    by (auto simp: stray_def)
  have em: "ex_member e = m" using m(6) by (simp add: extra_of_def)
  have email: "sm_Email m \<noteq> []" using e(2) em by (simp add: strictRemovable_def)
  have fields: "ex_key e = personKey (newResolver i) (sm_Email m)" "ex_addrs e = addressesOf (newResolver i) (sm_Email m)"
    using m(6) email by (simp_all add: extra_of_def)
  have ign: "\<forall>entry\<in>set (sc_Ignore (lc_binding (pl_lc p))). normalise entry \<noteq> normalise (sm_ID m)
      \<and> normalise entry \<notin> set (addressesOf (newResolver i) (sm_Email m))"
    using e(2) em fields by (auto simp: strictRemovable_def ignored_def list_ex_iff)
  have vouched: "\<forall>a\<in>set (addressesOf (newResolver i) (sm_Email m)). \<exists>v. map_of vouches a = Some v \<and> v_Authoritative v
      \<and> (v_Found v \<and> \<not> v_Suspended v \<longrightarrow> set (lc_belongs (pl_lc p)) \<inter> (set (v_Groups v) \<union> set (v_DirectoryGroups v)) = {})"
    using Removal_vouched [OF e(3)] fields by simp
  have flags: "lc_strict (pl_lc p)" "lc_shared (pl_lc p) = None" "\<not> sm_Guest m" "\<not> foreign i m"
    using e(2) em by (simp_all add: strictRemovable_def removing_def)
  have named: "personKey (newResolver i) (sm_Email m) \<notin> pe_key ` set (lc_all (pl_lc p)) - {[]}"
    using key fields by auto
  have "removable_from i vouches (pl_lc p) ch m"
    unfolding removable_from_def using resolveBound_usable [OF b] m(1-5) flags email ign named vouched by blast
  then have "removable_from i vouches (pl_lc p) ch (rm_member r)" using e(4) em by simp
  then show ?thesis using ch(1) derive_channel_frame [OF dp] by simp
qed

lemma action_of_fields [simp]:
  "act_Kind (action_of k lc) = k" "act_Channel (action_of k lc) = lc_name lc" "act_Shared (action_of k lc) \<longleftrightarrow> lc_shared lc \<noteq> None"
  by (simp_all add: action_of_def)

lemma channel_actions_kind:
  "a \<in> set (channel_actions i lc res) \<Longrightarrow> act_Kind a \<in> {ActionCreate, ActionAdopt, ActionShareAccept}"
  by (auto simp: channel_actions_def split: resKind.splits)

lemma share_one_acts: "a \<in> set (pl_shareActs (share_one i g p)) \<Longrightarrow> a \<in> set (pl_shareActs p) \<or> a = share_invite i p g"
  by (auto simp: share_one_def Let_def split: if_splits)

lemma share_invite_kind [simp]: "act_Kind (share_invite i p g) = ActionShareInvite"
  by (simp add: share_invite_def)

lemma fold_share_kind:
  "(\<And>a. a \<in> set (pl_shareActs p) \<Longrightarrow> act_Kind a = ActionShareInvite) \<Longrightarrow>
   a \<in> set (pl_shareActs (fold (share_one i) gs p)) \<Longrightarrow> act_Kind a = ActionShareInvite"
proof (induction gs arbitrary: p)
  case (Cons g gs)
  have "act_Kind b = ActionShareInvite" if "b \<in> set (pl_shareActs (share_one i g p))" for b
    using share_one_acts [OF that] Cons.prems(1) by auto
  from Cons.IH [OF this] Cons.prems(2) show ?case by simp
qed simp

lemma shareActions_kind:
  "(\<And>a. a \<in> set (pl_shareActs p) \<Longrightarrow> act_Kind a = ActionShareInvite) \<Longrightarrow>
   a \<in> set (pl_shareActs (shareActions i p)) \<Longrightarrow> act_Kind a = ActionShareInvite"
  unfolding shareActions_def by (auto split: option.splits if_splits elim: fold_share_kind [rotated])

lemma start_plan_shares: "a \<in> set (pl_shareActs (start_plan i lc)) \<Longrightarrow> act_Kind a = ActionShareInvite"
  unfolding start_plan_def Let_def by (erule shareActions_kind [rotated]) simp

lemma treat_invites:
  "treat i lc res members s = Inr (row, held, acts) \<Longrightarrow> a \<in> set acts \<Longrightarrow> act_Kind a = ActionInvite"
  by (auto simp: treat_def hold_slot_def invite_slot_def split: if_splits option.splits)

lemma derived_invites:
  assumes "derive_channel i r lc = Inr p" and "a \<in> set (pl_inviteActs p)"
  shows "\<exists>s\<in>set (lc_slots lc). \<exists>row held acts. a \<in> set acts \<and> res_usable (resolve_channel i lc)
    \<and> treat i lc (resolve_channel i lc) (case pl_members (start_plan i lc) of None \<Rightarrow> [] | Some ms \<Rightarrow> ms) s = Inr (row, held, acts)"
proof -
  obtain q where q: "derive_people i (start_plan i lc) = Inr q" "pl_inviteActs q = pl_inviteActs p"
    using assms(1) findExtras_frame by (metis derive_channel_cases)
  with assms(2) have u: "res_usable (resolve_channel i lc)"
    by (auto simp: derive_people_def split: if_splits)
  have "a \<in> set (pl_inviteActs q)" using q(2) assms(2) by simp
  with q(1) u obtain ts where
    ts: "map_err (treat i lc (resolve_channel i lc) (case pl_members (start_plan i lc) of None \<Rightarrow> [] | Some ms \<Rightarrow> ms)) (lc_slots lc) = Inr ts"
    and a: "a \<in> set (concat (map (snd \<circ> snd) ts))"
    by (auto simp: derive_people_def people_def split: sum.splits)
  from a obtain t where t: "t \<in> set ts" "a \<in> set (snd (snd t))" by auto
  from map_err_origin [OF ts t(1)] t(2) u show ?thesis by (metis prod.collapse)
qed

lemma plan_kinds:
  assumes "Slack_Derive i = Inr d" and "p \<in> set (dr_plans d)"
  shows "a \<in> set (pl_chanActs p) \<Longrightarrow> act_Kind a \<in> {ActionCreate, ActionAdopt, ActionShareAccept}"
    and "a \<in> set (pl_shareActs p) \<Longrightarrow> act_Kind a = ActionShareInvite"
    and "a \<in> set (pl_inviteActs p) \<Longrightarrow> act_Kind a = ActionInvite"
proof -
  note dp = conjunct2 [OF Derive_plan [OF assms]]
  note fr = derive_channel_frame [OF dp]
  show "a \<in> set (pl_chanActs p) \<Longrightarrow> act_Kind a \<in> {ActionCreate, ActionAdopt, ActionShareAccept}"
    using fr channel_actions_kind by metis
  show "a \<in> set (pl_shareActs p) \<Longrightarrow> act_Kind a = ActionShareInvite"
    using fr start_plan_shares by metis
  show "a \<in> set (pl_inviteActs p) \<Longrightarrow> act_Kind a = ActionInvite"
    using derived_invites [OF dp] treat_invites by metis
qed

lemma act_of_fields [simp]:
  "act_Kind (act_of ps r) = ActionRemove" "act_Channel (act_of ps r) = rm_channel r" "act_Person (act_of ps r) = rm_key r"
  "act_User (act_of ps r) = sm_ID (rm_member r)"
  by (simp_all add: act_of_def remove_action_def Let_def)

text \<open>The removals of a decision, in one channel or in all.\<close>

definition removed :: "SDecision \<Rightarrow> SAction list" where
  "removed dec = filter (\<lambda>a. act_Kind a = ActionRemove) (de_Actions dec)"

lemma removed_are:
  assumes "Slack_Derive i = Inr d" and "Slack_Decide sha d vouches confirmed = Some dec"
    and "judge_plans i vouches (dr_plans d) [] [] = (rowss, removals, leavers)"
  shows "removed dec = (if tripped (workspace_breaker sha confirmed i (dr_plans d) removals) then []
     else map (act_of (dr_plans d)) (filter (\<lambda>r. rm_channel r \<notin> set (bk_blocked
       (fold (break_channel sha confirmed i removals) (dr_plans d) \<lparr>bk_breakers = [], bk_blocked = [], bk_held = []\<rparr>))) removals))"
proof -
  have i: "dr_in d = i" using Derive_plans [OF assms(1)] by simp
  from assms(2) obtain rowss1 removals1 leavers1 k rowss' removeActs where
    "judge_plans (dr_in d) vouches (dr_plans d) [] [] = (rowss1, removals1, leavers1)"
    and k: "k = fold (break_channel sha confirmed (dr_in d) removals1) (dr_plans d) \<lparr>bk_breakers = [], bk_blocked = [], bk_held = []\<rparr>"
    and st: "settle_all (dr_plans d) (bk_blocked k) (tripped (workspace_breaker sha confirmed (dr_in d) (dr_plans d) removals1))
       removals1 (rowss1, []) = Some (rowss', removeActs)"
    and acts: "de_Actions dec = concat (map pl_chanActs (dr_plans d)) @ concat (map pl_shareActs (dr_plans d))
       @ concat (map pl_inviteActs (dr_plans d)) @ removeActs"
    by (rule Decide_parts)
  then have r1: "removals1 = removals" using assms(3) i by simp
  have ra: "removeActs = (if tripped (workspace_breaker sha confirmed i (dr_plans d) removals) then []
     else map (act_of (dr_plans d)) (filter (\<lambda>r. rm_channel r \<notin> set (bk_blocked k)) removals))"
    using settle_all_acts [OF st] r1 i by simp
  have "filter (\<lambda>a. act_Kind a = ActionRemove) (concat (map f (dr_plans d))) = []"
    if "\<And>p a. p \<in> set (dr_plans d) \<Longrightarrow> a \<in> set (f p) \<Longrightarrow> act_Kind a \<noteq> ActionRemove" for f
    using that by (auto simp: filter_empty_conv)
  from this [of pl_chanActs] this [of pl_shareActs] this [of pl_inviteActs] plan_kinds [OF assms(1)]
  have "removed dec = filter (\<lambda>a. act_Kind a = ActionRemove) removeActs"
    unfolding removed_def acts filter_append by fastforce
  also have "\<dots> = removeActs" unfolding ra by (auto simp: filter_map comp_def intro!: filter_True)
  finally show ?thesis using ra k r1 i by simp
qed

text \<open>
  Somebody is removed only from a private-as-declared, unshared, unarchived strict channel they were
  read to be a member of, is no bot, guest, deactivated or foreign account and on no ignore list, is
  wanted by no binding of the channel, and every address of theirs has an authoritative answer under
  which they hold none of the channel's groups.
\<close>
theorem slack_removals_rest_on_evidence:
  assumes "Slack_Derive i = Inr d" and "records_distinct i" and "Slack_Decide sha d vouches confirmed = Some dec"
    and "a \<in> set (removed dec)"
  shows "\<exists>lc\<in>set (layout (newResolver i)). \<exists>ch m. lc_name lc = act_Channel a \<and> ch_ID ch = act_ChannelID a
    \<and> sm_ID m = act_User a \<and> removable_from i vouches lc ch m"
proof -
  obtain rowss removals leavers where j: "judge_plans i vouches (dr_plans d) [] [] = (rowss, removals, leavers)"
    by (metis prod_cases3)
  from removed_are [OF assms(1,3) j] assms(4) obtain r where r: "r \<in> set removals" "a = act_of (dr_plans d) r"
    by (auto split: if_splits)
  from removals_settleable [OF assms(1,2) j r(1)] obtain k where k: "k < length (dr_plans d)"
    "planNamed (dr_plans d) (rm_channel r) = Some k" "removal_of i vouches (dr_plans d ! k) r" by blast
  let ?p = "dr_plans d ! k"
  have p: "?p \<in> set (dr_plans d)" using k(1) by simp
  from removal_of_removable [OF assms(1) p k(3)] obtain ch where ch: "rs_ch (pl_res ?p) = Some ch"
    "removable_from i vouches (pl_lc ?p) ch (rm_member r)" by blast
  have "ch_ID ch = act_ChannelID a" using r(2) k(2) ch(1) by (simp add: act_of_def remove_action_def Let_def)
  moreover have "lc_name (pl_lc ?p) = act_Channel a" using planNamed_Some [OF k(2)] r(2) by simp
  ultimately show ?thesis using ch(2) Derive_plan [OF assms(1) p] r(2) by fastforce
qed

section \<open>The breakers\<close>

definition confirms :: "Confirmed \<Rightarrow> string \<Rightarrow> bool" where
  "confirms c fp = (fp \<noteq> [] \<and> (cf_Workspace c = fp \<or> fp \<in> ran (map_of (cf_Channels c))))"

lemma covers_confirms: "Confirmed_covers c fp = fp \<and> fp \<noteq> [] \<longleftrightarrow> confirms c fp"
proof -
  have "list_ex (\<lambda>(_, x). x = fp) (sorted_entries m) \<longleftrightarrow> fp \<in> ran (map_of m)" for m :: "string table"
    by (force simp: list_ex_iff sorted_entries_def ran_def)
  then show ?thesis by (auto simp: Confirmed_covers_def confirms_def)
qed

lemma not_tripped:
  assumes "\<not> tripped (breaker_over sha confirmed rms n)" and "0 < n"
  shows "2 * card (rm_key ` set rms) \<le> n \<or> confirms confirmed (Fingerprint sha (map rm_line rms))"
proof (cases "breaker_over sha confirmed rms n")
  case None
  then show ?thesis using assms(2)
    by (auto simp: breaker_over_def CheckBreaker_def Let_def length_remdups_card_conv split: if_splits)
next
  case (Some b)
  then have "br_Confirmed b" using assms(1) by (simp add: tripped_def)
  with Some have "Confirmed_covers confirmed (Fingerprint sha (map rm_line rms)) = Fingerprint sha (map rm_line rms)
      \<and> Fingerprint sha (map rm_line rms) \<noteq> []"
    by (auto simp: breaker_over_def CheckBreaker_def Let_def split: if_splits)
  then show ?thesis by (simp add: covers_confirms)
qed

lemma break_channel_blocked:
  "name \<in> set (bk_blocked (break_channel sha confirmed i removals p k)) \<longleftrightarrow> name \<in> set (bk_blocked k)
     \<or> (name = lc_name (pl_lc p) \<and> lc_shared (pl_lc p) = None \<and> filter (\<lambda>r. rm_channel r = name) removals \<noteq> []
        \<and> tripped (breaker_over sha confirmed (filter (\<lambda>r. rm_channel r = name) removals) (managedMembers i p)))"
  by (auto simp: break_channel_def Let_def)

lemma fold_break_blocked:
  "name \<in> set (bk_blocked (fold (break_channel sha confirmed i removals) ps k)) \<longleftrightarrow> name \<in> set (bk_blocked k)
     \<or> (\<exists>p\<in>set ps. name = lc_name (pl_lc p) \<and> lc_shared (pl_lc p) = None \<and> filter (\<lambda>r. rm_channel r = name) removals \<noteq> []
        \<and> tripped (breaker_over sha confirmed (filter (\<lambda>r. rm_channel r = name) removals) (managedMembers i p)))"
  by (induction ps arbitrary: k) (auto simp: break_channel_blocked)

definition action_line :: "SAction \<Rightarrow> string" where
  "action_line a = act_Channel a @ ''|'' @ act_Person a"

lemma action_line_act_of [simp]: "action_line (act_of ps r) = rm_line r"
  by (simp add: action_line_def rm_line_def)

definition removed_in :: "string \<Rightarrow> SDecision \<Rightarrow> SAction list" where
  "removed_in c dec = filter (\<lambda>a. act_Channel a = c) (removed dec)"

lemma managedMembers_card:
  assumes "derive_channel i r lc = Inr p" and "rs_ch (pl_res p) = Some ch" and "res_usable (pl_res p)"
  shows "managedMembers i p = card (set (ch_Members ch) - {ob_BotUserID (in_Observed i)})"
proof -
  have "pl_members p = Some (remdups (ch_Members ch))"
    using derive_channel_frame [OF assms(1)] assms(2,3) by (simp add: channel_exists_def)
  moreover have "card (set (ch_Members ch) - {ob_BotUserID (in_Observed i)})
    = card (set (filter (\<lambda>x. x \<noteq> ob_BotUserID (in_Observed i)) (remdups (ch_Members ch))))"
    by (rule arg_cong [of _ _ card]) auto
  ultimately show ?thesis
    by (simp add: managedMembers_def distinct_card del: set_filter)
qed

lemma removed_in_are:
  assumes "Slack_Derive i = Inr d" and "Slack_Decide sha d vouches confirmed = Some dec"
    and j: "judge_plans i vouches (dr_plans d) [] [] = (rowss, removals, leavers)" and "removed_in c dec \<noteq> []"
  shows "removed_in c dec = map (act_of (dr_plans d)) (filter (\<lambda>r. rm_channel r = c) removals)
    \<and> c \<notin> set (bk_blocked (fold (break_channel sha confirmed i removals) (dr_plans d) \<lparr>bk_breakers = [], bk_blocked = [], bk_held = []\<rparr>))"
proof -
  let ?bl = "set (bk_blocked (fold (break_channel sha confirmed i removals) (dr_plans d) \<lparr>bk_breakers = [], bk_blocked = [], bk_held = []\<rparr>))"
  have "removed_in c dec = map (act_of (dr_plans d)) (filter (\<lambda>r. rm_channel r = c) (filter (\<lambda>r. rm_channel r \<notin> ?bl) removals))"
    and c: "c \<notin> ?bl"
    using removed_are [OF assms(1,2) j] assms(4) by (auto simp: removed_in_def filter_map comp_def split: if_splits)
      (auto simp: filter_empty_conv)
  moreover have "filter (\<lambda>r. rm_channel r = c) (filter (\<lambda>r. rm_channel r \<notin> ?bl) removals) = filter (\<lambda>r. rm_channel r = c) removals"
    using c by (auto intro: filter_cong)
  ultimately show ?thesis by simp
qed

lemma unblocked_not_tripped:
  assumes "c \<notin> set (bk_blocked (fold (break_channel sha confirmed i removals) ps k))" and "p \<in> set ps"
    and "lc_name (pl_lc p) = c" and "lc_shared (pl_lc p) = None" and "r \<in> set removals" and "rm_channel r = c"
  shows "\<not> tripped (breaker_over sha confirmed (filter (\<lambda>r. rm_channel r = c) removals) (managedMembers i p))"
  using assms unfolding fold_break_blocked filter_empty_conv by blast

text \<open>The plan and the channel a removal of a decision is about.\<close>

lemma removal_plan:
  assumes "Slack_Derive i = Inr d" and "records_distinct i"
    and j: "judge_plans i vouches (dr_plans d) [] [] = (rowss, removals, leavers)" and r: "r \<in> set removals"
  obtains k ch where "k < length (dr_plans d)" "planNamed (dr_plans d) (rm_channel r) = Some k"
    "rs_ch (pl_res (dr_plans d ! k)) = Some ch" "ch \<in> set (ob_Channels (in_Observed i))"
    "0 < card (set (ch_Members ch) - {ob_BotUserID (in_Observed i)})"
    "managedMembers i (dr_plans d ! k) = card (set (ch_Members ch) - {ob_BotUserID (in_Observed i)})"
    "set (ch_Members ch) - {ob_BotUserID (in_Observed i)} \<subseteq> set (workspace_members i (dr_plans d))"
proof -
  let ?ps = "dr_plans d"
  from removals_settleable [OF assms(1,2) j r] obtain k where k: "k < length ?ps" "planNamed ?ps (rm_channel r) = Some k"
    "removal_of i vouches (?ps ! k) r" by blast
  have p: "?ps ! k \<in> set ?ps" using k(1) by simp
  note dp = conjunct2 [OF Derive_plan [OF assms(1) p]]
  from removal_of_removable [OF assms(1) p k(3)] obtain ch where ch: "rs_ch (pl_res (?ps ! k)) = Some ch"
    "removable_from i vouches (pl_lc (?ps ! k)) ch (rm_member r)" by blast
  from k(3) obtain e where "e \<in> set (pl_extras (?ps ! k))" by (auto simp: removal_of_def)
  from extras_stray [OF dp this] derive_channel_frame [OF dp] have u: "res_usable (pl_res (?ps ! k))" by auto
  have "0 < card (set (ch_Members ch) - {ob_BotUserID (in_Observed i)})"
    using ch(2) by (auto simp: removable_from_def card_gt_0_iff)
  moreover have "set (ch_Members ch) - {ob_BotUserID (in_Observed i)} \<subseteq> set (workspace_members i ?ps)"
    using derive_channel_frame [OF dp] ch(1) u p by (fastforce simp: workspace_members_def channel_exists_def)
  ultimately show ?thesis
    using that k(1,2) ch managedMembers_card [OF dp ch(1) u] by (simp add: removable_from_def)
qed

lemma channel_removals_bounded:
  assumes "Slack_Derive i = Inr d" and "records_distinct i" and "Slack_Decide sha d vouches confirmed = Some dec"
    and "removed_in c dec \<noteq> []"
  shows "\<exists>ch\<in>set (ob_Channels (in_Observed i)). (\<forall>a\<in>set (removed_in c dec). act_ChannelID a = ch_ID ch)
      \<and> (2 * card (act_Person ` set (removed_in c dec)) \<le> card (set (ch_Members ch) - {ob_BotUserID (in_Observed i)})
         \<or> confirms confirmed (Fingerprint sha (map action_line (removed_in c dec))))"
proof -
  obtain rowss removals leavers where j: "judge_plans i vouches (dr_plans d) [] [] = (rowss, removals, leavers)"
    by (metis prod_cases3)
  let ?rms = "filter (\<lambda>r. rm_channel r = c) removals"
  note ri = removed_in_are [OF assms(1,3) j assms(4)]
  from ri assms(4) obtain r where r: "r \<in> set removals" "rm_channel r = c" by (auto simp: filter_empty_conv)
  from assms(1,2) j r(1) obtain k ch where k: "k < length (dr_plans d)" "planNamed (dr_plans d) c = Some k"
    and ch: "rs_ch (pl_res (dr_plans d ! k)) = Some ch" "ch \<in> set (ob_Channels (in_Observed i))"
    and pos: "0 < card (set (ch_Members ch) - {ob_BotUserID (in_Observed i)})"
    and n: "managedMembers i (dr_plans d ! k) = card (set (ch_Members ch) - {ob_BotUserID (in_Observed i)})"
    unfolding r(2) [symmetric] by (rule removal_plan)
  have "\<not> tripped (breaker_over sha confirmed ?rms (managedMembers i (dr_plans d ! k)))"
    using unblocked_not_tripped [OF conjunct2 [OF ri], of "dr_plans d ! k" r] planNamed_Some [OF k(2)] k(1) r by simp
  then have "2 * card (rm_key ` set ?rms) \<le> card (set (ch_Members ch) - {ob_BotUserID (in_Observed i)})
      \<or> confirms confirmed (Fingerprint sha (map rm_line ?rms))"
    unfolding n by (rule not_tripped [OF _ pos])
  moreover have "act_Person ` set (removed_in c dec) = rm_key ` set ?rms" "map action_line (removed_in c dec) = map rm_line ?rms"
    "\<forall>a\<in>set (removed_in c dec). act_ChannelID a = ch_ID ch"
    unfolding conjunct1 [OF ri] using k(2) ch(1) by (simp_all add: image_image comp_def)
      (auto simp: act_of_def remove_action_def Let_def)
  ultimately show ?thesis using ch(2) by auto
qed

lemma workspace_removals_bounded:
  assumes "Slack_Derive i = Inr d" and "records_distinct i" and "Slack_Decide sha d vouches confirmed = Some dec"
    and "removed dec \<noteq> []"
  shows "2 * card (act_Person ` set (removed dec)) \<le> length (workspace_members i (dr_plans d))
       \<or> (\<exists>ls. action_line ` set (removed dec) \<subseteq> set ls \<and> confirms confirmed (Fingerprint sha ls))"
proof -
  obtain rowss removals leavers where j: "judge_plans i vouches (dr_plans d) [] [] = (rowss, removals, leavers)"
    by (metis prod_cases3)
  have nt: "\<not> tripped (workspace_breaker sha confirmed i (dr_plans d) removals)"
    and sub: "set (removed dec) \<subseteq> act_of (dr_plans d) ` set removals"
    using removed_are [OF assms(1,3) j] assms(4) by (auto split: if_splits)
  then obtain r where r: "r \<in> set removals" using assms(4) by (cases removals) auto
  from assms(1,2) j r obtain ch :: SChannel where "0 < card (set (ch_Members ch) - {ob_BotUserID (in_Observed i)})"
    "set (ch_Members ch) - {ob_BotUserID (in_Observed i)} \<subseteq> set (workspace_members i (dr_plans d))"
    by (rule removal_plan) blast
  then have "0 < length (workspace_members i (dr_plans d))" by (auto simp: card_gt_0_iff)
  from not_tripped [OF _ this, of sha confirmed removals] nt r
  have "2 * card (rm_key ` set removals) \<le> length (workspace_members i (dr_plans d))
      \<or> confirms confirmed (Fingerprint sha (map rm_line removals))"
    by (auto simp: workspace_breaker_def split: if_splits)
  moreover have line: "action_line ` set (removed dec) \<subseteq> rm_line ` set removals"
    and pers: "act_Person ` set (removed dec) \<subseteq> rm_key ` set removals" using sub by force+
  moreover have "card (act_Person ` set (removed dec)) \<le> card (rm_key ` set removals)"
    using pers by (intro card_mono) simp_all
  ultimately show ?thesis by (auto intro!: exI [of _ "map rm_line removals"])
qed

text \<open>
  More than half of a channel is removed only when an operator confirmed exactly that set, and more
  than half of everybody in the workspace's managed channels only when an operator confirmed a set that
  holds all of them.
\<close>
theorem slack_mass_removal_needs_confirmation:
  assumes "Slack_Derive i = Inr d" and "records_distinct i" and "Slack_Decide sha d vouches confirmed = Some dec"
    and "removed_in c dec \<noteq> []"
  shows "(\<exists>ch\<in>set (ob_Channels (in_Observed i)). (\<forall>a\<in>set (removed_in c dec). act_ChannelID a = ch_ID ch)
      \<and> (2 * card (act_Person ` set (removed_in c dec)) \<le> card (set (ch_Members ch) - {ob_BotUserID (in_Observed i)})
         \<or> confirms confirmed (Fingerprint sha (map action_line (removed_in c dec)))))
    \<and> (2 * card (act_Person ` set (removed dec)) \<le> length (workspace_members i (dr_plans d))
       \<or> (\<exists>ls. action_line ` set (removed dec) \<subseteq> set ls \<and> confirms confirmed (Fingerprint sha ls)))"
proof -
  have "removed dec \<noteq> []" using assms(4) by (auto simp: removed_in_def)
  then show ?thesis using channel_removals_bounded [OF assms] workspace_removals_bounded [OF assms(1-3)] by blast
qed

section \<open>Invitations\<close>

text \<open>
  The holders that may put somebody in a channel: of the groups a policy channel is bound to, of the
  directory groups a record names, or a user the record lists.
\<close>

definition feeders :: "Input \<Rightarrow> layoutChannel \<Rightarrow> Holder set" where
  "feeders i lc =
     (if lc_shared lc = None \<and> \<not> lc_console lc then \<Union>g\<in>set (lc_groups lc). set (tget [] (in_Holders i) g)
      else (\<Union>g\<in>set (lc_groups lc). set (tget [] (in_DirHolders i) g)) \<union> ran (map_of (in_DirUsers i)))"

lemma sources_feed:
  assumes "h \<in> sources_of (newResolver i) holders groups members" and "ho_Live h"
  shows "h \<in> (\<Union>g\<in>set groups. set (tget [] holders g)) \<union> (if members = [] then {} else ran (map_of (in_DirUsers i)))"
  using assms by (auto simp: sources_of_def tget_def no_Holder_def ran_def split: option.splits if_splits)

lemma layout_admitted:
  assumes "lc \<in> set (layout (newResolver i))" and "p \<in> set (lc_all lc)"
  shows "\<exists>h\<in>feeders i lc. admits (newResolver i) (pe_key p) h"
proof -
  have live: "admits (newResolver i) key h \<Longrightarrow> ho_Live h" for key h by (simp add: admits_def)
  have wf: "\<exists>h\<in>(\<Union>g\<in>set groups. set (tget [] holders g)) \<union> (if members = [] then {} else ran (map_of (in_DirUsers i))).
      admits (newResolver i) (pe_key p) h" if "p \<in> set (wantedFrom (newResolver i) holders groups members)" for holders groups members
    using admitted_live [OF that] sources_feed [of _ i holders groups members] live by blast
  from assms(1) consider "lc \<in> set (layout_policy (newResolver i))" | "lc \<in> set (layout_console (newResolver i))"
    | "lc \<in> set (layout_shared (newResolver i))"
    by (auto simp: layout_def)
  then show ?thesis
  proof cases
    case 1
    then have "p \<in> set (wantedFrom (newResolver i) (in_Holders i) (lc_groups lc) [])" "lc_shared lc = None" "\<not> lc_console lc"
      using assms(2) by (auto simp: layout_policy_def wanted_def Let_def)
    with wf [OF this(1)] show ?thesis by (simp add: feeders_def)
  next
    case 2
    then obtain ms where "p \<in> set (wantedFrom (newResolver i) (in_DirHolders i) (lc_groups lc) ms)" "lc_console lc"
      using assms(2) by (auto simp: layout_console_def Let_def)
    with wf [OF this(1)] show ?thesis by (auto simp: feeders_def split: if_splits)
  next
    case 3
    then obtain ms where "p \<in> set (wantedFrom (newResolver i) (in_DirHolders i) (lc_groups lc) ms)" "lc_shared lc \<noteq> None"
      using assms(2) by (auto simp: layout_shared_def Let_def)
    with wf [OF this(1)] show ?thesis by (auto simp: feeders_def split: if_splits)
  qed
qed

lemma layout_slots:
  assumes "lc \<in> set (layout (newResolver i))" and "s \<in> set (lc_slots lc)" and "in_Workspace i \<noteq> []"
  shows "sl_person s \<in> set (lc_all lc)
    \<and> (sl_addr s \<noteq> [] \<longrightarrow> path (newResolver i) (in_Workspace i) (sl_person s) = Some (sl_addr s))"
proof -
  have own: "sl_person s \<in> set ps \<and> (sl_addr s \<noteq> [] \<longrightarrow> path (newResolver i) (in_Workspace i) (sl_person s) = Some (sl_addr s))"
    if "s \<in> set (slotsOwn (newResolver i) ps)" for ps
    using that by (auto simp: slotsOwn_def split: option.splits)
  have shared: "sl_person s \<in> set ps \<and> (sl_addr s \<noteq> [] \<longrightarrow> path (newResolver i) (in_Workspace i) (sl_person s) = Some (sl_addr s))"
    if "s \<in> set (shared_slots (newResolver i) sh ps)" for sh ps
  proof -
    from that obtain p where p: "p \<in> set ps" "sl_person s = p" "sl_addr s \<noteq> [] \<Longrightarrow> owner_of (newResolver i) sh p = (in_Workspace i, sl_addr s)"
      unfolding shared_slots_def case_prod_beta by (auto simp: prod_eq_iff split: if_splits)
    then show ?thesis using owner_among_Some assms(3) unfolding owner_of_def by blast
  qed
  from assms(1,2) own shared show ?thesis
    unfolding layout_def layout_policy_def layout_console_def layout_shared_def Let_def by (auto split: prod.splits)
qed

lemma treat_invited:
  assumes "treat i lc res members s = Inr (row, held, acts)" and "a \<in> set acts"
  shows "sl_addr s \<noteq> [] \<and> act_Channel a = lc_name lc \<and> act_Person a = pe_key (sl_person s) \<and> act_Email a = sl_addr s
    \<and> (\<exists>acct. map_of (ob_Accounts (in_Observed i)) (sl_addr s) = Some acct \<and> act_User a = sac_ID acct \<and> sac_Found acct
         \<and> \<not> sac_Deleted acct \<and> \<not> sac_Bot acct \<and> \<not> sac_Guest acct
         \<and> (sac_TeamID acct = [] \<or> ob_TeamID (in_Observed i) = [] \<or> sac_TeamID acct = ob_TeamID (in_Observed i))
         \<and> sac_ID acct \<notin> set members)"
  using assms by (auto simp: treat_def hold_slot_def invite_slot_def split: if_splits option.splits)


section \<open>What the directory is asked\<close>

lemma gone_cong: "(\<And>a. a \<in> set addrs \<Longrightarrow> map_of v a = map_of w a) \<Longrightarrow> gone addrs v = gone addrs w"
  unfolding gone_def by (induction addrs) (auto split: option.splits)

lemma verdict_cong:
  assumes "\<And>a. strictRemovable i lc e \<or> leaverCandidate i e \<Longrightarrow> a \<in> set (ex_addrs e) \<Longrightarrow> map_of v a = map_of w a"
  shows "verdict i v lc e = verdict i w lc e"
proof -
  have "strictRemovable i lc e \<Longrightarrow> Removal (ex_addrs e) v (lc_belongs lc) = Removal (ex_addrs e) w (lc_belongs lc)"
    using assms by (intro Removal_cong) blast
  moreover have "leaverCandidate i e \<Longrightarrow> gone (ex_addrs e) v = gone (ex_addrs e) w"
    using assms by (intro gone_cong) blast
  ultimately show ?thesis unfolding verdict_def Let_def by (cases "strictRemovable i lc e"; cases "leaverCandidate i e") simp_all
qed

lemma judge_plans_cong:
  "(\<And>p e a. p \<in> set ps \<Longrightarrow> e \<in> set (pl_extras p) \<Longrightarrow> strictRemovable i (pl_lc p) e \<or> leaverCandidate i e \<Longrightarrow>
      a \<in> set (ex_addrs e) \<Longrightarrow> map_of v a = map_of w a) \<Longrightarrow> judge_plans i v ps rms ls = judge_plans i w ps rms ls"
proof (induction ps arbitrary: rms ls)
  case (Cons p ps)
  have "fold (judge_extra i v (pl_lc p)) (pl_extras p) j = fold (judge_extra i w (pl_lc p)) (pl_extras p) j" for j
  proof (rule fold_cong)
    fix e assume "e \<in> set (pl_extras p)"
    then have "verdict i v (pl_lc p) e = verdict i w (pl_lc p) e"
      using Cons.prems by (intro verdict_cong) auto
    then show "judge_extra i v (pl_lc p) e = judge_extra i w (pl_lc p) e" by (intro ext) (simp add: judge_extra_def)
  qed simp_all
  moreover have "judge_plans i v ps rms ls = judge_plans i w ps rms ls" for rms ls
    using Cons.prems by (intro Cons.IH) auto
  ultimately show ?case by (simp add: Let_def)
qed simp

text \<open>
  C24. The addresses the directory is asked about are all a decision rests on: two sets of answers that
  agree on them give the same decision.
\<close>
theorem confirmed_addresses_settle_the_decision:
  assumes "\<forall>a\<in>set (Slack_Confirm d). map_of vouches a = map_of vouches' a"
  shows "Slack_Decide sha d vouches confirmed = Slack_Decide sha d vouches' confirmed"
proof -
  have "judge_plans (dr_in d) vouches (dr_plans d) [] [] = judge_plans (dr_in d) vouches' (dr_plans d) [] []"
  proof (rule judge_plans_cong)
    fix p e a assume "p \<in> set (dr_plans d)" "e \<in> set (pl_extras p)"
      "strictRemovable (dr_in d) (pl_lc p) e \<or> leaverCandidate (dr_in d) e" "a \<in> set (ex_addrs e)"
    then have "a \<in> set (Slack_Confirm d)" by (auto simp: Slack_Confirm_def)
    then show "map_of vouches a = map_of vouches' a" using assms by blast
  qed
  then show ?thesis by (simp add: Slack_Decide_def)
qed

end
