(* ===== verification/Slack_Apply.thy ===== *)
theory Slack_Apply
  imports Slack_Safety
begin

text \<open>
  The part of the Slack reconciler that touches Slack, \<open>src/internal/slackroster/apply\<close>, over the client
  of \<open>src/internal/slackapp/client.go\<close>: \<open>ObserveCached\<close> reads a workspace whole or fails, \<open>Apply\<close> carries
  a decision out, one call after the other, and records each. What Slack answers is a parameter: the
  reads are functions that answer or fail, a change is answered by a function of the calls made before
  it. The lemmas compose the two ends with the decision: what is observed is all that deriving needs,
  and what is applied is what was decided.
\<close>

section \<open>What Slack answers\<close>

record User =
  us_ID :: string
  us_TeamID :: string
  us_Deleted :: bool
  us_IsBot :: bool
  us_IsRestricted :: bool
  us_IsUltraRestricted :: bool
  us_IsAppUser :: bool
  us_Email :: string

definition User_IsAutomated :: "User \<Rightarrow> bool" where
  "User_IsAutomated u = (us_IsBot u \<or> us_IsAppUser u)"

definition User_IsGuest :: "User \<Rightarrow> bool" where
  "User_IsGuest u = (us_IsRestricted u \<or> us_IsUltraRestricted u)"

record Conversation =
  co_ID :: string
  co_Name :: string
  co_IsPrivate :: bool
  co_IsArchived :: bool
  co_IsGeneral :: bool
  co_IsMember :: bool
  co_IsExtShared :: bool
  co_SharedTeamIDs :: "string list"
  co_ConnectedTeamIDs :: "string list"
  co_PendingSharedTeamIDs :: "string list"
  co_PendingConnectedTeamIDs :: "string list"
  co_InternalTeamIDs :: "string list"
  co_ConversationHostID :: string
  co_NumMembers :: int
  co_Creator :: string

definition Channel_Teams :: "Conversation \<Rightarrow> string list" where
  "Channel_Teams c =
     fold (\<lambda>ident out. if ident \<noteq> [] then add_once ident out else out)
       (co_ConversationHostID c # co_SharedTeamIDs c @ co_ConnectedTeamIDs c @ co_PendingSharedTeamIDs c
        @ co_PendingConnectedTeamIDs c @ co_InternalTeamIDs c) []"

record ConnectInvite =
  ci_Direction :: string
  ci_ID :: string
  ci_InvitingTeam :: string
  ci_RecipientUserID :: string
  ci_ChannelID :: string
  ci_ChannelName :: string

text \<open>The reads of a client: who the token is, an account by address, the channels, their members, an
  account by id, the pending invitations; and the cache of who a member is.\<close>

record Client =
  cl_AuthTest :: "string + string \<times> string"
  cl_LookupByEmail :: "string \<Rightarrow> string + User option"
  cl_AllChannels :: "string + Conversation list"
  cl_Members :: "string \<Rightarrow> string + string list"
  cl_UserInfo :: "string \<Rightarrow> string + User"
  cl_ConnectInvites :: "string + ConnectInvite list"

type_synonym MemberCache = "string \<Rightarrow> SMember option"

section \<open>Observing\<close>

datatype observe_err = NotDeclaredHere string | ErrWrongWorkspace | SlackFailed string

text \<open>The accounts and members found so far, and the members put in the cache.\<close>

record seen =
  se_accounts :: "SAccount table"
  se_members :: "SMember table"
  se_puts :: "SMember list"

definition no_account :: SAccount where
  "no_account = \<lparr>sac_ID = [], sac_Found = False, sac_Deleted = False, sac_Guest = False, sac_Bot = False, sac_TeamID = []\<rparr>"

definition account_of :: "User \<Rightarrow> SAccount" where
  "account_of u =
     \<lparr>sac_ID = us_ID u, sac_Found = True, sac_Deleted = us_Deleted u, sac_Guest = User_IsGuest u, sac_Bot = User_IsAutomated u,
      sac_TeamID = us_TeamID u\<rparr>"

definition member_of :: "string \<Rightarrow> string \<Rightarrow> User \<Rightarrow> SMember" where
  "member_of ident email u =
     \<lparr>sm_ID = ident, sm_Email = email, sm_TeamID = us_TeamID u, sm_Bot = User_IsAutomated u, sm_Deleted = us_Deleted u,
      sm_Guest = User_IsGuest u\<rparr>"

definition look_up :: "Client \<Rightarrow> string \<Rightarrow> seen \<Rightarrow> observe_err + seen" where
  "look_up cl address st =
     (case cl_LookupByEmail cl address of
        Inl e \<Rightarrow> Inl (SlackFailed e)
      | Inr None \<Rightarrow> Inr (st\<lparr>se_accounts := tput address no_account (se_accounts st)\<rparr>)
      | Inr (Some u) \<Rightarrow> Inr (st\<lparr>se_accounts := tput address (account_of u) (se_accounts st),
                            se_members := tput (us_ID u) (member_of (us_ID u) address u) (se_members st)\<rparr>))"

definition named_names :: "Input \<Rightarrow> SlackWorkspace \<Rightarrow> string list" where
  "named_names i cfg =
     map fst (filter (\<lambda>(_, ch). sc_Adopt ch = []) (sorted_entries (sw_Channels cfg)))
     @ map cc_Name (filter (\<lambda>c. cc_Workspace c = in_Workspace i \<and> cc_ChannelID c = []) (in_Console i))
     @ map sh_Name (filter (takes_part i) (in_Shared i))"

definition named_ids :: "Input \<Rightarrow> SlackWorkspace \<Rightarrow> string list" where
  "named_ids i cfg =
     filter (\<lambda>a. a \<noteq> []) (map (\<lambda>(_, ch). sc_Adopt ch) (sorted_entries (sw_Channels cfg))
     @ map cc_ChannelID (filter (\<lambda>c. cc_Workspace c = in_Workspace i) (in_Console i))
     @ map sh_ChannelID (filter (takes_part i) (in_Shared i)))"

definition observed_channel :: "Conversation \<Rightarrow> SChannel" where
  "observed_channel c =
     \<lparr>ch_ID = co_ID c, ch_Name = co_Name c, ch_Creator = co_Creator c, ch_Private = co_IsPrivate c, ch_BotIn = co_IsMember c,
      ch_General = co_IsGeneral c, ch_Archived = co_IsArchived c, ch_Shared = co_IsExtShared c,
      ch_SharedTeamIDs = co_SharedTeamIDs c, ch_HostTeamID = co_ConversationHostID c, ch_Teams = Channel_Teams c,
      ch_NumMembers = co_NumMembers c, ch_Members = [], ch_MembersKnown = False\<rparr>"

definition read_channel :: "Client \<Rightarrow> string list \<Rightarrow> string list \<Rightarrow> Conversation \<Rightarrow> observe_err + SChannel" where
  "read_channel cl names ids c =
     (if \<not> co_IsArchived c \<and> (co_Name c \<in> set names \<or> co_ID c \<in> set ids) \<and> (co_IsMember c \<or> \<not> co_IsPrivate c)
      then (case cl_Members cl (co_ID c) of
              Inl e \<Rightarrow> Inl (SlackFailed e)
            | Inr ms \<Rightarrow> Inr ((observed_channel c)\<lparr>ch_Members := ms, ch_MembersKnown := True\<rparr>))
      else Inr (observed_channel c))"

definition identify :: "Client \<Rightarrow> MemberCache option \<Rightarrow> string \<Rightarrow> string \<Rightarrow> seen \<Rightarrow> observe_err + seen" where
  "identify cl cache me ident st =
     (if ident = me \<or> has_key (se_members st) ident then Inr st
      else case (case cache of None \<Rightarrow> None | Some get \<Rightarrow> get ident) of
        Some m \<Rightarrow> Inr (st\<lparr>se_members := tput ident m (se_members st)\<rparr>)
      | None \<Rightarrow>
          (case cl_UserInfo cl ident of
             Inl e \<Rightarrow> Inl (SlackFailed e)
           | Inr u \<Rightarrow>
               let m = member_of ident (normalise (us_Email u)) u
               in Inr (st\<lparr>se_members := tput ident m (se_members st),
                         se_puts := (case cache of None \<Rightarrow> se_puts st | Some _ \<Rightarrow> se_puts st @ [m])\<rparr>)))"

definition involved :: "Input \<Rightarrow> bool" where
  "involved i = list_ex (takes_part i) (in_Shared i)"

definition invite_of :: "ConnectInvite \<Rightarrow> SInvite" where
  "invite_of c =
     \<lparr>inv_ID = ci_ID c, inv_Incoming = (ci_Direction c = ''incoming''), inv_HostTeamID = ci_InvitingTeam c,
      inv_ChannelID = ci_ChannelID c, inv_ChannelName = ci_ChannelName c, inv_RecipientUserID = ci_RecipientUserID c\<rparr>"

definition read_invites :: "Client \<Rightarrow> Input \<Rightarrow> observe_err + SInvite list" where
  "read_invites cl i =
     (if involved i then (case cl_ConnectInvites cl of Inl e \<Rightarrow> Inl (SlackFailed e) | Inr ivs \<Rightarrow> Inr (map invite_of ivs))
      else Inr [])"

text \<open>The observation, and the members it put in the cache.\<close>

definition ObserveCached :: "Client \<Rightarrow> Input \<Rightarrow> MemberCache option \<Rightarrow> observe_err + Observed \<times> SMember list" where
  "ObserveCached cl i cache =
     (case map_of (in_Workspaces i) (in_Workspace i) of
        None \<Rightarrow> Inl (NotDeclaredHere (in_Workspace i))
      | Some cfg \<Rightarrow>
     (case cl_AuthTest cl of
        Inl e \<Rightarrow> Inl (SlackFailed e)
      | Inr (team, me) \<Rightarrow>
     (if fa_Team (factsOf i (in_Workspace i)) = [] \<or> team \<noteq> fa_Team (factsOf i (in_Workspace i)) then Inl ErrWrongWorkspace
      else case fold_err (look_up cl) (Lookups i) \<lparr>se_accounts = [], se_members = [], se_puts = []\<rparr> of
        Inl e \<Rightarrow> Inl e
      | Inr st \<Rightarrow>
     (case cl_AllChannels cl of
        Inl e \<Rightarrow> Inl (SlackFailed e)
      | Inr cos \<Rightarrow>
     (case map_err (read_channel cl (named_names i cfg) (named_ids i cfg)) cos of
        Inl e \<Rightarrow> Inl e
      | Inr channels \<Rightarrow>
     (case fold_err (identify cl cache me) (concat (map ch_Members channels)) st of
        Inl e \<Rightarrow> Inl e
      | Inr st' \<Rightarrow>
     (case read_invites cl i of
        Inl e \<Rightarrow> Inl e
      | Inr ivs \<Rightarrow> Inr (\<lparr>ob_TeamID = team, ob_BotUserID = me, ob_Channels = channels, ob_Accounts = se_accounts st',
                        ob_Members = se_members st', ob_Invites = ivs\<rparr>, se_puts st'))))))))"

section \<open>Applying\<close>

datatype slack_call =
    CreateChannel string bool
  | JoinChannel string
  | AcceptSharedInvite string string bool
  | InviteShared string string bool
  | InviteUsers string "string list"
  | Kick string string

datatype slack_err = ErrNameTaken | SlackRefused string

text \<open>What Slack answers a call, given the calls made before it; a new channel or invitation comes with its id.\<close>

type_synonym slack_api = "slack_call list \<Rightarrow> slack_call \<Rightarrow> slack_err + string"

datatype apply_err = errNoChannel | CallFailed slack_err | UnknownAction

record Options =
  op_Workspace :: string
  op_DryRun :: bool
  op_Audit :: bool
  op_ExternalLimited :: bool

record SOutcome =
  oc_Action :: SAction
  oc_Done :: bool
  oc_Err :: "apply_err option"
  oc_Skipped :: string
  oc_Held :: string

record audit_channel =
  au_Workspace :: string
  au_Name :: string
  au_ID :: string
  au_Private :: bool

text \<open>The records of the audit trail; the last component is the error of a call that failed.\<close>

datatype slack_event =
    SlackChannelCreated audit_channel "slack_err option"
  | SlackChannelAdopted audit_channel "slack_err option"
  | SlackSharedAccepted string string string string string "slack_err option"
  | SlackSharedInvited string string string string string "slack_err option"
  | SlackMemberInvited string audit_channel string "string list" string "slack_err option"
  | SlackMemberRemoved string audit_channel string "string list" string "slack_err option"

record applying =
  ap_ids :: "string table"
  ap_calls :: "slack_call list"
  ap_outcomes :: "SOutcome list"
  ap_events :: "slack_event list"

definition TakenReason :: "string \<Rightarrow> string" where
  "TakenReason name =
     ''a private channel named '' @ name @ '' exists that the bot cannot see; invite the bot to it ''
     @ ''(or, if it is archived, unarchive it in Slack or rename it): the roster never creates a second channel under another name''"

definition outcome_of :: "SAction \<Rightarrow> slack_err + string \<Rightarrow> SOutcome" where
  "outcome_of a reply =
     \<lparr>oc_Action = a, oc_Done = (case reply of Inr _ \<Rightarrow> True | Inl _ \<Rightarrow> False),
      oc_Err = (case reply of Inr _ \<Rightarrow> None | Inl e \<Rightarrow> Some (CallFailed e)), oc_Skipped = [], oc_Held = []\<rparr>"

definition reply_err :: "slack_err + string \<Rightarrow> slack_err option" where
  "reply_err reply = (case reply of Inl e \<Rightarrow> Some e | Inr _ \<Rightarrow> None)"

definition reply_id :: "slack_err + string \<Rightarrow> string" where
  "reply_id reply = (case reply of Inl _ \<Rightarrow> [] | Inr ident \<Rightarrow> ident)"

definition emit :: "Options \<Rightarrow> slack_event \<Rightarrow> slack_event list" where
  "emit opt e = (if op_Audit opt then [e] else [])"

text \<open>One call made, what became of its action and the record of it; a channel made is kept by its name.\<close>

definition made :: "SAction \<Rightarrow> slack_call \<Rightarrow> string option \<Rightarrow> SOutcome \<Rightarrow> slack_event list \<Rightarrow> applying \<Rightarrow> applying" where
  "made a c ident out evs st =
     st\<lparr>ap_ids := (case ident of None \<Rightarrow> ap_ids st | Some x \<Rightarrow> tput (act_Channel a) x (ap_ids st)),
        ap_calls := ap_calls st @ [c], ap_outcomes := ap_outcomes st @ [out], ap_events := ap_events st @ evs\<rparr>"

definition not_made :: "SOutcome \<Rightarrow> applying \<Rightarrow> applying" where
  "not_made out st = st\<lparr>ap_outcomes := ap_outcomes st @ [out]\<rparr>"

definition skipped_no_channel :: "SAction \<Rightarrow> SOutcome" where
  "skipped_no_channel a =
     \<lparr>oc_Action = a, oc_Done = False, oc_Err = Some errNoChannel, oc_Skipped = ''the channel was not made'', oc_Held = []\<rparr>"

definition action_id :: "applying \<Rightarrow> SAction \<Rightarrow> string" where
  "action_id st a = (if act_ChannelID a \<noteq> [] then act_ChannelID a else tget [] (ap_ids st) (act_Channel a))"

definition apply_create :: "Options \<Rightarrow> slack_api \<Rightarrow> SAction \<Rightarrow> applying \<Rightarrow> applying" where
  "apply_create opt api a st =
     (let c = CreateChannel (act_Channel a) (act_Private a); reply = api (ap_calls st) c;
          channel = \<lparr>au_Workspace = op_Workspace opt, au_Name = act_Channel a,
                     au_ID = (case reply of Inr ident \<Rightarrow> ident | Inl _ \<Rightarrow> action_id st a), au_Private = act_Private a\<rparr>
      in if reply = Inl ErrNameTaken
         then made a c None ((outcome_of a reply)\<lparr>oc_Err := None, oc_Held := TakenReason (act_Channel a)\<rparr>) [] st
         else made a c (case reply of Inr ident \<Rightarrow> Some ident | Inl _ \<Rightarrow> None) (outcome_of a reply)
                (emit opt (SlackChannelCreated channel (reply_err reply))) st)"

definition apply_adopt :: "Options \<Rightarrow> slack_api \<Rightarrow> SAction \<Rightarrow> applying \<Rightarrow> applying" where
  "apply_adopt opt api a st =
     (let c = JoinChannel (act_ChannelID a); reply = api (ap_calls st) c;
          channel = \<lparr>au_Workspace = op_Workspace opt, au_Name = act_Channel a, au_ID = action_id st a, au_Private = act_Private a\<rparr>
      in made a c (case reply of Inr _ \<Rightarrow> Some (act_ChannelID a) | Inl _ \<Rightarrow> None) (outcome_of a reply)
           (emit opt (SlackChannelAdopted channel (reply_err reply))) st)"

definition apply_accept :: "Options \<Rightarrow> slack_api \<Rightarrow> SAction \<Rightarrow> applying \<Rightarrow> applying" where
  "apply_accept opt api a st =
     (let c = AcceptSharedInvite (act_InviteID a) (act_Channel a) (act_Private a); reply = api (ap_calls st) c
      in made a c (case reply of Inr ident \<Rightarrow> Some ident | Inl _ \<Rightarrow> None) (outcome_of a reply)
           (emit opt (SlackSharedAccepted (act_Host a) (act_Guest a) (act_Channel a) (reply_id reply) (act_InviteID a) (reply_err reply))) st)"

definition apply_share :: "Options \<Rightarrow> slack_api \<Rightarrow> SAction \<Rightarrow> applying \<Rightarrow> applying" where
  "apply_share opt api a st =
     (let ident = action_id st a; c = InviteShared ident (act_GuestBot a) (op_ExternalLimited opt); reply = api (ap_calls st) c
      in if ident = [] then not_made (skipped_no_channel a) st
         else made a c None (outcome_of a reply)
           (emit opt (SlackSharedInvited (act_Host a) (act_Guest a) (act_Channel a) ident (reply_id reply) (reply_err reply))) st)"

definition audited :: "Options \<Rightarrow> SAction \<Rightarrow> string \<Rightarrow> audit_channel" where
  "audited opt a ident = \<lparr>au_Workspace = op_Workspace opt, au_Name = act_Channel a, au_ID = ident, au_Private = act_Private a\<rparr>"

definition apply_invite :: "Options \<Rightarrow> slack_api \<Rightarrow> SAction \<Rightarrow> applying \<Rightarrow> applying" where
  "apply_invite opt api a st =
     (let ident = action_id st a; c = InviteUsers ident [act_User a]; reply = api (ap_calls st) c
      in if ident = [] then not_made (skipped_no_channel a) st
         else made a c None (outcome_of a reply)
           (emit opt (SlackMemberInvited (act_Email a) (audited opt a ident) (act_User a) (act_Groups a) (act_Reason a) (reply_err reply))) st)"

definition apply_remove :: "Options \<Rightarrow> slack_api \<Rightarrow> SAction \<Rightarrow> applying \<Rightarrow> applying" where
  "apply_remove opt api a st =
     (let ident = action_id st a; c = Kick ident (act_User a); reply = api (ap_calls st) c
      in made a c None (outcome_of a reply)
           (emit opt (SlackMemberRemoved (act_Email a) (audited opt a ident) (act_User a) (act_Groups a) (act_Reason a) (reply_err reply))) st)"

definition apply_one :: "Options \<Rightarrow> slack_api \<Rightarrow> SAction \<Rightarrow> applying \<Rightarrow> applying" where
  "apply_one opt api a st =
     (if op_DryRun opt
      then not_made \<lparr>oc_Action = a, oc_Done = False, oc_Err = None, oc_Skipped = ''dry run'', oc_Held = []\<rparr> st
      else case act_Kind a of
        ActionCreate \<Rightarrow> apply_create opt api a st
      | ActionAdopt \<Rightarrow> apply_adopt opt api a st
      | ActionShareAccept \<Rightarrow> apply_accept opt api a st
      | ActionShareInvite \<Rightarrow> apply_share opt api a st
      | ActionInvite \<Rightarrow> apply_invite opt api a st
      | ActionRemove \<Rightarrow> apply_remove opt api a st
      | NoAction \<Rightarrow> not_made \<lparr>oc_Action = a, oc_Done = False, oc_Err = Some UnknownAction, oc_Skipped = [], oc_Held = []\<rparr> st)"

definition Apply :: "Options \<Rightarrow> slack_api \<Rightarrow> SAction list \<Rightarrow> applying" where
  "Apply opt api acts = fold (apply_one opt api) acts \<lparr>ap_ids = [], ap_calls = [], ap_outcomes = [], ap_events = []\<rparr>"

section \<open>What is observed is enough\<close>

abbreviation with_observed :: "Input \<Rightarrow> Observed \<Rightarrow> Input" where
  "with_observed i obs \<equiv> seen_from (in_Workspace i) obs i"

lemma with_observed_fields [simp]:
  "in_Workspaces (seen_from ws obs i) = in_Workspaces i" "in_Facts (seen_from ws obs i) = in_Facts i"
  "in_People (seen_from ws obs i) = in_People i" "in_Holders (seen_from ws obs i) = in_Holders i"
  "in_Console (seen_from ws obs i) = in_Console i" "in_DefinedTwice (seen_from ws obs i) = in_DefinedTwice i"
  "in_DirNested (seen_from ws obs i) = in_DirNested i" "in_Bots (seen_from ws obs i) = in_Bots i"
  "factsOf (seen_from ws obs i) = factsOf i"
  by (simp_all add: seen_from_def factsOf_def fun_eq_iff)

lemma belongsTo_seen_from [simp]: "belongsTo (newResolver (seen_from ws obs i)) = belongsTo (newResolver i)"
  by (intro ext) (simp add: belongsTo_def)

lemma slotsOwn_observed [simp]: "slotsOwn (newResolver (with_observed i obs)) = slotsOwn (newResolver i)"
  by (intro ext) (simp add: slotsOwn_def noPathIn_def cong: option.case_cong)

lemma shared_slots_observed [simp]: "shared_slots (newResolver (with_observed i obs)) = shared_slots (newResolver i)"
  by (intro ext) (simp add: shared_slots_def cong: if_cong prod.case_cong)

lemma takes_part_observed [simp]: "takes_part (with_observed i obs) = takes_part i"
  by (intro ext) (simp add: takes_part_def)

lemma layout_observed [simp]: "layout (newResolver (with_observed i obs)) = layout (newResolver i)"
proof -
  have "own_workspace (with_observed i obs) = own_workspace i" by (simp add: own_workspace_def)
  moreover have "wanted (newResolver (with_observed i obs)) = wanted (newResolver i)" by (intro ext) (simp add: wanted_def)
  moreover have "takes_part (seen_from (in_Workspace i) obs i) = takes_part i" by (rule takes_part_observed)
  ultimately show ?thesis
    by (simp add: layout_def layout_policy_def layout_console_def layout_shared_def del: takes_part_seen_from)
qed

lemma fold_err_keeps:
  assumes "fold_err f xs s = Inr t" and "P s" and "\<And>x s s'. f x s = Inr s' \<Longrightarrow> P s \<Longrightarrow> P s'"
  shows "P t"
  using assms by (intro fold_err_invariant [of f xs s t P]) auto

lemma fold_err_reaches:
  assumes "fold_err f xs s = Inr t" and "x \<in> set xs"
    and "\<And>s s'. f x s = Inr s' \<Longrightarrow> P s'" and "\<And>y s s'. f y s = Inr s' \<Longrightarrow> P s \<Longrightarrow> P s'"
  shows "P t"
  using assms
proof (induction xs arbitrary: s)
  case (Cons y ys)
  then obtain s' where s': "f y s = Inr s'" "fold_err f ys s' = Inr t" by (auto split: sum.splits)
  show ?case
  proof (cases "x = y")
    case True
    then show ?thesis using fold_err_keeps [OF s'(2)] Cons.prems s'(1) by blast
  next
    case False
    then show ?thesis using Cons.IH [OF s'(2)] Cons.prems by auto
  qed
qed simp

lemma look_up_accounts:
  "look_up cl address st = Inr st' \<Longrightarrow> dom (map_of (se_accounts st')) = insert address (dom (map_of (se_accounts st)))"
  by (auto simp: look_up_def split: sum.splits option.splits)

lemma identify_seen:
  "identify cl cache me ident st = Inr st' \<Longrightarrow>
     se_accounts st' = se_accounts st \<and> dom (map_of (se_members st)) \<subseteq> dom (map_of (se_members st'))
     \<and> (ident = me \<or> ident \<in> dom (map_of (se_members st')))"
  by (auto simp: identify_def Let_def split: sum.splits option.splits if_splits)

lemma read_channel_known:
  assumes "read_channel cl names ids c = Inr ch" and "\<not> ch_Archived ch" and "ch_BotIn ch \<or> \<not> ch_Private ch"
    and "ch_Name ch \<in> set names \<or> ch_ID ch \<in> set ids"
  shows "ch_MembersKnown ch"
  using assms by (auto simp: read_channel_def observed_channel_def split: if_splits sum.splits)

lemma ObserveCached_parts:
  assumes "ObserveCached cl i cache = Inr (obs, puts)"
  shows "has_key (in_Workspaces i) (in_Workspace i) \<and> set (Lookups i) \<subseteq> dom (map_of (ob_Accounts obs))
    \<and> (\<forall>ch\<in>set (ob_Channels obs). \<not> ch_Archived ch \<and> (ch_BotIn ch \<or> \<not> ch_Private ch)
         \<and> (ch_Name ch \<in> set (named_names i (own_workspace i)) \<or> ch_ID ch \<in> set (named_ids i (own_workspace i))) \<longrightarrow> ch_MembersKnown ch)
    \<and> (\<forall>ch\<in>set (ob_Channels obs). set (ch_Members ch) \<subseteq> insert (ob_BotUserID obs) (dom (map_of (ob_Members obs))))"
proof -
  from assms obtain cfg team me st cos channels st' ivs where
    cfg: "map_of (in_Workspaces i) (in_Workspace i) = Some cfg"
    and st: "fold_err (look_up cl) (Lookups i) \<lparr>se_accounts = [], se_members = [], se_puts = []\<rparr> = Inr st"
    and chs: "map_err (read_channel cl (named_names i cfg) (named_ids i cfg)) cos = Inr channels"
    and st': "fold_err (identify cl cache me) (concat (map ch_Members channels)) st = Inr st'"
    and obs: "obs = \<lparr>ob_TeamID = team, ob_BotUserID = me, ob_Channels = channels, ob_Accounts = se_accounts st',
                     ob_Members = se_members st', ob_Invites = ivs\<rparr>"
    by (auto simp: ObserveCached_def split: option.splits sum.splits prod.splits if_splits)
  have own: "own_workspace i = cfg" using cfg by (simp add: own_workspace_def tget_def)
  have "a \<in> dom (map_of (se_accounts st))" if "a \<in> set (Lookups i)" for a
    using st that by (rule fold_err_reaches) (auto dest!: look_up_accounts)
  moreover have "se_accounts st' = se_accounts st"
    using st' by (rule fold_err_keeps) (auto dest!: identify_seen)
  moreover have "ident = me \<or> ident \<in> dom (map_of (se_members st'))" if "ident \<in> set (concat (map ch_Members channels))" for ident
    using st' that by (rule fold_err_reaches) (use identify_seen in blast)+
  moreover have "ch_MembersKnown ch" if "ch \<in> set channels" "\<not> ch_Archived ch" "ch_BotIn ch \<or> \<not> ch_Private ch"
    "ch_Name ch \<in> set (named_names i cfg) \<or> ch_ID ch \<in> set (named_ids i cfg)" for ch
    using map_err_origin [OF chs that(1)] read_channel_known that(2-4) by blast
  ultimately show ?thesis using cfg obs own by fastforce
qed

lemma host_channel_usable:
  "res_usable (host_channel i lc s c) \<Longrightarrow> rs_ch (host_channel i lc s c) = Some ch \<Longrightarrow>
   ch = c \<and> \<not> ch_Archived c \<and> (ch_BotIn c \<or> \<not> ch_Private c)"
  using ready_usable [of c "lc_private lc"] by (auto simp: host_channel_def Let_def split: if_splits)

lemma resolveHost_usable:
  assumes "res_usable (resolveHost i lc s)" and "rs_ch (resolveHost i lc s) = Some ch"
  shows "ch \<in> set (ob_Channels (in_Observed i)) \<and> \<not> ch_Archived ch \<and> (ch_BotIn ch \<or> \<not> ch_Private ch)
    \<and> (if sh_ChannelID s = [] then ch_Name ch = lc_name lc else ch_ID ch = sh_ChannelID s)"
  using assms byName_in [of i "lc_name lc"] byID_in [of i "sh_ChannelID s"]
  by (auto simp: resolveHost_def Let_def dest!: host_channel_usable split: option.splits if_splits)

lemma resolveGuest_usable:
  assumes "res_usable (resolveGuest i lc s)" and "rs_ch (resolveGuest i lc s) = Some ch"
  shows "ch \<in> set (ob_Channels (in_Observed i)) \<and> \<not> ch_Archived ch \<and> (ch_BotIn ch \<or> \<not> ch_Private ch)
    \<and> (if sh_ChannelID s = [] then ch_Name ch = lc_name lc else ch_ID ch = sh_ChannelID s)"
proof -
  let ?found = "if sh_ChannelID s \<noteq> [] then byID i (sh_ChannelID s) else byName i (lc_name lc)"
  obtain c where c: "?found = Some c"
    using assms(2) by (auto simp: resolveGuest_def Let_def res_of_def split: option.splits if_splits)
  have r: "resolveGuest i lc s =
      (if ch_Archived c then res_held (Some c) ''share'' (archivedReason (lc_name lc) (ch_ID c))
       else if \<not> ch_Shared c
       then res_held (Some c) ''share'' (''a channel named '' @ lc_name lc @ '' already exists here and is not the shared channel'')
       else adopting (\<lambda>res. rs_kind res = resJoin) (ready c (lc_private lc) True))"
    unfolding resolveGuest_def Let_def c by simp
  have "\<not> ch_Archived c" and u: "res_usable (ready c (lc_private lc) True)" and "rs_ch (ready c (lc_private lc) True) = Some ch"
    using assms unfolding r by (auto split: if_splits)
  then have "ch = c" "\<not> ch_Archived ch" "ch_BotIn ch \<or> \<not> ch_Private ch" using ready_usable [OF u] by auto
  then show ?thesis using c byName_in [of i "lc_name lc" c] byID_in [of i "sh_ChannelID s" c] by (auto split: if_splits)
qed

lemma resolve_named:
  assumes "lc \<in> set (layout (newResolver i))" and "res_usable (resolve_channel (with_observed i obs) lc)"
    and "rs_ch (resolve_channel (with_observed i obs) lc) = Some ch"
  shows "ch \<in> set (ob_Channels obs) \<and> \<not> ch_Archived ch \<and> (ch_BotIn ch \<or> \<not> ch_Private ch)
    \<and> (ch_Name ch \<in> set (named_names i (own_workspace i)) \<or> ch_ID ch \<in> set (named_ids i (own_workspace i)))"
proof (cases "lc_shared lc")
  case None
  with assms(2,3) have b: "res_usable (resolveBound (with_observed i obs) lc)" "rs_ch (resolveBound (with_observed i obs) lc) = Some ch"
    by (simp_all add: resolve_channel_def)
  have "if sc_Adopt (lc_binding lc) = [] then lc_name lc \<in> set (named_names i (own_workspace i))
      else sc_Adopt (lc_binding lc) \<in> set (named_ids i (own_workspace i))"
    using assms(1) None
    by (auto simp: layout_def layout_policy_def layout_console_def layout_shared_def Let_def named_names_def named_ids_def
        ConsoleChannel_Binding_def image_iff Bex_def) (force simp: image_iff)+
  then show ?thesis using resolveBound_usable [OF b] by (auto split: if_splits)
next
  case (Some s)
  then have s: "takes_part i s" "s \<in> set (in_Shared i)" "lc_name lc = sh_Name s"
    using assms(1) by (auto simp: layout_def layout_policy_def layout_console_def layout_shared_def Let_def)
  have "ch \<in> set (ob_Channels obs) \<and> \<not> ch_Archived ch \<and> (ch_BotIn ch \<or> \<not> ch_Private ch)
    \<and> (if sh_ChannelID s = [] then ch_Name ch = lc_name lc else ch_ID ch = sh_ChannelID s)"
    using assms(2,3) Some resolveHost_usable [of "with_observed i obs" lc s ch] resolveGuest_usable [of "with_observed i obs" lc s ch]
    by (auto simp: resolve_channel_def split: if_splits)
  then show ?thesis using s by (auto simp: named_names_def named_ids_def split: if_splits)
qed

lemma treat_total:
  assumes "sl_addr s \<noteq> [] \<Longrightarrow> sl_addr s \<in> dom (map_of (ob_Accounts (in_Observed i)))"
  shows "\<exists>t. treat i lc res members s = Inr t"
proof (cases "sl_addr s = []")
  case False
  then obtain acct where acct: "map_of (ob_Accounts (in_Observed i)) (sl_addr s) = Some acct" using assms by blast
  show ?thesis unfolding treat_def acct if_not_P [OF False] option.case by blast
next
  case True
  show ?thesis unfolding treat_def if_P [OF True] by blast
qed

lemma derive_people_total:
  assumes "\<And>s. s \<in> set (lc_slots (pl_lc p)) \<Longrightarrow> sl_addr s \<noteq> [] \<Longrightarrow> sl_addr s \<in> dom (map_of (ob_Accounts (in_Observed i)))"
  shows "\<exists>q. derive_people i p = Inr q"
proof -
  have "\<exists>ts. map_err (treat i (pl_lc p) (pl_res p) ms) (lc_slots (pl_lc p)) = Inr ts" for ms
    using assms treat_total by (intro map_err_total) blast
  then show ?thesis unfolding derive_people_def people_def by (auto split: sum.splits) (metis Inl_Inr_False)
qed

lemma findExtras_total:
  assumes "\<And>ch. rs_ch (pl_res p) = Some ch \<Longrightarrow>
    set (ch_Members ch) \<subseteq> insert (ob_BotUserID (in_Observed i)) (dom (map_of (ob_Members (in_Observed i))))"
  shows "\<exists>q. findExtras i r p = Inr q"
proof -
  have one: "\<exists>es. find_extra i r (pl_lc p) ident = Inr es" if "rs_ch (pl_res p) = Some ch" "ident \<in> set (ch_Members ch)" for ch ident
    using assms [OF that(1)] that(2) by (auto simp: find_extra_def split: option.splits)
  have "\<exists>ess. map_err (find_extra i r (pl_lc p)) (case rs_ch (pl_res p) of None \<Rightarrow> [] | Some ch \<Rightarrow> ch_Members ch) = Inr ess"
    using one by (cases "rs_ch (pl_res p)") (auto intro!: map_err_total)
  then show ?thesis by (auto simp: findExtras_def)
qed

lemma derive_channel_total:
  assumes lc: "lc \<in> set (layout (newResolver i))" and obs: "ObserveCached cl i cache = Inr (obs, puts)"
  shows "\<exists>p. derive_channel (with_observed i obs) r lc = Inr p"
proof -
  let ?i = "with_observed i obs" and ?res = "resolve_channel (with_observed i obs) lc"
  note parts = ObserveCached_parts [OF obs]
  have "sl_addr s \<in> dom (map_of (ob_Accounts obs))" if "s \<in> set (lc_slots lc)" "sl_addr s \<noteq> []" for s
  proof -
    have "sl_addr s \<in> set (Lookups i)" using lc that by (auto simp: Lookups_def)
    then show ?thesis using parts by blast
  qed
  then obtain q where q: "derive_people ?i (start_plan ?i lc) = Inr q"
    using derive_people_total [of "start_plan ?i lc" ?i] by auto
  show ?thesis
  proof (cases "channel_exists ?res")
    case False
    then show ?thesis using q by (auto simp: derive_channel_def Let_def)
  next
    case True
    then obtain ch where ch: "rs_ch ?res = Some ch" "res_usable ?res" by (auto simp: channel_exists_def)
    from resolve_named [OF lc ch(2,1)] parts have "ch_MembersKnown ch"
      "set (ch_Members ch) \<subseteq> insert (ob_BotUserID obs) (dom (map_of (ob_Members obs)))" by blast+
    moreover from this(2) obtain p where "findExtras ?i r q = Inr p"
      using findExtras_total [of q ?i r] derive_people_frame [OF q] ch by auto
    ultimately show ?thesis using q ch True by (auto simp: derive_channel_def Let_def)
  qed
qed

text \<open>
  What an observation reads is all that deriving needs: when a workspace was read, whatever it holds,
  nothing is found to be missing, so a pass fails on a read that failed and on nothing else.
\<close>
theorem observation_is_enough_to_derive:
  assumes "ObserveCached cl i cache = Inr (obs, puts)"
  shows "\<exists>d. Slack_Derive (i\<lparr>in_Observed := obs\<rparr>) = Inr d"
proof -
  have "\<exists>ps. map_err (derive_channel (with_observed i obs) (newResolver (with_observed i obs))) (layout (newResolver i)) = Inr ps"
    using derive_channel_total [OF _ assms] by (intro map_err_total)
  moreover have same: "i\<lparr>in_Observed := obs\<rparr> = with_observed i obs" by (simp add: seen_from_def)
  moreover have "has_key (in_Workspaces i) (in_Workspace i)" using ObserveCached_parts [OF assms] by blast
  ultimately show ?thesis unfolding same by (auto simp: Slack_Derive_def Let_def simp del: has_key_iff)
qed

section \<open>What is applied\<close>

lemma made_fields [simp]:
  "ap_calls (made a c ident out evs st) = ap_calls st @ [c]" "ap_outcomes (made a c ident out evs st) = ap_outcomes st @ [out]"
  "ap_events (made a c ident out evs st) = ap_events st @ evs"
  "ap_calls (not_made out st) = ap_calls st" "ap_outcomes (not_made out st) = ap_outcomes st @ [out]"
  "ap_events (not_made out st) = ap_events st" "ap_ids (not_made out st) = ap_ids st"
  by (simp_all add: made_def not_made_def)

lemmas apply_defs = apply_create_def apply_adopt_def apply_accept_def apply_share_def apply_invite_def apply_remove_def

text \<open>The call an action makes, if it makes one.\<close>

definition call_for :: "Options \<Rightarrow> applying \<Rightarrow> SAction \<Rightarrow> slack_call list" where
  "call_for opt st a =
     (if op_DryRun opt then []
      else case act_Kind a of
        ActionCreate \<Rightarrow> [CreateChannel (act_Channel a) (act_Private a)]
      | ActionAdopt \<Rightarrow> [JoinChannel (act_ChannelID a)]
      | ActionShareAccept \<Rightarrow> [AcceptSharedInvite (act_InviteID a) (act_Channel a) (act_Private a)]
      | ActionShareInvite \<Rightarrow> (if action_id st a = [] then [] else [InviteShared (action_id st a) (act_GuestBot a) (op_ExternalLimited opt)])
      | ActionInvite \<Rightarrow> (if action_id st a = [] then [] else [InviteUsers (action_id st a) [act_User a]])
      | ActionRemove \<Rightarrow> [Kick (action_id st a) (act_User a)]
      | NoAction \<Rightarrow> [])"

lemma apply_one_calls: "ap_calls (apply_one opt api a st) = ap_calls st @ call_for opt st a"
  by (simp add: apply_one_def call_for_def apply_defs Let_def split: SKind.splits)

lemma apply_calls_origin:
  assumes "c \<in> set (ap_calls (fold (apply_one opt api) acts st))"
  shows "c \<in> set (ap_calls st) \<or> (\<exists>a\<in>set acts. \<exists>st'. c \<in> set (call_for opt st' a))"
  using assms by (induction acts arbitrary: st) (auto simp: apply_one_calls, metis Un_iff apply_one_calls set_append)

lemma Apply_calls:
  assumes "c \<in> set (ap_calls (Apply opt api acts))"
  shows "\<exists>a\<in>set acts. \<exists>st. c \<in> set (call_for opt st a)"
  using apply_calls_origin [OF assms [unfolded Apply_def]] by simp


end
