(* ===== verification/Slack_Controller.thy ===== *)
theory Slack_Controller
  imports Slack_Apply
begin

text \<open>
  The Slack controller's tick of one workspace, \<open>src/internal/slackroster/controller\<close>, over the
  documents of \<open>src/internal/slackroster/connection\<close>: the keys the console's records are kept under,
  what a pass reads from the store and the directory and which records it refuses, the cache of the
  directory's answers, the tick from those inputs to the report (\<open>Controller.workspace\<close>), and what the
  report and the ledgers make of what Slack answered. The console, Slack and the clock are arguments;
  the texts of errors are what the argument \<open>text\<close> gives.
\<close>

section \<open>Keys of the console's documents\<close>

definition cut_suffix :: "string \<Rightarrow> string \<Rightarrow> string option" where
  "cut_suffix s suffix = map_option rev (cut_prefix (rev s) (rev suffix))"

definition dot :: char where "dot = CHR ''.''"

definition ValidWorkspace :: "string \<Rightarrow> bool" where
  "ValidWorkspace key = slackSlug key"

definition Key :: "string \<Rightarrow> string" where
  "Key workspace = workspace @ ''.json''"

definition WorkspaceOfKey :: "string \<Rightarrow> string option" where
  "WorkspaceOfKey key =
     (case cut_suffix key ''.json'' of
        None \<Rightarrow> None | Some workspace \<Rightarrow> (if ValidWorkspace workspace then Some workspace else None))"

definition Reserved :: "string \<Rightarrow> bool" where
  "Reserved key = has_prefix key ''_''"

definition SharedKey :: "string \<Rightarrow> string" where
  "SharedKey name = ''_shared.'' @ name @ ''.json''"

text \<open>What is between a prefix and \<open>.json\<close>.\<close>

definition key_body :: "string \<Rightarrow> string \<Rightarrow> string option" where
  "key_body prefix key = (case cut_prefix key prefix of None \<Rightarrow> None | Some rest \<Rightarrow> cut_suffix rest ''.json'')"

definition ParseSharedKey :: "string \<Rightarrow> string option" where
  "ParseSharedKey key =
     (case key_body ''_shared.'' key of
        None \<Rightarrow> None | Some name \<Rightarrow> (if name = [] \<or> dot \<in> set name then None else Some name))"

definition ConsoleKey :: "string \<Rightarrow> string \<Rightarrow> string" where
  "ConsoleKey workspace name = ''_channel.'' @ workspace @ ''.'' @ name @ ''.json''"

definition ParseConsoleKey :: "string \<Rightarrow> (string \<times> string) option" where
  "ParseConsoleKey key =
     (case key_body ''_channel.'' key of
        None \<Rightarrow> None
      | Some body \<Rightarrow>
          (case cut dot body of
             None \<Rightarrow> None
           | Some (workspace, name) \<Rightarrow>
               (if \<not> ValidWorkspace workspace \<or> name = [] \<or> dot \<in> set name then None else Some (workspace, name))))"

definition PassKey :: "string \<Rightarrow> string" where
  "PassKey workspace = ''_pass.'' @ workspace @ ''.json''"

definition ParsePassKey :: "string \<Rightarrow> string option" where
  "ParsePassKey key =
     (case key_body ''_pass.'' key of
        None \<Rightarrow> None | Some workspace \<Rightarrow> (if ValidWorkspace workspace then Some workspace else None))"

definition ConfirmationKey :: "string \<Rightarrow> string \<Rightarrow> string" where
  "ConfirmationKey workspace channel =
     (if channel = [] then ''_confirm.'' @ workspace @ ''.json''
      else ''_confirm.'' @ workspace @ ''.'' @ channel @ ''.json'')"

definition ParseConfirmationKey :: "string \<Rightarrow> (string \<times> string) option" where
  "ParseConfirmationKey key =
     (case key_body ''_confirm.'' key of
        None \<Rightarrow> None
      | Some body \<Rightarrow>
          (case (case cut dot body of None \<Rightarrow> (body, []) | Some wc \<Rightarrow> wc) of
             (workspace, channel) \<Rightarrow>
               (if \<not> ValidWorkspace workspace \<or> dot \<in> set channel then None else Some (workspace, channel))))"

definition Mirrored :: "string \<Rightarrow> bool" where
  "Mirrored key =
     (ParseSharedKey key \<noteq> None \<or> ParseConsoleKey key \<noteq> None \<or> (\<not> Reserved key \<and> WorkspaceOfKey key \<noteq> None))"

definition watched :: "string \<Rightarrow> bool" where
  "watched name = (\<not> Reserved name \<or> ParseConsoleKey name \<noteq> None \<or> ParseSharedKey name \<noteq> None)"

section \<open>What a pass reads\<close>

record ConnectionRecord =
  cr_Workspace :: string
  cr_TeamID :: string
  cr_Owner :: string
  cr_BotUserID :: string

definition Record_Installed :: "ConnectionRecord \<Rightarrow> bool" where
  "Record_Installed r = (cr_BotUserID r \<noteq> [])"

record Confirmation =
  cn_Workspace :: string
  cn_Channel :: string
  cn_Fingerprint :: string
  cn_By :: string
  cn_At :: int

definition ConfirmationTTL :: int where "ConfirmationTTL = 24 * 3600 * 1000000000"

definition Confirmation_Current :: "Confirmation \<Rightarrow> int \<Rightarrow> bool" where
  "Confirmation_Current c at = (cn_Fingerprint c \<noteq> [] \<and> at - cn_At c < ConfirmationTTL)"

text \<open>Why a record is not acted on: it was not read, the policy refuses it, or its sources cannot be acted on.\<close>

datatype refusal_err = NotRead string | Invalid record_err | BadSources string

record sharedRecord =
  sre_key :: string
  sre_channel :: SharedChannel
  sre_err :: "string option"

record consoleRecord =
  cre_workspace :: string
  cre_name :: string
  cre_channel :: ConsoleChannel
  cre_err :: "string option"

record recorded =
  rd_team :: string
  rd_owner :: string

definition no_recorded :: recorded where
  "no_recorded = \<lparr>rd_team = [], rd_owner = []\<rparr>"

text \<open>A credential is the bot token it holds, empty until the app is installed, or why it could not be read.\<close>

record store =
  so_credentials :: "(string + string) table"
  so_bots :: "string table"
  so_recorded :: "recorded table"
  so_shared :: "sharedRecord list"
  so_console :: "consoleRecord list"
  so_confirmation :: "Confirmation list"

record RecordSource =
  src_Records :: "string + ConnectionRecord list"
  src_Credential :: "string \<Rightarrow> string + string option"
  src_Shared :: "string + sharedRecord list"
  src_Channels :: "string + consoleRecord list"
  src_Confirmations :: "string + Confirmation table"

definition or_none :: "'e + 'a list \<Rightarrow> 'a list" where
  "or_none r = (case r of Inl _ \<Rightarrow> [] | Inr xs \<Rightarrow> xs)"

definition read_record :: "RecordSource \<Rightarrow> ConnectionRecord \<Rightarrow> store \<Rightarrow> store" where
  "read_record src r s =
     s\<lparr>so_recorded := tput (cr_Workspace r) \<lparr>rd_team = cr_TeamID r, rd_owner = cr_Owner r\<rparr> (so_recorded s),
       so_bots := (if Record_Installed r then tput (cr_Workspace r) (cr_BotUserID r) (so_bots s) else so_bots s),
       so_credentials := (case src_Credential src (cr_Workspace r) of
            Inl e \<Rightarrow> tput (cr_Workspace r) (Inl e) (so_credentials s)
          | Inr (Some t) \<Rightarrow> tput (cr_Workspace r) (Inr t) (so_credentials s)
          | Inr None \<Rightarrow> so_credentials s)\<rparr>"

definition readStoreFrom :: "RecordSource \<Rightarrow> store" where
  "readStoreFrom src =
     fold (read_record src) (or_none (src_Records src))
       \<lparr>so_credentials = [], so_bots = [], so_recorded = [], so_shared = or_none (src_Shared src),
        so_console = or_none (src_Channels src),
        so_confirmation = (case src_Confirmations src of Inl _ \<Rightarrow> [] | Inr cs \<Rightarrow> map snd (sorted_entries cs))\<rparr>"

record refusal =
  rf_name :: string
  rf_channel :: SharedChannel
  rf_err :: refusal_err

record consoleRefusal =
  cf_name :: string
  cf_channel :: ConsoleChannel
  cf_err :: refusal_err

definition refuse :: "string \<Rightarrow> 'r \<Rightarrow> 'r list table \<Rightarrow> 'r list table" where
  "refuse key r refused = tput key (tget [] refused key @ [r]) refused"

definition why_refused :: "string option \<Rightarrow> record_err option \<Rightarrow> refusal_err option" where
  "why_refused err valid = (case err of Some e \<Rightarrow> Some (NotRead e) | None \<Rightarrow> map_option Invalid valid)"

definition sharedChannels :: "store \<Rightarrow> Policy \<Rightarrow> SharedChannel list \<times> refusal list table" where
  "sharedChannels s p =
     fold (\<lambda>rec (valid, refused).
        case why_refused (sre_err rec) (SharedChannel_Validate (sre_channel rec) p) of
          Some e \<Rightarrow> (valid, refuse (sh_Host (sre_channel rec))
                     \<lparr>rf_name = sre_key rec, rf_channel = sre_channel rec, rf_err = e\<rparr> refused)
        | None \<Rightarrow> (valid @ [sre_channel rec], refused)) (so_shared s) ([], [])"

definition consoleChannels :: "store \<Rightarrow> Policy \<Rightarrow> ConsoleChannel list \<times> consoleRefusal list table" where
  "consoleChannels s p =
     fold (\<lambda>rec (valid, refused).
        case why_refused (cre_err rec) (ConsoleChannel_Validate (cre_channel rec) p) of
          Some e \<Rightarrow> (valid, refuse (cre_workspace rec)
                     \<lparr>cf_name = cre_name rec, cf_channel = cre_channel rec, cf_err = e\<rparr> refused)
        | None \<Rightarrow> (valid @ [cre_channel rec], refused)) (so_console s) ([], [])"

definition store_confirmed :: "store \<Rightarrow> string \<Rightarrow> int \<Rightarrow> Confirmed" where
  "store_confirmed s workspace at =
     fold (\<lambda>c out. if cn_Channel c = [] then out\<lparr>cf_Workspace := cn_Fingerprint c\<rparr>
                    else out\<lparr>cf_Channels := tput (cn_Channel c) (cn_Fingerprint c) (cf_Channels out)\<rparr>)
       (filter (\<lambda>c. cn_Workspace c = workspace \<and> Confirmation_Current c at) (so_confirmation s))
       \<lparr>cf_Workspace = [], cf_Channels = []\<rparr>"

definition store_facts :: "store \<Rightarrow> SlackWorkspace table \<Rightarrow> string list table \<Rightarrow> Facts table" where
  "store_facts s declared served =
     map (\<lambda>key. let rec = tget no_recorded (so_recorded s) key
                in (key, \<lparr>fa_Team = rd_team rec, fa_Owner = rd_owner rec, fa_Domains = tget [] served (rd_owner rec)\<rparr>))
       (tkeys declared)"

datatype token_err = errNotConnected | errNotInstalled | CredentialErr string

definition store_token :: "store \<Rightarrow> string \<Rightarrow> token_err + string" where
  "store_token s workspace =
     (case map_of (so_credentials s) workspace of
        None \<Rightarrow> Inl errNotConnected
      | Some (Inl e) \<Rightarrow> Inl (CredentialErr e)
      | Some (Inr t) \<Rightarrow> (if t = [] then Inl errNotInstalled else Inr t))"

section \<open>The directory groups and users of the records\<close>

record dirGroup =
  dg_found :: bool
  dg_authoritative :: bool
  dg_truncated :: bool
  dg_owner :: string
  dg_nested :: "string list"

record dirUser =
  du_owner :: string
  du_live :: bool

record directoryGroups =
  dd_groups :: "dirGroup table"
  dd_holders :: Holders
  dd_users :: "dirUser table"

text \<open>The console's answer about a group or a user: who is in it, each known to the hub and live.\<close>

record GroupAnswer =
  ga_Email :: string
  ga_group :: dirGroup
  ga_Members :: "(string \<times> bool \<times> bool) list"

record UserAnswer =
  ua_Email :: string
  ua_WorkspaceId :: string
  ua_Found :: bool
  ua_Live :: bool

record ResolveResponse =
  rr_PolicyDigest :: string
  rr_Groups :: "GroupAnswer list"
  rr_Users :: "UserAnswer list"

type_synonym resolve_fn = "string list \<Rightarrow> string list \<Rightarrow> rails_err + ResolveResponse"

definition resolveBatch :: nat where "resolveBatch = 200"

function batches :: "nat \<Rightarrow> 'a list \<Rightarrow> 'a list list" where
  "batches n xs = (if xs = [] \<or> n = 0 then [] else take n xs # batches n (drop n xs))"
  by pat_completeness auto
termination by (relation "measure (\<lambda>(n, xs). length xs)") auto

declare batches.simps [simp del]

definition ask_console :: "string \<Rightarrow> rails_err + ResolveResponse \<Rightarrow> rails_err + ResolveResponse" where
  "ask_console own answer =
     (case answer of
        Inl e \<Rightarrow> Inl e
      | Inr response \<Rightarrow>
          (case PolicyGuard_Check own (rr_PolicyDigest response) of Some e \<Rightarrow> Inl e | None \<Rightarrow> Inr response))"

definition add_group :: "GroupAnswer \<Rightarrow> directoryGroups \<Rightarrow> directoryGroups" where
  "add_group g out =
     (let email = to_lower (ga_Email g);
          hs = map (\<lambda>(m, known, live). \<lparr>ho_Email = m, ho_Live = (known \<and> live)\<rparr>) (ga_Members g)
      in out\<lparr>dd_groups := tput email (ga_group g) (dd_groups out),
             dd_holders := (if hs = [] then dd_holders out else tput email (tget [] (dd_holders out) email @ hs) (dd_holders out))\<rparr>)"

definition add_user :: "UserAnswer \<Rightarrow> directoryGroups \<Rightarrow> directoryGroups" where
  "add_user u out =
     out\<lparr>dd_users := tput (to_lower (ua_Email u)) \<lparr>du_owner = ua_WorkspaceId u, du_live = (ua_Found u \<and> ua_Live u)\<rparr> (dd_users out)\<rparr>"

definition resolveDirectory :: "string \<Rightarrow> resolve_fn \<Rightarrow> string list \<Rightarrow> string list \<Rightarrow> rails_err + directoryGroups" where
  "resolveDirectory own resolve groups users =
     (case fold_err (\<lambda>batch out. case ask_console own (resolve batch []) of
              Inl e \<Rightarrow> Inl e | Inr response \<Rightarrow> Inr (fold add_group (rr_Groups response) out))
            (batches resolveBatch (sort_compact groups)) \<lparr>dd_groups = [], dd_holders = [], dd_users = []\<rparr> of
        Inl e \<Rightarrow> Inl e
      | Inr out \<Rightarrow>
          fold_err (\<lambda>batch out. case ask_console own (resolve [] batch) of
              Inl e \<Rightarrow> Inl e | Inr response \<Rightarrow> Inr (fold add_user (rr_Users response) out))
            (batches resolveBatch (sort_compact users)) out)"

definition holdersOf :: "directoryGroups \<Rightarrow> Holder table" where
  "holdersOf d = map (\<lambda>(email, u). (email, \<lparr>ho_Email = email, ho_Live = du_live u\<rparr>)) (dd_users d)"

definition check_member :: "directoryGroups \<Rightarrow> string \<Rightarrow> bool \<Rightarrow> string \<Rightarrow> string option" where
  "check_member d owner ordinary m =
     (case map_of (dd_users d) m of
        None \<Rightarrow> Some (''member '' @ m @ '' is not a user of a connected directory'')
      | Some u \<Rightarrow>
          (if du_owner u = [] then Some (''member '' @ m @ '' is not a user of a connected directory'')
           else if ordinary \<and> owner = [] then Some NoOwner
           else if ordinary \<and> du_owner u \<noteq> owner
           then Some (''member '' @ m @ '' belongs to another directory than the one that owns this workspace'')
           else None))"

definition check_source :: "directoryGroups \<Rightarrow> string \<Rightarrow> bool \<Rightarrow> string \<Rightarrow> string option" where
  "check_source d owner ordinary s =
     (case map_of (dd_groups d) s of
        None \<Rightarrow> Some (''source '' @ s @ '' is not a group of a connected directory'')
      | Some g \<Rightarrow>
          (if \<not> dg_found g then Some (''source '' @ s @ '' is not a group of a connected directory'')
           else if dg_truncated g
           then Some (''source '' @ s @ '' nests too deeply to resolve whole, so nobody is added or removed on it'')
           else if ordinary \<and> owner = [] then Some NoOwner
           else if ordinary \<and> dg_owner g \<noteq> owner
           then Some (''source '' @ s @ '' belongs to another directory than the one that owns this workspace'')
           else None))"

definition checkSources :: "directoryGroups \<Rightarrow> string list \<Rightarrow> string list \<Rightarrow> string \<Rightarrow> bool \<Rightarrow> string option" where
  "checkSources d sources members owner ordinary =
     first_some [first_err (check_member d owner ordinary) members, first_err (check_source d owner ordinary) sources]"

definition nestedOf :: "directoryGroups \<Rightarrow> string list \<Rightarrow> string list table" where
  "nestedOf d sources =
     fold (\<lambda>s out. case map_of (dd_groups d) s of
        Some g \<Rightarrow> (if dg_nested g = [] then out else tput s (dg_nested g) out) | None \<Rightarrow> out) sources []"

record pass =
  ps_store :: store
  ps_shared :: "SharedChannel list"
  ps_console :: "ConsoleChannel list"
  ps_refused :: "refusal list table"
  ps_consoleRefused :: "consoleRefusal list table"
  ps_dir :: directoryGroups
  ps_dirErr :: "rails_err option"
  ps_holders :: "rails_err + Holders"
  ps_served :: "string + string list table"

definition no_directoryGroups :: directoryGroups where
  "no_directoryGroups = \<lparr>dd_groups = [], dd_holders = [], dd_users = []\<rparr>"

definition keep_console :: "pass \<Rightarrow> pass" where
  "keep_console p =
     fold (\<lambda>ch q.
        case checkSources (ps_dir p) (cc_Sources ch) (cc_Members ch)
               (rd_owner (tget no_recorded (so_recorded (ps_store p)) (cc_Workspace ch))) True of
          Some why \<Rightarrow> q\<lparr>ps_consoleRefused := refuse (cc_Workspace ch)
                         \<lparr>cf_name = cc_Name ch, cf_channel = ch, cf_err = BadSources why\<rparr> (ps_consoleRefused q)\<rparr>
        | None \<Rightarrow> q\<lparr>ps_console := ps_console q @ [ch]\<rparr>) (ps_console p) (p\<lparr>ps_console := []\<rparr>)"

definition keep_shared :: "pass \<Rightarrow> pass" where
  "keep_shared p =
     fold (\<lambda>ch q.
        case checkSources (ps_dir p) (sh_Sources ch) (sh_Members ch) [] False of
          Some why \<Rightarrow> q\<lparr>ps_refused := refuse (sh_Host ch) \<lparr>rf_name = sh_Name ch, rf_channel = ch, rf_err = BadSources why\<rparr> (ps_refused q)\<rparr>
        | None \<Rightarrow> q\<lparr>ps_shared := ps_shared q @ [ch]\<rparr>) (ps_shared p) (p\<lparr>ps_shared := []\<rparr>)"

definition allSources :: "ConsoleChannel list \<Rightarrow> SharedChannel list \<Rightarrow> string list" where
  "allSources console shared = concat (map cc_Sources console) @ concat (map sh_Sources shared)"

definition resolveSources :: "string \<Rightarrow> resolve_fn \<Rightarrow> pass \<Rightarrow> pass" where
  "resolveSources own resolve p =
     (let sources = allSources (ps_console p) (ps_shared p);
          members = concat (map cc_Members (ps_console p)) @ concat (map sh_Members (ps_shared p))
      in if sources = [] \<and> members = [] then p
         else case resolveDirectory own resolve sources members of
           Inl e \<Rightarrow> p\<lparr>ps_dirErr := Some e\<rparr>
         | Inr dir \<Rightarrow> keep_shared (keep_console (p\<lparr>ps_dir := dir\<rparr>)))"

definition bound_groups :: "Policy \<Rightarrow> string list" where
  "bound_groups p =
     concat (map (\<lambda>(_, ws). concat (map (\<lambda>(_, ch). sc_From ch) (sorted_entries (sw_Channels ws)))) (sorted_entries (sl_Workspaces (p_Slack p))))"

definition readInputs ::
  "Policy \<Rightarrow> string \<Rightarrow> RecordSource \<Rightarrow> list_holders \<Rightarrow> resolve_fn \<Rightarrow> string + string list table \<Rightarrow> pass" where
  "readInputs pol own src list resolve served =
     (let s = readStoreFrom src
      in case (sharedChannels s pol, consoleChannels s pol) of ((shared, refused), (console, consoleRefused)) \<Rightarrow>
         resolveSources own resolve
           \<lparr>ps_store = s, ps_shared = shared, ps_console = console, ps_refused = refused, ps_consoleRefused = consoleRefused,
            ps_dir = no_directoryGroups, ps_dirErr = None, ps_holders = Directory_Holders own list (bound_groups pol),
            ps_served = served\<rparr>)"

definition dependsOnDirectory :: "pass \<Rightarrow> string \<Rightarrow> bool" where
  "dependsOnDirectory p key =
     (list_ex (\<lambda>c. cc_Workspace c = key) (ps_console p)
      \<or> list_ex (\<lambda>s. sh_Host s = key \<or> key \<in> set (sh_With s)) (ps_shared p))"

definition sharesWith :: "SharedChannel list \<Rightarrow> string \<Rightarrow> string \<Rightarrow> bool" where
  "sharesWith shared a b =
     list_ex (\<lambda>s. a \<in> set (sh_Host s # sh_With s) \<and> b \<in> set (sh_Host s # sh_With s)) shared"

definition is_defined_in_git :: "refusal_err \<Rightarrow> bool" where
  "is_defined_in_git e = (case e of Invalid (ErrDefinedInGit _) \<Rightarrow> True | _ \<Rightarrow> False)"

definition definedTwice :: "SlackWorkspace \<Rightarrow> consoleRefusal list \<Rightarrow> bool table" where
  "definedTwice ws refused =
     fold (\<lambda>name out. tput name True out)
       (concat (map (\<lambda>r. CoveredPolicy (cf_channel r) ws) (filter (\<lambda>r. is_defined_in_git (cf_err r)) refused))) []"

section \<open>The directory's answers, asked once\<close>

record answer =
  an_vouch :: "Vouch option"
  an_differs :: bool

type_synonym explain_fn = "string \<Rightarrow> rails_err + Vouch \<times> string"

record vouching =
  vo_answers :: "answer table"
  vo_out :: "Vouch table"
  vo_differs :: bool

definition ask_vouch :: "string \<Rightarrow> explain_fn \<Rightarrow> string \<Rightarrow> answer" where
  "ask_vouch own explain email =
     (case Confirm [email] own explain of (answers, other) \<Rightarrow> \<lparr>an_vouch = map_of answers email, an_differs = other\<rparr>)"

definition vouch_one :: "string \<Rightarrow> explain_fn \<Rightarrow> string \<Rightarrow> vouching \<Rightarrow> vouching" where
  "vouch_one own explain email st =
     (let a = (case map_of (vo_answers st) email of Some a \<Rightarrow> a | None \<Rightarrow> ask_vouch own explain email)
      in \<lparr>vo_answers = (if has_key (vo_answers st) email then vo_answers st else tput email a (vo_answers st)),
          vo_out = (case an_vouch a of Some v \<Rightarrow> tput email v (vo_out st) | None \<Rightarrow> vo_out st),
          vo_differs = (vo_differs st \<or> an_differs a)\<rparr>)"

definition vouch_all :: "string \<Rightarrow> explain_fn \<Rightarrow> answer table \<Rightarrow> string list \<Rightarrow> vouching" where
  "vouch_all own explain answers emails =
     fold (vouch_one own explain) emails \<lparr>vo_answers = answers, vo_out = [], vo_differs = False\<rparr>"

section \<open>What the report makes of what Slack answered\<close>

definition channelOf :: "StatusChannel list \<Rightarrow> SAction \<Rightarrow> nat option" where
  "channelOf chs a =
     List.find (\<lambda>n. stc_Name (chs ! n) = act_Channel a \<and> stc_Shared (chs ! n) = act_Shared a) [0..<length chs]"

definition rowOf :: "SRow list \<Rightarrow> SAction \<Rightarrow> nat option" where
  "rowOf rows a =
     List.find (\<lambda>n. sr_UserID (rows ! n) = act_User a
        \<and> (sr_Action (rows ! n) = act_Kind a \<or> sr_State (rows ! n) = StateWillInvite \<or> sr_State (rows ! n) = StateWillRemove))
       [0..<length rows]"

definition mark_channel :: "SAction \<Rightarrow> (StatusChannel \<Rightarrow> StatusChannel) \<Rightarrow> StatusChannel list \<Rightarrow> StatusChannel list" where
  "mark_channel a f chs = (case channelOf chs a of None \<Rightarrow> chs | Some n \<Rightarrow> chs[n := f (chs ! n)])"

definition mark_row :: "SAction \<Rightarrow> (nat \<Rightarrow> SRow list \<Rightarrow> SRow list) \<Rightarrow> StatusChannel \<Rightarrow> StatusChannel" where
  "mark_row a f ch =
     (case rowOf (stc_Members ch) a of None \<Rightarrow> ch | Some n \<Rightarrow> ch\<lparr>stc_Members := f n (stc_Members ch)\<rparr>)"

definition markDone :: "SAction \<Rightarrow> string table \<Rightarrow> StatusChannel list \<Rightarrow> StatusChannel list" where
  "markDone a ids =
     mark_channel a (\<lambda>ch.
        case act_Kind a of
          ActionInvite \<Rightarrow> mark_row a (\<lambda>n rows. rows[n := (rows ! n)\<lparr>sr_State := StateOK, sr_Action := NoAction, sr_Reason := []\<rparr>]) ch
        | ActionRemove \<Rightarrow> mark_row a (\<lambda>n rows. take n rows @ drop (Suc n) rows) ch
        | ActionShareInvite \<Rightarrow> ch\<lparr>stc_State := ChannelWaiting, stc_Reason := ''waiting for '' @ act_Guest a @ '' to accept''\<rparr>
        | NoAction \<Rightarrow> ch
        | _ \<Rightarrow> ch\<lparr>stc_State := ChannelOK, stc_Reason := [],
                  stc_ID := (if tget [] ids (act_Channel a) \<noteq> [] then tget [] ids (act_Channel a) else stc_ID ch)\<rparr>)"

definition markFailed :: "SAction \<Rightarrow> string \<Rightarrow> StatusChannel list \<Rightarrow> StatusChannel list" where
  "markFailed a words =
     (let reason = ''Slack refused: '' @ trim_space words
      in mark_channel a (\<lambda>ch.
        case act_Kind a of
          ActionInvite \<Rightarrow> mark_row a (\<lambda>n rows. rows[n := (rows ! n)\<lparr>sr_State := StateRetrying, sr_Reason := reason\<rparr>]) ch
        | ActionRemove \<Rightarrow> mark_row a (\<lambda>n rows. rows[n := (rows ! n)\<lparr>sr_State := StateRetrying, sr_Reason := reason\<rparr>]) ch
        | _ \<Rightarrow> ch\<lparr>stc_State := ChannelHeld, stc_Reason := reason\<rparr>))"

record folding =
  fo_report :: StatusWorkspace
  fo_found :: "SHeld list"
  fo_done :: nat
  fo_failed :: nat

definition fold_outcome :: "(apply_err \<Rightarrow> string) \<Rightarrow> string table \<Rightarrow> SOutcome \<Rightarrow> folding \<Rightarrow> folding" where
  "fold_outcome text ids x st =
     (let a = oc_Action x; rep = fo_report st
      in if oc_Held x \<noteq> []
         then st\<lparr>fo_report := rep\<lparr>sw_Reports := mark_channel a (\<lambda>ch. ch\<lparr>stc_State := ChannelHeld, stc_Reason := oc_Held x\<rparr>) (sw_Reports rep),
                                  sw_Tick := (sw_Tick rep)\<lparr>t_Held := t_Held (sw_Tick rep) + 1\<rparr>\<rparr>,
                 fo_found := fo_found st @ [held_of (act_Channel a) ''create'' (oc_Held x)]\<rparr>
         else case oc_Err x of
           Some e \<Rightarrow> st\<lparr>fo_report := rep\<lparr>sw_Reports := markFailed a (text e) (sw_Reports rep)\<rparr>, fo_failed := fo_failed st + 1\<rparr>
         | None \<Rightarrow> st\<lparr>fo_report := rep\<lparr>sw_Reports := markDone a ids (sw_Reports rep)\<rparr>, fo_done := fo_done st + 1\<rparr>)"

definition fold_result :: "(apply_err \<Rightarrow> string) \<Rightarrow> StatusWorkspace \<Rightarrow> applying \<Rightarrow> StatusWorkspace \<times> SHeld list" where
  "fold_result text report result =
     (let st = fold (fold_outcome text (ap_ids result)) (ap_outcomes result)
                 \<lparr>fo_report = report, fo_found = [], fo_done = 0, fo_failed = 0\<rparr>;
          rep = fo_report st
      in (rep\<lparr>sw_Tick := (sw_Tick rep)\<lparr>t_Changes := int (fo_done st), t_Retrying := t_Retrying (sw_Tick rep) + int (fo_failed st)\<rparr>\<rparr>,
          fo_found st))"

section \<open>What is recorded once\<close>

definition holdPrefix :: string where "holdPrefix = ''hold|''"
definition leaverPrefix :: string where "leaverPrefix = ''leaver|''"
definition adoptedPrefix :: string where "adoptedPrefix = ''adopted|''"

definition recordedOf :: "string list \<Rightarrow> string \<Rightarrow> string list" where
  "recordedOf keys prefix = concat (map (\<lambda>k. case cut_prefix k prefix of Some key \<Rightarrow> [key] | None \<Rightarrow> []) keys)"

text \<open>The records of the audit trail about what a tick found, rather than what it changed.\<close>

datatype report_event =
    SlackActionHeld string "audit_channel option" "(string \<times> audit_channel) option" string string
  | SlackLeaverReported string string string string
  | SlackAdoption audit_channel

definition heldChange :: "string \<Rightarrow> string" where
  "heldChange change =
     (if change = ''share-invite'' then ''share'' else if change = ''share-accept'' then ''accept'' else change)"

definition HeldRecord :: "string \<Rightarrow> SHeld \<Rightarrow> report_event" where
  "HeldRecord workspace h =
     (let channel = (if hd_Channel h = [] then None
                     else Some \<lparr>au_Workspace = workspace, au_Name = hd_Channel h, au_ID = [], au_Private = False\<rparr>);
          m = (case channel of
                 Some ch \<Rightarrow> (if hd_Person h = [] then None else Some (if hd_Email h = [] then hd_Person h else hd_Email h, ch))
               | None \<Rightarrow> None)
      in SlackActionHeld workspace channel m (heldChange (hd_Change h)) (hd_Reason h))"

definition LeaverRecord :: "string \<Rightarrow> Leaver \<Rightarrow> report_event" where
  "LeaverRecord workspace l = SlackLeaverReported workspace (lv_Email l) (lv_UserID l) (lv_Reason l)"

definition AdoptedRecord :: "string \<Rightarrow> Adoption \<Rightarrow> report_event" where
  "AdoptedRecord workspace a =
     SlackAdoption \<lparr>au_Workspace = workspace, au_Name = ad_Channel a, au_ID = ad_ID a, au_Private = ad_Private a\<rparr>"

record ledgers =
  lg_held :: Ledger
  lg_leavers :: Ledger
  lg_adopted :: Ledger

definition emit_fresh :: "bool \<Rightarrow> 'e list \<Rightarrow> bool list \<Rightarrow> 'e list" where
  "emit_fresh on events fresh = (if on then map fst (filter snd (zip events fresh)) else [])"

text \<open>The events recorded, the ledgers after, and the keys the report carries for a process that starts anew.\<close>

definition recordNew ::
  "bool \<Rightarrow> string \<Rightarrow> SDecision \<Rightarrow> SHeld list \<Rightarrow> StatusWorkspace \<Rightarrow> string list \<Rightarrow> ledgers \<Rightarrow> report_event list \<times> ledgers \<times> string list" where
  "recordNew on workspace dec found report previous lg =
     (let helds = de_Held dec @ found; holdKeys = map SHeld_Key helds;
          leaverKeys = map lv_UserID (sw_Leavers report);
          adoptedKeys = map (\<lambda>a. ad_Channel a @ ''|'' @ ad_ID a) (de_Adopted dec);
          (held, freshHeld) = Ledger_Fresh (lg_held lg) workspace holdKeys (recordedOf previous holdPrefix);
          (leavers, freshLeavers) = Ledger_Fresh (lg_leavers lg) workspace leaverKeys (recordedOf previous leaverPrefix);
          (adopted, freshAdopted) = Ledger_Fresh (lg_adopted lg) workspace adoptedKeys (recordedOf previous adoptedPrefix)
      in (emit_fresh on (map (HeldRecord workspace) helds) freshHeld @ emit_fresh on (map (LeaverRecord workspace) (sw_Leavers report)) freshLeavers
          @ emit_fresh on (map (AdoptedRecord workspace) (de_Adopted dec)) (map (\<lambda>(a, f). f \<and> \<not> ad_Joins a) (zip (de_Adopted dec) freshAdopted)),
          \<lparr>lg_held = held, lg_leavers = leavers, lg_adopted = adopted\<rparr>,
          map (\<lambda>k. adoptedPrefix @ k) adoptedKeys @ map (\<lambda>k. holdPrefix @ k) holdKeys @ map (\<lambda>k. leaverPrefix @ k) leaverKeys))"

section \<open>The tick of a workspace\<close>

datatype tick_failure =
    HoldersFailed rails_err | DirectoryFailed rails_err | TokenFailed token_err | DomainsFailed string string
  | OwnerNotConnected string string | ObserveFailed observe_err | DeriveFailed derive_err

datatype TickOutcome = OutcomeOf Outcome | OutcomeFailed tick_failure

record TickReport =
  wk_Status :: StatusWorkspace
  wk_Enabled :: bool
  wk_At :: int
  wk_Outcome :: TickOutcome
  wk_Recorded :: "string list"

definition no_StatusWorkspace :: "string \<Rightarrow> StatusWorkspace" where
  "no_StatusWorkspace key =
     \<lparr>sw_Workspace = key, sw_Team = [], sw_Tick = \<lparr>t_Changes = 0, t_Held = 0, t_Retrying = 0, t_Waiting = 0\<rparr>, sw_Reports = [],
      sw_DiscoveredShared = [], sw_Discovered = [], sw_DiscoveredMore = 0, sw_Leavers = [], sw_Breaker = None\<rparr>"

text \<open>What a controller acts with: the policy and its digest, whether the workspace is enabled, whether
  an audit trail is there, Slack for a token, the cache, the console's word on an address.\<close>

record Controller =
  ct_Policy :: Policy
  ct_Digest :: string
  ct_Enabled :: "bool table"
  ct_Audit :: bool
  ct_Reads :: "string \<Rightarrow> Client"
  ct_Slack :: "string \<Rightarrow> slack_api"
  ct_Members :: "MemberCache option"
  ct_Explain :: explain_fn
  ct_Sha :: "string \<Rightarrow> string"
  ct_Text :: "apply_err \<Rightarrow> string"
  ct_RefusalText :: "refusal_err \<Rightarrow> string"

record tick_out =
  to_Report :: TickReport
  to_OtherPolicy :: bool
  to_Calls :: "slack_call list"
  to_Changes :: "slack_event list"
  to_Events :: "report_event list"
  to_Answers :: "answer table"
  to_Ledgers :: ledgers
  to_Puts :: "SMember list"

definition served_or_none :: "string + string list table \<Rightarrow> string list table" where
  "served_or_none served = (case served of Inl _ \<Rightarrow> [] | Inr m \<Rightarrow> m)"

definition check_owner :: "pass \<Rightarrow> string \<Rightarrow> string \<times> Facts \<Rightarrow> tick_failure option" where
  "check_owner p key kf =
     (case kf of (k, facts) \<Rightarrow>
        (if k \<noteq> key \<and> \<not> sharesWith (ps_shared p) key k then None
         else if fa_Owner facts = [] then None
         else case ps_served p of
           Inl e \<Rightarrow> Some (DomainsFailed k e)
         | Inr served \<Rightarrow> guard_err (\<not> has_key served (fa_Owner facts)) (OwnerNotConnected k (fa_Owner facts))))"

definition tick_input :: "Controller \<Rightarrow> pass \<Rightarrow> Holders \<Rightarrow> string \<Rightarrow> Observed \<Rightarrow> Input" where
  "tick_input c p holders key obs =
     \<lparr>in_Workspace = key, in_Workspaces = sl_Workspaces (p_Slack (ct_Policy c)),
      in_Facts = store_facts (ps_store p) (sl_Workspaces (p_Slack (ct_Policy c))) (served_or_none (ps_served p)),
      in_People = p_People (ct_Policy c), in_Holders = holders, in_Shared = ps_shared p, in_Console = ps_console p,
      in_DefinedTwice = definedTwice (tget no_SlackWorkspace (sl_Workspaces (p_Slack (ct_Policy c))) key)
        (tget [] (ps_consoleRefused p) key),
      in_DirHolders = dd_holders (ps_dir p), in_DirUsers = holdersOf (ps_dir p),
      in_DirNested = nestedOf (ps_dir p) (allSources (ps_console p) (ps_shared p)),
      in_Bots = so_bots (ps_store p), in_Observed = obs\<rparr>"

definition no_Observed :: Observed where
  "no_Observed = \<lparr>ob_TeamID = [], ob_BotUserID = [], ob_Channels = [], ob_Accounts = [], ob_Members = [], ob_Invites = []\<rparr>"

definition mode_word :: "string \<Rightarrow> string" where
  "mode_word mode = (if mode = [] then SlackModeExtend else mode)"

definition refused_channel :: "string \<Rightarrow> string \<Rightarrow> bool \<Rightarrow> string \<Rightarrow> string \<Rightarrow> StatusChannel" where
  "refused_channel name ident private mode reason =
     \<lparr>stc_Name = name, stc_ID = ident, stc_Private = private, stc_Mode = mode, stc_Shared = False, stc_Host = [], stc_Console = False,
      stc_State = ChannelHeld, stc_Reason = reason, stc_Members = [], stc_Breaker = None\<rparr>"

definition DefinedTwiceText :: string where
  "DefinedTwiceText = ''defined in both git and the console: held and unchanged until one definition is removed ''
     @ ''(remove it from git to manage it here, or delete the console record)''"

definition reportRefused :: "(refusal_err \<Rightarrow> string) \<Rightarrow> string \<Rightarrow> refusal list \<Rightarrow> StatusChannel list" where
  "reportRefused text key refused =
     map (\<lambda>r. (refused_channel (rf_name r) [] (Privacy_IsPrivate (sh_Private (rf_channel r)) key) ''extend''
            (''the shared channel's definition is refused and not acted on: '' @ text (rf_err r)))\<lparr>stc_Shared := True, stc_Host := key\<rparr>) refused"

definition reportConsoleRefused :: "(refusal_err \<Rightarrow> string) \<Rightarrow> consoleRefusal list \<Rightarrow> StatusChannel list" where
  "reportConsoleRefused text refused =
     map (\<lambda>r. (refused_channel (cf_name r) (cc_ChannelID (cf_channel r)) (cc_Private (cf_channel r)) (mode_word (cc_Mode (cf_channel r)))
            (if is_defined_in_git (cf_err r) then DefinedTwiceText
             else ''the console channel's record is refused and not acted on: '' @ text (cf_err r)))\<lparr>stc_Console := True\<rparr>) refused"

definition reportDefinedTwice :: "SlackWorkspace \<Rightarrow> bool table \<Rightarrow> StatusChannel list" where
  "reportDefinedTwice ws held =
     map (\<lambda>name. let b = tget no_SlackChannel (sw_Channels ws) name
                 in refused_channel name (sc_Adopt b) (sc_Private b) (mode_word (sc_Mode b)) DefinedTwiceText) (tkeys held)"

definition countWaiting :: "StatusChannel list \<Rightarrow> nat" where
  "countWaiting chs = length (filter (\<lambda>ch. stc_State ch = ChannelWaiting) chs)"

definition failed_tick :: "Controller \<Rightarrow> string \<Rightarrow> int \<Rightarrow> TickReport \<Rightarrow> answer table \<Rightarrow> ledgers \<Rightarrow> tick_failure \<Rightarrow> bool \<Rightarrow> tick_out" where
  "failed_tick c key started previous answers lg e differs =
     \<lparr>to_Report = previous\<lparr>wk_Status := (wk_Status previous)\<lparr>sw_Workspace := key,
            sw_Tick := \<lparr>t_Changes = 0, t_Held = 0, t_Retrying = 0, t_Waiting = 0\<rparr>\<rparr>,
          wk_Enabled := tget False (ct_Enabled c) key, wk_At := started, wk_Outcome := OutcomeFailed e\<rparr>,
      to_OtherPolicy = differs, to_Calls = [], to_Changes = [], to_Events = [], to_Answers = answers, to_Ledgers = lg, to_Puts = []\<rparr>"

definition waiting_tick :: "Controller \<Rightarrow> string \<Rightarrow> int \<Rightarrow> answer table \<Rightarrow> ledgers \<Rightarrow> tick_out" where
  "waiting_tick c key started answers lg =
     \<lparr>to_Report = \<lparr>wk_Status = no_StatusWorkspace key, wk_Enabled = tget False (ct_Enabled c) key, wk_At = started,
                   wk_Outcome = OutcomeOf OutcomeWaiting, wk_Recorded = []\<rparr>,
      to_OtherPolicy = False, to_Calls = [], to_Changes = [], to_Events = [], to_Answers = answers, to_Ledgers = lg, to_Puts = []\<rparr>"

text \<open>A decision carried out, where the workspace is enabled, and reported.\<close>

definition finish_tick ::
  "Controller \<Rightarrow> pass \<Rightarrow> string \<Rightarrow> int \<Rightarrow> string \<Rightarrow> TickReport \<Rightarrow> Input \<Rightarrow> vouching \<Rightarrow> ledgers \<Rightarrow> SMember list \<Rightarrow> SDecision \<Rightarrow> tick_out" where
  "finish_tick c p key started tok previous i v lg puts dec =
     (let enabled = tget False (ct_Enabled c) key;
          rep0 = de_Report dec;
          rep1 = rep0\<lparr>sw_Reports := sw_Reports rep0 @ reportRefused (ct_RefusalText c) key (tget [] (ps_refused p) key)
                   @ reportConsoleRefused (ct_RefusalText c) (tget [] (ps_consoleRefused p) key)
                   @ reportDefinedTwice (own_workspace i) (in_DefinedTwice i)\<rparr>;
          result = Apply \<lparr>op_Workspace = key, op_DryRun = False, op_Audit = ct_Audit c, op_ExternalLimited = False\<rparr> (ct_Slack c tok) (de_Actions dec);
          (rep2, found) = fold_result (ct_Text c) rep1 result;
          (events, lg', recs) = recordNew (ct_Audit c) key dec found rep2 (wk_Recorded previous) lg;
          rep = (if enabled then rep2 else rep1);
          rep3 = rep\<lparr>sw_Tick := (sw_Tick rep)\<lparr>t_Waiting := int (countWaiting (sw_Reports rep))\<rparr>\<rparr>
      in \<lparr>to_Report = \<lparr>wk_Status = rep3, wk_Enabled = enabled, wk_At = started,
                       wk_Outcome = OutcomeOf (Switch_Decide enabled (sw_Tick rep3)), wk_Recorded = (if enabled then recs else [])\<rparr>,
          to_OtherPolicy = vo_differs v, to_Calls = (if enabled then ap_calls result else []),
          to_Changes = (if enabled then ap_events result else []), to_Events = (if enabled then events else []),
          to_Answers = vo_answers v, to_Ledgers = (if enabled then lg' else lg), to_Puts = puts\<rparr>)"

text \<open>\<open>Controller.workspace\<close>; \<^const>\<open>None\<close> for a decision that panics.\<close>

definition workspace_tick ::
  "Controller \<Rightarrow> pass \<Rightarrow> string \<Rightarrow> int \<Rightarrow> TickReport \<Rightarrow> answer table \<Rightarrow> ledgers \<Rightarrow> tick_out option" where
  "workspace_tick c p key started previous answers lg =
     (let failed = failed_tick c key started previous answers lg
      in case ps_holders p of
        Inl e \<Rightarrow> Some (failed (HoldersFailed e) (is_policy_differs e))
      | Inr holders \<Rightarrow>
     (case (if dependsOnDirectory p key then ps_dirErr p else None) of
        Some e \<Rightarrow> Some (failed (DirectoryFailed e) (is_policy_differs e))
      | None \<Rightarrow>
     (case store_token (ps_store p) key of
        Inl errNotConnected \<Rightarrow> Some (waiting_tick c key started answers lg)
      | Inl errNotInstalled \<Rightarrow> Some (waiting_tick c key started answers lg)
      | Inl (CredentialErr e) \<Rightarrow> Some (failed (TokenFailed (CredentialErr e)) False)
      | Inr tok \<Rightarrow>
     (let i0 = tick_input c p holders key no_Observed
      in case first_err (check_owner p key) (sorted_entries (in_Facts i0)) of
        Some e \<Rightarrow> Some (failed e False)
      | None \<Rightarrow>
     (case ObserveCached (ct_Reads c tok) i0 (ct_Members c) of
        Inl e \<Rightarrow> Some (failed (ObserveFailed e) False)
      | Inr (obs, puts) \<Rightarrow>
     (let i = i0\<lparr>in_Observed := obs, in_Bots := tput key (ob_BotUserID obs) (in_Bots i0)\<rparr>
      in case Slack_Derive i of
        Inl e \<Rightarrow> Some ((failed (DeriveFailed e) False)\<lparr>to_Puts := puts\<rparr>)
      | Inr d \<Rightarrow>
     (let v = vouch_all (ct_Digest c) (ct_Explain c) answers (Slack_Confirm d)
      in map_option (finish_tick c p key started tok previous i v lg puts)
           (Slack_Decide (ct_Sha c) d (vo_out v) (store_confirmed (ps_store p) key started)))))))))"

section \<open>Keys read back\<close>

lemma cut_suffix_append [simp]: "cut_suffix (s @ suffix) suffix = Some s"
  by (simp add: cut_suffix_def)

lemma cut_suffix_Some: "cut_suffix s suffix = Some r \<longleftrightarrow> s = r @ suffix"
  by (auto simp: cut_suffix_def cut_prefix_Some) (metis rev_append rev_rev_ident)

lemma key_body_append [simp]: "key_body prefix (prefix @ body @ ''.json'') = Some body"
  by (simp add: key_body_def)

lemma ValidWorkspace_plain: "ValidWorkspace ws \<Longrightarrow> ws \<noteq> [] \<and> dot \<notin> set ws \<and> hd ws \<noteq> CHR ''_''"
  by (auto simp: ValidWorkspace_def slackSlug_def dot_def list_all_iff is_lower_def is_digit_def)

lemma not_reserved: "ValidWorkspace ws \<Longrightarrow> \<not> Reserved (Key ws)"
  using ValidWorkspace_plain [of ws] by (cases ws) (auto simp: Reserved_def Key_def has_prefix_def split: if_splits)

text \<open>The kinds of document the console keeps, and the key of each.\<close>

datatype document = WorkspaceDoc string | SharedDoc string | ChannelDoc string string | PassDoc string | ConfirmDoc string string

fun document_key :: "document \<Rightarrow> string" where
  "document_key (WorkspaceDoc ws) = Key ws"
| "document_key (SharedDoc name) = SharedKey name"
| "document_key (ChannelDoc ws name) = ConsoleKey ws name"
| "document_key (PassDoc ws) = PassKey ws"
| "document_key (ConfirmDoc ws ch) = ConfirmationKey ws ch"

fun document_ok :: "document \<Rightarrow> bool" where
  "document_ok (WorkspaceDoc ws) = ValidWorkspace ws"
| "document_ok (SharedDoc name) = channelName name"
| "document_ok (ChannelDoc ws name) = (ValidWorkspace ws \<and> channelName name)"
| "document_ok (PassDoc ws) = ValidWorkspace ws"
| "document_ok (ConfirmDoc ws ch) = (ValidWorkspace ws \<and> (ch = [] \<or> channelName ch))"

lemma channelName_plain: "channelName s \<Longrightarrow> s \<noteq> [] \<and> dot \<notin> set s"
  by (auto simp: channelName_def dot_def list_all_iff is_lower_def is_digit_def)

text \<open>How the controller reads a key: a workspace's own document unless reserved, then each kind in turn.\<close>

definition read_key :: "string \<Rightarrow> document option" where
  "read_key key =
     (if \<not> Reserved key then map_option WorkspaceDoc (WorkspaceOfKey key)
      else case ParseSharedKey key of Some name \<Rightarrow> Some (SharedDoc name)
      | None \<Rightarrow> (case ParseConsoleKey key of Some (ws, name) \<Rightarrow> Some (ChannelDoc ws name)
      | None \<Rightarrow> (case ParseConfirmationKey key of Some (ws, ch) \<Rightarrow> Some (ConfirmDoc ws ch)
      | None \<Rightarrow> map_option PassDoc (ParsePassKey key))))"

lemma cut_dot_append: "dot \<notin> set ws \<Longrightarrow> cut dot (ws @ ''.'' @ name) = Some (ws, name)"
  by (simp add: cut_Some dot_def)

lemma cut_no_dot: "dot \<notin> set ws \<Longrightarrow> cut dot ws = None"
  by (simp add: cut_None)

lemma reserved_key [simp]:
  "Reserved (SharedKey name)" "Reserved (ConsoleKey ws name)" "Reserved (PassKey ws)" "Reserved (ConfirmationKey ws ch)"
  by (simp_all add: Reserved_def has_prefix_def SharedKey_def ConsoleKey_def PassKey_def ConfirmationKey_def)

lemma other_key [simp]:
  "ParseSharedKey (ConsoleKey ws name) = None" "ParseSharedKey (PassKey ws) = None" "ParseSharedKey (ConfirmationKey ws ch) = None"
  "ParseConsoleKey (PassKey ws) = None" "ParseConsoleKey (ConfirmationKey ws ch) = None" "ParseConfirmationKey (PassKey ws) = None"
  by (simp_all add: ParseSharedKey_def ParseConsoleKey_def ParseConfirmationKey_def key_body_def ConsoleKey_def PassKey_def
      ConfirmationKey_def)

lemma key_bodies:
  "key_body ''_shared.'' (SharedKey name) = Some name" "key_body ''_pass.'' (PassKey ws) = Some ws"
  "key_body ''_channel.'' (ConsoleKey ws name) = Some (ws @ ''.'' @ name)"
  "key_body ''_confirm.'' (ConfirmationKey ws ch) = Some (if ch = [] then ws else ws @ ''.'' @ ch)"
  using key_body_append [of "''_shared.''" name] key_body_append [of "''_pass.''" ws]
    key_body_append [of "''_channel.''" "ws @ ''.'' @ name"] key_body_append [of "''_confirm.''" ws]
    key_body_append [of "''_confirm.''" "ws @ ''.'' @ ch"]
  by (simp_all add: SharedKey_def PassKey_def ConsoleKey_def ConfirmationKey_def del: key_body_append)

lemma own_key:
  "channelName name \<Longrightarrow> ParseSharedKey (SharedKey name) = Some name"
  "ValidWorkspace ws \<Longrightarrow> channelName name \<Longrightarrow> ParseConsoleKey (ConsoleKey ws name) = Some (ws, name)"
  "ValidWorkspace ws \<Longrightarrow> ParsePassKey (PassKey ws) = Some ws"
  "ValidWorkspace ws \<Longrightarrow> ch = [] \<or> channelName ch \<Longrightarrow> ParseConfirmationKey (ConfirmationKey ws ch) = Some (ws, ch)"
  using ValidWorkspace_plain [of ws] channelName_plain [of name] channelName_plain [of ch]
  by (auto simp: ParseSharedKey_def ParseConsoleKey_def ParsePassKey_def ParseConfirmationKey_def key_bodies cut_no_dot
      cut_dot_append simp del: append_Cons append_Nil)

text \<open>
  C35. Every document of the console is read back as what it was written as: the key of a workspace's
  record, of a shared or a console channel, of a confirmation or of a request names exactly one
  document, so no record is ever taken for another's.
\<close>
theorem console_keys_read_back:
  assumes "document_ok doc"
  shows "read_key (document_key doc) = Some doc"
  using assms not_reserved own_key
  by (cases doc) (auto simp: read_key_def WorkspaceOfKey_def Key_def simp del: append_Cons)

end
