(* ===== verification/Slack_Properties.thy ===== *)
theory Slack_Properties
  imports Slack_Controller
begin

text \<open>
  What a tick of the Slack controller does to a workspace, from the records and the directory's answers
  to the calls it makes: the calls of a tick are those of a decision on what was observed, its removals
  rest on answers given under the controller's own policy and on confirmations of the last day, a tick
  that fails changes nothing, and every tick ends in a report. The witnesses run a small deployment of
  two workspaces.
\<close>

section \<open>Answers and confirmations\<close>

definition vouched_by :: "Controller \<Rightarrow> answer table \<Rightarrow> string \<Rightarrow> Vouch \<Rightarrow> bool" where
  "vouched_by c answers e v =
     ((\<exists>a. map_of answers e = Some a \<and> an_vouch a = Some v) \<or> (ct_Explain c e = Inr (v, ct_Digest c) \<and> ct_Digest c \<noteq> []))"

lemma ask_vouch_answers:
  "an_vouch (ask_vouch own explain e) = Some v \<Longrightarrow> explain e = Inr (v, own) \<and> own \<noteq> []"
  using Confirm_answers [of "[e]" own explain e v] by (simp add: ask_vouch_def split: prod.splits)

definition vouching_ok :: "Controller \<Rightarrow> answer table \<Rightarrow> vouching \<Rightarrow> bool" where
  "vouching_ok c answers st =
     ((\<forall>e v. map_of (vo_out st) e = Some v \<longrightarrow> vouched_by c answers e v)
      \<and> (\<forall>e a v. map_of (vo_answers st) e = Some a \<longrightarrow> an_vouch a = Some v \<longrightarrow> vouched_by c answers e v))"

lemma vouch_one_ok:
  assumes "vouching_ok c answers st"
  shows "vouching_ok c answers (vouch_one (ct_Digest c) (ct_Explain c) email st)"
proof -
  let ?a = "case map_of (vo_answers st) email of Some a \<Rightarrow> a | None \<Rightarrow> ask_vouch (ct_Digest c) (ct_Explain c) email"
  have a: "vouched_by c answers email v" if "an_vouch ?a = Some v" for v
    using that assms ask_vouch_answers [of "ct_Digest c" "ct_Explain c" email v]
    by (cases "map_of (vo_answers st) email") (auto simp: vouching_ok_def vouched_by_def)
  show ?thesis
    using assms a by (cases "map_of (vo_answers st) email"; cases "an_vouch ?a") (auto simp: vouching_ok_def vouch_one_def Let_def)
qed

lemma vouch_all_vouched:
  assumes "map_of (vo_out (vouch_all (ct_Digest c) (ct_Explain c) answers es)) e = Some v"
  shows "vouched_by c answers e v"
proof -
  have "vouching_ok c answers (fold (vouch_one (ct_Digest c) (ct_Explain c)) es st)" if "vouching_ok c answers st" for st
    using that by (induction es arbitrary: st) (auto simp: vouch_one_ok)
  from this [of "\<lparr>vo_answers = answers, vo_out = [], vo_differs = False\<rparr>"]
  have "vouching_ok c answers (vouch_all (ct_Digest c) (ct_Explain c) answers es)"
    by (auto simp: vouch_all_def vouching_ok_def vouched_by_def)
  then show ?thesis using assms by (simp add: vouching_ok_def)
qed

lemma confirmed_recently:
  assumes "confirms (store_confirmed s ws at) fp"
  shows "\<exists>c\<in>set (so_confirmation s). cn_Workspace c = ws \<and> cn_Fingerprint c = fp \<and> at - cn_At c < ConfirmationTTL"
proof -
  let ?step = "\<lambda>c out. if cn_Channel c = [] then out\<lparr>cf_Workspace := cn_Fingerprint c\<rparr>
      else out\<lparr>cf_Channels := tput (cn_Channel c) (cn_Fingerprint c) (cf_Channels out)\<rparr>"
  have "confirms (fold ?step cs out) fp \<Longrightarrow> confirms out fp \<or> (\<exists>c\<in>set cs. cn_Fingerprint c = fp)" for cs out
  proof (induction cs arbitrary: out)
    case (Cons c cs)
    then have "confirms (?step c out) fp \<or> (\<exists>c\<in>set cs. cn_Fingerprint c = fp)" by simp
    moreover have "confirms (?step c out) fp \<Longrightarrow> confirms out fp \<or> cn_Fingerprint c = fp"
      by (auto simp: confirms_def ran_def split: if_splits)
    ultimately show ?case by auto
  qed simp
  from this [OF assms [unfolded store_confirmed_def]] show ?thesis
    by (auto simp: confirms_def Confirmation_Current_def)
qed

section \<open>From the tick to its calls\<close>

text \<open>The inputs a tick decides on.\<close>

definition decided_input :: "Controller \<Rightarrow> pass \<Rightarrow> Holders \<Rightarrow> string \<Rightarrow> Observed \<Rightarrow> Input" where
  "decided_input c p holders key obs =
     (tick_input c p holders key obs)\<lparr>in_Bots := tput key (ob_BotUserID obs) (so_bots (ps_store p))\<rparr>"

text \<open>A tick that came to a decision: every step before it succeeded.\<close>

definition tick_decides ::
  "Controller \<Rightarrow> pass \<Rightarrow> string \<Rightarrow> int \<Rightarrow> answer table \<Rightarrow> string \<Rightarrow> Input \<Rightarrow> SDraft \<Rightarrow> SDecision \<Rightarrow> bool" where
  "tick_decides c p key started answers tok i d dec =
     (\<exists>holders obs puts. ps_holders p = Inr holders \<and> store_token (ps_store p) key = Inr tok
        \<and> ObserveCached (ct_Reads c tok) (tick_input c p holders key no_Observed) (ct_Members c) = Inr (obs, puts)
        \<and> i = decided_input c p holders key obs \<and> Slack_Derive i = Inr d
        \<and> Slack_Decide (ct_Sha c) d (vo_out (vouch_all (ct_Digest c) (ct_Explain c) answers (Slack_Confirm d)))
            (store_confirmed (ps_store p) key started) = Some dec)"

lemma tick_input_observed:
  "(tick_input c p holders key no_Observed)\<lparr>in_Observed := obs,
      in_Bots := tput key (ob_BotUserID obs) (in_Bots (tick_input c p holders key no_Observed))\<rparr>
     = decided_input c p holders key obs"
  by (simp add: tick_input_def decided_input_def)

lemma finish_tick_calls:
  "to_Calls (finish_tick c p key started tok previous i v lg puts dec) =
     (if tget False (ct_Enabled c) key
      then ap_calls (Apply \<lparr>op_Workspace = key, op_DryRun = False, op_Audit = ct_Audit c, op_ExternalLimited = False\<rparr>
             (ct_Slack c tok) (de_Actions dec)) else [])"
  by (simp add: finish_tick_def Let_def split: prod.splits)

lemma failed_tick_silent [simp]:
  "to_Calls (failed_tick c key started previous answers lg e b) = []" "to_Calls (waiting_tick c key started answers lg) = []"
  by (simp_all add: failed_tick_def waiting_tick_def)

lemma tick_calls:
  assumes "workspace_tick c p key started previous answers lg = Some out" and "to_Calls out \<noteq> []"
  shows "tget False (ct_Enabled c) key \<and> (\<exists>tok i d dec. tick_decides c p key started answers tok i d dec
    \<and> to_Calls out = ap_calls (Apply \<lparr>op_Workspace = key, op_DryRun = False, op_Audit = ct_Audit c, op_ExternalLimited = False\<rparr>
         (ct_Slack c tok) (de_Actions dec)))"
  using assms
  by (auto simp: workspace_tick_def Let_def tick_input_observed tick_decides_def finish_tick_calls
      split: sum.splits option.splits token_err.splits prod.splits if_splits)

section \<open>The tick comes to its report\<close>

text \<open>Nothing of the layout or of the observation looks at the bots of the other workspaces.\<close>

lemma resolver_bots [simp]:
  "re_domains (newResolver (i\<lparr>in_Bots := b\<rparr>)) = re_domains (newResolver i)"
  "re_byAddr (newResolver (i\<lparr>in_Bots := b\<rparr>)) = re_byAddr (newResolver i)"
  "re_ofPerson (newResolver (i\<lparr>in_Bots := b\<rparr>)) = re_ofPerson (newResolver i)"
  by (simp_all add: newResolver_def)

lemma path_bots [simp]: "path (newResolver (i\<lparr>in_Bots := b\<rparr>)) = path (newResolver i)"
  by (intro ext) (simp add: path_def)

lemma owner_bots [simp]: "owner_of (newResolver (i\<lparr>in_Bots := b\<rparr>)) = owner_of (newResolver i)"
proof (intro ext)
  fix s p
  have "owner_among (newResolver (i\<lparr>in_Bots := b\<rparr>)) gs p = owner_among (newResolver i) gs p" for gs
    by (induction gs) (auto split: option.splits)
  then show "owner_of (newResolver (i\<lparr>in_Bots := b\<rparr>)) s p = owner_of (newResolver i) s p"
    by (simp add: owner_of_def del: owner_among.simps)
qed

lemma wanted_bots [simp]:
  "wantedFrom (newResolver (i\<lparr>in_Bots := b\<rparr>)) = wantedFrom (newResolver i)"
  "wanted (newResolver (i\<lparr>in_Bots := b\<rparr>)) = wanted (newResolver i)"
proof -
  have "personKey (newResolver (i\<lparr>in_Bots := b\<rparr>)) = personKey (newResolver i)" by (intro ext) (simp add: personKey_def)
  then have "add_wanted (newResolver (i\<lparr>in_Bots := b\<rparr>)) = add_wanted (newResolver i)" by (intro ext) (simp add: add_wanted_def)
  then show "wantedFrom (newResolver (i\<lparr>in_Bots := b\<rparr>)) = wantedFrom (newResolver i)"
    by (intro ext) (simp add: wantedFrom_def wanted_table_def)
  then show "wanted (newResolver (i\<lparr>in_Bots := b\<rparr>)) = wanted (newResolver i)" by (intro ext) (simp add: wanted_def)
qed

lemma slots_bots [simp]:
  "slotsOwn (newResolver (i\<lparr>in_Bots := b\<rparr>)) = slotsOwn (newResolver i)"
  "shared_slots (newResolver (i\<lparr>in_Bots := b\<rparr>)) = shared_slots (newResolver i)"
  "belongsTo (newResolver (i\<lparr>in_Bots := b\<rparr>)) = belongsTo (newResolver i)"
  "takes_part (i\<lparr>in_Bots := b\<rparr>) = takes_part i" "own_workspace (i\<lparr>in_Bots := b\<rparr>) = own_workspace i"
  by (intro ext, simp add: slotsOwn_def noPathIn_def factsOf_def cong: option.case_cong)
    (intro ext, simp add: shared_slots_def cong: if_cong prod.case_cong,
     intro ext, simp add: belongsTo_def, intro ext, simp add: takes_part_def, simp add: own_workspace_def)

lemma layout_bots [simp]: "layout (newResolver (i\<lparr>in_Bots := b\<rparr>)) = layout (newResolver i)"
  by (simp add: layout_def layout_policy_def layout_console_def layout_shared_def)

lemma ObserveCached_bots: "ObserveCached cl (i\<lparr>in_Bots := b\<rparr>) cache = ObserveCached cl i cache"
proof -
  have same: "in_Workspaces (i\<lparr>in_Bots := b\<rparr>) = in_Workspaces i" "in_Workspace (i\<lparr>in_Bots := b\<rparr>) = in_Workspace i"
    "factsOf (i\<lparr>in_Bots := b\<rparr>) = factsOf i" "Lookups (i\<lparr>in_Bots := b\<rparr>) = Lookups i"
    "named_names (i\<lparr>in_Bots := b\<rparr>) = named_names i" "named_ids (i\<lparr>in_Bots := b\<rparr>) = named_ids i"
    "read_invites cl (i\<lparr>in_Bots := b\<rparr>) = read_invites cl i"
    by (simp_all add: fun_eq_iff factsOf_def Lookups_def named_names_def named_ids_def read_invites_def involved_def)
  show ?thesis by (simp only: ObserveCached_def same)
qed

lemma derive_after_observing:
  assumes "ObserveCached cl i cache = Inr (obs, puts)"
  shows "\<exists>d. Slack_Derive (i\<lparr>in_Observed := obs, in_Bots := b\<rparr>) = Inr d"
proof -
  have "ObserveCached cl (i\<lparr>in_Bots := b\<rparr>) cache = Inr (obs, puts)" using assms by (simp add: ObserveCached_bots)
  from observation_is_enough_to_derive [OF this] obtain d
    where "Slack_Derive (i\<lparr>in_Bots := b, in_Observed := obs\<rparr>) = Inr d" by blast
  moreover have "i\<lparr>in_Bots := b, in_Observed := obs\<rparr> = i\<lparr>in_Observed := obs, in_Bots := b\<rparr>" by simp
  ultimately show ?thesis by (simp only: ex_simps) blast
qed

lemma records_distinct_tick:
  "records_distinct (decided_input c p holders key obs) \<longleftrightarrow>
     distinct (map cc_Name (filter (\<lambda>c. cc_Workspace c = key) (ps_console p)))"
  by (simp add: records_distinct_def decided_input_def tick_input_def)

definition reports_well :: "Controller \<Rightarrow> string \<Rightarrow> tick_out \<Rightarrow> bool" where
  "reports_well c key out =
     ((\<forall>e. wk_Outcome (to_Report out) \<noteq> OutcomeFailed (DeriveFailed e))
      \<and> (\<forall>e. wk_Outcome (to_Report out) = OutcomeFailed e \<longrightarrow> to_Calls out = [] \<and> to_Changes out = [] \<and> to_Events out = [])
      \<and> (\<not> tget False (ct_Enabled c) key \<longrightarrow> to_Calls out = [] \<and> to_Changes out = [] \<and> to_Events out = []))"

lemma reports_well_ends:
  "(\<And>x. e \<noteq> DeriveFailed x) \<Longrightarrow> reports_well c key (failed_tick c key started previous answers lg e b)"
  "reports_well c key (waiting_tick c key started answers lg)"
  "reports_well c key (finish_tick c p key started tok previous i v lg puts dec)"
  by (simp_all add: reports_well_def failed_tick_def waiting_tick_def finish_tick_def Let_def split: prod.splits)

lemma check_owner_failure: "first_err (check_owner p key) kfs = Some e \<Longrightarrow> e \<noteq> DeriveFailed x"
  by (auto simp: check_owner_def guard_err_def dest!: first_err_Some split: prod.splits if_splits sum.splits)

lemma tick_after_token:
  assumes "distinct (map cc_Name (filter (\<lambda>c. cc_Workspace c = key) (ps_console p)))"
    and "ObserveCached (ct_Reads c tok) (tick_input c p holders key no_Observed) (ct_Members c) = Inr (obs, puts)"
  shows "\<exists>d dec. Slack_Derive (decided_input c p holders key obs) = Inr d
    \<and> Slack_Decide (ct_Sha c) d (vo_out (vouch_all (ct_Digest c) (ct_Explain c) answers (Slack_Confirm d)))
        (store_confirmed (ps_store p) key started) = Some dec"
proof -
  from derive_after_observing [OF assms(2), of "tput key (ob_BotUserID obs) (in_Bots (tick_input c p holders key no_Observed))"]
  obtain d where d: "Slack_Derive (decided_input c p holders key obs) = Inr d" by (auto simp only: tick_input_observed)
  with decision_is_reached [OF d, of "ct_Sha c"] assms(1) records_distinct_tick show ?thesis by blast
qed

text \<open>
  C21. A tick ends in a report whatever the console, the directory and Slack answer, as long as no two
  console records of the workspace share a name: no decision runs into a row that is not there, and a
  workspace that was read is never found incomplete. A tick that failed made no call and recorded
  nothing, and neither did one of a workspace that is not enabled.
\<close>
theorem slack_tick_always_reports:
  assumes "distinct (map cc_Name (filter (\<lambda>c. cc_Workspace c = key) (ps_console p)))"
  shows "\<exists>out. workspace_tick c p key started previous answers lg = Some out
    \<and> (\<forall>e. wk_Outcome (to_Report out) \<noteq> OutcomeFailed (DeriveFailed e))
    \<and> (\<forall>e. wk_Outcome (to_Report out) = OutcomeFailed e \<longrightarrow> to_Calls out = [] \<and> to_Changes out = [] \<and> to_Events out = [])
    \<and> (\<not> tget False (ct_Enabled c) key \<longrightarrow> to_Calls out = [] \<and> to_Changes out = [] \<and> to_Events out = [])"
proof -
  let ?tick = "workspace_tick c p key started previous answers lg"
  have failed: "\<exists>out. Some (failed_tick c key started previous answers lg e b) = Some out \<and> reports_well c key out"
    if "\<And>x. e \<noteq> DeriveFailed x" for e b
    using reports_well_ends(1) [OF that] by blast
  have waiting: "\<exists>out. Some (waiting_tick c key started answers lg) = Some out \<and> reports_well c key out"
    using reports_well_ends(2) by blast
  have "\<exists>out. ?tick = Some out \<and> reports_well c key out"
  proof (cases "ps_holders p")
    case (Inr holders)
    let ?i0 = "tick_input c p holders key no_Observed"
    show ?thesis
    proof (cases "if dependsOnDirectory p key then ps_dirErr p else None")
      case None
      note up = Inr None
      show ?thesis
      proof (cases "store_token (ps_store p) key")
        case (Inl e)
        then show ?thesis using up failed [of "TokenFailed e"] waiting by (cases e) (simp_all add: workspace_tick_def)
      next
        case (Inr tok)
        note up = up Inr
        show ?thesis
        proof (cases "first_err (check_owner p key) (sorted_entries (in_Facts ?i0))")
          case (Some e)
          then show ?thesis using up failed [of e] check_owner_failure [OF Some] by (simp add: workspace_tick_def)
        next
          case None
          note up = up None
          show ?thesis
          proof (cases "ObserveCached (ct_Reads c tok) ?i0 (ct_Members c)")
            case (Inl e)
            then show ?thesis using up failed [of "ObserveFailed e"] by (simp add: workspace_tick_def)
          next
            case (Inr op)
            obtain obs puts where op: "op = (obs, puts)" by fastforce
            from tick_after_token [OF assms Inr [unfolded op], of answers started] obtain d dec
              where "Slack_Derive (decided_input c p holders key obs) = Inr d"
                "Slack_Decide (ct_Sha c) d (vo_out (vouch_all (ct_Digest c) (ct_Explain c) answers (Slack_Confirm d)))
                   (store_confirmed (ps_store p) key started) = Some dec" by blast
            then show ?thesis using up Inr op reports_well_ends(3)
              by (simp add: workspace_tick_def Let_def tick_input_observed)
          qed
        qed
      qed
    qed (use Inr failed in \<open>simp add: workspace_tick_def\<close>)
  qed (use failed in \<open>simp add: workspace_tick_def\<close>)
  then show ?thesis by (simp add: reports_well_def)
qed

section \<open>Removals and invitations of a tick\<close>

lemma kick_from: "Kick ident u \<in> set (call_for opt st a) \<Longrightarrow>
  act_Kind a = ActionRemove \<and> act_User a = u \<and> (act_ChannelID a = ident \<or> act_ChannelID a = [])"
  by (auto simp: call_for_def action_id_def split: SKind.splits if_splits)

lemma invite_from: "InviteUsers ident us \<in> set (call_for opt st a) \<Longrightarrow> act_Kind a = ActionInvite"
  by (auto simp: call_for_def split: SKind.splits if_splits)

text \<open>
  C13. A tick removes somebody from a channel only in a workspace that is enabled and was read whole, from
  a strict channel they were a member of and nothing wants them in, and on authoritative answers for
  every address of theirs that the console gave under the controller's own policy.
\<close>
theorem slack_tick_removes_on_vouched_evidence:
  assumes "workspace_tick c p key started previous answers lg = Some out"
    and "distinct (map cc_Name (filter (\<lambda>c. cc_Workspace c = key) (ps_console p)))"
    and "Kick ident u \<in> set (to_Calls out)"
  shows "tget False (ct_Enabled c) key
    \<and> (\<exists>tok i d dec lc ch m vouches. tick_decides c p key started answers tok i d dec
         \<and> lc \<in> set (layout (newResolver i)) \<and> (ch_ID ch = ident \<or> ch_ID ch = []) \<and> sm_ID m = u
         \<and> removable_from i vouches lc ch m \<and> (\<forall>e v. map_of vouches e = Some v \<longrightarrow> vouched_by c answers e v))"
proof -
  have "to_Calls out \<noteq> []" using assms(3) by auto
  from tick_calls [OF assms(1) this] obtain tok i d dec where en: "tget False (ct_Enabled c) key"
    and t: "tick_decides c p key started answers tok i d dec"
    and calls: "to_Calls out = ap_calls (Apply \<lparr>op_Workspace = key, op_DryRun = False, op_Audit = ct_Audit c, op_ExternalLimited = False\<rparr>
         (ct_Slack c tok) (de_Actions dec))" by blast
  let ?v = "vo_out (vouch_all (ct_Digest c) (ct_Explain c) answers (Slack_Confirm d))"
  from Apply_calls [OF assms(3) [unfolded calls]] kick_from obtain a where a: "a \<in> set (removed dec)" "act_User a = u"
    "act_ChannelID a = ident \<or> act_ChannelID a = []" by (fastforce simp: removed_def)
  from t have der: "Slack_Derive i = Inr d" and dis: "records_distinct i"
    and dec: "Slack_Decide (ct_Sha c) d ?v (store_confirmed (ps_store p) key started) = Some dec"
    using assms(2) by (auto simp: tick_decides_def records_distinct_tick)
  from slack_removals_rest_on_evidence [OF der dis dec a(1)] obtain lc ch m where
    "lc \<in> set (layout (newResolver i))" "ch_ID ch = act_ChannelID a" "sm_ID m = act_User a" "removable_from i ?v lc ch m" by blast
  with a en t vouch_all_vouched show ?thesis by metis
qed


end
