(* ===== verification/Slack_Scenario.thy ===== *)
theory Slack_Scenario
  imports Slack_Properties
begin

text \<open>
  A small deployment the theorems of the Slack controller are run on: the workspace \<open>acme\<close>, whose
  policy binds the private strict channel \<open>ops\<close> to one group, and the workspace \<open>beta\<close>, which hosts a
  Slack Connect channel with it. Each workspace is owned by a directory of its own.
\<close>

definition sl_policy :: Policy where
  "sl_policy = no_Policy\<lparr>p_Slack := \<lparr>sl_Workspaces =
     [(''acme'', \<lparr>sw_Channels = [(''ops'', \<lparr>sc_Private = True, sc_Mode = ''strict'', sc_Ignore = [], sc_From = [''g''], sc_Adopt = []\<rparr>)]\<rparr>),
      (''beta'', \<lparr>sw_Channels = []\<rparr>)]\<rparr>\<rparr>"

definition sl_store :: store where
  "sl_store =
     \<lparr>so_credentials = [(''acme'', Inr ''t'')], so_bots = [(''acme'', ''UR''), (''beta'', ''US'')],
      so_recorded = [(''acme'', \<lparr>rd_team = ''T1'', rd_owner = ''d1''\<rparr>), (''beta'', \<lparr>rd_team = ''T2'', rd_owner = ''d2''\<rparr>)],
      so_shared = [], so_console = [], so_confirmation = []\<rparr>"

definition sl_pass :: pass where
  "sl_pass =
     \<lparr>ps_store = sl_store, ps_shared = [], ps_console = [], ps_refused = [], ps_consoleRefused = [],
      ps_dir = no_directoryGroups, ps_dirErr = None,
      ps_holders = Inr [(''g'', [\<lparr>ho_Email = ''a@x'', ho_Live = True\<rparr>, \<lparr>ho_Email = ''b@x'', ho_Live = True\<rparr>])],
      ps_served = Inr [(''d1'', [''x'']), (''d2'', [''y''])]\<rparr>"

definition sl_user :: "string \<Rightarrow> string \<Rightarrow> User" where
  "sl_user ident email =
     \<lparr>us_ID = ident, us_TeamID = ''T1'', us_Deleted = False, us_IsBot = False, us_IsRestricted = False,
      us_IsUltraRestricted = False, us_IsAppUser = False, us_Email = email\<rparr>"

definition sl_conversation :: "string \<Rightarrow> string \<Rightarrow> bool \<Rightarrow> Conversation" where
  "sl_conversation ident name private =
     \<lparr>co_ID = ident, co_Name = name, co_IsPrivate = private, co_IsArchived = False, co_IsGeneral = False, co_IsMember = True,
      co_IsExtShared = False, co_SharedTeamIDs = [], co_ConnectedTeamIDs = [], co_PendingSharedTeamIDs = [],
      co_PendingConnectedTeamIDs = [], co_InternalTeamIDs = [], co_ConversationHostID = [], co_NumMembers = 3, co_Creator = ''UR''\<rparr>"

text \<open>Ann is in the channel, Bob is not yet, Eve is and no binding names her.\<close>

definition sl_client :: Client where
  "sl_client =
     \<lparr>cl_AuthTest = Inr (''T1'', ''UR''),
      cl_LookupByEmail = (\<lambda>e. Inr (if e = ''a@x'' then Some (sl_user ''UA'' e)
                                   else if e = ''b@x'' then Some (sl_user ''UB'' e) else None)),
      cl_AllChannels = Inr [sl_conversation ''C1'' ''ops'' True],
      cl_Members = (\<lambda>_. Inr [''UR'', ''UA'', ''UE'']),
      cl_UserInfo = (\<lambda>u. Inr (sl_user u ''e@x'')),
      cl_ConnectInvites = Inr []\<rparr>"

definition sl_gone :: Vouch where
  "sl_gone = \<lparr>v_Authoritative = True, v_Found = False, v_Suspended = False, v_Groups = [], v_DirectoryGroups = []\<rparr>"

definition sl_controller :: Controller where
  "sl_controller =
     \<lparr>ct_Policy = sl_policy, ct_Digest = ''p'', ct_Enabled = [(''acme'', True)], ct_Audit = True,
      ct_Reads = (\<lambda>_. sl_client), ct_Slack = (\<lambda>_ _ _. Inr ''ok''), ct_Members = None,
      ct_Explain = (\<lambda>_. Inr (sl_gone, ''p'')), ct_Sha = id, ct_Text = (\<lambda>_. []), ct_RefusalText = (\<lambda>_. [])\<rparr>"

definition sl_ledgers :: ledgers where
  "sl_ledgers = \<lparr>lg_held = [], lg_leavers = [], lg_adopted = []\<rparr>"

definition sl_previous :: TickReport where
  "sl_previous = \<lparr>wk_Status = no_StatusWorkspace ''acme'', wk_Enabled = True, wk_At = 0, wk_Outcome = OutcomeOf OutcomeInSync, wk_Recorded = []\<rparr>"

abbreviation sl_tick :: "tick_out option" where
  "sl_tick \<equiv> workspace_tick sl_controller sl_pass ''acme'' 0 sl_previous [] sl_ledgers"

lemma sl_tick_calls:
  "case sl_tick of None \<Rightarrow> False | Some out \<Rightarrow> to_Calls out = [InviteUsers ''C1'' [''UB''], Kick ''C1'' ''UE'']"
  by code_simp

lemma sl_tick_runs: "\<exists>out. sl_tick = Some out \<and> to_Calls out = [InviteUsers ''C1'' [''UB''], Kick ''C1'' ''UE'']"
  using sl_tick_calls by (auto split: option.splits)

lemma sl_no_records: "distinct (map cc_Name (filter (\<lambda>c. cc_Workspace c = ''acme'') (ps_console sl_pass)))"
  by (simp add: sl_pass_def)

text \<open>The decision of that tick, and its one removal.\<close>

lemma sl_decision:
  "\<exists>tok i d dec. tick_decides sl_controller sl_pass ''acme'' 0 [] tok i d dec \<and> in_Workspace i = ''acme''
    \<and> (\<exists>a\<in>set (de_Actions dec). act_Kind a = ActionInvite) \<and> (\<exists>a\<in>set (removed dec). act_User a = ''UE'')"
proof -
  obtain out where out: "sl_tick = Some out" "to_Calls out = [InviteUsers ''C1'' [''UB''], Kick ''C1'' ''UE'']"
    using sl_tick_runs by blast
  then have "to_Calls out \<noteq> []" by simp
  from tick_calls [OF out(1) this] obtain tok i d dec where t: "tick_decides sl_controller sl_pass ''acme'' 0 [] tok i d dec"
    and calls: "to_Calls out = ap_calls (Apply \<lparr>op_Workspace = ''acme'', op_DryRun = False, op_Audit = ct_Audit sl_controller,
        op_ExternalLimited = False\<rparr> (ct_Slack sl_controller tok) (de_Actions dec))" by blast
  let ?calls = "ap_calls (Apply \<lparr>op_Workspace = ''acme'', op_DryRun = False, op_Audit = ct_Audit sl_controller,
        op_ExternalLimited = False\<rparr> (ct_Slack sl_controller tok) (de_Actions dec))"
  have inv: "InviteUsers ''C1'' [''UB''] \<in> set ?calls" and kick: "Kick ''C1'' ''UE'' \<in> set ?calls"
    unfolding calls [symmetric] out(2) by simp_all
  have "in_Workspace i = ''acme''" using t by (auto simp: tick_decides_def decided_input_def tick_input_def)
  moreover have "\<exists>a\<in>set (de_Actions dec). act_Kind a = ActionInvite"
    using Apply_calls [OF inv] invite_from by blast
  moreover have "\<exists>a\<in>set (removed dec). act_User a = ''UE''"
    using Apply_calls [OF kick] kick_from unfolding removed_def by fastforce
  ultimately show ?thesis using t by blast
qed

section \<open>Runs of the theorems\<close>

theorem slack_tick_removes_witness:
  "tget False (ct_Enabled sl_controller) ''acme''
   \<and> (\<exists>i vouches lc ch m. lc \<in> set (layout (newResolver i)) \<and> sm_ID m = ''UE'' \<and> removable_from i vouches lc ch m)"
proof -
  obtain out where out: "sl_tick = Some out" "Kick ''C1'' ''UE'' \<in> set (to_Calls out)" using sl_tick_runs by auto
  from slack_tick_removes_on_vouched_evidence [OF out(1) sl_no_records out(2)] show ?thesis by blast
qed


theorem slack_tick_reports_witness:
  "\<exists>out. workspace_tick (sl_controller\<lparr>ct_Enabled := []\<rparr>) sl_pass ''acme'' 0 sl_previous [] sl_ledgers = Some out \<and> to_Calls out = []"
  using slack_tick_always_reports [OF sl_no_records, of "sl_controller\<lparr>ct_Enabled := []\<rparr>" 0 sl_previous "[]" sl_ledgers]
  by (auto simp: tget_def)


theorem confirmed_addresses_witness:
  "\<exists>i d. Slack_Derive i = Inr d
     \<and> Slack_Decide id d [] \<lparr>cf_Workspace = [], cf_Channels = []\<rparr>
         = Slack_Decide id d [(''@'' @ concat (Slack_Confirm d), sl_gone)] \<lparr>cf_Workspace = [], cf_Channels = []\<rparr>"
proof -
  from sl_decision obtain i d where d: "Slack_Derive i = Inr d" by (auto simp: tick_decides_def)
  have "length a < length (''@'' @ concat (Slack_Confirm d))" if "a \<in> set (Slack_Confirm d)" for a
  proof -
    have "length a \<le> sum_list (map length (Slack_Confirm d))" using that by (intro member_le_sum_list) simp_all
    then show ?thesis by (simp add: length_concat)
  qed
  then have "\<forall>a\<in>set (Slack_Confirm d). map_of [] a = map_of [(''@'' @ concat (Slack_Confirm d), sl_gone)] a"
    by (metis less_irrefl map_of.simps(1) map_of_Cons_code(2))
  from confirmed_addresses_settle_the_decision [OF this] d show ?thesis by blast
qed

theorem console_keys_witness: "read_key ''_channel.acme.dev.json'' = Some (ChannelDoc ''acme'' ''dev'')"
proof -
  have "document_ok (ChannelDoc ''acme'' ''dev'')" by code_simp
  from console_keys_read_back [OF this] show ?thesis by (simp add: ConsoleKey_def)
qed


section \<open>A Slack Connect channel named like a bound one\<close>

text \<open>The channel \<open>ops\<close> hosted by \<open>beta\<close> and shared with \<open>acme\<close>, which binds a channel of that name.\<close>

definition sl_shared :: SharedChannel where
  "sl_shared =
     \<lparr>sh_Name = ''ops'', sh_Host = ''beta'', sh_With = [''acme''], sh_Sources = [''s@y''], sh_Members = [],
      sh_Private = \<lparr>pv_All = False, pv_PerSide = None\<rparr>, sh_ChannelID = []\<rparr>"

definition sl_account :: "string \<Rightarrow> SAccount" where
  "sl_account ident = \<lparr>sac_ID = ident, sac_Found = True, sac_Deleted = False, sac_Guest = False, sac_Bot = False, sac_TeamID = ''T1''\<rparr>"

definition sl_input :: Input where
  "sl_input =
     \<lparr>in_Workspace = ''acme'', in_Workspaces = sl_Workspaces (p_Slack sl_policy),
      in_Facts = [(''acme'', \<lparr>fa_Team = ''T1'', fa_Owner = ''d1'', fa_Domains = [''x'']\<rparr>),
                  (''beta'', \<lparr>fa_Team = ''T2'', fa_Owner = ''d2'', fa_Domains = [''y'']\<rparr>)],
      in_People = [], in_Holders = [(''g'', [\<lparr>ho_Email = ''a@x'', ho_Live = True\<rparr>])], in_Shared = [sl_shared], in_Console = [],
      in_DefinedTwice = [], in_DirHolders = [(''s@y'', [\<lparr>ho_Email = ''c@x'', ho_Live = True\<rparr>])], in_DirUsers = [],
      in_DirNested = [], in_Bots = [(''acme'', ''UR''), (''beta'', ''US'')],
      in_Observed = \<lparr>ob_TeamID = ''T1'', ob_BotUserID = ''UR'', ob_Channels = [],
        ob_Accounts = [(''a@x'', sl_account ''UA''), (''c@x'', sl_account ''UC'')], ob_Members = [],
        ob_Invites = [\<lparr>inv_ID = ''I1'', inv_Incoming = True, inv_HostTeamID = ''T2'', inv_ChannelID = ''C2'', inv_ChannelName = ''ops'',
                       inv_RecipientUserID = ''UR''\<rparr>]\<rparr>\<rparr>"

definition sl_nothing_confirmed :: Confirmed where
  "sl_nothing_confirmed = \<lparr>cf_Workspace = [], cf_Channels = []\<rparr>"

text \<open>Slack makes the bound channel, and refuses the acceptance of the shared one.\<close>

definition sl_refuses_accept :: slack_api where
  "sl_refuses_accept past c =
     (case c of AcceptSharedInvite _ _ _ \<Rightarrow> Inl (SlackRefused ''not_allowed'') | _ \<Rightarrow> Inr ''C1'')"

definition calls_of :: "Options \<Rightarrow> slack_api \<Rightarrow> derive_err + SDraft \<Rightarrow> Vouch table \<Rightarrow> slack_call list" where
  "calls_of opt api draft vouches =
     (case draft of Inl _ \<Rightarrow> []
      | Inr d \<Rightarrow> (case Slack_Decide id d vouches sl_nothing_confirmed of None \<Rightarrow> [] | Some dec \<Rightarrow> ap_calls (Apply opt api (de_Actions dec))))"

definition sl_options :: Options where
  "sl_options = \<lparr>op_Workspace = ''acme'', op_DryRun = False, op_Audit = True, op_ExternalLimited = False\<rparr>"



section \<open>Somebody listed by name\<close>

text \<open>Eve is listed by name in a strict console channel; the hub did not have her live when it was asked about the list.\<close>

definition sl_console :: ConsoleChannel where
  "sl_console =
     \<lparr>cc_Workspace = ''acme'', cc_Name = ''dev'', cc_ChannelID = [], cc_Private = True, cc_Mode = ''strict'', cc_Ignore = [],
      cc_Sources = [''s@x''], cc_Members = [''e@x''], cc_CreatedBy = [], cc_CreatedAt = 0, cc_UpdatedBy = [], cc_UpdatedAt = 0\<rparr>"

definition sl_member :: "string \<Rightarrow> string \<Rightarrow> SMember" where
  "sl_member ident email = \<lparr>sm_ID = ident, sm_Email = email, sm_TeamID = ''T1'', sm_Bot = False, sm_Deleted = False, sm_Guest = False\<rparr>"

definition sl_listed :: Input where
  "sl_listed = sl_input\<lparr>in_Workspaces := [(''acme'', no_SlackWorkspace)], in_Shared := [], in_Console := [sl_console],
     in_DirHolders := [(''s@x'', [\<lparr>ho_Email = ''a@x'', ho_Live = True\<rparr>])], in_DirUsers := [(''e@x'', \<lparr>ho_Email = ''e@x'', ho_Live = False\<rparr>)],
     in_Observed := \<lparr>ob_TeamID = ''T1'', ob_BotUserID = ''UR'',
        ob_Channels = [(observed_channel (sl_conversation ''C1'' ''dev'' True))\<lparr>ch_Members := [''UA'', ''UE''], ch_MembersKnown := True\<rparr>],
        ob_Accounts = [(''a@x'', sl_account ''UA'')], ob_Members = [(''UE'', sl_member ''UE'' ''e@x'')], ob_Invites = []\<rparr>\<rparr>"

definition sl_active :: Vouch where
  "sl_active = \<lparr>v_Authoritative = True, v_Found = True, v_Suspended = False, v_Groups = [], v_DirectoryGroups = []\<rparr>"


end
