(* ===== verification/Spec2Isabelle.thy ===== *)
theory Spec2Isabelle
  imports Policy_Properties Lease GitHub_Guard State_Codec Portstore Authorizer Session_Properties
    GitHub_Grant Issuing_Properties Slack_Scenario
begin

text \<open>
  A verification library for access-roster, the service that decides who holds which access.

  \<^bold>\<open>The program.\<close> A policy (\<open>src/policy\<close>) names internal groups, how a verified proof comes to be in them,
  what they add to a token, how long a token lives and which client may be issued one. The hub
  (\<open>src/internal/access\<close>, \<open>src/internal/hub\<close>) asks directories who a person is and turns a principal into an
  identity under the policy. The issuer (\<open>src/internal/issuer\<close>) signs people in, issues tokens and keeps the
  sessions behind refresh tokens. Reconcilers (\<open>src/internal/githubroster\<close>, \<open>src/internal/slackroster\<close>) bring
  the members of outside organisations in line with the policy, on shared rails (\<open>src/internal/rails\<close>).
  Everything is kept through storage ports (\<open>src/internal/port\<close>), of which one adapter is in memory, and domain
  stores over them (\<open>src/internal/portstore\<close>).

  \<^bold>\<open>The language.\<close>
  \<^item> \<open>Go_Prelude\<close>: checks that return the first error, maps with the interface \<open>go_map\<close> (interpreted as \<open>tbl\<close> on
    association lists, so that every operation computes), strings as bytes. \<open>Utf8\<close>: the runes of a string.
    \<open>Encoding\<close>: unpadded URL-safe base64 and decimal integers, with their round trips. A Go \<open>int\<close>,
    a \<open>time.Duration\<close> and an instant are \<^typ>\<open>int\<close>: none of the modelled arithmetic is meant to wrap, and the
    bounds the theorems give are far inside 64 bits.

  \<^bold>\<open>The policy.\<close>
  \<^item> \<open>Glob\<close> (\<open>globs\<close>, with \<open>path.Match\<close>), \<open>Names\<close> (names of grants and subjects), \<open>Ladders\<close> and \<open>Vocabulary\<close>
    (\<open>vocabulary.go\<close>: the search for a cycle, wildcards), \<open>Fragments\<close> (\<open>merge.go\<close>, \<open>checkFragments\<close>).
  \<^item> \<open>Policy_Model\<close> (the tables), \<open>Evaluate\<close> (\<open>evaluate.go\<close>), \<open>Scope\<close> (\<open>scope.go\<close>, \<open>groups_delimiter.go\<close>,
    \<open>resource.go\<close>, \<open>clientdoc.go\<close>), \<open>Validate\<close> (\<open>Policy.Validate\<close>), \<open>Load\<close> (\<open>set.go\<close>, \<open>access.go\<close>), \<open>Lint\<close>
    (warnings and views).
  \<^item> \<open>Policy_Properties\<close>: the groups of a token are the closure of the seeded grants under the ladders, each
    with its reason; nothing is granted on membership the directory does not vouch for; a sensitive scope is
    reached by a concrete key only; lifetimes, scoping and caps have the bounds they promise; the load-time
    checks are exact, or miss what two theorems exhibit.

  \<^bold>\<open>Storage.\<close>
  \<^item> \<open>Port_State\<close>: the \<open>State\<close> port as a record of operations and its contract, the locale \<open>state_port\<close>.
    \<open>Memory_Store\<close>: the in-memory adapter, interpreted as \<open>mem\<close>. \<open>Memory_Pages\<close>: page tokens, listing, and
    \<open>listAll\<close>, a loop that may in principle not end (\<open>partial_function\<close>) and is shown to end with every live
    record. \<open>Portstore\<close>: key segments, and the compare-and-swap loop of sixteen attempts run against other
    writers: a change that returns was applied to exactly what it read.

  \<^bold>\<open>Reconcilers.\<close>
  \<^item> \<open>Lease\<close>: leases over \<open>state_port\<close>, the step relation of runners and time, mutual exclusion. \<open>Rails\<close>:
    vouches, confirmations, the breaker, the ledger, outcomes and pacing. \<open>GitHub_Reconcile\<close>: \<open>Derive\<close> and
    \<open>Decide\<close>; \<open>GitHub_Safety\<close>: what they guarantee; \<open>GitHub_Guard\<close>: the organisation-wide rules.
  \<^item> \<open>Slack_Layout\<close> (\<open>slackroster/reconcile/reconcile.go\<close>): the console's records and their validation, who is who,
    the channels a workspace lays out. \<open>Slack_Reconcile\<close> (\<open>derive.go\<close>, \<open>decide.go\<close>): \<open>Derive\<close>, \<open>Confirm\<close> and \<open>Decide\<close>.
    \<open>Slack_Safety\<close>: what a decision rests on, that it is always reached, that one workspace looks each person up.
    \<open>Slack_Apply\<close> (\<open>slackroster/apply\<close>): a workspace observed, a decision carried out. \<open>Slack_Controller\<close>
    (\<open>slackroster/controller\<close>, \<open>slackroster/connection\<close>): the documents a pass reads, what it asks the directory, the
    tick of a workspace from its inputs to its report. \<open>Slack_Properties\<close>: the tick as a whole removes on vouched
    evidence, within the breakers, and ends in a report. \<open>Slack_Scenario\<close>: a deployment these are run on, and two
    ways a person ends up in or out of a channel against the intent.

  \<^bold>\<open>Hub and issuer.\<close>
  \<^item> \<open>Authorizer\<close> (\<open>access.go\<close>): roles, scopes, the hold window, refusal of accounts that are not live.
    \<open>State_Codec\<close> (\<open>access/state.go\<close>): the signed state of a sign-in.
  \<^item> \<open>Login_State\<close> (\<open>issuer/state.go\<close>, \<open>issuer/portstate.go\<close>): the interface \<open>State\<close>, the locale \<open>login_state\<close> that
    says what its operations do to an abstract view of the store, and the two implementations that refine
    it (\<open>ms\<close>, in one process, and \<open>ps\<close>, over the ports). \<open>Sessions\<close> (\<open>issuer/session.go\<close>): every operation of the
    session index; \<open>Session_Laws\<close> and \<open>Session_Safety\<close>: their effect on a view and the invariants of any
    sequence of operations, under the contract alone; \<open>Session_Properties\<close>: the limit, rotation and replay,
    revocation, listing, and the two races the code does not exclude.
  \<^item> \<open>Key_Ring\<close> (\<open>issuer/keyring.go\<close>, \<open>issuer/keyrings.go\<close>): which signing keys a replica publishes and which one
    it signs with, over the shared state: a key is published before it signs and for the overlap after, and when
    it is activated is decided once. \<open>GitHub_Grant\<close> (\<open>githubapp/catalogue\<close>, \<open>issuer/githubtoken.go\<close>): the catalogue
    of GitHub Apps, its validation, and which installation tokens it lets be minted.
  \<^item> \<open>Issuer_Decide\<close> (\<open>issuer/issuer.go\<close>, \<open>resolve.go\<close>, \<open>exchange.go\<close>, \<open>scoping_enforce.go\<close>, \<open>groups_delimiter.go\<close>,
    \<open>grants.go\<close>, \<open>resource.go\<close>, \<open>recovery.go\<close>): who a person is now and within the hold window, what a proof may be
    exchanged for, what its token shows. \<open>SSO\<close> (\<open>sso.go\<close>): the browser sign-ins, over \<open>login_state\<close>.
    \<open>Client_Documents\<close> (\<open>clientdoc.go\<close>): clients that describe themselves, with their cache.
  \<^item> \<open>Issuer_Storage\<close> (\<open>storage.go\<close>, \<open>signing_audience.go\<close>, \<open>mint.go\<close>): the operations the OpenID library calls, each
    on one state of store, resolver, documents, trail and signing audience. \<open>Issuing\<close>: the step relation of all of them with
    time passing, and the invariant it keeps: whatever is stored reads as what its key says. \<open>Issuing_Properties\<close>: a code
    opens one session, a token lives within every bound, a refresh asks the policy again, revocation silences a token,
    a recovery leaves a trace, and the window in which a code can be presented twice.
  \<^item> \<open>Record_Text\<close>, \<open>Token_Text\<close>: text forms of records, to run the stores with.
  \<^item> This theory: the policy's limits, put into the sessions, bound every session.

  \<^bold>\<open>Parameters.\<close> \<open>url.Parse\<close>, SHA-256 and HMAC, the JSON form of what is stored, random identifiers, the directory's
  answers, the fetch of a client's document, the verifiers of subject tokens and the APIs of GitHub and Slack are arguments of the
  definitions that use them. What a theorem asks of one
  is in its hypotheses: a digest that tells two given tokens apart, a JSON form that is read back. The clock is
  an argument or part of the state; an operation takes no time on it. Errors of the stores are values;
  the in-memory stores fail only where the code says so, and their failing operations change nothing. Where
  Go leaves the order of a map's entries open, the model takes the sorted order.

  \<^bold>\<open>Not modelled.\<close> YAML and JSON syntax, HTTP and Connect handlers, cookies, the OpenID library and the
  protocol endpoints on it, goroutines, channels and the delivery of watch events, sealing of values,
  the adapters of external services (DynamoDB, NATS, OpenBao, S3, Valkey), the Kubernetes and Lambda
  clients, the command line, and the clients of Google, GitHub and Slack. An operation of the issuer's storage runs
  to its end before the next, except a rotation, which may write long after it read. Of the Slack controller the
  loop, the watch of mounted files, the waking of guests and the probe of their sides, logs and metrics are left
  out; so are the sign-in pages, the hub's connectors and the export jobs.
\<close>

section \<open>The policy bounds every session\<close>

text \<open>The limit the issuer asks the policy for.\<close>

definition absoluteForResources :: "Policy \<Rightarrow> int \<Rightarrow> string list \<Rightarrow> int" where
  "absoluteForResources p absolute touched = Set_EffectiveAbsolute p absolute touched"

lemma resolver_absolute:
  "absoluteOf (SetAbsoluteResolver (absoluteForResources p absolute) S) [r] = EffectiveAbsolute absolute [r] (Some (map_of (p_Resources p)))"
  by (simp add: absoluteOf_def SetAbsoluteResolver_def absoluteForResources_def Set_EffectiveAbsolute_def)


text \<open>The sample policy, two hours for the installation, and the session Ada opened under it.\<close>

definition w_issuer :: "Store Sessions" where
  "w_issuer = SetAbsoluteResolver (absoluteForResources sample_policy 7200000000000) (w_sessions port_state)"

lemma w_issuer_record: "Record w_issuer (st_now (Store_New 0)) ''id1'' w_opened (Store_New 0) = (w_store, Inr w_session)"
  by code_simp

lemma w_issuer_run: "sess_run w_issuer st_now Store_Advance True (Store_New 0) w_store"
  by (rule run_step [OF run_start step_record [where clock = st_now, OF w_issuer_record]]) simp


end
